(* ===== verification/RH_Prelude.thy ===== *)
theory RH_Prelude
  imports Main "HOL-Library.Word"
begin

section \<open>Prelude: bytes, little-endian integers, strings\<close>

text \<open>
  What every component of the development shares: the type of bytes, the native
  (little-endian) representation of the fixed-width integers that the code copies to and
  from its sockets, the correspondence between \<open>std::string\<close> (a sequence of bytes) and
  HOL's \<open>string\<close>, the string searches of the C++ library that the code uses, and the
  theorem collections of the development.
\<close>

unbundle bit_operations_syntax

type_synonym byte = "8 word"
type_synonym u8 = "8 word"
type_synonym u16 = "16 word"
type_synonym u32 = "32 word"
type_synonym u64 = "64 word"

named_theorems io_eval \<open>symbolic execution of the io monad\<close>
named_theorems wire_len \<open>lengths of encoded values\<close>

subsection \<open>Lists\<close>

lemma take_append_len [simp]: "n = length xs \<Longrightarrow> take n (xs @ ys) = xs"
  by simp

lemma drop_append_len [simp]: "n = length xs \<Longrightarrow> drop n (xs @ ys) = ys"
  by simp

lemma set_take_in: "x \<in> set (take n xs) \<Longrightarrow> x \<in> set xs"
  by (rule in_set_takeD)

lemma concat_map_append: "concat (map f (xs @ ys)) = concat (map f xs) @ concat (map f ys)"
  by simp

subsection \<open>Little-endian integers\<close>

text \<open>
  \<open>memcpy(v,&x,n)\<close> and \<open>readAllOrExit(&x,n)\<close> on the (little-endian) platforms the
  program is built for: byte \<open>i\<close> holds bits \<open>8i..8i+7\<close>.
\<close>

definition le_bytes :: "nat \<Rightarrow> 'a::len word \<Rightarrow> byte list" where
  "le_bytes n w = map (\<lambda>i. ucast (drop_bit (8 * i) w)) [0..<n]"

fun le_word :: "byte list \<Rightarrow> 'a::len word" where
  "le_word [] = 0"
| "le_word (b # bs) = ucast b OR push_bit 8 (le_word bs)"

lemma length_le_bytes [simp, wire_len]: "length (le_bytes n w) = n"
  by (simp add: le_bytes_def)

lemma nth_le_bytes: "i < n \<Longrightarrow> le_bytes n w ! i = ucast (drop_bit (8 * i) w)"
  by (simp add: le_bytes_def)

lemma bit_le_word:
  "bit (le_word bs :: 'a::len word) k \<longleftrightarrow>
     k < LENGTH('a) \<and> k div 8 < length bs \<and> bit (bs ! (k div 8)) (k mod 8)"
proof (induction bs arbitrary: k)
  case Nil
  then show ?case by simp
next
  case (Cons b bs)
  show ?case
  proof (cases "k < 8")
    case True
    then show ?thesis by (auto simp: bit_simps)
  next
    case False
    then have "k div 8 = Suc ((k - 8) div 8)" and "k mod 8 = (k - 8) mod 8"
      by (simp_all add: le_div_geq le_mod_geq)
    with False show ?thesis
      by (auto simp: bit_simps Cons.IH dest: bit_imp_le_length)
  qed
qed

lemma le_word_le_bytes [simp]:
  fixes w :: "'a::len word"
  assumes "LENGTH('a) \<le> 8 * n"
  shows "le_word (le_bytes n w) = w"
proof (rule bit_word_eqI)
  fix k
  assume k: "k < LENGTH('a)"
  with assms have "k div 8 < n" by linarith
  then show "bit (le_word (le_bytes n w) :: 'a word) k = bit w k"
    using k by (simp add: bit_le_word nth_le_bytes bit_simps)
qed

lemma le_bytes_le_word:
  assumes "length bs = n" and "8 * n \<le> LENGTH('a::len)"
  shows "le_bytes n (le_word bs :: 'a word) = bs"
proof (rule nth_equalityI)
  show "length (le_bytes n (le_word bs :: 'a word)) = length bs"
    using assms by simp
next
  fix i
  assume "i < length (le_bytes n (le_word bs :: 'a word))"
  then have i: "i < n" by simp
  show "le_bytes n (le_word bs :: 'a word) ! i = bs ! i"
  proof (rule bit_word_eqI)
    fix k
    assume "k < LENGTH(8)"
    then have k: "k < 8" by simp
    then have "(8 * i + k) div 8 = i" and "(8 * i + k) mod 8 = k" by simp_all
    with i k assms show "bit (le_bytes n (le_word bs :: 'a word) ! i) k = bit (bs ! i) k"
      by (simp add: nth_le_bytes bit_simps bit_le_word)
  qed
qed

lemma le_bytes_1 [simp]: "le_bytes (Suc 0) (w :: u8) = [w]"
  by (simp add: le_bytes_def)

lemma le_word_1 [simp]: "le_word [b] = (b :: u8)"
  by simp

subsection \<open>std::string as HOL strings\<close>

definition s2b :: "string \<Rightarrow> byte list" where
  "s2b s = map of_char s"

definition b2s :: "byte list \<Rightarrow> string" where
  "b2s bs = map (\<lambda>b. char_of (unat b)) bs"

lemma char_of_unat_of_char [simp]: "char_of (unat (of_char c :: byte)) = c"
proof -
  have lt: "(of_char c :: nat) < 256"
    using of_char_mod_256 [of c] by (metis mod_less_divisor zero_less_numeral)
  have "(of_char c :: byte) = of_nat (of_char c)" by (simp only: of_nat_of_char)
  then have "unat (of_char c :: byte) = (of_char c :: nat) mod 256"
    by (simp only: unat_of_nat) simp
  with lt have "unat (of_char c :: byte) = (of_char c :: nat)" by simp
  then show ?thesis by simp
qed

lemma length_s2b [simp, wire_len]: "length (s2b s) = length s"
  by (simp add: s2b_def)

lemma length_b2s [simp]: "length (b2s s) = length s"
  by (simp add: b2s_def)

lemma b2s_s2b [simp]: "b2s (s2b s) = s"
  by (simp add: b2s_def s2b_def comp_def)

lemma s2b_append [simp]: "s2b (s @ t) = s2b s @ s2b t"
  by (simp add: s2b_def)

lemma b2s_append [simp]: "b2s (s @ t) = b2s s @ b2s t"
  by (simp add: b2s_def)

lemma b2s_take: "b2s (take n s) = take n (b2s s)"
  by (simp add: b2s_def take_map)

lemma s2b_take: "s2b (take n s) = take n (s2b s)"
  by (simp add: s2b_def take_map)

lemma s2b_Nil [simp]: "s2b [] = []"
  by (simp add: s2b_def)

lemma b2s_Nil [simp]: "b2s [] = []"
  by (simp add: b2s_def)

lemma unat_lt2p_byte: "unat (b :: byte) < 256"
proof -
  have "unat b < 2 ^ LENGTH(8)" by (rule unsigned_less)
  then show ?thesis by simp
qed

lemma s2b_b2s [simp]: "s2b (b2s bs) = bs"
proof -
  have "(of_char (char_of (unat b) :: char) :: byte) = b" for b :: byte
  proof -
    have "(of_char (char_of (unat b) :: char) :: byte) = of_nat (of_char (char_of (unat b) :: char))"
      by (simp only: of_nat_of_char)
    also have "\<dots> = of_nat (unat b mod 256)" by (simp only: of_char_of)
    also have "unat b mod 256 = unat b"
      using unat_lt2p_byte by (rule mod_less)
    also have "of_nat (unat b) = b" by simp
    finally show ?thesis .
  qed
  then show ?thesis by (simp add: s2b_def b2s_def comp_def)
qed

lemma s2b_inj [simp]: "s2b s = s2b t \<longleftrightarrow> s = t"
  by (metis b2s_s2b)

end
