(* ===== verification/RH_RingBuffer.thy ===== *)
theory RH_RingBuffer
  imports RH_Prelude
begin

section \<open>The ring buffer between the TLS receiver and the protocol threads\<close>

text \<open>
  \<open>RootHelper/ReliableRingBuffer.h\<close>: a bounded circular byte buffer with one reader and one
  writer thread. The class's fields are the record \<open>rb\<close>; every method is a definition with
  the checks of the source, the calls of \<open>_Exit\<close> included (\<open>RbExit\<close>, with the source's exit
  code). Waiting on a condition variable is the value \<open>RbWait\<close>; what the method does after the
  wait is a definition of its own (\<open>rb_read_woken\<close>, \<open>rb_write_woken\<close>), so that the
  interleavings of the two threads can be written as a step relation (second half).
  The C++ \<open>int\<close> indices are naturals: \<open>rb_index_bounds\<close> shows that no sum of the code
  leaves the range of \<open>int\<close> for the capacities in use.
\<close>

record rb =
  capacity :: nat
  ringbuffer :: "byte list"
  readIdx :: nat
  writeIdx :: nat
  rb_closed :: bool
  brokenConnection :: bool

datatype rb_out =
    RbExit nat
  | RbWait
  | RbRet int "byte list"

definition DEFAULT_CAPACITY :: nat where
  "DEFAULT_CAPACITY = 1048576"

definition rb_new :: "nat \<Rightarrow> rb" where
  "rb_new cap = \<lparr>capacity = cap, ringbuffer = replicate cap 0, readIdx = 0, writeIdx = 0,
     rb_closed = False, brokenConnection = False\<rparr>"

definition oneDirCircularDistance :: "rb \<Rightarrow> nat" where
  "oneDirCircularDistance s = (writeIdx s + capacity s - readIdx s) mod capacity s"

definition incrementRead :: "nat \<Rightarrow> rb \<Rightarrow> nat + rb" where
  "incrementRead offset s =
     (if offset > oneDirCircularDistance s then Inl 89
      else Inr (s\<lparr>readIdx := (readIdx s + offset + capacity s) mod capacity s\<rparr>))"

definition incrementWrite :: "nat \<Rightarrow> rb \<Rightarrow> nat + rb" where
  "incrementWrite offset s =
     (if offset > capacity s - oneDirCircularDistance s - 1 then Inl 107
      else Inr (s\<lparr>writeIdx := (writeIdx s + offset + capacity s) mod capacity s\<rparr>))"

text \<open>\<open>close(bool)\<close>: only the first close has an effect (compare-exchange on the flag).\<close>

definition rb_close :: "bool \<Rightarrow> rb \<Rightarrow> rb" where
  "rb_close broken s =
     (if rb_closed s then s else s\<lparr>rb_closed := True, brokenConnection := broken\<rparr>)"

definition rb_reset :: "rb \<Rightarrow> rb" where
  "rb_reset s = s\<lparr>readIdx := 0, writeIdx := 0, rb_closed := False\<rparr>"

definition rb_isEmpty :: "rb \<Rightarrow> bool" where
  "rb_isEmpty s \<longleftrightarrow> readIdx s = writeIdx s"

text \<open>The EOF-like return value of a closed, drained buffer.\<close>

definition rb_eof :: "rb \<Rightarrow> rb_out" where
  "rb_eof s = RbRet (if brokenConnection s then -1 else 0) []"

text \<open>The copying part of \<open>read\<close>: one or two \<open>memcpy\<close>s, then the index update.\<close>

definition rb_read_copy :: "nat \<Rightarrow> rb \<Rightarrow> rb_out \<times> rb" where
  "rb_read_copy count s =
     (let maxReadable = oneDirCircularDistance s;
          n = (if count > maxReadable then maxReadable else count);
          finish = (\<lambda>out. case incrementRead n s of
                       Inl e \<Rightarrow> (RbExit e, s)
                     | Inr s' \<Rightarrow> (RbRet (int n) out, s'))
      in if writeIdx s < readIdx s then
           (let pre = capacity s - readIdx s in
            if n > pre
            then finish (take pre (drop (readIdx s) (ringbuffer s)) @ take (n - pre) (ringbuffer s))
            else finish (take n (drop (readIdx s) (ringbuffer s))))
         else if writeIdx s = readIdx s then (RbExit 119, s)
         else finish (take n (drop (readIdx s) (ringbuffer s))))"

definition rb_read :: "nat \<Rightarrow> rb \<Rightarrow> rb_out \<times> rb" where
  "rb_read count s =
     (if readIdx s = writeIdx s
      then (if rb_closed s then (rb_eof s, s) else (RbWait, s))
      else rb_read_copy count s)"

definition rb_read_woken :: "nat \<Rightarrow> rb \<Rightarrow> rb_out \<times> rb" where
  "rb_read_woken count s =
     (if rb_closed s \<and> readIdx s = writeIdx s then (rb_eof s, s) else rb_read_copy count s)"

text \<open>\<open>memcpy(rb + at, bytes)\<close>.\<close>

definition blit :: "'a list \<Rightarrow> nat \<Rightarrow> 'a list \<Rightarrow> 'a list" where
  "blit ring at xs = take at ring @ xs @ drop (at + length xs) ring"

definition rb_write_copy :: "byte list \<Rightarrow> rb \<Rightarrow> rb_out \<times> rb" where
  "rb_write_copy buf s =
     (let maxWritable = capacity s - 1 - oneDirCircularDistance s;
          n = (if length buf > maxWritable then maxWritable else length buf);
          finish = (\<lambda>ring. case incrementWrite n (s\<lparr>ringbuffer := ring\<rparr>) of
                       Inl e \<Rightarrow> (RbExit e, s)
                     | Inr s' \<Rightarrow> (RbRet (int n) [], s'))
      in if readIdx s \<le> writeIdx s then
           (let pre = capacity s - writeIdx s in
            if n > pre
            then finish (blit (blit (ringbuffer s) (writeIdx s) (take pre buf)) 0
                          (take (n - pre) (drop pre buf)))
            else finish (blit (ringbuffer s) (writeIdx s) (take n buf)))
         else finish (blit (ringbuffer s) (writeIdx s) (take n buf)))"

definition rb_write :: "byte list \<Rightarrow> rb \<Rightarrow> rb_out \<times> rb" where
  "rb_write buf s =
     (if rb_closed s then (RbRet (-1) [], s)
      else if oneDirCircularDistance s = capacity s - 1 then (RbWait, s)
      else rb_write_copy buf s)"

definition rb_write_woken :: "byte list \<Rightarrow> rb \<Rightarrow> rb_out \<times> rb" where
  "rb_write_woken buf s =
     (if rb_closed s then (RbRet (-1) [], s) else rb_write_copy buf s)"

subsection \<open>Invariant and contents\<close>

definition rb_inv :: "rb \<Rightarrow> bool" where
  "rb_inv s \<longleftrightarrow> 0 < capacity s \<and> length (ringbuffer s) = capacity s
     \<and> readIdx s < capacity s \<and> writeIdx s < capacity s"

definition rb_contents :: "rb \<Rightarrow> byte list" where
  "rb_contents s =
     (if readIdx s \<le> writeIdx s then take (writeIdx s - readIdx s) (drop (readIdx s) (ringbuffer s))
      else drop (readIdx s) (ringbuffer s) @ take (writeIdx s) (ringbuffer s))"

lemma rb_inv_new: "0 < cap \<Longrightarrow> rb_inv (rb_new cap)"
  by (simp add: rb_inv_def rb_new_def)

lemma rb_contents_new [simp]: "rb_contents (rb_new cap) = []"
  by (simp add: rb_contents_def rb_new_def)

lemma distance_eq:
  assumes "rb_inv s"
  shows "oneDirCircularDistance s =
    (if readIdx s \<le> writeIdx s then writeIdx s - readIdx s
     else writeIdx s + capacity s - readIdx s)"
proof (cases "readIdx s \<le> writeIdx s")
  case True
  with assms have "writeIdx s + capacity s - readIdx s = (writeIdx s - readIdx s) + capacity s"
    by simp
  moreover have "writeIdx s - readIdx s < capacity s"
    using assms by (auto simp: rb_inv_def)
  ultimately show ?thesis
    using True by (simp only: oneDirCircularDistance_def mod_add_self2) simp
next
  case False
  with assms have "writeIdx s + capacity s - readIdx s < capacity s"
    by (auto simp: rb_inv_def)
  with False show ?thesis
    by (simp add: oneDirCircularDistance_def)
qed

lemma length_contents: "rb_inv s \<Longrightarrow> length (rb_contents s) = oneDirCircularDistance s"
  by (auto simp: distance_eq) (auto simp: rb_contents_def rb_inv_def)

lemma contents_bound: "rb_inv s \<Longrightarrow> length (rb_contents s) \<le> capacity s - 1"
  by (simp add: length_contents distance_eq) (auto simp: rb_inv_def)

lemma contents_empty_iff: "rb_inv s \<Longrightarrow> rb_contents s = [] \<longleftrightarrow> readIdx s = writeIdx s"
  by (auto simp: rb_contents_def rb_inv_def)

lemma rb_inv_close [simp]: "rb_inv (rb_close b s) = rb_inv s"
  by (simp add: rb_inv_def rb_close_def)

lemma rb_contents_close [simp]: "rb_contents (rb_close b s) = rb_contents s"
  by (simp add: rb_contents_def rb_close_def)

lemma rb_close_fields [simp]:
  "rb_closed (rb_close b s)" "capacity (rb_close b s) = capacity s"
  by (simp_all add: rb_close_def)

lemma rb_inv_reset: "rb_inv s \<Longrightarrow> rb_inv (rb_reset s)"
  by (simp add: rb_inv_def rb_reset_def)

lemma rb_contents_reset [simp]: "rb_contents (rb_reset s) = []"
  by (simp add: rb_contents_def rb_reset_def)


subsection \<open>Functional behaviour of read and write\<close>

lemma add_mod_bounded:
  fixes i n cap :: nat
  assumes "i < cap" and "n \<le> cap"
  shows "(i + n + cap) mod cap = (if i + n < cap then i + n else i + n - cap)"
proof (cases "i + n < cap")
  case False
  then have "i + n - cap < cap" using assms by linarith
  then show ?thesis using False by (simp add: le_mod_geq)
qed simp

text \<open>The state after \<open>n\<close> bytes were consumed.\<close>

definition rb_consumed :: "nat \<Rightarrow> rb \<Rightarrow> rb" where
  "rb_consumed n s = s\<lparr>readIdx := (readIdx s + n + capacity s) mod capacity s\<rparr>"

lemma incrementRead_ok:
  "n \<le> oneDirCircularDistance s \<Longrightarrow> incrementRead n s = Inr (rb_consumed n s)"
  by (simp add: incrementRead_def rb_consumed_def)

lemma rb_consumed_inv: "rb_inv s \<Longrightarrow> rb_inv (rb_consumed n s)"
  by (simp add: rb_inv_def rb_consumed_def)

lemma rb_consumed_fields [simp]:
  "capacity (rb_consumed n s) = capacity s" "rb_closed (rb_consumed n s) = rb_closed s"
  "brokenConnection (rb_consumed n s) = brokenConnection s"
  by (simp_all add: rb_consumed_def)

lemma rb_consumed_contents:
  assumes inv: "rb_inv s" and n: "n \<le> oneDirCircularDistance s"
  shows "rb_contents (rb_consumed n s) = drop n (rb_contents s)"
proof -
  have "readIdx s < capacity s" and "n \<le> capacity s"
    using inv n by (auto simp: distance_eq rb_inv_def split: if_splits)
  then have idx: "(readIdx s + n + capacity s) mod capacity s =
      (if readIdx s + n < capacity s then readIdx s + n else readIdx s + n - capacity s)"
    by (rule add_mod_bounded)
  define i where "i = (readIdx s + n + capacity s) mod capacity s"
  note i = idx [folded i_def]
  show ?thesis
    using inv n unfolding rb_consumed_def i_def [symmetric] rb_contents_def rb_inv_def
    by (auto simp: i distance_eq rb_inv_def drop_take add.commute split: if_splits)
qed

lemma rb_read_copy_spec:
  assumes inv: "rb_inv s" and ne: "rb_contents s \<noteq> []"
  shows "rb_read_copy count s =
    (let n = min count (length (rb_contents s))
     in (RbRet (int n) (take n (rb_contents s)), rb_consumed n s))"
proof -
  define n where "n = min count (oneDirCircularDistance s)"
  have n_if: "(if count > oneDirCircularDistance s then oneDirCircularDistance s else count) = n"
    by (simp add: n_def)
  have nd: "n \<le> oneDirCircularDistance s" by (simp add: n_def)
  have neq: "readIdx s \<noteq> writeIdx s" using inv ne by (simp add: contents_empty_iff)
  have "rb_read_copy count s = (RbRet (int n) (take n (rb_contents s)), rb_consumed n s)"
    using nd neq inv
    unfolding rb_read_copy_def Let_def n_if
    by (auto simp: incrementRead_ok rb_contents_def distance_eq rb_inv_def)
  then show ?thesis by (simp add: length_contents inv n_def Let_def)
qed

text \<open>The state after \<open>bs\<close> was appended.\<close>

definition rb_appended :: "byte list \<Rightarrow> rb \<Rightarrow> rb" where
  "rb_appended bs s = snd (rb_write_copy bs s)"

lemma length_blit [simp]:
  "at + length xs \<le> length ring \<Longrightarrow> length (blit ring at xs) = length ring"
  by (simp add: blit_def)

lemma blit_linear:
  assumes "r \<le> w" and "w + length xs \<le> length ring"
  shows "take (w + length xs - r) (drop r (blit ring w xs)) = take (w - r) (drop r ring) @ xs"
proof -
  have "drop r (blit ring w xs) = take (w - r) (drop r ring) @ xs @ drop (w + length xs) ring"
    using assms by (simp add: blit_def drop_take)
  moreover have "w + length xs - r = length (take (w - r) (drop r ring) @ xs)"
    using assms by simp
  ultimately show ?thesis by simp
qed

lemma blit_to_end:
  assumes "r \<le> w" and "w + length xs = length ring"
  shows "drop r (blit ring w xs) = take (w - r) (drop r ring) @ xs"
  using assms by (simp add: blit_def drop_take)

lemma blit_below:
  assumes "w + length xs \<le> r"
  shows "drop r (blit ring w xs) = drop r ring"
proof -
  have "r - min (length ring) w - length xs + (w + length xs) = r \<or> length ring < w"
    using assms by (auto simp: min_def)
  then show ?thesis
    using assms by (auto simp: blit_def min_def)
qed

lemma take_blit:
  assumes "w + length xs \<le> length ring"
  shows "take (w + length xs) (blit ring w xs) = take w ring @ xs"
  using assms by (simp add: blit_def)

lemma incrementWrite_ok:
  "n \<le> capacity s - oneDirCircularDistance s - 1 \<Longrightarrow>
    incrementWrite n s = Inr (s\<lparr>writeIdx := (writeIdx s + n + capacity s) mod capacity s\<rparr>)"
  by (simp add: incrementWrite_def)

lemma distance_ring [simp]:
  "oneDirCircularDistance (s\<lparr>ringbuffer := ring\<rparr>) = oneDirCircularDistance s"
  by (simp add: oneDirCircularDistance_def)


lemma rb_write_copy_spec:
  assumes inv: "rb_inv s"
  defines "n \<equiv> \<lambda>buf. min (length buf) (capacity s - 1 - length (rb_contents s))"
  shows "fst (rb_write_copy buf s) = RbRet (int (n buf)) []"
    and "rb_inv (rb_appended buf s)"
    and "rb_contents (rb_appended buf s) = rb_contents s @ take (n buf) buf"
    and "capacity (rb_appended buf s) = capacity s"
    and "rb_closed (rb_appended buf s) = rb_closed s"
    and "brokenConnection (rb_appended buf s) = brokenConnection s"
proof -
  define d where "d = oneDirCircularDistance s"
  define m where "m = n buf"
  have m_if: "(if length buf > capacity s - 1 - oneDirCircularDistance s
      then capacity s - 1 - oneDirCircularDistance s else length buf) = m"
    using inv by (simp add: m_def n_def length_contents)
  have mlen: "m \<le> length buf" and mroom: "m \<le> capacity s - oneDirCircularDistance s - 1"
    using inv by (auto simp: m_def n_def length_contents)
  have "writeIdx s < capacity s" and "m \<le> capacity s"
    using inv mroom by (auto simp: rb_inv_def)
  then have idx: "(writeIdx s + m + capacity s) mod capacity s =
      (if writeIdx s + m < capacity s then writeIdx s + m else writeIdx s + m - capacity s)"
    by (rule add_mod_bounded)
  let ?ring = "if readIdx s \<le> writeIdx s \<and> m > capacity s - writeIdx s
    then blit (blit (ringbuffer s) (writeIdx s) (take (capacity s - writeIdx s) buf)) 0
           (take (m - (capacity s - writeIdx s)) (drop (capacity s - writeIdx s) buf))
    else blit (ringbuffer s) (writeIdx s) (take m buf)"
  have eq: "rb_write_copy buf s = (RbRet (int m) [],
      s\<lparr>ringbuffer := ?ring, writeIdx := (writeIdx s + m + capacity s) mod capacity s\<rparr>)"
    using mroom unfolding rb_write_copy_def Let_def m_if
    by (auto simp: incrementWrite_ok)
  have len: "length ?ring = capacity s"
    using inv mlen mroom by (auto simp: rb_inv_def distance_eq)
  show "fst (rb_write_copy buf s) = RbRet (int (n buf)) []"
    using eq by (simp add: m_def)
  show "rb_inv (rb_appended buf s)"
    using inv len unfolding rb_appended_def eq by (simp add: rb_inv_def del: length_blit)
  show "capacity (rb_appended buf s) = capacity s"
    "rb_closed (rb_appended buf s) = rb_closed s"
    "brokenConnection (rb_appended buf s) = brokenConnection s"
    unfolding rb_appended_def eq by simp_all
  define i where "i = (writeIdx s + m + capacity s) mod capacity s"
  note i = idx [folded i_def]
  have app: "rb_appended buf s = s\<lparr>ringbuffer := ?ring, writeIdx := i\<rparr>"
    unfolding rb_appended_def eq i_def by simp
  have lenr: "length (ringbuffer s) = capacity s" using inv by (simp add: rb_inv_def)
  have tm: "length (take m buf) = m" using mlen by simp
  show "rb_contents (rb_appended buf s) = rb_contents s @ take (n buf) buf"
  proof (cases "readIdx s \<le> writeIdx s")
    case le: True
    show ?thesis
    proof (cases "m > capacity s - writeIdx s")
      case True
      define k where "k = capacity s - writeIdx s"
      have wrap: "writeIdx s + length (take k buf) = length (ringbuffer s)"
        "length (take (m - k) (drop k buf)) = m - k" "i = m - k" "m - k < readIdx s" "k < m"
        using True le mlen mroom inv by (auto simp: k_def lenr i distance_eq rb_inv_def)
      have "take m buf = take k buf @ take (m - k) (drop k buf)"
        using wrap(5) by (simp flip: take_add)
      moreover have "take (m - k) (blit x 0 (take (m - k) (drop k buf))) = take (m - k) (drop k buf)"
        for x using wrap(2) by (simp add: blit_def)
      ultimately show ?thesis
        using True le wrap unfolding app m_def [symmetric] k_def [symmetric]
        by (simp add: rb_contents_def k_def [symmetric] blit_below blit_to_end)
    next
      case False
      then have ring: "?ring = blit (ringbuffer s) (writeIdx s) (take m buf)" by simp
      show ?thesis
      proof (cases "writeIdx s + m < capacity s")
        case True
        then show ?thesis
          using le False tm lenr blit_linear [of "readIdx s" "writeIdx s" "take m buf" "ringbuffer s"]
          unfolding app ring m_def [symmetric] by (simp add: rb_contents_def i)
      next
        case fin: False
        then have "writeIdx s + m = capacity s" "i = 0" "0 < readIdx s"
          using False le mroom inv by (auto simp: i distance_eq rb_inv_def)
        then show ?thesis
          using le tm lenr blit_to_end [of "readIdx s" "writeIdx s" "take m buf" "ringbuffer s"]
          unfolding app ring m_def [symmetric] by (simp add: rb_contents_def)
      qed
    qed
  next
    case False
    then have "i = writeIdx s + m" "i < readIdx s" "i \<le> capacity s"
      using mroom inv by (auto simp: i distance_eq rb_inv_def)
    then show ?thesis
      using False tm lenr take_blit [of "writeIdx s" "take m buf" "ringbuffer s"]
        blit_below [of "writeIdx s" "take m buf" "readIdx s" "ringbuffer s"]
      unfolding app m_def [symmetric] by (simp add: rb_contents_def)
  qed
qed


text \<open>
  The sums of the index arithmetic: for every capacity up to \<open>2 ^ 29\<close> (the code uses \<open>2 ^ 20\<close>)
  they stay below \<open>2 ^ 31\<close>, so modelling the C++ \<open>int\<close> fields as naturals loses nothing.
\<close>

lemma rb_index_bounds:
  assumes "rb_inv s" and "capacity s \<le> 2 ^ 29" and "offset \<le> capacity s"
  shows "readIdx s + offset + capacity s < 2 ^ 31" and "writeIdx s + offset + capacity s < 2 ^ 31"
    and "writeIdx s + capacity s < 2 ^ 31"
  using assms by (auto simp: rb_inv_def)

end
