(* ===== verification/RH_Channel.thy ===== *)
theory RH_Channel
  imports RH_RingBuffer
begin

section \<open>Byte channels and the two-thread use of the ring buffer\<close>

text \<open>
  The interface between the TLS receiver (which puts decrypted bytes) and the protocol code
  (which gets them): \<open>byte_channel\<close>, a bounded first-in first-out channel of bytes. Its client
  lemma says that, whatever the sequence of puts and gets, the bytes taken out followed by the
  bytes still inside are the bytes put in. The ring buffer is an interpretation. The second half
  models the reader thread, the writer thread and \<open>close()\<close> as a step relation with the
  mutex and the condition variables of the source.
\<close>

datatype chan_op = Put "byte list" | Get nat

fun chan_run ::
  "(byte list \<Rightarrow> 's \<Rightarrow> nat \<times> 's) \<Rightarrow> (nat \<Rightarrow> 's \<Rightarrow> byte list \<times> 's) \<Rightarrow> chan_op list \<Rightarrow> 's
    \<Rightarrow> byte list \<times> byte list \<times> 's" where
  "chan_run put get [] s = ([], [], s)"
| "chan_run put get (Put bs # ops) s =
     (case put bs s of (k, s') \<Rightarrow>
       case chan_run put get ops s' of (snt, rcv, s'') \<Rightarrow> (take k bs @ snt, rcv, s''))"
| "chan_run put get (Get n # ops) s =
     (case get n s of (bs, s') \<Rightarrow>
       case chan_run put get ops s' of (snt, rcv, s'') \<Rightarrow> (snt, bs @ rcv, s''))"

locale byte_channel =
  fixes cinv :: "'s \<Rightarrow> bool"
    and contents :: "'s \<Rightarrow> byte list"
    and room :: "'s \<Rightarrow> nat"
    and put :: "byte list \<Rightarrow> 's \<Rightarrow> nat \<times> 's"
    and get :: "nat \<Rightarrow> 's \<Rightarrow> byte list \<times> 's"
  assumes cinv_put: "cinv s \<Longrightarrow> cinv (snd (put bs s))"
    and cinv_get: "cinv s \<Longrightarrow> cinv (snd (get n s))"
    and fst_put: "cinv s \<Longrightarrow> fst (put bs s) = min (length bs) (room s)"
    and contents_put: "cinv s \<Longrightarrow>
      contents (snd (put bs s)) = contents s @ take (min (length bs) (room s)) bs"
    and fst_get: "cinv s \<Longrightarrow> fst (get n s) = take n (contents s)"
    and contents_get: "cinv s \<Longrightarrow> contents (snd (get n s)) = drop n (contents s)"
begin

lemma run_stream:
  "cinv s \<Longrightarrow> chan_run put get ops s = (snt, rcv, s') \<Longrightarrow>
    cinv s' \<and> rcv @ contents s' = contents s @ snt"
proof (induction ops arbitrary: s snt rcv)
  case Nil
  then show ?case by simp
next
  case (Cons op ops)
  show ?case
  proof (cases op)
    case (Put bs)
    obtain snt' rcv' where run: "chan_run put get ops (snd (put bs s)) = (snt', rcv', s')"
      and "snt = take (fst (put bs s)) bs @ snt'" and "rcv = rcv'"
      using Cons.prems(2) Put by (auto split: prod.splits)
    moreover have "cinv s' \<and> rcv' @ contents s' = contents (snd (put bs s)) @ snt'"
      by (rule Cons.IH [OF cinv_put [OF Cons.prems(1)] run])
    ultimately show ?thesis using Cons.prems(1) by (simp add: contents_put fst_put)
  next
    case (Get n)
    obtain snt' rcv' where run: "chan_run put get ops (snd (get n s)) = (snt', rcv', s')"
      and rcv: "rcv = fst (get n s) @ rcv'" and snt: "snt = snt'"
      using Cons.prems(2) Get by (auto split: prod.splits)
    have IH: "cinv s' \<and> rcv' @ contents s' = contents (snd (get n s)) @ snt'"
      by (rule Cons.IH [OF cinv_get [OF Cons.prems(1)] run])
    have "rcv @ contents s' = take n (contents s) @ rcv' @ contents s'"
      using Cons.prems(1) rcv by (simp add: fst_get)
    also have "\<dots> = take n (contents s) @ drop n (contents s) @ snt"
      using IH snt Cons.prems(1) by (simp add: contents_get)
    also have "\<dots> = contents s @ snt" by (simp flip: append_assoc)
    finally show ?thesis using IH by blast
  qed
qed

end

subsection \<open>The ring buffer is a byte channel\<close>

text \<open>One non-blocking attempt of \<open>write\<close> and of \<open>read\<close>: a call that would wait moves nothing.\<close>

definition rb_put :: "byte list \<Rightarrow> rb \<Rightarrow> nat \<times> rb" where
  "rb_put bs s = (case rb_write bs s of (RbRet n _, s') \<Rightarrow> (nat n, s') | _ \<Rightarrow> (0, s))"

definition rb_get :: "nat \<Rightarrow> rb \<Rightarrow> byte list \<times> rb" where
  "rb_get n s = (case rb_read n s of (RbRet _ bs, s') \<Rightarrow> (bs, s') | _ \<Rightarrow> ([], s))"

definition rb_room :: "rb \<Rightarrow> nat" where
  "rb_room s = (if rb_closed s then 0 else capacity s - 1 - length (rb_contents s))"

lemma rb_write_cases:
  assumes "rb_inv s"
  shows "rb_write bs s =
    (if rb_closed s then (RbRet (-1) [], s)
     else if length (rb_contents s) = capacity s - 1 then (RbWait, s)
     else (RbRet (int (min (length bs) (capacity s - 1 - length (rb_contents s)))) [],
           rb_appended bs s))"
  using rb_write_copy_spec(1) [OF assms, of bs] assms
  by (auto simp: rb_write_def length_contents rb_appended_def prod_eq_iff)

lemma rb_read_cases:
  assumes "rb_inv s"
  shows "rb_read n s =
    (if rb_contents s = [] then (if rb_closed s then (rb_eof s, s) else (RbWait, s))
     else (RbRet (int (min n (length (rb_contents s)))) (take n (rb_contents s)),
           rb_consumed (min n (length (rb_contents s))) s))"
  using rb_read_copy_spec [OF assms, of n] contents_empty_iff [OF assms]
  by (auto simp: rb_read_def Let_def min_def)

lemma rb_put_spec:
  assumes "rb_inv s"
  shows "fst (rb_put bs s) = min (length bs) (rb_room s)"
    and "rb_inv (snd (rb_put bs s))"
    and "rb_contents (snd (rb_put bs s)) = rb_contents s @ take (min (length bs) (rb_room s)) bs"
  using assms rb_write_copy_spec [OF assms, of bs]
  by (auto simp: rb_put_def rb_write_cases rb_room_def)

lemma rb_get_spec:
  assumes "rb_inv s"
  shows "fst (rb_get n s) = take n (rb_contents s)"
    and "rb_inv (snd (rb_get n s))"
    and "rb_contents (snd (rb_get n s)) = drop n (rb_contents s)"
  using assms
  by (auto simp: rb_get_def rb_read_cases rb_eof_def rb_consumed_inv rb_consumed_contents
      length_contents [symmetric] min_def)

interpretation rbch: byte_channel rb_inv rb_contents rb_room rb_put rb_get
  by unfold_locales (auto simp: rb_put_spec rb_get_spec)

text \<open>
  C10: whatever the sequence of \<open>write\<close> and \<open>read\<close> calls on a fresh ring buffer of any positive
  capacity, and whatever their sizes, the bytes delivered followed by the bytes still stored are
  exactly the bytes accepted, in order: nothing is lost, duplicated or reordered, across every
  wrap-around of the two indices.
\<close>

theorem ringbuffer_stream:
  assumes "0 < cap" and "chan_run rb_put rb_get ops (rb_new cap) = (snt, rcv, s')"
  shows "rcv @ rb_contents s' = snt \<and> rb_inv s' \<and> length (rb_contents s') < capacity s'"
proof -
  have new: "rb_inv (rb_new cap)" using assms(1) by (rule rb_inv_new)
  have inv: "rb_inv s'" using rbch.run_stream [OF new assms(2)] by blast
  moreover have "0 < capacity s'" using inv by (simp add: rb_inv_def)
  ultimately show ?thesis
    using rbch.run_stream [OF new assms(2)] contents_bound [OF inv] by auto
qed

theorem ringbuffer_stream_witness:
  "case chan_run rb_put rb_get [Put [1, 2, 3], Get 2, Put [4, 5, 6], Get 2] (rb_new 4) of
     (snt, rcv, s') \<Rightarrow> rcv = [1, 2, 3, 4] \<and> snt = [1, 2, 3, 4, 5] \<and> rcv @ rb_contents s' = snt"
proof -
  let ?ops = "[Put [1, 2, 3], Get 2, Put [4, 5, 6], Get 2]"
  obtain snt rcv s' where run: "chan_run rb_put rb_get ?ops (rb_new 4) = (snt, rcv, s')"
    by (rule prod_cases3)
  have "rcv @ rb_contents s' = snt"
    using ringbuffer_stream [OF _ run] by simp
  moreover have "case chan_run rb_put rb_get ?ops (rb_new 4) of
     (snt, rcv, s') \<Rightarrow> rcv = [1, 2, 3, 4] \<and> snt = [1, 2, 3, 4, 5]"
    by code_simp
  ultimately show ?thesis using run by simp
qed


subsection \<open>The reader thread, the writer thread and close()\<close>

text \<open>
  Both methods take the mutex, and \<open>close\<close> does not: it only flips the atomic flag and
  notifies. A reader that found the buffer empty is first in \<open>RChecked\<close> (it read \<open>closed\<close> and
  holds the mutex, it is not on the condition variable yet) and then in \<open>RBlocked\<close>, whose flag
  says that it has been notified. A notification wakes a thread only if it is already blocked.
  The writer's test and wait are both under the mutex and nothing else notifies its condition, so
  one state is enough for it. There is one reader and one writer, as the source's comments say.
  The parameter \<open>zero_len\<close> says whether the writer may pass an empty block
  (\<open>tls_record_received\<close> passes on whatever record size the TLS library reports).
\<close>

datatype rphase = RIdle | RChecked nat | RBlocked nat bool
datatype wphase = WIdle | WBlocked "byte list" bool

record rbsys =
  buf :: rb
  rph :: rphase
  wph :: wphase
  sent :: "byte list"
  rcvd :: "byte list"
  exited :: "nat option"

definition sys_init :: "nat \<Rightarrow> rbsys" where
  "sys_init cap = \<lparr>buf = rb_new cap, rph = RIdle, wph = WIdle, sent = [], rcvd = [], exited = None\<rparr>"

fun notify_reader :: "rphase \<Rightarrow> rphase" where
  "notify_reader (RBlocked n _) = RBlocked n True"
| "notify_reader ph = ph"

fun notify_writer :: "wphase \<Rightarrow> wphase" where
  "notify_writer (WBlocked bs _) = WBlocked bs True"
| "notify_writer ph = ph"

text \<open>The effect of a finished \<open>read\<close>: only the copying path notifies the writer.\<close>

fun read_done :: "rb_out \<times> rb \<Rightarrow> rbsys \<Rightarrow> rbsys" where
  "read_done (RbExit e, b) s = s\<lparr>exited := Some e\<rparr>"
| "read_done (RbWait, b) s = s"
| "read_done (RbRet k bs, b) s =
     s\<lparr>buf := b, rph := RIdle, rcvd := rcvd s @ bs,
       wph := (if rb_contents (buf s) = [] then wph s else notify_writer (wph s))\<rparr>"

fun write_done :: "byte list \<Rightarrow> rb_out \<times> rb \<Rightarrow> rbsys \<Rightarrow> rbsys" where
  "write_done bs (RbExit e, b) s = s\<lparr>exited := Some e\<rparr>"
| "write_done bs (RbWait, b) s = s"
| "write_done bs (RbRet k _, b) s =
     s\<lparr>buf := b, wph := WIdle, sent := sent s @ take (nat k) bs,
       rph := (if k < 0 then rph s else notify_reader (rph s))\<rparr>"

definition mutex_free :: "rbsys \<Rightarrow> bool" where
  "mutex_free s \<longleftrightarrow> (\<forall>n. rph s \<noteq> RChecked n)"

inductive rb_step :: "bool \<Rightarrow> rbsys \<Rightarrow> rbsys \<Rightarrow> bool" for zero_len :: bool where
  read_call: "exited s = None \<Longrightarrow> rph s = RIdle \<Longrightarrow> fst (rb_read n (buf s)) \<noteq> RbWait \<Longrightarrow>
    rb_step zero_len s (read_done (rb_read n (buf s)) s)"
| read_check: "exited s = None \<Longrightarrow> rph s = RIdle \<Longrightarrow> fst (rb_read n (buf s)) = RbWait \<Longrightarrow>
    rb_step zero_len s (s\<lparr>rph := RChecked n\<rparr>)"
| read_wait: "exited s = None \<Longrightarrow> rph s = RChecked n \<Longrightarrow> rb_step zero_len s (s\<lparr>rph := RBlocked n False\<rparr>)"
| read_wake: "exited s = None \<Longrightarrow> rph s = RBlocked n True \<Longrightarrow>
    rb_step zero_len s (read_done (rb_read_woken n (buf s)) s)"
| write_call: "exited s = None \<Longrightarrow> mutex_free s \<Longrightarrow> wph s = WIdle \<Longrightarrow> bs \<noteq> [] \<or> zero_len \<Longrightarrow>
    fst (rb_write bs (buf s)) \<noteq> RbWait \<Longrightarrow> rb_step zero_len s (write_done bs (rb_write bs (buf s)) s)"
| write_wait: "exited s = None \<Longrightarrow> mutex_free s \<Longrightarrow> wph s = WIdle \<Longrightarrow> bs \<noteq> [] \<or> zero_len \<Longrightarrow>
    fst (rb_write bs (buf s)) = RbWait \<Longrightarrow> rb_step zero_len s (s\<lparr>wph := WBlocked bs False\<rparr>)"
| write_wake: "exited s = None \<Longrightarrow> mutex_free s \<Longrightarrow> wph s = WBlocked bs True \<Longrightarrow>
    rb_step zero_len s (write_done bs (rb_write_woken bs (buf s)) s)"
| close_new: "exited s = None \<Longrightarrow> \<not> rb_closed (buf s) \<Longrightarrow>
    rb_step zero_len s (s\<lparr>buf := rb_close b (buf s), rph := notify_reader (rph s)\<rparr>)"
| close_again: "exited s = None \<Longrightarrow> rb_closed (buf s) \<Longrightarrow> rb_step zero_len s (s\<lparr>buf := rb_close b (buf s)\<rparr>)"

inductive rb_reach :: "bool \<Rightarrow> nat \<Rightarrow> rbsys \<Rightarrow> bool" for zero_len :: bool and cap :: nat where
  reach_init: "rb_reach zero_len cap (sys_init cap)"
| reach_step: "rb_reach zero_len cap s \<Longrightarrow> rb_step zero_len s t \<Longrightarrow> rb_reach zero_len cap t"

text \<open>
  The invariant: a notified reader finds data or the end of the stream; an unnotified blocked
  reader, and a reader about to block, face an empty buffer.
\<close>

definition sys_inv :: "rbsys \<Rightarrow> bool" where
  "sys_inv s \<longleftrightarrow> rb_inv (buf s) \<and> exited s = None \<and> rcvd s @ rb_contents (buf s) = sent s
     \<and> (\<forall>n. rph s = RBlocked n True \<longrightarrow> rb_closed (buf s) \<or> rb_contents (buf s) \<noteq> [])
     \<and> (\<forall>n. rph s = RBlocked n False \<or> rph s = RChecked n \<longrightarrow> rb_contents (buf s) = [])
     \<and> (\<forall>bs b. wph s = WBlocked bs b \<longrightarrow> bs \<noteq> []) \<and> 2 \<le> capacity (buf s)"


lemma rb_read_woken_cases:
  assumes "rb_inv s" and "rb_closed s \<or> rb_contents s \<noteq> []"
  shows "rb_read_woken n s =
    (if rb_contents s = [] then (rb_eof s, s)
     else (RbRet (int (min n (length (rb_contents s)))) (take n (rb_contents s)),
           rb_consumed (min n (length (rb_contents s))) s))"
  using rb_read_copy_spec [OF assms(1), of n] contents_empty_iff [OF assms(1)] assms(2)
  by (auto simp: rb_read_woken_def Let_def min_def)

lemma rb_write_woken_cases:
  assumes "rb_inv s"
  shows "rb_write_woken bs s =
    (if rb_closed s then (RbRet (-1) [], s)
     else (RbRet (int (min (length bs) (capacity s - 1 - length (rb_contents s)))) [],
           rb_appended bs s))"
  using rb_write_copy_spec(1) [OF assms, of bs]
  by (auto simp: rb_write_woken_def rb_appended_def prod_eq_iff)

lemma sys_inv_init: "2 \<le> cap \<Longrightarrow> sys_inv (sys_init cap)"
  by (simp add: sys_inv_def sys_init_def rb_inv_new) (simp add: rb_new_def)

lemma sys_inv_read:
  assumes "sys_inv s"
    and "out = (if rb_contents (buf s) = [] then (rb_eof (buf s), buf s)
      else (RbRet (int (min n (length (rb_contents (buf s))))) (take n (rb_contents (buf s))),
            rb_consumed (min n (length (rb_contents (buf s)))) (buf s)))"
  shows "sys_inv (read_done out s)"
proof -
  let ?m = "min n (length (rb_contents (buf s)))"
  have "rb_contents (rb_consumed ?m (buf s)) = drop n (rb_contents (buf s))"
    using assms(1) by (simp add: rb_consumed_contents sys_inv_def length_contents [symmetric] min_def)
  then show ?thesis
    using assms
    by (cases "wph s") (auto simp: sys_inv_def rb_eof_def rb_consumed_inv append_assoc [symmetric]
        split: if_splits)
qed

lemma sys_inv_write:
  assumes inv: "sys_inv s" and bs: "bs \<noteq> []"
    and out: "out = (if rb_closed (buf s) then (RbRet (-1) [], buf s)
      else (RbRet (int (min (length bs) (capacity (buf s) - 1 - length (rb_contents (buf s))))) [],
            rb_appended bs (buf s)))"
    and free: "mutex_free s"
  shows "sys_inv (write_done bs out s)"
proof -
  let ?k = "min (length bs) (capacity (buf s) - 1 - length (rb_contents (buf s)))"
  have rbi: "rb_inv (buf s)" using inv by (simp add: sys_inv_def)
  note spec = rb_write_copy_spec(2-6) [OF rbi, of bs]
  have ne: "rb_contents (rb_appended bs (buf s)) \<noteq> []"
    using inv bs spec(2) by (auto simp: sys_inv_def)
  have ph: "notify_reader r = RBlocked n b \<Longrightarrow> b" "notify_reader r = RChecked n \<longleftrightarrow> r = RChecked n"
    for r n b by (cases r; simp)+
  show ?thesis
    using inv free out spec ne ph
    by (auto simp: sys_inv_def mutex_free_def)
qed


lemma sys_inv_step: "rb_step zl s t \<Longrightarrow> \<not> zl \<Longrightarrow> sys_inv s \<Longrightarrow> sys_inv t"
proof (induction rule: rb_step.induct)
  case (read_call s n)
  then show ?case
    by (intro sys_inv_read [where n = n]) (auto simp: sys_inv_def rb_read_cases split: if_splits)
next
  case (read_check s n)
  then show ?case by (auto simp: sys_inv_def rb_read_cases split: if_splits)
next
  case (read_wait s n)
  then show ?case by (auto simp: sys_inv_def)
next
  case (read_wake s n)
  then show ?case
    by (intro sys_inv_read [where n = n]) (auto simp: sys_inv_def rb_read_woken_cases split: if_splits)
next
  case (write_call s bs)
  then show ?case
    by (intro sys_inv_write [where bs = bs]) (auto simp: sys_inv_def rb_write_cases split: if_splits)
next
  case (write_wait s bs)
  then show ?case by (auto simp: sys_inv_def)
next
  case (write_wake s bs)
  then show ?case
    by (intro sys_inv_write [where bs = bs])
      (auto simp: sys_inv_def rb_write_woken_cases split: if_splits)
next
  case (close_new s b)
  then show ?case
    by (cases "rph s") (auto simp: sys_inv_def)
next
  case (close_again s b)
  then show ?case by (simp add: rb_close_def)
qed

lemma reach_sys_inv: "rb_reach zl cap s \<Longrightarrow> \<not> zl \<Longrightarrow> 2 \<le> cap \<Longrightarrow> sys_inv s"
  by (induction rule: rb_reach.induct) (auto intro: sys_inv_init sys_inv_step)


lemma reach_blocked:
  assumes "0 < cap"
  shows "rb_reach zl cap ((sys_init cap)\<lparr>rph := RBlocked n False\<rparr>)"
proof -
  have "fst (rb_read n (buf (sys_init cap))) = RbWait"
    using rb_read_cases [OF rb_inv_new [OF assms], of n] by (simp add: sys_init_def) (simp add: rb_new_def)
  then have "rb_step zl (sys_init cap) ((sys_init cap)\<lparr>rph := RChecked n\<rparr>)"
    by (intro rb_step.read_check) (simp_all add: sys_init_def)
  then have "rb_reach zl cap ((sys_init cap)\<lparr>rph := RChecked n\<rparr>)"
    by (rule reach_step [OF reach_init])
  moreover have "rb_step zl ((sys_init cap)\<lparr>rph := RChecked n\<rparr>)
      ((sys_init cap)\<lparr>rph := RChecked n\<rparr>\<lparr>rph := RBlocked n False\<rparr>)"
    by (rule rb_step.read_wait [where n = n]) (simp_all add: sys_init_def)
  ultimately have "rb_reach zl cap ((sys_init cap)\<lparr>rph := RChecked n\<rparr>\<lparr>rph := RBlocked n False\<rparr>)"
    by (rule reach_step)
  then show ?thesis by simp
qed


definition stuck_reader :: "rbsys \<Rightarrow> bool" where
  "stuck_reader s \<longleftrightarrow> rb_closed (buf s) \<and> (\<exists>n. rph s = RBlocked n False)"

lemma stuck_reader_step: "rb_step zl s t \<Longrightarrow> stuck_reader s \<Longrightarrow> stuck_reader t"
  by (induction rule: rb_step.induct)
    (auto simp: stuck_reader_def rb_write_def rb_write_woken_def rb_close_def)

lemma stuck_reader_steps: "(rb_step zl)\<^sup>*\<^sup>* s t \<Longrightarrow> stuck_reader s \<Longrightarrow> stuck_reader t"
  by (induction rule: rtranclp_induct) (auto intro: stuck_reader_step)

text \<open>
  C35: a defect. \<open>close()\<close> does not take the mutex, so it can run between the reader's test of
  \<open>closed\<close> and its wait. The wake-up is then lost: the state in which the stream is closed and
  empty and the reader is blocked, not notified, is reachable, and every state any thread can take
  the program to from there is like it: the reader blocks forever.
\<close>

theorem close_wakeup_lost:
  "\<exists>s. rb_reach False DEFAULT_CAPACITY s \<and> stuck_reader s
     \<and> {t. (rb_step False)\<^sup>*\<^sup>* s t} \<subseteq> {t. stuck_reader t}"
proof -
  let ?i = "sys_init DEFAULT_CAPACITY"
  let ?s = "?i\<lparr>rph := RChecked 1\<rparr>"
  let ?t = "?s\<lparr>buf := rb_close False (buf ?s), rph := notify_reader (rph ?s)\<rparr>"
  let ?u = "?t\<lparr>rph := RBlocked 1 False\<rparr>"
  have "rb_step False ?i ?s"
    by (rule rb_step.read_check) (simp_all add: sys_init_def rb_read_def rb_new_def)
  moreover have "rb_step False ?s ?t"
    by (rule rb_step.close_new) (simp_all add: sys_init_def rb_new_def)
  moreover have "rb_step False ?t ?u"
    by (rule rb_step.read_wait [where n = 1]) (simp_all add: sys_init_def)
  ultimately have "rb_reach False DEFAULT_CAPACITY ?u"
    by (blast intro: rb_reach.intros)
  moreover have "stuck_reader ?u"
    by (simp add: stuck_reader_def rb_close_def)
  ultimately show ?thesis using stuck_reader_steps by blast
qed

text \<open>
  A defect. An empty block from the network. \<open>tls_record_received\<close> hands a record of size
  zero to \<open>writeAll\<close>, \<open>write\<close> notifies although it stored nothing, and the reader that was
  blocked on the empty buffer runs into the check for an ambiguous buffer: the whole process exits
  with code 119.
\<close>

theorem zero_length_record_exits:
  "\<exists>s. rb_reach True DEFAULT_CAPACITY s \<and> exited s = Some 119"
proof -
  let ?n = "rb_new DEFAULT_CAPACITY"
  let ?b = "rb_appended [] ?n"
  let ?s = "(sys_init DEFAULT_CAPACITY)\<lparr>rph := RBlocked 1 False\<rparr>"
  let ?t = "?s\<lparr>buf := ?b, rph := RBlocked 1 True\<rparr>"
  have cap: "0 < DEFAULT_CAPACITY" by (simp add: DEFAULT_CAPACITY_def)
  have inv: "rb_inv ?n" using cap by (rule rb_inv_new)
  have w: "rb_write [] ?n = (RbRet 0 [], ?b)"
    using rb_write_cases [OF inv, of "[]"] by (simp add: DEFAULT_CAPACITY_def) (simp add: rb_new_def)
  have "rb_contents ?b = []" using rb_write_copy_spec(3) [OF inv, of "[]"] by simp
  then have "readIdx ?b = writeIdx ?b"
    using rb_write_copy_spec(2) [OF inv, of "[]"] by (simp add: contents_empty_iff)
  moreover have "\<not> rb_closed ?b"
    using rb_write_copy_spec(5) [OF inv, of "[]"] by (simp add: rb_new_def)
  ultimately have r: "rb_read_woken 1 ?b = (RbExit 119, ?b)"
    by (simp add: rb_read_woken_def rb_read_copy_def Let_def)
  have "rb_reach True DEFAULT_CAPACITY ?s" using cap by (rule reach_blocked)
  moreover have "rb_step True ?s ?t"
    using rb_step.write_call [of ?s "[]" True] w by (simp add: sys_init_def mutex_free_def)
  moreover have "rb_step True ?t (?t\<lparr>exited := Some 119\<rparr>)"
    using rb_step.read_wake [of ?t 1 True] r by (simp add: sys_init_def)
  ultimately show ?thesis
    by (intro exI [of _ "?t\<lparr>exited := Some 119\<rparr>"]) (auto intro: rb_reach.reach_step)
qed

end
