(* ===== verification/RH_FileSystem.thy ===== *)
theory RH_FileSystem
  imports RH_Prelude "HOL-Library.AList"
begin

section \<open>The file-system calls the program makes\<close>

text \<open>
  The POSIX calls used by the sources (\<open>lstat\<close>, \<open>stat\<close>, \<open>access\<close>, \<open>opendir\<close>/\<open>readdir\<close>,
  \<open>mkdir\<close>, \<open>remove\<close>, \<open>rename\<close>, \<open>open\<close>, \<open>read\<close>, \<open>write\<close>, \<open>link\<close>, \<open>symlink\<close>, \<open>chmod\<close>,
  \<open>chown\<close>, \<open>utimes\<close>, \<open>readlink\<close>) on a file system that is a tree of nodes. Path names are
  resolved component by component, through symbolic links, \<open>.\<close> and \<open>..\<close>. The field \<open>faults\<close> is
  the environment: it may make any call fail on any path with an error number of its choice
  (permissions, I/O errors), without effect. Error numbers are Linux's. A directory lists its
  entries in the order of its list, and that order is arbitrary. Left out: hard links as shared
  nodes (a hard link copies the node), concurrent changes by other processes, trailing slashes.
\<close>

record attr =
  a_mode :: u32
  a_uid :: u32
  a_gid :: u32
  a_atime :: int
  a_mtime :: int
  a_ctime :: int

datatype node =
    Reg attr "byte list"
  | Dir attr "(string \<times> node) list"
  | Lnk attr string
  | Spc attr

datatype syscall =
    SC_stat | SC_lstat | SC_access | SC_opendir | SC_mkdir | SC_remove | SC_rename | SC_open
  | SC_read | SC_write | SC_link | SC_symlink | SC_chmod | SC_chown | SC_utimes | SC_readlink

definition EPERM :: int where "EPERM = 1"
definition ENOENT :: int where "ENOENT = 2"
definition ESRCH :: int where "ESRCH = 3"
definition EAGAIN :: int where "EAGAIN = 11"
definition EBUSY :: int where "EBUSY = 16"
definition EEXIST :: int where "EEXIST = 17"
definition ENOTDIR :: int where "ENOTDIR = 20"
definition EISDIR :: int where "EISDIR = 21"
definition EINVAL :: int where "EINVAL = 22"
definition ENOTEMPTY :: int where "ENOTEMPTY = 39"
definition ELOOP :: int where "ELOOP = 40"

lemmas errno_defs = EPERM_def ENOENT_def ESRCH_def EAGAIN_def EBUSY_def EEXIST_def ENOTDIR_def
  EISDIR_def EINVAL_def ENOTEMPTY_def ELOOP_def

record fs =
  root :: node
  cwd :: "string list"
  umask :: u32
  proc_uid :: u32
  proc_gid :: u32
  now :: int
  faults :: "syscall \<Rightarrow> string \<Rightarrow> int"

subsection \<open>Trees\<close>

fun is_dir :: "node \<Rightarrow> bool" where
  "is_dir (Dir _ _) = True"
| "is_dir _ = False"

fun is_reg :: "node \<Rightarrow> bool" where
  "is_reg (Reg _ _) = True"
| "is_reg _ = False"

fun is_lnk :: "node \<Rightarrow> bool" where
  "is_lnk (Lnk _ _) = True"
| "is_lnk _ = False"

fun node_attr :: "node \<Rightarrow> attr" where
  "node_attr (Reg a _) = a"
| "node_attr (Dir a _) = a"
| "node_attr (Lnk a _) = a"
| "node_attr (Spc a) = a"

fun set_attr :: "(attr \<Rightarrow> attr) \<Rightarrow> node \<Rightarrow> node" where
  "set_attr f (Reg a d) = Reg (f a) d"
| "set_attr f (Dir a es) = Dir (f a) es"
| "set_attr f (Lnk a t) = Lnk (f a) t"
| "set_attr f (Spc a) = Spc (f a)"

text \<open>\<open>st_size\<close>: content length, link length, and a fixed size for directory nodes.\<close>

fun node_size :: "node \<Rightarrow> nat" where
  "node_size (Reg _ d) = length d"
| "node_size (Dir _ _) = 4096"
| "node_size (Lnk _ t) = length t"
| "node_size (Spc _) = 0"

fun dir_entries :: "node \<Rightarrow> (string \<times> node) list" where
  "dir_entries (Dir _ es) = es"
| "dir_entries _ = []"

fun lookup :: "node \<Rightarrow> string list \<Rightarrow> node option" where
  "lookup t [] = Some t"
| "lookup t (c # cs) = (case map_of (dir_entries t) c of None \<Rightarrow> None | Some u \<Rightarrow> lookup u cs)"

fun put_at :: "string list \<Rightarrow> node \<Rightarrow> node \<Rightarrow> node" where
  "put_at [] n t = n"
| "put_at (c # cs) n (Dir a es) =
     (case map_of es c of
        None \<Rightarrow> if cs = [] then Dir a (AList.update c n es) else Dir a es
      | Some u \<Rightarrow> Dir a (AList.update c (put_at cs n u) es))"
| "put_at (c # cs) n t = t"

fun del_at :: "string list \<Rightarrow> node \<Rightarrow> node" where
  "del_at [] t = t"
| "del_at (c # cs) (Dir a es) =
     (if cs = [] then Dir a (AList.delete c es)
      else case map_of es c of
        None \<Rightarrow> Dir a es
      | Some u \<Rightarrow> Dir a (AList.update c (del_at cs u) es))"
| "del_at (c # cs) t = t"

lemma lookup_append: "lookup t (xs @ ys) = (case lookup t xs of None \<Rightarrow> None | Some u \<Rightarrow> lookup u ys)"
  by (induction xs arbitrary: t) (auto split: option.splits)

lemma map_of_update [simp]: "map_of (AList.update k v al) = (map_of al)(k \<mapsto> v)"
  by (rule update_conv')

lemma map_of_delete [simp]: "map_of (AList.delete k al) = (map_of al)(k := None)"
  by (rule delete_conv')

lemma lookup_put_same:
  assumes "lookup t (butlast cs) = Some d" and "is_dir d"
  shows "lookup (put_at cs n t) cs = Some n"
  using assms
proof (induction cs arbitrary: t)
  case Nil
  then show ?case by simp
next
  case (Cons c cs)
  then show ?case
    by (cases t; cases "cs = []") (auto split: option.splits)
qed

lemma lookup_put_nodir: "lookup t (butlast cs) = None \<Longrightarrow> put_at cs n t = t"
proof (induction cs arbitrary: t)
  case Nil
  then show ?case by simp
next
  case (Cons c cs)
  then show ?case
    by (cases t; cases "cs = []")
      (auto split: option.splits simp: update_triv)
qed

text \<open>Two different locations, neither below the other.\<close>

definition disjoint_loc :: "string list \<Rightarrow> string list \<Rightarrow> bool" where
  "disjoint_loc xs ys \<longleftrightarrow> take (length ys) xs \<noteq> ys \<and> take (length xs) ys \<noteq> xs"

lemma lookup_put_disjoint: "disjoint_loc xs ys \<Longrightarrow> lookup (put_at xs n t) ys = lookup t ys"
proof (induction xs arbitrary: t ys)
  case Nil
  then show ?case by (simp add: disjoint_loc_def)
next
  case (Cons c cs)
  then show ?case
    by (cases t; cases ys) (auto simp: disjoint_loc_def split: option.splits)
qed

lemma lookup_del_same: "cs \<noteq> [] \<Longrightarrow> lookup (del_at cs t) cs = None"
proof (induction cs arbitrary: t)
  case Nil
  then show ?case by simp
next
  case (Cons c cs)
  then show ?case
    by (cases t; cases "cs = []") (auto split: option.splits)
qed

lemma lookup_del_disjoint: "disjoint_loc xs ys \<Longrightarrow> lookup (del_at xs t) ys = lookup t ys"
proof (induction xs arbitrary: t ys)
  case Nil
  then show ?case by (simp add: disjoint_loc_def)
next
  case (Cons c cs)
  then show ?case
    by (cases t; cases ys) (auto simp: disjoint_loc_def split: option.splits)
qed


subsection \<open>Path resolution\<close>

fun split_path_acc :: "string \<Rightarrow> string \<Rightarrow> string list" where
  "split_path_acc acc [] = (if acc = [] then [] else [rev acc])"
| "split_path_acc acc (c # cs) =
     (if c = CHR ''/'' then (if acc = [] then split_path_acc [] cs else rev acc # split_path_acc [] cs)
      else split_path_acc (c # acc) cs)"

definition split_path :: "string \<Rightarrow> string list" where
  "split_path p = split_path_acc [] p"

datatype resolved = Found "string list" | Missing "string list" | RErr int

text \<open>
  \<open>walk fuel t follow cur cs\<close>: from directory \<open>cur\<close> along the components \<open>cs\<close>; \<open>fuel\<close> bounds
  the symbolic links followed (Linux: 40), \<open>follow\<close> says whether a link in last position is
  followed. \<open>Missing\<close>: everything exists but the last component.
\<close>

function walk :: "nat \<Rightarrow> node \<Rightarrow> bool \<Rightarrow> string list \<Rightarrow> string list \<Rightarrow> resolved" where
  "walk fuel t follow cur [] = Found cur"
| "walk fuel t follow cur (c # cs) =
     (if c = ''.'' then walk fuel t follow cur cs
      else if c = ''..'' then walk fuel t follow (butlast cur) cs
      else case lookup t (cur @ [c]) of
        None \<Rightarrow> if cs = [] then Missing (cur @ [c]) else RErr ENOENT
      | Some (Dir a es) \<Rightarrow> walk fuel t follow (cur @ [c]) cs
      | Some (Lnk a target) \<Rightarrow>
          if cs = [] \<and> \<not> follow then Found (cur @ [c])
          else (case fuel of
                  0 \<Rightarrow> RErr ELOOP
                | Suc k \<Rightarrow>
                    if target \<noteq> [] \<and> hd target = CHR ''/''
                    then walk k t follow [] (split_path target @ cs)
                    else walk k t follow cur (split_path target @ cs))
      | Some (Reg a d) \<Rightarrow> if cs = [] then Found (cur @ [c]) else RErr ENOTDIR
      | Some (Spc a) \<Rightarrow> if cs = [] then Found (cur @ [c]) else RErr ENOTDIR)"
  by pat_completeness auto
termination
  by (relation "measures [\<lambda>(fuel, t, follow, cur, cs). fuel, \<lambda>(fuel, t, follow, cur, cs). length cs]") auto

definition resolve :: "fs \<Rightarrow> bool \<Rightarrow> string \<Rightarrow> resolved" where
  "resolve f follow p =
     (if p = [] then RErr ENOENT
      else walk 40 (root f) follow (if hd p = CHR ''/'' then [] else cwd f) (split_path p))"

subsection \<open>Queries\<close>

text \<open>Each call consults \<open>faults\<close> first; \<open>Inl\<close> is the error number.\<close>

definition faulty :: "fs \<Rightarrow> syscall \<Rightarrow> string \<Rightarrow> bool" where
  "faulty f c p \<longleftrightarrow> faults f c p \<noteq> 0"

definition stat_gen :: "syscall \<Rightarrow> bool \<Rightarrow> string \<Rightarrow> fs \<Rightarrow> int + node" where
  "stat_gen c follow p f =
     (if faulty f c p then Inl (faults f c p)
      else case resolve f follow p of
        RErr e \<Rightarrow> Inl e
      | Missing l \<Rightarrow> Inl ENOENT
      | Found l \<Rightarrow> (case lookup (root f) l of None \<Rightarrow> Inl ENOENT | Some n \<Rightarrow> Inr n))"

definition sys_lstat :: "string \<Rightarrow> fs \<Rightarrow> int + node" where
  "sys_lstat = stat_gen SC_lstat False"

definition sys_stat :: "string \<Rightarrow> fs \<Rightarrow> int + node" where
  "sys_stat = stat_gen SC_stat True"

definition sys_access :: "string \<Rightarrow> fs \<Rightarrow> int + node" where
  "sys_access = stat_gen SC_access True"

text \<open>\<open>opendir\<close> and the whole sequence of names that \<open>readdir\<close> returns.\<close>

definition sys_listdir :: "string \<Rightarrow> fs \<Rightarrow> int + string list" where
  "sys_listdir p f =
     (case stat_gen SC_opendir True p f of
        Inl e \<Rightarrow> Inl e
      | Inr n \<Rightarrow> if is_dir n then Inr ([''.'', ''..''] @ map fst (dir_entries n)) else Inl ENOTDIR)"

definition sys_readlink :: "string \<Rightarrow> fs \<Rightarrow> int + string" where
  "sys_readlink p f =
     (case stat_gen SC_readlink False p f of
        Inl e \<Rightarrow> Inl e
      | Inr (Lnk _ t) \<Rightarrow> Inr t
      | Inr _ \<Rightarrow> Inl EINVAL)"

subsection \<open>Updates\<close>

definition new_attr :: "u32 \<Rightarrow> fs \<Rightarrow> attr" where
  "new_attr mode f = \<lparr>a_mode = mode AND 4095 AND NOT (umask f), a_uid = proc_uid f, a_gid = proc_gid f,
     a_atime = now f, a_mtime = now f, a_ctime = now f\<rparr>"

text \<open>Result of an update: 0 or the error number, and the file system after it.\<close>

definition sys_mkdir :: "string \<Rightarrow> u32 \<Rightarrow> fs \<Rightarrow> int \<times> fs" where
  "sys_mkdir p mode f =
     (if faulty f SC_mkdir p then (faults f SC_mkdir p, f)
      else case resolve f False p of
        RErr e \<Rightarrow> (e, f)
      | Found l \<Rightarrow> (EEXIST, f)
      | Missing l \<Rightarrow> (0, f\<lparr>root := put_at l (Dir (new_attr mode f) []) (root f)\<rparr>))"

definition sys_remove :: "string \<Rightarrow> fs \<Rightarrow> int \<times> fs" where
  "sys_remove p f =
     (if faulty f SC_remove p then (faults f SC_remove p, f)
      else case resolve f False p of
        RErr e \<Rightarrow> (e, f)
      | Missing l \<Rightarrow> (ENOENT, f)
      | Found l \<Rightarrow>
          if l = [] then (EBUSY, f)
          else (case lookup (root f) l of
             None \<Rightarrow> (ENOENT, f)
           | Some n \<Rightarrow> if is_dir n \<and> dir_entries n \<noteq> [] then (ENOTEMPTY, f)
                       else (0, f\<lparr>root := del_at l (root f)\<rparr>)))"

definition sys_rename :: "string \<Rightarrow> string \<Rightarrow> fs \<Rightarrow> int \<times> fs" where
  "sys_rename old new f =
     (if faulty f SC_rename old then (faults f SC_rename old, f)
      else case resolve f False old of
        RErr e \<Rightarrow> (e, f)
      | Missing l \<Rightarrow> (ENOENT, f)
      | Found l \<Rightarrow>
          (case lookup (root f) l of
             None \<Rightarrow> (ENOENT, f)
           | Some n \<Rightarrow>
               (case resolve f False new of
                  RErr e \<Rightarrow> (e, f)
                | Missing l' \<Rightarrow>
                    if l = [] \<or> take (length l) l' = l then (if l = [] then EBUSY else EINVAL, f)
                    else (0, f\<lparr>root := put_at l' n (del_at l (root f))\<rparr>)
                | Found l' \<Rightarrow>
                    if l = l' then (0, f)
                    else if l = [] \<or> l' = [] then (EBUSY, f)
                    else if take (length l) l' = l then (EINVAL, f)
                    else if take (length l') l = l' then (ENOTEMPTY, f)
                    else (case lookup (root f) l' of
                            None \<Rightarrow> (ENOENT, f)
                          | Some m \<Rightarrow>
                              if is_dir n \<and> \<not> is_dir m then (ENOTDIR, f)
                              else if \<not> is_dir n \<and> is_dir m then (EISDIR, f)
                              else if is_dir m \<and> dir_entries m \<noteq> [] then (ENOTEMPTY, f)
                              else (0, f\<lparr>root := put_at l' n (del_at l (root f))\<rparr>)))))"

definition sys_create :: "syscall \<Rightarrow> string \<Rightarrow> node \<Rightarrow> fs \<Rightarrow> int \<times> fs" where
  "sys_create c p n f =
     (if faulty f c p then (faults f c p, f)
      else case resolve f False p of
        RErr e \<Rightarrow> (e, f)
      | Found l \<Rightarrow> (EEXIST, f)
      | Missing l \<Rightarrow> (0, f\<lparr>root := put_at l n (root f)\<rparr>))"

definition sys_symlink :: "string \<Rightarrow> string \<Rightarrow> fs \<Rightarrow> int \<times> fs" where
  "sys_symlink target p f =
     (if target = [] then (ENOENT, f) else sys_create SC_symlink p (Lnk (new_attr 511 f) target) f)"

definition sys_link :: "string \<Rightarrow> string \<Rightarrow> fs \<Rightarrow> int \<times> fs" where
  "sys_link old p f =
     (case stat_gen SC_link False old f of
        Inl e \<Rightarrow> (e, f)
      | Inr n \<Rightarrow> if is_dir n then (EPERM, f) else sys_create SC_link p n f)"

definition sys_setattr :: "syscall \<Rightarrow> string \<Rightarrow> (attr \<Rightarrow> attr) \<Rightarrow> fs \<Rightarrow> int \<times> fs" where
  "sys_setattr c p g f =
     (if faulty f c p then (faults f c p, f)
      else case resolve f True p of
        RErr e \<Rightarrow> (e, f)
      | Missing l \<Rightarrow> (ENOENT, f)
      | Found l \<Rightarrow>
          (case lookup (root f) l of
             None \<Rightarrow> (ENOENT, f)
           | Some n \<Rightarrow> (0, f\<lparr>root := put_at l (set_attr g n) (root f)\<rparr>)))"

subsection \<open>Open files\<close>

text \<open>An open file: the path it was opened by (for \<open>faults\<close>), its location and its offset.\<close>

record fd =
  fd_path :: string
  fd_loc :: "string list"
  fd_pos :: nat

definition file_data :: "fs \<Rightarrow> string list \<Rightarrow> byte list option" where
  "file_data f l = (case lookup (root f) l of Some (Reg _ d) \<Rightarrow> Some d | _ \<Rightarrow> None)"

definition sys_open_read :: "string \<Rightarrow> fs \<Rightarrow> int + fd" where
  "sys_open_read p f =
     (if faulty f SC_open p then Inl (faults f SC_open p)
      else case resolve f True p of
        RErr e \<Rightarrow> Inl e
      | Missing l \<Rightarrow> Inl ENOENT
      | Found l \<Rightarrow> Inr \<lparr>fd_path = p, fd_loc = l, fd_pos = 0\<rparr>)"

definition sys_open_excl :: "string \<Rightarrow> fs \<Rightarrow> (int + fd) \<times> fs" where
  "sys_open_excl p f =
     (if faulty f SC_open p then (Inl (faults f SC_open p), f)
      else case resolve f False p of
        RErr e \<Rightarrow> (Inl e, f)
      | Found l \<Rightarrow> (Inl EEXIST, f)
      | Missing l \<Rightarrow> (Inr \<lparr>fd_path = p, fd_loc = l, fd_pos = 0\<rparr>,
                      f\<lparr>root := put_at l (Reg (new_attr 420 f) []) (root f)\<rparr>))"

text \<open>\<open>O_CREAT\<close> without \<open>O_EXCL\<close>; \<open>trunc\<close> is \<open>O_TRUNC\<close>.\<close>

definition sys_open_write :: "bool \<Rightarrow> string \<Rightarrow> fs \<Rightarrow> (int + fd) \<times> fs" where
  "sys_open_write trunc p f =
     (if faulty f SC_open p then (Inl (faults f SC_open p), f)
      else case resolve f True p of
        RErr e \<Rightarrow> (Inl e, f)
      | Missing l \<Rightarrow> (Inr \<lparr>fd_path = p, fd_loc = l, fd_pos = 0\<rparr>,
                      f\<lparr>root := put_at l (Reg (new_attr 420 f) []) (root f)\<rparr>)
      | Found l \<Rightarrow>
          (case lookup (root f) l of
             Some (Reg a d) \<Rightarrow> (Inr \<lparr>fd_path = p, fd_loc = l, fd_pos = 0\<rparr>,
               if trunc then f\<lparr>root := put_at l (Reg a []) (root f)\<rparr> else f)
           | Some (Dir a es) \<Rightarrow> (Inl EISDIR, f)
           | Some _ \<Rightarrow> (Inr \<lparr>fd_path = p, fd_loc = l, fd_pos = 0\<rparr>, f)
           | None \<Rightarrow> (Inl ENOENT, f)))"

text \<open>
  \<open>read(fd,buf,n)\<close> of a regular file returns the available bytes up to \<open>n\<close>; anything else is an
  error here. \<open>write\<close> writes the whole block at the offset, or fails.
\<close>

definition sys_read :: "fd \<Rightarrow> nat \<Rightarrow> fs \<Rightarrow> int + byte list" where
  "sys_read h n f =
     (if faulty f SC_read (fd_path h) then Inl (faults f SC_read (fd_path h))
      else case file_data f (fd_loc h) of
        None \<Rightarrow> Inl EISDIR
      | Some d \<Rightarrow> Inr (take n (drop (fd_pos h) d)))"

definition overwrite :: "nat \<Rightarrow> byte list \<Rightarrow> byte list \<Rightarrow> byte list" where
  "overwrite pos bs d = take pos d @ bs @ drop (pos + length bs) d"

definition sys_write :: "fd \<Rightarrow> byte list \<Rightarrow> fs \<Rightarrow> int \<times> fs" where
  "sys_write h bs f =
     (if faulty f SC_write (fd_path h) then (faults f SC_write (fd_path h), f)
      else case lookup (root f) (fd_loc h) of
        Some (Reg a d) \<Rightarrow>
          (0, f\<lparr>root := put_at (fd_loc h) (Reg a (overwrite (fd_pos h) bs d)) (root f)\<rparr>)
      | _ \<Rightarrow> (0, f))"

definition fd_advance :: "nat \<Rightarrow> fd \<Rightarrow> fd" where
  "fd_advance n h = h\<lparr>fd_pos := fd_pos h + n\<rparr>"

subsection \<open>Plain paths\<close>

text \<open>
  Absolute paths written from a list of ordinary names: neither empty, nor \<open>.\<close> or \<open>..\<close>, nor with a
  slash. They resolve without detours when the directories on the way are real directories.
\<close>

definition good_name :: "string \<Rightarrow> bool" where
  "good_name c \<longleftrightarrow> c \<noteq> [] \<and> c \<noteq> ''.'' \<and> c \<noteq> ''..'' \<and> CHR ''/'' \<notin> set c"

primrec abs_path :: "string list \<Rightarrow> string" where
  "abs_path [] = []"
| "abs_path (c # cs) = CHR ''/'' # c @ abs_path cs"

lemma abs_path_append [simp]: "abs_path (xs @ ys) = abs_path xs @ abs_path ys"
  by (induction xs) simp_all

lemma abs_path_Nil_iff [simp]: "abs_path cs = [] \<longleftrightarrow> cs = []"
  by (cases cs) simp_all

lemma hd_abs_path: "cs \<noteq> [] \<Longrightarrow> hd (abs_path cs) = CHR ''/''"
  by (cases cs) simp_all

lemma split_path_acc_name:
  "CHR ''/'' \<notin> set c \<Longrightarrow> split_path_acc acc (c @ r) = split_path_acc (rev c @ acc) r"
  by (induction c arbitrary: acc) auto

lemma split_path_acc_abs:
  "(\<forall>c \<in> set cs. good_name c) \<Longrightarrow> split_path_acc acc (abs_path cs) = (if acc = [] then cs else rev acc # cs)"
proof (induction cs arbitrary: acc)
  case Nil
  then show ?case by simp
next
  case (Cons c cs)
  then have c: "CHR ''/'' \<notin> set c" "c \<noteq> []" by (simp_all add: good_name_def)
  have "split_path_acc [] (c @ abs_path cs) = c # cs"
    using Cons c by (simp add: split_path_acc_name)
  then show ?case by simp
qed

lemma split_path_abs: "(\<forall>c \<in> set cs. good_name c) \<Longrightarrow> split_path (abs_path cs) = cs"
  by (simp add: split_path_def split_path_acc_abs)

lemma walk_plain_Found:
  assumes "\<forall>c \<in> set cs. good_name c"
    and "\<forall>k < length cs. \<exists>a es. lookup t (cur @ take k cs) = Some (Dir a es)"
    and "lookup t (cur @ cs) = Some n" and "follow \<longrightarrow> \<not> is_lnk n"
  shows "walk fuel t follow cur cs = Found (cur @ cs)"
  using assms
proof (induction cs arbitrary: cur)
  case Nil
  then show ?case by simp
next
  case (Cons c cs)
  have c: "c \<noteq> ''.''" "c \<noteq> ''..''" using Cons.prems(1) by (simp_all add: good_name_def)
  show ?case
  proof (cases "cs = []")
    case True
    with Cons.prems c show ?thesis by (cases n) auto
  next
    case False
    then have "\<exists>a es. lookup t (cur @ [c]) = Some (Dir a es)"
      using Cons.prems(2) [rule_format, of 1] by (cases cs) auto
    moreover have "walk fuel t follow (cur @ [c]) cs = Found ((cur @ [c]) @ cs)"
    proof (rule Cons.IH)
      show "\<forall>k<length cs. \<exists>a es. lookup t ((cur @ [c]) @ take k cs) = Some (Dir a es)"
        using Cons.prems(2) by (metis Suc_less_eq append.assoc append_Cons append_Nil length_Cons take_Suc_Cons)
    qed (use Cons.prems in auto)
    ultimately show ?thesis using c by auto
  qed
qed

lemma walk_plain_Missing:
  assumes "\<forall>c \<in> set cs. good_name c" and "cs \<noteq> []"
    and "\<forall>k < length cs. \<exists>a es. lookup t (cur @ take k cs) = Some (Dir a es)"
    and "lookup t (cur @ cs) = None"
  shows "walk fuel t follow cur cs = Missing (cur @ cs)"
  using assms
proof (induction cs arbitrary: cur)
  case Nil
  then show ?case by simp
next
  case (Cons c cs)
  have c: "c \<noteq> ''.''" "c \<noteq> ''..''" using Cons.prems(1) by (simp_all add: good_name_def)
  show ?case
  proof (cases "cs = []")
    case True
    with Cons.prems c show ?thesis by auto
  next
    case False
    then have "\<exists>a es. lookup t (cur @ [c]) = Some (Dir a es)"
      using Cons.prems(3) [rule_format, of 1] by (cases cs) auto
    moreover have "walk fuel t follow (cur @ [c]) cs = Missing ((cur @ [c]) @ cs)"
    proof (rule Cons.IH)
      show "\<forall>k<length cs. \<exists>a es. lookup t ((cur @ [c]) @ take k cs) = Some (Dir a es)"
        using Cons.prems(3) by (metis Suc_less_eq append.assoc append_Cons append_Nil length_Cons take_Suc_Cons)
    qed (use Cons.prems False in auto)
    ultimately show ?thesis using c by auto
  qed
qed

text \<open>The directories above a location are real directories.\<close>

definition dirs_above :: "node \<Rightarrow> string list \<Rightarrow> bool" where
  "dirs_above t cs \<longleftrightarrow> (\<forall>k < length cs. \<exists>a es. lookup t (take k cs) = Some (Dir a es))"

lemma resolve_plain_Found:
  "\<lbrakk>\<forall>c \<in> set cs. good_name c; cs \<noteq> []; dirs_above (root f) cs; lookup (root f) cs = Some n;
    follow \<longrightarrow> \<not> is_lnk n\<rbrakk> \<Longrightarrow> resolve f follow (abs_path cs) = Found cs"
  using walk_plain_Found [of cs "root f" "[]" n follow 40]
  by (simp add: resolve_def hd_abs_path split_path_abs dirs_above_def)

lemma resolve_plain_Missing:
  "\<lbrakk>\<forall>c \<in> set cs. good_name c; cs \<noteq> []; dirs_above (root f) cs; lookup (root f) cs = None\<rbrakk>
   \<Longrightarrow> resolve f follow (abs_path cs) = Missing cs"
  using walk_plain_Missing [of cs "root f" "[]" 40 follow]
  by (simp add: resolve_def hd_abs_path split_path_abs dirs_above_def)

lemma dirs_above_snoc:
  "dirs_above t (cs @ [c]) \<longleftrightarrow> dirs_above t cs \<and> (\<exists>a es. lookup t cs = Some (Dir a es))"
  by (auto simp: dirs_above_def less_Suc_eq)

lemma dirs_above_take: "dirs_above t cs \<Longrightarrow> dirs_above t (take k cs)"
  by (auto simp: dirs_above_def min_def)

lemma abs_path_snoc: "abs_path (cs @ [c]) = abs_path cs @ CHR ''/'' # c"
  by simp

end
