(* ===== verification/RH_World.thy ===== *)
theory RH_World
  imports RH_FileSystem
begin

section \<open>The state of the process and the effects of its handlers\<close>

text \<open>
  A request handler of the program reads from and writes to its connections, calls the file
  system, sets \<open>errno\<close>, and may leave by an exception (\<open>threadExit()\<close> throws, \<open>_Exit\<close> ends the
  process). A handler is a function of type \<open>'a io\<close>: from the state of the process to an outcome
  and the state after it.

  A connection is what an \<open>IDescriptor\<close> (Unix socket or TLS session) is to a handler: the bytes
  its peer will ever send that were not read yet (after them, end of stream), the bytes written
  so far, and how many more bytes can be written before a write fails (\<open>None\<close>: no limit).
\<close>

datatype handle = Cl | Rcl | RhssLocal

record conn =
  inb :: "byte list"
  outb :: "byte list"
  closed :: bool
  wroom :: "nat option"

datatype exn = ThreadExit | ProcExit int | StdException | OutOfFuel

datatype 'a outcome = Ret 'a | Raise exn

text \<open>
  The globals of the program that handlers use: \<open>rhss\<close>, \<open>currentHomePath\<close>,
  \<open>currentXREHomePath\<close>, \<open>xreExposedDirectory\<close> (homePaths.h), \<open>currentSearchInOutDesc\<close> (r.cpp;
  only whether it is set), \<open>rhss_pid\<close>. \<open>users\<close> is the password database, \<open>kill_res\<close> what
  \<open>kill\<close> answers, \<open>killed\<close> the signals sent, \<open>ticks\<close> when the progress thread samples,
  \<open>progress\<close> the counter of the running progress hook.
\<close>

record world =
  conns :: "handle \<Rightarrow> conn"
  wfs :: fs
  errno :: int
  rhss :: int
  homePath :: string
  xreHomePath :: string
  exposedDirectory :: string
  searching :: bool
  rhss_pid :: int
  mypid :: u32
  users :: "u32 \<Rightarrow> string option"
  kill_res :: "u32 \<Rightarrow> u32 \<Rightarrow> int"
  killed :: "(u32 \<times> u32) list"
  ticks :: "nat list"
  progress :: u64

type_synonym 'a io = "world \<Rightarrow> 'a outcome \<times> world"

subsection \<open>Sequencing\<close>

definition ret :: "'a \<Rightarrow> 'a io" where
  "ret a = (\<lambda>w. (Ret a, w))"

definition raise :: "exn \<Rightarrow> 'a io" where
  "raise e = (\<lambda>w. (Raise e, w))"

definition bnd :: "'a io \<Rightarrow> ('a \<Rightarrow> 'b io) \<Rightarrow> 'b io" where
  "bnd m f = (\<lambda>w. case m w of (Ret a, w') \<Rightarrow> f a w' | (Raise e, w') \<Rightarrow> (Raise e, w'))"

definition thn :: "'a io \<Rightarrow> 'b io \<Rightarrow> 'b io" where
  "thn m n = bnd m (\<lambda>_. n)"

definition threadExit :: "'a io" where
  "threadExit = raise ThreadExit"

definition get :: "(world \<Rightarrow> 'a) \<Rightarrow> 'a io" where
  "get f = (\<lambda>w. (Ret (f w), w))"

definition modify :: "(world \<Rightarrow> world) \<Rightarrow> unit io" where
  "modify f = (\<lambda>w. (Ret (), f w))"

definition set_errno :: "int \<Rightarrow> unit io" where
  "set_errno e = modify (errno_update (\<lambda>_. e))"

primrec io_for :: "'a list \<Rightarrow> ('a \<Rightarrow> unit io) \<Rightarrow> unit io" where
  "io_for [] body = ret ()"
| "io_for (x # xs) body = thn (body x) (io_for xs body)"

primrec io_fold :: "('s \<Rightarrow> 'a \<Rightarrow> 's io) \<Rightarrow> 's \<Rightarrow> 'a list \<Rightarrow> 's io" where
  "io_fold f s [] = ret s"
| "io_fold f s (x # xs) = bnd (f s x) (\<lambda>s'. io_fold f s' xs)"

text \<open>
  A loop that reads requests from a connection until it breaks: \<open>Inl\<close> continues, \<open>Inr\<close> breaks.
  The fuel is the number of bytes left to read; \<open>io_loop_unfold\<close> below shows that it is always
  enough when every round reads something.
\<close>

primrec io_iter :: "nat \<Rightarrow> ('s \<Rightarrow> ('s + 'a) io) \<Rightarrow> 's \<Rightarrow> 'a io" where
  "io_iter 0 body s = raise OutOfFuel"
| "io_iter (Suc n) body s = bnd (body s) (\<lambda>r. case r of Inl s' \<Rightarrow> io_iter n body s' | Inr a \<Rightarrow> ret a)"

definition avail :: "handle \<Rightarrow> world \<Rightarrow> nat" where
  "avail h w = length (inb (conns w h))"

definition io_loop :: "handle \<Rightarrow> ('s \<Rightarrow> ('s + 'a) io) \<Rightarrow> 's \<Rightarrow> 'a io" where
  "io_loop h body s = (\<lambda>w. io_iter (Suc (avail h w)) body s w)"

lemma bnd_app [io_eval]:
  "bnd m f w = (case m w of (Ret a, w') \<Rightarrow> f a w' | (Raise e, w') \<Rightarrow> (Raise e, w'))"
  by (simp add: bnd_def)

lemma thn_app [io_eval]:
  "thn m n w = (case m w of (Ret a, w') \<Rightarrow> n w' | (Raise e, w') \<Rightarrow> (Raise e, w'))"
  by (simp add: thn_def bnd_def)

lemma ret_app [io_eval]: "ret a w = (Ret a, w)"
  by (simp add: ret_def)

lemma raise_app [io_eval]: "raise e w = (Raise e, w)"
  by (simp add: raise_def)

lemma threadExit_app [io_eval]: "threadExit w = (Raise ThreadExit, w)"
  by (simp add: threadExit_def raise_def)

lemma get_app [io_eval]: "get f w = (Ret (f w), w)"
  by (simp add: get_def)

lemma modify_app [io_eval]: "modify f w = (Ret (), f w)"
  by (simp add: modify_def)

lemma set_errno_app [io_eval]: "set_errno e w = (Ret (), w\<lparr>errno := e\<rparr>)"
  by (simp add: set_errno_def modify_def)

lemma bnd_ret [simp]: "bnd (ret a) f = f a"
  by (simp add: bnd_def ret_def)

lemma bnd_assoc: "bnd (bnd m f) g = bnd m (\<lambda>a. bnd (f a) g)"
  by (rule ext) (simp add: bnd_def split: prod.splits outcome.splits)

lemma io_for_append: "io_for (xs @ ys) b = thn (io_for xs b) (io_for ys b)"
  by (induction xs) (simp_all add: thn_def bnd_assoc)

subsection \<open>Descriptors\<close>

definition set_conn :: "handle \<Rightarrow> conn \<Rightarrow> world \<Rightarrow> world" where
  "set_conn h c w = w\<lparr>conns := (conns w)(h := c)\<rparr>"

definition shut :: "conn \<Rightarrow> conn" where
  "shut c = c\<lparr>inb := [], wroom := Some 0, closed := True\<rparr>"

definition closeDesc :: "handle \<Rightarrow> unit io" where
  "closeDesc h = modify (\<lambda>w. set_conn h (shut (conns w h)) w)"

text \<open>
  \<open>IDescriptor::readAllOrExit\<close>, \<open>writeAllOrExit\<close> (\<open>RH_Descriptor\<close> shows that the loops of
  desc/IDescriptor.h do this on any descriptor that reads and writes at least one byte per call).
\<close>

definition readAllOrExit :: "handle \<Rightarrow> nat \<Rightarrow> byte list io" where
  "readAllOrExit h n = (\<lambda>w. let c = conns w h in
     if n \<le> length (inb c) then (Ret (take n (inb c)), set_conn h (c\<lparr>inb := drop n (inb c)\<rparr>) w)
     else (Raise ThreadExit, set_conn h (shut c) w))"

definition push :: "byte list \<Rightarrow> conn \<Rightarrow> conn" where
  "push bs c = c\<lparr>outb := outb c @ bs, wroom := map_option (\<lambda>r. r - length bs) (wroom c)\<rparr>"

definition fits :: "conn \<Rightarrow> nat \<Rightarrow> bool" where
  "fits c n \<longleftrightarrow> (case wroom c of None \<Rightarrow> True | Some r \<Rightarrow> n \<le> r)"

definition writeAllOrExit :: "handle \<Rightarrow> byte list \<Rightarrow> unit io" where
  "writeAllOrExit h bs = (\<lambda>w. let c = conns w h in
     if fits c (length bs) then (Ret (), set_conn h (push bs c) w)
     else (Raise ThreadExit, set_conn h (shut (push (take (the (wroom c)) bs) c)) w))"

text \<open>
  One \<open>write\<close> and one \<open>read\<close>. A \<open>write\<close> on a descriptor with some room left writes what fits,
  and fails with -1 otherwise.
\<close>

definition writeRaw :: "handle \<Rightarrow> byte list \<Rightarrow> int io" where
  "writeRaw h bs = (\<lambda>w. let c = conns w h in
     case wroom c of
       None \<Rightarrow> (Ret (int (length bs)), set_conn h (push bs c) w)
     | Some r \<Rightarrow> if r = 0 \<and> bs \<noteq> [] then (Ret (- 1), w)
                 else (Ret (int (min r (length bs))), set_conn h (push (take r bs) c) w))"

definition readRaw :: "handle \<Rightarrow> nat \<Rightarrow> byte list io" where
  "readRaw h n = (\<lambda>w. let c = conns w h in
     (Ret (take n (inb c)), set_conn h (c\<lparr>inb := drop n (inb c)\<rparr>) w))"

subsection \<open>Symbolic input and output\<close>

text \<open>\<open>feed h bs w\<close>: the peer of \<open>h\<close> sends \<open>bs\<close> first. \<open>emit h bs w\<close>: \<open>bs\<close> was written to \<open>h\<close>.\<close>

definition feed :: "handle \<Rightarrow> byte list \<Rightarrow> world \<Rightarrow> world" where
  "feed h bs w = set_conn h ((conns w h)\<lparr>inb := bs @ inb (conns w h)\<rparr>) w"

definition emit :: "handle \<Rightarrow> byte list \<Rightarrow> world \<Rightarrow> world" where
  "emit h bs w = set_conn h ((conns w h)\<lparr>outb := outb (conns w h) @ bs\<rparr>) w"

definition wr :: "handle \<Rightarrow> world \<Rightarrow> bool" where
  "wr h w \<longleftrightarrow> wroom (conns w h) = None"

lemma feed_Nil [simp]: "feed h [] w = w"
  by (simp add: feed_def set_conn_def)

lemma emit_Nil [simp]: "emit h [] w = w"
  by (simp add: emit_def set_conn_def)

lemma feed_append [simp]: "feed h (a @ b) w = feed h a (feed h b w)"
  by (simp add: feed_def set_conn_def)

lemma feed_Cons: "feed h (x # b) w = feed h [x] (feed h b w)"
  by (simp add: feed_def set_conn_def)

lemma emit_emit [simp]: "emit h b (emit h a w) = emit h (a @ b) w"
  by (simp add: emit_def set_conn_def)

lemma emit_feed [simp]: "emit h b (feed h' a w) = feed h' a (emit h b w)"
  by (cases "conns w h") (auto simp: emit_def feed_def set_conn_def fun_upd_twist)

lemma feed_swap: "h \<noteq> h' \<Longrightarrow> feed h a (feed h' b w) = feed h' b (feed h a w)"
  by (auto simp: feed_def set_conn_def fun_upd_twist)

lemma feed_Rcl_Cl [simp]: "feed Rcl a (feed Cl b w) = feed Cl b (feed Rcl a w)"
  by (rule feed_swap) simp

lemma emit_swap: "h \<noteq> h' \<Longrightarrow> emit h a (emit h' b w) = emit h' b (emit h a w)"
  by (auto simp: emit_def set_conn_def fun_upd_twist)

lemma emit_Rcl_Cl [simp]: "emit Rcl a (emit Cl b w) = emit Cl b (emit Rcl a w)"
  by (rule emit_swap) simp

lemma emit_Cl_Rcl_Cl [simp]: "emit Cl c (emit Rcl a (emit Cl b w)) = emit Cl (b @ c) (emit Rcl a w)"
  by (simp only: emit_Rcl_Cl emit_emit)

lemma wr_feed [simp]: "wr h (feed h' a w) = wr h w"
  by (simp add: wr_def feed_def set_conn_def)

lemma wr_emit [simp]: "wr h (emit h' a w) = wr h w"
  by (simp add: wr_def emit_def set_conn_def)

lemma read_feed [io_eval]: "length bs = n \<Longrightarrow> readAllOrExit h n (feed h bs w) = (Ret bs, w)"
  by (simp add: readAllOrExit_def feed_def set_conn_def)

lemma read_feed_Rcl [io_eval]:
  "length bs = n \<Longrightarrow> readAllOrExit Rcl n (feed Cl a (feed Rcl bs w)) = (Ret bs, feed Cl a w)"
  by (simp flip: feed_Rcl_Cl) (simp only: read_feed)

lemma read_Cons [io_eval]:
  "readAllOrExit h (Suc 0) (feed h (x # bs) w) = (Ret [x], feed h bs w)"
  by (simp add: feed_Cons [of h x bs] read_feed)

lemma read_Cons_Rcl [io_eval]:
  "readAllOrExit Rcl (Suc 0) (feed Cl a (feed Rcl (x # bs) w)) = (Ret [x], feed Cl a (feed Rcl bs w))"
  by (simp add: feed_Cons [of Rcl x bs] read_feed_Rcl)

lemma read_0 [io_eval]: "readAllOrExit h 0 w = (Ret [], w)"
  by (simp add: readAllOrExit_def set_conn_def)

lemma push_unlimited: "wroom c = None \<Longrightarrow> push bs c = c\<lparr>outb := outb c @ bs\<rparr>"
  by (cases c) (simp add: push_def)

lemma write_emit [io_eval]: "wr h w \<Longrightarrow> writeAllOrExit h bs w = (Ret (), emit h bs w)"
  by (simp add: writeAllOrExit_def fits_def wr_def push_unlimited emit_def Let_def)

lemma io_for_write [io_eval]:
  "wr h w \<Longrightarrow> io_for xs (\<lambda>x. writeAllOrExit h (f x)) w = (Ret (), emit h (concat (map f xs)) w)"
  by (induction xs arbitrary: w) (simp_all add: io_eval)

lemma io_for_write_id: "wr h w \<Longrightarrow> io_for xs (writeAllOrExit h) w = (Ret (), emit h (concat xs) w)"
  using io_for_write [of h w xs "\<lambda>x. x"] by simp

lemma writeRaw_emit [io_eval]: "wr h w \<Longrightarrow> writeRaw h bs w = (Ret (int (length bs)), emit h bs w)"
  by (simp add: writeRaw_def wr_def push_unlimited emit_def Let_def)

subsection \<open>Fields and streams are independent\<close>

lemma feed_fields [simp]:
  "wfs (feed h a w) = wfs w" "errno (feed h a w) = errno w" "rhss (feed h a w) = rhss w"
  "homePath (feed h a w) = homePath w" "xreHomePath (feed h a w) = xreHomePath w"
  "exposedDirectory (feed h a w) = exposedDirectory w" "searching (feed h a w) = searching w"
  "rhss_pid (feed h a w) = rhss_pid w" "mypid (feed h a w) = mypid w" "users (feed h a w) = users w"
  "kill_res (feed h a w) = kill_res w" "killed (feed h a w) = killed w" "ticks (feed h a w) = ticks w"
  "progress (feed h a w) = progress w"
  by (simp_all add: feed_def set_conn_def)

lemma emit_fields [simp]:
  "wfs (emit h a w) = wfs w" "errno (emit h a w) = errno w" "rhss (emit h a w) = rhss w"
  "homePath (emit h a w) = homePath w" "xreHomePath (emit h a w) = xreHomePath w"
  "exposedDirectory (emit h a w) = exposedDirectory w" "searching (emit h a w) = searching w"
  "rhss_pid (emit h a w) = rhss_pid w" "mypid (emit h a w) = mypid w" "users (emit h a w) = users w"
  "kill_res (emit h a w) = kill_res w" "killed (emit h a w) = killed w" "ticks (emit h a w) = ticks w"
  "progress (emit h a w) = progress w"
  by (simp_all add: emit_def set_conn_def)

lemma feed_upd [simp]:
  "(feed h a w)\<lparr>errno := e\<rparr> = feed h a (w\<lparr>errno := e\<rparr>)"
  "(feed h a w)\<lparr>wfs := f\<rparr> = feed h a (w\<lparr>wfs := f\<rparr>)"
  "(feed h a w)\<lparr>searching := s\<rparr> = feed h a (w\<lparr>searching := s\<rparr>)"
  "(feed h a w)\<lparr>killed := k\<rparr> = feed h a (w\<lparr>killed := k\<rparr>)"
  "(feed h a w)\<lparr>ticks := t\<rparr> = feed h a (w\<lparr>ticks := t\<rparr>)"
  "(feed h a w)\<lparr>progress := p\<rparr> = feed h a (w\<lparr>progress := p\<rparr>)"
  by (simp_all add: feed_def set_conn_def)

lemma emit_upd [simp]:
  "(emit h a w)\<lparr>errno := e\<rparr> = emit h a (w\<lparr>errno := e\<rparr>)"
  "(emit h a w)\<lparr>wfs := f\<rparr> = emit h a (w\<lparr>wfs := f\<rparr>)"
  "(emit h a w)\<lparr>searching := s\<rparr> = emit h a (w\<lparr>searching := s\<rparr>)"
  "(emit h a w)\<lparr>killed := k\<rparr> = emit h a (w\<lparr>killed := k\<rparr>)"
  "(emit h a w)\<lparr>ticks := t\<rparr> = emit h a (w\<lparr>ticks := t\<rparr>)"
  "(emit h a w)\<lparr>progress := p\<rparr> = emit h a (w\<lparr>progress := p\<rparr>)"
  by (simp_all add: emit_def set_conn_def)

lemma wr_upd [simp]:
  "wr h (w\<lparr>errno := e\<rparr>) = wr h w" "wr h (w\<lparr>wfs := f\<rparr>) = wr h w"
  "wr h (w\<lparr>searching := s\<rparr>) = wr h w" "wr h (w\<lparr>killed := k\<rparr>) = wr h w"
  "wr h (w\<lparr>ticks := t\<rparr>) = wr h w" "wr h (w\<lparr>progress := p\<rparr>) = wr h w"
  by (simp_all add: wr_def)

subsection \<open>Loops over the input never run out of fuel\<close>

text \<open>\<open>eats h k m\<close>: whenever \<open>m\<close> returns it has taken at least \<open>k\<close> bytes from \<open>h\<close>.\<close>

definition eats :: "handle \<Rightarrow> nat \<Rightarrow> 'a io \<Rightarrow> bool" where
  "eats h k m \<longleftrightarrow> (\<forall>w a w'. m w = (Ret a, w') \<longrightarrow> avail h w' + k \<le> avail h w)"

lemma eatsI: "(\<And>w a w'. m w = (Ret a, w') \<Longrightarrow> avail h w' + k \<le> avail h w) \<Longrightarrow> eats h k m"
  by (simp add: eats_def)

lemma eatsD: "\<lbrakk>eats h k m; m w = (Ret a, w')\<rbrakk> \<Longrightarrow> avail h w' + k \<le> avail h w"
  by (simp add: eats_def)

lemma eats_weaken: "\<lbrakk>eats h k m; j \<le> k\<rbrakk> \<Longrightarrow> eats h j m"
  by (force simp: eats_def)

lemma eats_ret: "eats h 0 (ret a)"
  by (simp add: eats_def ret_def)

lemma eats_read: "eats h n (readAllOrExit h n)"
  by (rule eatsI) (auto simp: readAllOrExit_def avail_def set_conn_def Let_def split: if_splits)

lemma eats_read_other: "eats h 0 (readAllOrExit h' n)"
  by (rule eatsI) (auto simp: readAllOrExit_def avail_def set_conn_def Let_def split: if_splits)

lemma eats_write: "eats h 0 (writeAllOrExit h' bs)"
  by (rule eatsI) (auto simp: writeAllOrExit_def avail_def set_conn_def push_def Let_def
      split: if_splits)

lemma eats_bnd: "\<lbrakk>eats h j m; \<And>a. eats h k (f a)\<rbrakk> \<Longrightarrow> eats h (j + k) (bnd m f)"
  by (rule eatsI) (fastforce simp: bnd_def dest: eatsD split: prod.splits outcome.splits)

lemma eats0_bnd: "\<lbrakk>eats h 0 m; \<And>a. eats h 0 (f a)\<rbrakk> \<Longrightarrow> eats h 0 (bnd m f)"
  using eats_bnd [of h 0 m 0 f] by simp

lemma eats0_read: "eats h 0 (readAllOrExit h n)"
  by (rule eats_weaken [OF eats_read]) simp

lemmas eats0_intros = eats0_bnd eats0_read eats_read_other eats_write eats_ret

text \<open>\<open>no_oof m\<close>: \<open>m\<close> never ends for lack of fuel.\<close>

definition no_oof :: "'a io \<Rightarrow> bool" where
  "no_oof m \<longleftrightarrow> (\<forall>w w'. m w \<noteq> (Raise OutOfFuel, w'))"

lemma no_oof_ret: "no_oof (ret a)"
  by (simp add: no_oof_def ret_def)

lemma no_oof_read: "no_oof (readAllOrExit h n)"
  by (simp add: no_oof_def readAllOrExit_def Let_def)

lemma no_oof_write: "no_oof (writeAllOrExit h bs)"
  by (simp add: no_oof_def writeAllOrExit_def Let_def)

lemma no_oof_bnd: "\<lbrakk>no_oof m; \<And>a. no_oof (f a)\<rbrakk> \<Longrightarrow> no_oof (bnd m f)"
  by (fastforce simp: no_oof_def bnd_def split: prod.splits outcome.splits)

lemma io_iter_fuel:
  assumes "\<And>s w s' w'. body s w = (Ret (Inl s'), w') \<Longrightarrow> avail h w' < avail h w"
    and "avail h w < n" and "avail h w < m"
  shows "io_iter n body s w = io_iter m body s w"
  using assms(2,3)
proof (induction n arbitrary: m s w)
  case 0
  then show ?case by simp
next
  case (Suc n)
  obtain k where m: "m = Suc k" using Suc.prems(2) by (cases m) auto
  show ?case
  proof (cases "body s w")
    case (Pair r w')
    show ?thesis
    proof (cases "\<exists>s'. r = Ret (Inl s')")
      case True
      then obtain s' where r: "r = Ret (Inl s')" by auto
      with Pair have "avail h w' < avail h w" using assms(1) by blast
      then have "io_iter n body s' w' = io_iter k body s' w'"
        using Suc.prems m by (intro Suc.IH) auto
      with Pair r m show ?thesis by (simp add: bnd_def)
    next
      case False
      with Pair m show ?thesis
        by (auto simp: bnd_def split: outcome.splits sum.splits)
    qed
  qed
qed

lemma io_loop_unfold:
  assumes "\<And>s w s' w'. body s w = (Ret (Inl s'), w') \<Longrightarrow> avail h w' < avail h w"
  shows "io_loop h body s = bnd (body s) (\<lambda>r. case r of Inl s' \<Rightarrow> io_loop h body s' | Inr a \<Rightarrow> ret a)"
proof (rule ext)
  fix w
  show "io_loop h body s w
      = bnd (body s) (\<lambda>r. case r of Inl s' \<Rightarrow> io_loop h body s' | Inr a \<Rightarrow> ret a) w"
  proof (cases "body s w")
    case (Pair r w')
    have eq: "io_iter (avail h w) body s' w' = io_iter (Suc (avail h w')) body s' w'"
      if "r = Ret (Inl s')" for s'
    proof -
      have "avail h w' < avail h w" using Pair that assms by blast
      then show ?thesis using assms by (intro io_iter_fuel [where h = h]) auto
    qed
    show ?thesis
      using Pair eq by (simp add: io_loop_def bnd_def split: outcome.splits sum.splits)
  qed
qed

lemma no_oof_io_loop:
  assumes "\<And>s w s' w'. body s w = (Ret (Inl s'), w') \<Longrightarrow> avail h w' < avail h w"
    and "\<And>s. no_oof (body s)"
  shows "no_oof (io_loop h body s)"
proof -
  have "io_iter n body s w \<noteq> (Raise OutOfFuel, w')" if "avail h w < n" for n s w w'
    using that
  proof (induction n arbitrary: s w)
    case 0
    then show ?case by simp
  next
    case (Suc n)
    show ?case
    proof (cases "body s w")
      case (Pair r w1)
      have "io_iter n body s' w1 \<noteq> (Raise OutOfFuel, w')" if "r = Ret (Inl s')" for s'
      proof -
        have "avail h w1 < avail h w" using Pair that assms(1) by blast
        with Suc.prems show ?thesis by (intro Suc.IH) simp
      qed
      with Pair assms(2) [of s] show ?thesis
        by (auto simp: bnd_def no_oof_def ret_def split: outcome.splits sum.splits)
    qed
  qed
  then show ?thesis unfolding no_oof_def io_loop_def using lessI by blast
qed

lemma io_loop_eats:
  assumes "\<And>s. eats h (Suc k) (body s)"
  shows "body s w = (Ret (Inl s'), w') \<Longrightarrow> avail h w' < avail h w"
  using eatsD [OF assms] by fastforce

subsection \<open>File-system calls from a handler\<close>

definition io_query :: "(fs \<Rightarrow> int + 'a) \<Rightarrow> 'a option io" where
  "io_query q = (\<lambda>w. case q (wfs w) of
       Inl e \<Rightarrow> (Ret None, w\<lparr>errno := e\<rparr>)
     | Inr a \<Rightarrow> (Ret (Some a), w))"

definition io_update :: "(fs \<Rightarrow> int \<times> fs) \<Rightarrow> bool io" where
  "io_update u = (\<lambda>w. case u (wfs w) of (e, f) \<Rightarrow>
     if e = 0 then (Ret True, w\<lparr>wfs := f\<rparr>) else (Ret False, w\<lparr>errno := e\<rparr>))"

datatype FileOpenMode = FM_READ | FM_WRITE | FM_XCL

text \<open>\<open>fdfactory.create(path,mode)\<close> with the test \<open>if(!fd)\<close> (desc/PosixDescriptor.h).\<close>

definition fd_create :: "string \<Rightarrow> FileOpenMode \<Rightarrow> (int + fd) io" where
  "fd_create p m = (\<lambda>w.
     let (r, f) = (case m of FM_READ \<Rightarrow> (sys_open_read p (wfs w), wfs w)
                           | FM_WRITE \<Rightarrow> sys_open_write True p (wfs w)
                           | FM_XCL \<Rightarrow> sys_open_excl p (wfs w))
     in case r of Inl e \<Rightarrow> (Ret (Inl e), w\<lparr>errno := e\<rparr>) | Inr d \<Rightarrow> (Ret (Inr d), w\<lparr>wfs := f\<rparr>))"

definition fd_readAllOrExit :: "fd \<Rightarrow> nat \<Rightarrow> (byte list \<times> fd) io" where
  "fd_readAllOrExit d n = (\<lambda>w. case sys_read d n (wfs w) of
       Inl e \<Rightarrow> (if n = 0 then Ret ([], d) else Raise ThreadExit, w\<lparr>errno := e\<rparr>)
     | Inr bs \<Rightarrow> if length bs < n then (Raise ThreadExit, w) else (Ret (bs, fd_advance n d), w))"

definition fd_writeAllOrExit :: "fd \<Rightarrow> byte list \<Rightarrow> fd io" where
  "fd_writeAllOrExit d bs = (\<lambda>w. case sys_write d bs (wfs w) of (e, f) \<Rightarrow>
     if bs = [] then (Ret d, w)
     else if e \<noteq> 0 then (Raise ThreadExit, w\<lparr>errno := e\<rparr>)
     else (Ret (fd_advance (length bs) d), w\<lparr>wfs := f\<rparr>))"

subsection \<open>Returned values\<close>

text \<open>Whatever a computation returns when it returns satisfies \<open>P\<close>.\<close>

definition rets :: "'a io \<Rightarrow> ('a \<Rightarrow> bool) \<Rightarrow> bool" where
  "rets m P \<longleftrightarrow> (\<forall>w v w'. m w = (Ret v, w') \<longrightarrow> P v)"

named_theorems rets_rules

lemma rets_ret [rets_rules]: "P v \<Longrightarrow> rets (ret v) P"
  by (simp add: rets_def ret_app)

lemma rets_any: "(\<And>v. P v) \<Longrightarrow> rets m P"
  by (simp add: rets_def)

lemma rets_bnd_post: "\<lbrakk>rets m Q; \<And>a. Q a \<Longrightarrow> rets (f a) P\<rbrakk> \<Longrightarrow> rets (bnd m f) P"
  unfolding rets_def bnd_def by (fastforce split: prod.splits outcome.splits)

lemma rets_bnd [rets_rules]: "(\<And>a. rets (f a) P) \<Longrightarrow> rets (bnd m f) P"
  by (rule rets_bnd_post [OF rets_any]) simp_all

lemma rets_thn [rets_rules]: "rets m P \<Longrightarrow> rets (thn n m) P"
  unfolding thn_def by (rule rets_bnd)

lemma rets_if [rets_rules]: "\<lbrakk>b \<Longrightarrow> rets m P; \<not> b \<Longrightarrow> rets n P\<rbrakk> \<Longrightarrow> rets (if b then m else n) P"
  by simp

lemma rets_raise [rets_rules]: "rets (raise e) P"
  by (simp add: rets_def raise_def)

lemma rets_threadExit [rets_rules]: "rets threadExit P"
  by (simp add: threadExit_def rets_raise)

lemma rets_conj: "\<lbrakk>rets m P; \<And>v. P v \<Longrightarrow> Q v\<rbrakk> \<Longrightarrow> rets m Q"
  by (auto simp: rets_def)

text \<open>An idle process: no input, unlimited output, an empty file system. For concrete runs.\<close>

definition attr0 :: attr where
  "attr0 = \<lparr>a_mode = 420, a_uid = 0, a_gid = 0, a_atime = 0, a_mtime = 0, a_ctime = 0\<rparr>"

definition fs0 :: fs where
  "fs0 = \<lparr>root = Dir attr0 [], cwd = [], umask = 18, proc_uid = 0, proc_gid = 0, now = 0,
     faults = (\<lambda>_ _. 0)\<rparr>"

definition world0 :: world where
  "world0 = \<lparr>conns = (\<lambda>_. \<lparr>inb = [], outb = [], closed = False, wroom = None\<rparr>), wfs = fs0, errno = 0,
     rhss = - 1, homePath = ''/tmp'', xreHomePath = ''/tmp'', exposedDirectory = [], searching = False,
     rhss_pid = - 2, mypid = 100, users = (\<lambda>_. None), kill_res = (\<lambda>_ _. 0), killed = [], ticks = [],
     progress = 0\<rparr>"

lemma wr_world0 [simp]: "wr h world0"
  by (simp add: wr_def world0_def)

lemma world0_sel [simp]:
  "wfs world0 = fs0" "errno world0 = 0" "rhss world0 = - 1" "homePath world0 = ''/tmp''"
  "xreHomePath world0 = ''/tmp''" "exposedDirectory world0 = []" "rhss_pid world0 = - 2"
  "searching world0 = False" "ticks world0 = []" "progress world0 = 0" "killed world0 = []"
  "mypid world0 = 100" "kill_res world0 = (\<lambda>_ _. 0)" "users world0 = (\<lambda>_. None)"
  by (simp_all add: world0_def)

lemma fs0_sel [simp]:
  "root fs0 = Dir attr0 []" "cwd fs0 = []" "umask fs0 = 18" "proc_uid fs0 = 0" "proc_gid fs0 = 0"
  "now fs0 = 0" "faults fs0 = (\<lambda>_ _. 0)"
  by (simp_all add: fs0_def)

lemmas io_fs_defs = io_query_def io_update_def

end
