(* ===== verification/RH_Wire.thy ===== *)
theory RH_Wire
  imports RH_World
begin

section \<open>The wire format\<close>

text \<open>
  iowrappers_common.h, resps/*, reqs/* and the path-list functions of Utils.h: strings with a
  16-bit or 8-bit length, pairs of strings, lists of pairs, base responses, file items and the
  response records. A string longer than its length field is cut by the narrowing conversion of
  its size, which the definitions keep.
\<close>

definition RESPONSE_OK :: u8 where "RESPONSE_OK = 0x00"
definition RESPONSE_ERROR :: u8 where "RESPONSE_ERROR = 0xFF"
definition RESPONSE_REDIRECT :: u8 where "RESPONSE_REDIRECT = 0x11"
definition maxuint :: u64 where "maxuint = - 1"
definition maxuint_2 :: u64 where "maxuint_2 = - 2"

subsection \<open>Strings\<close>

definition readStringWithLen :: "handle \<Rightarrow> string io" where
  "readStringWithLen h =
     bnd (readAllOrExit h 2) (\<lambda>b.
     let len = (le_word b :: u16) in
     if len = 0 then ret []
     else bnd (readAllOrExit h (unat len)) (\<lambda>s. ret (b2s s)))"

definition readStringWithByteLen :: "handle \<Rightarrow> string io" where
  "readStringWithByteLen h =
     bnd (readAllOrExit h 1) (\<lambda>b.
     let len = (le_word b :: u8) in
     if len = 0 then ret []
     else bnd (readAllOrExit h (unat len)) (\<lambda>s. ret (b2s s)))"

definition writeStringWithLen :: "handle \<Rightarrow> string \<Rightarrow> unit io" where
  "writeStringWithLen h s =
     (let len = (of_nat (length s) :: u16) in
      thn (writeAllOrExit h (le_bytes 2 len))
          (writeAllOrExit h (take (unat len) (s2b s))))"

definition readPairOfStringsWithPairOfLens :: "handle \<Rightarrow> (string \<times> string) io" where
  "readPairOfStringsWithPairOfLens h =
     bnd (readAllOrExit h 2) (\<lambda>l0.
     bnd (readAllOrExit h 2) (\<lambda>l1.
     let len0 = (le_word l0 :: u16); len1 = (le_word l1 :: u16) in
     if len0 = 0 then ret ([], [])
     else bnd (readAllOrExit h (unat len0)) (\<lambda>s0.
          bnd (readAllOrExit h (unat len1)) (\<lambda>s1. ret (b2s s0, b2s s1)))))"

definition writePairOfStringsWithPairOfLens :: "handle \<Rightarrow> string \<times> string \<Rightarrow> unit io" where
  "writePairOfStringsWithPairOfLens h v =
     (let len0 = (of_nat (length (fst v)) :: u16); len1 = (of_nat (length (snd v)) :: u16) in
      thn (writeAllOrExit h (le_bytes 2 len0))
     (thn (writeAllOrExit h (le_bytes 2 len1))
     (if len0 = 0 then ret ()
      else thn (writeAllOrExit h (take (unat len0) (s2b (fst v))))
               (writeAllOrExit h (take (unat len1) (s2b (snd v)))))))"

text \<open>The bytes the writers produce.\<close>

definition str_wire :: "string \<Rightarrow> byte list" where
  "str_wire s = le_bytes 2 (of_nat (length s) :: u16) @ take (length s mod 65536) (s2b s)"

definition pair_wire :: "string \<times> string \<Rightarrow> byte list" where
  "pair_wire v = le_bytes 2 (of_nat (length (fst v)) :: u16) @ le_bytes 2 (of_nat (length (snd v)) :: u16)
     @ (if length (fst v) mod 65536 = 0 then []
        else take (length (fst v) mod 65536) (s2b (fst v)) @ take (length (snd v) mod 65536) (s2b (snd v)))"

lemma unat_u16_of_nat: "unat (of_nat n :: u16) = n mod 65536"
  by (simp add: unat_of_nat)

lemma u16_of_nat_0_iff: "(of_nat n :: u16) = 0 \<longleftrightarrow> n mod 65536 = 0"
  by (simp add: unat_eq_0 [symmetric] unat_u16_of_nat)

lemma length_take_mod [simp]: "length (take (n mod m) xs) = min (length xs) (n mod m)"
  by simp

lemma min_mod_self [simp]: "min (n::nat) (n mod m) = n mod m"
  using mod_less_eq_dividend [of n m] by simp

lemma length_str_wire [wire_len]: "length (str_wire s) = 2 + length s mod 65536"
  by (simp add: str_wire_def)

lemma write_string [io_eval]:
  "wr h w \<Longrightarrow> writeStringWithLen h s w = (Ret (), emit h (str_wire s) w)"
  by (simp add: writeStringWithLen_def Let_def io_eval str_wire_def unat_u16_of_nat)

lemma read_string [io_eval]:
  "readStringWithLen h (feed h (str_wire s) w) = (Ret (take (length s mod 65536) s), w)"
  by (simp add: readStringWithLen_def str_wire_def Let_def io_eval unat_u16_of_nat
      u16_of_nat_0_iff b2s_take)

lemma read_string_Rcl [io_eval]:
  "readStringWithLen Rcl (feed Cl a (feed Rcl (str_wire s) w))
     = (Ret (take (length s mod 65536) s), feed Cl a w)"
  by (simp add: readStringWithLen_def str_wire_def Let_def io_eval unat_u16_of_nat
      u16_of_nat_0_iff b2s_take)

lemma write_pair [io_eval]:
  "wr h w \<Longrightarrow> writePairOfStringsWithPairOfLens h v w = (Ret (), emit h (pair_wire v) w)"
  by (auto simp: writePairOfStringsWithPairOfLens_def Let_def io_eval pair_wire_def unat_u16_of_nat
      u16_of_nat_0_iff)

lemma read_pair [io_eval]:
  "readPairOfStringsWithPairOfLens h (feed h (pair_wire v) w)
     = (Ret (if length (fst v) mod 65536 = 0 then ([], [])
             else (take (length (fst v) mod 65536) (fst v), take (length (snd v) mod 65536) (snd v))), w)"
  by (auto simp: readPairOfStringsWithPairOfLens_def pair_wire_def Let_def io_eval unat_u16_of_nat
      u16_of_nat_0_iff b2s_take)

lemma eats_string: "eats h 2 (readStringWithLen h)"
  unfolding readStringWithLen_def Let_def
  by (rule eats_weaken, rule eats_bnd [OF eats_read], rule eats_weaken [where k = 0])
    (auto intro: eats_ret intro!: eats_weaken [OF eats_bnd [OF eats_read eats_ret]])

lemma eats0_string: "eats h 0 (readStringWithLen h)"
  by (rule eats_weaken [OF eats_string]) simp

lemma eats_pair: "eats h 4 (readPairOfStringsWithPairOfLens h)"
proof -
  have "eats h (2 + (2 + 0)) (readPairOfStringsWithPairOfLens h)"
    unfolding readPairOfStringsWithPairOfLens_def Let_def
    by (intro eats_bnd eats_read)
      (auto intro: eats_ret
        intro!: eats_weaken [OF eats_bnd [OF eats_read eats_bnd [OF eats_read eats_ret]]])
  then show ?thesis by simp
qed

lemma no_oof_string: "no_oof (readStringWithLen h)"
  unfolding readStringWithLen_def Let_def
  by (auto intro!: no_oof_bnd no_oof_read no_oof_ret)

lemma no_oof_pair: "no_oof (readPairOfStringsWithPairOfLens h)"
  unfolding readPairOfStringsWithPairOfLens_def Let_def
  by (auto intro!: no_oof_bnd no_oof_read no_oof_ret)

subsection \<open>Lists of path pairs\<close>

definition receive_pair_step :: "handle \<Rightarrow> (string \<times> string) list
    \<Rightarrow> ((string \<times> string) list + (string \<times> string) list) io" where
  "receive_pair_step h v = bnd (readPairOfStringsWithPairOfLens h) (\<lambda>f.
     if fst f = [] then ret (Inr v) else ret (Inl (v @ [f])))"

definition receivePathPairsList :: "handle \<Rightarrow> (string \<times> string) list io" where
  "receivePathPairsList h = io_loop h (receive_pair_step h) []"

text \<open>One buffer per item, written at once; the reader stops at an item whose first string is empty.\<close>

definition pathPair_buffer :: "string \<times> string \<Rightarrow> byte list" where
  "pathPair_buffer item =
     (let sz0 = (of_nat (length (fst item)) :: u16); sz1 = (of_nat (length (snd item)) :: u16) in
      le_bytes 2 sz0 @ le_bytes 2 sz1 @ take (unat sz0) (s2b (fst item)) @ take (unat sz1) (s2b (snd item)))"

definition sendPathPairsList :: "(string \<times> string) list \<Rightarrow> handle \<Rightarrow> unit io" where
  "sendPathPairsList pathPairs h =
     thn (io_for pathPairs (\<lambda>item. writeAllOrExit h (pathPair_buffer item)))
         (writeAllOrExit h (le_bytes 4 (0 :: u32)))"

definition path_list_wire :: "(string \<times> string) list \<Rightarrow> byte list" where
  "path_list_wire v = concat (map pathPair_buffer v) @ le_bytes 4 (0 :: u32)"

text \<open>A list of pairs that survives the wire.\<close>

definition sendable_pair :: "string \<times> string \<Rightarrow> bool" where
  "sendable_pair p \<longleftrightarrow> fst p \<noteq> [] \<and> length (fst p) < 65536 \<and> length (snd p) < 65536"

lemma pathPair_buffer_wire: "sendable_pair p \<Longrightarrow> pathPair_buffer p = pair_wire p"
  by (simp add: pathPair_buffer_def pair_wire_def Let_def unat_u16_of_nat sendable_pair_def)

lemma end_of_list_wire: "le_bytes 4 (0 :: u32) = pair_wire ([], [])"
  by (simp add: pair_wire_def le_bytes_def upt_rec)

lemma send_path_list [io_eval]:
  "wr h w \<Longrightarrow> sendPathPairsList v h w = (Ret (), emit h (path_list_wire v) w)"
  by (simp add: sendPathPairsList_def io_eval path_list_wire_def)

lemma receive_pair_step_eats:
  "receive_pair_step h s w = (Ret (Inl s'), w') \<Longrightarrow> avail h w' < avail h w"
proof (rule io_loop_eats)
  fix s
  have "eats h (4 + 0) (receive_pair_step h s)"
    unfolding receive_pair_step_def by (intro eats_bnd eats_pair) (simp add: eats_ret)
  then show "eats h (Suc 3) (receive_pair_step h s)" by (simp add: numeral_eq_Suc)
qed

lemma receive_loop_unfold:
  "io_loop h (receive_pair_step h) s = bnd (receive_pair_step h s)
     (\<lambda>r. case r of Inl s' \<Rightarrow> io_loop h (receive_pair_step h) s' | Inr a \<Rightarrow> ret a)"
  by (rule io_loop_unfold) (rule receive_pair_step_eats)

lemma receive_pair_step_end:
  "receive_pair_step h acc (feed h (path_list_wire []) w) = (Ret (Inr acc), w)"
  by (simp add: receive_pair_step_def path_list_wire_def end_of_list_wire io_eval)

lemma receive_pair_step_item:
  assumes "sendable_pair p"
  shows "receive_pair_step h acc (feed h (path_list_wire (p # v)) w)
     = (Ret (Inl (acc @ [p])), feed h (path_list_wire v) w)"
proof -
  from assms have "path_list_wire (p # v) = pair_wire p @ path_list_wire v"
    by (simp add: path_list_wire_def pathPair_buffer_wire)
  with assms show ?thesis by (simp add: receive_pair_step_def io_eval sendable_pair_def)
qed

lemma receive_path_list_acc:
  "(\<forall>p \<in> set v. sendable_pair p) \<Longrightarrow>
   io_loop h (receive_pair_step h) acc (feed h (path_list_wire v) w) = (Ret (acc @ v), w)"
proof (induction v arbitrary: acc)
  case Nil
  show ?case
    by (subst receive_loop_unfold) (simp add: receive_pair_step_end io_eval)
next
  case (Cons p v)
  then show ?case
    by (subst receive_loop_unfold) (simp add: receive_pair_step_item bnd_app)
qed

lemma receive_path_list [io_eval]:
  "(\<forall>p \<in> set v. sendable_pair p) \<Longrightarrow> receivePathPairsList h (feed h (path_list_wire v) w) = (Ret v, w)"
  by (simp add: receivePathPairsList_def receive_path_list_acc)

lemma no_oof_receivePathPairsList: "no_oof (receivePathPairsList h)"
  unfolding receivePathPairsList_def
proof (rule no_oof_io_loop)
  show "no_oof (receive_pair_step h s)" for s
    unfolding receive_pair_step_def by (intro no_oof_bnd no_oof_pair) (simp add: no_oof_ret)
qed (rule receive_pair_step_eats)

subsection \<open>Base responses\<close>

definition receiveBaseResponse :: "handle \<Rightarrow> int io" where
  "receiveBaseResponse h =
     bnd (readAllOrExit h 1) (\<lambda>resp.
     if (le_word resp :: u8) = RESPONSE_OK then ret 0
     else bnd (readAllOrExit h 4) (\<lambda>e. ret (sint (le_word e :: u32))))"

definition sendBaseResponse :: "int \<Rightarrow> handle \<Rightarrow> unit io" where
  "sendBaseResponse r h =
     (if r = 0 then writeAllOrExit h [RESPONSE_OK]
      else bnd (get errno) (\<lambda>r_errno.
           thn (writeAllOrExit h [RESPONSE_ERROR])
               (writeAllOrExit h (le_bytes 4 (word_of_int r_errno :: u32)))))"

definition sendOkResponse :: "handle \<Rightarrow> unit io" where
  "sendOkResponse h = sendBaseResponse 0 h"

definition sendErrorResponse :: "handle \<Rightarrow> unit io" where
  "sendErrorResponse h = sendBaseResponse (- 1) h"

definition sendEndProgressAndBaseResponse :: "int \<Rightarrow> handle \<Rightarrow> unit io" where
  "sendEndProgressAndBaseResponse r h =
     thn (writeAllOrExit h (le_bytes 8 maxuint)) (sendBaseResponse r h)"

definition writeAllOrExitProcess :: "handle \<Rightarrow> byte list \<Rightarrow> unit io" where
  "writeAllOrExitProcess h bs = (\<lambda>w. case writeAllOrExit h bs w of
       (Ret u, w') \<Rightarrow> (Ret u, w')
     | (Raise e, w') \<Rightarrow> (Raise (ProcExit (- 1)), w'))"

definition ok_wire :: "byte list" where
  "ok_wire = [RESPONSE_OK]"

definition error_wire :: "int \<Rightarrow> byte list" where
  "error_wire e = RESPONSE_ERROR # le_bytes 4 (word_of_int e :: u32)"

definition errno32 :: "int \<Rightarrow> bool" where
  "errno32 e \<longleftrightarrow> 0 < e \<and> e < 2147483648"

lemma send_ok [io_eval]: "wr h w \<Longrightarrow> sendOkResponse h w = (Ret (), emit h ok_wire w)"
  by (simp add: sendOkResponse_def sendBaseResponse_def ok_wire_def io_eval)

lemma send_error [io_eval]:
  "wr h w \<Longrightarrow> sendErrorResponse h w = (Ret (), emit h (error_wire (errno w)) w)"
  by (simp add: sendErrorResponse_def sendBaseResponse_def error_wire_def io_eval)

lemma send_base [io_eval]:
  "wr h w \<Longrightarrow> sendBaseResponse r h w
     = (Ret (), emit h (if r = 0 then ok_wire else error_wire (errno w)) w)"
  by (simp add: sendBaseResponse_def error_wire_def ok_wire_def io_eval)

lemma feed_ok: "feed h ok_wire w = feed h [0] w"
  by (simp add: ok_wire_def RESPONSE_OK_def)

lemma feed_error: "feed h (error_wire e) w = feed h [0xFF] (feed h (le_bytes 4 (word_of_int e :: u32)) w)"
  by (simp add: error_wire_def RESPONSE_ERROR_def feed_Cons [of h _ "le_bytes _ _"])

lemma sint_word_of_int_u32: "errno32 e \<Longrightarrow> sint (word_of_int e :: u32) = e"
  by (simp add: errno32_def signed_of_int signed_take_bit_int_eq_self)

lemma receive_ok [io_eval]: "receiveBaseResponse h (feed h ok_wire w) = (Ret 0, w)"
  by (simp add: receiveBaseResponse_def feed_ok io_eval RESPONSE_OK_def)

lemma receive_error [io_eval]:
  "errno32 e \<Longrightarrow> receiveBaseResponse h (feed h (error_wire e) w) = (Ret e, w)"
  by (simp add: receiveBaseResponse_def feed_error io_eval RESPONSE_OK_def sint_word_of_int_u32)

end
