(* ===== verification/RH_Resps.thy ===== *)
theory RH_Resps
  imports RH_Wire
begin

section \<open>Response and request records\<close>

text \<open>
  resps/ls_resp.hpp, find_resp.hpp, singleStats_resp.h, folderStats_resp.h, conflict_resp.hpp,
  reqs/compress_rq_options.h and \<open>fileitem_sock_t\<close> of common_uds.h: each record with its reader
  and its writer, and the round trip between them.
\<close>

text \<open>
  \<open>writes\<close> with their results compared to a length. \<open>ssize_t < size_t\<close> compares as unsigned, so
  that a result of -1 is not smaller; \<open>ssize_t < uint16_t\<close> and \<open>ssize_t < int\<close> compare as signed.
\<close>

definition less_size_t :: "int \<Rightarrow> nat \<Rightarrow> bool" where
  "less_size_t r n \<longleftrightarrow> unat (word_of_int r :: u64) < n"

definition less_ssize_t :: "int \<Rightarrow> nat \<Rightarrow> bool" where
  "less_ssize_t r n \<longleftrightarrow> r < int n"

lemma not_less_size_t_written [simp]: "n < 2 ^ 64 \<Longrightarrow> \<not> less_size_t (int n) n"
  by (simp add: less_size_t_def unat_of_nat)

lemma not_less_ssize_t_written [simp]: "\<not> less_ssize_t (int n) n"
  by (simp add: less_ssize_t_def)

subsection \<open>Directory entries\<close>

record ls_resp_t =
  filename :: string
  date :: u32
  permissions :: "byte list"
  lsize :: u64

definition writels_resp :: "handle \<Rightarrow> ls_resp_t \<Rightarrow> int io" where
  "writels_resp h d =
     (let len = (of_nat (length (filename d)) :: u16) in
      bnd (writeRaw h (le_bytes 2 len)) (\<lambda>r.
      if less_size_t r 2 then ret (- 1)
      else bnd (writeRaw h (take (unat len) (s2b (filename d)))) (\<lambda>r.
      if less_ssize_t r (unat len) then ret (- 1)
      else bnd (writeRaw h (le_bytes 4 (date d))) (\<lambda>r.
      if less_size_t r 4 then ret (- 1)
      else bnd (writeRaw h (permissions d)) (\<lambda>r.
      if less_ssize_t r 10 then ret (- 1)
      else bnd (writeRaw h (le_bytes 8 (lsize d))) (\<lambda>r.
      if less_size_t r 8 then ret (- 1) else ret 0))))))"

definition writeLsRespOrExit :: "handle \<Rightarrow> ls_resp_t \<Rightarrow> unit io" where
  "writeLsRespOrExit h d = bnd (writels_resp h d) (\<lambda>r. if r < 0 then threadExit else ret ())"

definition ls_wire :: "ls_resp_t \<Rightarrow> byte list" where
  "ls_wire d = str_wire (filename d) @ le_bytes 4 (date d) @ permissions d @ le_bytes 8 (lsize d)"

definition wf_ls :: "ls_resp_t \<Rightarrow> bool" where
  "wf_ls d \<longleftrightarrow> filename d \<noteq> [] \<and> length (filename d) < 65536 \<and> length (permissions d) = 10"

lemma write_ls [io_eval]:
  assumes "wr h w" and "length (permissions d) = 10"
  shows "writels_resp h d w = (Ret 0, emit h (ls_wire d) w)"
proof -
  have "\<not> less_size_t (int 2) 2" "\<not> less_size_t (int 4) 4" "\<not> less_size_t (int 8) 8"
    by (simp_all add: less_size_t_def)
  with assms show ?thesis
    by (simp add: writels_resp_def Let_def io_eval ls_wire_def str_wire_def unat_u16_of_nat
        less_ssize_t_def)
qed

record find_resp_t =
  fileItem :: ls_resp_t
  contentAround :: "byte list"
  foffset :: u64

definition writefind_resp :: "handle \<Rightarrow> find_resp_t \<Rightarrow> int io" where
  "writefind_resp h d =
     bnd (writels_resp h (fileItem d)) (\<lambda>r.
     if r \<noteq> 0 then ret (- 1)
     else let len1 = (of_nat (length (contentAround d)) :: u8) in
       bnd (writeRaw h [len1]) (\<lambda>r.
       if less_size_t r 1 then ret (- 1)
       else if len1 \<noteq> 0 then
         bnd (writeRaw h (take (unat len1) (contentAround d))) (\<lambda>r.
         if less_ssize_t r (unat len1) then ret (- 1)
         else bnd (writeRaw h (le_bytes 8 (foffset d))) (\<lambda>r.
              if less_size_t r 8 then ret (- 1) else ret 0))
       else ret 0))"

lemma write_find [io_eval]:
  assumes "wr h w" and "length (permissions (fileItem d)) = 10" and "contentAround d = []"
  shows "writefind_resp h d w = (Ret 0, emit h (ls_wire (fileItem d) @ [0]) w)"
proof -
  have "\<not> less_size_t (int 1) 1" by (simp add: less_size_t_def)
  with assms show ?thesis by (simp add: writefind_resp_def io_eval Let_def)
qed

subsection \<open>Statistics\<close>

record folderStats_resp_t =
  childrenDirs :: u64
  childrenFiles :: u64
  totalDirs :: u64
  totalFiles :: u64
  totalSize :: u64

definition readfolderStats_resp :: "handle \<Rightarrow> folderStats_resp_t io" where
  "readfolderStats_resp h =
     bnd (readAllOrExit h 8) (\<lambda>a. bnd (readAllOrExit h 8) (\<lambda>b. bnd (readAllOrExit h 8) (\<lambda>c.
     bnd (readAllOrExit h 8) (\<lambda>d. bnd (readAllOrExit h 8) (\<lambda>e.
     ret \<lparr>childrenDirs = le_word a, childrenFiles = le_word b, totalDirs = le_word c,
          totalFiles = le_word d, totalSize = le_word e\<rparr>)))))"

definition writefolderStats_resp :: "handle \<Rightarrow> folderStats_resp_t \<Rightarrow> unit io" where
  "writefolderStats_resp h d =
     thn (writeAllOrExit h (le_bytes 8 (childrenDirs d)))
    (thn (writeAllOrExit h (le_bytes 8 (childrenFiles d)))
    (thn (writeAllOrExit h (le_bytes 8 (totalDirs d)))
    (thn (writeAllOrExit h (le_bytes 8 (totalFiles d)))
         (writeAllOrExit h (le_bytes 8 (totalSize d))))))"

definition folder_wire :: "folderStats_resp_t \<Rightarrow> byte list" where
  "folder_wire d = le_bytes 8 (childrenDirs d) @ le_bytes 8 (childrenFiles d) @ le_bytes 8 (totalDirs d)
     @ le_bytes 8 (totalFiles d) @ le_bytes 8 (totalSize d)"

lemma write_folder [io_eval]:
  "wr h w \<Longrightarrow> writefolderStats_resp h d w = (Ret (), emit h (folder_wire d) w)"
  by (simp add: writefolderStats_resp_def folder_wire_def io_eval)

lemma read_folder [io_eval]: "readfolderStats_resp h (feed h (folder_wire d) w) = (Ret d, w)"
  by (simp add: readfolderStats_resp_def folder_wire_def io_eval)

record singleStats_resp_t =
  sgroup :: string
  owner :: string
  creationTime :: u32
  lastAccessTime :: u32
  modificationTime :: u32
  sperms :: "byte list"
  ssize :: u64

definition readsingleStats_resp :: "handle \<Rightarrow> singleStats_resp_t io" where
  "readsingleStats_resp h =
     bnd (readAllOrExit h 1) (\<lambda>l1. bnd (readAllOrExit h (unat (le_word l1 :: u8))) (\<lambda>g.
     bnd (readAllOrExit h 1) (\<lambda>l2. bnd (readAllOrExit h (unat (le_word l2 :: u8))) (\<lambda>ow.
     bnd (readAllOrExit h 4) (\<lambda>c. bnd (readAllOrExit h 4) (\<lambda>a. bnd (readAllOrExit h 4) (\<lambda>m.
     bnd (readAllOrExit h 10) (\<lambda>p. bnd (readAllOrExit h 8) (\<lambda>s.
     ret \<lparr>sgroup = b2s g, owner = b2s ow, creationTime = le_word c, lastAccessTime = le_word a,
          modificationTime = le_word m, sperms = p, ssize = le_word s\<rparr>)))))))))"

definition writesingleStats_resp :: "handle \<Rightarrow> singleStats_resp_t \<Rightarrow> unit io" where
  "writesingleStats_resp h d =
     (let len1 = (of_nat (length (sgroup d)) :: u8); len2 = (of_nat (length (owner d)) :: u8) in
      thn (writeAllOrExit h [len1])
     (thn (writeAllOrExit h (take (unat len1) (s2b (sgroup d))))
     (thn (writeAllOrExit h [len2])
     (thn (writeAllOrExit h (take (unat len2) (s2b (owner d))))
     (thn (writeAllOrExit h (le_bytes 4 (creationTime d)))
     (thn (writeAllOrExit h (le_bytes 4 (lastAccessTime d)))
     (thn (writeAllOrExit h (le_bytes 4 (modificationTime d)))
     (thn (writeAllOrExit h (sperms d))
          (writeAllOrExit h (le_bytes 8 (ssize d)))))))))))"

definition byte_str_wire :: "string \<Rightarrow> byte list" where
  "byte_str_wire s = [of_nat (length s) :: u8] @ take (length s mod 256) (s2b s)"

definition single_wire :: "singleStats_resp_t \<Rightarrow> byte list" where
  "single_wire d = byte_str_wire (sgroup d) @ byte_str_wire (owner d) @ le_bytes 4 (creationTime d)
     @ le_bytes 4 (lastAccessTime d) @ le_bytes 4 (modificationTime d) @ sperms d @ le_bytes 8 (ssize d)"

lemma unat_u8_of_nat: "unat (of_nat n :: u8) = n mod 256"
  by (simp add: unat_of_nat)

lemma u8_of_nat_0_iff: "(of_nat n :: u8) = 0 \<longleftrightarrow> n mod 256 = 0"
  by (simp add: unat_eq_0 [symmetric] unat_u8_of_nat)

lemma read_byte_string [io_eval]:
  "readStringWithByteLen h (feed h (byte_str_wire s) w) = (Ret (take (length s mod 256) s), w)"
  by (simp add: readStringWithByteLen_def byte_str_wire_def Let_def io_eval unat_u8_of_nat
      u8_of_nat_0_iff b2s_take)

lemma write_single [io_eval]:
  "wr h w \<Longrightarrow> writesingleStats_resp h d w = (Ret (), emit h (single_wire d) w)"
  by (simp add: writesingleStats_resp_def single_wire_def byte_str_wire_def io_eval Let_def
      unat_u8_of_nat)

text \<open>A record of statistics whose strings fit their one-byte lengths.\<close>

definition wf_single :: "singleStats_resp_t \<Rightarrow> bool" where
  "wf_single d \<longleftrightarrow> length (sgroup d) < 256 \<and> length (owner d) < 256 \<and> length (sperms d) = 10"

lemma read_single [io_eval]:
  "wf_single d \<Longrightarrow> readsingleStats_resp h (feed h (single_wire d) w) = (Ret d, w)"
  by (simp add: readsingleStats_resp_def single_wire_def byte_str_wire_def io_eval wf_single_def
      unat_u8_of_nat)

subsection \<open>File items of uploads and downloads\<close>

record fileitem_sock_t =
  itemflag :: u8
  itemfile :: string
  fisize :: u64

definition read_fileitem_sock_t :: "handle \<Rightarrow> fileitem_sock_t io" where
  "read_fileitem_sock_t h =
     bnd (readAllOrExit h 1) (\<lambda>f.
     if (le_word f :: u8) = 0xFF then ret \<lparr>itemflag = 0xFF, itemfile = [], fisize = 0\<rparr>
     else bnd (readStringWithLen h) (\<lambda>s.
       if (le_word f :: u8) = 0 then
         bnd (readAllOrExit h 8) (\<lambda>sz. ret \<lparr>itemflag = 0, itemfile = s, fisize = le_word sz\<rparr>)
       else ret \<lparr>itemflag = le_word f, itemfile = s, fisize = 0\<rparr>))"

definition file_item_wire :: "string \<Rightarrow> u64 \<Rightarrow> byte list" where
  "file_item_wire p sz = [0 :: u8] @ str_wire p @ le_bytes 8 sz"

definition dir_item_wire :: "string \<Rightarrow> byte list" where
  "dir_item_wire p = [1 :: u8] @ str_wire p"

lemma read_file_item [io_eval]:
  "length p < 65536 \<Longrightarrow> read_fileitem_sock_t h (feed h (file_item_wire p sz) w)
     = (Ret \<lparr>itemflag = 0, itemfile = p, fisize = sz\<rparr>, w)"
  by (simp add: read_fileitem_sock_t_def file_item_wire_def io_eval)

lemma read_dir_item [io_eval]:
  "length p < 65536 \<Longrightarrow> read_fileitem_sock_t h (feed h (dir_item_wire p) w)
     = (Ret \<lparr>itemflag = 1, itemfile = p, fisize = 0\<rparr>, w)"
  by (simp add: read_fileitem_sock_t_def dir_item_wire_def io_eval)

lemma read_end_item [io_eval]:
  "read_fileitem_sock_t h (feed h [0xFF] w) = (Ret \<lparr>itemflag = 0xFF, itemfile = [], fisize = 0\<rparr>, w)"
  by (simp add: read_fileitem_sock_t_def io_eval)

lemma eats_fileitem: "eats h 1 (read_fileitem_sock_t h)"
proof -
  have "eats h (1 + 0) (read_fileitem_sock_t h)"
    unfolding read_fileitem_sock_t_def
    by (intro eats_bnd eats_read) (auto intro!: eats0_intros eats0_string)
  then show ?thesis by simp
qed

subsection \<open>Conflict responses and compression options\<close>

record ConflictResp =
  conflictType :: u8
  srcPath :: string
  destPath :: string
  lastDecision :: u8
  lastErrno :: u32

definition writeResp :: "handle \<Rightarrow> ConflictResp \<Rightarrow> int io" where
  "writeResp h d =
     bnd (writeRaw h [conflictType d]) (\<lambda>r. if less_size_t r 1 then ret (- 1) else
     let len = (of_nat (length (srcPath d)) :: u16) in
     bnd (writeRaw h (le_bytes 2 len)) (\<lambda>r. if less_size_t r 2 then ret (- 1) else
     bnd (writeRaw h (take (unat len) (s2b (srcPath d)))) (\<lambda>r. if less_ssize_t r (unat len) then ret (- 1) else
     let len = (of_nat (length (destPath d)) :: u16) in
     bnd (writeRaw h (le_bytes 2 len)) (\<lambda>r. if less_size_t r 2 then ret (- 1) else
     bnd (writeRaw h (take (unat len) (s2b (destPath d)))) (\<lambda>r. if less_ssize_t r (unat len) then ret (- 1) else
     bnd (writeRaw h [lastDecision d]) (\<lambda>r. if less_size_t r 1 then ret (- 1) else
     bnd (writeRaw h (le_bytes 4 (lastErrno d))) (\<lambda>r. if less_size_t r 4 then ret (- 1) else ret 0)))))))"

record compress_rq_options_t =
  compressionLevel :: u8
  encryptHeader :: u8
  solid :: u8

text \<open>The three reads are not checked: at end of stream a field keeps its old value.\<close>

definition readcompress_rq_options :: "handle \<Rightarrow> compress_rq_options_t \<Rightarrow> compress_rq_options_t io" where
  "readcompress_rq_options h d =
     bnd (readRaw h 1) (\<lambda>a. bnd (readRaw h 1) (\<lambda>b. bnd (readRaw h 1) (\<lambda>c.
     ret \<lparr>compressionLevel = (if a = [] then compressionLevel d else hd a),
          encryptHeader = (if b = [] then encryptHeader d else hd b),
          solid = (if c = [] then solid d else hd c)\<rparr>)))"

end
