(* ===== verification/RH_Descriptor.thy ===== *)
theory RH_Descriptor
  imports RH_World
begin

section \<open>Descriptors: the loops of IDescriptor and the buffered writers\<close>

text \<open>
  desc/IDescriptor.h: \<open>readTill\<close>, \<open>readAll\<close>, \<open>writeAll\<close> loop over \<open>read\<close> and \<open>write\<close>, which may
  transfer fewer bytes than asked. The locales state what the loops need from a descriptor; they
  are interpreted on the connection of the model and on a socket that transfers arbitrary short
  counts. Then desc/BufferedWriteDescriptor.h, AutoFlushBufferedWriteDescriptor.h,
  SinkDescriptor.h and SstreamDescriptor.h.
\<close>

subsection \<open>The loops\<close>

text \<open>
  \<open>rd n s\<close>: one \<open>read\<close> of at most \<open>n\<close> bytes; \<open>None\<close> is a result of -1, \<open>Some []\<close> is 0. The loops
  return the code's result and the buffer filled so far.
\<close>

type_synonym 's reader = "nat \<Rightarrow> 's \<Rightarrow> byte list option \<times> 's"
type_synonym 's writer = "byte list \<Rightarrow> 's \<Rightarrow> nat option \<times> 's"

function readTill_loop :: "'s reader \<Rightarrow> nat \<Rightarrow> nat \<Rightarrow> byte list \<Rightarrow> 's \<Rightarrow> (int \<times> byte list) \<times> 's" where
  "readTill_loop rd count remaining acc s =
     (case rd remaining s of
        (None, s') \<Rightarrow> ((int (length acc), acc), s')
      | (Some bs, s') \<Rightarrow>
          if bs = [] then ((int (length acc), acc), s')
          else if remaining - length bs = 0 then ((int count, acc @ bs), s')
          else readTill_loop rd count (remaining - length bs) (acc @ bs) s')"
  by pat_completeness auto
termination by (relation "measure (\<lambda>(rd, count, remaining, acc, s). remaining)") auto

function readAll_loop :: "'s reader \<Rightarrow> nat \<Rightarrow> nat \<Rightarrow> byte list \<Rightarrow> 's \<Rightarrow> (int \<times> byte list) \<times> 's" where
  "readAll_loop rd count remaining acc s =
     (case rd remaining s of
        (None, s') \<Rightarrow> ((- 1, acc), s')
      | (Some bs, s') \<Rightarrow>
          if bs = [] then ((0, acc), s')
          else if remaining - length bs = 0 then ((int count, acc @ bs), s')
          else readAll_loop rd count (remaining - length bs) (acc @ bs) s')"
  by pat_completeness auto
termination by (relation "measure (\<lambda>(rd, count, remaining, acc, s). remaining)") auto

function writeAll_loop :: "'s writer \<Rightarrow> nat \<Rightarrow> byte list \<Rightarrow> 's \<Rightarrow> int \<times> 's" where
  "writeAll_loop wt count bs s =
     (case wt bs s of
        (None, s') \<Rightarrow> (- 1, s')
      | (Some k, s') \<Rightarrow>
          if k = 0 then (0, s')
          else if length bs - k = 0 then (int count, s')
          else writeAll_loop wt count (drop k bs) s')"
  by pat_completeness auto
termination by (relation "measure (\<lambda>(wt, count, bs, s). length bs)") auto

definition IDescriptor_readTill :: "'s reader \<Rightarrow> nat \<Rightarrow> 's \<Rightarrow> (int \<times> byte list) \<times> 's" where
  "IDescriptor_readTill rd n = readTill_loop rd n n []"

definition IDescriptor_readAll :: "'s reader \<Rightarrow> nat \<Rightarrow> 's \<Rightarrow> (int \<times> byte list) \<times> 's" where
  "IDescriptor_readAll rd n = readAll_loop rd n n []"

definition IDescriptor_writeAll :: "'s writer \<Rightarrow> byte list \<Rightarrow> 's \<Rightarrow> int \<times> 's" where
  "IDescriptor_writeAll wt bs = writeAll_loop wt (length bs) bs"

declare readTill_loop.simps [simp del] readAll_loop.simps [simp del] writeAll_loop.simps [simp del]

subsection \<open>What the loops need of a descriptor\<close>

text \<open>
  \<open>pend s\<close>: the bytes that can still be read before the end of the stream. A read returns a
  non-empty prefix of them when it is asked for something and there is some.
\<close>

locale byte_source =
  fixes rd :: "'s reader" and pend :: "'s \<Rightarrow> byte list"
  assumes rd_data: "\<lbrakk>0 < n; pend s \<noteq> []\<rbrakk> \<Longrightarrow> \<exists>k s'. rd n s = (Some (take k (pend s)), s')
      \<and> 0 < k \<and> k \<le> n \<and> k \<le> length (pend s) \<and> pend s' = drop k (pend s)"
    and rd_end: "n = 0 \<or> pend s = [] \<Longrightarrow> \<exists>s'. fst (rd n s) \<in> {None, Some []}
      \<and> snd (rd n s) = s' \<and> pend s' = pend s"
begin

lemma readAll_loop_ok:
  "\<lbrakk>0 < r; r \<le> length (pend s)\<rbrakk> \<Longrightarrow>
   \<exists>s'. readAll_loop rd c r acc s = ((int c, acc @ take r (pend s)), s') \<and> pend s' = drop r (pend s)"
proof (induction r arbitrary: acc s rule: less_induct)
  case (less r)
  then have "pend s \<noteq> []" by auto
  with less.prems obtain k s1 where k: "rd r s = (Some (take k (pend s)), s1)" "0 < k" "k \<le> r"
      "k \<le> length (pend s)" "pend s1 = drop k (pend s)"
    using rd_data [of r s] by auto
  show ?case
  proof (cases "k = r")
    case True
    with k \<open>pend s \<noteq> []\<close> show ?thesis by (subst readAll_loop.simps) auto
  next
    case False
    with k less.prems have "\<exists>s'. readAll_loop rd c (r - k) (acc @ take k (pend s)) s1
        = ((int c, (acc @ take k (pend s)) @ take (r - k) (pend s1)), s') \<and> pend s' = drop (r - k) (pend s1)"
      by (intro less.IH) auto
    moreover have "take k (pend s) @ take (r - k) (drop k (pend s)) = take r (pend s)"
      using k by (metis add_diff_inverse_nat leD take_add)
    ultimately show ?thesis
      using k False \<open>pend s \<noteq> []\<close> by (subst readAll_loop.simps) (auto simp: min_absorb2)
  qed
qed

lemma readAll_loop_short:
  "length (pend s) < r \<Longrightarrow>
   \<exists>x s'. readAll_loop rd c r acc s = ((x, acc @ pend s), s') \<and> x \<le> 0 \<and> pend s' = []"
proof (induction r arbitrary: acc s rule: less_induct)
  case (less r)
  show ?case
  proof (cases "pend s = []")
    case True
    then show ?thesis
      using rd_end [of r s] by (subst readAll_loop.simps) (auto split: prod.splits option.splits)
  next
    case False
    with less.prems obtain k s1 where k: "rd r s = (Some (take k (pend s)), s1)" "0 < k" "k \<le> r"
        "k \<le> length (pend s)" "pend s1 = drop k (pend s)"
      using rd_data [of r s] by auto
    with less.prems have "\<exists>x s'. readAll_loop rd c (r - k) (acc @ take k (pend s)) s1
        = ((x, (acc @ take k (pend s)) @ pend s1), s') \<and> x \<le> 0 \<and> pend s' = []"
      by (intro less.IH) auto
    with k less.prems False show ?thesis
      by (subst readAll_loop.simps) (auto simp: min_absorb2)
  qed
qed

lemma readTill_loop_prefix:
  "\<exists>x s'. readTill_loop rd c r acc s = ((x, acc @ take r (pend s)), s') \<and> pend s' = drop r (pend s)"
proof (induction r arbitrary: acc s rule: less_induct)
  case (less r)
  show ?case
  proof (cases "r = 0 \<or> pend s = []")
    case True
    then show ?thesis
      using rd_end [of r s] by (subst readTill_loop.simps) (auto split: prod.splits option.splits)
  next
    case False
    then obtain k s1 where k: "rd r s = (Some (take k (pend s)), s1)" "0 < k" "k \<le> r"
        "k \<le> length (pend s)" "pend s1 = drop k (pend s)"
      using rd_data [of r s] by auto
    have cat: "take k (pend s) @ take (r - k) (drop k (pend s)) = take r (pend s)"
      using k by (metis add_diff_inverse_nat leD take_add)
    show ?thesis
    proof (cases "k = r")
      case True
      with k False show ?thesis by (subst readTill_loop.simps) auto
    next
      case neq: False
      with k have "\<exists>x s'. readTill_loop rd c (r - k) (acc @ take k (pend s)) s1
          = ((x, (acc @ take k (pend s)) @ take (r - k) (pend s1)), s') \<and> pend s' = drop (r - k) (pend s1)"
        by (intro less.IH) auto
      with k neq False cat show ?thesis
        by (subst readTill_loop.simps) (auto simp: min_absorb2)
    qed
  qed
qed

lemma readAll_0: "fst (fst (readAll_loop rd c 0 acc s)) \<le> 0"
  using rd_end [of 0 s] by (subst readAll_loop.simps) (auto split: prod.splits option.splits)

end

text \<open>
  \<open>sent s\<close>: what the descriptor accepted. \<open>room s\<close>: how much it accepts before it breaks
  (\<open>None\<close>: any amount).
\<close>

locale byte_sink =
  fixes wt :: "'s writer" and sent :: "'s \<Rightarrow> byte list" and room :: "'s \<Rightarrow> nat option"
  assumes wt_data: "\<lbrakk>bs \<noteq> []; room s \<noteq> Some 0\<rbrakk> \<Longrightarrow> \<exists>k s'. wt bs s = (Some k, s') \<and> 0 < k
      \<and> k \<le> length bs \<and> (\<forall>r. room s = Some r \<longrightarrow> k \<le> r)
      \<and> sent s' = sent s @ take k bs \<and> room s' = map_option (\<lambda>r. r - k) (room s)"
    and wt_end: "\<lbrakk>bs \<noteq> []; room s = Some 0\<rbrakk> \<Longrightarrow> fst (wt bs s) \<in> {None, Some 0} \<and> sent (snd (wt bs s)) = sent s"
begin

lemma writeAll_loop_ok:
  "\<lbrakk>bs \<noteq> []; case room s of None \<Rightarrow> True | Some r \<Rightarrow> length bs \<le> r\<rbrakk> \<Longrightarrow>
   \<exists>s'. writeAll_loop wt c bs s = (int c, s') \<and> sent s' = sent s @ bs"
proof (induction "length bs" arbitrary: bs s rule: less_induct)
  case less
  then have "room s \<noteq> Some 0" by (cases bs) (auto split: option.splits)
  then obtain k s1 where k: "wt bs s = (Some k, s1)" "0 < k" "k \<le> length bs"
      "sent s1 = sent s @ take k bs" "room s1 = map_option (\<lambda>r. r - k) (room s)"
    using wt_data [of bs s] less.prems by auto
  show ?case
  proof (cases "k = length bs")
    case True
    with k show ?thesis by (subst writeAll_loop.simps) simp
  next
    case False
    with k less.prems have "\<exists>s'. writeAll_loop wt c (drop k bs) s1 = (int c, s') \<and> sent s' = sent s1 @ drop k bs"
      by (intro less.hyps) (auto split: option.splits)
    with k False show ?thesis by (subst writeAll_loop.simps) auto
  qed
qed

lemma writeAll_loop_broken:
  "\<lbrakk>room s = Some r; r < length bs\<rbrakk> \<Longrightarrow>
   \<exists>x s'. writeAll_loop wt c bs s = (x, s') \<and> x \<le> 0 \<and> sent s' = sent s @ take r bs"
proof (induction "length bs" arbitrary: bs s r rule: less_induct)
  case less
  then have "bs \<noteq> []" by auto
  show ?case
  proof (cases "r = 0")
    case True
    with wt_end [of bs s] less.prems \<open>bs \<noteq> []\<close> show ?thesis
      by (subst writeAll_loop.simps) (auto split: prod.splits option.splits)
  next
    case False
    then obtain k s1 where k: "wt bs s = (Some k, s1)" "0 < k" "k \<le> length bs" "k \<le> r"
        "sent s1 = sent s @ take k bs" "room s1 = Some (r - k)"
      using wt_data [of bs s] less.prems \<open>bs \<noteq> []\<close> by auto
    with less.prems have "\<exists>x s'. writeAll_loop wt c (drop k bs) s1 = (x, s') \<and> x \<le> 0
        \<and> sent s' = sent s1 @ take (r - k) (drop k bs)"
      by (intro less.hyps) auto
    moreover have "take k bs @ take (r - k) (drop k bs) = take r bs"
      using k by (metis add_diff_inverse_nat leD take_add)
    ultimately show ?thesis
      using k less.prems by (subst writeAll_loop.simps) auto
  qed
qed

end

subsection \<open>The connection of the model is such a descriptor\<close>

definition conn_read :: "handle \<Rightarrow> world reader" where
  "conn_read h n w = (case readRaw h n w of (Ret bs, w') \<Rightarrow> (Some bs, w') | (Raise e, w') \<Rightarrow> (None, w'))"

definition conn_write :: "handle \<Rightarrow> world writer" where
  "conn_write h bs w = (case writeRaw h bs w of
      (Ret r, w') \<Rightarrow> (if r < 0 then None else Some (nat r), w') | (Raise e, w') \<Rightarrow> (None, w'))"

interpretation csrc: byte_source "conn_read h" "\<lambda>w. inb (conns w h)"
proof
  fix n :: nat and s :: world
  assume "0 < n" "inb (conns s h) \<noteq> []"
  moreover have "take n xs = take (min n (length xs)) xs" "drop n xs = drop (min n (length xs)) xs"
    for xs :: "byte list" by (auto simp: min_def)
  ultimately show "\<exists>k s'. conn_read h n s = (Some (take k (inb (conns s h))), s') \<and> 0 < k \<and> k \<le> n
      \<and> k \<le> length (inb (conns s h)) \<and> inb (conns s' h) = drop k (inb (conns s h))"
    by (intro exI [of _ "min n (length (inb (conns s h)))"])
      (auto simp: conn_read_def readRaw_def set_conn_def Let_def)
next
  fix n :: nat and s :: world
  assume "n = 0 \<or> inb (conns s h) = []"
  then show "\<exists>s'. fst (conn_read h n s) \<in> {None, Some []} \<and> snd (conn_read h n s) = s'
      \<and> inb (conns s' h) = inb (conns s h)"
    by (auto simp: conn_read_def readRaw_def set_conn_def Let_def)
qed

interpretation csnk: byte_sink "conn_write h" "\<lambda>w. outb (conns w h)" "\<lambda>w. wroom (conns w h)"
proof
  fix bs :: "byte list" and s :: world
  assume "bs \<noteq> []" "wroom (conns s h) \<noteq> Some 0"
  then show "\<exists>k s'. conn_write h bs s = (Some k, s') \<and> 0 < k \<and> k \<le> length bs
      \<and> (\<forall>r. wroom (conns s h) = Some r \<longrightarrow> k \<le> r)
      \<and> outb (conns s' h) = outb (conns s h) @ take k bs
      \<and> wroom (conns s' h) = map_option (\<lambda>r. r - k) (wroom (conns s h))"
    by (cases "wroom (conns s h)")
      (auto simp: conn_write_def writeRaw_def set_conn_def push_def Let_def min_def)
next
  fix bs :: "byte list" and s :: world
  assume "bs \<noteq> []" "wroom (conns s h) = Some 0"
  then show "fst (conn_write h bs s) \<in> {None, Some 0} \<and> outb (conns (snd (conn_write h bs s)) h) = outb (conns s h)"
    by (auto simp: conn_write_def writeRaw_def Let_def)
qed

subsection \<open>A socket that reads and writes short\<close>

text \<open>
  The kernel may transfer any smaller number of bytes: \<open>ks_short\<close> lists how many at most in the
  next calls (at least 1), without limit after that.
\<close>

record ksock =
  ks_in :: "byte list"
  ks_out :: "byte list"
  ks_room :: "nat option"
  ks_short :: "nat list"

definition ks_limit :: "ksock \<Rightarrow> nat \<Rightarrow> nat" where
  "ks_limit s n = (case ks_short s of [] \<Rightarrow> n | c # _ \<Rightarrow> min n (max 1 c))"

definition ks_read :: "ksock reader" where
  "ks_read n s = (let k = ks_limit s n in
     (Some (take k (ks_in s)), s\<lparr>ks_in := drop k (ks_in s), ks_short := tl (ks_short s)\<rparr>))"

definition ks_write :: "ksock writer" where
  "ks_write bs s =
     (if ks_room s = Some 0 \<and> bs \<noteq> [] then (None, s)
      else let k = (case ks_room s of None \<Rightarrow> ks_limit s (length bs) | Some r \<Rightarrow> min r (ks_limit s (length bs))) in
        (Some k, s\<lparr>ks_out := ks_out s @ take k bs, ks_room := map_option (\<lambda>r. r - k) (ks_room s),
                   ks_short := tl (ks_short s)\<rparr>))"

lemma ks_limit_le: "ks_limit s n \<le> n"
  by (simp add: ks_limit_def split: list.splits)

lemma ks_limit_pos: "0 < n \<Longrightarrow> 0 < ks_limit s n"
  by (auto simp: ks_limit_def split: list.splits)

interpretation ksrc: byte_source ks_read ks_in
proof
  fix n :: nat and s :: ksock
  assume "0 < n" "ks_in s \<noteq> []"
  moreover have "take n xs = take (min n (length xs)) xs" "drop n xs = drop (min n (length xs)) xs"
    for n and xs :: "byte list" by (auto simp: min_def)
  ultimately show "\<exists>k s'. ks_read n s = (Some (take k (ks_in s)), s') \<and> 0 < k \<and> k \<le> n
      \<and> k \<le> length (ks_in s) \<and> ks_in s' = drop k (ks_in s)"
    using ks_limit_le [of s n] ks_limit_pos [of n s]
    by (intro exI [of _ "min (ks_limit s n) (length (ks_in s))"])
      (auto simp: ks_read_def Let_def)
next
  fix n :: nat and s :: ksock
  assume "n = 0 \<or> ks_in s = []"
  then show "\<exists>s'. fst (ks_read n s) \<in> {None, Some []} \<and> snd (ks_read n s) = s' \<and> ks_in s' = ks_in s"
    using ks_limit_le [of s n] by (auto simp: ks_read_def Let_def)
qed

interpretation ksnk: byte_sink ks_write ks_out ks_room
proof
  fix bs :: "byte list" and s :: ksock
  assume "bs \<noteq> []" "ks_room s \<noteq> Some 0"
  then show "\<exists>k s'. ks_write bs s = (Some k, s') \<and> 0 < k \<and> k \<le> length bs
      \<and> (\<forall>r. ks_room s = Some r \<longrightarrow> k \<le> r)
      \<and> ks_out s' = ks_out s @ take k bs \<and> ks_room s' = map_option (\<lambda>r. r - k) (ks_room s)"
    using ks_limit_le [of s "length bs"] ks_limit_pos [of "length bs" s]
    by (cases "ks_room s") (auto simp: ks_write_def Let_def)
next
  fix bs :: "byte list" and s :: ksock
  assume "bs \<noteq> []" "ks_room s = Some 0"
  then show "fst (ks_write bs s) \<in> {None, Some 0} \<and> ks_out (snd (ks_write bs s)) = ks_out s"
    by (simp add: ks_write_def)
qed

text \<open>
  However the kernel cuts a stream into reads, \<open>IDescriptor::readAll\<close> returns exactly the next
  \<open>n\<close> bytes and the count \<open>n\<close> when that many are still to come, and a count that is not positive,
  after taking everything, when fewer are; \<open>readTill\<close> returns the next \<open>n\<close> bytes or all that are
  left.
\<close>

theorem read_loops_chunking:
  assumes "0 < n"
  shows "(if n \<le> length (ks_in s)
          then fst (IDescriptor_readAll ks_read n s) = (int n, take n (ks_in s))
             \<and> ks_in (snd (IDescriptor_readAll ks_read n s)) = drop n (ks_in s)
          else fst (fst (IDescriptor_readAll ks_read n s)) \<le> 0
             \<and> ks_in (snd (IDescriptor_readAll ks_read n s)) = [])
       \<and> snd (fst (IDescriptor_readTill ks_read n s)) = take n (ks_in s)
       \<and> ks_in (snd (IDescriptor_readTill ks_read n s)) = drop n (ks_in s)"
  using ksrc.readAll_loop_ok [of n s n "[]"] ksrc.readAll_loop_short [of s n n "[]"]
    ksrc.readTill_loop_prefix [of n n "[]" s] assms
  by (auto simp: IDescriptor_readAll_def IDescriptor_readTill_def)

theorem read_loops_chunking_witness:
  "fst (IDescriptor_readAll ks_read 3
     \<lparr>ks_in = [1, 2, 3, 4], ks_out = [], ks_room = None, ks_short = [1, 1]\<rparr>) = (3, [1, 2, 3])"
  using read_loops_chunking [of 3 "\<lparr>ks_in = [1, 2, 3, 4], ks_out = [], ks_room = None, ks_short = [1, 1]\<rparr>"]
  by simp

text \<open>
  \<open>IDescriptor::writeAll\<close> on a socket that writes short: everything is sent, in order, and the
  count is returned, when the peer takes it all; otherwise a prefix is sent and the result is not
  positive, so that \<open>writeAllOrExit\<close> leaves the thread.
\<close>

theorem write_loop_chunking:
  assumes "bs \<noteq> []"
  shows "(if ks_room s = None \<or> length bs \<le> the (ks_room s)
          then fst (IDescriptor_writeAll ks_write bs s) = int (length bs)
             \<and> ks_out (snd (IDescriptor_writeAll ks_write bs s)) = ks_out s @ bs
          else fst (IDescriptor_writeAll ks_write bs s) \<le> 0
             \<and> ks_out (snd (IDescriptor_writeAll ks_write bs s)) = ks_out s @ take (the (ks_room s)) bs)"
  using ksnk.writeAll_loop_ok [of bs s "length bs"] ksnk.writeAll_loop_broken [of s _ bs "length bs"] assms
  by (cases "ks_room s") (force simp: IDescriptor_writeAll_def)+

theorem write_loop_chunking_witness:
  "ks_out (snd (IDescriptor_writeAll ks_write [7, 8, 9]
     \<lparr>ks_in = [], ks_out = [5], ks_room = Some 2, ks_short = [1]\<rparr>)) = [5, 7, 8]"
  using write_loop_chunking [of "[7, 8, 9]" "\<lparr>ks_in = [], ks_out = [5], ks_room = Some 2, ks_short = [1]\<rparr>"]
  by simp

subsection \<open>readAllOrExit and writeAllOrExit are the loops\<close>

definition IDescriptor_readAllOrExit :: "handle \<Rightarrow> nat \<Rightarrow> byte list io" where
  "IDescriptor_readAllOrExit h n = (\<lambda>w. case IDescriptor_readAll (conn_read h) n w of
     ((r, buf), w') \<Rightarrow>
       if r < int n then thn (closeDesc h) threadExit w' else (Ret buf, w'))"

definition IDescriptor_writeAllOrExit :: "handle \<Rightarrow> byte list \<Rightarrow> unit io" where
  "IDescriptor_writeAllOrExit h bs = (\<lambda>w. case IDescriptor_writeAll (conn_write h) bs w of
     (r, w') \<Rightarrow> if r < int (length bs) then thn (closeDesc h) threadExit w' else (Ret (), w'))"

lemma readRaw_all: "n \<le> length (inb (conns w h)) \<Longrightarrow>
    conn_read h n w = (Some (take n (inb (conns w h))), snd (readAllOrExit h n w))"
  by (simp add: conn_read_def readRaw_def readAllOrExit_def Let_def)

lemma readAllOrExit_loop: "IDescriptor_readAllOrExit h n w = readAllOrExit h n w"
proof (cases "n \<le> length (inb (conns w h))")
  case True
  then have "IDescriptor_readAll (conn_read h) n w
      = ((if n = 0 then 0 else int n, take n (inb (conns w h))), snd (readAllOrExit h n w))"
    unfolding IDescriptor_readAll_def
    by (subst readAll_loop.simps) (auto simp: readRaw_all)
  with True show ?thesis
    by (simp add: IDescriptor_readAllOrExit_def readAllOrExit_def Let_def)
next
  case False
  let ?c = "conns w h"
  have rd: "conn_read h n v = (Some (take n (inb (conns v h))), set_conn h ((conns v h)\<lparr>inb := drop n (inb (conns v h))\<rparr>) v)"
    for n v by (simp add: conn_read_def readRaw_def Let_def)
  have fin: "readAll_loop (conn_read h) c r acc (set_conn h (?c\<lparr>inb := []\<rparr>) w)
      = ((0, acc), set_conn h (?c\<lparr>inb := []\<rparr>) w)" for c r acc
    by (subst readAll_loop.simps) (simp add: rd set_conn_def)
  from False have "IDescriptor_readAll (conn_read h) n w
      = ((0, inb ?c), set_conn h (?c\<lparr>inb := []\<rparr>) w)"
    unfolding IDescriptor_readAll_def
    by (subst readAll_loop.simps) (auto simp: rd fin)
  with False show ?thesis
    by (simp add: IDescriptor_readAllOrExit_def readAllOrExit_def Let_def thn_app closeDesc_def
        modify_app threadExit_app set_conn_def shut_def)
qed

lemma push_Nil: "push [] c = c"
  by (cases c; cases "wroom c") (simp_all add: push_def)

lemma push_take: "push (drop r bs) (push (take r bs) c) = push bs c"
  by (cases c; cases "wroom c") (auto simp: push_def min_def)

lemma writeAllOrExit_loop: "IDescriptor_writeAllOrExit h bs w = writeAllOrExit h bs w"
proof (cases "wroom (conns w h)")
  case None
  then show ?thesis
    by (simp add: IDescriptor_writeAllOrExit_def IDescriptor_writeAll_def writeAllOrExit_def
        writeAll_loop.simps conn_write_def writeRaw_def fits_def Let_def)
next
  case (Some r)
  let ?c = "conns w h"
  show ?thesis
  proof (cases "length bs \<le> r")
    case True
    with Some show ?thesis
      by (auto simp: IDescriptor_writeAllOrExit_def IDescriptor_writeAll_def writeAllOrExit_def
          writeAll_loop.simps conn_write_def writeRaw_def fits_def Let_def min_def)
  next
    case False
    let ?w = "set_conn h (push (take r bs) ?c) w"
    have room: "wroom (conns ?w h) = Some 0"
      using Some False by (simp add: set_conn_def push_def min_def)
    have second: "writeAll_loop (conn_write h) c (drop r bs) ?w = (- 1, ?w)" for c
      using room False
      by (subst writeAll_loop.simps) (simp add: conn_write_def writeRaw_def Let_def)
    have "r = 0 \<Longrightarrow> ?w = w" by (simp add: push_Nil set_conn_def)
    then have "IDescriptor_writeAll (conn_write h) bs w = (- 1, ?w)"
      unfolding IDescriptor_writeAll_def
      using Some False second
      by (subst writeAll_loop.simps)
        (auto simp: conn_write_def [of h bs w] writeRaw_def Let_def min_def)
    with Some False show ?thesis
      by (simp add: IDescriptor_writeAllOrExit_def writeAllOrExit_def Let_def thn_app closeDesc_def
          modify_app threadExit_app set_conn_def fits_def)
  qed
qed


subsection \<open>Buffered writers\<close>

text \<open>
  A \<open>BufferedWriteDescriptor\<close> is the byte list it holds back and the descriptor it wraps;
  \<open>close()\<close> flushes without closing, and the destructor does not flush.
\<close>

definition buffered_write :: "byte list \<Rightarrow> byte list \<Rightarrow> byte list" where
  "buffered_write buffer bs = buffer @ bs"

definition buffered_flush :: "handle \<Rightarrow> byte list \<Rightarrow> byte list io" where
  "buffered_flush h buffer =
     (if buffer \<noteq> [] then thn (writeAllOrExit h buffer) (ret []) else ret buffer)"

definition autoflush_write :: "int \<Rightarrow> handle \<Rightarrow> byte list \<Rightarrow> byte list \<Rightarrow> byte list io" where
  "autoflush_write flushSize h buffer bs =
     (let b = buffer @ bs in if int (length b) \<ge> flushSize then buffered_flush h b else ret b)"

definition sink_write :: "byte list \<Rightarrow> unit \<Rightarrow> int \<times> unit" where
  "sink_write bs s = (int (length bs), ())"

definition sstream_write :: "byte list \<Rightarrow> byte list \<Rightarrow> int \<times> byte list" where
  "sstream_write bs ss = (int (length bs), ss @ bs)"

text \<open>A sequence of writes through an auto-flushing descriptor, then \<open>flush()\<close>.\<close>

definition autoflush_session :: "int \<Rightarrow> handle \<Rightarrow> byte list list \<Rightarrow> byte list io" where
  "autoflush_session flushSize h chunks =
     bnd (io_fold (autoflush_write flushSize h) [] chunks) (buffered_flush h)"

lemma flush_emit [io_eval]: "wr h w \<Longrightarrow> buffered_flush h b w = (Ret [], emit h b w)"
  by (simp add: buffered_flush_def io_eval)

lemma autoflush_fold:
  "wr h w \<Longrightarrow> \<exists>sent rest. io_fold (autoflush_write n h) b chunks w = (Ret rest, emit h sent w)
     \<and> sent @ rest = b @ concat chunks"
proof (induction chunks arbitrary: b w)
  case Nil
  then show ?case by (intro exI [of _ "[]"] exI [of _ b]) (simp add: io_eval)
next
  case (Cons c chunks)
  show ?case
  proof (cases "int (length (b @ c)) \<ge> n")
    case True
    with Cons.prems have "autoflush_write n h b c w = (Ret [], emit h (b @ c) w)"
      by (simp add: autoflush_write_def io_eval Let_def)
    moreover obtain sent rest where
      "io_fold (autoflush_write n h) [] chunks (emit h (b @ c) w) = (Ret rest, emit h sent (emit h (b @ c) w))"
      "sent @ rest = concat chunks"
      using Cons.IH [of "emit h (b @ c) w" "[]"] Cons.prems by auto
    ultimately show ?thesis
      by (intro exI [of _ "(b @ c) @ sent"] exI [of _ rest]) (simp add: bnd_app)
  next
    case False
    then have "autoflush_write n h b c w = (Ret (b @ c), w)"
      by (simp add: autoflush_write_def io_eval Let_def)
    moreover obtain sent rest where
      "io_fold (autoflush_write n h) (b @ c) chunks w = (Ret rest, emit h sent w)"
      "sent @ rest = (b @ c) @ concat chunks"
      using Cons.IH [OF Cons.prems] by blast
    ultimately show ?thesis
      by (intro exI [of _ sent] exI [of _ rest]) (simp add: bnd_app)
  qed
qed

text \<open>
  Buffering is transparent: whatever the flush size, writing through an
  \<open>AutoFlushBufferedWriteDescriptor\<close> and flushing it at the end sends the same bytes in the same
  order as writing each piece directly, and leaves nothing in the buffer.
\<close>

theorem autoflush_transparent:
  assumes "wr h w"
  shows "autoflush_session flushSize h chunks w = (Ret [], snd (io_for chunks (writeAllOrExit h) w))"
proof -
  obtain sent rest where "io_fold (autoflush_write flushSize h) [] chunks w = (Ret rest, emit h sent w)"
      "sent @ rest = concat chunks"
    using autoflush_fold [OF assms, of flushSize "[]" chunks] by auto
  moreover have "io_for chunks (writeAllOrExit h) w = (Ret (), emit h (concat chunks) w)"
    using io_for_write_id [OF assms] by blast
  ultimately show ?thesis
    using assms by (simp add: autoflush_session_def io_eval)
qed

theorem autoflush_transparent_witness:
  "autoflush_session 3 Cl [[1], [2, 3], [4]] world0
     = (Ret [], snd (io_for [[1], [2, 3], [4]] (writeAllOrExit Cl) world0))"
  by (rule autoflush_transparent) simp

end
