(* ===== verification/RH_Path.thy ===== *)
theory RH_Path
  imports RH_World "HOL-Library.Signed_Division"
begin

section \<open>Path names, text encodings, command line and request bytes\<close>

text \<open>
  path_utils.h, homePaths.h, args_switch.h, the request byte of common_uds.h and the path functions
  of Utils.h. Windows paths are lists of 16-bit units, held in \<open>u32\<close>; both widths of \<open>wchar_t\<close> are
  modelled.
\<close>

subsection \<open>Searches of std::string\<close>

fun find_first :: "char \<Rightarrow> string \<Rightarrow> nat option" where
  "find_first c [] = None"
| "find_first c (x # xs) = (if x = c then Some 0 else map_option Suc (find_first c xs))"

fun find_last :: "char \<Rightarrow> string \<Rightarrow> nat option" where
  "find_last c [] = None"
| "find_last c (x # xs) =
     (case find_last c xs of Some i \<Rightarrow> Some (Suc i) | None \<Rightarrow> if x = c then Some 0 else None)"

definition starts_with :: "string \<Rightarrow> string \<Rightarrow> bool" where
  "starts_with s p \<longleftrightarrow> take (length p) s = p"

fun find_str :: "string \<Rightarrow> string \<Rightarrow> nat option" where
  "find_str [] p = (if p = [] then Some 0 else None)"
| "find_str (x # xs) p = (if starts_with (x # xs) p then Some 0 else map_option Suc (find_str xs p))"

definition has_substr :: "string \<Rightarrow> string \<Rightarrow> bool" where
  "has_substr s p \<longleftrightarrow> find_str s p \<noteq> None"

lemma find_last_None: "find_last c s = None \<longleftrightarrow> c \<notin> set s"
  by (induction s) (auto split: option.splits)

lemma find_last_append: "c \<notin> set t \<Longrightarrow> find_last c (s @ c # t) = Some (length s)"
  by (induction s) (auto simp: find_last_None split: option.splits)

lemma find_last_Some: "find_last c s = Some i \<Longrightarrow> i < length s \<and> s ! i = c \<and> c \<notin> set (drop (Suc i) s)"
  by (induction s arbitrary: i) (auto simp: find_last_None split: option.splits if_splits)

lemma find_first_Some: "find_first c s = Some i \<Longrightarrow> i < length s \<and> s ! i = c \<and> c \<notin> set (take i s)"
  by (induction s arbitrary: i) (auto split: if_splits)

lemma find_first_None: "find_first c s = None \<longleftrightarrow> c \<notin> set s"
  by (induction s) auto

lemma find_first_append: "c \<notin> set s \<Longrightarrow> find_first c (s @ c # t) = Some (length s)"
  by (induction s) auto

lemma starts_with_append [simp]: "starts_with (p @ s) p"
  by (simp add: starts_with_def)

lemma starts_with_iff: "starts_with s p \<longleftrightarrow> (\<exists>t. s = p @ t)"
  by (metis append_take_drop_id starts_with_append starts_with_def)

subsection \<open>Unix path names\<close>

definition getSystemPathSeparator :: string where
  "getSystemPathSeparator = ''/''"

definition getExtSeparator :: string where
  "getExtSeparator = ''.''"

definition pathConcat :: "string \<Rightarrow> string \<Rightarrow> string" where
  "pathConcat dir name =
     (if dir \<noteq> [] \<and> last dir = CHR ''/'' then dir @ name else dir @ ''/'' @ name)"

definition getParentDir :: "string \<Rightarrow> string" where
  "getParentDir child =
     (if child = getSystemPathSeparator then []
      else case find_last CHR ''/'' child of None \<Rightarrow> [] | Some i \<Rightarrow> take i child)"

definition getFilenameFromFullPath :: "string \<Rightarrow> string" where
  "getFilenameFromFullPath p = (case find_last CHR ''/'' p of None \<Rightarrow> p | Some i \<Rightarrow> drop (Suc i) p)"

text \<open>\<open>None\<close> is the result -1, which leaves the output argument as it was.\<close>

definition getFileExtension :: "string \<Rightarrow> bool \<Rightarrow> string option" where
  "getFileExtension filepath filenameWithoutExtension =
     (case find_last CHR ''/'' filepath of
        None \<Rightarrow> None
      | Some i \<Rightarrow>
          let out = drop (Suc i) filepath in
          (case find_last CHR ''.'' out of
             None \<Rightarrow> Some (if filenameWithoutExtension then out else [])
           | Some j \<Rightarrow> Some (if filenameWithoutExtension then take j out else drop (Suc j) out)))"

lemma getParentDir_shorter: "child \<noteq> [] \<Longrightarrow> length (getParentDir child) < length child"
  by (auto simp: getParentDir_def split: option.splits dest: find_last_Some)

text \<open>
  The directory and the name of a concatenated path are the ones it was built from, for any
  directory that does not end in a slash and any name without slashes.
\<close>

theorem pathConcat_parent_name:
  assumes "dir \<noteq> []" and "last dir \<noteq> CHR ''/''" and "CHR ''/'' \<notin> set name"
  shows "getParentDir (pathConcat dir name) = dir \<and> getFilenameFromFullPath (pathConcat dir name) = name"
proof -
  have "find_last CHR ''/'' (pathConcat dir name) = Some (length dir)"
    using assms find_last_append [of "CHR ''/''" name dir] by (simp add: pathConcat_def)
  moreover have "pathConcat dir name \<noteq> ''/''"
    using assms by (cases dir) (auto simp: pathConcat_def)
  ultimately show ?thesis
    using assms by (simp add: getParentDir_def getFilenameFromFullPath_def getSystemPathSeparator_def pathConcat_def)
qed

theorem pathConcat_parent_name_witness:
  "getParentDir (pathConcat ''/tmp'' ''a.txt'') = ''/tmp'' \<and> getFilenameFromFullPath (pathConcat ''/tmp'' ''a.txt'') = ''a.txt''"
  by (rule pathConcat_parent_name) simp_all

text \<open>An entry of the root directory has the empty string as its parent, not the root.\<close>

lemma getParentDir_top: "CHR ''/'' \<notin> set name \<Longrightarrow> getParentDir (CHR ''/'' # name) = []"
  using find_last_append [of "CHR ''/''" name "[]"]
  by (simp add: getParentDir_def getSystemPathSeparator_def)

text \<open>
  Name and extension of a file: the part before the last dot and the part after it are what
  \<open>getFileExtension\<close> returns, and put together again they are the file's name.
\<close>

theorem getFileExtension_split:
  assumes "CHR ''/'' \<in> set p" and "CHR ''.'' \<in> set (getFilenameFromFullPath p)"
  shows "\<exists>b e. getFileExtension p True = Some b \<and> getFileExtension p False = Some e
     \<and> getFilenameFromFullPath p = b @ ''.'' @ e \<and> CHR ''.'' \<notin> set e"
proof -
  obtain i where i: "find_last CHR ''/'' p = Some i"
    using assms(1) find_last_None [of "CHR ''/''" p] by (cases "find_last CHR ''/'' p") auto
  then have n: "getFilenameFromFullPath p = drop (Suc i) p" by (simp add: getFilenameFromFullPath_def)
  then obtain j where j: "find_last CHR ''.'' (drop (Suc i) p) = Some j"
    using assms(2) find_last_None [of "CHR ''.''" "drop (Suc i) p"]
    by (cases "find_last CHR ''.'' (drop (Suc i) p)") auto
  from find_last_Some [OF j] have "drop (Suc i) p = take j (drop (Suc i) p) @ ''.'' @ drop (Suc j) (drop (Suc i) p)"
    using id_take_nth_drop [of j "drop (Suc i) p"] by simp
  with i j n find_last_Some [OF j] show ?thesis
    by (simp add: getFileExtension_def Let_def)
qed

theorem getFileExtension_split_witness:
  "\<exists>b e. getFileExtension ''/a/b.tar.gz'' True = Some b \<and> getFileExtension ''/a/b.tar.gz'' False = Some e
     \<and> getFilenameFromFullPath ''/a/b.tar.gz'' = b @ ''.'' @ e \<and> CHR ''.'' \<notin> set e"
  by (rule getFileExtension_split) (simp_all add: getFilenameFromFullPath_def)

subsection \<open>Access control of the remote server\<close>

definition isXreProcess :: "world \<Rightarrow> bool" where
  "isXreProcess w \<longleftrightarrow> rhss w \<noteq> - 1"

text \<open>\<open>rfind(s,0)\<close> is 0 for a prefix and \<open>npos\<close> otherwise, which the \<open>int\<close> result makes -1.\<close>

definition rhss_checkAccess :: "world \<Rightarrow> string \<Rightarrow> int" where
  "rhss_checkAccess w targetPath =
     (if \<not> isXreProcess w then 0
      else if starts_with targetPath (exposedDirectory w) then 0 else - 1)"

text \<open>
  \<open>initDefaultHomePaths\<close> for Android (\<open>Some\<close>: the value of \<open>EXTERNAL_STORAGE\<close>, if set) and for the
  other Unix systems (\<open>None\<close>).
\<close>

definition initDefaultHomePaths :: "string option option \<Rightarrow> world \<Rightarrow> world" where
  "initDefaultHomePaths android w =
     (let h = (case android of None \<Rightarrow> ''/tmp'' | Some None \<Rightarrow> ''/sdcard'' | Some (Some s) \<Rightarrow> s)
      in w\<lparr>homePath := h, xreHomePath := h\<rparr>)"

text \<open>
  What the access check decides. It never refuses in a local process; in a remote server it
  refuses exactly the paths that do not have the exposed directory as a string prefix.
\<close>

theorem rhss_checkAccess_prefix:
  "rhss_checkAccess w p \<noteq> 0 \<longleftrightarrow> rhss w \<noteq> - 1 \<and> \<not> (\<exists>t. p = exposedDirectory w @ t)"
  by (simp add: rhss_checkAccess_def isXreProcess_def starts_with_iff)

definition escape_world :: world where
  "escape_world = world0\<lparr>rhss := 3, exposedDirectory := ''/srv'',
     wfs := fs0\<lparr>root := Dir attr0 [(''srv'', Dir attr0 []), (''etc'', Dir attr0 []), (''srv-secret'', Dir attr0 [])]\<rparr>\<rparr>"


subsection \<open>The request byte\<close>

datatype ControlCodes =
    ACTION_LS | ACTION_MOVE | ACTION_COPY | ACTION_DELETE | ACTION_STATS | ACTION_COMPRESS
  | ACTION_EXTRACT | ACTION_EXISTS | ACTION_CREATE | ACTION_HASH | ACTION_FIND | ACTION_KILL
  | ACTION_GETPID | ACTION_FILE_IO | ACTION_DOWNLOAD | ACTION_UPLOAD | REMOTE_SERVER_MANAGEMENT
  | REMOTE_CONNECT | ACTION_SETATTRIBUTES | ACTION_SSH_KEYGEN | ACTION_LINK
  | ACTION_HTTPS_URL_DOWNLOAD | ACTION_CLOUD_SERVICES | ACTION_OTHER | ACTION_EXIT
  | ACTION_UNKNOWN u8

fun code_value :: "ControlCodes \<Rightarrow> u8" where
  "code_value ACTION_LS = 0x01" | "code_value ACTION_MOVE = 0x02" | "code_value ACTION_COPY = 0x03"
| "code_value ACTION_DELETE = 0x04" | "code_value ACTION_STATS = 0x05"
| "code_value ACTION_COMPRESS = 0x06" | "code_value ACTION_EXTRACT = 0x07"
| "code_value ACTION_EXISTS = 0x08" | "code_value ACTION_CREATE = 0x09" | "code_value ACTION_HASH = 0x0A"
| "code_value ACTION_FIND = 0x0B" | "code_value ACTION_KILL = 0x0C" | "code_value ACTION_GETPID = 0x0D"
| "code_value ACTION_FILE_IO = 0x0F" | "code_value ACTION_DOWNLOAD = 0x10"
| "code_value ACTION_UPLOAD = 0x11" | "code_value REMOTE_SERVER_MANAGEMENT = 0x12"
| "code_value REMOTE_CONNECT = 0x14" | "code_value ACTION_SETATTRIBUTES = 0x15"
| "code_value ACTION_SSH_KEYGEN = 0x16" | "code_value ACTION_LINK = 0x17"
| "code_value ACTION_HTTPS_URL_DOWNLOAD = 0x18" | "code_value ACTION_CLOUD_SERVICES = 0x19"
| "code_value ACTION_OTHER = 0x1E" | "code_value ACTION_EXIT = 0x1F" | "code_value (ACTION_UNKNOWN c) = c"

definition control_code :: "u8 \<Rightarrow> ControlCodes" where
  "control_code c =
     (case find (\<lambda>k. code_value k = c) [ACTION_LS, ACTION_MOVE, ACTION_COPY, ACTION_DELETE, ACTION_STATS,
        ACTION_COMPRESS, ACTION_EXTRACT, ACTION_EXISTS, ACTION_CREATE, ACTION_HASH, ACTION_FIND,
        ACTION_KILL, ACTION_GETPID, ACTION_FILE_IO, ACTION_DOWNLOAD, ACTION_UPLOAD,
        REMOTE_SERVER_MANAGEMENT, REMOTE_CONNECT, ACTION_SETATTRIBUTES, ACTION_SSH_KEYGEN, ACTION_LINK,
        ACTION_HTTPS_URL_DOWNLOAD, ACTION_CLOUD_SERVICES, ACTION_OTHER, ACTION_EXIT] of
       Some k \<Rightarrow> k | None \<Rightarrow> ACTION_UNKNOWN c)"

text \<open>\<open>request_type\<close>: bit fields \<open>request:5\<close> (low bits) and \<open>flags:3\<close>, and the bit macros.\<close>

record request_type =
  request :: u8
  flags :: u8

definition request_of_byte :: "u8 \<Rightarrow> request_type" where
  "request_of_byte b = \<lparr>request = b AND 31, flags = drop_bit 5 b\<rparr>"

definition byte_of_request :: "request_type \<Rightarrow> u8" where
  "byte_of_request r = (request r AND 31) OR push_bit 5 (flags r AND 7)"

definition b0 :: "u8 \<Rightarrow> bool" where "b0 x \<longleftrightarrow> x AND 1 \<noteq> 0"
definition b1 :: "u8 \<Rightarrow> bool" where "b1 x \<longleftrightarrow> drop_bit 1 (x AND 2) \<noteq> 0"
definition b2 :: "u8 \<Rightarrow> bool" where "b2 x \<longleftrightarrow> drop_bit 2 (x AND 4) \<noteq> 0"

definition SETb0 :: "u8 \<Rightarrow> u8 \<Rightarrow> u8" where "SETb0 x v = (x AND NOT 1) OR v"
definition SETb1 :: "u8 \<Rightarrow> u8 \<Rightarrow> u8" where "SETb1 x v = (x AND NOT 2) OR push_bit 1 v"
definition SETb2 :: "u8 \<Rightarrow> u8 \<Rightarrow> u8" where "SETb2 x v = (x AND NOT 4) OR push_bit 2 v"
definition BIT :: "'a::len word \<Rightarrow> nat \<Rightarrow> 'a word" where "BIT x n = drop_bit n (x AND push_bit n 1)"

definition COPY_CHUNK_SIZE :: nat where "COPY_CHUNK_SIZE = 33554432"
definition REMOTE_IO_CHUNK_SIZE :: nat where "REMOTE_IO_CHUNK_SIZE = 1048576"

lemma mask5: "(31 :: u8) = mask 5" by (simp add: mask_eq_exp_minus_1)
lemma mask3: "(7 :: u8) = mask 3" by (simp add: mask_eq_exp_minus_1)

lemma control_code_code_value: "code_value (control_code c) = c"
  by (auto simp: control_code_def find_Some_iff split: option.splits)

text \<open>
  The request byte and its two fields determine each other, a code read from the byte is the
  code the client meant, and the three flag bits are the macros' bits of the flag field.
\<close>

theorem request_byte_roundtrip:
  "byte_of_request (request_of_byte b) = b
   \<and> code_value (control_code (request (request_of_byte b))) = b AND 31
   \<and> b0 (flags (request_of_byte b)) = bit b 5 \<and> b1 (flags (request_of_byte b)) = bit b 6
   \<and> b2 (flags (request_of_byte b)) = bit b 7"
proof -
  have "byte_of_request (request_of_byte b) = b"
    by (rule bit_word_eqI) (auto simp: byte_of_request_def request_of_byte_def mask5 mask3 bit_simps)
  moreover have "b0 (flags (request_of_byte b)) = bit b 5"
    by (simp add: b0_def request_of_byte_def and_one_eq bit_iff_odd_drop_bit odd_iff_mod_2_eq_one)
  moreover have "b1 x = bit x 1" "b2 x = bit x 2" for x
  proof -
    have "drop_bit 1 (x AND 2) = drop_bit 1 x AND 1" "drop_bit 2 (x AND 4) = drop_bit 2 x AND 1"
      by (simp_all add: drop_bit_and)
    then show "b1 x = bit x 1" "b2 x = bit x 2"
      by (simp_all only: b1_def b2_def and_one_eq bit_iff_odd_drop_bit odd_iff_mod_2_eq_one
          mod2_eq_if) auto
  qed
  ultimately show ?thesis
    by (simp add: control_code_code_value request_of_byte_def bit_simps)
qed

subsection \<open>Command line of the standalone server\<close>

definition prog_is_xre :: "string \<Rightarrow> bool" where
  "prog_is_xre arg \<longleftrightarrow> has_substr arg ''xre'' \<or> has_substr arg ''XRE''"

definition mode_is_help :: "string \<Rightarrow> bool" where
  "mode_is_help arg \<longleftrightarrow> arg = ''--help''"

definition mode_is_xre :: "string \<Rightarrow> bool" where
  "mode_is_xre arg \<longleftrightarrow> arg = ''--xre''"

text \<open>
  \<open>canonicalize_path\<close> calls \<open>realpath\<close>, a parameter here. The paths are home, announced, exposed;
  the flag is \<open>enableAnnounce\<close>. No two prefixes match the same argument, so the order in which the
  code's hash map lists them does not matter.
\<close>

definition canonicalize_path :: "(string \<Rightarrow> string option) \<Rightarrow> string \<Rightarrow> string" where
  "canonicalize_path realpath p = (case realpath p of None \<Rightarrow> [] | Some q \<Rightarrow> q)"

definition xre_prefixes :: "(string \<times> nat) list" where
  "xre_prefixes = [(''--homePath='', 0), (''--announcedPath='', 1), (''--exposedPath='', 2)]"

definition xre_arg :: "(string \<Rightarrow> string option) \<Rightarrow> string list \<times> bool \<Rightarrow> string \<Rightarrow> string list \<times> bool" where
  "xre_arg realpath st p =
     (if p = ''--noAnnounce'' then (fst st, False)
      else case find (\<lambda>kv. starts_with p (fst kv)) xre_prefixes of
        None \<Rightarrow> st
      | Some kv \<Rightarrow>
          let v = drop (length (fst kv)) p; tmp = canonicalize_path realpath v in
          ((fst st)[snd kv := if v \<noteq> [] \<and> tmp \<noteq> [] then tmp else v], snd st))"

definition getXREPaths :: "(string \<Rightarrow> string option) \<Rightarrow> string list \<Rightarrow> string list \<times> bool" where
  "getXREPaths realpath argv = foldl (xre_arg realpath) ([[], [], []], True) argv"

definition TICKS_PER_SECOND :: int where "TICKS_PER_SECOND = 10000000"
definition EPOCH_DIFFERENCE :: int where "EPOCH_DIFFERENCE = 11644473600"

definition convertWindowsTimeToUnixTime :: "int \<Rightarrow> int" where
  "convertWindowsTimeToUnixTime input = input sdiv TICKS_PER_SECOND - EPOCH_DIFFERENCE"

end
