(* ===== verification/RH_Files.thy ===== *)
theory RH_Files
  imports RH_Resps RH_Path
begin

section \<open>Querying the file system\<close>

text \<open>
  The Unix part of Utils.h that only looks at the file system (\<open>osStat\<close>, \<open>existsIsFileIsDir0\<close>,
  \<open>isDirectoryEmpty\<close>, \<open>statNearestAncestor\<close>, the ls entry of a file), \<open>getPermissions\<close> of
  resps/ls_resp.hpp and \<open>getFileType\<close> of r.cpp. Each is shown to be \<open>quiet\<close>: it returns a function
  of the file system and changes nothing but \<open>errno\<close>.
\<close>

subsection \<open>Computations that only change errno\<close>

definition quiet :: "'a io \<Rightarrow> (fs \<Rightarrow> (u32 \<Rightarrow> string option) \<Rightarrow> 'a) \<Rightarrow> bool" where
  "quiet m v \<longleftrightarrow> (\<forall>w. \<exists>e. m w = (Ret (v (wfs w) (users w)), w\<lparr>errno := e\<rparr>))"

lemma quietD: "quiet m v \<Longrightarrow> \<exists>e. m w = (Ret (v (wfs w) (users w)), w\<lparr>errno := e\<rparr>)"
  by (simp add: quiet_def)

lemma errno_same: "\<exists>e. w = w\<lparr>errno := e\<rparr>"
  by (rule exI [of _ "errno w"]) simp

lemma quiet_ret: "quiet (ret a) (\<lambda>f u. a)"
  by (simp add: quiet_def ret_def errno_same)

lemma quiet_query: "quiet (io_query q) (\<lambda>f u. case q f of Inl e \<Rightarrow> None | Inr a \<Rightarrow> Some a)"
  using errno_same by (auto simp: quiet_def io_query_def split: sum.splits)

lemma quiet_users: "quiet (get users) (\<lambda>f u. u)"
  by (simp add: quiet_def get_def errno_same)

lemma quiet_set_errno: "quiet (set_errno e) (\<lambda>f u. ())"
  by (auto simp: quiet_def set_errno_app)

lemma quiet_bnd:
  assumes "quiet m v" and "\<And>a. quiet (g a) (u a)"
  shows "quiet (bnd m g) (\<lambda>f us. u (v f us) f us)"
  unfolding quiet_def
proof
  fix w
  obtain e where "m w = (Ret (v (wfs w) (users w)), w\<lparr>errno := e\<rparr>)"
    using assms(1) quietD by blast
  moreover obtain e' where "g (v (wfs w) (users w)) (w\<lparr>errno := e\<rparr>)
      = (Ret (u (v (wfs w) (users w)) (wfs w) (users w)), w\<lparr>errno := e\<rparr>\<lparr>errno := e'\<rparr>)"
    using assms(2) quietD [of _ _ "w\<lparr>errno := e\<rparr>"] by fastforce
  ultimately show "\<exists>e. bnd m g w = (Ret (u (v (wfs w) (users w)) (wfs w) (users w)), w\<lparr>errno := e\<rparr>)"
    by (auto simp: bnd_def)
qed

lemma quiet_cong: "\<lbrakk>quiet m v; \<And>f us. v f us = v' f us\<rbrakk> \<Longrightarrow> quiet m v'"
  by (simp add: quiet_def)

lemma quiet_if: "\<lbrakk>quiet m v; quiet m' v'\<rbrakk> \<Longrightarrow> quiet (if b then m else m') (\<lambda>f u. if b then v f u else v' f u)"
  by (cases b) simp_all

lemma quiet_option:
  "\<lbrakk>quiet m v; \<And>x. quiet (g x) (v' x)\<rbrakk> \<Longrightarrow>
   quiet (case r of None \<Rightarrow> m | Some x \<Rightarrow> g x) (\<lambda>f u. case r of None \<Rightarrow> v f u | Some x \<Rightarrow> v' x f u)"
  by (cases r) simp_all

lemma quiet_no_oof: "quiet m v \<Longrightarrow> no_oof m"
  by (simp add: quiet_def no_oof_def) (metis Pair_inject outcome.distinct(1))

subsection \<open>struct stat\<close>

definition S_IFMT :: u32 where "S_IFMT = 61440"
definition S_IFREG :: u32 where "S_IFREG = 32768"
definition S_IFDIR :: u32 where "S_IFDIR = 16384"
definition S_IFLNK :: u32 where "S_IFLNK = 40960"
definition S_IFCHR :: u32 where "S_IFCHR = 8192"

lemmas S_IF_defs = S_IFMT_def S_IFREG_def S_IFDIR_def S_IFLNK_def S_IFCHR_def

fun node_type :: "node \<Rightarrow> u32" where
  "node_type (Reg _ _) = S_IFREG"
| "node_type (Dir _ _) = S_IFDIR"
| "node_type (Lnk _ _) = S_IFLNK"
| "node_type (Spc _) = S_IFCHR"

definition st_mode :: "node \<Rightarrow> u32" where
  "st_mode n = node_type n OR (a_mode (node_attr n) AND 4095)"

definition S_ISDIR :: "u32 \<Rightarrow> bool" where "S_ISDIR m \<longleftrightarrow> m AND S_IFMT = S_IFDIR"
definition S_ISLNK :: "u32 \<Rightarrow> bool" where "S_ISLNK m \<longleftrightarrow> m AND S_IFMT = S_IFLNK"
definition S_ISREG :: "u32 \<Rightarrow> bool" where "S_ISREG m \<longleftrightarrow> m AND S_IFMT = S_IFREG"

lemma st_mode_type: "st_mode n AND S_IFMT = node_type n"
proof -
  have z: "(m AND 4095) AND S_IFMT = 0" for m :: u32
  proof -
    have "(4095 :: u32) AND S_IFMT = 0" by (simp add: S_IFMT_def)
    then show ?thesis by (simp add: and.assoc)
  qed
  have "(a OR b) AND c = (a AND c) OR (b AND c)" for a b c :: u32
    by (rule bit_word_eqI) (auto simp: bit_simps)
  moreover have "node_type n AND S_IFMT = node_type n" by (cases n) (simp_all add: S_IF_defs)
  ultimately show ?thesis by (simp add: st_mode_def z)
qed

lemma S_ISDIR_mode [simp]: "S_ISDIR (st_mode n) = is_dir n"
  unfolding S_ISDIR_def st_mode_type by (cases n) (simp_all add: S_IF_defs)

lemma S_ISLNK_mode [simp]: "S_ISLNK (st_mode n) = is_lnk n"
  unfolding S_ISLNK_def st_mode_type by (cases n) (simp_all add: S_IF_defs)

lemma S_ISREG_mode [simp]: "S_ISREG (st_mode n) = is_reg n"
  unfolding S_ISREG_def st_mode_type by (cases n) (simp_all add: S_IF_defs)

subsection \<open>The permission string\<close>

text \<open>
  \<open>output\<close> is the ten characters of the caller's record, zero before, and one byte after them
  (padding in both records), which the code writes for a symbolic link: the link branch advances
  \<open>i\<close> twice.
\<close>

definition perm_bits :: "(u32 \<times> char) list" where
  "perm_bits = [(256, CHR ''r''), (128, CHR ''w''), (64, CHR ''x''), (32, CHR ''r''), (16, CHR ''w''),
     (8, CHR ''x''), (4, CHR ''r''), (2, CHR ''w''), (1, CHR ''x'')]"

primrec put_perms :: "u32 \<Rightarrow> (u32 \<times> char) list \<Rightarrow> nat \<Rightarrow> string \<Rightarrow> string" where
  "put_perms m [] i out = out"
| "put_perms m (b # bs) i out = put_perms m bs (Suc i) (out[i := if m AND fst b \<noteq> 0 then snd b else CHR ''-''])"

definition perm_head :: "u32 \<Rightarrow> node option \<Rightarrow> nat \<times> char" where
  "perm_head mode target =
     (if S_ISLNK mode
      then (1, case target of Some n \<Rightarrow> if S_ISDIR (st_mode n) then CHR ''L'' else CHR ''l'' | None \<Rightarrow> CHR ''l'')
      else (0, if S_ISDIR mode then CHR ''d'' else CHR ''-''))"

definition perm_string :: "u32 \<Rightarrow> node option \<Rightarrow> string" where
  "perm_string mode target =
     (let (i, c) = perm_head mode target; output = (replicate 11 (CHR 0x00))[0 := c]
      in take 10 (put_perms mode perm_bits (i + 1) output))"

definition getPermissions :: "string \<Rightarrow> u32 \<Rightarrow> string io" where
  "getPermissions pathname mode =
     bnd (if S_ISLNK mode then io_query (sys_stat pathname) else ret None) (\<lambda>target.
     ret (perm_string mode target))"

definition permissions_of :: "string \<Rightarrow> u32 \<Rightarrow> fs \<Rightarrow> string" where
  "permissions_of p mode f =
     perm_string mode (if S_ISLNK mode then case sys_stat p f of Inl e \<Rightarrow> None | Inr n \<Rightarrow> Some n else None)"

lemma quiet_getPermissions: "quiet (getPermissions p mode) (\<lambda>f u. permissions_of p mode f)"
  unfolding getPermissions_def permissions_of_def
  by (intro quiet_bnd quiet_if quiet_query quiet_ret)

lemma length_put_perms [simp]: "length (put_perms m bs i out) = length out"
  by (induction bs arbitrary: i out) simp_all

lemma length_perm_string [simp]: "length (perm_string m t) = 10"
  by (simp add: perm_string_def Let_def split: prod.splits)

lemma length_permissions_of [simp]: "length (permissions_of p m f) = 10"
  by (simp add: permissions_of_def)

text \<open>The first character: \<open>d\<close> for directories and only for them.\<close>

lemma put_perms_prefix: "j < i \<Longrightarrow> put_perms m bs i out ! j = out ! j"
  by (induction bs arbitrary: i out) simp_all

lemma perm_string_0: "perm_string m t ! 0 = snd (perm_head m t)"
  by (simp add: perm_string_def Let_def put_perms_prefix split: prod.splits)

lemma perm_string_d: "perm_string (st_mode n) t ! 0 = CHR ''d'' \<longleftrightarrow> is_dir n"
  unfolding perm_string_0 by (cases n) (auto simp: perm_head_def split: option.splits)

text \<open>
  The permission string of a file or directory is the usual one: type, then the nine bits of
  the mode, in ten characters. Of a symbolic link it is not: the second character is never written
  and the nine bits are shifted by one, so that the last one (execution by others) is lost, written
  past the end of the record's array.
\<close>

theorem getPermissions_layout:
  "perm_string m t =
     (if S_ISLNK m
      then snd (perm_head m t) # CHR 0x00 # map (\<lambda>b. if m AND fst b \<noteq> 0 then snd b else CHR ''-'') (butlast perm_bits)
      else snd (perm_head m t) # map (\<lambda>b. if m AND fst b \<noteq> 0 then snd b else CHR ''-'') perm_bits)"
proof -
  have "replicate 11 (CHR 0x00) = [CHR 0x00, CHR 0x00, CHR 0x00, CHR 0x00, CHR 0x00, CHR 0x00, CHR 0x00,
      CHR 0x00, CHR 0x00, CHR 0x00, CHR 0x00]"
    by (simp add: numeral_eq_Suc)
  then show ?thesis
    by (simp add: perm_string_def Let_def perm_head_def perm_bits_def)
qed

subsection \<open>osStat and its callers\<close>

definition getUsernameByUid :: "(u32 \<Rightarrow> string option) \<Rightarrow> u32 \<Rightarrow> string" where
  "getUsernameByUid us uid = (case us uid of None \<Rightarrow> [] | Some s \<Rightarrow> s)"

definition time32 :: "int \<Rightarrow> u32" where
  "time32 t = word_of_int t"

definition stats_record :: "node \<Rightarrow> string \<Rightarrow> (u32 \<Rightarrow> string option) \<Rightarrow> singleStats_resp_t" where
  "stats_record n perms us =
     \<lparr>sgroup = getUsernameByUid us (a_gid (node_attr n)), owner = getUsernameByUid us (a_uid (node_attr n)),
      creationTime = time32 (a_ctime (node_attr n)), lastAccessTime = time32 (a_atime (node_attr n)),
      modificationTime = time32 (a_mtime (node_attr n)), sperms = s2b perms,
      ssize = of_nat (node_size n)\<rparr>"

text \<open>\<open>None\<close> is the result -1. The group name is looked up in the user database, as in the code.\<close>

definition osStat :: "string \<Rightarrow> singleStats_resp_t option io" where
  "osStat filepath =
     bnd (io_query (sys_lstat filepath)) (\<lambda>r.
     case r of
       None \<Rightarrow> ret None
     | Some n \<Rightarrow>
         bnd (get users) (\<lambda>us.
         bnd (getPermissions filepath (st_mode n)) (\<lambda>perms. ret (Some (stats_record n perms us)))))"

definition stats_of :: "string \<Rightarrow> fs \<Rightarrow> (u32 \<Rightarrow> string option) \<Rightarrow> singleStats_resp_t option" where
  "stats_of p f us =
     (case sys_lstat p f of Inl e \<Rightarrow> None | Inr n \<Rightarrow> Some (stats_record n (permissions_of p (st_mode n) f) us))"

lemma quiet_osStat: "quiet (osStat p) (stats_of p)"
proof (rule quiet_cong)
  show "quiet (osStat p) (\<lambda>f u. case (case sys_lstat p f of Inl e \<Rightarrow> None | Inr n \<Rightarrow> Some n) of
      None \<Rightarrow> None | Some n \<Rightarrow> Some (stats_record n (permissions_of p (st_mode n) f) u))"
    unfolding osStat_def
    by (intro quiet_bnd quiet_query quiet_option quiet_ret quiet_users quiet_getPermissions)
qed (simp add: stats_of_def split: sum.splits)

definition zero_stats :: singleStats_resp_t where
  "zero_stats = \<lparr>sgroup = [], owner = [], creationTime = 0, lastAccessTime = 0, modificationTime = 0,
     sperms = replicate 10 0, ssize = 0\<rparr>"

text \<open>0: cannot be examined, 1: a file (or link, or special file), 2: a directory.\<close>

definition existsIsFileIsDir0_st :: "string \<Rightarrow> (nat \<times> singleStats_resp_t) io" where
  "existsIsFileIsDir0_st filepath =
     bnd (osStat filepath) (\<lambda>r. ret (case r of
       None \<Rightarrow> (0, zero_stats)
     | Some st \<Rightarrow> (if hd (b2s (sperms st)) = CHR ''d'' then 2 else 1, st)))"

definition existsIsFileIsDir0 :: "string \<Rightarrow> nat io" where
  "existsIsFileIsDir0 filepath = bnd (existsIsFileIsDir0_st filepath) (\<lambda>r. ret (fst r))"

definition efd_of :: "string \<Rightarrow> fs \<Rightarrow> nat" where
  "efd_of p f = (case sys_lstat p f of Inl e \<Rightarrow> 0 | Inr n \<Rightarrow> if is_dir n then 2 else 1)"

definition efd_stats :: "string \<Rightarrow> fs \<Rightarrow> (u32 \<Rightarrow> string option) \<Rightarrow> singleStats_resp_t" where
  "efd_stats p f us = (case stats_of p f us of None \<Rightarrow> zero_stats | Some st \<Rightarrow> st)"

lemma hd_sperms_d:
  "hd (b2s (sperms (stats_record n (permissions_of p (st_mode n) f) us))) = CHR ''d'' \<longleftrightarrow> is_dir n"
proof -
  have "permissions_of p (st_mode n) f ! 0 = CHR ''d'' \<longleftrightarrow> is_dir n"
    by (simp add: permissions_of_def perm_string_d)
  moreover have "permissions_of p (st_mode n) f \<noteq> []"
    by (metis length_permissions_of length_0_conv zero_neq_numeral)
  ultimately show ?thesis
    by (simp add: stats_record_def hd_conv_nth)
qed

lemma quiet_existsIsFileIsDir0_st:
  "quiet (existsIsFileIsDir0_st p) (\<lambda>f u. (efd_of p f, efd_stats p f u))"
proof (rule quiet_cong)
  show "quiet (existsIsFileIsDir0_st p) (\<lambda>f u. case stats_of p f u of None \<Rightarrow> (0, zero_stats)
      | Some st \<Rightarrow> (if hd (b2s (sperms st)) = CHR ''d'' then 2 else 1, st))"
    unfolding existsIsFileIsDir0_st_def by (intro quiet_bnd quiet_osStat quiet_ret)
qed (simp add: efd_of_def efd_stats_def stats_of_def hd_sperms_d split: sum.splits)

lemma quiet_existsIsFileIsDir0: "quiet (existsIsFileIsDir0 p) (\<lambda>f u. efd_of p f)"
  unfolding existsIsFileIsDir0_def
  by (rule quiet_cong [OF quiet_bnd [OF quiet_existsIsFileIsDir0_st quiet_ret]]) simp

definition osGetSize_file :: "string \<Rightarrow> u64 io" where
  "osGetSize_file filepath =
     bnd (io_query (sys_lstat filepath)) (\<lambda>r.
     ret (case r of None \<Rightarrow> 0 | Some n \<Rightarrow> if S_ISDIR (st_mode n) then 0 else of_nat (node_size n)))"

definition size_of :: "string \<Rightarrow> fs \<Rightarrow> u64" where
  "size_of p f = (case sys_lstat p f of Inl e \<Rightarrow> 0 | Inr n \<Rightarrow> if is_dir n then 0 else of_nat (node_size n))"

lemma quiet_osGetSize_file: "quiet (osGetSize_file p) (\<lambda>f u. size_of p f)"
proof (rule quiet_cong)
  show "quiet (osGetSize_file p) (\<lambda>f u. case (case sys_lstat p f of Inl e \<Rightarrow> None | Inr n \<Rightarrow> Some n) of
      None \<Rightarrow> 0 | Some n \<Rightarrow> if S_ISDIR (st_mode n) then 0 else of_nat (node_size n))"
    unfolding osGetSize_file_def by (intro quiet_bnd quiet_query quiet_ret)
qed (simp add: size_of_def split: sum.splits)

definition assemble_ls_resp_from_filepath :: "string \<Rightarrow> string \<Rightarrow> bool \<Rightarrow> ls_resp_t option io" where
  "assemble_ls_resp_from_filepath filepath nameOnly fullPathAsName =
     bnd (io_query (sys_lstat filepath)) (\<lambda>r.
     case r of
       None \<Rightarrow> ret None
     | Some n \<Rightarrow>
         bnd (getPermissions filepath (st_mode n)) (\<lambda>perms.
         ret (Some \<lparr>filename = if fullPathAsName then filepath else nameOnly,
                    date = time32 (a_mtime (node_attr n)), permissions = s2b perms,
                    lsize = of_nat (node_size n)\<rparr>)))"

definition ls_entry_of :: "string \<Rightarrow> string \<Rightarrow> bool \<Rightarrow> fs \<Rightarrow> ls_resp_t option" where
  "ls_entry_of p nm full f =
     (case sys_lstat p f of Inl e \<Rightarrow> None
      | Inr n \<Rightarrow> Some \<lparr>filename = if full then p else nm, date = time32 (a_mtime (node_attr n)),
                        permissions = s2b (permissions_of p (st_mode n) f), lsize = of_nat (node_size n)\<rparr>)"

lemma quiet_assemble: "quiet (assemble_ls_resp_from_filepath p nm full) (\<lambda>f u. ls_entry_of p nm full f)"
proof (rule quiet_cong)
  show "quiet (assemble_ls_resp_from_filepath p nm full)
    (\<lambda>f u. case (case sys_lstat p f of Inl e \<Rightarrow> None | Inr n \<Rightarrow> Some n) of None \<Rightarrow> None
     | Some n \<Rightarrow> Some \<lparr>filename = if full then p else nm, date = time32 (a_mtime (node_attr n)),
                        permissions = s2b (permissions_of p (st_mode n) f), lsize = of_nat (node_size n)\<rparr>)"
    unfolding assemble_ls_resp_from_filepath_def
    by (intro quiet_bnd quiet_query quiet_option quiet_ret quiet_getPermissions)
qed (simp add: ls_entry_of_def split: sum.splits)

text \<open>\<open>isDirectoryEmpty\<close>: -1 when the directory cannot be opened, else whether it is empty.\<close>

definition isDirectoryEmpty :: "string \<Rightarrow> int io" where
  "isDirectoryEmpty dirname =
     bnd (io_query (sys_listdir dirname)) (\<lambda>r.
     ret (case r of None \<Rightarrow> - 1 | Some names \<Rightarrow> if length names \<le> 2 then 1 else 0))"

definition empty_of :: "string \<Rightarrow> fs \<Rightarrow> int" where
  "empty_of p f = (case sys_listdir p f of Inl e \<Rightarrow> - 1 | Inr names \<Rightarrow> if length names \<le> 2 then 1 else 0)"

lemma quiet_isDirectoryEmpty: "quiet (isDirectoryEmpty p) (\<lambda>f u. empty_of p f)"
proof (rule quiet_cong)
  show "quiet (isDirectoryEmpty p) (\<lambda>f u. case (case sys_listdir p f of Inl e \<Rightarrow> None | Inr n \<Rightarrow> Some n) of
      None \<Rightarrow> - 1 | Some names \<Rightarrow> if length names \<le> 2 then 1 else 0)"
    unfolding isDirectoryEmpty_def by (intro quiet_bnd quiet_query quiet_ret)
qed (simp add: empty_of_def split: sum.splits)

text \<open>
  What \<open>existsIsFileIsDir0\<close> answers is decided by \<open>lstat\<close> alone: 0 when it fails, 2 for a
  directory, 1 for anything else, a symbolic link to a directory included; the file system and the
  connections are not touched.
\<close>

theorem existsIsFileIsDir_lstat:
  "\<exists>e. existsIsFileIsDir0 p w
     = (Ret (case sys_lstat p (wfs w) of Inl x \<Rightarrow> 0 | Inr n \<Rightarrow> if is_dir n then 2 else 1), w\<lparr>errno := e\<rparr>)"
  using quietD [OF quiet_existsIsFileIsDir0, of p w] by (simp add: efd_of_def)

subsection \<open>Nearest ancestor\<close>

function nearest_from :: "string \<Rightarrow> node option io" where
  "nearest_from currentAncestor =
     (let parent = getParentDir currentAncestor in
      if parent = [] then ret None
      else bnd (io_query (sys_stat parent)) (\<lambda>r.
           case r of Some n \<Rightarrow> ret (Some n) | None \<Rightarrow> nearest_from parent))"
  by pat_completeness auto
termination
proof (relation "measure length")
  fix c p :: string
  assume p: "p = getParentDir c" "p \<noteq> []"
  then have "c \<noteq> []" by (auto simp: getParentDir_def getSystemPathSeparator_def)
  with p show "(p, c) \<in> measure length" by (simp add: getParentDir_shorter)
qed simp

definition statNearestAncestor :: "string \<Rightarrow> node option io" where
  "statNearestAncestor path =
     bnd (io_query (sys_stat path)) (\<lambda>r. case r of Some n \<Rightarrow> ret (Some n) | None \<Rightarrow> nearest_from path)"

declare nearest_from.simps [simp del]

text \<open>
  The search for an existing ancestor never reaches the root directory: for a name directly
  below it that does not exist it fails, although \<open>/\<close> exists. An upload to a new directory of the
  root directory therefore ends the session.
\<close>

theorem statNearestAncestor_misses_root:
  assumes "CHR ''/'' \<notin> set name" and "sys_stat (CHR ''/'' # name) (wfs w) = Inl e"
  shows "statNearestAncestor (CHR ''/'' # name) w = (Ret None, w\<lparr>errno := e\<rparr>)"
  using assms
  by (simp add: statNearestAncestor_def bnd_app io_query_def nearest_from.simps getParentDir_top ret_app)

theorem statNearestAncestor_misses_root_witness:
  "statNearestAncestor ''/new'' world0 = (Ret None, world0\<lparr>errno := ENOENT\<rparr>) \<and> is_dir (root (wfs world0))"
  using statNearestAncestor_misses_root [of "''new''" world0 ENOENT]
  by (simp add: sys_stat_def stat_gen_def faulty_def resolve_def split_path_def)

subsection \<open>File types\<close>

datatype file_type = DT_DIR | DT_LNK | DT_REG | DT_CHR

text \<open>
  \<open>getFileType\<close> (\<open>stat\<close> follows links, so \<open>DT_LNK\<close> is never returned; special files are all
  character devices in the model). \<open>None\<close> is -1.
\<close>

definition getFileType :: "string \<Rightarrow> (file_type \<times> node) option io" where
  "getFileType filepath =
     bnd (io_query (sys_stat filepath)) (\<lambda>r.
     ret (map_option (\<lambda>n. (let m = st_mode n AND S_IFMT in
       if m = S_IFDIR then DT_DIR else if m = S_IFLNK then DT_LNK else if m = S_IFREG then DT_REG else DT_CHR, n)) r))"

end
