(* ===== verification/RH_Mkpath.thy ===== *)
theory RH_Mkpath
  imports RH_Files
begin

section \<open>Creating directories\<close>

text \<open>
  \<open>mkpath\<close> and \<open>mkpathCopyPermissionsFromNearestAncestor\<close> of Utils.h, \<open>renamePathMakeAncestors\<close> of
  r.cpp. The main result is that \<open>mkpath\<close> creates every missing directory on the way and damages
  nothing.
\<close>

text \<open>The loop over the positions of \<open>s\<close>; \<open>True\<close> from \<open>mkdir\<close> is success.\<close>

primrec mkpath_loop :: "string \<Rightarrow> u32 \<Rightarrow> bool \<Rightarrow> nat list \<Rightarrow> int io" where
  "mkpath_loop s mode exist_ok [] = ret 0"
| "mkpath_loop s mode exist_ok (i # is) =
     (if s ! i = CHR ''/'' then
        bnd (io_update (sys_mkdir (take i s) mode)) (\<lambda>ok.
        if ok then mkpath_loop s mode exist_ok is
        else bnd (get errno) (\<lambda>e.
             if (\<not> exist_ok \<and> i = length s - 1) \<or> e \<noteq> EEXIST then ret (- 1)
             else mkpath_loop s mode exist_ok is))
      else mkpath_loop s mode exist_ok is)"

definition mkpath :: "string \<Rightarrow> u32 \<Rightarrow> bool \<Rightarrow> int io" where
  "mkpath s0 mode exist_ok =
     (if s0 = ''.'' \<or> s0 = ''/'' then ret 0
      else let s = s0 @ ''/'' in
        if hd s \<noteq> CHR ''/'' then ret (- 1)
        else mkpath_loop s mode exist_ok [1..<length s])"

definition mkpathCopyPermissionsFromNearestAncestor :: "string \<Rightarrow> bool \<Rightarrow> int io" where
  "mkpathCopyPermissionsFromNearestAncestor dirPath exist_ok =
     bnd (existsIsFileIsDir0_st dirPath) (\<lambda>(r, str).
     if hd (b2s (sperms str)) = CHR ''d'' \<or> hd (b2s (sperms str)) = CHR ''L'' then
       (if \<not> exist_ok then thn (set_errno EEXIST) (ret (- 1)) else ret 0)
     else if r = 1 then thn (set_errno EEXIST) (ret (- 1))
     else bnd (statNearestAncestor dirPath) (\<lambda>a.
       case a of None \<Rightarrow> ret (- 1) | Some n \<Rightarrow> mkpath dirPath (st_mode n) exist_ok))"

definition renamePathMakeAncestors :: "string \<Rightarrow> string \<Rightarrow> int io" where
  "renamePathMakeAncestors oldPath newPath =
     (let parent = getParentDir newPath;
          do_rename = bnd (io_update (sys_rename oldPath newPath)) (\<lambda>ok. ret (if ok then 0 else - 1)) in
      bnd (existsIsFileIsDir0 parent) (\<lambda>efd_parent.
      if efd_parent = 0 then
        bnd (mkpathCopyPermissionsFromNearestAncestor parent True) (\<lambda>r. if r \<noteq> 0 then ret (- 1) else do_rename)
      else if efd_parent = 1 then thn (set_errno EEXIST) (ret (- 1))
      else if efd_parent = 2 then do_rename
      else thn (set_errno EINVAL) (ret (- 1))))"

subsection \<open>The positions where mkpath calls mkdir\<close>

lemma mkpath_loop_filter:
  "mkpath_loop s mode eo is = mkpath_loop s mode eo (filter (\<lambda>i. s ! i = CHR ''/'') is)"
  by (induction "is") (simp_all cong: if_cong)

lemma slash_positions:
  "(\<forall>c \<in> set cs. CHR ''/'' \<notin> set c) \<Longrightarrow>
   filter (\<lambda>i. (abs_path cs @ ''/'') ! i = CHR ''/'') [1..<Suc (length (abs_path cs))]
     = map (\<lambda>k. length (abs_path (take k cs))) [1..<Suc (length cs)]"
proof (induction cs rule: rev_induct)
  case Nil
  then show ?case by simp
next
  case (snoc c cs)
  let ?L = "length (abs_path cs)"
  let ?s = "abs_path (cs @ [c]) @ ''/''"
  have s: "?s = (abs_path cs @ ''/'') @ c @ ''/''" by simp
  have idx: "[1..<Suc (length (abs_path (cs @ [c])))]
      = [1..<Suc ?L] @ [Suc ?L..<Suc ?L + length c] @ [Suc ?L + length c]"
  proof -
    have "length (abs_path (cs @ [c])) = Suc ?L + length c" by simp
    moreover have "[1..<Suc (Suc ?L + length c)] = [1..<Suc ?L + length c] @ [Suc ?L + length c]" by simp
    moreover have "[1..<Suc ?L + length c] = [1..<Suc ?L] @ [Suc ?L..<Suc ?L + length c]"
      by (rule upt_add_eq_append) simp
    ultimately show ?thesis by simp
  qed
  have A: "filter (\<lambda>i. ?s ! i = CHR ''/'') [1..<Suc ?L]
      = map (\<lambda>k. length (abs_path (take k cs))) [1..<Suc (length cs)]"
  proof -
    have "filter (\<lambda>i. ?s ! i = CHR ''/'') [1..<Suc ?L]
        = filter (\<lambda>i. (abs_path cs @ ''/'') ! i = CHR ''/'') [1..<Suc ?L]"
      by (rule filter_cong) (auto simp: s nth_append less_Suc_eq)
    with snoc show ?thesis by simp
  qed
  have B: "filter (\<lambda>i. ?s ! i = CHR ''/'') [Suc ?L..<Suc ?L + length c] = []"
  proof -
    have "?s ! i \<noteq> CHR ''/''" if "Suc ?L \<le> i" "i < Suc ?L + length c" for i
    proof -
      have "i - Suc ?L < length c" using that by linarith
      then have "?s ! i = c ! (i - Suc ?L)" using that by (simp add: nth_append)
      moreover have "c ! (i - Suc ?L) \<in> set c" using that by (intro nth_mem) simp
      ultimately show ?thesis using snoc.prems by auto
    qed
    then show ?thesis by (auto simp: filter_empty_conv simp del: upt_Suc)
  qed
  have C: "?s ! (Suc ?L + length c) = CHR ''/''" by (simp add: nth_append)
  have "map (\<lambda>k. length (abs_path (take k (cs @ [c])))) [1..<Suc (length cs)]
      = map (\<lambda>k. length (abs_path (take k cs))) [1..<Suc (length cs)]"
    by (rule map_cong) auto
  then have D: "map (\<lambda>k. length (abs_path (take k (cs @ [c])))) [1..<Suc (length (cs @ [c]))]
      = map (\<lambda>k. length (abs_path (take k cs))) [1..<Suc (length cs)] @ [Suc ?L + length c]"
    by simp
  show ?case
    unfolding D idx filter_append A B by (simp only: filter.simps C if_True append_Nil simp_thms)
qed

lemma take_abs_path: "k \<le> length cs \<Longrightarrow> take (length (abs_path (take k cs))) (abs_path cs @ ''/'') = abs_path (take k cs)"
  by (metis abs_path_append append_assoc append_take_drop_id take_append_len)

lemma mkpath_abs:
  assumes "\<forall>c \<in> set cs. good_name c" "cs \<noteq> []"
  shows "mkpath (abs_path cs) mode eo
    = mkpath_loop (abs_path cs @ ''/'') mode eo (map (\<lambda>k. length (abs_path (take k cs))) [1..<Suc (length cs)])"
proof -
  have ns: "\<forall>c \<in> set cs. CHR ''/'' \<notin> set c" using assms by (auto simp: good_name_def)
  have "abs_path cs \<noteq> ''.''" "abs_path cs \<noteq> ''/''"
    using assms by (cases cs; auto simp: good_name_def)+
  then have "mkpath (abs_path cs) mode eo
      = mkpath_loop (abs_path cs @ ''/'') mode eo [1..<Suc (length (abs_path cs))]"
    using assms hd_abs_path [OF assms(2)] by (simp add: mkpath_def Let_def del: upt_Suc)
  also have "\<dots> = mkpath_loop (abs_path cs @ ''/'') mode eo
      (filter (\<lambda>i. (abs_path cs @ ''/'') ! i = CHR ''/'') [1..<Suc (length (abs_path cs))])"
    by (rule mkpath_loop_filter)
  finally show ?thesis by (simp only: slash_positions [OF ns])
qed

subsection \<open>What it does to the tree\<close>

text \<open>Every file (or link, or special file) that existed still exists, unchanged.\<close>

definition files_kept :: "node \<Rightarrow> node \<Rightarrow> bool" where
  "files_kept t t' \<longleftrightarrow> (\<forall>ys n. lookup t ys = Some n \<longrightarrow> \<not> is_dir n \<longrightarrow> lookup t' ys = Some n)"

lemma files_kept_refl: "files_kept t t"
  by (simp add: files_kept_def)

lemma files_kept_trans: "\<lbrakk>files_kept t u; files_kept u v\<rbrakk> \<Longrightarrow> files_kept t v"
  by (simp add: files_kept_def)

lemma lookup_prefix_dir:
  "\<lbrakk>lookup t (xs @ ys) = Some n; ys \<noteq> []\<rbrakk> \<Longrightarrow> \<exists>a es. lookup t xs = Some (Dir a es)"
proof (induction xs arbitrary: t)
  case Nil
  then show ?case by (cases t; cases ys) auto
next
  case (Cons x xs)
  then show ?case by (auto split: option.splits)
qed

lemma files_kept_put:
  assumes "lookup t l = None"
  shows "files_kept t (put_at l d t)"
  unfolding files_kept_def
proof (intro allI impI)
  fix ys n
  assume ys: "lookup t ys = Some n" "\<not> is_dir n"
  show "lookup (put_at l d t) ys = Some n"
  proof (cases "disjoint_loc l ys")
    case True
    with ys show ?thesis by (simp add: lookup_put_disjoint)
  next
    case False
    then consider "take (length ys) l = ys" | "take (length l) ys = l" by (auto simp: disjoint_loc_def)
    then show ?thesis
    proof cases
      case 1
      show ?thesis
      proof (cases "lookup t (butlast l)")
        case None
        then show ?thesis using ys by (simp add: lookup_put_nodir)
      next
        case (Some m)
        from 1 obtain r where l: "l = ys @ r" by (metis append_take_drop_id)
        with assms ys have "r \<noteq> []" by auto
        with l have "butlast l = ys @ butlast r" by (simp add: butlast_append)
        with Some have m: "lookup t (ys @ butlast r) = Some m" by simp
        have "butlast r = []"
        proof (rule ccontr)
          assume "butlast r \<noteq> []"
          with lookup_prefix_dir [OF m] ys show False by auto
        qed
        with \<open>r \<noteq> []\<close> obtain c where r: "r = [c]" by (cases r) (auto split: if_splits)
        have "put_at (ys @ [c]) d t = t"
          using ys
        proof (induction ys arbitrary: t)
          case Nil
          then show ?case by (cases t) auto
        next
          case (Cons y ys)
          then show ?case by (cases t) (auto split: option.splits simp: update_triv)
        qed
        with l r ys show ?thesis by simp
      qed
    next
      case 2
      then obtain r where "ys = l @ r" by (metis append_take_drop_id)
      with ys assms show ?thesis by (simp add: lookup_append)
    qed
  qed
qed

lemma dir_kept_put:
  assumes "lookup t (butlast l) = Some (Dir a es)" "l \<noteq> []" "lookup t l = None" "\<exists>a es. lookup t ys = Some (Dir a es)"
  shows "\<exists>a es. lookup (put_at l d t) ys = Some (Dir a es)"
proof (cases "take (length ys) l = ys \<and> ys \<noteq> l")
  case True
  then obtain r where "l = ys @ r" "r \<noteq> []" by (metis append_Nil2 append_take_drop_id)
  moreover have "lookup (put_at l d t) l = Some d"
    using assms(1) by (rule lookup_put_same) simp
  ultimately show ?thesis using lookup_prefix_dir by blast
next
  case False
  moreover have "ys \<noteq> l" using assms by auto
  moreover have "take (length l) ys \<noteq> l"
  proof
    assume "take (length l) ys = l"
    then obtain r where "ys = l @ r" by (metis append_take_drop_id)
    with assms show False by (auto simp: lookup_append)
  qed
  ultimately have "disjoint_loc l ys" by (simp add: disjoint_loc_def)
  with assms show ?thesis by (simp add: lookup_put_disjoint)
qed

text \<open>
  \<open>grown cs t t'\<close>: \<open>t'\<close> is \<open>t\<close> with directories added at ancestors of \<open>cs\<close> (or at \<open>cs\<close>), and
  nothing else changed.
\<close>

definition grown :: "string list \<Rightarrow> node \<Rightarrow> node \<Rightarrow> bool" where
  "grown cs t t' \<longleftrightarrow>
     (\<forall>ys. lookup t ys = None \<longrightarrow>
        lookup t' ys = None \<or> take (length ys) cs = ys \<and> (\<exists>a es. lookup t' ys = Some (Dir a es)))
   \<and> (\<forall>ys n. lookup t ys = Some n \<longrightarrow>
        (if is_dir n then \<exists>a es. lookup t' ys = Some (Dir a es) else lookup t' ys = Some n))"

lemma grown_refl: "grown cs t t"
  unfolding grown_def by (auto elim: is_dir.elims)

lemma grown_trans:
  assumes "grown cs t u" "grown cs u v"
  shows "grown cs t v"
  using assms unfolding grown_def by (metis is_dir.simps(1))

lemma grown_files: "grown cs t t' \<Longrightarrow> files_kept t t'"
  by (auto simp: grown_def files_kept_def)

text \<open>A new node without entries below an existing directory.\<close>

lemma put_new_None:
  assumes "lookup t (butlast l) = Some (Dir a es)" "l \<noteq> []" "lookup t l = None" "dir_entries d = []"
    "lookup t ys = None" "ys \<noteq> l"
  shows "lookup (put_at l d t) ys = None"
proof (cases "disjoint_loc l ys")
  case True
  with assms(5) show ?thesis by (simp add: lookup_put_disjoint)
next
  case False
  then consider "take (length ys) l = ys" | "take (length l) ys = l" by (auto simp: disjoint_loc_def)
  then show ?thesis
  proof cases
    case 1
    then obtain r where l: "l = ys @ r" by (metis append_take_drop_id)
    with assms(6) have "r \<noteq> []" by auto
    with l have "butlast l = ys @ butlast r" by (simp add: butlast_append)
    with assms(1,5) show ?thesis by (simp add: lookup_append)
  next
    case 2
    then obtain r where r: "ys = l @ r" by (metis append_take_drop_id)
    with assms(6) obtain c r' where "r = c # r'" by (cases r) auto
    with r assms(1,4) show ?thesis by (simp add: lookup_append lookup_put_same)
  qed
qed

lemma grown_put:
  assumes "lookup t (butlast l) = Some (Dir a es)" "l \<noteq> []" "lookup t l = None" "take (length l) cs = l"
  shows "grown cs t (put_at l (Dir b []) t)"
  unfolding grown_def
proof (intro conjI allI impI)
  fix ys
  assume "lookup t ys = None"
  then show "lookup (put_at l (Dir b []) t) ys = None
      \<or> take (length ys) cs = ys \<and> (\<exists>a es. lookup (put_at l (Dir b []) t) ys = Some (Dir a es))"
    using put_new_None [OF assms(1-3), of "Dir b []" ys] lookup_put_same [OF assms(1)] assms(4) by (cases "ys = l") auto
next
  fix ys n
  assume n: "lookup t ys = Some n"
  show "if is_dir n then \<exists>a es. lookup (put_at l (Dir b []) t) ys = Some (Dir a es) else lookup (put_at l (Dir b []) t) ys = Some n"
  proof (cases "is_dir n")
    case True
    then obtain a' es' where "n = Dir a' es'" by (cases n) auto
    with n have "\<exists>a es. lookup t ys = Some (Dir a es)" by auto
    with True dir_kept_put [OF assms(1-3)] show ?thesis by simp
  next
    case False
    with n files_kept_put [OF assms(3), of "Dir b []"] show ?thesis by (simp add: files_kept_def)
  qed
qed

subsection \<open>mkpath creates every directory on the way\<close>

definition no_faults :: "fs \<Rightarrow> bool" where
  "no_faults f \<longleftrightarrow> (\<forall>c p. faults f c p = 0)"

lemma no_faults_root [simp]: "no_faults (f\<lparr>root := t\<rparr>) = no_faults f"
  by (simp add: no_faults_def)

lemma no_faults_faulty: "no_faults f \<Longrightarrow> \<not> faulty f c p"
  by (simp add: no_faults_def faulty_def)

lemma new_attr_root [simp]: "new_attr m (f\<lparr>root := t\<rparr>) = new_attr m f"
  by (simp add: new_attr_def)

text \<open>Every proper ancestor of the location is missing or a directory, and it is not a link itself.\<close>

definition way_free :: "node \<Rightarrow> string list \<Rightarrow> bool" where
  "way_free t cs \<longleftrightarrow> (\<forall>k < length cs. lookup t (take k cs) = None \<or> (\<exists>a es. lookup t (take k cs) = Some (Dir a es)))"

lemma mkdir_step:
  assumes "no_faults f" "\<forall>c \<in> set cs. good_name c" "cs \<noteq> []" "dirs_above (root f) cs"
  shows "sys_mkdir (abs_path cs) mode f =
    (if lookup (root f) cs = None then (0, f\<lparr>root := put_at cs (Dir (new_attr mode f) []) (root f)\<rparr>)
     else (EEXIST, f))"
proof (cases "lookup (root f) cs")
  case None
  then show ?thesis using assms by (simp add: sys_mkdir_def no_faults_faulty resolve_plain_Missing)
next
  case (Some n)
  then show ?thesis using assms by (simp add: sys_mkdir_def no_faults_faulty resolve_plain_Found)
qed

lemma way_free_dir:
  "\<lbrakk>way_free t cs; j < length cs; lookup t (take j cs) \<noteq> None\<rbrakk> \<Longrightarrow> \<exists>a es. lookup t (take j cs) = Some (Dir a es)"
  by (auto simp: way_free_def)

text \<open>One new directory in a tree where everything above it exists.\<close>

lemma new_dir_step:
  assumes "way_free t cs" "k < length cs" "\<forall>j \<le> k. lookup t (take j cs) \<noteq> None"
    and "lookup t (take (Suc k) cs) = None"
    and t'_def: "t' = put_at (take (Suc k) cs) (Dir a []) t"
  shows "(\<forall>j \<le> Suc k. lookup t' (take j cs) \<noteq> None) \<and> way_free t' cs \<and> grown cs t t'"
proof -
  let ?l = "take (Suc k) cs"
  have bl: "butlast ?l = take k cs" using assms(2) by (simp add: butlast_take)
  have above: "\<exists>a es. lookup t (take j cs) = Some (Dir a es)" if "j \<le> k" for j
    using assms that by (intro way_free_dir) auto
  have ne: "?l \<noteq> []" using assms(2) by (cases cs) auto
  obtain a1 es1 where parent: "lookup t (butlast ?l) = Some (Dir a1 es1)"
    using above [of k] bl by auto
  have low: "\<exists>a es. lookup t' (take j cs) = Some (Dir a es)" if "j \<le> k" for j
    unfolding t'_def using parent ne assms(4) above [OF that] by (rule dir_kept_put)
  have eq: "lookup t' ?l = Some (Dir a [])"
    unfolding t'_def using parent by (rule lookup_put_same) simp
  have high: "lookup t' (take j cs) = None" if "Suc k < j" "j \<le> length cs" for j
  proof -
    from that have "take j cs = ?l @ take (j - Suc k) (drop (Suc k) cs)"
      by (metis add_diff_inverse_nat less_imp_le_nat not_less take_add)
    moreover have "take (j - Suc k) (drop (Suc k) cs) \<noteq> []" using that by simp
    ultimately show ?thesis using eq by (cases "take (j - Suc k) (drop (Suc k) cs)") (auto simp: lookup_append)
  qed
  have "lookup t' (take j cs) \<noteq> None" if "j \<le> Suc k" for j
    using low [of j] eq that by (cases "j = Suc k") (auto simp: le_Suc_eq)
  moreover have "way_free t' cs"
    unfolding way_free_def
  proof (intro allI impI)
    fix j
    assume "j < length cs"
    then show "lookup t' (take j cs) = None \<or> (\<exists>a es. lookup t' (take j cs) = Some (Dir a es))"
      using low [of j] eq high [of j] by (cases "j \<le> k"; cases "j = Suc k") auto
  qed
  moreover have "grown cs t t'"
    unfolding t'_def using parent ne assms(4)
    by (rule grown_put) (use assms(2) in simp)
  ultimately show ?thesis by simp
qed

lemma mkpath_loop_run:
  assumes good: "\<forall>c \<in> set cs. good_name c"
  shows "\<lbrakk>k \<le> length cs; no_faults (wfs w); \<forall>j \<le> k. lookup (root (wfs w)) (take j cs) \<noteq> None;
      way_free (root (wfs w)) cs\<rbrakk> \<Longrightarrow>
    \<exists>e t. mkpath_loop (abs_path cs @ ''/'') mode True
        (map (\<lambda>k. length (abs_path (take k cs))) [Suc k..<Suc (length cs)]) w
      = (Ret 0, w\<lparr>errno := e, wfs := (wfs w)\<lparr>root := t\<rparr>\<rparr>)
      \<and> (\<forall>j \<le> length cs. lookup t (take j cs) \<noteq> None) \<and> way_free t cs \<and> grown cs (root (wfs w)) t"
proof (induction "length cs - k" arbitrary: k w)
  case 0
  then have k: "k = length cs" by simp
  have "mkpath_loop (abs_path cs @ ''/'') mode True [] w
      = (Ret 0, w\<lparr>errno := errno w, wfs := (wfs w)\<lparr>root := root (wfs w)\<rparr>\<rparr>)"
    by (simp add: ret_app)
  with 0 k grown_refl show ?case
    by (intro exI [of _ "errno w"] exI [of _ "root (wfs w)"]) simp
next
  case (Suc m)
  then have kn: "k < length cs" by simp
  let ?s = "abs_path cs @ ''/''" and ?l = "take (Suc k) cs" and ?t = "root (wfs w)"
  let ?i = "length (abs_path ?l)"
  let ?is = "map (\<lambda>k. length (abs_path (take k cs))) [Suc (Suc k)..<Suc (length cs)]"
  have idx: "map (\<lambda>k. length (abs_path (take k cs))) [Suc k..<Suc (length cs)] = ?i # ?is"
    using kn by (simp add: upt_conv_Cons)
  have tk: "take ?i ?s = abs_path ?l" using kn by (intro take_abs_path) simp
  have slash: "?s ! ?i = CHR ''/''"
  proof (cases "Suc k = length cs")
    case True
    then show ?thesis by simp
  next
    case False
    then obtain c r where "drop (Suc k) cs = c # r" using kn by (cases "drop (Suc k) cs") auto
    then have "abs_path cs = abs_path ?l @ CHR ''/'' # c @ abs_path r"
      by (metis abs_path.simps(2) abs_path_append append_take_drop_id)
    then show ?thesis by (simp add: nth_append)
  qed
  have good': "\<forall>c \<in> set ?l. good_name c" using good by (meson in_set_takeD)
  have above: "dirs_above ?t ?l"
    unfolding dirs_above_def
  proof (intro allI impI)
    fix j
    assume "j < length ?l"
    moreover have "length ?l = Suc k" using kn by simp
    ultimately have "j \<le> k" "take j ?l = take j cs" using kn by (auto simp: min_def)
    then show "\<exists>a es. lookup ?t (take j ?l) = Some (Dir a es)"
      using Suc.prems kn way_free_dir [of ?t cs j] by simp
  qed
  have ne: "?l \<noteq> []" using kn by (cases cs) auto
  note mk = mkdir_step [OF Suc.prems(2) good' ne above, of mode]
  show ?case
  proof (cases "lookup ?t ?l")
    case None
    let ?t' = "put_at ?l (Dir (new_attr mode (wfs w)) []) ?t"
    let ?w' = "w\<lparr>wfs := (wfs w)\<lparr>root := ?t'\<rparr>\<rparr>"
    have st: "(\<forall>j \<le> Suc k. lookup ?t' (take j cs) \<noteq> None) \<and> way_free ?t' cs \<and> grown cs ?t ?t'"
      by (rule new_dir_step [where a = "new_attr mode (wfs w)"]) (use Suc.prems kn None in simp_all)
    have "\<exists>e t. mkpath_loop ?s mode True ?is ?w' = (Ret 0, ?w'\<lparr>errno := e, wfs := (wfs ?w')\<lparr>root := t\<rparr>\<rparr>)
      \<and> (\<forall>j \<le> length cs. lookup t (take j cs) \<noteq> None) \<and> way_free t cs \<and> grown cs (root (wfs ?w')) t"
      using st Suc.prems Suc.hyps kn by (intro Suc.hyps) simp_all
    then obtain e t where r: "mkpath_loop ?s mode True ?is ?w' = (Ret 0, ?w'\<lparr>errno := e, wfs := (wfs ?w')\<lparr>root := t\<rparr>\<rparr>)"
      "\<forall>j \<le> length cs. lookup t (take j cs) \<noteq> None" "way_free t cs" "grown cs ?t' t"
      by auto
    then have "mkpath_loop ?s mode True (?i # ?is) w = (Ret 0, w\<lparr>errno := e, wfs := (wfs w)\<lparr>root := t\<rparr>\<rparr>)"
      using slash tk mk None by (simp add: bnd_app io_update_def)
    moreover have "grown cs ?t t" using st r(4) grown_trans by blast
    ultimately show ?thesis using r unfolding idx by blast
  next
    case (Some n)
    let ?w' = "w\<lparr>errno := EEXIST\<rparr>"
    have "\<forall>j \<le> Suc k. lookup ?t (take j cs) \<noteq> None"
      using Suc.prems(3) Some by (auto simp: le_Suc_eq)
    then have "\<exists>e t. mkpath_loop ?s mode True ?is ?w' = (Ret 0, ?w'\<lparr>errno := e, wfs := (wfs ?w')\<lparr>root := t\<rparr>\<rparr>)
      \<and> (\<forall>j \<le> length cs. lookup t (take j cs) \<noteq> None) \<and> way_free t cs \<and> grown cs (root (wfs ?w')) t"
      using Suc.prems Suc.hyps kn by (intro Suc.hyps) simp_all
    then obtain e t where r: "mkpath_loop ?s mode True ?is ?w' = (Ret 0, w\<lparr>errno := e, wfs := (wfs w)\<lparr>root := t\<rparr>\<rparr>)"
      "\<forall>j \<le> length cs. lookup t (take j cs) \<noteq> None" "way_free t cs" "grown cs ?t t"
      by auto
    have "EEXIST \<noteq> 0" by (simp add: EEXIST_def)
    then have "mkpath_loop ?s mode True (?i # ?is) w = (Ret 0, w\<lparr>errno := e, wfs := (wfs w)\<lparr>root := t\<rparr>\<rparr>)"
      using slash tk mk Some r by (simp add: bnd_app io_update_def get_app)
    then show ?thesis using r unfolding idx by blast
  qed
qed

lemma mkpath_run:
  assumes "\<forall>c \<in> set cs. good_name c" and "cs \<noteq> []" and "no_faults (wfs w)"
    and "way_free (root (wfs w)) cs"
  shows "\<exists>e t. mkpath (abs_path cs) mode True w = (Ret 0, w\<lparr>errno := e, wfs := (wfs w)\<lparr>root := t\<rparr>\<rparr>)
    \<and> dirs_above t cs \<and> lookup t cs \<noteq> None \<and> grown cs (root (wfs w)) t"
proof -
  have "\<forall>j \<le> 0. lookup (root (wfs w)) (take j cs) \<noteq> None" by simp
  then obtain e t where r: "mkpath (abs_path cs) mode True w = (Ret 0, w\<lparr>errno := e, wfs := (wfs w)\<lparr>root := t\<rparr>\<rparr>)"
      "\<forall>j \<le> length cs. lookup t (take j cs) \<noteq> None" "way_free t cs" "grown cs (root (wfs w)) t"
    using mkpath_loop_run [OF assms(1), of 0 w mode] mkpath_abs [OF assms(1,2), of mode True] assms
    by auto
  have "dirs_above t cs"
    unfolding dirs_above_def using r way_free_dir by auto
  moreover have "lookup t cs \<noteq> None" using r(2) by (metis order_refl take_all)
  ultimately show ?thesis using r by blast
qed

text \<open>
  C15: on a file system without faults, when every proper ancestor of an absolute path is missing or
  a directory, \<open>mkpath\<close> succeeds: afterwards the path and all its ancestors exist, all proper
  ancestors are directories, and no file that existed was changed or lost.
\<close>

theorem mkpath_creates_ancestors:
  assumes "\<forall>c \<in> set cs. good_name c" and "cs \<noteq> []" and "no_faults (wfs w)"
    and "way_free (root (wfs w)) cs"
  shows "\<exists>e t. mkpath (abs_path cs) mode True w = (Ret 0, w\<lparr>errno := e, wfs := (wfs w)\<lparr>root := t\<rparr>\<rparr>)
    \<and> dirs_above t cs \<and> lookup t cs \<noteq> None \<and> files_kept (root (wfs w)) t"
  using mkpath_run [OF assms] grown_files by blast

theorem mkpath_creates_ancestors_witness:
  "\<exists>e t. mkpath ''/a/b'' 493 True world0 = (Ret 0, world0\<lparr>errno := e, wfs := (wfs world0)\<lparr>root := t\<rparr>\<rparr>)
    \<and> dirs_above t [''a'', ''b''] \<and> lookup t [''a'', ''b''] \<noteq> None \<and> files_kept (root (wfs world0)) t"
proof -
  have "way_free (root (wfs world0)) [''a'', ''b'']" "no_faults (wfs world0)"
    by (auto simp: way_free_def no_faults_def less_Suc_eq)
  then show ?thesis
    using mkpath_creates_ancestors [of "[''a'', ''b'']" world0 493] by (simp add: good_name_def)
qed

text \<open>
  Moving to a target whose parent is the root directory always fails: the parent of \<open>/name\<close>
  is computed as the empty path, which neither exists nor can be created, so \<open>rename\<close> is not called.
\<close>

theorem rename_to_root_fails:
  assumes "CHR ''/'' \<notin> set name" and "no_faults (wfs w)"
  shows "renamePathMakeAncestors oldPath (CHR ''/'' # name) w = (Ret (- 1), w\<lparr>errno := ENOENT\<rparr>)"
proof -
  have "sys_lstat [] f = Inl ENOENT" "sys_stat [] f = Inl ENOENT" if "no_faults f" for f
    using that by (simp_all add: sys_lstat_def sys_stat_def stat_gen_def no_faults_faulty resolve_def)
  moreover have "hd (b2s (sperms zero_stats)) \<noteq> CHR ''d''" "hd (b2s (sperms zero_stats)) \<noteq> CHR ''L''"
    by (simp_all add: zero_stats_def b2s_def numeral_eq_Suc char_of_def)
  moreover have "getParentDir [] = []" by (simp add: getParentDir_def getSystemPathSeparator_def)
  ultimately show ?thesis
    using assms
    by (simp add: renamePathMakeAncestors_def Let_def getParentDir_top existsIsFileIsDir0_def existsIsFileIsDir0_st_def
        osStat_def io_query_def bnd_app ret_app mkpathCopyPermissionsFromNearestAncestor_def
        statNearestAncestor_def nearest_from.simps)
qed

theorem rename_to_root_fails_witness:
  "renamePathMakeAncestors ''/tmp/x'' ''/x'' world0 = (Ret (- 1), world0\<lparr>errno := ENOENT\<rparr>)"
  using rename_to_root_fails [of "''x''" world0 "''/tmp/x''"] by (simp add: no_faults_def)

end
