(* ===== verification/RH_Iter.thy ===== *)
theory RH_Iter
  imports RH_Mkpath "HOL-Library.List_Lexorder" "HOL-Library.Char_ord"
begin

section \<open>Directory iterators and what is computed with them\<close>

text \<open>
  diriterator/IdirIterator.h and readdirIterator.h: an explicit stack of the entries still to be
  visited, in four listing modes. Then the functions of Utils.h that count files and sizes with
  it. The number of rounds of the visiting loop is bounded by fuel: the length of the stack for a
  plain listing (enough, because nothing is pushed), and a bound in the size of the whole tree for
  the modes that descend.
\<close>

datatype IterationMode = FULL | RELATIVE_WITHOUT_BASE | RELATIVE_INCL_BASE
datatype ListingMode = PLAIN | RECURSIVE | RECURSIVE_FOLLOW_SYMLINKS | SMART_SYMLINK_RESOLUTION

record dirIterator =
  it_dir :: string
  it_mode :: IterationMode
  it_names :: bool
  it_listing :: ListingMode
  it_sort :: bool
  it_filter :: "string \<Rightarrow> bool"
  it_rootLen :: nat
  it_stack :: "(string \<times> string) list"
  it_current :: string
  it_currentName :: string
  it_currentEfd :: char
  it_error :: int

definition efdL :: "string \<Rightarrow> char io" where
  "efdL path =
     bnd (io_query (sys_lstat path)) (\<lambda>r. case r of
       None \<Rightarrow> ret (CHR 0x00)
     | Some n \<Rightarrow>
         if S_ISLNK (st_mode n) then
           bnd (io_query (sys_stat path)) (\<lambda>s. case s of
             None \<Rightarrow> ret (CHR 0x00)
           | Some m \<Rightarrow> if S_ISDIR (st_mode m) then ret CHR ''L'' else ret (CHR 0x01))
         else if S_ISDIR (st_mode n) then ret CHR ''d'' else ret (CHR 0x01))"

definition smartVisitSymlink :: "string \<Rightarrow> string \<Rightarrow> char \<Rightarrow> bool io" where
  "smartVisitSymlink dir link e =
     (if e = CHR ''d'' then ret True
      else if e = CHR ''L'' then
        bnd (io_query (sys_readlink link)) (\<lambda>r. case r of
          None \<Rightarrow> ret False
        | Some target \<Rightarrow> if starts_with link target then ret False
                         else if starts_with dir target then ret False else ret True)
      else ret False)"

text \<open>\<open>listOnStack\<close>: the entries in the order in which they are pushed, then the stack after it.\<close>

definition level_entries :: "dirIterator \<Rightarrow> string list \<Rightarrow> string \<Rightarrow> (string \<times> string) list" where
  "level_entries it names current =
     (let level = map (\<lambda>n. (current @ ''/'' @ n, n)) (filter (\<lambda>n. n \<noteq> ''.'' \<and> n \<noteq> ''..'' \<and> it_filter it n) names)
      in if it_sort it then sort_key snd level else level)"

definition listOnStack :: "dirIterator \<Rightarrow> string list \<Rightarrow> string \<Rightarrow> dirIterator" where
  "listOnStack it names current =
     (let level = level_entries it names current in
      if level = [] then it\<lparr>it_currentEfd := CHR ''@''\<rparr>
      else it\<lparr>it_stack := rev level @ it_stack it\<rparr>)"

definition createIterator :: "string \<Rightarrow> IterationMode \<Rightarrow> bool \<Rightarrow> ListingMode \<Rightarrow> bool \<Rightarrow> (string \<Rightarrow> bool) \<Rightarrow> dirIterator io" where
  "createIterator dir mode names listing sortByName flt =
     (let rl = (case mode of
                  FULL \<Rightarrow> 0
                | RELATIVE_WITHOUT_BASE \<Rightarrow> length dir + 1
                | RELATIVE_INCL_BASE \<Rightarrow> (case find_last CHR ''/'' dir of Some i \<Rightarrow> i | None \<Rightarrow> length dir) + 1);
          it = \<lparr>it_dir = dir, it_mode = mode, it_names = names, it_listing = listing, it_sort = sortByName,
                it_filter = flt, it_rootLen = rl, it_stack = [], it_current = [], it_currentName = [],
                it_currentEfd = CHR 0x00, it_error = 0\<rparr> in
      if \<not> (dir \<noteq> [] \<and> hd dir = CHR ''/'') then thn (set_errno EINVAL) (ret (it\<lparr>it_error := EINVAL\<rparr>))
      else thn (set_errno 0) (bnd (io_query (sys_listdir dir)) (\<lambda>r. case r of
             None \<Rightarrow> bnd (get errno) (\<lambda>e. ret (it\<lparr>it_error := e\<rparr>))
           | Some ns \<Rightarrow> ret (listOnStack it ns dir))))"

definition it_ok :: "dirIterator \<Rightarrow> bool" where
  "it_ok it \<longleftrightarrow> it_error it = 0"

definition descends :: "dirIterator \<Rightarrow> string \<Rightarrow> char \<Rightarrow> bool io" where
  "descends it current e =
     (case it_listing it of
        PLAIN \<Rightarrow> ret False
      | RECURSIVE \<Rightarrow> ret (e = CHR ''d'')
      | RECURSIVE_FOLLOW_SYMLINKS \<Rightarrow> ret (e = CHR ''d'' \<or> e = CHR ''L'')
      | SMART_SYMLINK_RESOLUTION \<Rightarrow>
          if e = CHR ''d'' \<or> e = CHR ''L'' then smartVisitSymlink (it_dir it) current e else ret False)"

definition it_next :: "dirIterator \<Rightarrow> (bool \<times> dirIterator) io" where
  "it_next it =
     (case it_stack it of
        [] \<Rightarrow> ret (False, it)
      | (current, nm) # rest \<Rightarrow>
          bnd (efdL current) (\<lambda>e.
          let it1 = it\<lparr>it_stack := rest, it_currentName := (if it_names it then nm else it_currentName it),
                       it_currentEfd := e\<rparr> in
          bnd (descends it1 current e) (\<lambda>d.
          bnd (if d then thn (set_errno 0) (io_query (sys_listdir current)) else ret None) (\<lambda>r.
          let it2 = (case r of None \<Rightarrow> it1 | Some ns \<Rightarrow> listOnStack it1 ns current) in
          ret (True, it2\<lparr>it_current := (if it_mode it = FULL then current else drop (it_rootLen it) current)\<rparr>)))))"

text \<open>\<open>while (it.next()) body\<close>, with an accumulator.\<close>

primrec it_fold :: "nat \<Rightarrow> (dirIterator \<Rightarrow> 's \<Rightarrow> 's io) \<Rightarrow> dirIterator \<Rightarrow> 's \<Rightarrow> 's io" where
  "it_fold 0 body it s = raise OutOfFuel"
| "it_fold (Suc n) body it s =
     bnd (it_next it) (\<lambda>(b, it'). if b then bnd (body it' s) (it_fold n body it') else ret s)"

fun nodes :: "node \<Rightarrow> nat" where
  "nodes (Dir a es) = Suc (sum_list (map (\<lambda>e. nodes (snd e)) es))"
| "nodes _ = 1"

definition it_fuel :: "dirIterator \<Rightarrow> fs \<Rightarrow> nat" where
  "it_fuel it f = (if it_listing it = PLAIN then Suc (length (it_stack it)) else Suc (nodes (root f) ^ 42))"

definition it_each :: "(dirIterator \<Rightarrow> 's \<Rightarrow> 's io) \<Rightarrow> dirIterator \<Rightarrow> 's \<Rightarrow> 's io" where
  "it_each body it s = bnd (get wfs) (\<lambda>f. it_fold (it_fuel it f) body it s)"

definition plain_iterator :: "string \<Rightarrow> dirIterator io" where
  "plain_iterator dir = createIterator dir FULL True PLAIN False (\<lambda>_. True)"

subsection \<open>Plain listings\<close>

definition entries_of :: "string \<Rightarrow> fs \<Rightarrow> (string \<times> string) list option" where
  "entries_of dir f =
     (if \<not> (dir \<noteq> [] \<and> hd dir = CHR ''/'') then None
      else case sys_listdir dir f of
        Inl e \<Rightarrow> None
      | Inr ns \<Rightarrow> Some (rev (map (\<lambda>n. (dir @ ''/'' @ n, n)) (filter (\<lambda>n. n \<noteq> ''.'' \<and> n \<noteq> ''..'') ns))))"

lemma quiet_efdL: "\<exists>v. quiet (efdL p) v"
proof -
  have "quiet (efdL p) (\<lambda>f u. case (case sys_lstat p f of Inl e \<Rightarrow> None | Inr n \<Rightarrow> Some n) of
      None \<Rightarrow> CHR 0x00
    | Some n \<Rightarrow> if S_ISLNK (st_mode n) then
        (case (case sys_stat p f of Inl e \<Rightarrow> None | Inr m \<Rightarrow> Some m) of None \<Rightarrow> CHR 0x00
         | Some m \<Rightarrow> if S_ISDIR (st_mode m) then CHR ''L'' else CHR 0x01)
        else if S_ISDIR (st_mode n) then CHR ''d'' else CHR 0x01)"
    unfolding efdL_def by (intro quiet_bnd quiet_query quiet_option quiet_if quiet_ret)
  then show ?thesis by blast
qed

lemma it_next_plain:
  assumes "it_listing it = PLAIN" "it_mode it = FULL" "it_names it" "it_stack it = (p, nm) # rest"
  shows "\<exists>e it'. it_next it w = (Ret (True, it'), w\<lparr>errno := e\<rparr>) \<and> it_listing it' = PLAIN
    \<and> it_mode it' = FULL \<and> it_names it' \<and> it_stack it' = rest \<and> it_current it' = p \<and> it_currentName it' = nm"
proof -
  obtain v where "quiet (efdL p) v" using quiet_efdL by blast
  then obtain e where "efdL p w = (Ret (v (wfs w) (users w)), w\<lparr>errno := e\<rparr>)" using quietD by blast
  with assms show ?thesis by (auto simp: it_next_def bnd_app descends_def ret_app)
qed

lemma it_next_end: "it_stack it = [] \<Longrightarrow> it_next it w = (Ret (False, it), w)"
  by (simp add: it_next_def ret_app)

lemma plain_iterator_run:
  "\<exists>e it. plain_iterator dir w = (Ret it, w\<lparr>errno := e\<rparr>)
    \<and> (case entries_of dir (wfs w) of
         None \<Rightarrow> it_error it \<noteq> 0 \<and> it_error it = e \<or> sys_listdir dir (wfs w) = Inl 0
       | Some es \<Rightarrow> it_error it = 0 \<and> it_listing it = PLAIN \<and> it_mode it = FULL \<and> it_names it \<and> it_stack it = es)"
  by (auto simp: plain_iterator_def createIterator_def entries_of_def Let_def thn_app set_errno_app ret_app
      bnd_app io_query_def get_app listOnStack_def level_entries_def EINVAL_def split: sum.splits)

lemma listdir_error_nonzero: "sys_listdir p f \<noteq> Inl 0"
proof -
  have w0: "walk k t fl cur cs \<noteq> RErr 0" for k t fl cur cs
    by (induction k t fl cur cs rule: walk.induct)
      (auto simp: errno_defs split: option.splits node.splits nat.splits)
  have "stat_gen c fl p f \<noteq> Inl 0" for c fl
    using w0 by (auto simp: stat_gen_def faulty_def resolve_def errno_defs split: resolved.splits option.splits)
  then show ?thesis
    by (auto simp: sys_listdir_def errno_defs split: sum.splits)
qed

lemma plain_iterator_None:
  assumes "entries_of dir (wfs w) = None"
  shows "\<exists>e it. plain_iterator dir w = (Ret it, w\<lparr>errno := e\<rparr>) \<and> it_error it = e \<and> e \<noteq> 0"
  using plain_iterator_run [of dir w] assms listdir_error_nonzero by fastforce

lemma plain_iterator_Some:
  assumes "entries_of dir (wfs w) = Some es"
  shows "\<exists>e it. plain_iterator dir w = (Ret it, w\<lparr>errno := e\<rparr>) \<and> it_error it = 0
    \<and> it_listing it = PLAIN \<and> it_mode it = FULL \<and> it_names it \<and> it_stack it = es"
  using plain_iterator_run [of dir w] assms by fastforce

text \<open>
  Computations that, on a given file system, return a value and write to connections that accept
  everything, changing nothing else but \<open>errno\<close> and the progress counter.
\<close>

definition emit_all :: "(handle \<Rightarrow> byte list) \<Rightarrow> world \<Rightarrow> world" where
  "emit_all out w = w\<lparr>conns := (\<lambda>h. (conns w h)\<lparr>outb := outb (conns w h) @ out h\<rparr>)\<rparr>"

definition says :: "fs \<Rightarrow> (u32 \<Rightarrow> string option) \<Rightarrow> 'a io \<Rightarrow> 'a \<Rightarrow> (handle \<Rightarrow> byte list) \<Rightarrow> bool" where
  "says f u m v out \<longleftrightarrow> (\<forall>w. wfs w = f \<longrightarrow> users w = u \<longrightarrow> (\<forall>h. wr h w) \<longrightarrow>
     (\<exists>e p. m w = (Ret v, emit_all out (w\<lparr>errno := e, progress := p\<rparr>))))"

lemma emit_all_Nil [simp]: "emit_all (\<lambda>h. []) w = w"
  by (simp add: emit_all_def)

lemma emit_all_emit_all [simp]: "emit_all b (emit_all a w) = emit_all (\<lambda>h. a h @ b h) w"
  by (simp add: emit_all_def)

lemma emit_all_sel [simp]:
  "wfs (emit_all a w) = wfs w" "users (emit_all a w) = users w" "wr h (emit_all a w) = wr h w"
  "errno (emit_all a w) = errno w" "progress (emit_all a w) = progress w" "rhss (emit_all a w) = rhss w"
  by (simp_all add: emit_all_def wr_def)

lemma emit_all_upd [simp]:
  "(emit_all a w)\<lparr>errno := e\<rparr> = emit_all a (w\<lparr>errno := e\<rparr>)"
  "(emit_all a w)\<lparr>progress := p\<rparr> = emit_all a (w\<lparr>progress := p\<rparr>)"
  by (simp_all add: emit_all_def)

lemma emit_as_all: "emit h bs w = emit_all (\<lambda>h'. if h' = h then bs else []) w"
  by (auto simp: emit_def emit_all_def set_conn_def fun_eq_iff)

lemma saysD:
  "\<lbrakk>says f u m v out; wfs w = f; users w = u; \<forall>h. wr h w\<rbrakk> \<Longrightarrow>
   \<exists>e p. m w = (Ret v, emit_all out (w\<lparr>errno := e, progress := p\<rparr>))"
  by (simp add: says_def)

lemma says_quiet: "quiet m v \<Longrightarrow> says f u m (v f u) (\<lambda>h. [])"
  unfolding says_def
proof (intro allI impI)
  fix w :: world
  assume "quiet m v" "wfs w = f" "users w = u"
  then obtain e where "m w = (Ret (v f u), w\<lparr>errno := e\<rparr>)" using quietD by blast
  then show "\<exists>e p. m w = (Ret (v f u), emit_all (\<lambda>h. []) (w\<lparr>errno := e, progress := p\<rparr>))"
    by (intro exI [of _ e] exI [of _ "progress w"]) simp
qed

lemma says_ret: "says f u (ret a) a (\<lambda>h. [])"
  by (rule says_quiet [OF quiet_ret, of f u])

definition only :: "handle \<Rightarrow> byte list \<Rightarrow> handle \<Rightarrow> byte list" where
  "only h bs = (\<lambda>h'. if h' = h then bs else [])"

lemma only_simps [simp]: "only h bs h = bs" "h \<noteq> h' \<Longrightarrow> only h bs h' = []"
  by (simp_all add: only_def)

lemma emit_only: "emit_all (only h bs) w = emit h bs w"
  by (simp add: emit_as_all only_def)

lemma says_write: "says f u (writeAllOrExit h bs) () (only h bs)"
  unfolding says_def
proof (intro allI impI)
  fix w :: world
  assume "\<forall>h. wr h w"
  then show "\<exists>e p. writeAllOrExit h bs w = (Ret (), emit_all (only h bs) (w\<lparr>errno := e, progress := p\<rparr>))"
    by (intro exI [of _ "errno w"] exI [of _ "progress w"]) (simp add: write_emit emit_only)
qed

lemma says_bnd:
  assumes "says f u m v a" and "says f u (g v) v' b"
  shows "says f u (bnd m g) v' (\<lambda>h. a h @ b h)"
  unfolding says_def
proof (intro allI impI)
  fix w :: world
  assume w: "wfs w = f" "users w = u" "\<forall>h. wr h w"
  obtain e p where 1: "m w = (Ret v, emit_all a (w\<lparr>errno := e, progress := p\<rparr>))"
    using saysD [OF assms(1) w] by blast
  obtain e' p' where "g v (emit_all a (w\<lparr>errno := e, progress := p\<rparr>))
      = (Ret v', emit_all b ((emit_all a (w\<lparr>errno := e, progress := p\<rparr>))\<lparr>errno := e', progress := p'\<rparr>))"
    using saysD [OF assms(2), of "emit_all a (w\<lparr>errno := e, progress := p\<rparr>)"] w by auto
  with 1 show "\<exists>e p. bnd m g w = (Ret v', emit_all (\<lambda>h. a h @ b h) (w\<lparr>errno := e, progress := p\<rparr>))"
    by (auto simp: bnd_app)
qed

lemma says_cong: "\<lbrakk>says f u m v a; v = v'; \<And>h. a h = a' h\<rbrakk> \<Longrightarrow> says f u m v' a'"
proof -
  assume "says f u m v a" "v = v'" "\<And>h. a h = a' h"
  then have "a = a'" by (simp add: fun_eq_iff)
  with \<open>says f u m v a\<close> \<open>v = v'\<close> show ?thesis by simp
qed

lemma says_thn: "\<lbrakk>says f u m v a; says f u n v' b\<rbrakk> \<Longrightarrow> says f u (thn m n) v' (\<lambda>h. a h @ b h)"
  unfolding thn_def by (rule says_bnd)

lemma says_quiet_bnd: "\<lbrakk>quiet m v; says f u (g (v f u)) v' b\<rbrakk> \<Longrightarrow> says f u (bnd m g) v' b"
  using says_bnd [OF says_quiet, of m v f u g v' b] by simp

lemma says_plain_iterator:
  assumes "entries_of dir f = Some es"
    and "\<And>it. \<lbrakk>it_error it = 0; it_listing it = PLAIN; it_mode it = FULL; it_names it; it_stack it = es\<rbrakk>
           \<Longrightarrow> says f u (g it) v out"
  shows "says f u (bnd (plain_iterator dir) g) v out"
  unfolding says_def
proof (intro allI impI)
  fix w :: world
  assume w: "wfs w = f" "users w = u" "\<forall>h. wr h w"
  obtain e it where 1: "plain_iterator dir w = (Ret it, w\<lparr>errno := e\<rparr>)" "it_error it = 0"
    "it_listing it = PLAIN" "it_mode it = FULL" "it_names it" "it_stack it = es"
    using plain_iterator_Some [of dir w es] assms(1) w by auto
  then obtain e' p where "g it (w\<lparr>errno := e\<rparr>) = (Ret v, emit_all out ((w\<lparr>errno := e\<rparr>)\<lparr>errno := e', progress := p\<rparr>))"
    using saysD [OF assms(2) [of it], of "w\<lparr>errno := e\<rparr>"] w by auto
  with 1 show "\<exists>e p. bnd (plain_iterator dir) g w = (Ret v, emit_all out (w\<lparr>errno := e, progress := p\<rparr>))"
    by (auto simp: bnd_app)
qed

text \<open>A loop over a plain listing is the fold of its body over the entries.\<close>

fun fold_out :: "('a \<Rightarrow> 's \<Rightarrow> 's) \<Rightarrow> ('a \<Rightarrow> 's \<Rightarrow> handle \<Rightarrow> byte list) \<Rightarrow> 'a list \<Rightarrow> 's \<Rightarrow> handle \<Rightarrow> byte list" where
  "fold_out g o1 [] s h = []"
| "fold_out g o1 (x # xs) s h = o1 x s h @ fold_out g o1 xs (g x s) h"

lemma fold_out_const: "fold_out g (\<lambda>x s. k x) xs s h = concat (map (\<lambda>x. k x h) xs)"
  by (induction xs arbitrary: s) simp_all

lemma it_fold_plain:
  assumes "\<And>it s. \<lbrakk>(it_current it, it_currentName it) \<in> set es; it_names it\<rbrakk> \<Longrightarrow>
      says f u (body it s) (g (it_current it, it_currentName it) s) (o1 (it_current it, it_currentName it) s)"
    and "it_listing it = PLAIN" "it_mode it = FULL" "it_names it" "length es < n" "it_stack it = es"
  shows "says f u (it_fold n body it s) (fold g es s) (fold_out g o1 es s)"
  using assms
proof (induction n arbitrary: it s es)
  case 0
  then show ?case by simp
next
  case (Suc n)
  show ?case
    unfolding says_def
  proof (intro allI impI)
    fix w :: world
    assume w: "wfs w = f" "users w = u" "\<forall>h. wr h w"
    show "\<exists>e p. it_fold (Suc n) body it s w = (Ret (fold g es s), emit_all (fold_out g o1 es s) (w\<lparr>errno := e, progress := p\<rparr>))"
    proof (cases es)
      case Nil
      with Suc.prems show ?thesis
        by (intro exI [of _ "errno w"] exI [of _ "progress w"])
          (simp add: bnd_app it_next_end ret_app emit_all_def)
    next
      case (Cons c rest)
      obtain p nm where c: "c = (p, nm)" by (cases c)
      obtain e it' where nx: "it_next it w = (Ret (True, it'), w\<lparr>errno := e\<rparr>)" "it_listing it' = PLAIN"
        "it_mode it' = FULL" "it_names it'" "it_stack it' = rest" "it_current it' = p" "it_currentName it' = nm"
        using it_next_plain Suc.prems Cons c by metis
      have "says f u (body it' s) (g (p, nm) s) (o1 (p, nm) s)"
        using Suc.prems(1) [of it' s] nx Cons c by simp
      moreover have "says f u (it_fold n body it' (g (p, nm) s)) (fold g rest (g (p, nm) s)) (fold_out g o1 rest (g (p, nm) s))"
        using nx Suc.prems Cons by (intro Suc.IH) auto
      ultimately have "says f u (bnd (body it' s) (it_fold n body it')) (fold g rest (g (p, nm) s))
          (\<lambda>h. o1 (p, nm) s h @ fold_out g o1 rest (g (p, nm) s) h)"
        by (rule says_bnd)
      from saysD [OF this, of "w\<lparr>errno := e\<rparr>"] w obtain e' p' where
        "bnd (body it' s) (it_fold n body it') (w\<lparr>errno := e\<rparr>) = (Ret (fold g rest (g (p, nm) s)),
          emit_all (\<lambda>h. o1 (p, nm) s h @ fold_out g o1 rest (g (p, nm) s) h) (w\<lparr>errno := e', progress := p'\<rparr>))"
        by auto
      with nx Cons c show ?thesis by (auto simp: bnd_app [of "it_next it"] fun_eq_iff
          intro!: exI [of _ e'] exI [of _ p'] arg_cong [where f = "\<lambda>x. emit_all x _"])
    qed
  qed
qed

lemma says_it_each:
  assumes "\<And>it s. \<lbrakk>(it_current it, it_currentName it) \<in> set es; it_names it\<rbrakk> \<Longrightarrow>
      says f u (body it s) (g (it_current it, it_currentName it) s) (o1 (it_current it, it_currentName it) s)"
    and "it_listing it = PLAIN" "it_mode it = FULL" "it_names it" "it_stack it = es"
  shows "says f u (it_each body it s) (fold g es s) (fold_out g o1 es s)"
  unfolding says_def
proof (intro allI impI)
  fix w :: world
  assume w: "wfs w = f" "users w = u" "\<forall>h. wr h w"
  have "says f u (it_fold (Suc (length es)) body it s) (fold g es s) (fold_out g o1 es s)"
    using assms by (intro it_fold_plain) auto
  from saysD [OF this w] show "\<exists>e p. it_each body it s w
      = (Ret (fold g es s), emit_all (fold_out g o1 es s) (w\<lparr>errno := e, progress := p\<rparr>))"
    using assms by (simp add: it_each_def bnd_app get_app it_fuel_def)
qed

subsection \<open>Counting files, folders and sizes\<close>

record sts =
  nFiles :: u64
  nFolders :: u64

record sts_sz =
  tFiles :: u64
  tFolders :: u64
  tSize :: u64

definition add_sts_sz :: "sts_sz \<Rightarrow> sts_sz \<Rightarrow> sts_sz" where
  "add_sts_sz a b = \<lparr>tFiles = tFiles a + tFiles b, tFolders = tFolders a + tFolders b, tSize = tSize a + tSize b\<rparr>"

text \<open>
  The recursion follows the depth of the tree; \<open>count_fuel\<close> (the number of nodes of the file system)
  is enough, see \<open>count_stats_tree\<close>.
\<close>

primrec countTotalStatsIntoMap :: "nat \<Rightarrow> string \<Rightarrow> (string \<rightharpoonup> sts_sz) \<Rightarrow> (sts_sz \<times> (string \<rightharpoonup> sts_sz)) io" where
  "countTotalStatsIntoMap 0 name m = raise OutOfFuel"
| "countTotalStatsIntoMap (Suc k) name m =
     bnd (existsIsFileIsDir0 name) (\<lambda>efd.
     let num0 = \<lparr>tFiles = 0, tFolders = 0, tSize = 0\<rparr> in
     if efd = 0 then ret (num0, m(name \<mapsto> num0))
     else if efd = 1 then
       bnd (osGetSize_file name) (\<lambda>sz.
       let num = num0\<lparr>tFiles := 1, tSize := sz\<rparr> in ret (num, m(name \<mapsto> num)))
     else if efd = 2 then
       bnd (plain_iterator name) (\<lambda>it.
       bnd (if it_ok it
            then it_each (\<lambda>it s. bnd (countTotalStatsIntoMap k (it_current it) (snd s)) (\<lambda>r.
                   ret (add_sts_sz (fst s) (fst r), snd r))) it (num0\<lparr>tFolders := 1\<rparr>, m)
            else ret (num0\<lparr>tFolders := 1\<rparr>, m)) (\<lambda>s.
       ret (fst s, (snd s)(name \<mapsto> fst s))))
     else raise StdException)"

definition add_sts :: "sts \<Rightarrow> sts \<Rightarrow> sts" where
  "add_sts a b = \<lparr>nFiles = nFiles a + nFiles b, nFolders = nFolders a + nFolders b\<rparr>"

primrec countTotalFilesAndFoldersIntoMap :: "nat \<Rightarrow> string \<Rightarrow> (string \<rightharpoonup> sts) \<Rightarrow> (sts \<times> (string \<rightharpoonup> sts)) io" where
  "countTotalFilesAndFoldersIntoMap 0 name m = raise OutOfFuel"
| "countTotalFilesAndFoldersIntoMap (Suc k) name m =
     bnd (existsIsFileIsDir0 name) (\<lambda>efd.
     let num0 = \<lparr>nFiles = 0, nFolders = 0\<rparr> in
     if efd = 0 then ret (num0, m(name \<mapsto> num0))
     else if efd = 1 then
       (let num = num0\<lparr>nFiles := 1\<rparr> in ret (num, m(name \<mapsto> num)))
     else if efd = 2 then
       bnd (plain_iterator name) (\<lambda>it.
       bnd (if it_ok it
            then it_each (\<lambda>it s. bnd (countTotalFilesAndFoldersIntoMap k (it_current it) (snd s)) (\<lambda>r.
                   ret (add_sts (fst s) (fst r), snd r))) it (num0\<lparr>nFolders := 1\<rparr>, m)
            else ret (num0\<lparr>nFolders := 1\<rparr>, m)) (\<lambda>s.
       ret (fst s, (snd s)(name \<mapsto> fst s))))
     else raise StdException)"

definition count_fuel :: "fs \<Rightarrow> nat" where
  "count_fuel f = Suc (nodes (root f))"

definition countStats :: "string \<Rightarrow> (string \<rightharpoonup> sts_sz) \<Rightarrow> (sts_sz \<times> (string \<rightharpoonup> sts_sz)) io" where
  "countStats name m = bnd (get wfs) (\<lambda>f. countTotalStatsIntoMap (count_fuel f) name m)"

definition accumulateChildrenFilesAndFoldersCount :: "string \<Rightarrow> folderStats_resp_t \<Rightarrow> (int \<times> folderStats_resp_t) io" where
  "accumulateChildrenFilesAndFoldersCount path resp =
     bnd (createIterator path FULL False PLAIN False (\<lambda>_. True)) (\<lambda>dirIt.
     if it_ok dirIt then
       it_each (\<lambda>it s. bnd (existsIsFileIsDir0 (it_current it)) (\<lambda>efd.
         ret (if efd = 0 then (- 1, snd s)
              else if efd = 2 then (fst s, (snd s)\<lparr>childrenDirs := childrenDirs (snd s) + 1\<rparr>)
              else (fst s, (snd s)\<lparr>childrenFiles := childrenFiles (snd s) + 1\<rparr>)))) dirIt (0, resp)
     else ret (0, resp))"

definition accumulateTotalFilesAndFoldersCount :: "string \<Rightarrow> folderStats_resp_t \<Rightarrow> (int \<times> folderStats_resp_t) io" where
  "accumulateTotalFilesAndFoldersCount path resp =
     bnd (createIterator path FULL False RECURSIVE_FOLLOW_SYMLINKS False (\<lambda>_. True)) (\<lambda>dirIt.
     if it_ok dirIt then
       it_each (\<lambda>it s. bnd (existsIsFileIsDir0_st (it_current it)) (\<lambda>(efd, st).
         ret (if efd = 0 then (- 1, snd s)
              else if efd = 2 then (fst s, (snd s)\<lparr>totalDirs := totalDirs (snd s) + 1\<rparr>)
              else (fst s, (snd s)\<lparr>totalFiles := totalFiles (snd s) + 1, totalSize := totalSize (snd s) + ssize st\<rparr>))))
         dirIt (0, resp)
     else ret (0, resp))"

definition osGetSize :: "string \<Rightarrow> bool \<Rightarrow> int io" where
  "osGetSize filepath getDirTotalSize =
     bnd (io_query (sys_lstat filepath)) (\<lambda>r. case r of
       None \<Rightarrow> ret 0
     | Some n \<Rightarrow>
         if S_ISDIR (st_mode n) then
           (if \<not> getDirTotalSize then ret 0
            else bnd (accumulateTotalFilesAndFoldersCount filepath
                       \<lparr>childrenDirs = 0, childrenFiles = 0, totalDirs = 0, totalFiles = 0, totalSize = 0\<rparr>) (\<lambda>(r, resp).
                 if r \<noteq> 0 then ret (- 1) else ret (sint (totalSize resp))))
         else ret (int (node_size n)))"

end
