(* ===== verification/RH_Tree.thy ===== *)
theory RH_Tree
  imports RH_Iter
begin

section \<open>Trees of files reached by ordinary paths\<close>

text \<open>
  The functions of Utils.h that walk a directory tree by path names, related to the tree itself:
  what \<open>countTotalStatsIntoMap\<close> computes for a path is the number of files, the number of
  directories and the sum of the file sizes below it.
\<close>

subsection \<open>A node at a path\<close>

definition at_path :: "fs \<Rightarrow> string list \<Rightarrow> node \<Rightarrow> bool" where
  "at_path f cs n \<longleftrightarrow> no_faults f \<and> (\<forall>c \<in> set cs. good_name c) \<and> cs \<noteq> [] \<and> dirs_above (root f) cs
     \<and> lookup (root f) cs = Some n"

fun wf_node :: "node \<Rightarrow> bool" where
  "wf_node (Dir a es) \<longleftrightarrow> distinct (map fst es) \<and> (\<forall>e \<in> set es. good_name (fst e) \<and> wf_node (snd e))"
| "wf_node _ \<longleftrightarrow> True"

lemma at_path_lstat: "at_path f cs n \<Longrightarrow> sys_lstat (abs_path cs) f = Inr n"
  by (simp add: at_path_def sys_lstat_def stat_gen_def no_faults_faulty resolve_plain_Found)

lemma at_path_stat: "\<lbrakk>at_path f cs n; \<not> is_lnk n\<rbrakk> \<Longrightarrow> sys_stat (abs_path cs) f = Inr n"
  by (simp add: at_path_def sys_stat_def stat_gen_def no_faults_faulty resolve_plain_Found)

lemma at_path_listdir:
  "at_path f cs (Dir a es) \<Longrightarrow> sys_listdir (abs_path cs) f = Inr ([''.'', ''..''] @ map fst es)"
  by (simp add: at_path_def sys_listdir_def stat_gen_def no_faults_faulty resolve_plain_Found)

lemma at_path_child:
  "\<lbrakk>at_path f cs (Dir a es); wf_node (Dir a es); (nm, c) \<in> set es\<rbrakk> \<Longrightarrow> at_path f (cs @ [nm]) c"
  by (auto simp: at_path_def dirs_above_snoc lookup_append)

lemma at_path_hd: "at_path f cs n \<Longrightarrow> abs_path cs \<noteq> [] \<and> hd (abs_path cs) = CHR ''/''"
  by (simp add: at_path_def hd_abs_path)

lemma entries_at_path:
  assumes "at_path f cs (Dir a es)" "wf_node (Dir a es)"
  shows "entries_of (abs_path cs) f = Some (rev (map (\<lambda>e. (abs_path (cs @ [fst e]), fst e)) es))"
proof -
  have "filter (\<lambda>n. n \<noteq> ''.'' \<and> n \<noteq> ''..'') (map fst es) = map fst es"
    using assms(2) by (intro filter_True) (auto simp: good_name_def)
  then show ?thesis
    using at_path_hd [OF assms(1)] by (simp add: entries_of_def at_path_listdir [OF assms(1)] comp_def)
qed

lemma efd_at_path: "at_path f cs n \<Longrightarrow> efd_of (abs_path cs) f = (if is_dir n then 2 else 1)"
  by (simp add: efd_of_def at_path_lstat)

lemma size_at_path: "at_path f cs n \<Longrightarrow> size_of (abs_path cs) f = (if is_dir n then 0 else of_nat (node_size n))"
  by (simp add: size_of_def at_path_lstat)

subsection \<open>Counting\<close>

fun tree_files :: "node \<Rightarrow> nat" where
  "tree_files (Dir a es) = sum_list (map (\<lambda>e. tree_files (snd e)) es)"
| "tree_files _ = 1"

fun tree_dirs :: "node \<Rightarrow> nat" where
  "tree_dirs (Dir a es) = Suc (sum_list (map (\<lambda>e. tree_dirs (snd e)) es))"
| "tree_dirs _ = 0"

fun tree_bytes :: "node \<Rightarrow> nat" where
  "tree_bytes (Dir a es) = sum_list (map (\<lambda>e. tree_bytes (snd e)) es)"
| "tree_bytes n = node_size n"

definition tree_sts :: "node \<Rightarrow> sts_sz" where
  "tree_sts n = \<lparr>tFiles = of_nat (tree_files n), tFolders = of_nat (tree_dirs n), tSize = of_nat (tree_bytes n)\<rparr>"

text \<open>The map of the totals of every path of the tree.\<close>

fun tree_map :: "string list \<Rightarrow> node \<Rightarrow> (string \<rightharpoonup> sts_sz) \<Rightarrow> (string \<rightharpoonup> sts_sz)" where
  "tree_map cs (Dir a es) m =
     (fold (\<lambda>e m'. tree_map (cs @ [fst e]) (snd e) m') (rev es) m)(abs_path cs \<mapsto> tree_sts (Dir a es))"
| "tree_map cs n m = m(abs_path cs \<mapsto> tree_sts n)"

lemma fold_add_sts:
  "fold (\<lambda>e s. (add_sts_sz (fst s) (tree_sts (snd e)), M e (snd s))) xs s
   = (\<lparr>tFiles = tFiles (fst s) + of_nat (sum_list (map (\<lambda>e. tree_files (snd e)) xs)),
       tFolders = tFolders (fst s) + of_nat (sum_list (map (\<lambda>e. tree_dirs (snd e)) xs)),
       tSize = tSize (fst s) + of_nat (sum_list (map (\<lambda>e. tree_bytes (snd e)) xs))\<rparr>, fold M xs (snd s))"
  by (induction xs arbitrary: s) (simp_all add: add_sts_sz_def tree_sts_def prod_eq_iff)

lemma sum_list_map_rev: "sum_list (map f (rev xs)) = (sum_list (map f xs) :: nat)"
  by (simp add: rev_map [symmetric])

lemma nodes_child: "(nm, c) \<in> set es \<Longrightarrow> nodes c < nodes (Dir a es)"
  using member_le_sum_list [of "nodes c" "map (\<lambda>e. nodes (snd e)) es"] by force

lemma nodes_pos: "0 < nodes n"
  by (cases n) simp_all

lemma fold_entries:
  assumes "distinct (map fst es)"
  shows "fold (\<lambda>x s. G (the (map_of es (snd x))) (snd x) s) (rev (map (\<lambda>e. (P e, fst e)) es)) s
       = fold (\<lambda>e s. G (snd e) (fst e) s) (rev es) s"
proof -
  have "fold (\<lambda>x s. G (the (map_of es (snd x))) (snd x) s) (map (\<lambda>e. (P e, fst e)) xs) s
      = fold (\<lambda>e s. G (snd e) (fst e) s) xs s" if "set xs \<subseteq> set es" for xs s
    using that assms by (induction xs arbitrary: s) auto
  from this [of "rev es"] show ?thesis by (simp add: rev_map)
qed

lemma count_stats_tree:
  "\<lbrakk>at_path f cs n; wf_node n; nodes n \<le> k\<rbrakk> \<Longrightarrow>
   says f u (countTotalStatsIntoMap k (abs_path cs) m) (tree_sts n, tree_map cs n m) (\<lambda>h. [])"
proof (induction k arbitrary: cs n m)
  case 0
  then show ?case using nodes_pos [of n] by simp
next
  case (Suc k)
  note efd = quiet_existsIsFileIsDir0 [of "abs_path cs"]
  show ?case
  proof (cases "is_dir n")
    case True
    then obtain a es where Dir: "n = Dir a es" by (cases n) auto
    let ?num = "\<lparr>tFiles = 0, tFolders = 1, tSize = 0\<rparr> :: sts_sz"
    let ?g = "\<lambda>x s. (\<lambda>c nm (s :: sts_sz \<times> (string \<rightharpoonup> sts_sz)). (add_sts_sz (fst s) (tree_sts c), tree_map (cs @ [nm]) c (snd s)))
        (the (map_of es (snd x))) (snd x) s"
    let ?es = "rev (map (\<lambda>e. (abs_path (cs @ [fst e]), fst e)) es)"
    have at: "at_path f cs (Dir a es)" "wf_node (Dir a es)" using Suc.prems Dir by simp_all
    have ent: "entries_of (abs_path cs) f = Some ?es" using entries_at_path [OF at] .
    have body: "says f u (bnd (countTotalStatsIntoMap k (it_current it) (snd s)) (\<lambda>r. ret (add_sts_sz (fst s) (fst r), snd r)))
        (?g (it_current it, it_currentName it) s) ((\<lambda>x s h. []) (it_current it, it_currentName it) s)"
      if "(it_current it, it_currentName it) \<in> set ?es" for it s
    proof -
      from that obtain c where c: "(it_currentName it, c) \<in> set es" "it_current it = abs_path (cs @ [it_currentName it])"
        by auto
      then have mo: "map_of es (it_currentName it) = Some c" using at(2) by simp
      have "says f u (countTotalStatsIntoMap k (it_current it) (snd s)) (tree_sts c, tree_map (cs @ [it_currentName it]) c (snd s)) (\<lambda>h. [])"
        unfolding c(2)
      proof (rule Suc.IH)
        show "at_path f (cs @ [it_currentName it]) c" using at c(1) by (rule at_path_child)
        show "wf_node c" using at(2) c(1) by fastforce
        show "nodes c \<le> k" using nodes_child [OF c(1), of a] Suc.prems(3) Dir by simp
      qed
      then show ?thesis by (rule says_cong [OF says_bnd [OF _ says_ret]]) (simp_all add: mo)
    qed
    have "fold ?g ?es (?num, m) = fold (\<lambda>e s. (add_sts_sz (fst s) (tree_sts (snd e)), tree_map (cs @ [fst e]) (snd e) (snd s)))
        (rev es) (?num, m)"
      using at(2) by (subst fold_entries) simp_all
    also have "\<dots> = (tree_sts (Dir a es), fold (\<lambda>e m'. tree_map (cs @ [fst e]) (snd e) m') (rev es) m)"
      by (subst fold_add_sts [where M = "\<lambda>e. tree_map (cs @ [fst e]) (snd e)"]) (simp add: sum_list_map_rev tree_sts_def)
    finally have "fold ?g ?es (?num, m)
        = (tree_sts (Dir a es), fold (\<lambda>e m'. tree_map (cs @ [fst e]) (snd e) m') (rev es) m)" .
    then have loop: "says f u (it_each (\<lambda>it s. bnd (countTotalStatsIntoMap k (it_current it) (snd s)) (\<lambda>r.
             ret (add_sts_sz (fst s) (fst r), snd r))) it (?num, m))
        (tree_sts (Dir a es), fold (\<lambda>e m'. tree_map (cs @ [fst e]) (snd e) m') (rev es) m) (\<lambda>h. [])"
      if "it_listing it = PLAIN" "it_mode it = FULL" "it_names it" "it_stack it = ?es" for it
      using says_it_each [of ?es f u _ ?g "\<lambda>x s h. []" it "(?num, m)", OF body that]
      by (auto simp: fold_out_const intro: says_cong)
    have rest: "says f u (bnd (plain_iterator (abs_path cs)) (\<lambda>it.
           bnd (if it_ok it
                then it_each (\<lambda>it s. bnd (countTotalStatsIntoMap k (it_current it) (snd s)) (\<lambda>r.
                       ret (add_sts_sz (fst s) (fst r), snd r))) it (?num, m)
                else ret (?num, m)) (\<lambda>s.
           ret (fst s, (snd s)(abs_path cs \<mapsto> fst s))))) (tree_sts n, tree_map cs n m) (\<lambda>h. [])"
    proof (rule says_plain_iterator [OF ent])
      fix it :: dirIterator
      assume it: "it_error it = 0" "it_listing it = PLAIN" "it_mode it = FULL" "it_names it" "it_stack it = ?es"
      from loop [OF it(2-5)] it(1)
      show "says f u (bnd (if it_ok it
                then it_each (\<lambda>it s. bnd (countTotalStatsIntoMap k (it_current it) (snd s)) (\<lambda>r.
                       ret (add_sts_sz (fst s) (fst r), snd r))) it (?num, m)
                else ret (?num, m)) (\<lambda>s.
           ret (fst s, (snd s)(abs_path cs \<mapsto> fst s)))) (tree_sts n, tree_map cs n m) (\<lambda>h. [])"
        by (intro says_cong [OF says_bnd [OF _ says_ret]]) (auto simp: it_ok_def Dir)
    qed
    show ?thesis
      unfolding countTotalStatsIntoMap.simps
      by (rule says_quiet_bnd [OF efd]) (use rest in \<open>simp add: Dir efd_at_path [OF at(1)] Let_def fun_upd_def cong: if_cong\<close>)
  next
    case False
    then have n: "tree_sts n = \<lparr>tFiles = 1, tFolders = 0, tSize = of_nat (node_size n)\<rparr>"
      "tree_map cs n m = m(abs_path cs \<mapsto> tree_sts n)"
      by (cases n; simp add: tree_sts_def)+
    have "says f u (bnd (osGetSize_file (abs_path cs)) (\<lambda>sz. ret (\<lparr>tFiles = 1, tFolders = 0, tSize = sz\<rparr>,
        m(abs_path cs \<mapsto> \<lparr>tFiles = 1, tFolders = 0, tSize = sz\<rparr>)))) (tree_sts n, tree_map cs n m) (\<lambda>h. [])"
      by (rule says_quiet_bnd [OF quiet_osGetSize_file], rule says_cong [OF says_ret])
        (use False size_at_path [OF Suc.prems(1)] in \<open>simp_all add: n\<close>)
    then show ?thesis
      unfolding countTotalStatsIntoMap.simps
      by (intro says_quiet_bnd [OF efd])
        (use False efd_at_path [OF Suc.prems(1)] in \<open>simp add: Let_def fun_upd_def cong: if_cong\<close>)
  qed
qed

lemma nodes_lookup: "lookup t cs = Some n \<Longrightarrow> nodes n \<le> nodes t"
proof (induction cs arbitrary: t)
  case Nil
  then show ?case by simp
next
  case (Cons c cs)
  then obtain a es where t: "t = Dir a es" by (cases t) auto
  with Cons.prems obtain m where m: "map_of es c = Some m" "lookup m cs = Some n"
    by (auto split: option.splits)
  have "nodes n \<le> nodes m" using Cons.IH m by blast
  moreover have "nodes m < nodes t" unfolding t using map_of_SomeD [OF m(1)] by (rule nodes_child)
  ultimately show ?case by simp
qed

lemma says_countStats:
  assumes "at_path f cs n" "wf_node n"
  shows "says f u (countStats (abs_path cs) m) (tree_sts n, tree_map cs n m) (\<lambda>h. [])"
proof -
  have "nodes n \<le> count_fuel f"
    using assms(1) nodes_lookup [of "root f" cs n] by (simp add: at_path_def count_fuel_def)
  from count_stats_tree [OF assms this] show ?thesis
    by (simp add: says_def countStats_def bnd_app get_app)
qed

text \<open>
  The totals that are sent before an upload, a download or a copy are those of the tree: for a
  path reached through real directories on a file system without faults, the count of files, of
  directories and of bytes, each modulo 2 to the 64, and nothing is written to any connection.
\<close>

theorem countTotalStats_tree:
  assumes "at_path (wfs w) cs n" and "wf_node n" and "\<forall>h. wr h w"
  shows "\<exists>e p. countStats (abs_path cs) m w
     = (Ret (\<lparr>tFiles = of_nat (tree_files n), tFolders = of_nat (tree_dirs n), tSize = of_nat (tree_bytes n)\<rparr>,
             tree_map cs n m), w\<lparr>errno := e, progress := p\<rparr>)"
  using saysD [OF says_countStats [OF assms(1,2), of "users w" m] refl refl assms(3)]
  by (simp add: tree_sts_def)

definition sample_world :: world where
  "sample_world = world0\<lparr>wfs := fs0\<lparr>root := Dir attr0 [(''d'', Dir attr0 [(''x'', Reg attr0 [1, 2, 3]), (''y'', Reg attr0 [4])])]\<rparr>\<rparr>"

theorem countTotalStats_tree_witness:
  "\<exists>e p s m'. countStats ''/d'' Map.empty sample_world = (Ret (s, m'), sample_world\<lparr>errno := e, progress := p\<rparr>)
     \<and> tFiles s = 2 \<and> tFolders s = 1 \<and> tSize s = 4"
proof -
  have "at_path (wfs sample_world) [''d''] (Dir attr0 [(''x'', Reg attr0 [1, 2, 3]), (''y'', Reg attr0 [4])])"
    by (simp add: at_path_def sample_world_def no_faults_def good_name_def dirs_above_def)
  moreover have "wf_node (Dir attr0 [(''x'', Reg attr0 [1, 2, 3]), (''y'', Reg attr0 [4])])"
    by (simp add: good_name_def)
  moreover have "\<forall>h. wr h sample_world" by (simp add: sample_world_def)
  ultimately show ?thesis
    using countTotalStats_tree [of sample_world "[''d'']" _ Map.empty] by fastforce
qed

end
