(* ===== verification/RH_Delete.thy ===== *)
theory RH_Delete
  imports RH_Tree
begin

section \<open>Recursive deletion\<close>

text \<open>
  \<open>genericDeleteBasicImpl\<close> of Utils.h: a stack of paths with a flag for the directories whose
  entries were pushed already. One definition is one round of its loop; the number of rounds is
  bounded by fuel, twice the number of nodes of the file system and two more, which
  \<open>genericDelete_tree\<close> shows to be enough for a tree reached by an ordinary path.
\<close>

definition remove_io :: "string \<Rightarrow> int \<Rightarrow> int io" where
  "remove_io x r = bnd (io_update (sys_remove x)) (\<lambda>ok. ret (if ok then r else - 1))"

text \<open>\<open>readdir\<close> of a directory that cannot be opened (a null pointer) ends the process.\<close>

definition delete_round :: "int \<times> (string \<times> bool) list \<Rightarrow> (int \<times> (string \<times> bool) list) io" where
  "delete_round s =
     (case snd s of
        [] \<Rightarrow> ret s
      | (x, visited) # S \<Rightarrow>
          bnd (existsIsFileIsDir0 x) (\<lambda>efd.
          if efd = 0 then ret (fst s, S)
          else if efd = 1 then bnd (remove_io x (fst s)) (\<lambda>r. ret (r, S))
          else if efd = 2 then
            bnd (isDirectoryEmpty x) (\<lambda>e.
            if e \<noteq> 0 then bnd (remove_io x (fst s)) (\<lambda>r. ret (r, S))
            else if visited then ret (fst s, S)
            else bnd (io_query (sys_listdir x)) (\<lambda>ns.
              case ns of
                None \<Rightarrow> raise (ProcExit 139)
              | Some names \<Rightarrow>
                  ret (fst s, rev (map (\<lambda>n. (x @ ''/'' @ n, False)) (filter (\<lambda>n. n \<noteq> ''.'' \<and> n \<noteq> ''..'') names))
                              @ (x, True) # S)))
          else ret s))"

primrec delete_loop :: "nat \<Rightarrow> int \<times> (string \<times> bool) list \<Rightarrow> int io" where
  "delete_loop 0 s = (if snd s = [] then ret (fst s) else raise OutOfFuel)"
| "delete_loop (Suc k) s = (if snd s = [] then ret (fst s) else bnd (delete_round s) (delete_loop k))"

definition genericDeleteBasicImpl :: "string \<Rightarrow> int io" where
  "genericDeleteBasicImpl path =
     bnd (get wfs) (\<lambda>f. delete_loop (2 * nodes (root f) + 2) (0, [(path, False)]))"

subsection \<open>The tree after a deletion\<close>

lemma delete_update: "AList.delete c (AList.update c v es) = AList.delete c es"
  by (induction es) auto

lemma update_update: "AList.update c v (AList.update c u es) = AList.update c v es"
  by (induction es) auto

lemma del_at_snoc: "cs \<noteq> [] \<Longrightarrow> del_at cs (del_at (cs @ [nm]) t) = del_at cs t"
proof (induction cs arbitrary: t)
  case Nil
  then show ?case by simp
next
  case (Cons c cs)
  then show ?case
    by (cases t; cases "cs = []")
      (auto simp: delete_update update_update update_triv split: option.splits)
qed

lemma lookup_del_child:
  "lookup t cs = Some (Dir a es) \<Longrightarrow> lookup (del_at (cs @ [nm]) t) cs = Some (Dir a (AList.delete nm es))"
proof (induction cs arbitrary: t)
  case Nil
  then show ?case by simp
next
  case (Cons c cs)
  then show ?case by (cases t) (auto split: option.splits)
qed

lemma lookup_del_above:
  assumes "lookup t xs = Some (Dir a es)" and "length xs < length ys" and "take (length xs) ys = xs"
  shows "\<exists>es'. lookup (del_at ys t) xs = Some (Dir a es')"
  using assms
proof (induction xs arbitrary: t ys)
  case Nil
  then show ?case by (cases ys) (auto split: option.splits)
next
  case (Cons x xs)
  then obtain ys' where ys: "ys = x # ys'" by (cases ys) auto
  from Cons.prems(1) obtain b bs u where t: "t = Dir b bs" "map_of bs x = Some u" "lookup u xs = Some (Dir a es)"
    by (cases t) (auto split: option.splits)
  then have "ys' \<noteq> []" using Cons.prems ys by auto
  then show ?case using t Cons.IH [of u ys'] Cons.prems ys by auto
qed

lemma dirs_above_del: "dirs_above t cs \<Longrightarrow> dirs_above (del_at cs t) cs"
  unfolding dirs_above_def
  by (intro allI impI) (metis lookup_del_above length_take less_imp_le_nat min.absorb2)

lemma dirs_above_del_child: "dirs_above t (cs @ [nm]) \<Longrightarrow> dirs_above (del_at (cs @ [nm]) t) (cs @ [nm'])"
  using dirs_above_del [of t "cs @ [nm]"] unfolding dirs_above_snoc by blast

lemma delete_last: "nm \<notin> fst ` set es \<Longrightarrow> AList.delete nm (es @ [(nm, c)]) = es"
  by (induction es) auto

subsection \<open>Runs of the loop\<close>

fun delete_rounds :: "node \<Rightarrow> nat" where
  "delete_rounds (Dir a es) = (if es = [] then 1 else 2 + sum_list (map (\<lambda>e. delete_rounds (snd e)) es))"
| "delete_rounds _ = 1"

lemma delete_rounds_bound: "delete_rounds n \<le> 2 * nodes n"
proof (induction n rule: delete_rounds.induct)
  case (1 a es)
  then have "sum_list (map (\<lambda>e. delete_rounds (snd e)) es) \<le> sum_list (map (\<lambda>e. 2 * nodes (snd e)) es)"
    by (cases "es = []") (auto intro!: sum_list_mono)
  also have "\<dots> = 2 * sum_list (map (\<lambda>e. nodes (snd e)) es)" by (simp add: sum_list_const_mult)
  finally show ?case by simp
qed simp_all

definition del_world :: "string list \<Rightarrow> int \<Rightarrow> world \<Rightarrow> world" where
  "del_world cs e w = w\<lparr>errno := e, wfs := (wfs w)\<lparr>root := del_at cs (root (wfs w))\<rparr>\<rparr>"

text \<open>\<open>runs_to k s w s' w'\<close>: from \<open>s\<close> and \<open>w\<close> the loop reaches \<open>s'\<close> and \<open>w'\<close> in \<open>k\<close> rounds.\<close>

definition runs_to :: "nat \<Rightarrow> int \<times> (string \<times> bool) list \<Rightarrow> world \<Rightarrow> int \<times> (string \<times> bool) list \<Rightarrow> world \<Rightarrow> bool" where
  "runs_to k s w s' w' \<longleftrightarrow> (\<forall>j. delete_loop (k + j) s w = delete_loop j s' w')"

lemma runs_to_refl: "runs_to 0 s w s w"
  by (simp add: runs_to_def)

lemma runs_to_trans: "\<lbrakk>runs_to k s w s1 w1; runs_to l s1 w1 s2 w2\<rbrakk> \<Longrightarrow> runs_to (k + l) s w s2 w2"
  by (simp add: runs_to_def add.assoc)

lemma runs_to_round:
  "\<lbrakk>snd s \<noteq> []; delete_round s w = (Ret s', w')\<rbrakk> \<Longrightarrow> runs_to 1 s w s' w'"
  by (simp add: runs_to_def bnd_app)

lemma efd_run: "\<exists>e. existsIsFileIsDir0 p w = (Ret (efd_of p (wfs w)), w\<lparr>errno := e\<rparr>)"
  using quietD [OF quiet_existsIsFileIsDir0] .

lemma empty_run: "\<exists>e. isDirectoryEmpty p w = (Ret (empty_of p (wfs w)), w\<lparr>errno := e\<rparr>)"
  using quietD [OF quiet_isDirectoryEmpty] .

lemma remove_run:
  assumes "at_path (wfs w) cs n" and "is_dir n \<longrightarrow> dir_entries n = []"
  shows "remove_io (abs_path cs) r (w\<lparr>errno := e\<rparr>) = (Ret r, del_world cs e w)"
  using assms
  by (auto simp: remove_io_def bnd_app io_update_def sys_remove_def at_path_def no_faults_faulty
      resolve_plain_Found ret_app del_world_def)

lemma empty_at_path: "at_path f cs (Dir a es) \<Longrightarrow> empty_of (abs_path cs) f = (if es = [] then 1 else 0)"
  by (simp add: empty_of_def at_path_listdir)

text \<open>A file, or an empty directory, is removed in one round.\<close>

lemma delete_leaf:
  assumes at: "at_path (wfs w) cs n" and empty: "is_dir n \<longrightarrow> dir_entries n = []"
  shows "\<exists>e. runs_to 1 (r, (abs_path cs, v) # S) w (r, S) (del_world cs e w)"
proof -
  obtain e where e: "existsIsFileIsDir0 (abs_path cs) w = (Ret (efd_of (abs_path cs) (wfs w)), w\<lparr>errno := e\<rparr>)"
    using efd_run by blast
  obtain e' where e': "isDirectoryEmpty (abs_path cs) (w\<lparr>errno := e\<rparr>) = (Ret (empty_of (abs_path cs) (wfs w)), w\<lparr>errno := e'\<rparr>)"
    using empty_run [of "abs_path cs" "w\<lparr>errno := e\<rparr>"] by auto
  note rm = remove_run [OF assms]
  have "\<exists>e''. delete_round (r, (abs_path cs, v) # S) w = (Ret (r, S), del_world cs e'' w)"
  proof (cases n)
    case (Dir a es)
    with at empty e e' rm show ?thesis
      by (simp add: delete_round_def bnd_app efd_at_path empty_at_path ret_app) blast
  qed (use at e rm in \<open>auto simp: delete_round_def bnd_app efd_at_path ret_app\<close>)
  then show ?thesis using runs_to_round [of "(r, (abs_path cs, v) # S)"] by fastforce
qed

text \<open>A directory with entries: they are pushed, the last one on top.\<close>

lemma delete_push:
  assumes at: "at_path (wfs w) cs (Dir a es)" and wf: "wf_node (Dir a es)" and ne: "es \<noteq> []"
  shows "\<exists>e. runs_to 1 (r, (abs_path cs, False) # S) w
     (r, rev (map (\<lambda>e. (abs_path (cs @ [fst e]), False)) es) @ (abs_path cs, True) # S) (w\<lparr>errno := e\<rparr>)"
proof -
  obtain e where e: "existsIsFileIsDir0 (abs_path cs) w = (Ret (efd_of (abs_path cs) (wfs w)), w\<lparr>errno := e\<rparr>)"
    using efd_run by blast
  obtain e' where e': "isDirectoryEmpty (abs_path cs) (w\<lparr>errno := e\<rparr>) = (Ret (empty_of (abs_path cs) (wfs w)), w\<lparr>errno := e'\<rparr>)"
    using empty_run [of "abs_path cs" "w\<lparr>errno := e\<rparr>"] by auto
  have "filter (\<lambda>n. n \<noteq> ''.'' \<and> n \<noteq> ''..'') (map fst es) = map fst es"
    using wf by (intro filter_True) (auto simp: good_name_def)
  then have "delete_round (r, (abs_path cs, False) # S) w
      = (Ret (r, rev (map (\<lambda>e. (abs_path (cs @ [fst e]), False)) es) @ (abs_path cs, True) # S), w\<lparr>errno := e'\<rparr>)"
    using e e' at ne
    by (simp add: delete_round_def bnd_app efd_at_path empty_at_path io_query_def at_path_listdir ret_app comp_def)
  then show ?thesis using runs_to_round [of "(r, (abs_path cs, False) # S)"] by fastforce
qed

lemma delete_tree_run:
  "\<lbrakk>at_path (wfs w) cs n; wf_node n\<rbrakk> \<Longrightarrow>
   \<exists>e. runs_to (delete_rounds n) (r, (abs_path cs, False) # S) w (r, S) (del_world cs e w)"
proof (induction n arbitrary: cs w S rule: delete_rounds.induct)
  case (1 a es)
  show ?case
  proof (cases "es = []")
    case True
    with delete_leaf [OF 1(2)] show ?thesis by simp
  next
    case False
    have children: "\<exists>e. runs_to (sum_list (map (\<lambda>e. delete_rounds (snd e)) xs))
         (r, rev (map (\<lambda>e. (abs_path (cs @ [fst e]), False)) xs) @ T) w' (r, T)
         (w'\<lparr>errno := e, wfs := (wfs w')\<lparr>root := t'\<rparr>\<rparr>)
       \<and> at_path ((wfs w')\<lparr>root := t'\<rparr>) cs (Dir a []) \<and> del_at cs t' = del_at cs (root (wfs w'))"
      if "at_path (wfs w') cs (Dir a xs)" "wf_node (Dir a xs)" "set xs \<subseteq> set es"
        "t' = fold (\<lambda>e. del_at (cs @ [fst e])) (rev xs) (root (wfs w'))" for xs w' T t'
      using that
    proof (induction xs arbitrary: w' t' rule: rev_induct)
      case Nil
      then show ?case using runs_to_refl [of "(r, T)" w'] by (auto intro!: exI [of _ "errno w'"])
    next
      case (snoc x xs)
      obtain nm c where x: "x = (nm, c)" by (cases x)
      have at: "at_path (wfs w') (cs @ [nm]) c"
        using snoc.prems(1,2) x by (intro at_path_child) auto
      have "c \<in> snd ` set es" "wf_node c" using snoc.prems x by force+
      then obtain e where e: "runs_to (delete_rounds c)
          (r, (abs_path (cs @ [nm]), False) # rev (map (\<lambda>e. (abs_path (cs @ [fst e]), False)) xs) @ T) w'
          (r, rev (map (\<lambda>e. (abs_path (cs @ [fst e]), False)) xs) @ T) (del_world (cs @ [nm]) e w')"
        using 1(1) [OF False, of "(nm, c)" w' "cs @ [nm]"] at snoc.prems(3) x by auto
      let ?w = "del_world (cs @ [nm]) e w'"
      have cs: "cs \<noteq> []" using snoc.prems(1) by (simp add: at_path_def)
      have lk: "lookup (root (wfs w')) cs = Some (Dir a (xs @ [(nm, c)]))"
        using snoc.prems(1) x by (simp add: at_path_def)
      have "nm \<notin> fst ` set xs" using snoc.prems(2) x by simp
      with lk have lk': "lookup (root (wfs ?w)) cs = Some (Dir a xs)"
        using lookup_del_child [OF lk, of nm] by (simp add: del_world_def delete_last)
      have "dirs_above (root (wfs w')) (cs @ [nm])"
        using snoc.prems(1) lk by (auto simp: at_path_def dirs_above_snoc)
      then have "dirs_above (root (wfs ?w)) cs"
        using dirs_above_del_child dirs_above_snoc by (fastforce simp: del_world_def)
      with lk' snoc.prems(1) have "at_path (wfs ?w) cs (Dir a xs)"
        by (simp add: at_path_def del_world_def)
      moreover have "t' = fold (\<lambda>e. del_at (cs @ [fst e])) (rev xs) (root (wfs ?w))"
        using snoc.prems(4) x by (simp add: del_world_def)
      ultimately obtain e' where e': "runs_to (sum_list (map (\<lambda>e. delete_rounds (snd e)) xs))
         (r, rev (map (\<lambda>e. (abs_path (cs @ [fst e]), False)) xs) @ T) ?w (r, T)
         (?w\<lparr>errno := e', wfs := (wfs ?w)\<lparr>root := t'\<rparr>\<rparr>)"
        "at_path ((wfs ?w)\<lparr>root := t'\<rparr>) cs (Dir a [])" "del_at cs t' = del_at cs (root (wfs ?w))"
        using snoc.IH [of ?w t'] snoc.prems(2,3) by auto
      have "del_at cs t' = del_at cs (root (wfs w'))"
        using e'(3) del_at_snoc [OF cs] by (simp add: del_world_def)
      moreover have "runs_to (sum_list (map (\<lambda>e. delete_rounds (snd e)) (xs @ [x])))
         (r, rev (map (\<lambda>e. (abs_path (cs @ [fst e]), False)) (xs @ [x])) @ T) w' (r, T)
         (w'\<lparr>errno := e', wfs := (wfs w')\<lparr>root := t'\<rparr>\<rparr>)"
        using runs_to_trans [OF e e'(1)] x by (simp add: del_world_def add.commute)
      ultimately show ?case using e'(2) by (auto simp: del_world_def)
    qed
    obtain e where e: "runs_to 1 (r, (abs_path cs, False) # S) w
       (r, rev (map (\<lambda>e. (abs_path (cs @ [fst e]), False)) es) @ (abs_path cs, True) # S) (w\<lparr>errno := e\<rparr>)"
      using delete_push [OF 1(2,3) False] by blast
    let ?w = "w\<lparr>errno := e\<rparr>" and ?t = "fold (\<lambda>e. del_at (cs @ [fst e])) (rev es) (root (wfs w))"
    obtain e' where e': "runs_to (sum_list (map (\<lambda>e. delete_rounds (snd e)) es))
         (r, rev (map (\<lambda>e. (abs_path (cs @ [fst e]), False)) es) @ (abs_path cs, True) # S) ?w
         (r, (abs_path cs, True) # S) (w\<lparr>errno := e', wfs := (wfs w)\<lparr>root := ?t\<rparr>\<rparr>)"
       "at_path ((wfs w)\<lparr>root := ?t\<rparr>) cs (Dir a [])" "del_at cs ?t = del_at cs (root (wfs w))"
      using children [of ?w es ?t "(abs_path cs, True) # S"] 1(2,3) by auto
    obtain e'' where e'': "runs_to 1 (r, (abs_path cs, True) # S) (w\<lparr>errno := e', wfs := (wfs w)\<lparr>root := ?t\<rparr>\<rparr>) (r, S)
        (del_world cs e'' (w\<lparr>errno := e', wfs := (wfs w)\<lparr>root := ?t\<rparr>\<rparr>))"
      using delete_leaf [of "w\<lparr>errno := e', wfs := (wfs w)\<lparr>root := ?t\<rparr>\<rparr>" cs "Dir a []" r True S] e'(2)
      by (simp del: fold_rev One_nat_def) blast
    have "del_world cs e'' (w\<lparr>errno := e', wfs := (wfs w)\<lparr>root := ?t\<rparr>\<rparr>) = del_world cs e'' w"
      using e'(3) by (simp add: del_world_def)
    with runs_to_trans [OF e runs_to_trans [OF e'(1) e'']] False show ?thesis
      by (auto simp: add.commute)
  qed
qed (use delete_leaf in \<open>fastforce+\<close>)

text \<open>
  C9: on a file system without faults, deleting a path reached through real directories returns
  success and removes from the tree exactly the node at that path with everything below it; a
  symbolic link in it is removed and not followed. The connections are not touched, and the rounds
  granted are enough.
\<close>

theorem genericDelete_tree:
  assumes "at_path (wfs w) cs n" and "wf_node n"
  shows "\<exists>e. genericDeleteBasicImpl (abs_path cs) w
    = (Ret 0, w\<lparr>errno := e, wfs := (wfs w)\<lparr>root := del_at cs (root (wfs w))\<rparr>\<rparr>)"
proof -
  obtain e where e: "runs_to (delete_rounds n) (0, [(abs_path cs, False)]) w (0, []) (del_world cs e w)"
    using delete_tree_run [OF assms] by blast
  have "nodes n \<le> nodes (root (wfs w))"
    using assms(1) nodes_lookup [of "root (wfs w)" cs n] by (simp add: at_path_def)
  then obtain j where j: "2 * nodes (root (wfs w)) + 2 = delete_rounds n + j"
    using delete_rounds_bound [of n] by (metis le_Suc_ex add.commute add_le_mono le_trans mult_le_mono2 trans_le_add1)
  have "delete_loop j (0, []) (del_world cs e w) = (Ret 0, del_world cs e w)"
    by (cases j) (simp_all add: ret_app)
  with e have "delete_loop (2 * nodes (root (wfs w)) + 2) (0, [(abs_path cs, False)]) w = (Ret 0, del_world cs e w)"
    unfolding j runs_to_def by simp
  then show ?thesis
    unfolding genericDeleteBasicImpl_def bnd_app get_app by (auto simp: del_world_def)
qed

theorem genericDelete_tree_witness:
  "\<exists>e. genericDeleteBasicImpl ''/d'' sample_world
    = (Ret 0, sample_world\<lparr>errno := e, wfs := (wfs sample_world)\<lparr>root := Dir attr0 []\<rparr>\<rparr>)"
proof -
  have "at_path (wfs sample_world) [''d''] (Dir attr0 [(''x'', Reg attr0 [1, 2, 3]), (''y'', Reg attr0 [4])])"
    by (simp add: at_path_def sample_world_def no_faults_def good_name_def dirs_above_def)
  moreover have "wf_node (Dir attr0 [(''x'', Reg attr0 [1, 2, 3]), (''y'', Reg attr0 [4])])"
    by (simp add: good_name_def)
  moreover have "del_at [''d''] (root (wfs sample_world)) = Dir attr0 []"
    by (simp add: sample_world_def)
  ultimately show ?thesis using genericDelete_tree [of sample_world "[''d'']"] by fastforce
qed

text \<open>
  A path that cannot be examined is dropped from the stack without being counted as a failure:
  the deletion then reports success although the entry is still there.
\<close>

theorem genericDelete_ignores_unreadable:
  assumes "sys_lstat p (wfs w) = Inl e"
  shows "genericDeleteBasicImpl p w = (Ret 0, w\<lparr>errno := e\<rparr>)"
  using assms
  by (simp add: genericDeleteBasicImpl_def bnd_app get_app delete_round_def existsIsFileIsDir0_def
      existsIsFileIsDir0_st_def osStat_def io_query_def ret_app numeral_2_eq_2)

theorem genericDelete_ignores_unreadable_witness:
  "genericDeleteBasicImpl ''/f'' (world0\<lparr>wfs := fs0\<lparr>root := Dir attr0 [(''f'', Reg attr0 [])],
       faults := (\<lambda>c p. if c = SC_lstat then EPERM else 0)\<rparr>\<rparr>)
   = (Ret 0, world0\<lparr>wfs := fs0\<lparr>root := Dir attr0 [(''f'', Reg attr0 [])],
       faults := (\<lambda>c p. if c = SC_lstat then EPERM else 0)\<rparr>, errno := EPERM\<rparr>)"
  by (subst genericDelete_ignores_unreadable [of _ _ EPERM])
    (simp_all add: sys_lstat_def stat_gen_def faulty_def EPERM_def)

end
