(* ===== verification/RH_Transfer.thy ===== *)
theory RH_Transfer
  imports RH_Delete
begin

section \<open>Uploads and downloads\<close>

text \<open>
  The functions of Utils.h and r.cpp that send a tree of files as a sequence of items and store the
  received items, with the progress values for the local socket, and the base class of
  progressHook.h. \<open>client_upload\<close>/\<open>downloadRemoteItems\<close> and
  \<open>server_download\<close>/\<open>downloadRemoteItems\<close> are the two directions.
\<close>

subsection \<open>Progress\<close>

text \<open>
  \<open>progress\<close> is \<open>curSize\<close> of the running hook. The sampling thread of a hook with a local socket
  writes the current value when it wakes up: \<open>ticks\<close> says how often it wakes up after each
  published delta. A failed write ends that thread only (\<open>threadExitThrowable\<close> is caught in \<open>tfn\<close>).
\<close>

definition getProgressHook :: "unit io" where
  "getProgressHook = modify (progress_update (\<lambda>_. 0))"

definition publishDelta :: "nat \<Rightarrow> unit io" where
  "publishDelta d = modify (progress_update (\<lambda>p. p + of_nat d))"

definition hook_sample :: "handle \<Rightarrow> unit io" where
  "hook_sample h = (\<lambda>w.
     if progress w = 0 \<or> progress w = maxuint then (Ret (), w)
     else case writeAllOrExit h (le_bytes 8 (progress w)) w of
       (Raise ThreadExit, w') \<Rightarrow> (Ret (), w')
     | r \<Rightarrow> r)"

definition hook_wakeups :: "handle \<Rightarrow> unit io" where
  "hook_wakeups h = (\<lambda>w. io_for [0..<(case ticks w of [] \<Rightarrow> 0 | n # _ \<Rightarrow> n)] (\<lambda>_. hook_sample h) (w\<lparr>ticks := tl (ticks w)\<rparr>))"

definition ls_publishDelta :: "handle \<Rightarrow> nat \<Rightarrow> unit io" where
  "ls_publishDelta h d = thn (publishDelta d) (hook_wakeups h)"

text \<open>The quotient and remainder loops: the sizes of the chunks of \<open>size\<close> bytes.\<close>

definition chunk_sizes :: "nat \<Rightarrow> nat \<Rightarrow> nat list" where
  "chunk_sizes sz c = replicate (sz div c) c @ (if sz mod c \<noteq> 0 then [sz mod c] else [])"

lemma sum_chunk_sizes: "sum_list (chunk_sizes sz c) = sz"
  using div_mult_mod_eq [of sz c] by (auto simp: chunk_sizes_def sum_list_replicate)

lemma chunk_sizes_0 [simp]: "chunk_sizes 0 c = []"
  by (simp add: chunk_sizes_def)

lemma chunk_sizes_pos: "\<lbrakk>x \<in> set (chunk_sizes sz c); 0 < c\<rbrakk> \<Longrightarrow> 0 < x"
  by (auto simp: chunk_sizes_def split: if_splits)

subsection \<open>Sending one file\<close>

definition opt_write :: "handle option \<Rightarrow> byte list \<Rightarrow> unit io" where
  "opt_write out bs = (case out of None \<Rightarrow> ret () | Some h \<Rightarrow> writeAllOrExit h bs)"

definition file_header :: "string \<Rightarrow> u64 \<Rightarrow> byte list" where
  "file_header dp thisFileSize =
     (let destLen = (of_nat (length dp) :: u16) in
      [0x00] @ le_bytes 2 destLen @ take (unat destLen) (s2b dp) @ le_bytes 8 thisFileSize)"

definition upload_chunk :: "handle option \<Rightarrow> handle \<Rightarrow> fd \<times> u64 \<Rightarrow> nat \<Rightarrow> (fd \<times> u64) io" where
  "upload_chunk outDesc networkDesc s n =
     bnd (fd_readAllOrExit (fst s) n) (\<lambda>r.
     thn (writeAllOrExit networkDesc (fst r))
    (let currentProgress = snd s + of_nat n in
     thn (opt_write outDesc (le_bytes 8 currentProgress))
    (thn (publishDelta n) (ret (snd r, currentProgress)))))"

definition OSUploadFromFileDescriptorWithProgress ::
  "fd \<Rightarrow> string \<Rightarrow> u64 \<Rightarrow> handle option \<Rightarrow> handle \<Rightarrow> int io" where
  "OSUploadFromFileDescriptorWithProgress input destination thisFileSize outDesc networkDesc =
     thn (writeAllOrExit networkDesc (file_header destination thisFileSize))
    (thn (opt_write outDesc (le_bytes 8 thisFileSize))
    (thn (io_fold (upload_chunk outDesc networkDesc) (input, 0) (chunk_sizes (unat thisFileSize) REMOTE_IO_CHUNK_SIZE))
         (ret 0)))"

definition OSUploadRegularFileWithProgress ::
  "string \<Rightarrow> string \<Rightarrow> singleStats_resp_t \<Rightarrow> handle option \<Rightarrow> handle \<Rightarrow> int io" where
  "OSUploadRegularFileWithProgress source destination fileinfo outDesc networkDesc =
     bnd (fd_create source FM_READ) (\<lambda>r. case r of
       Inl e \<Rightarrow> ret (- 1)
     | Inr input \<Rightarrow>
         let thisFileSize = ssize fileinfo in
         thn (writeAllOrExit networkDesc (file_header destination thisFileSize))
        (thn (opt_write outDesc (le_bytes 8 thisFileSize))
        (thn (io_fold (upload_chunk outDesc networkDesc) (input, 0) (chunk_sizes (unat thisFileSize) REMOTE_IO_CHUNK_SIZE))
             (ret 0))))"

subsection \<open>Sending a tree\<close>

definition dir_header :: "string \<Rightarrow> byte list" where
  "dir_header dp = (let y_len = (of_nat (length dp) :: u16) in [0x01] @ le_bytes 2 y_len @ take (unat y_len) (s2b dp))"

text \<open>The fuel bounds the depth of the recursion, as for the counting functions.\<close>

primrec genericUploadBasicRecursiveImplWithProgress ::
  "nat \<Rightarrow> string \<Rightarrow> string \<Rightarrow> handle \<Rightarrow> handle option \<Rightarrow> int io" where
  "genericUploadBasicRecursiveImplWithProgress 0 src_path dest_path networkDesc outDesc = raise OutOfFuel"
| "genericUploadBasicRecursiveImplWithProgress (Suc k) src_path dest_path networkDesc outDesc =
     bnd (existsIsFileIsDir0_st src_path) (\<lambda>(efd, st_x).
     if efd = 0 then ret (- 1)
     else if efd = 1 then
       bnd (OSUploadRegularFileWithProgress src_path dest_path st_x outDesc networkDesc) (\<lambda>ret1.
       thn (opt_write outDesc (le_bytes 8 maxuint)) (ret ret1))
     else if efd = 2 then
       bnd (plain_iterator src_path) (\<lambda>it.
       bnd (if it_ok it
            then it_each (\<lambda>it s.
                   bnd (genericUploadBasicRecursiveImplWithProgress k (pathConcat src_path (it_currentName it))
                          (pathConcat dest_path (it_currentName it)) networkDesc outDesc) (\<lambda>ret1.
                   ret (False, if ret1 < 0 then ret1 else snd s))) it (True, 0)
            else ret (True, 0)) (\<lambda>s.
       if fst s then thn (writeAllOrExit networkDesc (dir_header dest_path)) (ret (snd s))
       else ret (snd s)))
     else ret 0)"

definition upload_item :: "handle \<Rightarrow> handle option \<Rightarrow> string \<times> string \<Rightarrow> unit io" where
  "upload_item networkDesc outDesc item =
     bnd (get wfs) (\<lambda>f.
     thn (genericUploadBasicRecursiveImplWithProgress (count_fuel f) (fst item) (snd item) networkDesc outDesc) (ret ()))"

definition count_items :: "(string \<times> string) list \<Rightarrow> sts_sz io" where
  "count_items v =
     bnd (io_fold (\<lambda>s item. bnd (countStats (fst item) (snd s)) (\<lambda>r. ret (add_sts_sz (fst s) (fst r), snd r)))
            (\<lparr>tFiles = 0, tFolders = 0, tSize = 0\<rparr>, Map.empty) v) (\<lambda>s. ret (fst s))"

definition server_download :: "handle \<Rightarrow> unit io" where
  "server_download rcl =
     bnd (receivePathPairsList rcl) (\<lambda>v.
     bnd (count_items v) (\<lambda>counts.
     thn getProgressHook
    (thn (writeAllOrExit rcl (le_bytes 8 (tFiles counts)))
    (thn (writeAllOrExit rcl (le_bytes 8 (tSize counts)))
    (thn (io_for v (upload_item rcl None))
         (writeAllOrExit rcl [0xFF]))))))"

definition client_upload :: "handle \<Rightarrow> handle \<Rightarrow> unit io" where
  "client_upload cl rcl =
     bnd (receivePathPairsList cl) (\<lambda>v.
     bnd (count_items v) (\<lambda>counts.
     thn getProgressHook
    (thn (writeAllOrExit rcl [code_value ACTION_UPLOAD])
    (thn (io_for [rcl, cl] (\<lambda>descriptor.
            thn (writeAllOrExit descriptor (le_bytes 8 (tFiles counts)))
                (writeAllOrExit descriptor (le_bytes 8 (tSize counts)))))
    (thn (io_for v (upload_item rcl (Some cl)))
    (thn (writeAllOrExit cl (le_bytes 8 maxuint_2))
         (writeAllOrExit rcl [0xFF])))))))"

text \<open>
  \<open>client_upload_from_fds\<close>: the descriptors arrive out of band on the Unix socket; \<open>fds\<close> is what
  the successive calls of \<open>recvfd\<close> return (\<open>None\<close>: a negative value).
\<close>

definition upload_from_fds_round :: "handle \<Rightarrow> handle \<Rightarrow> fd option list \<Rightarrow> (fd option list + unit) io" where
  "upload_from_fds_round cl rcl fds =
     bnd (readStringWithLen cl) (\<lambda>destPath.
     if destPath = [] then ret (Inr ())
     else bnd (readAllOrExit cl 8) (\<lambda>sz.
       case fds of
         Some d # rest \<Rightarrow>
           thn (OSUploadFromFileDescriptorWithProgress d destPath (le_word sz) (Some cl) rcl)
          (thn (writeAllOrExit cl (le_bytes 8 maxuint)) (ret (Inl rest)))
       | _ \<Rightarrow> threadExit))"

definition client_upload_from_fds :: "handle \<Rightarrow> handle \<Rightarrow> request_type \<Rightarrow> fd option list \<Rightarrow> unit io" where
  "client_upload_from_fds cl rcl rq fds =
     bnd (readAllOrExit cl 8) (\<lambda>totalSize.
     thn getProgressHook
    (thn (writeAllOrExit rcl [byte_of_request rq])
    (thn (writeAllOrExit rcl (le_bytes 8 (0 :: u64)))
    (thn (writeAllOrExit rcl totalSize)
    (thn (io_loop cl (upload_from_fds_round cl rcl) fds)
    (thn (writeAllOrExit cl (le_bytes 8 maxuint_2))
         (writeAllOrExit rcl [0xFF])))))))"

subsection \<open>Receiving\<close>

definition download_chunk :: "handle \<Rightarrow> handle option \<Rightarrow> fd \<times> u64 \<Rightarrow> nat \<Rightarrow> (fd \<times> u64) io" where
  "download_chunk rcl cl s n =
     bnd (readAllOrExit rcl n) (\<lambda>buffer.
     bnd (fd_writeAllOrExit (fst s) buffer) (\<lambda>fd.
     let currentProgress = snd s + of_nat n in
     thn (opt_write cl (le_bytes 8 currentProgress))
    (thn (publishDelta n) (ret (fd, currentProgress)))))"

definition download_file :: "handle \<Rightarrow> handle option \<Rightarrow> fileitem_sock_t \<Rightarrow> unit io" where
  "download_file rcl cl fileitem =
     (let filepath = itemfile fileitem; parent = getParentDir filepath in
      bnd (mkpathCopyPermissionsFromNearestAncestor parent True) (\<lambda>r.
      if r < 0 then thn (closeDesc rcl) threadExit
      else bnd (fd_create filepath FM_XCL) (\<lambda>opened. case opened of
        Inl e \<Rightarrow> thn (closeDesc rcl) threadExit
      | Inr fd \<Rightarrow>
          thn (opt_write cl (le_bytes 8 (fisize fileitem)))
         (thn (io_fold (download_chunk rcl cl) (fd, 0) (chunk_sizes (unat (fisize fileitem)) REMOTE_IO_CHUNK_SIZE))
              (opt_write cl (le_bytes 8 maxuint))))))"

definition download_item :: "handle \<Rightarrow> handle option \<Rightarrow> unit \<Rightarrow> (unit + unit) io" where
  "download_item rcl cl u =
     bnd (read_fileitem_sock_t rcl) (\<lambda>fileitem.
     if itemflag fileitem = 0xFF then ret (Inr ())
     else if itemflag fileitem = 0x00 then thn (download_file rcl cl fileitem) (ret (Inl ()))
     else if itemflag fileitem = 0x01 then
       thn (mkpathCopyPermissionsFromNearestAncestor (itemfile fileitem) True) (ret (Inl ()))
     else thn (closeDesc rcl) threadExit)"

definition downloadRemoteItems :: "handle \<Rightarrow> handle option \<Rightarrow> unit io" where
  "downloadRemoteItems rcl cl =
     bnd (readAllOrExit rcl 8) (\<lambda>totalFiles.
     bnd (readAllOrExit rcl 8) (\<lambda>totalSize.
     thn (opt_write cl totalFiles)
    (thn (opt_write cl totalSize)
    (thn getProgressHook
    (thn (io_loop rcl (download_item rcl cl) ())
         (opt_write cl (le_bytes 8 maxuint_2)))))))"

definition client_download :: "handle \<Rightarrow> handle \<Rightarrow> unit io" where
  "client_download cl rcl =
     bnd (receivePathPairsList cl) (\<lambda>v.
     thn (writeAllOrExit rcl [code_value ACTION_DOWNLOAD])
    (thn (sendPathPairsList v rcl)
         (downloadRemoteItems rcl (Some cl))))"

end
