(* ===== verification/RH_Upload.thy ===== *)
theory RH_Upload
  imports RH_Transfer
begin

section \<open>What an upload sends\<close>

text \<open>
  The items of a tree, and the proof that \<open>genericUploadBasicRecursiveImplWithProgress\<close> sends
  exactly their encodings, with the progress values of every file on the local socket, for trees of
  regular files and directories. For a symbolic link it does not, which is the last theorem.
\<close>

subsection \<open>The items of a tree\<close>

datatype item = ItemFile string "byte list" | ItemDir string

fun item_wire :: "item \<Rightarrow> byte list" where
  "item_wire (ItemFile p d) = file_header p (of_nat (length d)) @ d"
| "item_wire (ItemDir p) = dir_header p"

text \<open>The running totals after each chunk.\<close>

fun running :: "u64 \<Rightarrow> nat list \<Rightarrow> u64 list" where
  "running p [] = []"
| "running p (n # ns) = (p + of_nat n) # running (p + of_nat n) ns"

definition u64s_wire :: "u64 list \<Rightarrow> byte list" where
  "u64s_wire xs = concat (map (le_bytes 8) xs)"

definition file_progress :: "nat \<Rightarrow> byte list" where
  "file_progress sz = le_bytes 8 (of_nat sz :: u64) @ u64s_wire (running 0 (chunk_sizes sz REMOTE_IO_CHUNK_SIZE))"

fun item_progress :: "item \<Rightarrow> byte list" where
  "item_progress (ItemFile p d) = file_progress (length d) @ le_bytes 8 maxuint"
| "item_progress (ItemDir p) = []"

definition items_wire :: "item list \<Rightarrow> byte list" where
  "items_wire its = concat (map item_wire its)"

definition items_progress :: "item list \<Rightarrow> byte list" where
  "items_progress its = concat (map item_progress its)"

lemma items_wire_append: "items_wire (a @ b) = items_wire a @ items_wire b"
  by (simp add: items_wire_def)

lemma items_progress_append: "items_progress (a @ b) = items_progress a @ items_progress b"
  by (simp add: items_progress_def)

lemma items_wire_simps [simp]: "items_wire [] = []" "items_wire (x # xs) = item_wire x @ items_wire xs"
  by (simp_all add: items_wire_def)

lemma items_progress_simps [simp]:
  "items_progress [] = []" "items_progress (x # xs) = item_progress x @ items_progress xs"
  by (simp_all add: items_progress_def)

lemma u64s_wire_simps [simp]: "u64s_wire [] = []" "u64s_wire (x # xs) = le_bytes 8 x @ u64s_wire xs"
  by (simp_all add: u64s_wire_def)

lemma concat_items_wire: "concat (map items_wire xs) = items_wire (concat xs)"
  by (induction xs) (simp_all add: items_wire_def)

lemma concat_items_progress: "concat (map items_progress xs) = items_progress (concat xs)"
  by (induction xs) (simp_all add: items_progress_def)

fun tree_items :: "string \<Rightarrow> node \<Rightarrow> item list" where
  "tree_items dst (Dir a es) =
     (if es = [] then [ItemDir dst]
      else concat (map (\<lambda>e. tree_items (pathConcat dst (fst e)) (snd e)) (rev es)))"
| "tree_items dst (Reg a d) = [ItemFile dst d]"
| "tree_items dst n = []"

fun plain_tree :: "node \<Rightarrow> bool" where
  "plain_tree (Dir a es) \<longleftrightarrow> (\<forall>e \<in> set es. plain_tree (snd e))"
| "plain_tree (Reg a d) \<longleftrightarrow> length d < 2 ^ 64"
| "plain_tree _ \<longleftrightarrow> False"

subsection \<open>Sending a file\<close>

definition opt_out :: "handle option \<Rightarrow> byte list \<Rightarrow> handle \<Rightarrow> byte list" where
  "opt_out out bs h = (case out of None \<Rightarrow> [] | Some h' \<Rightarrow> only h' bs h)"

lemma opt_out_append: "opt_out out a h @ opt_out out b h = opt_out out (a @ b) h"
  by (simp add: opt_out_def only_def split: option.splits)

lemma opt_out_Nil [simp]: "opt_out out [] h = []"
  by (simp add: opt_out_def only_def split: option.splits)

lemma only_Nil [simp]: "only h [] h' = []"
  by (simp add: only_def)

lemma only_append: "only h a h' @ only h b h' = only h (a @ b) h'"
  by (simp add: only_def)

text \<open>Two streams on different handles, written in turn.\<close>

definition two_out :: "handle \<Rightarrow> byte list \<Rightarrow> handle option \<Rightarrow> byte list \<Rightarrow> handle \<Rightarrow> byte list" where
  "two_out net a out b h = only net a h @ opt_out out b h"

lemma two_out_append:
  "out \<noteq> Some net \<Longrightarrow> two_out net a out b h @ two_out net a' out b' h = two_out net (a @ a') out (b @ b') h"
  by (auto simp: two_out_def only_def opt_out_def split: option.splits)

lemma two_out_net: "two_out net a out [] h = only net a h"
  by (simp add: two_out_def)

lemma two_out_out: "two_out net [] out b h = opt_out out b h"
  by (simp add: two_out_def)

lemma two_out_none: "two_out net [] out [] h = []"
  by (simp add: two_out_def)

lemma emit_two_out: "emit_all (two_out Rcl a (Some Cl) b) w = emit Rcl a (emit Cl b w)"
  by (simp add: emit_as_all) (simp add: emit_all_def two_out_def only_def opt_out_def fun_eq_iff)

lemma concat_two_out:
  "out \<noteq> Some net \<Longrightarrow> concat (map (\<lambda>x. two_out net (a x) out (b x) h) xs)
     = two_out net (concat (map a xs)) out (concat (map b xs)) h"
  by (induction xs) (simp_all add: two_out_none two_out_append)

lemma says_opt_write: "says f u (opt_write out bs) () (opt_out out bs)"
proof (cases out)
  case None
  show ?thesis unfolding None opt_write_def option.case
    by (rule says_cong [OF says_ret]) (simp_all add: opt_out_def)
next
  case (Some h)
  show ?thesis unfolding Some opt_write_def option.case
    by (rule says_cong [OF says_write]) (simp_all add: opt_out_def)
qed

lemma says_publishDelta: "says f u (publishDelta n) () (\<lambda>h. [])"
  unfolding says_def publishDelta_def
proof (intro allI impI)
  fix w :: world
  show "\<exists>e p. modify (progress_update (\<lambda>p. p + of_nat n)) w = (Ret (), emit_all (\<lambda>h. []) (w\<lparr>errno := e, progress := p\<rparr>))"
    by (intro exI [of _ "errno w"] exI [of _ "progress w + of_nat n"]) (simp add: modify_app)
qed

lemma says_getProgressHook: "says f u getProgressHook () (\<lambda>h. [])"
  unfolding says_def getProgressHook_def
proof (intro allI impI)
  fix w :: world
  show "\<exists>e p. modify (progress_update (\<lambda>_. 0)) w = (Ret (), emit_all (\<lambda>h. []) (w\<lparr>errno := e, progress := p\<rparr>))"
    by (intro exI [of _ "errno w"] exI [of _ 0]) (simp add: modify_app)
qed

lemma says_fd_read:
  assumes "no_faults f" "file_data f (fd_loc d) = Some data" "fd_pos d + n \<le> length data"
  shows "says f u (fd_readAllOrExit d n) (take n (drop (fd_pos d) data), fd_advance n d) (\<lambda>h. [])"
  unfolding says_def
proof (intro allI impI)
  fix w :: world
  assume "wfs w = f"
  with assms show "\<exists>e p. fd_readAllOrExit d n w
      = (Ret (take n (drop (fd_pos d) data), fd_advance n d), emit_all (\<lambda>h. []) (w\<lparr>errno := e, progress := p\<rparr>))"
    by (intro exI [of _ "errno w"] exI [of _ "progress w"])
      (simp add: fd_readAllOrExit_def sys_read_def no_faults_faulty)
qed

lemma fd_advance_sel [simp]:
  "fd_loc (fd_advance n d) = fd_loc d" "fd_pos (fd_advance n d) = fd_pos d + n" "fd_path (fd_advance n d) = fd_path d"
  by (simp_all add: fd_advance_def)

lemma fd_advance_advance [simp]: "fd_advance m (fd_advance n d) = fd_advance (n + m) d"
  by (simp add: fd_advance_def add.assoc)

lemma fd_advance_0 [simp]: "fd_advance 0 d = d"
  by (simp add: fd_advance_def)

lemma says_upload_chunk:
  assumes "no_faults f" "file_data f (fd_loc d) = Some data" "fd_pos d + n \<le> length data"
  shows "says f u (upload_chunk out net (d, p) n) (fd_advance n d, p + of_nat n)
     (two_out net (take n (drop (fd_pos d) data)) out (le_bytes 8 (p + of_nat n)))"
proof -
  have "says f u (upload_chunk out net (d, p) n) (fd_advance n d, p + of_nat n)
     (\<lambda>h. [] @ only net (take n (drop (fd_pos d) data)) h @ opt_out out (le_bytes 8 (p + of_nat n)) h @ [] @ [])"
    unfolding upload_chunk_def Let_def
    by (rule says_bnd, subst fst_conv, rule says_fd_read [OF assms], intro says_thn)
      (simp_all add: says_write says_opt_write says_publishDelta says_ret)
  then show ?thesis by (rule says_cong) (simp_all add: two_out_def)
qed

lemma says_upload_chunks:
  assumes "no_faults f" "out \<noteq> Some net"
  shows "\<lbrakk>file_data f (fd_loc d) = Some data; fd_pos d + sum_list ns \<le> length data\<rbrakk> \<Longrightarrow>
    says f u (io_fold (upload_chunk out net) (d, p) ns) (fd_advance (sum_list ns) d, p + of_nat (sum_list ns))
     (two_out net (take (sum_list ns) (drop (fd_pos d) data)) out (u64s_wire (running p ns)))"
proof (induction ns arbitrary: d p)
  case Nil
  show ?case by (simp, rule says_cong [OF says_ret]) (simp_all add: two_out_none)
next
  case (Cons n ns)
  have 1: "says f u (upload_chunk out net (d, p) n) (fd_advance n d, p + of_nat n)
     (two_out net (take n (drop (fd_pos d) data)) out (le_bytes 8 (p + of_nat n)))"
    using Cons.prems assms(1) by (intro says_upload_chunk) simp_all
  have 2: "says f u (io_fold (upload_chunk out net) (fd_advance n d, p + of_nat n) ns)
       (fd_advance (sum_list ns) (fd_advance n d), (p + of_nat n) + of_nat (sum_list ns))
     (two_out net (take (sum_list ns) (drop (fd_pos (fd_advance n d)) data)) out (u64s_wire (running (p + of_nat n) ns)))"
    using Cons.prems by (intro Cons.IH) simp_all
  have "take n (drop (fd_pos d) data) @ take (sum_list ns) (drop (fd_pos d + n) data)
      = take (n + sum_list ns) (drop (fd_pos d) data)"
    by (simp add: take_add add.commute)
  note whole = this
  show ?case
    unfolding io_fold.simps
    by (rule says_cong, rule says_bnd, rule 1, rule 2) (simp_all add: two_out_append assms(2) add.assoc whole)
qed

lemma file_open_at_path:
  assumes "at_path f cs (Reg a d)"
  shows "sys_open_read (abs_path cs) f = Inr \<lparr>fd_path = abs_path cs, fd_loc = cs, fd_pos = 0\<rparr>"
    and "file_data f cs = Some d"
  using assms by (simp_all add: sys_open_read_def at_path_def no_faults_faulty resolve_plain_Found file_data_def)

lemma says_fd_create_read:
  "sys_open_read p f = Inr d \<Longrightarrow> says f u (fd_create p FM_READ) (Inr d) (\<lambda>h. [])"
  unfolding says_def
proof (intro allI impI)
  fix w :: world
  assume "sys_open_read p f = Inr d" "wfs w = f"
  then show "\<exists>e q. fd_create p FM_READ w = (Ret (Inr d), emit_all (\<lambda>h. []) (w\<lparr>errno := e, progress := q\<rparr>))"
    by (intro exI [of _ "errno w"] exI [of _ "progress w"]) (simp add: fd_create_def)
qed

text \<open>The header, the announced number of bytes and the progress of sending \<open>sz\<close> bytes of an open file.\<close>

lemma says_send_data:
  assumes "no_faults f" "out \<noteq> Some net" "file_data f (fd_loc d) = Some data" "fd_pos d = 0"
    "sz \<le> length data" "sz < 2 ^ 64"
  shows "says f u (thn (writeAllOrExit net (file_header dst (of_nat sz)))
      (thn (opt_write out (le_bytes 8 (of_nat sz :: u64)))
      (thn (io_fold (upload_chunk out net) (d, 0) (chunk_sizes (unat (of_nat sz :: u64)) REMOTE_IO_CHUNK_SIZE)) (ret (0::int)))))
     0 (two_out net (file_header dst (of_nat sz) @ take sz data) out (file_progress sz))"
proof -
  let ?ns = "chunk_sizes sz REMOTE_IO_CHUNK_SIZE"
  have un: "unat (of_nat sz :: u64) = sz" using assms(6) by (simp add: unat_of_nat)
  have sm: "sum_list ?ns = sz" by (rule sum_chunk_sizes)
  have 1: "says f u (io_fold (upload_chunk out net) (d, 0) ?ns) (fd_advance sz d, of_nat sz)
     (two_out net (take sz data) out (u64s_wire (running 0 ?ns)))"
    using says_upload_chunks [OF assms(1,2,3), of ?ns u 0] assms(4,5) unfolding sm by simp
  have "says f u (thn (writeAllOrExit net (file_header dst (of_nat sz)))
      (thn (opt_write out (le_bytes 8 (of_nat sz :: u64)))
      (thn (io_fold (upload_chunk out net) (d, 0) ?ns) (ret (0::int)))))
     0 (\<lambda>h. two_out net (file_header dst (of_nat sz)) out [] h @ two_out net [] out (le_bytes 8 (of_nat sz :: u64)) h
          @ two_out net (take sz data) out (u64s_wire (running 0 ?ns)) h @ two_out net [] out [] h)"
    unfolding two_out_net two_out_out only_Nil
    by (rule says_thn [OF says_write says_thn [OF says_opt_write says_thn [OF 1 says_ret]]])
  then show ?thesis
    unfolding un by (rule says_cong) (simp_all add: two_out_append assms(2) file_progress_def)
qed

lemma efd_stats_at_path:
  "at_path f cs n \<Longrightarrow> ssize (efd_stats (abs_path cs) f u) = of_nat (node_size n)"
  by (simp add: efd_stats_def stats_of_def at_path_lstat stats_record_def)

lemma says_upload_file:
  assumes "at_path f cs (Reg a d)" "length d < 2 ^ 64" "out \<noteq> Some net"
  shows "says f u (OSUploadRegularFileWithProgress (abs_path cs) dst (efd_stats (abs_path cs) f u) out net) 0
     (two_out net (item_wire (ItemFile dst d)) out (file_progress (length d)))"
proof -
  have nf: "no_faults f" using assms(1) by (simp add: at_path_def)
  let ?d = "\<lparr>fd_path = abs_path cs, fd_loc = cs, fd_pos = 0\<rparr>"
  note 1 = says_fd_create_read [OF file_open_at_path(1) [OF assms(1)], of u]
  note 2 = says_send_data [OF nf assms(3), of ?d d "length d" u dst]
  show ?thesis
    unfolding OSUploadRegularFileWithProgress_def Let_def efd_stats_at_path [OF assms(1)]
    by (rule says_cong [OF says_bnd [OF 1]], unfold sum.case node_size.simps, rule 2)
      (use assms file_open_at_path(2) [OF assms(1)] in simp_all)
qed

lemma pathConcat_abs_path:
  assumes "\<forall>c \<in> set cs. good_name c" "cs \<noteq> []"
  shows "pathConcat (abs_path cs) nm = abs_path (cs @ [nm])"
proof -
  obtain xs c where cs: "cs = xs @ [c]" using assms(2) by (metis rev_exhaust)
  then have "c \<noteq> []" "CHR ''/'' \<notin> set c" using assms(1) by (simp_all add: good_name_def)
  then have "last (abs_path cs) \<noteq> CHR ''/''" using cs by (metis abs_path_snoc last.simps last_appendR last_in_set list.discI)
  with assms(2) show ?thesis by (simp add: pathConcat_def)
qed

subsection \<open>Sending a tree\<close>

lemma fold_False: "fold (\<lambda>x s. (False, snd s)) xs (b, r) = (b \<and> xs = [], r)"
  by (induction xs arbitrary: b) auto

lemma says_upload_tree:
  "\<lbrakk>at_path f cs n; wf_node n; plain_tree n; nodes n \<le> k; out \<noteq> Some net\<rbrakk> \<Longrightarrow>
   says f u (genericUploadBasicRecursiveImplWithProgress k (abs_path cs) dst net out) 0
     (two_out net (items_wire (tree_items dst n)) out (items_progress (tree_items dst n)))"
proof (induction k arbitrary: cs n dst)
  case 0
  then show ?case using nodes_pos [of n] by simp
next
  case (Suc k)
  have good: "\<forall>c \<in> set cs. good_name c" "cs \<noteq> []" using Suc.prems(1) by (simp_all add: at_path_def)
  note efd = quiet_existsIsFileIsDir0_st [of "abs_path cs"]
  show ?case
  proof (cases n)
    case (Dir a es)
    let ?es = "rev (map (\<lambda>e. (abs_path (cs @ [fst e]), fst e)) es)"
    let ?its = "\<lambda>x. tree_items (pathConcat dst (snd x)) (the (map_of es (snd x)))"
    let ?body = "\<lambda>it s. bnd (genericUploadBasicRecursiveImplWithProgress k (pathConcat (abs_path cs) (it_currentName it))
        (pathConcat dst (it_currentName it)) net out) (\<lambda>ret1. ret (False, if ret1 < 0 then ret1 else snd s))"
    have at: "at_path f cs (Dir a es)" "wf_node (Dir a es)" using Suc.prems Dir by simp_all
    have ent: "entries_of (abs_path cs) f = Some ?es" using entries_at_path [OF at] .
    have body: "says f u (?body it s) ((\<lambda>x s. (False, snd s)) (it_current it, it_currentName it) s)
        ((\<lambda>x s. two_out net (items_wire (?its x)) out (items_progress (?its x))) (it_current it, it_currentName it) s)"
      if "(it_current it, it_currentName it) \<in> set ?es" for it and s :: "bool \<times> int"
    proof -
      from that obtain c where c: "(it_currentName it, c) \<in> set es" by auto
      then have mo: "map_of es (it_currentName it) = Some c" using at(2) by simp
      have "says f u (genericUploadBasicRecursiveImplWithProgress k (abs_path (cs @ [it_currentName it]))
          (pathConcat dst (it_currentName it)) net out) 0
        (two_out net (items_wire (tree_items (pathConcat dst (it_currentName it)) c)) out
           (items_progress (tree_items (pathConcat dst (it_currentName it)) c)))"
      proof (rule Suc.IH)
        show "at_path f (cs @ [it_currentName it]) c" using at c(1) by (rule at_path_child)
        show "wf_node c" "plain_tree c" using at(2) Suc.prems(3) Dir c by fastforce+
        show "nodes c \<le> k" using nodes_child [OF c, of a] Suc.prems(4) Dir by simp
      qed fact
      note up = this [folded pathConcat_abs_path [OF good]]
      show ?thesis by (rule says_cong, rule says_bnd, rule up, rule says_ret) (simp_all add: mo)
    qed
    have wire: "concat (map (\<lambda>x. items_wire (?its x)) ?es) = (if es = [] then [] else items_wire (tree_items dst n))"
      and prog: "concat (map (\<lambda>x. items_progress (?its x)) ?es) = (if es = [] then [] else items_progress (tree_items dst n))"
    proof -
      have "map (\<lambda>x. ?its x) ?es = map (\<lambda>e. tree_items (pathConcat dst (fst e)) (snd e)) (rev es)"
        using at(2) by (auto simp: rev_map)
      note eq = this
      have "concat (map (\<lambda>x. items_wire (?its x)) ?es) = items_wire (concat (map ?its ?es))"
        "concat (map (\<lambda>x. items_progress (?its x)) ?es) = items_progress (concat (map ?its ?es))"
        by (simp_all only: concat_items_wire [symmetric] concat_items_progress [symmetric] map_map comp_def)
      then show "concat (map (\<lambda>x. items_wire (?its x)) ?es) = (if es = [] then [] else items_wire (tree_items dst n))"
        "concat (map (\<lambda>x. items_progress (?its x)) ?es) = (if es = [] then [] else items_progress (tree_items dst n))"
        unfolding eq by (simp_all add: Dir)
    qed
    have loop: "says f u (it_each ?body it (True, 0)) (es = [], 0)
        (two_out net (if es = [] then [] else items_wire (tree_items dst n)) out
           (if es = [] then [] else items_progress (tree_items dst n)))"
      if "it_listing it = PLAIN" "it_mode it = FULL" "it_names it" "it_stack it = ?es" for it
    proof -
      have "fold (\<lambda>x s. (False, snd s)) ?es (True, 0 :: int) = (es = [], 0)"
        by (cases es rule: rev_cases) (simp_all add: fold_False)
      note val = this
      show ?thesis
        by (rule says_cong, rule says_it_each [of ?es f u ?body "\<lambda>x s. (False, snd s)"
              "\<lambda>x s. two_out net (items_wire (?its x)) out (items_progress (?its x))", OF body that])
          (assumption | rule val | simp only: fold_out_const concat_two_out [OF Suc.prems(5)] wire prog)+
    qed
    have rest: "says f u (bnd (plain_iterator (abs_path cs)) (\<lambda>it.
         bnd (if it_ok it then it_each ?body it (True, 0) else ret (True, 0)) (\<lambda>s.
         if fst s then thn (writeAllOrExit net (dir_header dst)) (ret (snd s)) else ret (snd s)))) 0
       (two_out net (items_wire (tree_items dst n)) out (items_progress (tree_items dst n)))"
    proof (rule says_plain_iterator [OF ent])
      fix it :: dirIterator
      assume it: "it_error it = 0" "it_listing it = PLAIN" "it_mode it = FULL" "it_names it" "it_stack it = ?es"
      have ok: "it_ok it" using it(1) by (simp add: it_ok_def)
      show "says f u (bnd (if it_ok it then it_each ?body it (True, 0) else ret (True, 0)) (\<lambda>s.
         if fst s then thn (writeAllOrExit net (dir_header dst)) (ret (snd s)) else ret (snd s))) 0
         (two_out net (items_wire (tree_items dst n)) out (items_progress (tree_items dst n)))"
      proof (cases "es = []")
        case True
        show ?thesis
          unfolding if_P [OF ok]
          by (rule says_cong, rule says_bnd, rule loop [OF it(2-5)], unfold fst_conv if_P [OF True] snd_conv,
              rule says_thn [OF says_write says_ret])
            (simp_all add: True Dir items_wire_def items_progress_def two_out_def)
      next
        case False
        show ?thesis
          unfolding if_P [OF ok]
          by (rule says_cong, rule says_bnd, rule loop [OF it(2-5)], unfold fst_conv if_not_P [OF False] snd_conv,
              rule says_ret) simp_all
      qed
    qed
    show ?thesis
      unfolding genericUploadBasicRecursiveImplWithProgress.simps
      by (rule says_quiet_bnd [OF efd]) (use rest in \<open>simp add: Dir efd_at_path [OF at(1)] cong: if_cong\<close>)
  next
    case (Reg a d)
    then have at: "at_path f cs (Reg a d)" and len: "length d < 2 ^ 64" using Suc.prems by simp_all
    have "says f u (bnd (OSUploadRegularFileWithProgress (abs_path cs) dst (efd_stats (abs_path cs) f u) out net) (\<lambda>ret1.
       thn (opt_write out (le_bytes 8 maxuint)) (ret ret1))) 0
       (two_out net (items_wire (tree_items dst n)) out (items_progress (tree_items dst n)))"
      by (rule says_cong, rule says_bnd, rule says_upload_file [OF at len Suc.prems(5)],
          rule says_thn [OF says_opt_write says_ret])
        (simp_all add: Reg items_wire_def items_progress_def two_out_def opt_out_append)
    then show ?thesis
      unfolding genericUploadBasicRecursiveImplWithProgress.simps
      by (intro says_quiet_bnd [OF efd]) (simp add: efd_at_path [OF at] cong: if_cong)
  qed (use Suc.prems in simp_all)
qed

text \<open>The tree of the examples.\<close>

lemma sample_at: "at_path (wfs sample_world) [''d''] (Dir attr0 [(''x'', Reg attr0 [1, 2, 3]), (''y'', Reg attr0 [4])])"
  and sample_wf: "wf_node (Dir attr0 [(''x'', Reg attr0 [1, 2, 3]), (''y'', Reg attr0 [4])])"
  and sample_plain: "plain_tree (Dir attr0 [(''x'', Reg attr0 [1, 2, 3]), (''y'', Reg attr0 [4])])"
  and sample_wr: "\<forall>h. wr h sample_world"
  by (simp_all add: at_path_def sample_world_def no_faults_def good_name_def dirs_above_def)

subsection \<open>Sending a list of sources\<close>

definition plain_source :: "fs \<Rightarrow> string \<Rightarrow> bool" where
  "plain_source f s \<longleftrightarrow> (\<exists>cs n. s = abs_path cs \<and> at_path f cs n \<and> wf_node n \<and> plain_tree n)"

definition node_at :: "fs \<Rightarrow> string \<Rightarrow> node" where
  "node_at f s = (case sys_lstat s f of Inr n \<Rightarrow> n | Inl e \<Rightarrow> root f)"

definition list_items :: "fs \<Rightarrow> (string \<times> string) list \<Rightarrow> item list" where
  "list_items f v = concat (map (\<lambda>p. tree_items (snd p) (node_at f (fst p))) v)"

definition list_files :: "fs \<Rightarrow> (string \<times> string) list \<Rightarrow> u64" where
  "list_files f v = of_nat (sum_list (map (\<lambda>p. tree_files (node_at f (fst p))) v))"

definition list_bytes :: "fs \<Rightarrow> (string \<times> string) list \<Rightarrow> u64" where
  "list_bytes f v = of_nat (sum_list (map (\<lambda>p. tree_bytes (node_at f (fst p))) v))"

lemma node_at_path: "at_path f cs n \<Longrightarrow> node_at f (abs_path cs) = n"
  by (simp add: node_at_def at_path_lstat)

lemma says_app: "\<lbrakk>\<And>w. wfs w = f \<Longrightarrow> m w = m' w; says f u m' v out\<rbrakk> \<Longrightarrow> says f u m v out"
  by (simp add: says_def)

lemma nodes_at_path: "at_path f cs n \<Longrightarrow> nodes n \<le> count_fuel f"
  using nodes_lookup [of "root f" cs n] by (simp add: at_path_def count_fuel_def)

lemma says_upload_item:
  assumes "plain_source f (fst p)" "out \<noteq> Some net"
  shows "says f u (upload_item net out p) ()
     (two_out net (items_wire (tree_items (snd p) (node_at f (fst p)))) out
        (items_progress (tree_items (snd p) (node_at f (fst p)))))"
proof -
  obtain cs n where s: "fst p = abs_path cs" "at_path f cs n" "wf_node n" "plain_tree n"
    using assms(1) by (auto simp: plain_source_def)
  note 1 = says_upload_tree [OF s(2-4) nodes_at_path [OF s(2)] assms(2), of u "snd p", folded s(1)]
  have "says f u (thn (genericUploadBasicRecursiveImplWithProgress (count_fuel f) (fst p) (snd p) net out) (ret ())) ()
     (two_out net (items_wire (tree_items (snd p) (node_at f (fst p)))) out
        (items_progress (tree_items (snd p) (node_at f (fst p)))))"
    by (rule says_cong, rule says_thn [OF 1 says_ret]) (simp_all add: s(1) node_at_path [OF s(2)])
  then show ?thesis
    by (intro says_app [of f "upload_item net out p"]) (simp_all add: upload_item_def bnd_app get_app)
qed

lemma says_upload_items:
  assumes "out \<noteq> Some net"
  shows "(\<forall>p \<in> set v. plain_source f (fst p)) \<Longrightarrow>
    says f u (io_for v (upload_item net out)) () (two_out net (items_wire (list_items f v)) out (items_progress (list_items f v)))"
proof (induction v)
  case Nil
  show ?case unfolding io_for.simps by (rule says_cong, rule says_ret) (simp_all add: list_items_def two_out_none)
next
  case (Cons p v)
  then have 1: "plain_source f (fst p)" and 2: "says f u (io_for v (upload_item net out)) ()
      (two_out net (items_wire (list_items f v)) out (items_progress (list_items f v)))" by simp_all
  show ?case
    unfolding io_for.simps
    by (rule says_cong, rule says_thn [OF says_upload_item [OF 1 assms] 2])
      (simp_all add: two_out_append assms list_items_def items_wire_append items_progress_append)
qed

lemma says_count_fold:
  "(\<forall>p \<in> set v. plain_source f (fst p)) \<Longrightarrow>
   \<exists>m'. says f u (io_fold (\<lambda>s item. bnd (countStats (fst item) (snd s)) (\<lambda>r. ret (add_sts_sz (fst s) (fst r), snd r))) (s, m) v)
     (\<lparr>tFiles = tFiles s + list_files f v,
       tFolders = tFolders s + of_nat (sum_list (map (\<lambda>p. tree_dirs (node_at f (fst p))) v)),
       tSize = tSize s + list_bytes f v\<rparr>, m') (\<lambda>h. [])"
proof (induction v arbitrary: s m)
  case Nil
  show ?case unfolding io_fold.simps
    by (rule exI [of _ m], rule says_cong, rule says_ret) (simp_all add: list_files_def list_bytes_def)
next
  case (Cons p v)
  then obtain cs n where c: "fst p = abs_path cs" "at_path f cs n" "wf_node n" by (auto simp: plain_source_def)
  let ?f = "\<lambda>s item. bnd (countStats (fst item) (snd s)) (\<lambda>r. ret (add_sts_sz (fst s) (fst r), snd r))"
  let ?s = "add_sts_sz s (tree_sts n)" and ?m = "tree_map cs n m"
  have 1: "says f u (?f (s, m) p) (?s, ?m) (\<lambda>h. [])"
    by (rule says_cong, rule says_bnd, unfold c(1) snd_conv fst_conv, rule says_countStats [OF c(2,3)], rule says_ret) simp_all
  from Cons obtain m' where 2: "says f u (io_fold ?f (?s, ?m) v)
     (\<lparr>tFiles = tFiles ?s + list_files f v,
       tFolders = tFolders ?s + of_nat (sum_list (map (\<lambda>p. tree_dirs (node_at f (fst p))) v)),
       tSize = tSize ?s + list_bytes f v\<rparr>, m') (\<lambda>h. [])" by fastforce
  show ?case
    unfolding io_fold.simps
    by (rule exI [of _ m'], rule says_cong, rule says_bnd, rule 1, rule 2)
      (simp_all add: add_sts_sz_def tree_sts_def list_files_def list_bytes_def c(1) node_at_path [OF c(2)])
qed

lemma says_count_items:
  assumes "\<forall>p \<in> set v. plain_source f (fst p)"
  shows "says f u (count_items v)
    \<lparr>tFiles = list_files f v, tFolders = of_nat (sum_list (map (\<lambda>p. tree_dirs (node_at f (fst p))) v)),
     tSize = list_bytes f v\<rparr> (\<lambda>h. [])"
proof -
  obtain m' where 1: "says f u (io_fold (\<lambda>s item. bnd (countStats (fst item) (snd s)) (\<lambda>r. ret (add_sts_sz (fst s) (fst r), snd r)))
      (\<lparr>tFiles = 0, tFolders = 0, tSize = 0\<rparr>, Map.empty) v)
     (\<lparr>tFiles = 0 + list_files f v,
       tFolders = 0 + of_nat (sum_list (map (\<lambda>p. tree_dirs (node_at f (fst p))) v)),
       tSize = 0 + list_bytes f v\<rparr>, m') (\<lambda>h. [])"
    using says_count_fold [OF assms, of u "\<lparr>tFiles = 0, tFolders = 0, tSize = 0\<rparr>"] by fastforce
  show ?thesis unfolding count_items_def
    by (rule says_cong, rule says_bnd, rule 1, unfold fst_conv, rule says_ret) simp_all
qed

text \<open>What each side writes after it has read the list of paths.\<close>

lemma says_server_download:
  assumes "\<forall>p \<in> set v. plain_source f (fst p)"
  shows "says f u (bnd (count_items v) (\<lambda>counts. thn getProgressHook (thn (writeAllOrExit rcl (le_bytes 8 (tFiles counts)))
      (thn (writeAllOrExit rcl (le_bytes 8 (tSize counts))) (thn (io_for v (upload_item rcl None)) (writeAllOrExit rcl [0xFF])))))) ()
     (only rcl (le_bytes 8 (list_files f v) @ le_bytes 8 (list_bytes f v) @ items_wire (list_items f v) @ [0xFF]))"
  by (rule says_cong, rule says_bnd, rule says_count_items [OF assms], unfold sts_sz.simps,
      rule says_thn [OF says_getProgressHook says_thn [OF says_write says_thn [OF says_write
        says_thn [OF says_upload_items [OF _ assms] says_write]]]])
    (simp_all add: two_out_def only_append opt_out_def)

lemma says_client_upload:
  assumes "\<forall>p \<in> set v. plain_source f (fst p)"
  shows "says f u (bnd (count_items v) (\<lambda>counts. thn getProgressHook (thn (writeAllOrExit Rcl [code_value ACTION_UPLOAD])
      (thn (io_for [Rcl, Cl] (\<lambda>descriptor.
              thn (writeAllOrExit descriptor (le_bytes 8 (tFiles counts))) (writeAllOrExit descriptor (le_bytes 8 (tSize counts)))))
      (thn (io_for v (upload_item Rcl (Some Cl)))
      (thn (writeAllOrExit Cl (le_bytes 8 maxuint_2)) (writeAllOrExit Rcl [0xFF]))))))) ()
     (two_out Rcl ([code_value ACTION_UPLOAD] @ le_bytes 8 (list_files f v) @ le_bytes 8 (list_bytes f v)
          @ items_wire (list_items f v) @ [0xFF])
       (Some Cl) (le_bytes 8 (list_files f v) @ le_bytes 8 (list_bytes f v) @ items_progress (list_items f v)
          @ le_bytes 8 maxuint_2))"
  unfolding io_for.simps
  by (rule says_cong, rule says_bnd, rule says_count_items [OF assms], unfold sts_sz.simps,
      rule says_thn [OF says_getProgressHook says_thn [OF says_write says_thn [OF
        says_thn [OF says_thn [OF says_write says_write] says_thn [OF says_thn [OF says_write says_write] says_ret]]
        says_thn [OF says_upload_items [OF _ assms] says_thn [OF says_write says_write]]]]])
    (simp_all add: two_out_def only_def opt_out_def)

text \<open>
  Uploading or downloading a path whose tree consists of regular files and directories sends
  one item for every file, with its whole content, and one for every empty directory, named after
  the destination path; the local socket receives for each file its size, the running totals
  after each chunk and the end mark. Nothing else is written and the result is 0.
\<close>

theorem upload_sends_tree:
  assumes "at_path (wfs w) cs n" and "wf_node n" and "plain_tree n" and "\<forall>h. wr h w"
  shows "\<exists>e p. genericUploadBasicRecursiveImplWithProgress (count_fuel (wfs w)) (abs_path cs) dst Rcl (Some Cl) w
    = (Ret 0, emit Rcl (items_wire (tree_items dst n))
               (emit Cl (items_progress (tree_items dst n)) (w\<lparr>errno := e, progress := p\<rparr>)))"
proof -
  have "says (wfs w) (users w) (genericUploadBasicRecursiveImplWithProgress (count_fuel (wfs w)) (abs_path cs) dst Rcl (Some Cl)) 0
     (two_out Rcl (items_wire (tree_items dst n)) (Some Cl) (items_progress (tree_items dst n)))"
    using assms by (intro says_upload_tree nodes_at_path) simp_all
  from saysD [OF this refl refl assms(4)] show ?thesis by (simp only: emit_two_out)
qed

theorem upload_sends_tree_witness:
  "\<exists>e p. genericUploadBasicRecursiveImplWithProgress (count_fuel (wfs sample_world)) ''/d'' ''/t'' Rcl (Some Cl) sample_world
    = (Ret 0, emit Rcl (items_wire [ItemFile ''/t/y'' [4], ItemFile ''/t/x'' [1, 2, 3]])
               (emit Cl (items_progress [ItemFile ''/t/y'' [4], ItemFile ''/t/x'' [1, 2, 3]])
                  (sample_world\<lparr>errno := e, progress := p\<rparr>)))"
  using upload_sends_tree [of sample_world "[''d'']" _ "''/t''", OF sample_at sample_wf sample_plain] sample_wr
  by (simp add: pathConcat_def)

lemma server_download_run:
  assumes "\<forall>p \<in> set v. sendable_pair p \<and> plain_source (wfs w) (fst p)" and "\<forall>h. wr h w"
  shows "\<exists>e p. server_download Rcl (feed Rcl (path_list_wire v) w)
    = (Ret (), emit Rcl (le_bytes 8 (list_files (wfs w) v) @ le_bytes 8 (list_bytes (wfs w) v)
         @ items_wire (list_items (wfs w) v) @ [0xFF]) (w\<lparr>errno := e, progress := p\<rparr>))"
  using saysD [OF says_server_download [of v "wfs w" "users w" Rcl] refl refl] assms
  by (simp add: server_download_def bnd_app [of "receivePathPairsList Rcl"] receive_path_list emit_only del: append.simps)

text \<open>
  A server that serves a download request answers the list of paths with the number of files
  and the number of bytes, the items of every path in order, and the end mark.
\<close>

theorem server_download_sends:
  assumes "\<forall>p \<in> set v. sendable_pair p \<and> plain_source (wfs w) (fst p)" and "\<forall>h. wr h w"
  shows "\<exists>e p. server_download Rcl (feed Rcl (path_list_wire v) w)
    = (Ret (), emit Rcl (le_bytes 8 (list_files (wfs w) v) @ le_bytes 8 (list_bytes (wfs w) v)
         @ items_wire (list_items (wfs w) v) @ [0xFF]) (w\<lparr>errno := e, progress := p\<rparr>))"
  using assms by (rule server_download_run)

theorem server_download_sends_witness:
  "\<exists>e p. server_download Rcl (feed Rcl (path_list_wire [(''/d'', ''/t'')]) sample_world)
    = (Ret (), emit Rcl (le_bytes 8 (2 :: u64) @ le_bytes 8 (4 :: u64)
         @ items_wire [ItemFile ''/t/y'' [4], ItemFile ''/t/x'' [1, 2, 3]] @ [0xFF]) (sample_world\<lparr>errno := e, progress := p\<rparr>))"
proof -
  have "plain_source (wfs sample_world) ''/d''"
    using sample_at sample_wf sample_plain by (auto simp: plain_source_def intro!: exI [of _ "[''d'']"])
  then show ?thesis
    using server_download_sends [of "[(''/d'', ''/t'')]" sample_world] sample_wr node_at_path [OF sample_at]
    by (simp add: sendable_pair_def list_files_def list_bytes_def list_items_def pathConcat_def)
qed

lemma client_upload_run:
  assumes "\<forall>p \<in> set v. sendable_pair p \<and> plain_source (wfs w) (fst p)" and "\<forall>h. wr h w"
  shows "\<exists>e p. client_upload Cl Rcl (feed Cl (path_list_wire v) w)
    = (Ret (), emit Rcl ([code_value ACTION_UPLOAD] @ le_bytes 8 (list_files (wfs w) v) @ le_bytes 8 (list_bytes (wfs w) v)
         @ items_wire (list_items (wfs w) v) @ [0xFF])
        (emit Cl (le_bytes 8 (list_files (wfs w) v) @ le_bytes 8 (list_bytes (wfs w) v)
         @ items_progress (list_items (wfs w) v) @ le_bytes 8 maxuint_2) (w\<lparr>errno := e, progress := p\<rparr>)))"
  using saysD [OF says_client_upload [of v "wfs w" "users w"] refl refl] assms
  by (simp add: client_upload_def bnd_app [of "receivePathPairsList Cl"] receive_path_list emit_two_out del: append.simps io_for.simps)

text \<open>
  A client that is asked for an upload sends the request byte, the totals, the items and the
  end mark to the server, and the totals, the progress of every file and the end of transfer to its
  local socket.
\<close>

theorem client_upload_sends:
  assumes "\<forall>p \<in> set v. sendable_pair p \<and> plain_source (wfs w) (fst p)" and "\<forall>h. wr h w"
  shows "\<exists>e p. client_upload Cl Rcl (feed Cl (path_list_wire v) w)
    = (Ret (), emit Rcl ([code_value ACTION_UPLOAD] @ le_bytes 8 (list_files (wfs w) v) @ le_bytes 8 (list_bytes (wfs w) v)
         @ items_wire (list_items (wfs w) v) @ [0xFF])
        (emit Cl (le_bytes 8 (list_files (wfs w) v) @ le_bytes 8 (list_bytes (wfs w) v)
         @ items_progress (list_items (wfs w) v) @ le_bytes 8 maxuint_2) (w\<lparr>errno := e, progress := p\<rparr>)))"
  using assms by (rule client_upload_run)

theorem client_upload_sends_witness:
  "\<exists>e p. client_upload Cl Rcl (feed Cl (path_list_wire [(''/d'', ''/t'')]) sample_world)
    = (Ret (), emit Rcl ([code_value ACTION_UPLOAD] @ le_bytes 8 (2 :: u64) @ le_bytes 8 (4 :: u64)
         @ items_wire [ItemFile ''/t/y'' [4], ItemFile ''/t/x'' [1, 2, 3]] @ [0xFF])
        (emit Cl (le_bytes 8 (2 :: u64) @ le_bytes 8 (4 :: u64)
         @ items_progress [ItemFile ''/t/y'' [4], ItemFile ''/t/x'' [1, 2, 3]] @ le_bytes 8 maxuint_2)
         (sample_world\<lparr>errno := e, progress := p\<rparr>)))"
proof -
  have "plain_source (wfs sample_world) ''/d''"
    using sample_at sample_wf sample_plain by (auto simp: plain_source_def intro!: exI [of _ "[''d'']"])
  then show ?thesis
    using client_upload_sends [of "[(''/d'', ''/t'')]" sample_world] sample_wr node_at_path [OF sample_at]
    by (simp add: sendable_pair_def list_files_def list_bytes_def list_items_def pathConcat_def)
qed

text \<open>
  A symbolic link to a regular file is uploaded as a file, but with the size that \<open>lstat\<close>
  reports, which is the length of the link's target path: only that many bytes of the file arrive.
\<close>

theorem upload_symlink_truncates:
  assumes "at_path (wfs w) cs (Lnk a target)" and "sys_stat (abs_path cs) (wfs w) = Inr (Reg b data)"
    and "length target \<le> length data" and "length target < 2 ^ 64" and "\<forall>h. wr h w"
  shows "\<exists>e p. genericUploadBasicRecursiveImplWithProgress 1 (abs_path cs) dst Rcl None w
    = (Ret 0, emit Rcl (item_wire (ItemFile dst (take (length target) data))) (w\<lparr>errno := e, progress := p\<rparr>))"
proof -
  let ?f = "wfs w" and ?u = "users w"
  have nf: "no_faults ?f" using assms(1) by (simp add: at_path_def)
  obtain l where l: "resolve ?f True (abs_path cs) = Found l" "lookup (root ?f) l = Some (Reg b data)"
    using assms(2) nf by (auto simp: sys_stat_def stat_gen_def no_faults_faulty split: resolved.splits option.splits)
  let ?d = "\<lparr>fd_path = abs_path cs, fd_loc = l, fd_pos = 0\<rparr>"
  have op: "sys_open_read (abs_path cs) ?f = Inr ?d" "file_data ?f l = Some data"
    using l nf by (simp_all add: sys_open_read_def no_faults_faulty file_data_def)
  note send = says_send_data [OF nf, of None Rcl ?d data "length target" ?u dst]
  have "says ?f ?u (OSUploadRegularFileWithProgress (abs_path cs) dst (efd_stats (abs_path cs) ?f ?u) None Rcl) 0
     (two_out Rcl (item_wire (ItemFile dst (take (length target) data))) None (file_progress (length target)))"
    unfolding OSUploadRegularFileWithProgress_def Let_def efd_stats_at_path [OF assms(1)]
    by (rule says_cong, rule says_bnd, rule says_fd_create_read [OF op(1)], unfold sum.case node_size.simps, rule send)
      (use assms op in \<open>simp_all add: min_absorb2\<close>)
  then have "says ?f ?u (bnd (OSUploadRegularFileWithProgress (abs_path cs) dst (efd_stats (abs_path cs) ?f ?u) None Rcl) (\<lambda>ret1.
       thn (opt_write None (le_bytes 8 maxuint)) (ret ret1))) 0
       (only Rcl (item_wire (ItemFile dst (take (length target) data))))"
    by (intro says_cong [OF says_bnd [OF _ says_thn [OF says_opt_write says_ret]]]) (assumption | simp add: two_out_def opt_out_def)+
  then have "says ?f ?u (genericUploadBasicRecursiveImplWithProgress 1 (abs_path cs) dst Rcl None) 0
       (only Rcl (item_wire (ItemFile dst (take (length target) data))))"
    unfolding One_nat_def genericUploadBasicRecursiveImplWithProgress.simps
    by (intro says_quiet_bnd [OF quiet_existsIsFileIsDir0_st]) (simp add: efd_at_path [OF assms(1)] cong: if_cong)
  from saysD [OF this refl refl assms(5)] show ?thesis by (simp only: emit_only)
qed

definition link_world :: world where
  "link_world = world0\<lparr>wfs := fs0\<lparr>root := Dir attr0 [(''f'', Reg attr0 [1, 2, 3, 4, 5]), (''l'', Lnk attr0 ''/f'')]\<rparr>\<rparr>"

theorem upload_symlink_truncates_witness:
  "\<exists>e p. genericUploadBasicRecursiveImplWithProgress 1 ''/l'' ''/t'' Rcl None link_world
    = (Ret 0, emit Rcl (item_wire (ItemFile ''/t'' [1, 2])) (link_world\<lparr>errno := e, progress := p\<rparr>))"
proof -
  have "at_path (wfs link_world) [''l''] (Lnk attr0 ''/f'')"
    by (simp add: at_path_def link_world_def no_faults_def good_name_def dirs_above_def)
  moreover have "sys_stat (abs_path [''l'']) (wfs link_world) = Inr (Reg attr0 [1, 2, 3, 4, 5])"
    by (simp add: sys_stat_def stat_gen_def faulty_def link_world_def resolve_def split_path_def numeral_eq_Suc)
  moreover have "\<forall>h. wr h link_world" by (simp add: link_world_def)
  moreover have "length ''/f'' = 2" "take (length ''/f'') [1, 2, 3, 4, 5 :: byte] = [1, 2]" "abs_path [''l''] = ''/l''"
    "(2 :: nat) \<le> length [1, 2, 3, 4, 5 :: byte]" "(2 :: nat) < 2 ^ 64"
    by simp_all
  ultimately show ?thesis
    using upload_symlink_truncates [of link_world "[''l'']" attr0 "''/f''" attr0 "[1, 2, 3, 4, 5]" "''/t''"]
    by metis
qed

end
