(* ===== verification/RH_Store.thy ===== *)
theory RH_Store
  imports RH_Upload
begin

section \<open>What a download stores\<close>

text \<open>
  \<open>downloadRemoteItems\<close> on the items that an upload sends: it creates every file with its content
  and every empty directory, the missing directories on the way, and leaves everything else as it
  was. Together with \<open>RH_Upload\<close> this gives the transfer of a tree from one machine to another.
\<close>

subsection \<open>The loop over the received items reads at every round\<close>

lemma avail_upd [simp]:
  "avail h (w\<lparr>errno := e\<rparr>) = avail h w" "avail h (w\<lparr>wfs := f\<rparr>) = avail h w" "avail h (w\<lparr>progress := p\<rparr>) = avail h w"
  by (simp_all add: avail_def)

lemma eats0_quiet: "quiet m v \<Longrightarrow> eats h 0 m"
proof (rule eatsI)
  fix w a w'
  assume "quiet m v" "m w = (Ret a, w')"
  with quietD [OF this(1), of w] show "avail h w' + 0 \<le> avail h w" by auto
qed

lemma eats0_update: "eats h 0 (io_update g)"
  by (rule eatsI) (auto simp: io_update_def split: prod.splits if_splits)

lemma eats0_get: "eats h 0 (get g)"
  by (rule eatsI) (simp add: get_app)

lemma eats0_set_errno: "eats h 0 (set_errno e)"
  by (rule eatsI) (auto simp: set_errno_app)

lemma eats0_thn: "\<lbrakk>eats h 0 m; eats h 0 n\<rbrakk> \<Longrightarrow> eats h 0 (thn m n)"
  unfolding thn_def by (rule eats0_bnd)

lemma eats0_if: "\<lbrakk>eats h k m; eats h k n\<rbrakk> \<Longrightarrow> eats h k (if b then m else n)"
  by simp

lemma eats_raise: "eats h k (raise e)"
  by (rule eatsI) (simp add: raise_app)

lemma eats0_query: "eats h 0 (io_query q)"
  by (rule eatsI) (auto simp: io_query_def split: sum.splits)

lemma eats0_close: "eats h 0 (closeDesc h')"
  by (rule eatsI) (auto simp: closeDesc_def modify_app avail_def set_conn_def shut_def)

lemma eats0_modify: "(\<And>w. avail h (g w) \<le> avail h w) \<Longrightarrow> eats h 0 (modify g)"
  by (rule eatsI) (auto simp: modify_app)

lemma eats0_option: "\<lbrakk>eats h 0 m; \<And>x. eats h 0 (g x)\<rbrakk> \<Longrightarrow> eats h 0 (case r of None \<Rightarrow> m | Some x \<Rightarrow> g x)"
  by (cases r) simp_all

lemma eats0_sum: "\<lbrakk>\<And>x. eats h 0 (m x); \<And>x. eats h 0 (g x)\<rbrakk> \<Longrightarrow> eats h 0 (case r of Inl x \<Rightarrow> m x | Inr x \<Rightarrow> g x)"
  by (cases r) simp_all

lemma eats0_fd_create: "eats h 0 (fd_create p m)"
  by (rule eatsI) (auto simp: fd_create_def split: prod.splits sum.splits FileOpenMode.splits)

lemma eats0_fd_write: "eats h 0 (fd_writeAllOrExit d bs)"
  by (rule eatsI) (auto simp: fd_writeAllOrExit_def split: prod.splits if_splits)

lemma eats0_io_fold: "(\<And>s x. eats h 0 (f s x)) \<Longrightarrow> eats h 0 (io_fold f s xs)"
  by (induction xs arbitrary: s) (simp_all add: eats_ret eats0_bnd)

lemma eats0_mkpath_loop: "eats h 0 (mkpath_loop s mode eo is)"
  by (induction "is") (auto intro!: eats0_bnd eats0_update eats0_get eats_ret)

lemma eats0_mkpath: "eats h 0 (mkpath s mode eo)"
  unfolding mkpath_def Let_def by (intro eats0_if eats_ret eats0_mkpath_loop)

lemma eats0_nearest: "eats h 0 (nearest_from p)"
proof (induction p rule: nearest_from.induct)
  case (1 p)
  then show ?case
    by (subst nearest_from.simps) (auto simp: Let_def intro!: eats0_bnd eats0_query eats0_option eats_ret)
qed

lemma eats0_mkcopy: "eats h 0 (mkpathCopyPermissionsFromNearestAncestor p eo)"
  unfolding mkpathCopyPermissionsFromNearestAncestor_def statNearestAncestor_def
  by (rule eats0_bnd [OF eats0_quiet [OF quiet_existsIsFileIsDir0_st]])
    (auto intro!: eats0_thn eats0_bnd eats0_query eats0_option eats_ret eats0_set_errno eats0_mkpath eats0_nearest)

lemma eats0_opt_write: "eats h 0 (opt_write out bs)"
  unfolding opt_write_def by (intro eats0_option eats_ret eats_write)

lemma eats0_publishDelta: "eats h 0 (publishDelta d)"
  unfolding publishDelta_def by (rule eats0_modify) (simp add: avail_def)

lemmas eats0_more = eats0_thn eats0_bnd eats0_query eats0_option eats0_sum eats_ret eats0_set_errno eats0_mkpath
  eats0_mkcopy eats0_fd_create eats0_fd_write eats0_io_fold eats0_opt_write eats0_publishDelta eats0_close
  eats_raise eats0_read eats_read_other eats_write eats0_if

lemma eats0_download_file: "eats h 0 (download_file rcl cl it)"
proof -
  have "eats h 0 (download_chunk rcl cl s n)" for s n
    unfolding download_chunk_def Let_def by (cases "h = rcl") (auto intro!: eats0_more)
  then show ?thesis
    unfolding download_file_def Let_def threadExit_def by (intro eats0_more)
qed

lemma eats_download_item: "eats rcl 1 (download_item rcl cl u)"
proof -
  have "eats rcl (1 + 0) (download_item rcl cl u)"
    unfolding download_item_def threadExit_def
    by (intro eats_bnd eats_fileitem eats0_if eats0_thn eats_ret eats0_download_file eats0_mkcopy eats0_close eats_raise)
  then show ?thesis by simp
qed

lemma download_loop_unfold:
  "io_loop rcl (download_item rcl cl) s = bnd (download_item rcl cl s)
     (\<lambda>r. case r of Inl s' \<Rightarrow> io_loop rcl (download_item rcl cl) s' | Inr a \<Rightarrow> ret a)"
proof (rule io_loop_unfold)
  have "eats rcl (Suc 0) (download_item rcl cl s)" for s using eats_download_item by simp
  then show "avail rcl w' < avail rcl w" if "download_item rcl cl s w = (Ret (Inl s'), w')" for s w s' w'
    using that io_loop_eats [where body = "download_item rcl cl" and k = 0] by blast
qed

subsection \<open>Finding an ancestor\<close>

lemma getParentDir_abs: "\<lbrakk>\<forall>c \<in> set (cs @ [nm]). good_name c; cs \<noteq> []\<rbrakk> \<Longrightarrow> getParentDir (abs_path (cs @ [nm])) = abs_path cs"
proof -
  assume a: "\<forall>c \<in> set (cs @ [nm]). good_name c" "cs \<noteq> []"
  then have "find_last CHR ''/'' (abs_path (cs @ [nm])) = Some (length (abs_path cs))"
    using find_last_append [of "CHR ''/''" nm "abs_path cs"] by (simp add: good_name_def)
  moreover have "abs_path (cs @ [nm]) \<noteq> ''/''" using a(2) by (cases cs) auto
  ultimately show ?thesis by (simp add: getParentDir_def getSystemPathSeparator_def)
qed

lemma way_free_take: "way_free t cs \<Longrightarrow> way_free t (take k cs)"
  by (auto simp: way_free_def min_def)

lemma way_free_prefix: "way_free t (cs @ ds) \<Longrightarrow> way_free t cs"
  using way_free_take [of t "cs @ ds" "length cs"] by simp

lemma way_free_dirs_above:
  assumes "way_free t cs" "lookup t (butlast cs) \<noteq> None"
  shows "dirs_above t cs"
  unfolding dirs_above_def
proof (intro allI impI)
  fix k
  assume k: "k < length cs"
  obtain n where n: "lookup t (butlast cs) = Some n" using assms(2) by auto
  have "lookup t (take k cs) \<noteq> None"
  proof -
    have "butlast cs = take k cs @ drop k (butlast cs)"
      using append_take_drop_id [of k "butlast cs"] k by (simp add: take_butlast)
    with n show ?thesis by (metis lookup_append not_None_eq option.simps(4))
  qed
  with way_free_dir [OF assms(1) k] show "\<exists>a es. lookup t (take k cs) = Some (Dir a es)" .
qed

lemma nearest_run:
  "\<lbrakk>no_faults (wfs w); \<forall>c \<in> set cs. good_name c; 2 \<le> length cs; way_free (root (wfs w)) cs;
    lookup (root (wfs w)) [hd cs] \<noteq> None\<rbrakk> \<Longrightarrow>
   \<exists>e n. nearest_from (abs_path cs) w = (Ret (Some n), w\<lparr>errno := e\<rparr>)"
proof (induction cs arbitrary: w rule: rev_induct)
  case Nil
  then show ?case by simp
next
  case (snoc nm cs)
  then have ne: "cs \<noteq> []" by auto
  have par: "getParentDir (abs_path (cs @ [nm])) = abs_path cs" using snoc.prems ne by (intro getParentDir_abs) auto
  have step: "nearest_from (abs_path (cs @ [nm])) w
     = (case sys_stat (abs_path cs) (wfs w) of
          Inl e \<Rightarrow> nearest_from (abs_path cs) (w\<lparr>errno := e\<rparr>) | Inr n \<Rightarrow> (Ret (Some n), w))"
    by (subst nearest_from.simps)
      (simp add: par Let_def ne bnd_app io_query_def ret_app split: sum.splits del: abs_path_append)
  show ?case
  proof (cases "sys_stat (abs_path cs) (wfs w)")
    case (Inr n)
    with step show ?thesis by (intro exI [of _ "errno w"] exI [of _ n]) simp
  next
    case (Inl e)
    have "2 \<le> length cs"
    proof (rule ccontr)
      assume "\<not> 2 \<le> length cs"
      with ne obtain c where c: "cs = [c]" by (cases cs) (auto simp: Suc_le_eq)
      with snoc.prems obtain a es where d: "lookup (root (wfs w)) [c] = Some (Dir a es)"
        using way_free_dir [OF snoc.prems(4), of 1] by auto
      have "dirs_above (root (wfs w)) [c]"
        using way_free_dir [OF snoc.prems(4), of 0] c by (auto simp: dirs_above_def)
      then have "sys_stat (abs_path [c]) (wfs w) = Inr (Dir a es)"
        using snoc.prems d c by (intro at_path_stat) (simp_all add: at_path_def)
      with Inl c show False by simp
    qed
    with snoc.IH [of "w\<lparr>errno := e\<rparr>"] snoc.prems way_free_prefix [OF snoc.prems(4)] ne
    have "\<exists>e' n. nearest_from (abs_path cs) (w\<lparr>errno := e\<rparr>) = (Ret (Some n), w\<lparr>errno := e'\<rparr>)" by simp
    with step Inl show ?thesis by simp
  qed
qed

lemma walk_missing:
  assumes "\<forall>c \<in> set cs. good_name c" "cs \<noteq> []" "lookup t (cur @ cs) = None"
    and "\<forall>k < length cs. lookup t (cur @ take k cs) = None \<or> (\<exists>a es. lookup t (cur @ take k cs) = Some (Dir a es))"
  shows "(\<exists>l. walk fuel t follow cur cs = Missing l) \<or> walk fuel t follow cur cs = RErr ENOENT"
  using assms
proof (induction cs arbitrary: cur)
  case Nil
  then show ?case by simp
next
  case (Cons c cs)
  have c: "c \<noteq> ''.''" "c \<noteq> ''..''" using Cons.prems(1) by (simp_all add: good_name_def)
  show ?case
  proof (cases "lookup t (cur @ [c])")
    case None
    with c show ?thesis by simp
  next
    case (Some n)
    with Cons.prems(3) have ne: "cs \<noteq> []" by auto
    then have "lookup t (cur @ [c]) = None \<or> (\<exists>a es. lookup t (cur @ [c]) = Some (Dir a es))"
      using Cons.prems(4) [rule_format, of 1] by (cases cs) auto
    with Some obtain a es where "lookup t (cur @ [c]) = Some (Dir a es)" by auto
    moreover have "\<forall>k < length cs. lookup t ((cur @ [c]) @ take k cs) = None
        \<or> (\<exists>a es. lookup t ((cur @ [c]) @ take k cs) = Some (Dir a es))"
    proof (intro allI impI)
      fix k
      assume "k < length cs"
      then show "lookup t ((cur @ [c]) @ take k cs) = None \<or> (\<exists>a es. lookup t ((cur @ [c]) @ take k cs) = Some (Dir a es))"
        using Cons.prems(4) [rule_format, of "Suc k"] by simp
    qed
    ultimately show ?thesis using Cons.IH [of "cur @ [c]"] Cons.prems ne c by simp
  qed
qed

lemma stat_gen_missing:
  assumes "no_faults f" "\<forall>c \<in> set cs. good_name c" "cs \<noteq> []" "way_free (root f) cs" "lookup (root f) cs = None"
  shows "stat_gen c fl (abs_path cs) f = Inl ENOENT"
  using walk_missing [of cs "root f" "[]" 40 fl] assms
  by (auto simp: stat_gen_def no_faults_faulty resolve_def hd_abs_path split_path_abs way_free_def)

subsection \<open>Creating the directory of a file\<close>

lemma zero_stats_type: "hd (b2s (sperms zero_stats)) \<noteq> CHR ''d''" "hd (b2s (sperms zero_stats)) \<noteq> CHR ''L''"
  by (simp_all add: zero_stats_def b2s_def numeral_eq_Suc char_of_def)

lemma perm_string_L: "perm_string (st_mode n) t ! 0 = CHR ''L'' \<Longrightarrow> is_lnk n"
  unfolding perm_string_0 by (cases n) (auto simp: perm_head_def split: option.splits)

lemma mkcopy_existing:
  assumes "sys_lstat p (wfs w) = Inr (Dir a es)"
  shows "\<exists>e. mkpathCopyPermissionsFromNearestAncestor p True w = (Ret 0, w\<lparr>errno := e\<rparr>)"
proof -
  obtain e where 1: "existsIsFileIsDir0_st p w = (Ret (efd_of p (wfs w), efd_stats p (wfs w) (users w)), w\<lparr>errno := e\<rparr>)"
    using quietD [OF quiet_existsIsFileIsDir0_st, of p w] by auto
  have "efd_stats p (wfs w) (users w) = stats_record (Dir a es) (permissions_of p (st_mode (Dir a es)) (wfs w)) (users w)"
    using assms by (simp add: efd_stats_def stats_of_def)
  then have "hd (b2s (sperms (efd_stats p (wfs w) (users w)))) = CHR ''d''" by (simp add: hd_sperms_d)
  with 1 show ?thesis by (auto simp: mkpathCopyPermissionsFromNearestAncestor_def bnd_app ret_app)
qed

lemma mkcopy_run:
  assumes "no_faults (wfs w)" "\<forall>c \<in> set cs. good_name c" "cs \<noteq> []" "way_free (root (wfs w)) cs"
    and top: "lookup (root (wfs w)) [hd cs] \<noteq> None"
    and here: "lookup (root (wfs w)) cs = None \<or> (\<exists>a es. lookup (root (wfs w)) cs = Some (Dir a es))"
  shows "\<exists>e t. mkpathCopyPermissionsFromNearestAncestor (abs_path cs) True w
      = (Ret 0, w\<lparr>errno := e, wfs := (wfs w)\<lparr>root := t\<rparr>\<rparr>)
    \<and> (\<exists>a es. lookup t cs = Some (Dir a es)) \<and> grown cs (root (wfs w)) t"
proof (cases "lookup (root (wfs w)) cs")
  case (Some n)
  with here obtain a es where d: "lookup (root (wfs w)) cs = Some (Dir a es)" by auto
  have "lookup (root (wfs w)) (butlast cs) \<noteq> None"
    using d assms(3) by (metis append_butlast_last_id lookup_append option.case(1) option.distinct(1))
  then have "at_path (wfs w) cs (Dir a es)"
    using assms d way_free_dirs_above [OF assms(4)] by (simp add: at_path_def)
  from mkcopy_existing [OF at_path_lstat [OF this]] obtain e where
    "mkpathCopyPermissionsFromNearestAncestor (abs_path cs) True w = (Ret 0, w\<lparr>errno := e\<rparr>)" by blast
  with d grown_refl show ?thesis
    by (intro exI [of _ e] exI [of _ "root (wfs w)"]) simp
next
  case None
  then have "sys_lstat (abs_path cs) (wfs w) = Inl ENOENT" "sys_stat (abs_path cs) (wfs w) = Inl ENOENT"
    using assms by (simp_all add: sys_lstat_def sys_stat_def stat_gen_missing)
  note st = this
  obtain e where 1: "existsIsFileIsDir0_st (abs_path cs) w = (Ret (0, zero_stats), w\<lparr>errno := e\<rparr>)"
    using quietD [OF quiet_existsIsFileIsDir0_st, of "abs_path cs" w] st
    by (auto simp: efd_of_def efd_stats_def stats_of_def)
  have "2 \<le> length cs"
  proof (rule ccontr)
    assume "\<not> 2 \<le> length cs"
    with assms(3) obtain c where "cs = [c]" by (cases cs) (auto simp: Suc_le_eq)
    with None top show False by simp
  qed
  with nearest_run [of "w\<lparr>errno := ENOENT\<rparr>" cs] assms obtain e' n where
    2: "nearest_from (abs_path cs) (w\<lparr>errno := ENOENT\<rparr>) = (Ret (Some n), w\<lparr>errno := e'\<rparr>)" by auto
  obtain e'' t where 3: "mkpath (abs_path cs) (st_mode n) True (w\<lparr>errno := e'\<rparr>)
      = (Ret 0, w\<lparr>errno := e'', wfs := (wfs w)\<lparr>root := t\<rparr>\<rparr>)" "dirs_above t cs" "lookup t cs \<noteq> None" "grown cs (root (wfs w)) t"
    using mkpath_run [of cs "w\<lparr>errno := e'\<rparr>" "st_mode n"] assms by auto
  have "\<exists>a es. lookup t cs = Some (Dir a es)"
    using 3(3,4) None unfolding grown_def by (metis order_refl take_all)
  moreover have "mkpathCopyPermissionsFromNearestAncestor (abs_path cs) True w
      = (Ret 0, w\<lparr>errno := e'', wfs := (wfs w)\<lparr>root := t\<rparr>\<rparr>)"
    using 1 2 3(1) st
    by (simp add: mkpathCopyPermissionsFromNearestAncestor_def bnd_app zero_stats_type statNearestAncestor_def io_query_def)
  ultimately show ?thesis using 3 by blast
qed

subsection \<open>Writing a file\<close>

definition opt_emit :: "handle option \<Rightarrow> byte list \<Rightarrow> world \<Rightarrow> world" where
  "opt_emit out bs w = (case out of None \<Rightarrow> w | Some h \<Rightarrow> emit h bs w)"

lemma opt_emit_simps [simp]:
  "opt_emit out [] w = w" "opt_emit out b (opt_emit out a w) = opt_emit out (a @ b) w"
  "opt_emit out b (feed h a w) = feed h a (opt_emit out b w)"
  "wfs (opt_emit out b w) = wfs w" "errno (opt_emit out b w) = errno w" "progress (opt_emit out b w) = progress w"
  "wr h (opt_emit out b w) = wr h w" "users (opt_emit out b w) = users w"
  "(opt_emit out b w)\<lparr>errno := e\<rparr> = opt_emit out b (w\<lparr>errno := e\<rparr>)"
  "(opt_emit out b w)\<lparr>wfs := f\<rparr> = opt_emit out b (w\<lparr>wfs := f\<rparr>)"
  "(opt_emit out b w)\<lparr>progress := p\<rparr> = opt_emit out b (w\<lparr>progress := p\<rparr>)"
  by (simp_all add: opt_emit_def split: option.splits)

lemma opt_write_run: "(\<And>h. wr h w) \<Longrightarrow> opt_write out bs w = (Ret (), opt_emit out bs w)"
  by (simp add: opt_write_def opt_emit_def ret_app write_emit split: option.splits)

lemma publishDelta_app: "publishDelta n w = (Ret (), w\<lparr>progress := progress w + of_nat n\<rparr>)"
  by (cases w) (simp add: publishDelta_def modify_app)

text \<open>Updates of the state in a fixed order.\<close>

lemma upd_order:
  "w\<lparr>wfs := f, errno := e\<rparr> = w\<lparr>errno := e, wfs := f\<rparr>"
  "w\<lparr>progress := p, errno := e\<rparr> = w\<lparr>errno := e, progress := p\<rparr>"
  "w\<lparr>progress := p, wfs := f\<rparr> = w\<lparr>wfs := f, progress := p\<rparr>"
  by simp_all

lemma put_put: "put_at l n (put_at l m t) = put_at l n t"
proof (induction l arbitrary: t)
  case Nil
  then show ?case by simp
next
  case (Cons c l)
  then show ?case by (cases t) (auto simp: update_update split: option.splits)
qed

lemma put_same: "lookup t l = Some n \<Longrightarrow> put_at l n t = t"
proof (induction l arbitrary: t)
  case Nil
  then show ?case by simp
next
  case (Cons c l)
  then show ?case by (cases t) (auto simp: update_triv split: option.splits)
qed

lemma lookup_parent: "\<lbrakk>lookup t l = Some n; l \<noteq> []\<rbrakk> \<Longrightarrow> \<exists>a es. lookup t (butlast l) = Some (Dir a es)"
  using lookup_prefix_dir [of t "butlast l" "[last l]" n] by simp

lemma lookup_put_existing: "\<lbrakk>lookup t l = Some m; l \<noteq> []\<rbrakk> \<Longrightarrow> lookup (put_at l n t) l = Some n"
  using lookup_parent [of t l m] lookup_put_same [of t l _ n] by force

lemma overwrite_end: "overwrite (length d) bs d = d @ bs"
  by (simp add: overwrite_def)

lemma download_chunks:
  assumes "out = None \<or> out = Some Cl" "fd_loc d = l" "l \<noteq> []"
  shows "\<lbrakk>length bs = sum_list ns; \<forall>n \<in> set ns. 0 < n; no_faults (wfs w); lookup (root (wfs w)) l = Some (Reg a dd);
      fd_pos d' = length dd; fd_loc d' = l; \<And>h. wr h w\<rbrakk> \<Longrightarrow>
    \<exists>q d''. io_fold (download_chunk Rcl out) (d', p) ns (feed Rcl bs w)
      = (Ret (d'', p + of_nat (sum_list ns)), opt_emit out (u64s_wire (running p ns))
          (w\<lparr>progress := q, wfs := (wfs w)\<lparr>root := put_at l (Reg a (dd @ bs)) (root (wfs w))\<rparr>\<rparr>))"
proof (induction ns arbitrary: bs w dd d' p)
  case Nil
  then show ?case
    by (intro exI [of _ "progress w"] exI [of _ d']) (simp add: ret_app put_same)
next
  case (Cons n ns)
  let ?b1 = "take n bs" and ?b2 = "drop n bs"
  have len: "length ?b1 = n" "length ?b2 = sum_list ns" "?b1 \<noteq> []" using Cons.prems(1,2) by auto
  let ?r = "put_at l (Reg a (dd @ ?b1)) (root (wfs w))"
  let ?w = "opt_emit out (le_bytes 8 (p + of_nat n)) (w\<lparr>progress := progress w + of_nat n, wfs := (wfs w)\<lparr>root := ?r\<rparr>\<rparr>)"
  have wr: "sys_write d' ?b1 (wfs w) = (0, (wfs w)\<lparr>root := ?r\<rparr>)"
    using Cons.prems by (simp add: sys_write_def no_faults_faulty overwrite_end)
  have "readAllOrExit Rcl n (feed Rcl bs w) = (Ret ?b1, feed Rcl ?b2 w)"
    using read_feed [of ?b1 n Rcl "feed Rcl ?b2 w"] len(1) append_take_drop_id [of n bs]
    by (metis feed_append)
  then have step: "download_chunk Rcl out (d', p) n (feed Rcl bs w)
      = (Ret (fd_advance n d', p + of_nat n), feed Rcl ?b2 ?w)"
    using wr len Cons.prems(7)
    by (simp add: download_chunk_def bnd_app thn_app fd_writeAllOrExit_def opt_write_run publishDelta_app ret_app Let_def upd_order)
  have lk: "lookup (root (wfs ?w)) l = Some (Reg a (dd @ ?b1))"
    using Cons.prems(4) assms(3) by (simp add: lookup_put_existing)
  obtain q d'' where "io_fold (download_chunk Rcl out) (fd_advance n d', p + of_nat n) ns (feed Rcl ?b2 ?w)
      = (Ret (d'', p + of_nat n + of_nat (sum_list ns)), opt_emit out (u64s_wire (running (p + of_nat n) ns))
          (?w\<lparr>progress := q, wfs := (wfs ?w)\<lparr>root := put_at l (Reg a ((dd @ ?b1) @ ?b2)) (root (wfs ?w))\<rparr>\<rparr>))"
    using Cons.IH [of ?b2 ?w "dd @ ?b1" "fd_advance n d'" "p + of_nat n"] Cons.prems len lk by auto
  with step show ?case
    by (intro exI [of _ q] exI [of _ d'']) (simp add: bnd_app put_put add.assoc upd_order)
qed

lemma download_file_run:
  assumes out: "out = None \<or> out = Some Cl" and wr: "\<And>h. wr h w" and nf: "no_faults (wfs w)"
    and good: "\<forall>c \<in> set (cs @ [nm]). good_name c" and ne: "cs \<noteq> []"
    and way: "way_free (root (wfs w)) (cs @ [nm])" and new: "lookup (root (wfs w)) (cs @ [nm]) = None"
    and top: "lookup (root (wfs w)) [hd cs] \<noteq> None" and len: "length data < 2 ^ 64"
  shows "\<exists>e q a t1. download_file Rcl out \<lparr>itemflag = 0, itemfile = abs_path (cs @ [nm]), fisize = of_nat (length data)\<rparr>
        (feed Rcl data w)
      = (Ret (), opt_emit out (item_progress (ItemFile (abs_path (cs @ [nm])) data))
          (w\<lparr>errno := e, wfs := (wfs w)\<lparr>root := put_at (cs @ [nm]) (Reg a data) t1\<rparr>, progress := q\<rparr>))
    \<and> grown cs (root (wfs w)) t1 \<and> (\<exists>b es. lookup t1 cs = Some (Dir b es)) \<and> lookup t1 (cs @ [nm]) = None"
proof -
  let ?l = "cs @ [nm]" and ?p = "abs_path (cs @ [nm])" and ?sz = "of_nat (length data) :: u64"
  have "lookup (root (wfs w)) cs = None \<or> (\<exists>a es. lookup (root (wfs w)) cs = Some (Dir a es))"
    using way by (auto simp: way_free_def dest: spec [of _ "length cs"])
  with mkcopy_run [of "feed Rcl data w" cs] good ne nf top way_free_prefix [OF way]
  obtain e t1 where 1: "mkpathCopyPermissionsFromNearestAncestor (abs_path cs) True (feed Rcl data w)
      = (Ret 0, feed Rcl data (w\<lparr>errno := e, wfs := (wfs w)\<lparr>root := t1\<rparr>\<rparr>))"
    "\<exists>a es. lookup t1 cs = Some (Dir a es)" "grown cs (root (wfs w)) t1"
    by auto
  let ?w1 = "w\<lparr>errno := e, wfs := (wfs w)\<lparr>root := t1\<rparr>\<rparr>"
  have new1: "lookup t1 ?l = None"
    using 1(3) new unfolding grown_def
    by (metis append_Nil2 append_eq_append_conv2 append_take_drop_id length_append_singleton lessI not_less take_all_iff length_take min.cobounded1)
  have "way_free t1 ?l"
    unfolding way_free_def
  proof (intro allI impI)
    fix k
    assume "k < length ?l"
    then show "lookup t1 (take k ?l) = None \<or> (\<exists>a es. lookup t1 (take k ?l) = Some (Dir a es))"
      using way 1(3) unfolding way_free_def grown_def by (metis is_dir.simps(1))
  qed
  then have "dirs_above t1 ?l" using 1(2) by (intro way_free_dirs_above) auto
  then have "resolve (wfs ?w1) False ?p = Missing ?l"
    using good new1 by (intro resolve_plain_Missing) simp_all
  then obtain a where 2: "sys_open_excl ?p (wfs ?w1) = (Inr \<lparr>fd_path = ?p, fd_loc = ?l, fd_pos = 0\<rparr>,
      (wfs w)\<lparr>root := put_at ?l (Reg a []) t1\<rparr>)"
    using nf by (auto simp: sys_open_excl_def no_faults_faulty)
  let ?d = "\<lparr>fd_path = ?p, fd_loc = ?l, fd_pos = 0\<rparr>" and ?t2 = "put_at ?l (Reg a []) t1"
  let ?w2 = "opt_emit out (le_bytes 8 ?sz) (w\<lparr>errno := e, wfs := (wfs w)\<lparr>root := ?t2\<rparr>\<rparr>)"
  let ?ns = "chunk_sizes (length data) REMOTE_IO_CHUNK_SIZE"
  have lk: "lookup ?t2 ?l = Some (Reg a [])"
    using 1(2) by (auto intro!: lookup_put_same)
  have ns: "length data = sum_list ?ns" "\<forall>n \<in> set ?ns. 0 < n"
    by (simp add: sum_chunk_sizes) (metis chunk_sizes_pos REMOTE_IO_CHUNK_SIZE_def zero_less_numeral)
  obtain q d'' where 3: "io_fold (download_chunk Rcl out) (?d, 0) ?ns (feed Rcl data ?w2)
      = (Ret (d'', 0 + of_nat (sum_list ?ns)), opt_emit out (u64s_wire (running 0 ?ns))
          (?w2\<lparr>progress := q, wfs := (wfs ?w2)\<lparr>root := put_at ?l (Reg a ([] @ data)) (root (wfs ?w2))\<rparr>\<rparr>))"
    using download_chunks [OF out, of ?d ?l data ?ns ?w2 a "[]" ?d 0] ns nf lk wr by auto
  have un: "unat ?sz = length data" using len by (simp add: unat_of_nat)
  have par: "getParentDir ?p = abs_path cs" using good ne by (rule getParentDir_abs)
  have "download_file Rcl out \<lparr>itemflag = 0, itemfile = ?p, fisize = ?sz\<rparr> (feed Rcl data w)
      = (Ret (), opt_emit out (item_progress (ItemFile ?p data))
          (w\<lparr>errno := e, wfs := (wfs w)\<lparr>root := put_at ?l (Reg a data) t1\<rparr>, progress := q\<rparr>))"
    using 1(1) 2 3 un wr
    by (simp add: download_file_def Let_def par bnd_app thn_app fd_create_def opt_write_run put_put file_progress_def
        upd_order del: abs_path_append)
  with 1 new1 show ?thesis by blast
qed

subsection \<open>A list of items\<close>

fun item_path :: "item \<Rightarrow> string" where
  "item_path (ItemFile p d) = p"
| "item_path (ItemDir p) = p"

fun is_file_item :: "item \<Rightarrow> bool" where
  "is_file_item (ItemFile p d) = True"
| "is_file_item (ItemDir p) = False"

definition item_loc :: "item \<Rightarrow> string list" where
  "item_loc it = split_path (item_path it)"

text \<open>
  An item that can be stored in a tree: an ordinary absolute path below a directory of the root
  that exists, with nothing but directories on the way, and nothing (or, for a directory item, a
  directory) at the place itself.
\<close>

definition storable :: "node \<Rightarrow> item \<Rightarrow> bool" where
  "storable t it \<longleftrightarrow> (let l = item_loc it in
     item_path it = abs_path l \<and> (\<forall>c \<in> set l. good_name c) \<and> 2 \<le> length l \<and> length (item_path it) < 65536
     \<and> way_free t l \<and> lookup t [hd l] \<noteq> None
     \<and> (case it of ItemFile p d \<Rightarrow> lookup t l = None \<and> length d < 2 ^ 64
                 | ItemDir p \<Rightarrow> lookup t l = None \<or> (\<exists>a es. lookup t l = Some (Dir a es))))"

text \<open>No file item stands at, or above, the place of another item.\<close>

definition apart :: "item \<Rightarrow> item \<Rightarrow> bool" where
  "apart x y \<longleftrightarrow> (is_file_item x \<longrightarrow> take (length (item_loc x)) (item_loc y) \<noteq> item_loc x)"

definition separate :: "item list \<Rightarrow> bool" where
  "separate its \<longleftrightarrow> sorted_wrt (\<lambda>x y. apart x y \<and> apart y x) its"

definition stored :: "node \<Rightarrow> item \<Rightarrow> bool" where
  "stored t it \<longleftrightarrow> (case it of
     ItemFile p d \<Rightarrow> (\<exists>a. lookup t (item_loc it) = Some (Reg a d))
   | ItemDir p \<Rightarrow> (\<exists>a es. lookup t (item_loc it) = Some (Dir a es)))"

text \<open>What storing the item \<open>x\<close> does to the rest of the tree.\<close>

definition item_effect :: "item \<Rightarrow> node \<Rightarrow> node \<Rightarrow> bool" where
  "item_effect x t t' \<longleftrightarrow> (\<forall>ys. is_file_item x \<longrightarrow> ys \<noteq> item_loc x \<longrightarrow>
       (lookup t ys = None \<longrightarrow> lookup t' ys = None \<or> take (length ys) (item_loc x) = ys \<and> (\<exists>a es. lookup t' ys = Some (Dir a es))))
   \<and> (\<not> is_file_item x \<longrightarrow> grown (item_loc x) t t')
   \<and> (\<forall>ys n. lookup t ys = Some n \<longrightarrow> (if is_dir n then \<exists>a es. lookup t' ys = Some (Dir a es) else lookup t' ys = Some n))"

lemma item_effect_Some:
  "\<lbrakk>item_effect x t t'; lookup t ys = Some n\<rbrakk> \<Longrightarrow>
   if is_dir n then \<exists>a es. lookup t' ys = Some (Dir a es) else lookup t' ys = Some n"
  unfolding item_effect_def by blast

lemma item_effect_None:
  "\<lbrakk>item_effect x t t'; lookup t ys = None; is_file_item x \<longrightarrow> ys \<noteq> item_loc x\<rbrakk> \<Longrightarrow>
   lookup t' ys = None \<or> take (length ys) (item_loc x) = ys \<and> (\<exists>a es. lookup t' ys = Some (Dir a es))"
  unfolding item_effect_def grown_def by blast

lemma stored_kept: "\<lbrakk>item_effect x t t'; stored t y\<rbrakk> \<Longrightarrow> stored t' y"
  by (cases y) (auto simp: stored_def dest!: item_effect_Some)

lemma storable_kept:
  assumes eff: "item_effect x t t'" and st: "storable t y" and ap: "apart x y" "apart y x"
  shows "storable t' y"
proof -
  let ?l = "item_loc y"
  have ne: "is_file_item x \<longrightarrow> take k ?l \<noteq> item_loc x" if "k \<le> length ?l" for k
  proof
    assume "is_file_item x"
    with ap(1) have "take (length (item_loc x)) ?l \<noteq> item_loc x" by (simp add: apart_def)
    then show "take k ?l \<noteq> item_loc x" using that by (metis length_take min.absorb2)
  qed
  have dir_or_none: "lookup t' (take k ?l) = None \<or> (\<exists>a es. lookup t' (take k ?l) = Some (Dir a es))"
    if "k \<le> length ?l" "lookup t (take k ?l) = None \<or> (\<exists>a es. lookup t (take k ?l) = Some (Dir a es))" for k
    using that item_effect_None [OF eff _ ne] item_effect_Some [OF eff] by (metis is_dir.simps(1))
  have 1: "way_free t' ?l"
    using st dir_or_none by (auto simp: storable_def Let_def way_free_def)
  have 2: "lookup t' [hd ?l] \<noteq> None"
    using st item_effect_Some [OF eff, of "[hd ?l]"] by (auto simp: storable_def Let_def split: if_splits)
  have 3: "lookup t' ?l = None" if "is_file_item y" "lookup t ?l = None"
  proof -
    have "take (length ?l) (item_loc x) \<noteq> ?l" using ap(2) that by (simp add: apart_def)
    with item_effect_None [OF eff that(2)] ne [of "length ?l"] show ?thesis by auto
  qed
  show ?thesis
    using st 1 2 3 dir_or_none [of "length ?l"] by (cases y) (auto simp: storable_def Let_def)
qed

lemma file_header_wire: "file_header p sz = file_item_wire p sz"
  by (simp add: file_header_def file_item_wire_def str_wire_def Let_def unat_u16_of_nat)

lemma dir_header_wire: "dir_header p = dir_item_wire p"
  by (simp add: dir_header_def dir_item_wire_def str_wire_def Let_def unat_u16_of_nat)

text \<open>A new file below a directory that was created for it.\<close>

lemma file_item_effect:
  assumes r: "grown cs t t1" "\<exists>b es. lookup t1 cs = Some (Dir b es)" "lookup t1 l = None"
    and cs: "l = cs @ [nm]" and loc: "item_loc (ItemFile p data) = l"
  shows "item_effect (ItemFile p data) t (put_at l (Reg g data) t1)"
  unfolding item_effect_def loc
proof (intro conjI allI impI)
  fix ys
  assume ys: "ys \<noteq> l" "lookup t ys = None"
  show "lookup (put_at l (Reg g data) t1) ys = None \<or> take (length ys) l = ys \<and> (\<exists>a es. lookup (put_at l (Reg g data) t1) ys = Some (Dir a es))"
  proof (cases "lookup t1 ys")
    case None
    with r(2,3) cs ys put_new_None [of t1 l _ _ "Reg g data" ys] show ?thesis by auto
  next
    case (Some n)
    then have 1: "take (length ys) cs = ys" "\<exists>a es. lookup t1 ys = Some (Dir a es)"
      using conjunct1 [OF r(1) [unfolded grown_def], rule_format, OF ys(2)] by simp_all
    obtain b es where "lookup t1 (butlast l) = Some (Dir b es)" using r(2) cs by auto
    then have "\<exists>a es. lookup (put_at l (Reg g data) t1) ys = Some (Dir a es)"
      using 1(2) r(3) cs by (intro dir_kept_put) simp_all
    moreover have "take (length ys) l = ys"
      using 1(1) cs(1) length_take [of "length ys" cs] by simp
    ultimately show ?thesis by simp
  qed
next
  assume "\<not> is_file_item (ItemFile p data)"
  then show "grown l t (put_at l (Reg g data) t1)" by simp
next
  fix ys n
  assume n: "lookup t ys = Some n"
  then have n1: "if is_dir n then \<exists>a es. lookup t1 ys = Some (Dir a es) else lookup t1 ys = Some n"
    using r(1) unfolding grown_def by blast
  show "if is_dir n then \<exists>a es. lookup (put_at l (Reg g data) t1) ys = Some (Dir a es) else lookup (put_at l (Reg g data) t1) ys = Some n"
  proof (cases "is_dir n")
    case True
    obtain b es where b: "lookup t1 (butlast l) = Some (Dir b es)" using r(2) cs by auto
    have "\<exists>a es. lookup (put_at l (Reg g data) t1) ys = Some (Dir a es)"
      using True n1 b r(3) cs by (intro dir_kept_put) simp_all
    with True show ?thesis by simp
  next
    case False
    with n1 files_kept_put [OF r(3), of "Reg g data"] show ?thesis by (simp add: files_kept_def)
  qed
qed

lemma store_item:
  assumes out: "out = None \<or> out = Some Cl" and wr: "\<And>h. wr h w" and nf: "no_faults (wfs w)"
    and st: "storable (root (wfs w)) it"
  shows "\<exists>e q t. download_item Rcl out () (feed Rcl (item_wire it) w)
      = (Ret (Inl ()), opt_emit out (item_progress it) (w\<lparr>errno := e, wfs := (wfs w)\<lparr>root := t\<rparr>, progress := q\<rparr>))
    \<and> item_effect it (root (wfs w)) t \<and> stored t it"
proof (cases it)
  case (ItemFile p data)
  define l where "l = item_loc it"
  have l: "p = abs_path l" "\<forall>c \<in> set l. good_name c" "2 \<le> length l" "length p < 65536" "way_free (root (wfs w)) l"
    "lookup (root (wfs w)) [hd l] \<noteq> None" "lookup (root (wfs w)) l = None" "length data < 2 ^ 64"
    using st ItemFile by (auto simp: storable_def Let_def l_def)
  obtain cs nm where cs0: "l = cs @ [nm]" using l(3) by (cases l rule: rev_cases) auto
  with l(3) have cs: "l = cs @ [nm]" "cs \<noteq> []" "hd l = hd cs" by (cases cs; simp)+
  obtain e q a t1 where r: "download_file Rcl out \<lparr>itemflag = 0, itemfile = p, fisize = of_nat (length data)\<rparr> (feed Rcl data w)
      = (Ret (), opt_emit out (item_progress (ItemFile p data))
          (w\<lparr>errno := e, wfs := (wfs w)\<lparr>root := put_at l (Reg a data) t1\<rparr>, progress := q\<rparr>))"
    "grown cs (root (wfs w)) t1" "\<exists>b es. lookup t1 cs = Some (Dir b es)" "lookup t1 l = None"
    using download_file_run [OF out wr nf l(2) [unfolded cs(1)] cs(2) l(5) [unfolded cs(1)] l(7) [unfolded cs(1)]
        l(6) [unfolded cs(3)] l(8), folded cs(1) l(1)] by blast
  let ?t = "put_at l (Reg a data) t1"
  have lk: "lookup ?t l = Some (Reg a data)" using r(3) cs by (auto intro!: lookup_put_same)
  have eff: "item_effect it (root (wfs w)) ?t"
    unfolding ItemFile using r(2-4) cs(1) by (intro file_item_effect) (simp_all add: l_def ItemFile)
  have "download_item Rcl out () (feed Rcl (item_wire it) w)
      = (Ret (Inl ()), opt_emit out (item_progress it) (w\<lparr>errno := e, wfs := (wfs w)\<lparr>root := ?t\<rparr>, progress := q\<rparr>))"
    using r(1) l(4)
    by (simp add: ItemFile download_item_def bnd_app thn_app file_header_wire read_file_item ret_app del: item_progress.simps)
  moreover have "stored ?t it" using lk ItemFile by (simp add: stored_def l_def)
  ultimately show ?thesis using eff by blast
next
  case (ItemDir p)
  define l where "l = item_loc it"
  have l: "p = abs_path l" "\<forall>c \<in> set l. good_name c" "2 \<le> length l" "length p < 65536" "way_free (root (wfs w)) l"
    "lookup (root (wfs w)) [hd l] \<noteq> None"
    "lookup (root (wfs w)) l = None \<or> (\<exists>a es. lookup (root (wfs w)) l = Some (Dir a es))"
    using st ItemDir by (auto simp: storable_def Let_def l_def)
  then have "l \<noteq> []" by auto
  with mkcopy_run [OF nf l(2)] l obtain e t where r: "mkpathCopyPermissionsFromNearestAncestor p True w
      = (Ret 0, w\<lparr>errno := e, wfs := (wfs w)\<lparr>root := t\<rparr>\<rparr>)"
    "\<exists>a es. lookup t l = Some (Dir a es)" "grown l (root (wfs w)) t" by blast
  have "item_effect it (root (wfs w)) t"
    using r(3) ItemDir unfolding item_effect_def l_def [symmetric] by (auto simp: grown_def)
  moreover have "download_item Rcl out () (feed Rcl (item_wire it) w)
      = (Ret (Inl ()), opt_emit out (item_progress it) (w\<lparr>errno := e, wfs := (wfs w)\<lparr>root := t\<rparr>, progress := progress w\<rparr>))"
    using r(1) l(4)
    by (simp add: ItemDir download_item_def bnd_app thn_app dir_header_wire read_dir_item ret_app)
  moreover have "stored t it" using r(2) ItemDir by (simp add: stored_def l_def)
  ultimately show ?thesis by blast
qed

lemma store_items:
  assumes out: "out = None \<or> out = Some Cl"
  shows "\<lbrakk>\<And>h. wr h w; no_faults (wfs w); \<forall>it \<in> set its. storable (root (wfs w)) it; separate its\<rbrakk> \<Longrightarrow>
    \<exists>e q t. io_loop Rcl (download_item Rcl out) () (feed Rcl (items_wire its) (feed Rcl [0xFF] w))
      = (Ret (), opt_emit out (items_progress its) (w\<lparr>errno := e, wfs := (wfs w)\<lparr>root := t\<rparr>, progress := q\<rparr>))
    \<and> (\<forall>it \<in> set its. stored t it) \<and> files_kept (root (wfs w)) t
    \<and> (\<forall>it. stored (root (wfs w)) it \<longrightarrow> stored t it)"
proof (induction its arbitrary: w)
  case Nil
  have "download_item Rcl out () (feed Rcl [0xFF] w) = (Ret (Inr ()), w)"
    by (simp add: download_item_def bnd_app read_end_item ret_app)
  then show ?case
    by (intro exI [of _ "errno w"] exI [of _ "progress w"] exI [of _ "root (wfs w)"], subst download_loop_unfold)
      (simp add: bnd_app ret_app files_kept_refl)
next
  case (Cons it its)
  have st: "storable (root (wfs w)) it" using Cons.prems(3) by simp
  obtain e q t where r: "download_item Rcl out () (feed Rcl (item_wire it) (feed Rcl (items_wire its) (feed Rcl [0xFF] w)))
      = (Ret (Inl ()), feed Rcl (items_wire its) (feed Rcl [0xFF] (opt_emit out (item_progress it)
           (w\<lparr>errno := e, wfs := (wfs w)\<lparr>root := t\<rparr>, progress := q\<rparr>))))"
    "item_effect it (root (wfs w)) t" "stored t it"
    using store_item [OF out, of "feed Rcl (items_wire its) (feed Rcl [0xFF] w)" it] Cons.prems(1,2) st by auto
  let ?w = "opt_emit out (item_progress it) (w\<lparr>errno := e, wfs := (wfs w)\<lparr>root := t\<rparr>, progress := q\<rparr>)"
  have "\<forall>y \<in> set its. storable (root (wfs ?w)) y"
    using Cons.prems(3,4) storable_kept [OF r(2)] by (auto simp: separate_def)
  then obtain e' q' t' where r': "io_loop Rcl (download_item Rcl out) () (feed Rcl (items_wire its) (feed Rcl [0xFF] ?w))
      = (Ret (), opt_emit out (items_progress its) (?w\<lparr>errno := e', wfs := (wfs ?w)\<lparr>root := t'\<rparr>, progress := q'\<rparr>))"
    "\<forall>it \<in> set its. stored t' it" "files_kept t t'" "\<forall>it. stored t it \<longrightarrow> stored t' it"
    using Cons.IH [of ?w] Cons.prems by (auto simp: separate_def)
  have "io_loop Rcl (download_item Rcl out) () (feed Rcl (items_wire (it # its)) (feed Rcl [0xFF] w))
      = (Ret (), opt_emit out (items_progress (it # its)) (w\<lparr>errno := e', wfs := (wfs w)\<lparr>root := t'\<rparr>, progress := q'\<rparr>))"
    using r(1) r'(1) by (subst download_loop_unfold) (simp add: bnd_app upd_order)
  moreover have "files_kept (root (wfs w)) t'"
    using files_kept_trans [OF _ r'(3)] item_effect_Some [OF r(2)] by (force simp: files_kept_def)
  moreover have "\<forall>x. stored (root (wfs w)) x \<longrightarrow> stored t' x" using stored_kept [OF r(2)] r'(4) by blast
  ultimately show ?case using r'(2,4) r(3)
    by (intro exI [of _ e'] exI [of _ q'] exI [of _ t']) auto
qed

lemma downloadRemoteItems_run:
  assumes out: "out = None \<or> out = Some Cl" and wr: "\<forall>h. wr h w" and nf: "no_faults (wfs w)"
    and st: "\<forall>it \<in> set its. storable (root (wfs w)) it" and sep: "separate its"
  shows "\<exists>e q t. downloadRemoteItems Rcl out
        (feed Rcl (le_bytes 8 (nf :: u64) @ le_bytes 8 (nb :: u64) @ items_wire its @ [0xFF]) w)
      = (Ret (), opt_emit out (le_bytes 8 nf @ le_bytes 8 nb @ items_progress its @ le_bytes 8 maxuint_2)
          (w\<lparr>errno := e, wfs := (wfs w)\<lparr>root := t\<rparr>, progress := q\<rparr>))
    \<and> (\<forall>it \<in> set its. stored t it) \<and> files_kept (root (wfs w)) t"
proof -
  let ?w = "opt_emit out (le_bytes 8 nf @ le_bytes 8 nb) (w\<lparr>progress := 0\<rparr>)"
  obtain e q t where r: "io_loop Rcl (download_item Rcl out) () (feed Rcl (items_wire its) (feed Rcl [0xFF] ?w))
      = (Ret (), opt_emit out (items_progress its) (?w\<lparr>errno := e, wfs := (wfs ?w)\<lparr>root := t\<rparr>, progress := q\<rparr>))"
    "\<forall>it \<in> set its. stored t it" "files_kept (root (wfs ?w)) t"
    using store_items [OF out, of ?w its] assms by auto
  have gp: "getProgressHook u = (Ret (), u\<lparr>progress := 0\<rparr>)" for u
    by (simp add: getProgressHook_def modify_app)
  have "downloadRemoteItems Rcl out (feed Rcl (le_bytes 8 nf @ le_bytes 8 nb @ items_wire its @ [0xFF]) w)
      = (Ret (), opt_emit out (le_bytes 8 nf @ le_bytes 8 nb @ items_progress its @ le_bytes 8 maxuint_2)
          (w\<lparr>errno := e, wfs := (wfs w)\<lparr>root := t\<rparr>, progress := q\<rparr>))"
    using r(1) wr
    by (simp add: downloadRemoteItems_def bnd_app thn_app read_feed opt_write_run gp upd_order)
  with r show ?thesis by auto
qed

text \<open>
  C17: a receiver that is sent the totals, the items and the end mark stores every one of them: each
  file exists with exactly its content, each directory exists, no file that was there before is
  changed or lost, and the local socket gets the totals, the progress of every file and the end of
  the transfer. This holds for any list of items with ordinary paths below an existing directory
  of the root, whose places are free and of which no file stands above another item.
\<close>

theorem download_stores_items:
  assumes "\<forall>h. wr h w" and "no_faults (wfs w)" and "\<forall>it \<in> set its. storable (root (wfs w)) it" and "separate its"
  shows "\<exists>e q t. downloadRemoteItems Rcl (Some Cl)
        (feed Rcl (le_bytes 8 (files :: u64) @ le_bytes 8 (bytes :: u64) @ items_wire its @ [0xFF]) w)
      = (Ret (), emit Cl (le_bytes 8 files @ le_bytes 8 bytes @ items_progress its @ le_bytes 8 maxuint_2)
          (w\<lparr>errno := e, wfs := (wfs w)\<lparr>root := t\<rparr>, progress := q\<rparr>))
    \<and> (\<forall>it \<in> set its. stored t it) \<and> files_kept (root (wfs w)) t"
  using downloadRemoteItems_run [of "Some Cl" w its files bytes] assms by (simp add: opt_emit_def)

definition target_world :: world where
  "target_world = world0\<lparr>wfs := fs0\<lparr>root := Dir attr0 [(''t'', Dir attr0 []), (''z'', Reg attr0 [9])]\<rparr>\<rparr>"

lemma target_storable:
  "\<forall>it \<in> set [ItemFile ''/t/y'' [4], ItemFile ''/t/x'' [1, 2, 3 :: byte]]. storable (root (wfs target_world)) it"
  "separate [ItemFile ''/t/y'' [4], ItemFile ''/t/x'' [1, 2, 3 :: byte]]"
  by (auto simp: storable_def item_loc_def split_path_def target_world_def good_name_def way_free_def less_Suc_eq
      separate_def apart_def)

lemma target_wr: "\<forall>h. wr h target_world" "no_faults (wfs target_world)"
  by (simp_all add: target_world_def no_faults_def)

theorem download_stores_items_witness:
  "\<exists>e q t. downloadRemoteItems Rcl (Some Cl) (feed Rcl (le_bytes 8 (2 :: u64) @ le_bytes 8 (4 :: u64)
        @ items_wire [ItemFile ''/t/y'' [4], ItemFile ''/t/x'' [1, 2, 3]] @ [0xFF]) target_world)
      = (Ret (), emit Cl (le_bytes 8 (2 :: u64) @ le_bytes 8 (4 :: u64)
           @ items_progress [ItemFile ''/t/y'' [4], ItemFile ''/t/x'' [1, 2, 3]] @ le_bytes 8 maxuint_2)
          (target_world\<lparr>errno := e, wfs := (wfs target_world)\<lparr>root := t\<rparr>, progress := q\<rparr>))
    \<and> (\<exists>a. lookup t [''t'', ''x''] = Some (Reg a [1, 2, 3])) \<and> lookup t [''z''] = Some (Reg attr0 [9])"
proof -
  have "lookup (root (wfs target_world)) [''z''] = Some (Reg attr0 [9])" by (simp add: target_world_def)
  note z = this
  obtain e q t where r: "downloadRemoteItems Rcl (Some Cl) (feed Rcl (le_bytes 8 (2 :: u64) @ le_bytes 8 (4 :: u64)
        @ items_wire [ItemFile ''/t/y'' [4], ItemFile ''/t/x'' [1, 2, 3]] @ [0xFF]) target_world)
      = (Ret (), emit Cl (le_bytes 8 (2 :: u64) @ le_bytes 8 (4 :: u64)
           @ items_progress [ItemFile ''/t/y'' [4], ItemFile ''/t/x'' [1, 2, 3]] @ le_bytes 8 maxuint_2)
          (target_world\<lparr>errno := e, wfs := (wfs target_world)\<lparr>root := t\<rparr>, progress := q\<rparr>))"
    "stored t (ItemFile ''/t/x'' [1, 2, 3])" "files_kept (root (wfs target_world)) t"
    using download_stores_items [OF target_wr target_storable, of 2 4] by auto
  have "\<exists>a. lookup t [''t'', ''x''] = Some (Reg a [1, 2, 3])"
    using r(2) by (simp add: stored_def item_loc_def split_path_def)
  moreover have "lookup t [''z''] = Some (Reg attr0 [9])" using r(3) z unfolding files_kept_def by (metis is_dir.simps(2))
  ultimately show ?thesis using r(1) by blast
qed

subsection \<open>From one machine to the other\<close>

lemma client_download_run:
  assumes v: "\<forall>p \<in> set v. sendable_pair p" and wr: "\<forall>h. wr h w" and nf: "no_faults (wfs w)"
    and st: "\<forall>it \<in> set its. storable (root (wfs w)) it" and sep: "separate its"
  shows "\<exists>e q t. client_download Cl Rcl (feed Cl (path_list_wire v)
        (feed Rcl (le_bytes 8 (nf :: u64) @ le_bytes 8 (nb :: u64) @ items_wire its @ [0xFF]) w))
      = (Ret (), emit Rcl ([code_value ACTION_DOWNLOAD] @ path_list_wire v)
           (emit Cl (le_bytes 8 nf @ le_bytes 8 nb @ items_progress its @ le_bytes 8 maxuint_2)
              (w\<lparr>errno := e, wfs := (wfs w)\<lparr>root := t\<rparr>, progress := q\<rparr>)))
    \<and> (\<forall>it \<in> set its. stored t it) \<and> files_kept (root (wfs w)) t"
proof -
  let ?msg = "le_bytes 8 nf @ le_bytes 8 nb @ items_wire its @ [0xFF]"
  let ?w = "emit Rcl ([code_value ACTION_DOWNLOAD] @ path_list_wire v) w"
  obtain e q t where r: "downloadRemoteItems Rcl (Some Cl) (feed Rcl ?msg ?w)
      = (Ret (), opt_emit (Some Cl) (le_bytes 8 nf @ le_bytes 8 nb @ items_progress its @ le_bytes 8 maxuint_2)
          (?w\<lparr>errno := e, wfs := (wfs ?w)\<lparr>root := t\<rparr>, progress := q\<rparr>))"
    "\<forall>it \<in> set its. stored t it" "files_kept (root (wfs ?w)) t"
    using downloadRemoteItems_run [of "Some Cl" ?w its nf nb] assms by auto
  have "client_download Cl Rcl (feed Cl (path_list_wire v) (feed Rcl ?msg w))
      = downloadRemoteItems Rcl (Some Cl) (feed Rcl ?msg ?w)"
    using wr v
    by (simp add: client_download_def bnd_app thn_app receive_path_list write_emit send_path_list del: feed_append)
  with r show ?thesis
    by (intro exI [of _ e] exI [of _ q] exI [of _ t]) (simp add: opt_emit_def del: feed_append append.simps emit_emit)
qed

text \<open>
  C1: an upload from one machine to another: what the client's \<open>client_upload\<close> writes to the server
  after the request byte makes the server's \<open>downloadRemoteItems\<close> store a copy of every file and
  empty directory of the client's selection under its destination path.
\<close>

theorem upload_transfers_tree:
  assumes "\<forall>p \<in> set v. sendable_pair p \<and> plain_source (wfs wc) (fst p)" and "\<forall>h. wr h wc"
    and "\<forall>h. wr h ws" and "no_faults (wfs ws)" and "\<forall>it \<in> set (list_items (wfs wc) v). storable (root (wfs ws)) it"
    and "separate (list_items (wfs wc) v)"
  shows "\<exists>msg toCl e p. client_upload Cl Rcl (feed Cl (path_list_wire v) wc)
      = (Ret (), emit Rcl (code_value ACTION_UPLOAD # msg) (emit Cl toCl (wc\<lparr>errno := e, progress := p\<rparr>)))
    \<and> (\<exists>e q t. downloadRemoteItems Rcl None (feed Rcl msg ws)
          = (Ret (), ws\<lparr>errno := e, wfs := (wfs ws)\<lparr>root := t\<rparr>, progress := q\<rparr>)
        \<and> (\<forall>it \<in> set (list_items (wfs wc) v). stored t it) \<and> files_kept (root (wfs ws)) t)"
proof -
  let ?its = "list_items (wfs wc) v"
  let ?msg = "le_bytes 8 (list_files (wfs wc) v) @ le_bytes 8 (list_bytes (wfs wc) v) @ items_wire ?its @ [0xFF]"
  obtain toCl e p where "client_upload Cl Rcl (feed Cl (path_list_wire v) wc)
      = (Ret (), emit Rcl (code_value ACTION_UPLOAD # ?msg) (emit Cl toCl (wc\<lparr>errno := e, progress := p\<rparr>)))"
    using client_upload_run [OF assms(1,2)] by auto
  moreover have "\<exists>e q t. downloadRemoteItems Rcl None (feed Rcl ?msg ws)
          = (Ret (), ws\<lparr>errno := e, wfs := (wfs ws)\<lparr>root := t\<rparr>, progress := q\<rparr>)
        \<and> (\<forall>it \<in> set ?its. stored t it) \<and> files_kept (root (wfs ws)) t"
    using downloadRemoteItems_run [of None ws ?its] assms by (simp add: opt_emit_def)
  ultimately show ?thesis by blast
qed

theorem upload_transfers_tree_witness:
  "\<exists>msg toCl e p. client_upload Cl Rcl (feed Cl (path_list_wire [(''/d'', ''/t'')]) sample_world)
      = (Ret (), emit Rcl (code_value ACTION_UPLOAD # msg) (emit Cl toCl (sample_world\<lparr>errno := e, progress := p\<rparr>)))
    \<and> (\<exists>e q t. downloadRemoteItems Rcl None (feed Rcl msg target_world)
          = (Ret (), target_world\<lparr>errno := e, wfs := (wfs target_world)\<lparr>root := t\<rparr>, progress := q\<rparr>)
        \<and> stored t (ItemFile ''/t/x'' [1, 2, 3]) \<and> stored t (ItemFile ''/t/y'' [4]))"
proof -
  have i: "list_items (wfs sample_world) [(''/d'', ''/t'')] = [ItemFile ''/t/y'' [4], ItemFile ''/t/x'' [1, 2, 3]]"
    using node_at_path [OF sample_at] by (simp add: list_items_def pathConcat_def)
  have v: "\<forall>p \<in> set [(''/d'', ''/t'')]. sendable_pair p \<and> plain_source (wfs sample_world) (fst p)"
    using sample_at sample_wf sample_plain by (auto simp: sendable_pair_def plain_source_def intro!: exI [of _ "[''d'']"])
  show ?thesis
    using upload_transfers_tree [OF v sample_wr target_wr, unfolded i, OF target_storable]
    unfolding list.set ball_simps by blast
qed



end
