(* ===== verification/RH_Hash.thy ===== *)
theory RH_Hash
  imports RH_Store
begin

section \<open>Hashes of files and directories\<close>

text \<open>
  rh_hasher_botan.h. The cryptographic library is a parameter: \<open>b_hash label bytes\<close> is the digest,
  \<open>b_cipher name key bytes\<close> the encryption of \<open>bytes\<close> under a fresh key with an empty nonce,
  \<open>b_rng n\<close> the bytes of the system generator, \<open>b_hw_aes\<close> whether the processor has AES
  instructions. A hash object is the bytes it was updated with.
\<close>

record botan =
  b_hash :: "string \<Rightarrow> byte list \<Rightarrow> byte list"
  b_cipher :: "string \<Rightarrow> byte list \<Rightarrow> byte list \<Rightarrow> byte list"
  b_rng :: "nat \<Rightarrow> byte list"
  b_hw_aes :: bool

definition toUpperCase :: "string \<Rightarrow> string" where
  "toUpperCase src = map (\<lambda>c. let n = (of_char c :: nat) in if 97 \<le> n \<and> n \<le> 122 then char_of (n - 32) else c) src"

fun vecIndexOf :: "'a list \<Rightarrow> 'a \<Rightarrow> int" where
  "vecIndexOf [] k = - 1"
| "vecIndexOf (x # xs) k = (if x = k then 0 else let i = vecIndexOf xs k in if i < 0 then - 1 else i + 1)"

definition HASH_BLOCK_SIZE :: nat where "HASH_BLOCK_SIZE = 1048576"

definition rh_emptyHash :: "byte list" where "rh_emptyHash = []"
definition rh_errorHash :: "byte list" where "rh_errorHash = [0xFF]"

definition rh_hashLabels :: "string list" where
  "rh_hashLabels = [''CRC32'', ''MD5'', ''SHA-1'', ''SHA-256'', ''SHA-384'', ''SHA-512'', ''SHA-3(224)'',
     ''SHA-3(256)'', ''SHA-3(384)'', ''SHA-3(512)'', ''Blake2b(256)'', ''SHA-224'']"

definition cli_hashLabels :: "string list" where
  "cli_hashLabels = [''CRC32'', ''MD5'', ''SHA1'', ''SHA256'', ''SHA384'', ''SHA512'', ''SHA3-224'',
     ''SHA3-256'', ''SHA3-384'', ''SHA3-512'', ''BLAKE2B-256'', ''SHA224'']"

definition rh_hashSizes :: "nat list" where
  "rh_hashSizes = [4, 16, 20, 32, 48, 64, 28, 32, 48, 64, 32, 28]"

definition rh_hash_maxAlgoIndex :: nat where
  "rh_hash_maxAlgoIndex = length rh_hashSizes"

subsection \<open>One file\<close>

text \<open>
  The reading loop, on the state of the hash object; \<open>False\<close>: a read failed. The fuel is the size
  of the file and one more round.
\<close>

primrec hash_loop :: "nat \<Rightarrow> fd \<Rightarrow> byte list \<Rightarrow> (bool \<times> byte list) io" where
  "hash_loop 0 d acc = raise OutOfFuel"
| "hash_loop (Suc k) d acc =
     bnd (io_query (sys_read d HASH_BLOCK_SIZE)) (\<lambda>r. case r of
       None \<Rightarrow> ret (False, acc)
     | Some bs \<Rightarrow>
         if bs = [] then ret (True, acc)
         else thn (publishDelta (length bs)) (hash_loop k (fd_advance (length bs) d) (acc @ bs)))"

text \<open>The result (\<open>None\<close> for \<open>rh_errorHash\<close>) and the hash object after the call.\<close>

definition rh_computeHash :: "botan \<Rightarrow> string \<Rightarrow> nat \<Rightarrow> byte list \<Rightarrow> bool \<Rightarrow> (byte list option \<times> byte list) io" where
  "rh_computeHash B filePath algo hash1 finalizeHash =
     bnd (fd_create filePath FM_READ) (\<lambda>r. case r of
       Inl e \<Rightarrow> ret (None, hash1)
     | Inr d \<Rightarrow>
         bnd (get wfs) (\<lambda>f.
         bnd (hash_loop (length (case file_data f (fd_loc d) of None \<Rightarrow> [] | Some c \<Rightarrow> c) + 2) d hash1) (\<lambda>(ok, acc).
         if \<not> ok then ret (None, acc)
         else if finalizeHash then ret (Some (b_hash B (rh_hashLabels ! algo) acc), [])
         else ret (Some rh_emptyHash, acc))))"

subsection \<open>A directory\<close>

text \<open>The pattern \<open>^[^.].+\<close>, matched against a whole name.\<close>

definition not_hidden_pattern :: "string \<Rightarrow> bool" where
  "not_hidden_pattern s \<longleftrightarrow> (case s of c # r \<Rightarrow> c \<noteq> CHR ''.'' \<and> r \<noteq> []
      \<and> CHR 0x0A \<notin> set r \<and> CHR 0x0D \<notin> set r | [] \<Rightarrow> False)"

definition thumbsnames :: "string list" where
  "thumbsnames = [''Thumbs.db'', ''.DS_Store'']"

text \<open>
  The table of digests: a buffer, the position of the next digest, the size of the buffer.
  Writing beyond its end (undefined in C++) is \<open>None\<close>.
\<close>

definition put_digest :: "nat \<Rightarrow> byte list option \<Rightarrow> byte list \<times> nat \<Rightarrow> (byte list \<times> nat) option" where
  "put_digest hashSize digest s =
     (let (hashes, hashIdx) = s;
          hashes' = (case digest of
              None \<Rightarrow> Some hashes
            | Some d \<Rightarrow> if hashIdx + length d \<le> length hashes then Some (overwrite hashIdx d hashes) else None) in
      case hashes' of
        None \<Rightarrow> None
      | Some h \<Rightarrow>
          let hashIdx' = hashIdx + hashSize in
          Some (if hashIdx' = length h then h @ replicate hashSize 0 else h, hashIdx'))"

text \<open>\<open>qsort\<close> of the whole records of the buffer; the bytes after the last whole record stay.\<close>

definition sort_digests :: "nat \<Rightarrow> byte list \<Rightarrow> byte list" where
  "sort_digests hashSize hashes =
     (let n = length hashes div hashSize in
      concat (sort (map (\<lambda>i. take hashSize (drop (i * hashSize) hashes)) [0..<n])) @ drop (n * hashSize) hashes)"

definition DIR_HASHES_SIZE :: nat where "DIR_HASHES_SIZE = 262144"

definition skipped_name :: "bool \<Rightarrow> bool \<Rightarrow> string \<Rightarrow> bool" where
  "skipped_name ignoreThumbsFiles ignoreUnixHiddenFiles nm \<longleftrightarrow>
     (ignoreThumbsFiles \<and> nm \<in> set thumbsnames) \<or> (ignoreUnixHiddenFiles \<and> nm \<noteq> [] \<and> hd nm = CHR ''.'')"

definition rh_computeHash_dir :: "botan \<Rightarrow> string \<Rightarrow> nat \<Rightarrow> u8 \<Rightarrow> byte list io" where
  "rh_computeHash_dir B filePath algo dirHashOpts =
     (let withNames = b0 dirHashOpts; ignoreThumbsFiles = b1 dirHashOpts; ignoreUnixHiddenFiles = b2 dirHashOpts;
          ignoreEmptyDirs = (BIT dirHashOpts 3 \<noteq> 0); hashSize = rh_hashSizes ! algo in
      bnd (createIterator filePath RELATIVE_WITHOUT_BASE True RECURSIVE withNames
             (if ignoreUnixHiddenFiles then not_hidden_pattern else (\<lambda>_. True))) (\<lambda>it.
      if \<not> it_ok it then ret rh_emptyHash
      else if withNames then
        bnd (it_each (\<lambda>it acc.
               if it_currentEfd it = CHR 0x01 then
                 (if skipped_name ignoreThumbsFiles ignoreUnixHiddenFiles (it_currentName it) then ret acc
                  else bnd (rh_computeHash B (pathConcat filePath (it_current it)) algo acc False) (\<lambda>(r, acc').
                       ret (acc' @ s2b (it_current it))))
               else if ignoreEmptyDirs \<and> it_currentEfd it = CHR ''@'' then ret acc
               else ret (acc @ s2b (it_current it))) it []) (\<lambda>acc.
        ret (b_hash B (rh_hashLabels ! algo) acc))
      else
        bnd (it_each (\<lambda>it s.
               if it_currentEfd it = CHR 0x01 \<and> \<not> skipped_name ignoreThumbsFiles ignoreUnixHiddenFiles (it_currentName it) then
                 bnd (rh_computeHash B (pathConcat filePath (it_current it)) algo [] True) (\<lambda>(r, acc').
                 case put_digest hashSize r s of None \<Rightarrow> raise (ProcExit 134) | Some s' \<Rightarrow> ret s')
               else ret s) it (replicate DIR_HASHES_SIZE 0, 0)) (\<lambda>s.
        ret (b_hash B (rh_hashLabels ! algo) (sort_digests hashSize (fst s))))))"

definition rh_computeHash_wrapper :: "botan \<Rightarrow> string \<Rightarrow> nat \<Rightarrow> u8 \<Rightarrow> byte list io" where
  "rh_computeHash_wrapper B path algo dirHashOpts =
     bnd (efdL path) (\<lambda>efd.
     bnd (osGetSize path True) (\<lambda>totalSize.
     thn getProgressHook
    (if efd = CHR ''d'' \<or> efd = CHR ''L'' then rh_computeHash_dir B path algo dirHashOpts
     else bnd (rh_computeHash B path algo [] True) (\<lambda>(r, acc). ret (case r of None \<Rightarrow> rh_errorHash | Some d \<Rightarrow> d)))))"

subsection \<open>Properties\<close>

text \<open>The blocks read from a file are together its content.\<close>

lemma take_drop_len: "take n xs @ drop (length (take n xs)) xs = xs"
  by (cases "n \<le> length xs") simp_all

lemma hash_loop_run:
  "\<lbrakk>no_faults f; file_data f (fd_loc d) = Some c; length c < fd_pos d + k; 0 < k\<rbrakk> \<Longrightarrow>
   says f u (hash_loop k d acc) (True, acc @ drop (fd_pos d) c) (\<lambda>h. [])"
proof (induction k arbitrary: d acc)
  case 0
  then show ?case by simp
next
  case (Suc k)
  let ?bs = "take HASH_BLOCK_SIZE (drop (fd_pos d) c)"
  have q: "says f u (io_query (sys_read d HASH_BLOCK_SIZE)) (Some ?bs) (\<lambda>h. [])"
    using Suc.prems by (intro says_cong [OF says_quiet [OF quiet_query]]) (simp_all add: sys_read_def no_faults_faulty)
  show ?case
  proof (cases "?bs = []")
    case True
    then have "drop (fd_pos d) c = []" by (auto simp: HASH_BLOCK_SIZE_def)
    then show ?thesis
      unfolding hash_loop.simps
      by (intro says_cong [OF says_bnd [OF q]], unfold option.case if_P [OF True]) (rule says_ret, simp_all)
  next
    case False
    then have lt: "fd_pos d < length c" by (simp add: HASH_BLOCK_SIZE_def)
    have pos: "0 < length ?bs" using False unfolding length_greater_0_conv .
    have ih: "says f u (hash_loop k (fd_advance (length ?bs) d) (acc @ ?bs))
        (True, (acc @ ?bs) @ drop (fd_pos (fd_advance (length ?bs) d)) c) (\<lambda>h. [])"
    proof (rule Suc.IH)
      show "length c < fd_pos (fd_advance (length ?bs) d) + k" unfolding fd_advance_sel using Suc.prems(3) pos by linarith
      show "0 < k" using Suc.prems(3) lt by linarith
    qed (use Suc.prems in simp_all)
    have whole: "?bs @ drop (fd_pos d + length ?bs) c = drop (fd_pos d) c"
      using take_drop_len [of HASH_BLOCK_SIZE "drop (fd_pos d) c"] by (simp only: drop_drop add.commute)
    show ?thesis
      unfolding hash_loop.simps
      by (rule says_cong, rule says_bnd, rule q, unfold option.case if_not_P [OF False],
          rule says_thn [OF says_publishDelta ih]) (simp_all only: fd_advance_sel append_assoc whole append_Nil)
  qed
qed

lemma says_get_wfs: "says f u (g f) v out \<Longrightarrow> says f u (bnd (get wfs) g) v out"
  by (rule says_app [of f _ "g f"]) (simp_all add: bnd_app get_app)

lemma says_computeHash:
  assumes "at_path f cs (Reg a c)"
  shows "says f u (rh_computeHash B (abs_path cs) algo acc fin)
     (if fin then (Some (b_hash B (rh_hashLabels ! algo) (acc @ c)), []) else (Some rh_emptyHash, acc @ c)) (\<lambda>h. [])"
proof -
  let ?d = "\<lparr>fd_path = abs_path cs, fd_loc = cs, fd_pos = 0\<rparr>"
  have nf: "no_faults f" using assms by (simp add: at_path_def)
  note fd = file_open_at_path [OF assms]
  have l: "says f u (hash_loop (length (case file_data f (fd_loc ?d) of None \<Rightarrow> [] | Some c \<Rightarrow> c) + 2) ?d acc) (True, acc @ c) (\<lambda>h. [])"
    using hash_loop_run [OF nf, of ?d c] fd by (simp del: hash_loop.simps)
  have fin: "says f u (if \<not> True then ret (None, acc @ c)
        else if fin then ret (Some (b_hash B (rh_hashLabels ! algo) (acc @ c)), []) else ret (Some rh_emptyHash, acc @ c))
     (if fin then (Some (b_hash B (rh_hashLabels ! algo) (acc @ c)), []) else (Some rh_emptyHash, acc @ c)) (\<lambda>h. [])"
    by (cases fin) (simp_all add: says_ret)
  show ?thesis
    unfolding rh_computeHash_def
    by (rule says_cong, rule says_bnd, rule says_fd_create_read [OF fd(1)], unfold sum.case, rule says_get_wfs,
        rule says_bnd, rule l, unfold prod.case, rule fin) simp_all
qed

text \<open>
  The digest of a regular file is that of its whole content, whatever the size of the blocks it
  is read in, and hashing it changes nothing.
\<close>

theorem computeHash_whole_file:
  assumes "at_path (wfs w) cs (Reg a c)" and "\<forall>h. wr h w"
  shows "\<exists>e p. rh_computeHash B (abs_path cs) algo [] True w
     = (Ret (Some (b_hash B (rh_hashLabels ! algo) c), []), w\<lparr>errno := e, progress := p\<rparr>)"
  using saysD [OF says_computeHash [OF assms(1), of "users w" B algo "[]" True] refl refl assms(2)] by simp

definition toy_botan :: botan where
  "toy_botan = \<lparr>b_hash = (\<lambda>l bs. [of_nat (length bs)]), b_cipher = (\<lambda>n k bs. map (\<lambda>b. b XOR hd (k @ [0])) bs),
     b_rng = (\<lambda>n. replicate n 7), b_hw_aes = False\<rparr>"

theorem computeHash_whole_file_witness:
  "\<exists>e p. rh_computeHash toy_botan ''/f'' 1 [] True link_world = (Ret (Some [5], []), link_world\<lparr>errno := e, progress := p\<rparr>)"
proof -
  have "at_path (wfs link_world) [''f''] (Reg attr0 [1, 2, 3, 4, 5])"
    by (simp add: at_path_def link_world_def no_faults_def good_name_def dirs_above_def)
  moreover have "\<forall>h. wr h link_world" by (simp add: link_world_def)
  ultimately show ?thesis
    using computeHash_whole_file [of link_world "[''f'']" attr0 "[1, 2, 3, 4, 5]" toy_botan 1]
    by (simp add: toy_botan_def)
qed

text \<open>A run of files with digests of one size fills the table from its start.\<close>

definition put_digests :: "nat \<Rightarrow> byte list list \<Rightarrow> byte list \<times> nat \<Rightarrow> (byte list \<times> nat) option" where
  "put_digests hs ds s = foldl (\<lambda>r d. case r of None \<Rightarrow> None | Some s' \<Rightarrow> put_digest hs (Some d) s') (Some s) ds"

lemma put_digests_simps [simp]:
  "put_digests hs [] s = Some s"
  "put_digests hs (d # ds) s = (case put_digest hs (Some d) s of None \<Rightarrow> None | Some s' \<Rightarrow> put_digests hs ds s')"
proof -
  have none: "foldl (\<lambda>r d. case r of None \<Rightarrow> None | Some s' \<Rightarrow> put_digest hs (Some d) s') None ds = None" for ds
    by (induction ds) simp_all
  show "put_digests hs [] s = Some s"
    "put_digests hs (d # ds) s = (case put_digest hs (Some d) s of None \<Rightarrow> None | Some s' \<Rightarrow> put_digests hs ds s')"
    by (simp_all add: put_digests_def none split: option.splits)
qed

lemma put_digest_room:
  assumes "length d = hs" "i + hs < length buf"
  shows "put_digest hs (Some d) (buf, i) = Some (overwrite i d buf, i + hs)"
  using assms by (simp add: put_digest_def Let_def overwrite_def)

lemma length_overwrite: "i + length d \<le> length buf \<Longrightarrow> length (overwrite i d buf) = length buf"
  by (simp add: overwrite_def)

lemma length_concat_const: "\<forall>d \<in> set ds. length d = n \<Longrightarrow> length (concat ds) = length ds * n"
  by (induction ds) simp_all

lemma put_digests_room:
  "\<lbrakk>\<forall>d \<in> set ds. length d = hs; length pre + length ds * hs < length pre + length rest\<rbrakk> \<Longrightarrow>
   put_digests hs ds (pre @ rest, length pre) = Some (pre @ concat ds @ drop (length ds * hs) rest, length pre + length ds * hs)"
proof (induction ds arbitrary: pre rest)
  case Nil
  then show ?case by simp
next
  case (Cons d ds)
  then have d: "length d = hs" and lt: "hs + length ds * hs < length rest" by simp_all
  have "put_digest hs (Some d) (pre @ rest, length pre) = Some (overwrite (length pre) d (pre @ rest), length pre + hs)"
    using d lt by (intro put_digest_room) simp_all
  also have "overwrite (length pre) d (pre @ rest) = (pre @ d) @ drop hs rest"
    using d by (simp add: overwrite_def)
  finally have "put_digests hs (d # ds) (pre @ rest, length pre) = put_digests hs ds ((pre @ d) @ drop hs rest, length (pre @ d))"
    using d by simp
  also have "\<dots> = Some ((pre @ d) @ concat ds @ drop (length ds * hs) (drop hs rest), length (pre @ d) + length ds * hs)"
    using Cons.prems lt by (intro Cons.IH) simp_all
  finally show ?case using d by (simp add: add.commute add.left_commute)
qed

text \<open>
  Hashing a directory by content writes past the end of its table when there are enough files:
  for every digest size that does not divide the initial size (SHA-1, SHA-224, SHA3-224, SHA-384 and
  SHA3-384 among the algorithms), the first digest that does not fit is written beyond the buffer,
  because the table grows only when a digest ends exactly at its end.
\<close>

theorem dir_hash_table_overflow:
  assumes "\<forall>d \<in> set ds. length d = hs" and "length d' = hs" and "0 < hs" and "\<not> hs dvd DIR_HASHES_SIZE"
    and "length ds = DIR_HASHES_SIZE div hs"
  shows "put_digests hs (ds @ [d']) (replicate DIR_HASHES_SIZE 0, 0) = None"
proof -
  let ?n = "DIR_HASHES_SIZE div hs"
  have lt: "?n * hs < DIR_HASHES_SIZE"
    using assms(4) by (metis div_mult_mod_eq dvd_eq_mod_eq_0 less_add_same_cancel1 neq0_conv)
  have ge: "DIR_HASHES_SIZE < ?n * hs + hs"
    using assms(3) by (metis add.commute dividend_less_times_div mult.commute mult_Suc_right)
  have app: "put_digests hs (xs @ [d']) s = (case put_digests hs xs s of None \<Rightarrow> None | Some s' \<Rightarrow> put_digest hs (Some d') s')"
    for xs s by (simp add: put_digests_def)
  have "put_digests hs ds ([] @ replicate DIR_HASHES_SIZE 0, length ([] :: byte list)) =
      Some ([] @ concat ds @ drop (length ds * hs) (replicate DIR_HASHES_SIZE 0), length ([] :: byte list) + length ds * hs)"
    by (rule put_digests_room) (use assms lt in simp_all)
  moreover have "length (concat ds) = ?n * hs"
    using length_concat_const [OF assms(1)] assms(5) by simp
  ultimately show ?thesis
    using lt ge assms(2,5) unfolding app by (simp add: put_digest_def Let_def)
qed

theorem dir_hash_table_overflow_witness:
  "put_digests 20 (replicate 13107 (replicate 20 0) @ [replicate 20 0]) (replicate DIR_HASHES_SIZE 0, 0) = None
     \<and> rh_hashSizes ! 2 = 20"
proof -
  have "\<not> 20 dvd DIR_HASHES_SIZE" "13107 = DIR_HASHES_SIZE div 20" by (simp_all add: DIR_HASHES_SIZE_def)
  then show ?thesis
    using dir_hash_table_overflow [of "replicate 13107 (replicate 20 0)" 20 "replicate 20 0"]
    by (simp add: rh_hashSizes_def)
qed

end
