(* ===== verification/RH_Server.thy ===== *)
theory RH_Server
  imports RH_Hash
begin

section \<open>The request handlers shared by the local and the remote server\<close>

text \<open>
  \<open>listDir\<close>, \<open>retrieveHomePath\<close>, \<open>hashFile\<close>, \<open>createRandomFile\<close>, \<open>createEmptyFile\<close>,
  \<open>createFileOrDirectory\<close>, \<open>createHardOrSoftLink\<close> and \<open>stats\<close> of Utils.h (the Unix variants), and
  the remote server of xre.h: the request loop of a TLS session, the messages about connecting and
  disconnecting clients, the start of the server. Each handler runs after the request byte was read.
\<close>

subsection \<open>Listings\<close>

definition home_reply :: "world \<Rightarrow> string" where
  "home_reply w = (if rhss w = - 1 then homePath w else xreHomePath w)"

definition deny :: "handle \<Rightarrow> unit io" where
  "deny h = thn (set_errno EPERM) (sendErrorResponse h)"

text \<open>The loop over the entries: \<open>True\<close> until a write failed, which closes the descriptor.\<close>

definition send_entry :: "handle \<Rightarrow> dirIterator \<Rightarrow> bool \<Rightarrow> bool io" where
  "send_entry h it go =
     (if \<not> go then ret False
      else bnd (assemble_ls_resp_from_filepath (it_current it) (it_currentName it) False) (\<lambda>r. case r of
        None \<Rightarrow> ret True
      | Some e \<Rightarrow> bnd (writels_resp h e) (\<lambda>x. if x \<noteq> 0 then thn (closeDesc h) (ret False) else ret True)))"

definition listDir :: "handle \<Rightarrow> unit io" where
  "listDir h =
     bnd (readStringWithLen h) (\<lambda>p.
     bnd (get (\<lambda>w. w)) (\<lambda>w.
     let redirectHome = (p = []); dirpath = (if redirectHome then home_reply w else p) in
     if rhss_checkAccess w dirpath \<noteq> 0 then deny h
     else bnd (plain_iterator dirpath) (\<lambda>it.
       if \<not> it_ok it then sendErrorResponse h
       else thn (if redirectHome
                 then thn (writeAllOrExit h [RESPONSE_REDIRECT]) (writeStringWithLen h (home_reply w))
                 else sendOkResponse h)
           (bnd (it_each (send_entry h) it True) (\<lambda>go.
            if go then writeAllOrExit h (le_bytes 2 (0 :: u16)) else ret ())))))"

definition retrieveHomePath :: "handle \<Rightarrow> unit io" where
  "retrieveHomePath h =
     bnd (readStringWithLen h) (\<lambda>inputPath.
     thn (sendOkResponse h) (bnd (get home_reply) (writeStringWithLen h)))"

subsection \<open>Hashes\<close>

definition hashFile :: "botan \<Rightarrow> handle \<Rightarrow> unit io" where
  "hashFile B h =
     bnd (readAllOrExit h 1) (\<lambda>a.
     bnd (readAllOrExit h 1) (\<lambda>d.
     let algorithm = unat (le_word a :: u8); dirHashOpts = (le_word d :: u8) in
     if rh_hash_maxAlgoIndex \<le> algorithm then sendErrorResponse h
     else bnd (readStringWithLen h) (\<lambda>filepath.
       bnd (rh_computeHash_wrapper B filepath algorithm dirHashOpts) (\<lambda>digest.
       if digest = [] then sendErrorResponse h
       else thn (sendOkResponse h) (writeAllOrExit h digest)))))"

subsection \<open>Creating files\<close>

record retHash =
  rhash :: string
  rret :: int

text \<open>One block: the second half is the first one encrypted under a key taken from it, and back.\<close>

definition rand_round :: "botan \<Rightarrow> string \<Rightarrow> nat \<Rightarrow> byte list \<times> byte list \<Rightarrow> byte list \<times> byte list" where
  "rand_round B usedCipher keySize s =
     (let p1 = fst s;
          p2 = b_cipher B usedCipher (take keySize p1) p1;
          p1' = b_cipher B usedCipher (take keySize p2) p2 in (p1', p2))"

definition rand_init :: "botan \<Rightarrow> nat \<Rightarrow> string \<Rightarrow> byte list" where
  "rand_init B keySize seed =
     overwrite 0 (if seed = [] then b_rng B keySize else b_hash B ''SHA-256'' (s2b seed)) (replicate (HASH_BLOCK_SIZE div 2) 0)"

definition rand_chunk :: "botan \<Rightarrow> handle \<Rightarrow> string \<Rightarrow> nat
    \<Rightarrow> fd \<times> (byte list \<times> byte list) \<times> byte list \<Rightarrow> nat \<Rightarrow> (fd \<times> (byte list \<times> byte list) \<times> byte list) io" where
  "rand_chunk B h usedCipher keySize s n =
     (let (fd, ps, acc) = s; ps' = rand_round B usedCipher keySize ps; out = take n (fst ps' @ snd ps') in
      bnd (fd_writeAllOrExit fd out) (\<lambda>fd'.
      thn (ls_publishDelta h n) (ret (fd', ps', acc @ out))))"

definition createRandomFile :: "botan \<Rightarrow> (byte list \<Rightarrow> string) \<Rightarrow> string \<Rightarrow> u64 \<Rightarrow> string \<Rightarrow> string \<Rightarrow> string \<Rightarrow> handle \<Rightarrow> retHash io" where
  "createRandomFile B hex_encode path sz seed output_hash backendCipher h =
     (let keySize = (if backendCipher = ''AES-128/CTR'' then 16 else 32);
          idx = vecIndexOf cli_hashLabels (toUpperCase output_hash);
          usedCipher = (if backendCipher \<noteq> [] then backendCipher
                        else if b_hw_aes B then ''AES-256/CTR'' else ''ChaCha'') in
      if output_hash \<noteq> [] \<and> idx < 0 then raise (ProcExit 134)
      else bnd (fd_create path FM_XCL) (\<lambda>r. case r of
        Inl e \<Rightarrow> thn (sendErrorResponse h) (ret \<lparr>rhash = [], rret = e\<rparr>)
      | Inr fd \<Rightarrow>
          thn (sendOkResponse h)
         (thn getProgressHook
         (bnd (io_fold (rand_chunk B h usedCipher keySize) (fd, (rand_init B keySize seed, replicate (HASH_BLOCK_SIZE div 2) 0), [])
                 (chunk_sizes (unat sz) HASH_BLOCK_SIZE)) (\<lambda>(fd', ps, acc).
          ret \<lparr>rhash = (if output_hash \<noteq> [] then hex_encode (b_hash B (rh_hashLabels ! nat idx) acc) else []),
               rret = 0\<rparr>)))))"

definition zero_chunk :: "handle \<Rightarrow> fd \<Rightarrow> nat \<Rightarrow> fd io" where
  "zero_chunk h fd n = bnd (fd_writeAllOrExit fd (replicate n 0)) (\<lambda>fd'. thn (ls_publishDelta h n) (ret fd'))"

definition createEmptyFile :: "string \<Rightarrow> u64 \<Rightarrow> handle \<Rightarrow> retHash io" where
  "createEmptyFile path sz h =
     bnd (fd_create path FM_XCL) (\<lambda>r. case r of
       Inl e \<Rightarrow> thn (sendErrorResponse h) (ret \<lparr>rhash = [], rret = e\<rparr>)
     | Inr fd \<Rightarrow>
         thn (sendOkResponse h)
        (thn (if sz \<noteq> 0
              then thn getProgressHook (thn (io_fold (zero_chunk h) fd (chunk_sizes (unat sz) COPY_CHUNK_SIZE)) (ret ()))
              else ret ())
             (ret \<lparr>rhash = [], rret = 0\<rparr>)))"

definition read_if :: "bool \<Rightarrow> handle \<Rightarrow> string io" where
  "read_if b h = (if b then readStringWithLen h else ret [])"

definition create_advanced :: "botan \<Rightarrow> (byte list \<Rightarrow> string) \<Rightarrow> handle \<Rightarrow> string \<Rightarrow> unit io" where
  "create_advanced B hex h filepath =
     bnd (readAllOrExit h 1) (\<lambda>c.
     bnd (readAllOrExit h 8) (\<lambda>sz.
     let creationStrategy = (le_word c :: u8); filesize = (le_word sz :: u64);
         st = (\<lambda>m. creationStrategy AND m \<noteq> 0) in
     bnd (if st 1 then
            bnd (createEmptyFile filepath filesize h) (\<lambda>retH. thn (set_errno (rret retH)) (ret []))
          else if st 2 then
            bnd (read_if (st 4) h) (\<lambda>seed.
            bnd (read_if (st 8) h) (\<lambda>output_hash.
            bnd (read_if (st 16) h) (\<lambda>backend_cipher.
            bnd (createRandomFile B hex filepath filesize seed output_hash backend_cipher h) (\<lambda>retH.
            thn (set_errno (rret retH)) (ret (rhash retH))))))
          else thn (set_errno EINVAL) (ret [])) (\<lambda>output_hash.
     thn (writeAllOrExit h (le_bytes 8 maxuint))
         (if st 2 \<and> st 8 then writeStringWithLen h output_hash else ret ()))))"

definition createFileOrDirectory :: "botan \<Rightarrow> (byte list \<Rightarrow> string) \<Rightarrow> handle \<Rightarrow> u8 \<Rightarrow> unit io" where
  "createFileOrDirectory B hex h fl =
     bnd (readStringWithLen h) (\<lambda>filepath.
     bnd (readAllOrExit h 4) (\<lambda>m.
     bnd (get (\<lambda>w. w)) (\<lambda>w.
     let mode = (le_word m :: u32) in
     if rhss_checkAccess w filepath \<noteq> 0 then deny h
     else if b0 fl then
       (if b1 fl then create_advanced B hex h filepath
        else let parent = getParentDir filepath in
          bnd (mkpath parent mode True) (\<lambda>r.
          if r \<noteq> 0 then sendErrorResponse h
          else bnd (fd_create filepath FM_XCL) (\<lambda>o1.
            sendBaseResponse (case o1 of Inl e \<Rightarrow> - 1 | Inr d \<Rightarrow> 0) h)))
     else bnd (mkpath filepath mode False) (\<lambda>r. sendBaseResponse r h))))"

definition createHardOrSoftLink :: "handle \<Rightarrow> u8 \<Rightarrow> unit io" where
  "createHardOrSoftLink h fl =
     bnd (readPairOfStringsWithPairOfLens h) (\<lambda>srcDestPaths.
     let linkfn = (if b1 fl then sys_link else sys_symlink) in
     bnd (io_update (linkfn (fst srcDestPaths) (snd srcDestPaths))) (\<lambda>ok.
     sendBaseResponse (if ok then 0 else - 1) h))"

subsection \<open>Statistics\<close>

definition zero_folder :: folderStats_resp_t where
  "zero_folder = \<lparr>childrenDirs = 0, childrenFiles = 0, totalDirs = 0, totalFiles = 0, totalSize = 0\<rparr>"

definition stats_file :: "handle \<Rightarrow> unit io" where
  "stats_file h =
     bnd (readStringWithLen h) (\<lambda>filepath.
     bnd (get (\<lambda>w. w)) (\<lambda>w.
     if rhss_checkAccess w filepath \<noteq> 0 then deny h
     else bnd (osStat filepath) (\<lambda>r. case r of
       None \<Rightarrow> sendErrorResponse h
     | Some st \<Rightarrow> thn (sendOkResponse h) (writesingleStats_resp h st))))"

definition accumulate_dir :: "string \<Rightarrow> int \<times> folderStats_resp_t \<Rightarrow> (int \<times> folderStats_resp_t) io" where
  "accumulate_dir dirpath s =
     bnd (accumulateChildrenFilesAndFoldersCount dirpath (snd s)) (\<lambda>a.
     bnd (accumulateTotalFilesAndFoldersCount dirpath (snd a)) (\<lambda>b.
     ret (if fst a \<noteq> 0 \<or> fst b \<noteq> 0 then - 1 else fst s, snd b)))"

definition stats_dir :: "handle \<Rightarrow> unit io" where
  "stats_dir h =
     bnd (readStringWithLen h) (\<lambda>dirpath.
     bnd (get (\<lambda>w. w)) (\<lambda>w.
     if rhss_checkAccess w dirpath \<noteq> 0 then deny h
     else bnd (accumulate_dir dirpath (0, zero_folder)) (\<lambda>s.
       thn (sendBaseResponse (fst s) h) (writefolderStats_resp h (snd s)))))"

definition stats_multiple_round :: "handle \<Rightarrow> int \<times> folderStats_resp_t
    \<Rightarrow> ((int \<times> folderStats_resp_t) + (int \<times> folderStats_resp_t)) io" where
  "stats_multiple_round h s =
     bnd (readStringWithLen h) (\<lambda>dirpath.
     if dirpath = [] then ret (Inr s)
     else bnd (existsIsFileIsDir0 dirpath) (\<lambda>efd.
       if efd = 1 then
         bnd (osGetSize dirpath False) (\<lambda>sz.
         ret (Inl (fst s, (snd s)\<lparr>childrenFiles := childrenFiles (snd s) + 1, totalFiles := totalFiles (snd s) + 1,
                                  totalSize := totalSize (snd s) + word_of_int sz\<rparr>)))
       else if efd = 2 then bnd (accumulate_dir dirpath s) (\<lambda>s'. ret (Inl s'))
       else ret (Inl (- 1, snd s))))"

definition stats_multiple :: "handle \<Rightarrow> unit io" where
  "stats_multiple h =
     bnd (io_loop h (stats_multiple_round h) (0, zero_folder)) (\<lambda>s.
     thn (sendBaseResponse (fst s) h) (writefolderStats_resp h (snd s)))"

definition stats :: "handle \<Rightarrow> u8 \<Rightarrow> unit io" where
  "stats h fl =
     (if b0 fl then stats_file h
      else if b1 fl then stats_dir h
      else if b2 fl then stats_multiple h
      else ret ())"

subsection \<open>The remote server\<close>

definition controlCursor :: "handle \<Rightarrow> unit io" where
  "controlCursor h = thn (set_errno 1234) (thn (sendErrorResponse h) threadExit)"

definition serve_remote :: "botan \<Rightarrow> (byte list \<Rightarrow> string) \<Rightarrow> handle \<Rightarrow> request_type \<Rightarrow> unit io" where
  "serve_remote B hex rcl rq =
     (case control_code (request rq) of
        ACTION_LS \<Rightarrow> (if flags rq = 0 then listDir rcl else if flags rq = 2 then retrieveHomePath rcl else threadExit)
      | ACTION_DOWNLOAD \<Rightarrow> server_download rcl
      | ACTION_UPLOAD \<Rightarrow> downloadRemoteItems rcl None
      | ACTION_CREATE \<Rightarrow> createFileOrDirectory B hex rcl (flags rq)
      | ACTION_LINK \<Rightarrow> createHardOrSoftLink rcl (flags rq)
      | ACTION_STATS \<Rightarrow> stats rcl (flags rq)
      | ACTION_HASH \<Rightarrow> hashFile B rcl
      | ACTION_OTHER \<Rightarrow>
          bnd (readAllOrExit rcl 2) (\<lambda>ao. if (le_word ao :: u16) = 0x21 then controlCursor rcl else ret ())
      | _ \<Rightarrow> threadExit)"

definition remote_round :: "botan \<Rightarrow> (byte list \<Rightarrow> string) \<Rightarrow> handle \<Rightarrow> unit \<Rightarrow> (unit + unit) io" where
  "remote_round B hex rcl u =
     bnd (readAllOrExit rcl 1) (\<lambda>b.
     thn (serve_remote B hex rcl (request_of_byte (le_word b))) (ret (Inl ())))"

text \<open>\<open>catch (...)\<close>: the session ends, the process goes on, unless it was ended (\<open>_Exit\<close>).\<close>

definition catch_all :: "unit io \<Rightarrow> unit io" where
  "catch_all m = (\<lambda>w. case m w of
     (Raise ThreadExit, w') \<Rightarrow> (Ret (), w')
   | (Raise StdException, w') \<Rightarrow> (Ret (), w')
   | r \<Rightarrow> r)"

definition tlsServerSessionEventLoop :: "botan \<Rightarrow> (byte list \<Rightarrow> string) \<Rightarrow> handle \<Rightarrow> unit io" where
  "tlsServerSessionEventLoop B hex rcl = catch_all (io_loop rcl (remote_round B hex rcl) ())"

text \<open>
  The local socket over which the user interface is told of clients: \<open>flag, length, address\<close> in one
  write. A short write ends the process. \<open>local\<close>: whether \<open>rhss_local\<close> is open.
\<close>

definition session_info :: "u8 \<Rightarrow> string \<Rightarrow> byte list" where
  "session_info flag client = [flag, of_nat (length client)] @ s2b client"

definition on_server_session_exit_func :: "bool \<Rightarrow> string \<Rightarrow> unit io" where
  "on_server_session_exit_func local client =
     (if local then
        bnd (writeRaw RhssLocal (session_info 0xFF client)) (\<lambda>r.
        if less_size_t r (length (session_info 0xFF client)) then raise (ProcExit 23) else ret ())
      else ret ())"

text \<open>
  \<open>setup\<close> of the TLS session is a parameter: when the handshake is complete it writes the connect
  information to the local socket; \<open>False\<close>: the handshake failed and the descriptor reads nothing.
\<close>

definition tlsServerSession :: "botan \<Rightarrow> (byte list \<Rightarrow> string) \<Rightarrow> (byte list option \<Rightarrow> unit io) \<Rightarrow> bool \<Rightarrow> string \<Rightarrow> unit io" where
  "tlsServerSession B hex setup local client =
     thn (setup (if local then Some (session_info 0 client) else None))
    (thn (tlsServerSessionEventLoop B hex Rcl) (on_server_session_exit_func local client))"

subsection \<open>Starting the server\<close>

definition RH_TLS_CERT_STRING :: string where "RH_TLS_CERT_STRING = ''dummycrt.pem''"
definition RH_TLS_KEY_STRING :: string where "RH_TLS_KEY_STRING = ''dummykey.pem''"

text \<open>The certificate and key are looked for in two directories; \<open>Some\<close> is the one they are loaded from.\<close>

primrec search_certs :: "string list \<Rightarrow> string option io" where
  "search_certs [] = ret None"
| "search_certs (s # ss) =
     bnd (existsIsFileIsDir0 (s @ RH_TLS_CERT_STRING)) (\<lambda>crt1.
     bnd (if crt1 = 1 then existsIsFileIsDir0 (s @ RH_TLS_KEY_STRING) else ret 0) (\<lambda>key1.
     if crt1 = 1 \<and> key1 = 1 then ret (Some s) else search_certs ss))"

definition xreAvailable :: "bool io" where
  "xreAvailable = bnd (search_certs [''./'', ''/usr/lib/'']) (\<lambda>r. ret (r \<noteq> None))"

text \<open>
  \<open>socket\<close>, \<open>bind\<close> and \<open>listen\<close> are parameters: the descriptor or -1, and two results. \<open>cl\<close>
  is the local client that asked for the server, if any.
\<close>

definition reply_if :: "handle option \<Rightarrow> (handle \<Rightarrow> unit io) \<Rightarrow> unit io" where
  "reply_if cl m = (case cl of None \<Rightarrow> ret () | Some h \<Rightarrow> m h)"

definition getServerSocket :: "int \<Rightarrow> int \<Rightarrow> int \<Rightarrow> handle option \<Rightarrow> int io" where
  "getServerSocket xre_socket bind_result listen_result cl =
     (if xre_socket = - 1 then thn (reply_if cl sendErrorResponse) (ret (- 1))
      else if bind_result \<noteq> 0 then thn (reply_if cl sendErrorResponse) (ret (- 1))
      else if listen_result \<noteq> 0 then thn (reply_if cl sendErrorResponse) (ret (- 1))
      else thn (reply_if cl sendOkResponse) (ret xre_socket))"

text \<open>
  One round of \<open>selectLoop\<close>: what \<open>select\<close> answers, whether the listening socket is readable or
  exceptional, whether the local socket is, what \<open>accept\<close> answers. The result is whether a session
  was started; the exits end the process.
\<close>

definition select_round :: "int \<Rightarrow> bool \<Rightarrow> bool \<Rightarrow> bool \<Rightarrow> int \<Rightarrow> bool io" where
  "select_round event readable exceptional localEvent remoteCl =
     (if event = - 1 then raise (ProcExit 71)
      else if event = 0 then raise (ProcExit 73)
      else if readable \<and> remoteCl = - 1 then ret False
      else if exceptional then raise (ProcExit 77)
      else if localEvent then raise (ProcExit 0)
      else ret readable)"

text \<open>\<open>Inl\<close>: the process returns this code; \<open>Inr\<close>: it serves, announcing itself or not.\<close>

definition xreMain :: "(string \<Rightarrow> string option) \<Rightarrow> string list \<Rightarrow> int \<Rightarrow> int \<Rightarrow> int \<Rightarrow> (int + bool) io" where
  "xreMain realpath argv xre_socket bind_result listen_result =
     bnd xreAvailable (\<lambda>av.
     if \<not> av then ret (Inl 1)
     else let (paths, enableAnnounce) = getXREPaths realpath argv in
       thn (if paths ! 0 \<noteq> [] then modify (xreHomePath_update (\<lambda>_. paths ! 0)) else ret ())
      (thn (modify (exposedDirectory_update (\<lambda>_. paths ! 2)))
      (bnd (getServerSocket xre_socket bind_result listen_result None) (\<lambda>s.
       thn (modify (rhss_update (\<lambda>_. s))) (if s < 0 then ret (Inl s) else ret (Inr enableAnnounce))))))"

end
