(* ===== verification/RH_Client.thy ===== *)
theory RH_Client
  imports RH_Server
begin

section \<open>The client of a remote server\<close>

text \<open>
  The \<open>client_*\<close> functions of r.cpp: each reads a request from the local socket \<open>cl\<close>, sends it to the
  remote server over the TLS session \<open>rcl\<close> and passes the response back (\<open>client_upload\<close> and
  \<open>client_download\<close> are in \<open>RH_Transfer\<close>). Requests are collected in a
  \<open>BufferedWriteDescriptor\<close>: nothing is written before \<open>flush\<close>, which writes everything at once,
  and what is buffered after the last \<open>flush\<close> is never written.
\<close>

definition rq_wire :: "request_type \<Rightarrow> byte list" where
  "rq_wire rq = [byte_of_request rq]"

definition flush :: "handle \<Rightarrow> byte list \<Rightarrow> unit io" where
  "flush h buffer = (if buffer = [] then ret () else writeAllOrExit h buffer)"

text \<open>The response byte, and the error number that follows it, passed through.\<close>

definition pass_error :: "handle \<Rightarrow> handle \<Rightarrow> byte list \<Rightarrow> unit io" where
  "pass_error cl rcl resp =
     bnd (readAllOrExit rcl 4) (\<lambda>receivedErrno.
     thn (writeAllOrExit cl resp) (writeAllOrExit cl receivedErrno))"

definition client_read_if :: "bool \<Rightarrow> handle \<Rightarrow> byte list io" where
  "client_read_if b cl = (if b then bnd (readStringWithLen cl) (\<lambda>s. ret (str_wire s)) else ret [])"

definition progress_round :: "handle \<Rightarrow> handle \<Rightarrow> unit \<Rightarrow> (unit + unit) io" where
  "progress_round cl rcl u =
     bnd (readAllOrExit rcl 8) (\<lambda>p.
     thn (writeAllOrExit cl p) (ret (if (le_word p :: u64) = maxuint then Inr () else Inl ())))"

definition client_createFileOrDirectory :: "handle \<Rightarrow> handle \<Rightarrow> request_type \<Rightarrow> unit io" where
  "client_createFileOrDirectory cl rcl rq =
     bnd (readStringWithLen cl) (\<lambda>dirpath.
     bnd (readAllOrExit cl 4) (\<lambda>mode.
     let advanced = (b0 (flags rq) \<and> b1 (flags rq)); buf0 = rq_wire rq @ str_wire dirpath @ mode in
     bnd (if advanced then
            bnd (readAllOrExit cl 1) (\<lambda>c.
            bnd (readAllOrExit cl 8) (\<lambda>filesize.
            let cs = (le_word c :: u8); st = (\<lambda>m. cs AND m \<noteq> 0) in
            bnd (client_read_if (st 2 \<and> st 4) cl) (\<lambda>seed.
            bnd (client_read_if (st 2 \<and> st 8) cl) (\<lambda>hashType.
            bnd (client_read_if (st 2 \<and> st 16) cl) (\<lambda>cipher.
            ret (cs, c @ filesize @ seed @ hashType @ cipher))))))
          else ret (0, [])) (\<lambda>(creationStrategy, extra).
     thn (flush rcl (buf0 @ extra))
    (bnd (readAllOrExit rcl 1) (\<lambda>resp.
     if (le_word resp :: u8) \<noteq> 0 then pass_error cl rcl resp
     else thn (writeAllOrExit cl resp)
         (if advanced then
            thn (io_loop rcl (progress_round cl rcl) ())
                (if creationStrategy AND 2 \<noteq> 0 \<and> creationStrategy AND 8 \<noteq> 0
                 then bnd (readStringWithLen cl) (\<lambda>outputHash. ret ())
                 else ret ())
          else ret ()))))))"

definition client_createHardOrSoftLink :: "handle \<Rightarrow> handle \<Rightarrow> request_type \<Rightarrow> unit io" where
  "client_createHardOrSoftLink cl rcl rq =
     bnd (readPairOfStringsWithPairOfLens cl) (\<lambda>srcDestPaths.
     thn (flush rcl (rq_wire rq @ pair_wire srcDestPaths))
    (bnd (readAllOrExit rcl 1) (\<lambda>resp.
     if (le_word resp :: u8) \<noteq> 0 then pass_error cl rcl resp else writeAllOrExit cl resp)))"

definition client_stats :: "handle \<Rightarrow> handle \<Rightarrow> request_type \<Rightarrow> unit io" where
  "client_stats cl rcl rq =
     bnd (readStringWithLen cl) (\<lambda>dirpath.
     thn (flush rcl (rq_wire rq @ str_wire dirpath))
    (bnd (readAllOrExit rcl 1) (\<lambda>resp.
     if (le_word resp :: u8) \<noteq> 0 then pass_error cl rcl resp
     else if b0 (flags rq) then
       bnd (readsingleStats_resp rcl) (\<lambda>sfstats.
       thn (writeAllOrExit cl resp) (writesingleStats_resp cl sfstats))
     else if b1 (flags rq) then
       bnd (readfolderStats_resp rcl) (\<lambda>fldstats.
       thn (writeAllOrExit cl resp) (writefolderStats_resp cl fldstats))
     else if b2 (flags rq) then thn (set_errno 0x1234) (sendErrorResponse cl)
     else ret ())))"

definition client_hash :: "handle \<Rightarrow> handle \<Rightarrow> request_type \<Rightarrow> unit io" where
  "client_hash cl rcl rq =
     bnd (readAllOrExit cl 1) (\<lambda>a.
     bnd (readAllOrExit cl 1) (\<lambda>d.
     let algorithm = unat (le_word a :: u8) in
     if rh_hash_maxAlgoIndex \<le> algorithm then sendErrorResponse cl
     else bnd (readStringWithLen cl) (\<lambda>filepath.
       thn (flush rcl (rq_wire rq @ a @ d @ str_wire filepath))
      (bnd (receiveBaseResponse rcl) (\<lambda>errnum.
       if errnum \<noteq> 0 then
         thn (writeAllOrExit cl [RESPONSE_ERROR]) (writeAllOrExit cl (le_bytes 4 (word_of_int errnum :: u32)))
       else bnd (readAllOrExit rcl (rh_hashSizes ! algorithm)) (\<lambda>remoteHash.
         thn (sendOkResponse cl) (writeAllOrExit cl remoteHash)))))))"

definition ls_entry_round :: "handle \<Rightarrow> handle \<Rightarrow> unit \<Rightarrow> (unit + unit) io" where
  "ls_entry_round cl rcl u =
     bnd (readAllOrExit rcl 2) (\<lambda>l.
     let len = unat (le_word l :: u16) in
     if len = 0 then thn (writeAllOrExit cl l) (ret (Inr ()))
     else bnd (readAllOrExit rcl len) (\<lambda>filename.
       bnd (readAllOrExit rcl 4) (\<lambda>date.
       bnd (readAllOrExit rcl 10) (\<lambda>permissions.
       bnd (readAllOrExit rcl 8) (\<lambda>sz.
       thn (writeAllOrExit cl l) (thn (writeAllOrExit cl filename) (thn (writeAllOrExit cl date)
      (thn (writeAllOrExit cl permissions) (thn (writeAllOrExit cl sz) (ret (Inl ()))))))))))) "

definition client_ls :: "handle \<Rightarrow> handle \<Rightarrow> request_type \<Rightarrow> unit io" where
  "client_ls cl rcl rq =
     bnd (readStringWithLen cl) (\<lambda>dirpath.
     thn (writeAllOrExit rcl (rq_wire rq @ str_wire dirpath))
    (bnd (readAllOrExit rcl 1) (\<lambda>resp.
     let r = (le_word resp :: u8);
         rest = (if flags rq = 2 then bnd (readStringWithLen rcl) (writeStringWithLen cl)
                 else io_loop rcl (ls_entry_round cl rcl) ()) in
     if r = RESPONSE_ERROR then pass_error cl rcl resp
     else if r = RESPONSE_REDIRECT then
       bnd (readStringWithLen rcl) (\<lambda>redirected.
       thn (writeAllOrExit cl resp) (thn (writeStringWithLen cl redirected) rest))
     else if r = RESPONSE_OK then thn (writeAllOrExit cl resp) rest
     else threadExit)))"

subsection \<open>The session\<close>

text \<open>\<open>fds\<close>: the descriptors that arrive during one upload from descriptors, see \<open>RH_Transfer\<close>.\<close>

definition client_round :: "fd option list \<Rightarrow> handle \<Rightarrow> handle \<Rightarrow> unit \<Rightarrow> (unit + unit) io" where
  "client_round fds cl rcl u =
     bnd (readAllOrExit cl 1) (\<lambda>b.
     let rq = request_of_byte (le_word b) in
     thn (case control_code (request rq) of
            ACTION_LS \<Rightarrow> client_ls cl rcl rq
          | ACTION_CREATE \<Rightarrow> client_createFileOrDirectory cl rcl rq
          | ACTION_LINK \<Rightarrow> client_createHardOrSoftLink cl rcl rq
          | ACTION_STATS \<Rightarrow> client_stats cl rcl rq
          | ACTION_HASH \<Rightarrow> client_hash cl rcl rq
          | ACTION_DOWNLOAD \<Rightarrow> client_download cl rcl
          | ACTION_UPLOAD \<Rightarrow> (if flags rq = 0 then client_upload cl rcl else client_upload_from_fds cl rcl rq fds)
          | _ \<Rightarrow> threadExit)
         (ret (Inl ())))"

definition catch_thread_exit :: "unit io \<Rightarrow> unit io" where
  "catch_thread_exit m = (\<lambda>w. case m w of (Raise ThreadExit, w') \<Rightarrow> (Ret (), w') | r \<Rightarrow> r)"

definition tlsClientSessionEventLoop :: "fd option list \<Rightarrow> handle \<Rightarrow> handle \<Rightarrow> unit io" where
  "tlsClientSessionEventLoop fds rcl cl = catch_thread_exit (io_loop cl (client_round fds cl rcl) ())"

text \<open>
  The connection and the handshake are parameters: \<open>connect target port\<close> is 0 or the error, \<open>sharedHash\<close>
  what \<open>setup\<close> returns (empty when the handshake failed).
\<close>

definition tlsClientSession :: "(string \<Rightarrow> u16 \<Rightarrow> int) \<Rightarrow> byte list \<Rightarrow> fd option list \<Rightarrow> handle \<Rightarrow> unit io" where
  "tlsClientSession connect sharedHash fds cl =
     bnd (readStringWithByteLen cl) (\<lambda>target.
     bnd (readAllOrExit cl 2) (\<lambda>port.
     let e = connect target (le_word port) in
     if e \<noteq> 0 then thn (set_errno e) (sendErrorResponse cl)
     else if sharedHash = [] then sendErrorResponse cl
     else thn (sendOkResponse cl)
         (bnd (writeRaw cl sharedHash) (\<lambda>r.
          if less_size_t r (length sharedHash) then threadExit
          else thn (tlsClientSessionEventLoop fds Rcl cl)
              (thn (closeDesc Rcl) (closeDesc cl))))))"

end
