(* ===== verification/RH_Local.thy ===== *)
theory RH_Local
  imports RH_Client
begin

section \<open>The local server\<close>

text \<open>
  The handlers of r.cpp that serve only the local socket: existence, move, deletion, search, signals,
  file streams, attributes. The dispatcher, the session loop and \<open>main\<close> are in \<open>RH_Dispatch\<close>.
\<close>

subsection \<open>Existence\<close>

text \<open>
  \<open>stat\<close> is not checked: when it fails \<open>st_mode\<close> is what the stack holds, the argument \<open>junk\<close>.
\<close>

definition existsIsFileIsDir :: "u32 \<Rightarrow> handle \<Rightarrow> u8 \<Rightarrow> unit io" where
  "existsIsFileIsDir junk h fl =
     bnd (readStringWithLen h) (\<lambda>filepath.
     bnd (if b0 fl then io_query (sys_access filepath) else ret (Some (Spc (new_attr 0 fs0)))) (\<lambda>acc.
     let respFlags0 = (if b0 fl \<and> acc \<noteq> None then SETb0 0 1 else 0);
         respond = (\<lambda>respFlags. thn (sendOkResponse h) (writeAllOrExit h [respFlags])) in
     if b0 fl \<and> acc = None then respond 0
     else bnd (io_query (sys_stat filepath)) (\<lambda>st.
       let m = (case st of None \<Rightarrow> junk | Some n \<Rightarrow> st_mode n);
           r1 = (if b1 fl \<and> S_ISREG m then SETb1 respFlags0 1 else respFlags0);
           r2 = (if b2 fl \<and> S_ISDIR m then SETb2 r1 1 else r1) in
       respond r2)))"

subsection \<open>Moving and deleting\<close>

primrec move_all :: "handle \<Rightarrow> (string \<times> string) list \<Rightarrow> int io" where
  "move_all h [] = ret 0"
| "move_all h (p # ps) =
     bnd (renamePathMakeAncestors (fst p) (snd p)) (\<lambda>r.
     if r < 0 then ret (- 1) else thn (writeAllOrExit h (le_bytes 8 maxuint)) (move_all h ps))"

definition moveFileOrDirectory :: "handle \<Rightarrow> unit io" where
  "moveFileOrDirectory h =
     bnd (receivePathPairsList h) (\<lambda>v.
     bnd (move_all h v) (\<lambda>r.
     thn (writeAllOrExit h (le_bytes 8 maxuint_2)) (sendBaseResponse r h)))"

definition deleteFile :: "handle \<Rightarrow> unit io" where
  "deleteFile h =
     bnd (readStringWithLen h) (\<lambda>filepath.
     bnd (genericDeleteBasicImpl filepath) (\<lambda>r. sendBaseResponse r h))"

subsection \<open>Searching\<close>

text \<open>
  \<open>searching\<close> is whether \<open>currentSearchInOutDesc\<close> is set. The descriptor it holds is a second
  object on the socket of the client that searches, so closing it closes that client's connection.
\<close>

definition find_thread_exit_function_unsafe :: "handle \<Rightarrow> unit io" where
  "find_thread_exit_function_unsafe h =
     bnd (get searching) (\<lambda>s. if s then thn (closeDesc h) (modify (searching_update (\<lambda>_. False))) else ret ())"

definition read_basepath_round :: "handle \<Rightarrow> string list \<Rightarrow> (string list + string list) io" where
  "read_basepath_round h v = bnd (readStringWithLen h) (\<lambda>s. ret (if s = [] then Inr v else Inl (v @ [s])))"

definition name_matches :: "u16 \<Rightarrow> string \<Rightarrow> string \<Rightarrow> bool" where
  "name_matches searchFlags namepattern nm =
     (if b2 (ucast searchFlags) then has_substr (toUpperCase nm) (toUpperCase namepattern)
      else has_substr nm namepattern)"

text \<open>One visited entry: an interrupted search and a failed write leave the thread.\<close>

definition find_visit :: "handle \<Rightarrow> u16 \<Rightarrow> string \<Rightarrow> string \<Rightarrow> string \<Rightarrow> unit io" where
  "find_visit h searchFlags namepattern path nm =
     bnd (get searching) (\<lambda>s.
     if \<not> s then threadExit
     else if name_matches searchFlags namepattern nm then
       bnd (assemble_ls_resp_from_filepath path nm True) (\<lambda>r. case r of
         None \<Rightarrow> ret ()
       | Some e \<Rightarrow>
           bnd (writefind_resp h \<lparr>fileItem = e, contentAround = [], foffset = 0\<rparr>) (\<lambda>x.
           if x < 0 then threadExit else ret ()))
     else ret ())"

definition find_plain :: "handle \<Rightarrow> u16 \<Rightarrow> string \<Rightarrow> string \<Rightarrow> unit io" where
  "find_plain h searchFlags namepattern basepath =
     bnd (io_query (sys_listdir basepath)) (\<lambda>r. case r of
       None \<Rightarrow> ret ()
     | Some names \<Rightarrow>
         io_for (filter (\<lambda>n. n \<noteq> ''.'' \<and> n \<noteq> ''..'') names) (\<lambda>n.
           find_visit h searchFlags namepattern (pathConcat basepath n) n))"

definition find_recursive :: "handle \<Rightarrow> u16 \<Rightarrow> string \<Rightarrow> string \<Rightarrow> unit io" where
  "find_recursive h searchFlags namepattern basepath =
     bnd (createIterator basepath FULL True SMART_SYMLINK_RESOLUTION False (\<lambda>_. True)) (\<lambda>it.
     it_each (\<lambda>it u. find_visit h searchFlags namepattern (it_current it) (it_currentName it)) it ())"

definition findNamesAndContent :: "handle \<Rightarrow> handle \<Rightarrow> u8 \<Rightarrow> unit io" where
  "findNamesAndContent searcher h fl =
     (if b0 fl then thn (find_thread_exit_function_unsafe searcher) (sendOkResponse h)
      else bnd (get searching) (\<lambda>s.
        if s then thn (set_errno EAGAIN) (sendErrorResponse h)
        else bnd (readAllOrExit h 2) (\<lambda>sf.
          bnd (io_loop h (read_basepath_round h) []) (\<lambda>basePaths.
          bnd (readStringWithLen h) (\<lambda>namepattern.
          bnd (readStringWithLen h) (\<lambda>contentpattern.
          thn (modify (searching_update (\<lambda>_. True)))
         (thn (sendOkResponse h)
         (thn (io_for basePaths (if b1 fl then find_plain h (le_word sf) namepattern
                                 else find_recursive h (le_word sf) namepattern))
         (thn (writeAllOrExit h (le_bytes 2 (0 :: u16)))
              (find_thread_exit_function_unsafe h))))))))))"

subsection \<open>Processes\<close>

definition sys_kill :: "u32 \<Rightarrow> u32 \<Rightarrow> int io" where
  "sys_kill pid sig =
     bnd (get (\<lambda>w. kill_res w pid sig)) (\<lambda>e.
     if e = 0 then thn (modify (killed_update (\<lambda>k. k @ [(pid, sig)]))) (ret 0)
     else thn (set_errno e) (ret (- 1)))"

definition killProcess :: "handle \<Rightarrow> unit io" where
  "killProcess h =
     bnd (readAllOrExit h 4) (\<lambda>pid.
     bnd (readAllOrExit h 4) (\<lambda>sig.
     bnd (sys_kill (le_word pid) (le_word sig)) (\<lambda>r. sendBaseResponse r h)))"

definition getThisPid :: "handle \<Rightarrow> unit io" where
  "getThisPid h = bnd (get mypid) (\<lambda>pid. writeAllOrExit h (le_bytes 4 pid))"

subsection \<open>Streams of files\<close>

text \<open>\<open>writeAll\<close> of a connection and of an open file: the count, or the failed write's result.\<close>

definition writeAll :: "handle \<Rightarrow> byte list \<Rightarrow> int io" where
  "writeAll h bs = (\<lambda>w. let c = conns w h in
     if fits c (length bs) then (Ret (int (length bs)), set_conn h (push bs c) w)
     else (Ret (- 1), set_conn h (push (take (the (wroom c)) bs) c) w))"

definition fd_writeAll :: "fd \<Rightarrow> byte list \<Rightarrow> (int \<times> fd) io" where
  "fd_writeAll d bs = (\<lambda>w. case sys_write d bs (wfs w) of (e, f) \<Rightarrow>
     if e \<noteq> 0 then (Ret (- 1, d), w\<lparr>errno := e\<rparr>)
     else (Ret (int (length bs), fd_advance (length bs) d), w\<lparr>wfs := f\<rparr>))"

text \<open>The file is sent block by block; the fuel is the size of the file and two more rounds.\<close>

primrec send_file_loop :: "nat \<Rightarrow> handle \<Rightarrow> fd \<Rightarrow> unit io" where
  "send_file_loop 0 h d = raise OutOfFuel"
| "send_file_loop (Suc k) h d =
     bnd (io_query (sys_read d COPY_CHUNK_SIZE)) (\<lambda>r. case r of
       None \<Rightarrow> ret ()
     | Some bs \<Rightarrow>
         if bs = [] then ret ()
         else bnd (writeAll h bs) (\<lambda>writtenBytes.
           if writtenBytes < int (length bs) then ret ()
           else send_file_loop k h (fd_advance (length bs) d)))"

definition receive_file_round :: "handle \<Rightarrow> fd \<Rightarrow> (fd + unit) io" where
  "receive_file_round h d =
     bnd (readRaw h COPY_CHUNK_SIZE) (\<lambda>bs.
     if bs = [] then ret (Inr ())
     else bnd (fd_writeAll d bs) (\<lambda>(writtenBytes, d').
       ret (if writtenBytes < int (length bs) then Inr () else Inl d')))"

definition read_file_to_client :: "handle \<Rightarrow> string \<Rightarrow> bool io" where
  "read_file_to_client h filepath =
     bnd (getFileType filepath) (\<lambda>t. case t of
       None \<Rightarrow> thn (set_errno ENOENT) (thn (sendErrorResponse h) (ret False))
     | Some (ty, n) \<Rightarrow>
         if ty = DT_DIR then thn (set_errno EISDIR) (thn (sendErrorResponse h) (ret False))
         else bnd (fd_create filepath FM_READ) (\<lambda>r. case r of
           Inl e \<Rightarrow> thn (sendErrorResponse h) (ret False)
         | Inr d \<Rightarrow>
             thn (sendOkResponse h)
            (thn (bnd (get wfs) (\<lambda>f.
                  send_file_loop (length (case file_data f (fd_loc d) of None \<Rightarrow> [] | Some c \<Rightarrow> c) + 2) h d))
                 (ret True))))"

definition write_file_from_client :: "handle \<Rightarrow> string \<Rightarrow> bool io" where
  "write_file_from_client h filepath =
     bnd (fd_create filepath FM_XCL) (\<lambda>r. case r of
       Inl e \<Rightarrow> thn (sendErrorResponse h) (ret False)
     | Inr d \<Rightarrow> thn (sendOkResponse h) (thn (io_loop h (receive_file_round h) d) (ret True)))"

definition readOrWriteFile :: "handle \<Rightarrow> u8 \<Rightarrow> unit io" where
  "readOrWriteFile h fl =
     bnd (readStringWithLen h) (\<lambda>filepath.
     bnd (if fl \<noteq> 0 then read_file_to_client h filepath else write_file_from_client h filepath) (\<lambda>streamed.
     if streamed then thn (closeDesc h) threadExit else ret ()))"

subsection \<open>Attributes\<close>

definition setDates :: "string \<Rightarrow> handle \<Rightarrow> u8 \<Rightarrow> unit io" where
  "setDates filepath h fl =
     bnd (if b0 fl then readAllOrExit h 4 else ret []) (\<lambda>x.
     bnd (if b1 fl then readAllOrExit h 4 else ret []) (\<lambda>y.
     bnd (getFileType filepath) (\<lambda>t. case t of
       None \<Rightarrow> sendErrorResponse h
     | Some (ty, st) \<Rightarrow>
         let atime = (if b0 fl then uint (le_word x :: u32) else a_atime (node_attr st));
             mtime = (if b1 fl then uint (le_word y :: u32) else a_mtime (node_attr st)) in
         bnd (io_update (sys_setattr SC_utimes filepath (\<lambda>a. a\<lparr>a_atime := atime, a_mtime := mtime\<rparr>))) (\<lambda>ok.
         sendBaseResponse (if ok then 0 else - 1) h))))"

definition setOwnership :: "string \<Rightarrow> handle \<Rightarrow> u8 \<Rightarrow> unit io" where
  "setOwnership filepath h fl =
     bnd (if b0 fl then readAllOrExit h 4 else ret []) (\<lambda>x.
     bnd (if b1 fl then readAllOrExit h 4 else ret []) (\<lambda>y.
     bnd (getFileType filepath) (\<lambda>t. case t of
       None \<Rightarrow> sendErrorResponse h
     | Some (ty, st) \<Rightarrow>
         let owner = (if b0 fl then le_word x else a_uid (node_attr st));
             grp = (if b1 fl then le_word y else a_gid (node_attr st)) in
         bnd (io_update (sys_setattr SC_chown filepath (\<lambda>a. a\<lparr>
                a_uid := (if owner = - 1 then a_uid a else owner), a_gid := (if grp = - 1 then a_gid a else grp)\<rparr>))) (\<lambda>ok.
         sendBaseResponse (if ok then 0 else - 1) h))))"

definition setPermissions :: "string \<Rightarrow> handle \<Rightarrow> unit io" where
  "setPermissions filepath h =
     bnd (readAllOrExit h 4) (\<lambda>perms.
     bnd (io_update (sys_setattr SC_chmod filepath (\<lambda>a. a\<lparr>a_mode := (le_word perms :: u32) AND 4095\<rparr>))) (\<lambda>ok.
     sendBaseResponse (if ok then 0 else - 1) h))"

definition setAttributes :: "handle \<Rightarrow> unit io" where
  "setAttributes h =
     bnd (readAllOrExit h 1) (\<lambda>b.
     let x = (le_word b :: u8); sub = drop_bit 6 (x AND 192); fl = x AND 3 in
     bnd (readStringWithLen h) (\<lambda>filepath.
     if sub = 0 then setDates filepath h fl
     else if sub = 1 then setOwnership filepath h fl
     else if sub = 2 then setPermissions filepath h
     else threadExit))"

end
