(* ===== verification/RH_Copier.thy ===== *)
theory RH_Copier
  imports RH_Local
begin

section \<open>Copying on the local machine\<close>

text \<open>
  FileCopier.h and FileCopierConstants.h: the stack machine that copies files and directories,
  reports progress to the client and asks it what to do about conflicts and errors. One definition
  per method; \<open>copy_step\<close> is one round of the loop of \<open>maincopy\<close>. Copying a directory into itself
  never ends, so the loop has fuel. \<open>sockfd.read\<close> is not checked: at the end of the stream the
  decision is what the stack holds, the argument \<open>junk\<close>.
\<close>

definition CD_SKIP :: u8 where "CD_SKIP = 0x00"
definition CD_SKIP_ALL :: u8 where "CD_SKIP_ALL = 0x10"
definition CD_OVERWRITE :: u8 where "CD_OVERWRITE = 0x01"
definition CD_OVERWRITE_ALL :: u8 where "CD_OVERWRITE_ALL = 0x11"
definition CD_REN_SRC :: u8 where "CD_REN_SRC = 0x02"
definition CD_REN_DEST :: u8 where "CD_REN_DEST = 0x03"
definition CD_REN_SRC_ALL :: u8 where "CD_REN_SRC_ALL = 0x12"
definition CD_REN_DEST_ALL :: u8 where "CD_REN_DEST_ALL = 0x13"
definition CD_MERGE :: u8 where "CD_MERGE = 0x04"
definition CD_MERGE_RECURSIVE :: u8 where "CD_MERGE_RECURSIVE = 0x14"
definition CD_MERGE_ALL :: u8 where "CD_MERGE_ALL = 0x24"
definition CD_CANCEL :: u8 where "CD_CANCEL = 0x05"
definition NO_PREV_DEC :: u8 where "NO_PREV_DEC = 0xFF"

lemmas CD_defs = CD_SKIP_def CD_SKIP_ALL_def CD_OVERWRITE_def CD_OVERWRITE_ALL_def CD_REN_SRC_def CD_REN_DEST_def
  CD_REN_SRC_ALL_def CD_REN_DEST_ALL_def CD_MERGE_def CD_MERGE_RECURSIVE_def CD_MERGE_ALL_def CD_CANCEL_def
  NO_PREV_DEC_def

definition CONFLICT_TYPE_FILE :: nat where "CONFLICT_TYPE_FILE = 0"
definition CONFLICT_TYPE_DIR :: nat where "CONFLICT_TYPE_DIR = 1"
definition UNSOLVABLE_ERROR_TYPE :: nat where "UNSOLVABLE_ERROR_TYPE = 2"
definition OK_TYPE :: nat where "OK_TYPE = 3"

lemmas type_defs = CONFLICT_TYPE_FILE_def CONFLICT_TYPE_DIR_def UNSOLVABLE_ERROR_TYPE_def OK_TYPE_def

definition EOF_ind :: u64 where "EOF_ind = - 1"
definition EOFs_ind :: u64 where "EOFs_ind = - 2"
definition CFL_ind :: u64 where "CFL_ind = - 3"
definition ERR_ind :: u64 where "ERR_ind = - 4"
definition SKIP_ind :: u64 where "SKIP_ind = - 5"

text \<open>The members of \<open>FileCopier\<close>; the top of the stack is the head of the list.\<close>

record copier =
  cS :: "(string \<times> string) list"
  descendantCountMap :: "string \<rightharpoonup> sts_sz"
  counts :: sts_sz
  lastSrc :: string
  lastDest :: string
  srcType :: u8
  destType :: u8
  permFile :: u8
  permDir :: u8
  cProgress :: u64

definition new_copier :: copier where
  "new_copier = \<lparr>cS = [], descendantCountMap = Map.empty, counts = \<lparr>tFiles = 0, tFolders = 0, tSize = 0\<rparr>,
     lastSrc = [], lastDest = [], srcType = 0xFF, destType = 0xFF, permFile = NO_PREV_DEC, permDir = NO_PREV_DEC,
     cProgress = 0\<rparr>"

subsection \<open>Questions to the client\<close>

definition waitConflictOrErrorDec :: "u8 \<Rightarrow> handle \<Rightarrow> copier \<Rightarrow> string \<Rightarrow> string \<Rightarrow> bool \<Rightarrow> u8 io" where
  "waitConflictOrErrorDec junk h c srcI destI isConflict =
     thn (writeAllOrExit h (le_bytes 8 (if isConflict then CFL_ind else ERR_ind)))
    (thn (writeStringWithLen h srcI)
    (thn (writeStringWithLen h destI)
    (thn (writeAllOrExit h [srcType c])
    (thn (writeAllOrExit h [destType c])
    (bnd (readRaw h 1) (\<lambda>b. ret (if b = [] then junk else hd b)))))))"

definition unsolvableError :: "u8 \<Rightarrow> handle \<Rightarrow> copier \<Rightarrow> string \<Rightarrow> string \<Rightarrow> unit io" where
  "unsolvableError junk h c srcI destI =
     bnd (waitConflictOrErrorDec junk h c srcI destI False) (\<lambda>dec.
     if dec = CD_CANCEL then threadExit else ret ())"

definition sendSkipInfo :: "handle \<Rightarrow> copier \<Rightarrow> string \<Rightarrow> unit io" where
  "sendSkipInfo h c srcI =
     thn (writeAllOrExit h (le_bytes 8 SKIP_ind))
    (let sk = (case descendantCountMap c srcI of Some s \<Rightarrow> s | None \<Rightarrow> \<lparr>tFiles = 0, tFolders = 0, tSize = 0\<rparr>) in
     thn (writeAllOrExit h (le_bytes 8 (tFiles sk))) (writeAllOrExit h (le_bytes 8 (tSize sk))))"

subsection \<open>Children and new names\<close>

definition listChildrenPairs :: "string \<Rightarrow> string \<Rightarrow> (string \<times> string) list io" where
  "listChildrenPairs srcI destI =
     bnd (plain_iterator srcI) (\<lambda>it.
     if it_ok it
     then it_each (\<lambda>it v. ret (v @ [(pathConcat srcI (it_currentName it), pathConcat destI (it_currentName it))])) it []
     else ret [])"

definition pushChildrenPairs :: "copier \<Rightarrow> string \<Rightarrow> string \<Rightarrow> copier io" where
  "pushChildrenPairs c srcI destI = bnd (listChildrenPairs srcI destI) (\<lambda>v. ret (c\<lparr>cS := rev v @ cS c\<rparr>))"

fun nat_string :: "nat \<Rightarrow> string" where
  "nat_string n = (if n < 10 then [char_of (48 + n)] else nat_string (n div 10) @ [char_of (48 + n mod 10)])"

declare nat_string.simps [simp del]

text \<open>
  \<open>while (efd != 0)\<close>: the first name with a number appended that does not exist. The fuel is the
  number of nodes of the file system.
\<close>

primrec free_name :: "nat \<Rightarrow> nat \<Rightarrow> string \<Rightarrow> string \<Rightarrow> string \<Rightarrow> string io" where
  "free_name 0 count destParent destName destI = raise OutOfFuel"
| "free_name (Suc k) count destParent destName destI =
     bnd (existsIsFileIsDir0 destI) (\<lambda>efd.
     if efd = 0 then ret destI
     else free_name k (Suc count) destParent destName (pathConcat destParent (destName @ nat_string count)))"

definition unused_path :: "string \<Rightarrow> string io" where
  "unused_path destI =
     bnd (get wfs) (\<lambda>f.
     free_name (nodes (root f) + 2) 0 (getParentDir destI) (getFilenameFromFullPath destI) destI)"

definition autoRenameSrc :: "copier \<Rightarrow> string \<Rightarrow> string \<Rightarrow> copier io" where
  "autoRenameSrc c srcI destI0 = bnd (unused_path destI0) (\<lambda>destI. ret (c\<lparr>cS := (srcI, destI) # cS c\<rparr>))"

definition pushSrcWithDifferentName :: "copier \<Rightarrow> string \<Rightarrow> string \<Rightarrow> string \<Rightarrow> copier" where
  "pushSrcWithDifferentName c srcI destI newname =
     c\<lparr>cS := (srcI, getParentDir destI @ getSystemPathSeparator @ newname) # cS c\<rparr>"

definition autoRenameDest :: "u8 \<Rightarrow> handle \<Rightarrow> copier \<Rightarrow> string \<Rightarrow> string \<Rightarrow> copier io" where
  "autoRenameDest junk h c srcI destI0 =
     bnd (unused_path destI0) (\<lambda>destI.
     bnd (io_update (sys_rename destI0 destI)) (\<lambda>ok.
     if \<not> ok then thn (unsolvableError junk h c srcI destI) (ret c)
     else ret (c\<lparr>cS := (srcI, destI0) # cS c\<rparr>)))"

subsection \<open>Conflicts\<close>

definition remember :: "copier \<Rightarrow> u8 \<Rightarrow> nat \<Rightarrow> copier" where
  "remember c dec cflType =
     (if dec \<in> {CD_OVERWRITE_ALL, CD_SKIP_ALL, CD_REN_SRC_ALL, CD_REN_DEST_ALL, CD_MERGE_ALL}
      then (if cflType = CONFLICT_TYPE_FILE then c\<lparr>permFile := dec\<rparr> else c\<lparr>permDir := dec\<rparr>)
      else c)"

definition handleConflict :: "u8 \<Rightarrow> handle \<Rightarrow> copier \<Rightarrow> string \<Rightarrow> string \<Rightarrow> u8 \<Rightarrow> nat \<Rightarrow> copier io" where
  "handleConflict junk h c0 srcI destI dec cflType =
     (let c = remember c0 dec cflType; repush = c\<lparr>cS := (srcI, destI) # cS c\<rparr> in
      if dec = CD_SKIP \<or> dec = CD_SKIP_ALL then thn (sendSkipInfo h c srcI) (ret c)
      else if dec = CD_OVERWRITE \<or> dec = CD_OVERWRITE_ALL then
        bnd (genericDeleteBasicImpl destI) (\<lambda>r.
        if r < 0 then thn (unsolvableError junk h c srcI destI) (ret c) else ret repush)
      else if dec = CD_REN_DEST_ALL then autoRenameDest junk h c srcI destI
      else if dec = CD_REN_DEST then
        bnd (readStringWithLen h) (\<lambda>newname.
        bnd (io_update (sys_rename destI (getParentDir destI @ getSystemPathSeparator @ newname))) (\<lambda>ok.
        if \<not> ok then thn (unsolvableError junk h c srcI destI) (ret c) else ret repush))
      else if dec = CD_REN_SRC_ALL then autoRenameSrc c srcI destI
      else if dec = CD_REN_SRC then
        bnd (readStringWithLen h) (\<lambda>newname. ret (pushSrcWithDifferentName c srcI destI newname))
      else if dec = CD_MERGE \<or> dec = CD_MERGE_ALL then pushChildrenPairs c srcI destI
      else if dec = CD_CANCEL then threadExit
      else ret c)"

subsection \<open>One file\<close>

text \<open>
  The loop around \<open>sendfile\<close>: a chunk is read at the offset of the input and written at the end of
  what was written to the output; a failed read or write ends it like the end of the file.
\<close>

primrec sendfile_loop :: "nat \<Rightarrow> handle \<Rightarrow> fd \<Rightarrow> fd \<Rightarrow> u64 \<Rightarrow> unit io" where
  "sendfile_loop 0 h input output p = raise OutOfFuel"
| "sendfile_loop (Suc k) h input output p =
     bnd (io_query (sys_read input COPY_CHUNK_SIZE)) (\<lambda>r. case r of
       None \<Rightarrow> ret ()
     | Some bs \<Rightarrow>
         if bs = [] then ret ()
         else bnd (fd_writeAll output bs) (\<lambda>(n, output').
           if n \<le> 0 then ret ()
           else let p' = p + of_nat (length bs) in
             thn (writeAllOrExit h (le_bytes 8 p'))
                 (sendfile_loop k h (fd_advance (length bs) input) output' p')))"

definition node_of_fd :: "fs \<Rightarrow> fd \<Rightarrow> node" where
  "node_of_fd f d = (case lookup (root f) (fd_loc d) of Some n \<Rightarrow> n | None \<Rightarrow> Spc (new_attr 0 f))"

definition fchmod_loc :: "fd \<Rightarrow> u32 \<Rightarrow> unit io" where
  "fchmod_loc d mode = modify (\<lambda>w. w\<lparr>wfs := (wfs w)\<lparr>root :=
     put_at (fd_loc d) (set_attr (\<lambda>a. a\<lparr>a_mode := mode\<rparr>) (node_of_fd (wfs w) d)) (root (wfs w))\<rparr>\<rparr>)"

definition open_rdwr :: "string \<Rightarrow> (int + fd) io" where
  "open_rdwr p = (\<lambda>w. case sys_open_write False p (wfs w) of
     (Inl e, f) \<Rightarrow> (Ret (Inl e), w\<lparr>errno := e\<rparr>) | (Inr d, f) \<Rightarrow> (Ret (Inr d), w\<lparr>wfs := f\<rparr>))"

definition oscopyfile :: "handle \<Rightarrow> string \<Rightarrow> string \<Rightarrow> nat io" where
  "oscopyfile h source destination =
     bnd (fd_create source FM_READ) (\<lambda>i. case i of
       Inl e \<Rightarrow> ret UNSOLVABLE_ERROR_TYPE
     | Inr input \<Rightarrow>
         bnd (open_rdwr destination) (\<lambda>o1. case o1 of
           Inl e \<Rightarrow> ret UNSOLVABLE_ERROR_TYPE
         | Inr output \<Rightarrow>
             bnd (get wfs) (\<lambda>f.
             thn (writeAllOrExit h (le_bytes 8 (of_nat (node_size (node_of_fd f input)) :: u64)))
            (thn (sendfile_loop (length (case file_data f (fd_loc input) of None \<Rightarrow> [] | Some c \<Rightarrow> c) + 2) h input output 0)
            (thn (writeAllOrExit h (le_bytes 8 EOF_ind))
            (thn (fchmod_loc output (a_mode (node_attr (node_of_fd f input)) AND 4095))
                 (ret OK_TYPE)))))))"

definition set_info :: "copier \<Rightarrow> string \<Rightarrow> string \<Rightarrow> u8 \<Rightarrow> nat \<Rightarrow> copier" where
  "set_info c srcI destI t destEfd =
     c\<lparr>lastSrc := srcI, lastDest := destI, srcType := t, destType := (if destEfd = 1 then 0x00 else 0x01)\<rparr>"

definition fileCopy :: "u8 \<Rightarrow> handle \<Rightarrow> copier \<Rightarrow> string \<Rightarrow> string \<Rightarrow> (nat \<times> copier) io" where
  "fileCopy junk h c srcI destI =
     bnd (existsIsFileIsDir0 destI) (\<lambda>destEfd.
     bnd (if destEfd = 0 then
            bnd (oscopyfile h srcI destI) (\<lambda>r. ret (if r = UNSOLVABLE_ERROR_TYPE then UNSOLVABLE_ERROR_TYPE else OK_TYPE, c))
          else if permFile c = NO_PREV_DEC then ret (CONFLICT_TYPE_FILE, c)
          else if permFile c = CD_SKIP_ALL then thn (sendSkipInfo h c srcI) (ret (OK_TYPE, c))
          else bnd (handleConflict junk h c srcI destI (permFile c) CONFLICT_TYPE_FILE) (\<lambda>c'. ret (OK_TYPE, c'))) (\<lambda>(r, c').
     ret (r, if r = CONFLICT_TYPE_FILE \<or> r = UNSOLVABLE_ERROR_TYPE then set_info c' srcI destI 0x00 destEfd else c')))"

definition dirCopy :: "u8 \<Rightarrow> handle \<Rightarrow> copier \<Rightarrow> string \<Rightarrow> string \<Rightarrow> (nat \<times> copier) io" where
  "dirCopy junk h c srcI destI =
     bnd (existsIsFileIsDir0 destI) (\<lambda>destEfd.
     bnd (if destEfd = 0 then
            bnd (mkpath destI 493 True) (\<lambda>m.
            if m < 0 then ret (UNSOLVABLE_ERROR_TYPE, c)
            else bnd (pushChildrenPairs c srcI destI) (\<lambda>c'. ret (OK_TYPE, c')))
          else if permDir c = NO_PREV_DEC then ret (CONFLICT_TYPE_DIR, c)
          else if permDir c = CD_SKIP_ALL then thn (sendSkipInfo h c srcI) (ret (OK_TYPE, c))
          else bnd (handleConflict junk h c srcI destI (permDir c) CONFLICT_TYPE_DIR) (\<lambda>c'. ret (OK_TYPE, c'))) (\<lambda>(r, c').
     ret (r, if r = CONFLICT_TYPE_DIR \<or> r = UNSOLVABLE_ERROR_TYPE then set_info c' srcI destI 0x01 destEfd else c')))"

subsection \<open>The loop\<close>

text \<open>\<open>None\<close>: a source does not exist any more and \<open>maincopy\<close> returns at once.\<close>

definition copy_step :: "u8 \<Rightarrow> handle \<Rightarrow> copier \<Rightarrow> copier option io" where
  "copy_step junk h c0 =
     (case cS c0 of
        [] \<Rightarrow> ret (Some c0)
      | (src, dest) # S \<Rightarrow>
          let c = c0\<lparr>cS := S\<rparr> in
          bnd (existsIsFileIsDir0 src) (\<lambda>efd.
          if efd \<noteq> 1 \<and> efd \<noteq> 2 then ret None
          else bnd (if efd = 1 then fileCopy junk h c src dest else dirCopy junk h c src dest) (\<lambda>(r, c').
            if r = UNSOLVABLE_ERROR_TYPE then thn (unsolvableError junk h c' src dest) (ret (Some c'))
            else if r = CONFLICT_TYPE_FILE \<or> r = CONFLICT_TYPE_DIR then
              bnd (waitConflictOrErrorDec junk h c' src dest True) (\<lambda>dec.
              bnd (handleConflict junk h c' src dest dec r) (\<lambda>c''. ret (Some c'')))
            else ret (Some (if efd = 1 then c'\<lparr>cProgress := cProgress c' + 1\<rparr> else c')))))"

text \<open>\<open>True\<close>: the stack was emptied.\<close>

primrec copy_loop :: "nat \<Rightarrow> u8 \<Rightarrow> handle \<Rightarrow> copier \<Rightarrow> bool io" where
  "copy_loop 0 junk h c = (if cS c = [] then ret True else raise OutOfFuel)"
| "copy_loop (Suc k) junk h c =
     (if cS c = [] then ret True
      else bnd (copy_step junk h c) (\<lambda>r. case r of None \<Rightarrow> ret False | Some c' \<Rightarrow> copy_loop k junk h c'))"

definition populateStackFromCopyList :: "copier \<Rightarrow> (string \<times> string) list \<Rightarrow> copier io" where
  "populateStackFromCopyList c copyList =
     io_fold (\<lambda>c x. bnd (countStats (fst x) (descendantCountMap c)) (\<lambda>r.
        ret (c\<lparr>descendantCountMap := snd r, counts := add_sts_sz (counts c) (fst r), cS := x # cS c\<rparr>))) c copyList"

definition maincopy :: "nat \<Rightarrow> u8 \<Rightarrow> handle \<Rightarrow> copier \<Rightarrow> unit io" where
  "maincopy fuel junk h c = (\<lambda>w.
     case (thn (writeAllOrExit h (le_bytes 8 (tFiles (counts c))))
          (thn (writeAllOrExit h (le_bytes 8 (tSize (counts c))))
          (bnd (copy_loop fuel junk h c) (\<lambda>done.
           if done then thn (writeAllOrExit h (le_bytes 8 EOFs_ind)) (thn (sendBaseResponse 0 h) (ret True))
           else ret False)))) w of
       (Ret True, w') \<Rightarrow> closeDesc h w'
     | (Ret False, w') \<Rightarrow> (Ret (), w')
     | (Raise ThreadExit, w') \<Rightarrow> closeDesc h w'
     | (Raise e, w') \<Rightarrow> (Raise e, w'))"

definition copyFileOrDirectoryFullNew :: "nat \<Rightarrow> u8 \<Rightarrow> handle \<Rightarrow> unit io" where
  "copyFileOrDirectoryFullNew fuel junk h =
     bnd (receivePathPairsList h) (\<lambda>copyList.
     bnd (populateStackFromCopyList new_copier copyList) (maincopy fuel junk h))"

end
