(* ===== verification/RH_Remote.thy ===== *)
theory RH_Remote
  imports RH_Client
begin

section \<open>Client and server together\<close>

text \<open>
  What a local socket receives when the client passes a request to a remote server: the answers of
  the handlers of \<open>RH_Server\<close>, computed for any file system, and the functions of \<open>RH_Client\<close> run on
  exactly those answers.
\<close>

subsection \<open>Answers of a handler that has read its arguments\<close>

lemma says_send_ok: "says f u (sendOkResponse h) () (only h ok_wire)"
  unfolding sendOkResponse_def sendBaseResponse_def ok_wire_def
  by (simp add: says_write)

lemma says_writels: "length (permissions d) = 10 \<Longrightarrow> says f u (writels_resp h d) 0 (only h (ls_wire d))"
  unfolding says_def
proof (intro allI impI)
  fix w :: world
  assume "length (permissions d) = 10" "\<forall>h. wr h w"
  then show "\<exists>e p. writels_resp h d w = (Ret 0, emit_all (only h (ls_wire d)) (w\<lparr>errno := e, progress := p\<rparr>))"
    by (intro exI [of _ "errno w"] exI [of _ "progress w"]) (simp add: write_ls emit_only)
qed

lemma fold_out_id:
  assumes "\<And>x. g x s = s"
  shows "fold_out g o1 xs s h = concat (map (\<lambda>x. o1 x s h) xs)" and "fold g xs s = s"
  by (induction xs) (simp_all add: assms)

subsection \<open>Listings\<close>

definition entry_wire :: "fs \<Rightarrow> string \<times> string \<Rightarrow> byte list" where
  "entry_wire f x = (case ls_entry_of (fst x) (snd x) False f of None \<Rightarrow> [] | Some e \<Rightarrow> ls_wire e)"

definition listing_wire :: "fs \<Rightarrow> (string \<times> string) list \<Rightarrow> byte list" where
  "listing_wire f es = concat (map (entry_wire f) es) @ le_bytes 2 (0 :: u16)"

lemma ls_entry_perms: "ls_entry_of p nm b f = Some e \<Longrightarrow> length (permissions e) = 10"
  by (auto simp: ls_entry_of_def split: sum.splits)

lemma says_send_entry:
  "says f u (send_entry h it True) True (only h (entry_wire f (it_current it, it_currentName it)))"
proof (cases "ls_entry_of (it_current it) (it_currentName it) False f")
  case None
  show ?thesis
    unfolding send_entry_def
    by (simp, rule says_quiet_bnd [OF quiet_assemble], simp add: None, rule says_cong [OF says_ret])
      (simp_all add: entry_wire_def None)
next
  case (Some e)
  show ?thesis
    unfolding send_entry_def
    by (simp, rule says_quiet_bnd [OF quiet_assemble], simp add: Some, rule says_cong,
        rule says_bnd [OF says_writels [OF ls_entry_perms [OF Some]]], simp, rule says_ret)
      (simp_all add: entry_wire_def Some)
qed

lemma says_entries:
  assumes "it_listing it = PLAIN" "it_mode it = FULL" "it_names it" "it_stack it = es"
  shows "says f u (it_each (send_entry h) it True) True (only h (concat (map (entry_wire f) es)))"
proof -
  have o: "concat (map (\<lambda>x. only h (entry_wire f x) k) es) = only h (concat (map (entry_wire f) es)) k" for k
    by (induction es) (simp_all add: only_append)
  have "says f u (it_each (send_entry h) it True) (fold (\<lambda>x s. s) es True)
      (fold_out (\<lambda>x s. s) (\<lambda>x s. if s then only h (entry_wire f x) else (\<lambda>h. [])) es True)"
  proof (rule says_it_each [OF _ assms])
    fix it s
    show "says f u (send_entry h it s) s (if s then only h (entry_wire f (it_current it, it_currentName it)) else (\<lambda>h. []))"
      using says_send_entry [of f u h it] by (cases s) (simp_all add: send_entry_def says_ret cong: if_cong)
  qed
  then show ?thesis
    by (rule says_cong) (simp_all add: fold_out_id o)
qed

text \<open>The head of the answer: plain, or a redirection to the directory that is listed.\<close>

definition listing_head :: "bool \<Rightarrow> string \<Rightarrow> byte list" where
  "listing_head redirect d = (if redirect then RESPONSE_REDIRECT # str_wire d else ok_wire)"

lemma says_write_string: "says f u (writeStringWithLen h s) () (only h (str_wire s))"
  unfolding says_def
proof (intro allI impI)
  fix w :: world
  assume "\<forall>h. wr h w"
  then show "\<exists>e p. writeStringWithLen h s w = (Ret (), emit_all (only h (str_wire s)) (w\<lparr>errno := e, progress := p\<rparr>))"
    by (intro exI [of _ "errno w"] exI [of _ "progress w"]) (simp add: write_string emit_only)
qed

lemma listDir_run:
  assumes d: "d = (if p = [] then home_reply w else p)" and len: "length p < 65536"
    and acc: "rhss_checkAccess w d = 0" and es: "entries_of d (wfs w) = Some es" and wr: "\<forall>h. wr h w"
  shows "\<exists>e q. listDir h (feed h (str_wire p) w)
     = (Ret (), emit h (listing_head (p = []) d @ listing_wire (wfs w) es) (w\<lparr>errno := e, progress := q\<rparr>))"
proof -
  let ?k = "\<lambda>it. thn (if p = [] then thn (writeAllOrExit h [RESPONSE_REDIRECT]) (writeStringWithLen h (home_reply w))
                 else sendOkResponse h)
           (bnd (it_each (send_entry h) it True) (\<lambda>go. if go then writeAllOrExit h (le_bytes 2 (0 :: u16)) else ret ()))"
  have head: "says (wfs w) (users w) (if p = [] then thn (writeAllOrExit h [RESPONSE_REDIRECT]) (writeStringWithLen h (home_reply w))
                 else sendOkResponse h) () (only h (listing_head (p = []) d))"
  proof (cases "p = []")
    case True
    show ?thesis unfolding if_P [OF True]
      by (rule says_cong, rule says_thn [OF says_write says_write_string])
        (simp_all add: True d only_append listing_head_def)
  next
    case False
    then show ?thesis by (simp add: says_send_ok listing_head_def)
  qed
  have body: "says (wfs w) (users w) (?k it) () (only h (listing_head (p = []) d @ listing_wire (wfs w) es))"
    if "it_listing it = PLAIN" "it_mode it = FULL" "it_names it" "it_stack it = es" for it
    by (rule says_cong, rule says_thn [OF head], rule says_bnd, rule says_entries [OF that], simp, rule says_write)
      (simp_all add: only_append listing_wire_def)
  have "says (wfs w) (users w) (bnd (plain_iterator d) (\<lambda>it. if \<not> it_ok it then sendErrorResponse h else ?k it)) ()
      (only h (listing_head (p = []) d @ listing_wire (wfs w) es))"
    by (rule says_plain_iterator [OF es]) (simp add: it_ok_def body)
  from saysD [OF this refl refl wr] obtain e q where
    "bnd (plain_iterator d) (\<lambda>it. if \<not> it_ok it then sendErrorResponse h else ?k it) w
      = (Ret (), emit h (listing_head (p = []) d @ listing_wire (wfs w) es) (w\<lparr>errno := e, progress := q\<rparr>))"
    by (auto simp: emit_only)
  moreover have "listDir h (feed h (str_wire p) w)
      = bnd (plain_iterator d) (\<lambda>it. if \<not> it_ok it then sendErrorResponse h else ?k it) w"
    using acc len d by (simp add: listDir_def bnd_app [of "readStringWithLen h"] bnd_app [of "get _"] read_string get_app Let_def)
  ultimately show ?thesis by (intro exI [of _ e] exI [of _ q]) (simp only:)
qed

text \<open>The client passes the entries on, one round of its loop for each.\<close>

lemma ls_round_entry:
  assumes "wf_ls d" and "wr Cl w"
  shows "ls_entry_round Cl Rcl () (feed Rcl (ls_wire d @ rest) w) = (Ret (Inl ()), feed Rcl rest (emit Cl (ls_wire d) w))"
proof -
  have n: "length (filename d) < 65536" "filename d \<noteq> []" "length (permissions d) = 10"
    using assms(1) by (simp_all add: wf_ls_def)
  then have u: "unat (of_nat (length (filename d)) :: u16) = length (filename d)" by (simp add: unat_u16_of_nat)
  show ?thesis
    using assms(2) n
    by (simp add: ls_entry_round_def ls_wire_def str_wire_def io_eval u Let_def)
qed

lemma ls_round_end:
  assumes "wr Cl w"
  shows "ls_entry_round Cl Rcl () (feed Rcl (le_bytes 2 (0 :: u16) @ rest) w)
    = (Ret (Inr ()), feed Rcl rest (emit Cl (le_bytes 2 (0 :: u16)) w))"
  using assms by (simp add: ls_entry_round_def io_eval Let_def)

lemma eats_ls_round: "eats Rcl (Suc 1) (ls_entry_round Cl Rcl u)"
proof -
  have "eats Rcl (2 + 0) (ls_entry_round Cl Rcl u)"
    unfolding ls_entry_round_def Let_def by (intro eats_bnd eats_read) (intro eats0_more)
  then show ?thesis by (simp add: numeral_2_eq_2)
qed

lemma ls_loop_unfold:
  "io_loop Rcl (ls_entry_round Cl Rcl) s = bnd (ls_entry_round Cl Rcl s)
     (\<lambda>r. case r of Inl s' \<Rightarrow> io_loop Rcl (ls_entry_round Cl Rcl) s' | Inr a \<Rightarrow> ret a)"
  by (rule io_loop_unfold) (rule io_loop_eats [OF eats_ls_round])

lemma ls_loop_run:
  "\<lbrakk>\<forall>d \<in> set ds. wf_ls d; wr Cl w\<rbrakk> \<Longrightarrow>
   io_loop Rcl (ls_entry_round Cl Rcl) () (feed Rcl (concat (map ls_wire ds) @ le_bytes 2 (0 :: u16)) w)
     = (Ret (), emit Cl (concat (map ls_wire ds) @ le_bytes 2 (0 :: u16)) w)"
proof (induction ds arbitrary: w)
  case Nil
  then show ?case
    using ls_round_end [of w "[]"] by (subst ls_loop_unfold) (simp add: bnd_app ret_app)
next
  case (Cons d ds)
  then show ?case
    using ls_round_entry [of d w "concat (map ls_wire ds) @ le_bytes 2 (0 :: u16)"]
    by (subst ls_loop_unfold) (simp add: bnd_app)
qed

definition entries_read :: "fs \<Rightarrow> (string \<times> string) list \<Rightarrow> ls_resp_t list" where
  "entries_read f es = concat (map (\<lambda>x. case ls_entry_of (fst x) (snd x) False f of None \<Rightarrow> [] | Some e \<Rightarrow> [e]) es)"

lemma listing_wire_entries: "listing_wire f es = concat (map ls_wire (entries_read f es)) @ le_bytes 2 (0 :: u16)"
  by (induction es) (simp_all add: listing_wire_def entries_read_def entry_wire_def split: option.splits)

lemma read_string_rest:
  "length s < 65536 \<Longrightarrow> readStringWithLen h (feed h (str_wire s @ rest) w) = (Ret s, feed h rest w)"
  by (simp add: read_string)

definition ls_request :: request_type where
  "ls_request = \<lparr>request = code_value ACTION_LS, flags = 0\<rparr>"

lemma client_ls_run:
  assumes "length p < 65536" and "length d < 65536" and "\<forall>e \<in> set (entries_read f es). wf_ls e" and "\<forall>h. wr h w"
  shows "client_ls Cl Rcl ls_request (feed Cl (str_wire p) (feed Rcl (listing_head r d @ listing_wire f es) w))
     = (Ret (), emit Rcl (byte_of_request ls_request # str_wire p) (emit Cl (listing_head r d @ listing_wire f es) w))"
proof -
  have codes: "RESPONSE_REDIRECT \<noteq> RESPONSE_ERROR" "RESPONSE_OK \<noteq> RESPONSE_ERROR" "RESPONSE_OK \<noteq> RESPONSE_REDIRECT"
    "flags ls_request \<noteq> 2"
    by (simp_all add: RESPONSE_REDIRECT_def RESPONSE_ERROR_def RESPONSE_OK_def ls_request_def)
  show ?thesis
    using assms codes ls_loop_run [OF assms(3)]
    by (cases r)
      (simp_all add: client_ls_def rq_wire_def io_eval Let_def listing_head_def listing_wire_entries ok_wire_def
        feed_Cons [of Rcl _ "str_wire _ @ _"] feed_Cons [of Rcl _ "concat _ @ _"] read_string_rest
        del: feed_append)
qed

lemma entries_read_wf:
  assumes "\<forall>x \<in> set es. snd x \<noteq> [] \<and> length (snd x) < 65536"
  shows "\<forall>e \<in> set (entries_read f es). wf_ls e"
  using assms by (auto simp: entries_read_def ls_entry_of_def wf_ls_def split: sum.splits)

text \<open>
  C19: listing a directory of a remote server: the bytes that the local socket of the client receives
  are the bytes that the server would send to a local socket of its own for the same request,
  namely the response (with the directory itself when the request named none), then for every
  entry of the directory that can be examined its name, date, permissions and size, then the end
  mark; and the client sends the server exactly the request.
\<close>

theorem remote_listing:
  assumes "d = (if p = [] then home_reply ws else p)" and "length p < 65536" and "length d < 65536"
    and "rhss_checkAccess ws d = 0" and "entries_of d (wfs ws) = Some es"
    and "\<forall>x \<in> set es. snd x \<noteq> [] \<and> length (snd x) < 65536" and "\<forall>h. wr h ws" and "\<forall>h. wr h wc"
  shows "\<exists>msg. (\<forall>h. \<exists>e q. listDir h (feed h (str_wire p) ws) = (Ret (), emit h msg (ws\<lparr>errno := e, progress := q\<rparr>)))
    \<and> client_ls Cl Rcl ls_request (feed Cl (str_wire p) (feed Rcl msg wc))
        = (Ret (), emit Rcl (byte_of_request ls_request # str_wire p) (emit Cl msg wc))
    \<and> msg = listing_head (p = []) d @ concat (map ls_wire (entries_read (wfs ws) es)) @ le_bytes 2 (0 :: u16)"
proof (rule exI [of _ "listing_head (p = []) d @ listing_wire (wfs ws) es"], intro conjI allI)
  let ?msg = "listing_head (p = []) d @ listing_wire (wfs ws) es"
  show "\<exists>e q. listDir h (feed h (str_wire p) ws) = (Ret (), emit h ?msg (ws\<lparr>errno := e, progress := q\<rparr>))" for h
    using assms by (intro listDir_run) simp_all
  show "client_ls Cl Rcl ls_request (feed Cl (str_wire p) (feed Rcl ?msg wc))
        = (Ret (), emit Rcl (byte_of_request ls_request # str_wire p) (emit Cl ?msg wc))"
    using assms entries_read_wf by (intro client_ls_run) simp_all
  show "?msg = listing_head (p = []) d @ concat (map ls_wire (entries_read (wfs ws) es)) @ le_bytes 2 (0 :: u16)"
    by (simp add: listing_wire_entries)
qed

theorem remote_listing_witness:
  "\<exists>msg. (\<forall>h. \<exists>e q. listDir h (feed h (str_wire ''/d'') sample_world) = (Ret (), emit h msg (sample_world\<lparr>errno := e, progress := q\<rparr>)))
    \<and> client_ls Cl Rcl ls_request (feed Cl (str_wire ''/d'') (feed Rcl msg world0))
        = (Ret (), emit Rcl (byte_of_request ls_request # str_wire ''/d'') (emit Cl msg world0))
    \<and> map filename (entries_read (wfs sample_world) [(''/d/y'', ''y''), (''/d/x'', ''x'')]) = [''y'', ''x'']"
proof -
  have es: "entries_of ''/d'' (wfs sample_world) = Some [(''/d/y'', ''y''), (''/d/x'', ''x'')]"
    using entries_at_path [OF sample_at sample_wf] by simp
  have "rhss_checkAccess sample_world ''/d'' = 0"
    by (simp add: rhss_checkAccess_def isXreProcess_def sample_world_def)
  moreover have "map filename (entries_read (wfs sample_world) [(''/d/y'', ''y''), (''/d/x'', ''x'')]) = [''y'', ''x'']"
    by (simp add: entries_read_def ls_entry_of_def sys_lstat_def stat_gen_def faulty_def resolve_def split_path_def sample_world_def)
  ultimately show ?thesis
    using remote_listing [of "''/d''" "''/d''" sample_world _ world0, OF _ _ _ _ es] sample_wr by force
qed

subsection \<open>Statistics\<close>

definition stats_request :: "u8 \<Rightarrow> request_type" where
  "stats_request fl = \<lparr>request = code_value ACTION_STATS, flags = fl\<rparr>"

lemma stats_file_run:
  assumes "length p < 65536" and "rhss_checkAccess w p = 0" and "stats_of p (wfs w) (users w) = Some st" and "wr h w"
  shows "\<exists>e. stats_file h (feed h (str_wire p) w) = (Ret (), emit h (ok_wire @ single_wire st) (w\<lparr>errno := e\<rparr>))"
proof -
  obtain e where "osStat p w = (Ret (Some st), w\<lparr>errno := e\<rparr>)"
    using quietD [OF quiet_osStat, of p w] assms(3) by auto
  then show ?thesis
    using assms by (intro exI [of _ e]) (simp add: stats_file_def io_eval bnd_app)
qed

lemma client_stats_file_run:
  assumes "length p < 65536" and "wf_single st" and "\<forall>h. wr h w"
  shows "client_stats Cl Rcl (stats_request 1) (feed Cl (str_wire p) (feed Rcl (ok_wire @ single_wire st) w))
    = (Ret (), emit Rcl (byte_of_request (stats_request 1) # str_wire p) (emit Cl (ok_wire @ single_wire st) w))"
  using assms
  by (simp add: client_stats_def rq_wire_def flush_def io_eval ok_wire_def RESPONSE_OK_def stats_request_def b0_def)

text \<open>
  The statistics of a file of a remote server: the record that the server reads from its file
  system arrives unchanged at the local socket of the client, where reading it gives back that
  record (names of user and group shorter than 256 bytes).
\<close>

theorem remote_stats:
  assumes "length p < 65536" and "rhss_checkAccess ws p = 0" and "stats_of p (wfs ws) (users ws) = Some st"
    and "wf_single st" and "\<forall>h. wr h ws" and "\<forall>h. wr h wc"
  shows "\<exists>msg. (\<exists>e. stats_file Rcl (feed Rcl (str_wire p) ws) = (Ret (), emit Rcl msg (ws\<lparr>errno := e\<rparr>)))
    \<and> client_stats Cl Rcl (stats_request 1) (feed Cl (str_wire p) (feed Rcl msg wc))
        = (Ret (), emit Rcl (byte_of_request (stats_request 1) # str_wire p) (emit Cl msg wc))
    \<and> thn (receiveBaseResponse Cl) (readsingleStats_resp Cl) (feed Cl msg wr0) = (Ret st, wr0)"
  using stats_file_run [of p ws st Rcl] client_stats_file_run [of p st wc] assms
  by (intro exI [of _ "ok_wire @ single_wire st"]) (simp add: io_eval)

theorem remote_stats_witness:
  "\<exists>msg st. (\<exists>e. stats_file Rcl (feed Rcl (str_wire ''/d/x'') sample_world) = (Ret (), emit Rcl msg (sample_world\<lparr>errno := e\<rparr>)))
    \<and> client_stats Cl Rcl (stats_request 1) (feed Cl (str_wire ''/d/x'') (feed Rcl msg world0))
        = (Ret (), emit Rcl (byte_of_request (stats_request 1) # str_wire ''/d/x'') (emit Cl msg world0))
    \<and> thn (receiveBaseResponse Cl) (readsingleStats_resp Cl) (feed Cl msg world0) = (Ret st, world0)
    \<and> ssize st = 3 \<and> sperms st = s2b ''-rw-r--r--''"
proof -
  have lk: "sys_lstat ''/d/x'' (wfs sample_world) = Inr (Reg attr0 [1, 2, 3])"
    by (simp add: sys_lstat_def stat_gen_def faulty_def resolve_def split_path_def sample_world_def)
  let ?st = "stats_record (Reg attr0 [1, 2, 3]) (permissions_of ''/d/x'' (st_mode (Reg attr0 [1, 2, 3])) (wfs sample_world)) (users sample_world)"
  have st: "stats_of ''/d/x'' (wfs sample_world) (users sample_world) = Some ?st"
    by (simp add: stats_of_def lk)
  have "replicate 11 (CHR 0x00) = [CHR 0x00, CHR 0x00, CHR 0x00, CHR 0x00, CHR 0x00, CHR 0x00, CHR 0x00, CHR 0x00,
      CHR 0x00, CHR 0x00, CHR 0x00]" by (simp add: numeral_eq_Suc)
  then have perm: "permissions_of ''/d/x'' (st_mode (Reg attr0 [1, 2, 3])) f = ''-rw-r--r--''" for f
    by (simp add: permissions_of_def perm_string_def perm_head_def perm_bits_def st_mode_def attr0_def S_IF_defs S_ISLNK_def S_ISDIR_def Let_def)
  have "wf_single ?st"
    by (simp add: wf_single_def stats_record_def getUsernameByUid_def sample_world_def)
  moreover have "rhss_checkAccess sample_world ''/d/x'' = 0"
    by (simp add: rhss_checkAccess_def isXreProcess_def sample_world_def)
  moreover have "ssize ?st = 3" "sperms ?st = s2b ''-rw-r--r--''" by (simp_all add: stats_record_def perm)
  ultimately show ?thesis
    using remote_stats [of "''/d/x''" sample_world _ world0 world0, OF _ _ st] sample_wr by fastforce
qed

subsection \<open>Hashes\<close>

lemma efdL_file: "sys_lstat p (wfs w) = Inr (Reg a c) \<Longrightarrow> efdL p w = (Ret (CHR 0x01), w)"
  by (simp add: efdL_def bnd_app io_query_def ret_app)

lemma osGetSize_regular: "sys_lstat p (wfs w) = Inr (Reg a c) \<Longrightarrow> osGetSize p b w = (Ret (int (length c)), w)"
  by (simp add: osGetSize_def bnd_app io_query_def ret_app)

lemma hash_wrapper_file:
  assumes "at_path (wfs w) cs (Reg a c)" and "\<forall>h. wr h w"
  shows "\<exists>e q. rh_computeHash_wrapper B (abs_path cs) algo opts w
    = (Ret (b_hash B (rh_hashLabels ! algo) c), w\<lparr>errno := e, progress := q\<rparr>)"
proof -
  let ?w = "w\<lparr>progress := 0\<rparr>"
  obtain e q where "rh_computeHash B (abs_path cs) algo [] True ?w
     = (Ret (Some (b_hash B (rh_hashLabels ! algo) c), []), ?w\<lparr>errno := e, progress := q\<rparr>)"
    using saysD [OF says_computeHash [OF assms(1), of "users w" B algo "[]" True], of ?w] assms by auto
  then show ?thesis
    using at_path_lstat [OF assms(1)]
    by (intro exI [of _ e] exI [of _ q])
      (simp add: rh_computeHash_wrapper_def bnd_app thn_app efdL_file osGetSize_regular getProgressHook_def modify_app ret_app)
qed

definition hash_request :: request_type where
  "hash_request = \<lparr>request = code_value ACTION_HASH, flags = 0\<rparr>"

lemma hashFile_run:
  assumes "at_path (wfs w) cs (Reg a c)" and "length (abs_path cs) < 65536" and "unat algo < 12"
    and "b_hash B (rh_hashLabels ! unat algo) c \<noteq> []" and "\<forall>h. wr h w"
  shows "\<exists>e q. hashFile B h (feed h ([algo, opts] @ str_wire (abs_path cs)) w)
    = (Ret (), emit h (ok_wire @ b_hash B (rh_hashLabels ! unat algo) c) (w\<lparr>errno := e, progress := q\<rparr>))"
proof -
  obtain e q where 1: "rh_computeHash_wrapper B (abs_path cs) (unat algo) opts w
    = (Ret (b_hash B (rh_hashLabels ! unat algo) c), w\<lparr>errno := e, progress := q\<rparr>)"
    using hash_wrapper_file [OF assms(1,5)] by blast
  have "\<not> rh_hash_maxAlgoIndex \<le> unat algo"
    using assms(3) by (simp add: rh_hash_maxAlgoIndex_def rh_hashSizes_def)
  then show ?thesis
    using assms 1
    by (intro exI [of _ e] exI [of _ q]) (simp add: hashFile_def bnd_app thn_app read_Cons read_string send_ok write_emit Let_def feed_Cons [of h _ "str_wire _"])
qed

lemma client_hash_run:
  assumes "length p < 65536" and "unat algo < 12" and "length digest = rh_hashSizes ! unat algo" and "\<forall>h. wr h w"
  shows "client_hash Cl Rcl hash_request (feed Cl ([algo, opts] @ str_wire p) (feed Rcl (ok_wire @ digest) w))
    = (Ret (), emit Rcl ([byte_of_request hash_request, algo, opts] @ str_wire p) (emit Cl (ok_wire @ digest) w))"
proof -
  have "\<not> rh_hash_maxAlgoIndex \<le> unat algo"
    using assms(2) by (simp add: rh_hash_maxAlgoIndex_def rh_hashSizes_def)
  then show ?thesis
    using assms
    by (simp add: client_hash_def rq_wire_def flush_def io_eval Let_def feed_Cons [of Cl _ "str_wire _"])
qed

text \<open>
  Hashing a regular file of a remote server: for each of the twelve algorithms the local socket
  of the client receives the response OK and then the digest of the whole content of the file. What
  the cryptographic library is relied on for is that a digest has the size that the table
  \<open>rh_hashSizes\<close> gives for its algorithm, since the client reads that many bytes.
\<close>

theorem remote_hash:
  assumes "at_path (wfs ws) cs (Reg a c)" and "length (abs_path cs) < 65536" and "unat algo < 12"
    and digest_size: "length (b_hash B (rh_hashLabels ! unat algo) c) = rh_hashSizes ! unat algo"
    and "\<forall>h. wr h ws" and "\<forall>h. wr h wc"
  shows "\<exists>msg. (\<exists>e q. hashFile B Rcl (feed Rcl ([algo, opts] @ str_wire (abs_path cs)) ws)
          = (Ret (), emit Rcl msg (ws\<lparr>errno := e, progress := q\<rparr>)))
    \<and> client_hash Cl Rcl hash_request (feed Cl ([algo, opts] @ str_wire (abs_path cs)) (feed Rcl msg wc))
        = (Ret (), emit Rcl ([byte_of_request hash_request, algo, opts] @ str_wire (abs_path cs)) (emit Cl msg wc))
    \<and> msg = ok_wire @ b_hash B (rh_hashLabels ! unat algo) c"
proof (rule exI [of _ "ok_wire @ b_hash B (rh_hashLabels ! unat algo) c"], intro conjI refl)
  have "\<forall>n < 12. rh_hashSizes ! n \<noteq> 0"
    by (simp add: rh_hashSizes_def All_less_Suc numeral_eq_Suc)
  then have "b_hash B (rh_hashLabels ! unat algo) c \<noteq> []"
    using assms(3) digest_size by (metis list.size(3))
  then show "\<exists>e q. hashFile B Rcl (feed Rcl ([algo, opts] @ str_wire (abs_path cs)) ws)
      = (Ret (), emit Rcl (ok_wire @ b_hash B (rh_hashLabels ! unat algo) c) (ws\<lparr>errno := e, progress := q\<rparr>))"
    using assms by (intro hashFile_run) simp_all
qed (use assms in \<open>intro client_hash_run; simp\<close>)

definition crc_botan :: botan where
  "crc_botan = toy_botan\<lparr>b_hash := (\<lambda>l bs. replicate 4 (of_nat (length bs)))\<rparr>"

theorem remote_hash_witness:
  "\<exists>msg. (\<exists>e q. hashFile crc_botan Rcl (feed Rcl ([0, 0] @ str_wire ''/f'') link_world)
          = (Ret (), emit Rcl msg (link_world\<lparr>errno := e, progress := q\<rparr>)))
    \<and> client_hash Cl Rcl hash_request (feed Cl ([0, 0] @ str_wire ''/f'') (feed Rcl msg world0))
        = (Ret (), emit Rcl ([byte_of_request hash_request, 0, 0] @ str_wire ''/f'') (emit Cl msg world0))
    \<and> msg = [0, 5, 5, 5, 5]"
proof -
  have "at_path (wfs link_world) [''f''] (Reg attr0 [1, 2, 3, 4, 5])"
    by (simp add: at_path_def link_world_def no_faults_def good_name_def dirs_above_def)
  moreover have "\<forall>h. wr h link_world" by (simp add: link_world_def)
  moreover have "b_hash crc_botan l [1, 2, 3, 4, 5] = [5, 5, 5, 5]" for l
    by (simp add: crc_botan_def numeral_eq_Suc)
  ultimately show ?thesis
    using remote_hash [of link_world "[''f'']" attr0 "[1, 2, 3, 4, 5]" 0 crc_botan world0 0]
    by (simp add: rh_hashSizes_def ok_wire_def RESPONSE_OK_def)
qed

subsection \<open>Answers that the client does not read to their end\<close>

definition create_request :: "u8 \<Rightarrow> request_type" where
  "create_request fl = \<lparr>request = code_value ACTION_CREATE, flags = fl\<rparr>"

text \<open>An advanced request for a file of zeros: path, mode, strategy and size.\<close>

definition zeros_args :: "string \<Rightarrow> u32 \<Rightarrow> u64 \<Rightarrow> byte list" where
  "zeros_args p mode sz = str_wire p @ le_bytes 4 mode @ [1] @ le_bytes 8 sz"

lemma checkAccess_streams [simp]:
  "rhss_checkAccess (feed h a w) p = rhss_checkAccess w p" "rhss_checkAccess (emit h a w) p = rhss_checkAccess w p"
  by (simp_all add: rhss_checkAccess_def isXreProcess_def)

lemma create_zeros_refused:
  assumes "length p < 65536" and "rhss_checkAccess w p = 0" and "fst (sys_open_excl p (wfs w)) = Inl e" and "wr h w"
  shows "createFileOrDirectory B hex h 3 (feed h (zeros_args p mode sz) w)
    = (Ret (), emit h (error_wire e @ le_bytes 8 maxuint) (w\<lparr>errno := e\<rparr>))"
proof -
  obtain f where "sys_open_excl p (wfs w) = (Inl e, f)" using assms(3) by (cases "sys_open_excl p (wfs w)") simp
  moreover have "b0 3" "b1 3" by (simp_all add: b0_def b1_def)
  ultimately show ?thesis
    using assms
    by (simp add: createFileOrDirectory_def create_advanced_def createEmptyFile_def zeros_args_def io_eval Let_def
        fd_create_def)
qed

lemma client_create_refused:
  assumes "length p < 65536" and "\<forall>h. wr h w"
  shows "client_createFileOrDirectory Cl Rcl (create_request 3) (feed Cl (zeros_args p mode sz) (feed Rcl (error_wire e @ rest) w))
    = (Ret (), feed Rcl rest (emit Rcl (byte_of_request (create_request 3) # zeros_args p mode sz) (emit Cl (error_wire e) w)))"
proof -
  have "b0 3" "b1 3" by (simp_all add: b0_def b1_def)
  with assms show ?thesis
    by (simp add: client_createFileOrDirectory_def zeros_args_def create_request_def rq_wire_def flush_def
        client_read_if_def pass_error_def io_eval Let_def error_wire_def RESPONSE_ERROR_def
        feed_Cons [of Rcl _ "le_bytes _ _ @ _"])
qed

text \<open>
  When the creation of a file with advanced options fails (the file exists, say), the server
  sends the error and then the end mark of a progress that never started; the client passes on the
  error and does not read the mark: its eight bytes are what it takes for the answer to the next
  request.
\<close>

theorem create_error_desynchronises:
  assumes "length p < 65536" and "rhss_checkAccess ws p = 0" and "fst (sys_open_excl p (wfs ws)) = Inl e"
    and "\<forall>h. wr h ws" and "\<forall>h. wr h wc"
  shows "\<exists>msg. createFileOrDirectory B hex Rcl 3 (feed Rcl (zeros_args p mode sz) ws) = (Ret (), emit Rcl msg (ws\<lparr>errno := e\<rparr>))
    \<and> client_createFileOrDirectory Cl Rcl (create_request 3) (feed Cl (zeros_args p mode sz) (feed Rcl msg wc))
        = (Ret (), feed Rcl (le_bytes 8 maxuint)
            (emit Rcl (byte_of_request (create_request 3) # zeros_args p mode sz) (emit Cl (error_wire e) wc)))"
  using create_zeros_refused [of p ws e Rcl B hex mode sz] client_create_refused [of p wc mode sz e "le_bytes 8 maxuint"] assms
  by blast

theorem create_error_desynchronises_witness:
  "\<exists>msg. createFileOrDirectory toy_botan b2s Rcl 3 (feed Rcl (zeros_args ''/d/x'' 420 7) sample_world)
        = (Ret (), emit Rcl msg (sample_world\<lparr>errno := EEXIST\<rparr>))
    \<and> client_createFileOrDirectory Cl Rcl (create_request 3) (feed Cl (zeros_args ''/d/x'' 420 7) (feed Rcl msg world0))
        = (Ret (), feed Rcl (le_bytes 8 maxuint)
            (emit Rcl (byte_of_request (create_request 3) # zeros_args ''/d/x'' 420 7) (emit Cl (error_wire EEXIST) world0)))"
proof (rule create_error_desynchronises)
  show "fst (sys_open_excl ''/d/x'' (wfs sample_world)) = Inl EEXIST"
    by (simp add: sys_open_excl_def faulty_def resolve_def split_path_def sample_world_def)
  show "rhss_checkAccess sample_world ''/d/x'' = 0"
    by (simp add: rhss_checkAccess_def isXreProcess_def sample_world_def)
qed (simp_all add: sample_wr)



end
