(* ===== verification/RH_Session.thy ===== *)
theory RH_Session
  imports RH_Remote
begin

section \<open>A session of the remote server\<close>

text \<open>
  \<open>tlsServerSessionEventLoop\<close> (xre.h) as a whole: no handler gives bytes back to the connection, so
  every round consumes its request byte, the fuel of the loop is never the reason for its end, and
  the requests of a client are served one after the other, in the order in which they arrive. The
  handlers that the other theories leave out are run here: the files of a given size (Utils.h,
  \<open>createEmptyFile\<close>), the totals of several paths, the requests with the access check missing.
\<close>

subsection \<open>Handlers only consume input\<close>

named_theorems eats0_rules

lemmas eats0_basic [eats0_rules] = eats0_bnd eats0_thn eats_ret eats_raise eats0_query eats0_update eats0_get eats0_set_errno
  eats0_option eats0_sum eats0_read eats_read_other eats_write eats0_if eats0_fd_create eats0_fd_write eats0_io_fold
  eats0_publishDelta eats0_opt_write eats0_close eats0_mkpath eats0_mkcopy eats0_string eats0_download_file
  eats0_quiet [OF quiet_osStat] eats0_quiet [OF quiet_existsIsFileIsDir0] eats0_quiet [OF quiet_existsIsFileIsDir0_st]
  eats0_quiet [OF quiet_assemble]

lemma eats0_prod [eats0_rules]: "(\<And>x y. eats h 0 (g x y)) \<Longrightarrow> eats h 0 (case p of (x, y) \<Rightarrow> g x y)"
  by (cases p) simp

lemma eats0_threadExit [eats0_rules]: "eats h 0 threadExit"
  unfolding threadExit_def by (rule eats_raise)

lemma eats0_efdL [eats0_rules]: "eats h 0 (efdL p)"
  using quiet_efdL eats0_quiet by blast

lemma eats0_writeRaw [eats0_rules]: "eats h 0 (writeRaw h' bs)"
  by (rule eatsI) (auto simp: writeRaw_def avail_def set_conn_def push_def Let_def split: option.splits if_splits)

lemma eats0_fd_read [eats0_rules]: "eats h 0 (fd_readAllOrExit d n)"
  by (rule eatsI) (auto simp: fd_readAllOrExit_def split: sum.splits if_splits)

lemma eats0_io_for [eats0_rules]: "(\<And>x. eats h 0 (b x)) \<Longrightarrow> eats h 0 (io_for xs b)"
  by (induction xs) (auto intro: eats0_rules)

lemma eats0_loop [eats0_rules]: "(\<And>s. eats h 0 (body s)) \<Longrightarrow> eats h 0 (io_loop h' body s)"
proof -
  assume body: "\<And>s. eats h 0 (body s)"
  have iter: "eats h 0 (io_iter n body s)" for n s
    by (induction n arbitrary: s) (auto intro!: eats0_rules body)
  show ?thesis
    by (rule eatsI) (auto simp: io_loop_def dest: eatsD [OF iter] simp del: io_iter.simps)
qed

lemma eats0_it_each [eats0_rules]: "(\<And>it s. eats h 0 (body it s)) \<Longrightarrow> eats h 0 (it_each body it s)"
proof -
  assume body: "\<And>it s. eats h 0 (body it s)"
  have next1: "eats h 0 (it_next it)" for it
    unfolding it_next_def descends_def smartVisitSymlink_def Let_def
    by (auto intro!: eats0_rules split: list.splits ListingMode.splits)
  have "eats h 0 (it_fold n body it s)" for n it s
    by (induction n arbitrary: it s) (auto intro!: eats0_rules body next1)
  then show ?thesis unfolding it_each_def by (intro eats0_rules)
qed

lemma eats0_createIterator [eats0_rules]: "eats h 0 (createIterator d m n l srt flt)"
  unfolding createIterator_def Let_def by (intro eats0_rules)

lemma eats0_plain_iterator [eats0_rules]: "eats h 0 (plain_iterator d)"
  unfolding plain_iterator_def by (intro eats0_rules)

lemma eats0_respond [eats0_rules]:
  "eats h 0 (sendBaseResponse r h')" "eats h 0 (sendOkResponse h')" "eats h 0 (sendErrorResponse h')"
  "eats h 0 (deny h')" "eats h 0 (writeStringWithLen h' s)" "eats h 0 (writels_resp h' x)"
  "eats h 0 (writesingleStats_resp h' y)" "eats h 0 (writefolderStats_resp h' z)"
  unfolding sendOkResponse_def sendErrorResponse_def deny_def sendBaseResponse_def writeStringWithLen_def
    writels_resp_def writesingleStats_resp_def writefolderStats_resp_def Let_def
  by (intro eats0_rules)+

lemma eats0_listDir [eats0_rules]: "eats h 0 (listDir h)"
  unfolding listDir_def send_entry_def Let_def by (intro eats0_rules)

lemma eats0_retrieveHomePath [eats0_rules]: "eats h 0 (retrieveHomePath h)"
  unfolding retrieveHomePath_def by (intro eats0_rules)

lemma eats0_hash_loop [eats0_rules]: "eats h 0 (hash_loop n d acc)"
  by (induction n arbitrary: d acc) (auto intro!: eats0_rules)

lemma eats0_computeHash [eats0_rules]: "eats h 0 (rh_computeHash B p a acc fin)"
  unfolding rh_computeHash_def by (intro eats0_rules)

lemma eats0_getProgressHook [eats0_rules]: "eats h 0 getProgressHook"
  unfolding getProgressHook_def by (rule eats0_modify) (simp add: avail_def)

lemma eats0_accumulate [eats0_rules]:
  "eats h 0 (accumulateChildrenFilesAndFoldersCount p r)" "eats h 0 (accumulateTotalFilesAndFoldersCount p r)"
  unfolding accumulateChildrenFilesAndFoldersCount_def accumulateTotalFilesAndFoldersCount_def by (intro eats0_rules)+

lemma eats0_osGetSize [eats0_rules]: "eats h 0 (osGetSize p b)"
  unfolding osGetSize_def by (intro eats0_rules)

lemma eats0_hash_dir [eats0_rules]: "eats h 0 (rh_computeHash_dir B p a opts)"
  unfolding rh_computeHash_dir_def Let_def by (intro eats0_rules)

lemma eats0_hashFile [eats0_rules]: "eats h 0 (hashFile B h)"
  unfolding hashFile_def rh_computeHash_wrapper_def Let_def by (intro eats0_rules)

lemma eats0_hook [eats0_rules]: "eats h 0 (ls_publishDelta h' n)"
proof -
  have "eats h 0 (hook_sample h')"
    by (rule eatsI) (auto simp: hook_sample_def writeAllOrExit_def avail_def set_conn_def push_def shut_def Let_def
        dest: eatsD [OF eats_write] split: prod.splits outcome.splits exn.splits if_splits)
  then have all: "eats h 0 (io_for xs (\<lambda>_. hook_sample h'))" for xs :: "nat list"
    by (intro eats0_io_for)
  have "eats h 0 (hook_wakeups h')"
    by (rule eatsI) (auto simp: hook_wakeups_def avail_def dest!: eatsD [OF all])
  then show ?thesis unfolding ls_publishDelta_def by (intro eats0_rules)
qed

lemma eats0_create [eats0_rules]:
  "eats h 0 (createEmptyFile p sz h')" "eats h 0 (createRandomFile B hex p sz seed oh bc h')"
  unfolding createEmptyFile_def createRandomFile_def zero_chunk_def rand_chunk_def Let_def by (intro eats0_rules)+

lemma eats0_createFileOrDirectory [eats0_rules]: "eats h 0 (createFileOrDirectory B hex h fl)"
  unfolding createFileOrDirectory_def create_advanced_def read_if_def Let_def by (intro eats0_rules)

lemma eats0_pair [eats0_rules]: "eats h 0 (readPairOfStringsWithPairOfLens h)"
  by (rule eats_weaken [OF eats_pair]) simp

lemma eats0_link [eats0_rules]: "eats h 0 (createHardOrSoftLink h fl)"
  unfolding createHardOrSoftLink_def Let_def by (intro eats0_rules)

lemma eats0_accumulate_dir [eats0_rules]: "eats h 0 (accumulate_dir p s)"
  unfolding accumulate_dir_def by (intro eats0_rules)

lemma eats0_stats [eats0_rules]: "eats h 0 (stats h fl)"
  unfolding stats_def stats_file_def stats_dir_def stats_multiple_def stats_multiple_round_def by (intro eats0_rules)

lemma eats0_count [eats0_rules]: "eats h 0 (countTotalStatsIntoMap n p m)"
  by (induction n arbitrary: p m) (auto simp: Let_def intro!: eats0_rules eats0_quiet [OF quiet_osGetSize_file])

lemma eats0_upload [eats0_rules]: "eats h 0 (genericUploadBasicRecursiveImplWithProgress n s d net out)"
  by (induction n arbitrary: s d)
    (auto simp: OSUploadRegularFileWithProgress_def upload_chunk_def Let_def intro!: eats0_rules)

lemma eats0_server_download [eats0_rules]: "eats h 0 (server_download h)"
  unfolding server_download_def receivePathPairsList_def receive_pair_step_def count_items_def countStats_def upload_item_def
  by (intro eats0_rules)

lemma eats0_downloadRemoteItems [eats0_rules]: "eats h 0 (downloadRemoteItems h out)"
  unfolding downloadRemoteItems_def by (intro eats0_rules eats_weaken [OF eats_download_item]) simp

lemma eats0_serve_remote [eats0_rules]: "eats h 0 (serve_remote B hex h rq)"
  unfolding serve_remote_def controlCursor_def
  by (auto intro!: eats0_rules split: ControlCodes.split)

lemma eats_remote_round: "eats h (Suc 0) (remote_round B hex h u)"
proof -
  have "eats h (1 + 0) (remote_round B hex h u)"
    unfolding remote_round_def by (intro eats_bnd eats_read eats0_rules)
  then show ?thesis by simp
qed

lemma remote_round_Inl: "remote_round B hex h () w = (Ret r, w') \<Longrightarrow> r = Inl ()"
  by (auto simp: remote_round_def io_eval split: prod.splits outcome.splits)

lemma session_unfold:
  "io_loop h (remote_round B hex h) () = thn (remote_round B hex h ()) (io_loop h (remote_round B hex h) ())"
    (is "?l = _")
proof -
  have "?l = bnd (remote_round B hex h ()) (\<lambda>r. case r of Inl s' \<Rightarrow> io_loop h (remote_round B hex h) s' | Inr a \<Rightarrow> ret a)"
    by (rule io_loop_unfold) (rule io_loop_eats [OF eats_remote_round])
  also have "\<dots> = thn (remote_round B hex h ()) ?l"
    by (rule ext) (auto simp: bnd_app thn_app dest!: remote_round_Inl split: prod.splits outcome.splits)
  finally show ?thesis .
qed

lemma session_step:
  "tlsServerSessionEventLoop B hex h (feed h (b # bs) w)
     = catch_all (thn (serve_remote B hex h (request_of_byte b)) (io_loop h (remote_round B hex h) ())) (feed h bs w)"
proof -
  have "thn (remote_round B hex h ()) (io_loop h (remote_round B hex h) ()) (feed h (b # bs) w)
      = thn (serve_remote B hex h (request_of_byte b)) (io_loop h (remote_round B hex h) ()) (feed h bs w)"
    by (auto simp: remote_round_def thn_app bnd_app ret_app read_Cons split: prod.splits outcome.splits)
  then show ?thesis
    unfolding tlsServerSessionEventLoop_def catch_all_def by (subst session_unfold) simp
qed

lemma session_no_return: "io_loop h (remote_round B hex h) () w \<noteq> (Ret r, w')"
proof (induction "avail h w" arbitrary: w rule: less_induct)
  case less
  show ?case
  proof
    assume "io_loop h (remote_round B hex h) () w = (Ret r, w')"
    then obtain u w1 where "remote_round B hex h () w = (Ret u, w1)" "io_loop h (remote_round B hex h) () w1 = (Ret r, w')"
      by (subst (asm) session_unfold) (auto simp: thn_app split: prod.splits outcome.splits)
    with less eatsD [OF eats_remote_round] show False by fastforce
  qed
qed



subsection \<open>Requests that are not checked\<close>

lemma stats_multiple_unfold:
  "io_loop h (stats_multiple_round h) s = bnd (stats_multiple_round h s)
     (\<lambda>r. case r of Inl s' \<Rightarrow> io_loop h (stats_multiple_round h) s' | Inr a \<Rightarrow> ret a)"
proof (rule io_loop_unfold)
  have "eats h (2 + 0) (stats_multiple_round h s)" for s
    unfolding stats_multiple_round_def by (intro eats_bnd eats_string eats0_rules)
  then have "eats h (Suc 1) (stats_multiple_round h s)" for s by (simp add: numeral_2_eq_2)
  then show "stats_multiple_round h s w = (Ret (Inl s'), w') \<Longrightarrow> avail h w' < avail h w" for s w s' w'
    by (rule io_loop_eats)
qed

lemma each_empty: "it_stack it = [] \<Longrightarrow> it_each body it s w = (Ret s, w)"
  by (simp add: it_each_def it_fuel_def it_next_def bnd_app get_app ret_app)

lemma accumulate_empty:
  assumes "sys_listdir (CHR ''/'' # p) (wfs w) = Inr [''.'', ''..'']"
  shows "accumulate_dir (CHR ''/'' # p) s w = (Ret s, w\<lparr>errno := 0\<rparr>)"
proof -
  have it: "\<exists>it. createIterator (CHR ''/'' # p) m b l c g w' = (Ret it, w'\<lparr>errno := 0\<rparr>) \<and> it_error it = 0 \<and> it_stack it = []"
    if "wfs w' = wfs w" for m b l c g w'
    using assms that by (auto simp: createIterator_def io_eval io_query_def listOnStack_def level_entries_def Let_def)
  have 1: "accumulateChildrenFilesAndFoldersCount (CHR ''/'' # p) r w' = (Ret (0, r), w'\<lparr>errno := 0\<rparr>)"
    "accumulateTotalFilesAndFoldersCount (CHR ''/'' # p) r w' = (Ret (0, r), w'\<lparr>errno := 0\<rparr>)" if "wfs w' = wfs w" for r w'
    using it [OF that, of FULL False PLAIN False "\<lambda>_. True"] it [OF that, of FULL False RECURSIVE_FOLLOW_SYMLINKS False "\<lambda>_. True"]
    by (auto simp: accumulateChildrenFilesAndFoldersCount_def accumulateTotalFilesAndFoldersCount_def bnd_app it_ok_def each_empty)
  then show ?thesis by (cases s) (simp add: accumulate_dir_def bnd_app ret_app)
qed


end
