(* ===== verification/RH_Create.thy ===== *)
theory RH_Create
  imports RH_Session
begin

section \<open>Files of a given size\<close>

text \<open>
  \<open>createEmptyFile\<close> and \<open>createRandomFile\<close> (Utils.h) end to end: the bytes of the file and the
  samples of the progress that the timer thread sends while the file grows. \<open>grown_file\<close> is what both
  loops do, block by block.
\<close>

definition set_file :: "string list \<Rightarrow> attr \<Rightarrow> byte list \<Rightarrow> fs \<Rightarrow> fs" where
  "set_file l a bs f = f\<lparr>root := put_at l (Reg a bs) (root f)\<rparr>"

definition grown_file :: "handle \<Rightarrow> string list \<Rightarrow> attr \<Rightarrow> byte list \<Rightarrow> byte list \<Rightarrow> world \<Rightarrow> world \<Rightarrow> bool" where
  "grown_file h l a dd bs w w' \<longleftrightarrow> (\<exists>samples n.
     w' = emit h (u64s_wire samples) (w\<lparr>wfs := set_file l a (dd @ bs) (wfs w),
            progress := of_nat (length (dd @ bs)), ticks := drop n (ticks w)\<rparr>)
     \<and> sorted (map unat samples)
     \<and> (\<forall>s \<in> set samples. length dd < unat s \<and> unat s \<le> length (dd @ bs) \<and> s \<noteq> maxuint))"

definition file_open :: "handle \<Rightarrow> string list \<Rightarrow> attr \<Rightarrow> byte list \<Rightarrow> fd \<Rightarrow> world \<Rightarrow> bool" where
  "file_open h l a dd d w \<longleftrightarrow> wr h w \<and> no_faults (wfs w) \<and> l \<noteq> [] \<and> lookup (root (wfs w)) l = Some (Reg a dd)
     \<and> fd_loc d = l \<and> fd_pos d = length dd \<and> progress w = of_nat (length dd)"

lemma u64s_wire_append: "u64s_wire (xs @ ys) = u64s_wire xs @ u64s_wire ys"
  by (simp add: u64s_wire_def)

lemma set_file_set_file: "set_file l a y (set_file l a x f) = set_file l a y f"
  by (simp add: set_file_def put_put)

lemma grown_file_trans:
  assumes "grown_file h l a dd u w w1" and "grown_file h l a (dd @ u) v w1 w2"
  shows "grown_file h l a dd (u @ v) w w2"
proof -
  obtain s1 n1 where 1: "w1 = emit h (u64s_wire s1) (w\<lparr>wfs := set_file l a (dd @ u) (wfs w),
       progress := of_nat (length (dd @ u)), ticks := drop n1 (ticks w)\<rparr>)"
    "sorted (map unat s1)" "\<forall>s \<in> set s1. length dd < unat s \<and> unat s \<le> length (dd @ u) \<and> s \<noteq> maxuint"
    using assms(1) by (auto simp: grown_file_def)
  obtain s2 n2 where 2: "w2 = emit h (u64s_wire s2) (w1\<lparr>wfs := set_file l a ((dd @ u) @ v) (wfs w1),
       progress := of_nat (length ((dd @ u) @ v)), ticks := drop n2 (ticks w1)\<rparr>)"
    "sorted (map unat s2)" "\<forall>s \<in> set s2. length (dd @ u) < unat s \<and> unat s \<le> length ((dd @ u) @ v) \<and> s \<noteq> maxuint"
    using assms(2) by (auto simp: grown_file_def)
  have "sorted (map unat (s1 @ s2))" using 1 2 by (fastforce simp: sorted_append)
  moreover have "w2 = emit h (u64s_wire (s1 @ s2)) (w\<lparr>wfs := set_file l a (dd @ u @ v) (wfs w),
       progress := of_nat (length (dd @ u @ v)), ticks := drop (n2 + n1) (ticks w)\<rparr>)"
    using 1(1) 2(1) by (simp add: u64s_wire_append set_file_set_file)
  moreover have "\<forall>s \<in> set (s1 @ s2). length dd < unat s \<and> unat s \<le> length (dd @ u @ v) \<and> s \<noteq> maxuint"
    using 1(3) 2(3) by fastforce
  ultimately show ?thesis unfolding grown_file_def by blast
qed

lemma hook_sample_run:
  "wr h w \<Longrightarrow> hook_sample h w = (Ret (), emit h (if progress w = 0 \<or> progress w = maxuint then [] else le_bytes 8 (progress w)) w)"
  by (simp add: hook_sample_def write_emit)

lemma hook_samples:
  "wr h w \<Longrightarrow> \<exists>k. io_for xs (\<lambda>_. hook_sample h) w = (Ret (), emit h (u64s_wire (replicate k (progress w))) w)
     \<and> (0 < k \<longrightarrow> progress w \<noteq> maxuint)"
proof (induction xs arbitrary: w)
  case Nil
  then show ?case by (intro exI [of _ 0]) (simp add: ret_app)
next
  case (Cons x xs)
  obtain w1 where 1: "hook_sample h w = (Ret (), w1)" "w1 = w \<or> progress w \<noteq> maxuint \<and> w1 = emit h (le_bytes 8 (progress w)) w"
    using hook_sample_run [OF Cons.prems] by (auto split: if_splits)
  with Cons.prems have "wr h w1" "progress w1 = progress w" by (auto simp: emit_def set_conn_def wr_def)
  with Cons.IH obtain k where k: "io_for xs (\<lambda>_. hook_sample h) w1 = (Ret (), emit h (u64s_wire (replicate k (progress w))) w1)"
    "0 < k \<longrightarrow> progress w \<noteq> maxuint" by metis
  show ?case
  proof (cases "w1 = w")
    case True
    with 1 k show ?thesis by (intro exI [of _ k]) (simp add: thn_app)
  next
    case False
    with 1 k show ?thesis by (intro exI [of _ "Suc k"]) (simp add: thn_app)
  qed
qed

lemma unat_of_nat_small: "n < 2 ^ 64 \<Longrightarrow> unat (of_nat n :: u64) = n"
  by (simp add: unat_of_nat)

lemma grow_step:
  assumes "file_open h l a dd d w" and "bs \<noteq> []" and "length (dd @ bs) < 2 ^ 64"
  shows "\<exists>w1 w'. fd_writeAllOrExit d bs w = (Ret (fd_advance (length bs) d), w1)
    \<and> ls_publishDelta h (length bs) w1 = (Ret (), w')
    \<and> grown_file h l a dd bs w w' \<and> file_open h l a (dd @ bs) (fd_advance (length bs) d) w'"
proof -
  note o = assms(1) [unfolded file_open_def]
  let ?w1 = "w\<lparr>wfs := set_file l a (dd @ bs) (wfs w)\<rparr>" and ?p = "of_nat (length (dd @ bs)) :: u64"
  have un: "unat ?p = length (dd @ bs)" using assms(3) by (rule unat_of_nat_small)
  have 1: "fd_writeAllOrExit d bs w = (Ret (fd_advance (length bs) d), ?w1)"
    using o assms(2) by (simp add: fd_writeAllOrExit_def sys_write_def no_faults_faulty overwrite_end set_file_def)
  let ?w2 = "?w1\<lparr>progress := ?p, ticks := tl (ticks w)\<rparr>"
  obtain k where k: "io_for [0..<(case ticks w of [] \<Rightarrow> 0 | n # _ \<Rightarrow> n)] (\<lambda>_. hook_sample h) ?w2
      = (Ret (), emit h (u64s_wire (replicate k ?p)) ?w2)" "0 < k \<longrightarrow> ?p \<noteq> maxuint"
    using hook_samples [of h ?w2] o by auto
  then have 2: "ls_publishDelta h (length bs) ?w1 = (Ret (), emit h (u64s_wire (replicate k ?p)) ?w2)"
    using o by (simp add: ls_publishDelta_def thn_app publishDelta_app hook_wakeups_def)
  have "grown_file h l a dd bs w (emit h (u64s_wire (replicate k ?p)) ?w2)"
    unfolding grown_file_def
    using k un assms(2) by (intro exI [of _ "replicate k ?p"] exI [of _ 1]) (simp add: drop_Suc sorted_replicate)
  moreover have "file_open h l a (dd @ bs) (fd_advance (length bs) d) (emit h (u64s_wire (replicate k ?p)) ?w2)"
    using o unfolding file_open_def by (auto simp: set_file_def lookup_put_existing fd_advance_def)
  ultimately show ?thesis using 1 2 by blast
qed

lemma grown_file_refl: "file_open h l a dd d w \<Longrightarrow> grown_file h l a dd [] w w"
  unfolding file_open_def grown_file_def
  by (intro exI [of _ "[]"] exI [of _ 0]) (simp add: set_file_def put_same)

lemma zero_chunks:
  "\<lbrakk>file_open h l a dd d w; \<forall>n \<in> set ns. 0 < n; length dd + sum_list ns < 2 ^ 64\<rbrakk> \<Longrightarrow>
   \<exists>d' w'. io_fold (zero_chunk h) d ns w = (Ret d', w') \<and> grown_file h l a dd (replicate (sum_list ns) 0) w w'"
proof (induction ns arbitrary: dd d w)
  case Nil
  then show ?case by (auto simp: ret_app intro: grown_file_refl)
next
  case (Cons n ns)
  then have "replicate n 0 \<noteq> ([] :: byte list)" "length (dd @ replicate n (0 :: byte)) < 2 ^ 64" by auto
  with grow_step [OF Cons.prems(1)] obtain w1 w2 where 1: "fd_writeAllOrExit d (replicate n 0) w = (Ret (fd_advance n d), w1)"
    "ls_publishDelta h n w1 = (Ret (), w2)" "grown_file h l a dd (replicate n 0) w w2"
    "file_open h l a (dd @ replicate n 0) (fd_advance n d) w2"
    by (metis length_replicate)
  with Cons.IH [OF 1(4)] Cons.prems obtain d' w' where 2: "io_fold (zero_chunk h) (fd_advance n d) ns w2 = (Ret d', w')"
    "grown_file h l a (dd @ replicate n 0) (replicate (sum_list ns) 0) w2 w'" by auto
  have "zero_chunk h d n w = (Ret (fd_advance n d), w2)"
    using 1 by (simp add: zero_chunk_def bnd_app thn_app ret_app)
  with 2(1) show ?case
    using grown_file_trans [OF 1(3) 2(2)] by (simp add: bnd_app flip: replicate_add)
qed

lemma open_new_file:
  assumes "wr h w" "no_faults (wfs w)" "\<forall>c \<in> set l. good_name c" "l \<noteq> []" "dirs_above (root (wfs w)) l"
    "lookup (root (wfs w)) l = None"
  shows "fd_create (abs_path l) FM_XCL w = (Ret (Inr \<lparr>fd_path = abs_path l, fd_loc = l, fd_pos = 0\<rparr>),
           w\<lparr>wfs := set_file l (new_attr 420 (wfs w)) [] (wfs w)\<rparr>)"
    and "file_open h l (new_attr 420 (wfs w)) [] \<lparr>fd_path = abs_path l, fd_loc = l, fd_pos = 0\<rparr>
           (emit h out (w\<lparr>wfs := set_file l (new_attr 420 (wfs w)) [] (wfs w), progress := 0\<rparr>))"
proof -
  have "resolve (wfs w) False (abs_path l) = Missing l"
    using assms by (intro resolve_plain_Missing) auto
  then show "fd_create (abs_path l) FM_XCL w = (Ret (Inr \<lparr>fd_path = abs_path l, fd_loc = l, fd_pos = 0\<rparr>),
           w\<lparr>wfs := set_file l (new_attr 420 (wfs w)) [] (wfs w)\<rparr>)"
    using assms(2) by (simp add: fd_create_def sys_open_excl_def no_faults_faulty set_file_def)
  have "\<exists>b es. lookup (root (wfs w)) (butlast l) = Some (Dir b es)"
    using assms(4,5) dirs_above_snoc [of _ "butlast l" "last l"] by simp
  then show "file_open h l (new_attr 420 (wfs w)) [] \<lparr>fd_path = abs_path l, fd_loc = l, fd_pos = 0\<rparr>
           (emit h out (w\<lparr>wfs := set_file l (new_attr 420 (wfs w)) [] (wfs w), progress := 0\<rparr>))"
    using assms by (auto simp: file_open_def set_file_def lookup_put_same)
qed

text \<open>
  \<open>createEmptyFile\<close> makes a file of exactly \<open>size\<close> zero bytes, whatever blocks it writes them in
  and however often the timer fires; after the OK, the requester reads only samples of the progress
  that never decrease, are positive, do not exceed the size and never are the end marker.
\<close>

theorem createEmptyFile_zeros:
  assumes "wr h w" "no_faults (wfs w)" "\<forall>c \<in> set l. good_name c" "l \<noteq> []" "dirs_above (root (wfs w)) l"
    "lookup (root (wfs w)) l = None"
  shows "\<exists>samples q n. createEmptyFile (abs_path l) sz h w = (Ret \<lparr>rhash = [], rret = 0\<rparr>,
      emit h (ok_wire @ u64s_wire samples) (w\<lparr>wfs := set_file l (new_attr 420 (wfs w)) (replicate (unat sz) 0) (wfs w),
         progress := q, ticks := drop n (ticks w)\<rparr>))
    \<and> sorted (map unat samples) \<and> (\<forall>s \<in> set samples. 0 < s \<and> s \<le> sz \<and> s \<noteq> maxuint)"
proof (cases "sz = 0")
  case True
  then show ?thesis
    using open_new_file(1) [OF assms] assms(1)
    by (intro exI [of _ "[]"] exI [of _ "progress w"] exI [of _ 0]) (simp add: createEmptyFile_def io_eval)
next
  case False
  let ?a = "new_attr 420 (wfs w)" and ?d = "\<lparr>fd_path = abs_path l, fd_loc = l, fd_pos = 0\<rparr>"
  let ?w1 = "emit h ok_wire (w\<lparr>wfs := set_file l ?a [] (wfs w), progress := 0\<rparr>)"
  let ?ns = "chunk_sizes (unat sz) COPY_CHUNK_SIZE"
  have "\<forall>n \<in> set ?ns. 0 < n" using chunk_sizes_pos [of _ "unat sz" COPY_CHUNK_SIZE] by (auto simp: COPY_CHUNK_SIZE_def)
  moreover have "length ([] :: byte list) + sum_list ?ns < 2 ^ 64" using unsigned_less [of sz] by (simp add: sum_chunk_sizes)
  ultimately obtain d' w' where 1: "io_fold (zero_chunk h) ?d ?ns ?w1 = (Ret d', w')"
    "grown_file h l ?a [] (replicate (unat sz) 0) ?w1 w'"
    using zero_chunks [OF open_new_file(2) [OF assms]] by (metis sum_chunk_sizes)
  then obtain samples n where 2: "w' = emit h (u64s_wire samples) (?w1\<lparr>wfs := set_file l ?a (replicate (unat sz) 0) (wfs ?w1),
      progress := sz, ticks := drop n (ticks w)\<rparr>)" "sorted (map unat samples)"
    "\<forall>s \<in> set samples. 0 < unat s \<and> unat s \<le> unat sz \<and> s \<noteq> maxuint"
    by (auto simp: grown_file_def)
  then show ?thesis
    using open_new_file(1) [OF assms] assms(1) False 1(1)
    by (intro exI [of _ samples] exI [of _ sz] exI [of _ n])
      (simp add: createEmptyFile_def io_eval getProgressHook_def set_file_set_file word_less_nat_alt word_le_nat_alt)
qed

theorem createEmptyFile_zeros_witness:
  "\<exists>samples q n. createEmptyFile ''/new'' 3 Cl (world0\<lparr>ticks := [1]\<rparr>) = (Ret \<lparr>rhash = [], rret = 0\<rparr>,
      emit Cl (ok_wire @ u64s_wire samples) (world0\<lparr>ticks := [1], wfs := set_file [''new''] (new_attr 420 fs0) [0, 0, 0] fs0,
         progress := q, ticks := drop n [1]\<rparr>))
    \<and> sorted (map unat samples) \<and> (\<forall>s \<in> set samples. 0 < s \<and> s \<le> 3 \<and> s \<noteq> maxuint)"
proof -
  have "dirs_above (root fs0) [''new'']" "no_faults fs0" "good_name ''new''" "lookup (root fs0) [''new''] = None"
    by (simp_all add: dirs_above_def no_faults_def good_name_def)
  moreover have "replicate (unat (3 :: u64)) (0 :: byte) = [0, 0, 0]"
  proof -
    have "unat (3 :: u64) = Suc (Suc (Suc 0))" by simp
    then show ?thesis by (simp only: replicate.simps)
  qed
  ultimately show ?thesis
    using createEmptyFile_zeros [of Cl "world0\<lparr>ticks := [1]\<rparr>" "[''new'']" 3] by simp
qed

subsection \<open>Pseudo-random files\<close>

text \<open>The content of the file as a function of the seed: the halves of the blocks, and the blocks.\<close>

primrec rand_stream :: "botan \<Rightarrow> string \<Rightarrow> nat \<Rightarrow> byte list \<times> byte list \<Rightarrow> nat list \<Rightarrow> byte list" where
  "rand_stream B c k ps [] = []"
| "rand_stream B c k ps (n # ns) =
     (let ps' = rand_round B c k ps in take n (fst ps' @ snd ps') @ rand_stream B c k ps' ns)"

definition random_content :: "botan \<Rightarrow> string \<Rightarrow> string \<Rightarrow> nat \<Rightarrow> byte list" where
  "random_content B cipher seed sz =
     (let keySize = (if cipher = ''AES-128/CTR'' then 16 else 32);
          c = (if cipher \<noteq> [] then cipher else if b_hw_aes B then ''AES-256/CTR'' else ''ChaCha'') in
      rand_stream B c keySize (rand_init B keySize seed, replicate (HASH_BLOCK_SIZE div 2) 0) (chunk_sizes sz HASH_BLOCK_SIZE))"

text \<open>A stream cipher: the ciphertext has the length of the plaintext; and digests and keys are short.\<close>

definition stream_cipher :: "botan \<Rightarrow> bool" where
  "stream_cipher B \<longleftrightarrow> (\<forall>c k bs. length (b_cipher B c k bs) = length bs)
     \<and> (\<forall>bs. length (b_hash B ''SHA-256'' bs) = 32) \<and> (\<forall>n. length (b_rng B n) = n)"

lemma rand_chunks:
  "\<lbrakk>file_open h l a dd d w; \<forall>n \<in> set ns. 0 < n \<and> n \<le> HASH_BLOCK_SIZE; length dd + sum_list ns < 2 ^ 64;
    stream_cipher B; length (fst ps) = HASH_BLOCK_SIZE div 2\<rbrakk> \<Longrightarrow>
   length (rand_stream B c k ps ns) = sum_list ns
   \<and> (\<exists>d' ps' w'. io_fold (rand_chunk B h c k) (d, ps, acc) ns w = (Ret (d', ps', acc @ rand_stream B c k ps ns), w')
        \<and> grown_file h l a dd (rand_stream B c k ps ns) w w')"
proof (induction ns arbitrary: dd d w ps acc)
  case Nil
  then show ?case by (auto simp: ret_app intro: grown_file_refl)
next
  case (Cons n ns)
  let ?ps = "rand_round B c k ps"
  let ?out = "take n (fst ?ps @ snd ?ps)"
  have len: "length (fst ?ps) = HASH_BLOCK_SIZE div 2" "length (snd ?ps) = HASH_BLOCK_SIZE div 2"
    using Cons.prems(4,5) by (simp_all add: rand_round_def Let_def stream_cipher_def)
  then have out: "length ?out = n" using Cons.prems(2) by (auto simp: HASH_BLOCK_SIZE_def min_def)
  then have "?out \<noteq> []" "length (dd @ ?out) < 2 ^ 64" using Cons.prems(2,3) by auto
  with grow_step [OF Cons.prems(1)] out obtain w1 w2 where 1: "fd_writeAllOrExit d ?out w = (Ret (fd_advance n d), w1)"
    "ls_publishDelta h n w1 = (Ret (), w2)" "grown_file h l a dd ?out w w2" "file_open h l a (dd @ ?out) (fd_advance n d) w2"
    by metis
  let ?st = "rand_stream B c k ?ps ns"
  have "\<forall>n \<in> set ns. 0 < n \<and> n \<le> HASH_BLOCK_SIZE" "length (dd @ ?out) + sum_list ns < 2 ^ 64"
    using Cons.prems(2,3) out by auto
  with Cons.IH [OF 1(4) _ _ Cons.prems(4) len(1)] obtain d' ps' w' where 2: "length ?st = sum_list ns"
    "io_fold (rand_chunk B h c k) (fd_advance n d, ?ps, acc @ ?out) ns w2 = (Ret (d', ps', (acc @ ?out) @ ?st), w')"
    "grown_file h l a (dd @ ?out) ?st w2 w'" by meson
  have "rand_chunk B h c k (d, ps, acc) n w = (Ret (fd_advance n d, ?ps, acc @ ?out), w2)"
    using 1(1,2) by (simp add: rand_chunk_def Let_def bnd_app thn_app ret_app)
  then have "io_fold (rand_chunk B h c k) (d, ps, acc) (n # ns) w = (Ret (d', ps', acc @ rand_stream B c k ps (n # ns)), w')"
    using 2(2) by (simp add: bnd_app Let_def)
  with 2(1) out grown_file_trans [OF 1(3) 2(3)] show ?case
    by (intro conjI exI [of _ d'] exI [of _ ps'] exI [of _ w']) (simp_all add: Let_def)
qed

text \<open>
  \<open>createRandomFile\<close> makes a file of exactly \<open>size\<close> bytes whose content is a function of the
  seed, the size and the cipher only (the same seed gives the same file), and the digest it returns is
  the digest of that content under the algorithm that was asked for. The cipher is assumed to be a
  stream cipher.
\<close>

theorem createRandomFile_content:
  assumes "wr h w" "no_faults (wfs w)" "\<forall>c \<in> set l. good_name c" "l \<noteq> []" "dirs_above (root (wfs w)) l"
    "lookup (root (wfs w)) l = None" and "stream_cipher B"
    and "output_hash = [] \<or> 0 \<le> vecIndexOf cli_hashLabels (toUpperCase output_hash)"
  shows "\<exists>samples n. createRandomFile B hex (abs_path l) sz seed output_hash cipher h w
      = (Ret \<lparr>rhash = (if output_hash \<noteq> [] then hex (b_hash B
             (rh_hashLabels ! nat (vecIndexOf cli_hashLabels (toUpperCase output_hash))) (random_content B cipher seed (unat sz)))
           else []), rret = 0\<rparr>,
        emit h (ok_wire @ u64s_wire samples) (w\<lparr>wfs := set_file l (new_attr 420 (wfs w)) (random_content B cipher seed (unat sz)) (wfs w),
         progress := sz, ticks := drop n (ticks w)\<rparr>))
    \<and> length (random_content B cipher seed (unat sz)) = unat sz
    \<and> sorted (map unat samples) \<and> (\<forall>s \<in> set samples. 0 < s \<and> s \<le> sz \<and> s \<noteq> maxuint)"
proof -
  let ?a = "new_attr 420 (wfs w)" and ?d = "\<lparr>fd_path = abs_path l, fd_loc = l, fd_pos = 0\<rparr>"
  let ?w1 = "emit h ok_wire (w\<lparr>wfs := set_file l ?a [] (wfs w), progress := 0\<rparr>)"
  let ?ns = "chunk_sizes (unat sz) HASH_BLOCK_SIZE" and ?half = "HASH_BLOCK_SIZE div 2"
  let ?k = "if cipher = ''AES-128/CTR'' then 16 else 32 :: nat"
  let ?c = "if cipher \<noteq> [] then cipher else if b_hw_aes B then ''AES-256/CTR'' else ''ChaCha''"
  let ?ps = "(rand_init B ?k seed, replicate ?half 0)" and ?content = "random_content B cipher seed (unat sz)"
  have content: "?content = rand_stream B ?c ?k ?ps ?ns"
    unfolding random_content_def Let_def ..
  have "\<forall>n \<in> set ?ns. 0 < n \<and> n \<le> HASH_BLOCK_SIZE"
    by (auto simp: chunk_sizes_def HASH_BLOCK_SIZE_def less_imp_le split: if_splits)
  moreover have "length ([] :: byte list) + sum_list ?ns < 2 ^ 64" using unsigned_less [of sz] by (simp add: sum_chunk_sizes)
  moreover have "length (fst ?ps) = ?half"
    using assms(7) by (simp add: rand_init_def length_overwrite stream_cipher_def HASH_BLOCK_SIZE_def)
  ultimately have 1: "length ?content = unat sz"
    "\<exists>d' ps' w'. io_fold (rand_chunk B h ?c ?k) (?d, ?ps, []) ?ns ?w1 = (Ret (d', ps', ?content), w')
       \<and> grown_file h l ?a [] ?content ?w1 w'"
    using rand_chunks [OF open_new_file(2) [OF assms(1-6)], where ns = ?ns and B = B and ps = ?ps and c = ?c and k = ?k and acc = "[]"] assms(7)
    unfolding content by (simp_all add: sum_chunk_sizes)
  then obtain d' ps' w' samples n where 2: "io_fold (rand_chunk B h ?c ?k) (?d, ?ps, []) ?ns ?w1 = (Ret (d', ps', ?content), w')"
    "w' = emit h (u64s_wire samples) (?w1\<lparr>wfs := set_file l ?a ?content (wfs ?w1), progress := sz, ticks := drop n (ticks w)\<rparr>)"
    "sorted (map unat samples)" "\<forall>s \<in> set samples. 0 < unat s \<and> unat s \<le> unat sz \<and> s \<noteq> maxuint"
    by (auto simp: grown_file_def)
  have "\<not> (output_hash \<noteq> [] \<and> vecIndexOf cli_hashLabels (toUpperCase output_hash) < 0)" using assms(8) by auto
  then have "createRandomFile B hex (abs_path l) sz seed output_hash cipher h w
      = (Ret \<lparr>rhash = (if output_hash \<noteq> [] then hex (b_hash B
             (rh_hashLabels ! nat (vecIndexOf cli_hashLabels (toUpperCase output_hash))) ?content) else []), rret = 0\<rparr>, w')"
    unfolding createRandomFile_def Let_def
    using open_new_file(1) [OF assms(1-6)] assms(1) 2(1)
    by (simp only: if_False bnd_app thn_app send_ok getProgressHook_def modify_app) (simp add: io_eval)
  with 2 1 show ?thesis
    by (intro exI [of _ samples] exI [of _ n]) (simp add: set_file_set_file word_less_nat_alt word_le_nat_alt)
qed

definition xor_botan :: botan where
  "xor_botan = \<lparr>b_hash = (\<lambda>l bs. replicate 32 (of_nat (length bs))), b_cipher = (\<lambda>c k bs. map (\<lambda>b. b XOR 90) bs),
     b_rng = (\<lambda>n. replicate n 7), b_hw_aes = True\<rparr>"

theorem createRandomFile_content_witness:
  "\<exists>samples n. createRandomFile xor_botan (\<lambda>_. ''digest'') ''/rnd'' 5 ''seed'' ''sha256'' [] Cl world0
      = (Ret \<lparr>rhash = ''digest'', rret = 0\<rparr>,
        emit Cl (ok_wire @ u64s_wire samples) (world0\<lparr>wfs := set_file [''rnd''] (new_attr 420 fs0) (random_content xor_botan [] ''seed'' 5) fs0,
         progress := 5, ticks := drop n []\<rparr>))
    \<and> length (random_content xor_botan [] ''seed'' 5) = 5
    \<and> sorted (map unat samples) \<and> (\<forall>s \<in> set samples. 0 < s \<and> s \<le> 5 \<and> s \<noteq> maxuint)"
proof -
  have "dirs_above (root fs0) [''rnd'']" "no_faults fs0" "good_name ''rnd''" "lookup (root fs0) [''rnd''] = None"
    "stream_cipher xor_botan" "vecIndexOf cli_hashLabels (toUpperCase ''sha256'') = 3"
    by (simp_all add: dirs_above_def no_faults_def good_name_def stream_cipher_def xor_botan_def cli_hashLabels_def
        toUpperCase_def char_of_def bit_iff_odd)
  then show ?thesis
    using createRandomFile_content [of Cl world0 "[''rnd'']" xor_botan "''sha256''" "\<lambda>_. ''digest''" 5 "''seed''" "[]"] by simp
qed

end
