(* ===== verification/RH_Unicode.thy ===== *)
theory RH_Unicode
  imports RH_Prelude
begin

section \<open>Wide strings and UTF-8\<close>

text \<open>
  \<open>wchar_to_UTF8\<close> and \<open>UTF8_to_wchar\<close> (path_utils.h), through which every name passes that goes to
  the 7-Zip library or, on Windows, to the system. A wide character is a \<open>u32\<close>; \<open>wide\<close> is
  \<open>sizeof(wchar_t) > 2\<close>. Both stop at the first zero. \<open>codepoint\<close> is not initialised in the decoder:
  its first value is the argument \<open>junk\<close>.
\<close>

unbundle bit_operations_syntax

definition utf8_bytes :: "u32 \<Rightarrow> byte list" where
  "utf8_bytes codepoint =
     (if codepoint \<le> 0x7f then [ucast codepoint]
      else if codepoint \<le> 0x7ff then
        [ucast (0xc0 OR (drop_bit 6 codepoint AND 0x1f)), ucast (0x80 OR (codepoint AND 0x3f))]
      else if codepoint \<le> 0xffff then
        [ucast (0xe0 OR (drop_bit 12 codepoint AND 0x0f)), ucast (0x80 OR (drop_bit 6 codepoint AND 0x3f)),
         ucast (0x80 OR (codepoint AND 0x3f))]
      else
        [ucast (0xf0 OR (drop_bit 18 codepoint AND 0x07)), ucast (0x80 OR (drop_bit 12 codepoint AND 0x3f)),
         ucast (0x80 OR (drop_bit 6 codepoint AND 0x3f)), ucast (0x80 OR (codepoint AND 0x3f))])"

fun w2u_loop :: "u32 \<Rightarrow> u32 list \<Rightarrow> byte list" where
  "w2u_loop codepoint [] = []"
| "w2u_loop codepoint (c # cs) =
     (if c = 0 then []
      else if 0xd800 \<le> c \<and> c \<le> 0xdbff then w2u_loop (push_bit 10 (c - 0xd800) + 0x10000) cs
      else let codepoint' = (if 0xdc00 \<le> c \<and> c \<le> 0xdfff then codepoint OR (c - 0xdc00) else c) in
        utf8_bytes codepoint' @ w2u_loop 0 cs)"

definition wchar_to_UTF8 :: "u32 list \<Rightarrow> byte list" where
  "wchar_to_UTF8 in0 = w2u_loop 0 in0"

definition next_codepoint :: "u32 \<Rightarrow> byte \<Rightarrow> u32" where
  "next_codepoint codepoint ch =
     (if ch \<le> 0x7f then ucast ch
      else if ch \<le> 0xbf then push_bit 6 codepoint OR ucast (ch AND 0x3f)
      else if ch \<le> 0xdf then ucast (ch AND 0x1f)
      else if ch \<le> 0xef then ucast (ch AND 0x0f)
      else ucast (ch AND 0x07))"

definition wide_units :: "bool \<Rightarrow> u32 \<Rightarrow> u32 list" where
  "wide_units wide codepoint =
     (if wide then [codepoint]
      else if 0xffff < codepoint then
        [(0xd800 + drop_bit 10 codepoint) AND 0xffff, (0xdc00 + (codepoint AND 0x03ff)) AND 0xffff]
      else if codepoint < 0xd800 \<or> 0xe000 \<le> codepoint then [codepoint] else [])"

fun u2w_loop :: "bool \<Rightarrow> u32 \<Rightarrow> byte list \<Rightarrow> u32 list" where
  "u2w_loop wide codepoint [] = []"
| "u2w_loop wide codepoint (ch # rest) =
     (if ch = 0 then []
      else let codepoint' = next_codepoint codepoint ch;
               nxt = (case rest of [] \<Rightarrow> 0 | x # _ \<Rightarrow> x) in
        (if nxt AND 0xc0 \<noteq> 0x80 \<and> codepoint' \<le> 0x10ffff then wide_units wide codepoint' else [])
        @ u2w_loop wide codepoint' rest)"

definition UTF8_to_wchar :: "bool \<Rightarrow> u32 \<Rightarrow> byte list \<Rightarrow> u32 list" where
  "UTF8_to_wchar wide junk in0 = u2w_loop wide junk in0"

subsection \<open>Properties\<close>

lemma byte_cases: "n < 8 \<Longrightarrow> n = 0 \<or> n = 1 \<or> n = 2 \<or> n = 3 \<or> n = 4 \<or> n = 5 \<or> n = 6 \<or> n = (7 :: nat)"
  by arith

lemma byte_bits_eq:
  fixes x y :: byte
  assumes "bit x 0 = bit y 0" "bit x 1 = bit y 1" "bit x 2 = bit y 2" "bit x 3 = bit y 3"
    "bit x 4 = bit y 4" "bit x 5 = bit y 5" "bit x 6 = bit y 6" "bit x 7 = bit y 7"
  shows "x = y"
proof (rule bit_word_eqI)
  fix n assume "n < LENGTH(8)"
  then have "n < 8" by simp
  then show "bit x n = bit y n" using byte_cases [of n] assms by auto
qed

lemma cont_AND: "(0x80 OR (y AND 0x3f)) AND 0xc0 = (0x80 :: byte)"
  by (rule byte_bits_eq) (simp_all add: bit_simps)

lemma or_bounds:
  fixes a z m :: byte
  assumes "a AND z = 0" and "z \<le> m" and "unat a + unat m < 256"
  shows "a \<le> a OR z \<and> unat (a OR z) \<le> unat a + unat m"
proof -
  have "a OR z = a + z" using assms(1) by (simp add: disjunctive_add_eq_or)
  moreover have "unat z \<le> unat m" using assms(2) by (simp add: word_le_nat_alt)
  moreover from this have "unat (a + z) = unat a + unat z"
    using assms(3) by (subst unat_add_lem [THEN iffD1]) simp_all
  ultimately show ?thesis by (simp add: word_le_nat_alt)
qed

lemma tag_bounds:
  fixes y :: byte
  assumes "a AND (y AND m) = 0" and "unat a + unat m < 256"
  shows "unat a \<le> unat (a OR (y AND m))" and "unat (a OR (y AND m)) \<le> unat a + unat m"
proof -
  have "y AND m \<le> m" by (rule word_and_le1)
  with or_bounds [OF assms(1)] assms(2) show "unat a \<le> unat (a OR (y AND m))" "unat (a OR (y AND m)) \<le> unat a + unat m"
    by (simp_all add: word_le_nat_alt)
qed

lemma next_lead2: "next_codepoint j (0xc0 OR (y AND 0x1f)) = ucast (y AND 0x1f)"
proof -
  have d: "0xc0 AND (y AND 0x1f) = 0" by (rule byte_bits_eq) (simp_all add: bit_simps)
  have "(0xc0 OR (y AND 0x1f)) AND 0x1f = y AND 0x1f" by (rule byte_bits_eq) (simp_all add: bit_simps)
  with tag_bounds [OF d] show ?thesis by (simp add: next_codepoint_def word_le_nat_alt)
qed

lemma next_lead3: "next_codepoint j (0xe0 OR (y AND 0x0f)) = ucast (y AND 0x0f)"
proof -
  have d: "0xe0 AND (y AND 0x0f) = 0" by (rule byte_bits_eq) (simp_all add: bit_simps)
  have "(0xe0 OR (y AND 0x0f)) AND 0x0f = y AND 0x0f" by (rule byte_bits_eq) (simp_all add: bit_simps)
  with tag_bounds [OF d] show ?thesis by (simp add: next_codepoint_def word_le_nat_alt)
qed

lemma next_lead4: "next_codepoint j (0xf0 OR (y AND 0x07)) = ucast (y AND 0x07)"
proof -
  have d: "0xf0 AND (y AND 0x07) = 0" by (rule byte_bits_eq) (simp_all add: bit_simps)
  have "(0xf0 OR (y AND 0x07)) AND 0x07 = y AND 0x07" by (rule byte_bits_eq) (simp_all add: bit_simps)
  with tag_bounds [OF d] show ?thesis by (simp add: next_codepoint_def word_le_nat_alt)
qed

lemma next_cont: "next_codepoint j (0x80 OR (y AND 0x3f)) = push_bit 6 j OR ucast (y AND 0x3f)"
proof -
  have d: "0x80 AND (y AND 0x3f) = 0" by (rule byte_bits_eq) (simp_all add: bit_simps)
  have "(0x80 OR (y AND 0x3f)) AND 0x3f = y AND 0x3f" by (rule byte_bits_eq) (simp_all add: bit_simps)
  with tag_bounds [OF d] show ?thesis by (simp add: next_codepoint_def word_le_nat_alt)
qed

lemma and_take_bit:
  "(y AND 0x3f) = take_bit 6 (y :: byte)" "(y AND 0x1f) = take_bit 5 (y :: byte)"
  "(y AND 0x0f) = take_bit 4 (y :: byte)" "(y AND 0x07) = take_bit 3 (y :: byte)"
  by (simp_all add: take_bit_eq_mask mask_eq_exp_minus_1)

lemma high_bit_zero:
  fixes cp :: u32
  assumes "unat cp < 2 ^ k" and "bit cp n"
  shows "n < k"
proof (rule ccontr)
  assume "\<not> n < k"
  then have "unat cp < 2 ^ n" using assms(1) less_le_trans power_increasing [of k n "2 :: nat"] by fastforce
  moreover have "bit (unat cp) n" using assms(2) by (simp add: bit_unsigned_iff)
  ultimately show False by (simp add: bit_iff_odd)
qed

lemma join2:
  fixes cp :: u32
  assumes cp: "unat cp < 2 ^ 11"
  shows "push_bit 6 (ucast (take_bit 5 (ucast (drop_bit 6 cp) :: byte))) OR ucast (take_bit 6 (ucast cp :: byte)) = cp"
proof (rule bit_word_eqI)
  fix n
  assume "n < LENGTH(32)"
  have top: "bit cp n \<Longrightarrow> n < 11" using high_bit_zero [OF cp] .
  consider "n < 6" | "6 \<le> n" "n < 12" | "12 \<le> n" "n < 18" | "18 \<le> n" "n < 21" | "21 \<le> n" by linarith
  then show "bit (push_bit 6 (ucast (take_bit 5 (ucast (drop_bit 6 cp) :: byte))) OR ucast (take_bit 6 (ucast cp :: byte)) :: u32) n = bit cp n"
    using top \<open>n < LENGTH(32)\<close> by cases (auto simp: bit_simps)
qed

lemma join3:
  fixes cp :: u32
  assumes cp: "unat cp < 2 ^ 16"
  shows "push_bit 6 (push_bit 6 (ucast (take_bit 4 (ucast (drop_bit 12 cp) :: byte))) OR ucast (take_bit 6 (ucast (drop_bit 6 cp) :: byte)))
    OR ucast (take_bit 6 (ucast cp :: byte)) = cp"
proof (rule bit_word_eqI)
  fix n
  assume "n < LENGTH(32)"
  have top: "bit cp n \<Longrightarrow> n < 16" using high_bit_zero [OF cp] .
  consider "n < 6" | "6 \<le> n" "n < 12" | "12 \<le> n" "n < 18" | "18 \<le> n" "n < 21" | "21 \<le> n" by linarith
  then show "bit (push_bit 6 (push_bit 6 (ucast (take_bit 4 (ucast (drop_bit 12 cp) :: byte))) OR ucast (take_bit 6 (ucast (drop_bit 6 cp) :: byte)))
    OR ucast (take_bit 6 (ucast cp :: byte)) :: u32) n = bit cp n"
    using top \<open>n < LENGTH(32)\<close> by cases (auto simp: bit_simps)
qed

lemma join4:
  fixes cp :: u32
  assumes cp: "unat cp < 2 ^ 21"
  shows "push_bit 6 (push_bit 6 (push_bit 6 (ucast (take_bit 3 (ucast (drop_bit 18 cp) :: byte)))
      OR ucast (take_bit 6 (ucast (drop_bit 12 cp) :: byte))) OR ucast (take_bit 6 (ucast (drop_bit 6 cp) :: byte)))
    OR ucast (take_bit 6 (ucast cp :: byte)) = cp"
proof (rule bit_word_eqI)
  fix n
  assume "n < LENGTH(32)"
  have top: "bit cp n \<Longrightarrow> n < 21" using high_bit_zero [OF cp] .
  consider "n < 6" | "6 \<le> n" "n < 12" | "12 \<le> n" "n < 18" | "18 \<le> n" "n < 21" | "21 \<le> n" by linarith
  then show "bit (push_bit 6 (push_bit 6 (push_bit 6 (ucast (take_bit 3 (ucast (drop_bit 18 cp) :: byte)))
      OR ucast (take_bit 6 (ucast (drop_bit 12 cp) :: byte))) OR ucast (take_bit 6 (ucast (drop_bit 6 cp) :: byte)))
    OR ucast (take_bit 6 (ucast cp :: byte)) :: u32) n = bit cp n"
    using top \<open>n < LENGTH(32)\<close> by cases (auto simp: bit_simps)
qed

lemma utf8_split:
  "utf8_bytes cp = (if cp \<le> 0x7f then [ucast cp]
      else if cp \<le> 0x7ff then [0xc0 OR (ucast (drop_bit 6 cp) AND 0x1f), 0x80 OR (ucast cp AND 0x3f)]
      else if cp \<le> 0xffff then [0xe0 OR (ucast (drop_bit 12 cp) AND 0x0f), 0x80 OR (ucast (drop_bit 6 cp) AND 0x3f),
        0x80 OR (ucast cp AND 0x3f)]
      else [0xf0 OR (ucast (drop_bit 18 cp) AND 0x07), 0x80 OR (ucast (drop_bit 12 cp) AND 0x3f),
        0x80 OR (ucast (drop_bit 6 cp) AND 0x3f), 0x80 OR (ucast cp AND 0x3f)])"
proof -
  have "(ucast (a OR (x AND b)) :: byte) = ucast a OR (ucast x AND ucast b)" for a b x :: u32
    by (rule bit_word_eqI) (auto simp: bit_simps)
  then show ?thesis by (simp add: utf8_bytes_def)
qed

definition char_start :: "byte list \<Rightarrow> bool" where
  "char_start bs \<longleftrightarrow> (case bs of [] \<Rightarrow> True | x # _ \<Rightarrow> x AND 0xc0 \<noteq> 0x80)"

lemma tagged_nonzero: "a \<noteq> 0 \<Longrightarrow> a OR y \<noteq> (0 :: byte)"
  by (metis or_eq_0_iff)

lemma cont_step: "u2w_loop wide j (a # (0x80 OR (y AND 0x3f)) # rest)
    = (if a = 0 then [] else u2w_loop wide (next_codepoint j a) ((0x80 OR (y AND 0x3f)) # rest))"
  by (simp add: cont_AND Let_def del: u2w_loop.simps(2)) (simp add: cont_AND Let_def)

lemma last_step: "\<lbrakk>a \<noteq> 0; char_start rest; next_codepoint j a = cp; cp \<le> 0x10ffff\<rbrakk> \<Longrightarrow>
    u2w_loop wide j (a # rest) = wide_units wide cp @ u2w_loop wide cp rest"
  by (auto simp: char_start_def Let_def split: list.splits)

lemma ascii_byte:
  fixes cp :: u32
  assumes "cp \<le> 0x7f"
  shows "unat (ucast cp :: byte) = unat cp" "ucast (ucast cp :: byte) = cp"
proof -
  have "unat cp < 2 ^ 7" using assms by (simp add: word_le_nat_alt)
  then show "unat (ucast cp :: byte) = unat cp" by (simp add: unsigned_ucast_eq take_bit_nat_eq_self)
  have "bit cp n \<Longrightarrow> n < 8" for n using high_bit_zero [OF \<open>unat cp < 2 ^ 7\<close>, of n] by simp
  then show "ucast (ucast cp :: byte) = cp" by (intro bit_word_eqI) (auto simp: bit_simps)
qed

lemma decode_char:
  assumes "cp \<noteq> 0" "cp \<le> 0x10ffff" "char_start rest"
  shows "u2w_loop wide j (utf8_bytes cp @ rest) = wide_units wide cp @ u2w_loop wide cp rest"
proof -
  consider "cp \<le> 0x7f" | "\<not> cp \<le> 0x7f" "cp \<le> 0x7ff" | "\<not> cp \<le> 0x7f" "\<not> cp \<le> 0x7ff" "cp \<le> 0xffff"
    | "\<not> cp \<le> 0x7f" "\<not> cp \<le> 0x7ff" "\<not> cp \<le> 0xffff" by blast
  then show ?thesis
  proof cases
    case 1
    have "ucast cp \<noteq> (0 :: byte)" "(ucast cp :: byte) \<le> 0x7f"
      using ascii_byte [OF 1] assms(1) 1 by (auto simp: word_le_nat_alt unat_eq_zero)
    then show ?thesis
      using 1 assms ascii_byte(2) [OF 1] by (simp add: utf8_split last_step next_codepoint_def del: u2w_loop.simps(2))
  next
    case 2
    then have "unat cp < 2 ^ 11" by (simp add: word_le_nat_alt)
    from join2 [OF this, folded and_take_bit] 2 assms show ?thesis
      by (simp add: utf8_split cont_step tagged_nonzero next_lead2 next_cont last_step del: u2w_loop.simps(2))
  next
    case 3
    then have "unat cp < 2 ^ 16" by (simp add: word_le_nat_alt)
    from join3 [OF this, folded and_take_bit] 3 assms show ?thesis
      by (simp add: utf8_split cont_step tagged_nonzero next_lead3 next_cont last_step del: u2w_loop.simps(2))
  next
    case 4
    have "unat cp < 2 ^ 21" using assms(2) by (simp add: word_le_nat_alt)
    from join4 [OF this, folded and_take_bit] 4 assms show ?thesis
      by (simp add: utf8_split cont_step tagged_nonzero next_lead4 next_cont last_step del: u2w_loop.simps(2))
  qed
qed

lemma char_start_utf8: "char_start (utf8_bytes cp @ rest)"
proof (cases "cp \<le> 0x7f")
  case True
  have "(ucast cp :: byte) AND 0xc0 \<noteq> 0x80"
  proof
    assume "(ucast cp :: byte) AND 0xc0 = 0x80"
    then have "bit ((ucast cp :: byte) AND 0xc0) 7" by simp
    then have "bit (unat (ucast cp :: byte)) 7" by (simp add: bit_simps)
    moreover have "unat (ucast cp :: byte) < 2 ^ 7" using ascii_byte(1) [OF True] True by (simp add: word_le_nat_alt)
    ultimately show False by (simp add: bit_iff_odd)
  qed
  then show ?thesis using True by (simp add: char_start_def utf8_split)
next
  case False
  have "(0xc0 OR x AND 0x1f) AND 0xc0 = (0xc0 :: byte)" "(0xe0 OR x AND 0x0f) AND 0xc0 = (0xc0 :: byte)"
    "(0xf0 OR x AND 0x07) AND 0xc0 = (0xc0 :: byte)" for x
    by ((rule byte_bits_eq, simp_all add: bit_simps)[1])+
  with False show ?thesis by (simp add: char_start_def utf8_split)
qed

definition scalar :: "u32 \<Rightarrow> bool" where
  "scalar c \<longleftrightarrow> c \<noteq> 0 \<and> c \<le> 0x10ffff \<and> \<not> (0xd800 \<le> c \<and> c \<le> 0xdfff)"

lemma scalar_step: "scalar c \<Longrightarrow> w2u_loop 0 (c # cs) = utf8_bytes c @ w2u_loop 0 cs"
  by (auto simp: scalar_def word_le_nat_alt Let_def)

lemma char_start_w2u: "\<forall>c \<in> set cs. scalar c \<Longrightarrow> char_start (w2u_loop 0 cs)"
  by (cases cs) (simp_all add: scalar_step char_start_utf8 del: w2u_loop.simps(2), simp add: char_start_def)

lemma decode_encode: "\<forall>c \<in> set cs. scalar c \<Longrightarrow>
    u2w_loop wide j (w2u_loop 0 cs) = concat (map (wide_units wide) cs)"
proof (induction cs arbitrary: j)
  case Nil
  then show ?case by simp
next
  case (Cons c cs)
  then have "u2w_loop wide j (utf8_bytes c @ w2u_loop 0 cs) = wide_units wide c @ u2w_loop wide c (w2u_loop 0 cs)"
    by (intro decode_char char_start_w2u) (auto simp: scalar_def)
  with Cons show ?case by (simp add: scalar_step del: w2u_loop.simps(2))
qed

text \<open>
  C25: where wide characters have 32 bits, every name made of Unicode scalar values other than zero
  comes back unchanged from its UTF-8 form, whatever the uninitialised \<open>codepoint\<close> was.
\<close>

theorem utf8_roundtrip:
  "\<forall>c \<in> set ws. scalar c \<Longrightarrow> UTF8_to_wchar True junk (wchar_to_UTF8 ws) = ws"
proof -
  have "concat (map (wide_units True) ws) = ws" by (induction ws) (simp_all add: wide_units_def)
  then show "\<forall>c \<in> set ws. scalar c \<Longrightarrow> UTF8_to_wchar True junk (wchar_to_UTF8 ws) = ws"
    by (simp add: UTF8_to_wchar_def wchar_to_UTF8_def decode_encode)
qed

theorem utf8_roundtrip_witness:
  "UTF8_to_wchar True 0 (wchar_to_UTF8 [0x41, 0xe8, 0x20ac, 0x1f600]) = [0x41, 0xe8, 0x20ac, 0x1f600]"
  by (rule utf8_roundtrip) (simp add: scalar_def)

text \<open>
  Where wide characters have 16 bits, every character beyond the basic plane is decoded to a
  wrong pair: the high surrogate is computed without subtracting \<open>0x10000\<close>, so that it is \<open>0x40\<close> too
  large, and the pair, encoded again, is another character or not one at all.
\<close>

theorem utf8_surrogate_pair_wrong:
  assumes "0xffff < cp" and "cp \<le> 0x10ffff"
  shows "UTF8_to_wchar False junk (utf8_bytes cp)
      = [0xd800 + drop_bit 10 (cp - 0x10000) + 0x40, 0xdc00 + (cp AND 0x3ff)]"
proof -
  have u: "65536 \<le> unat cp" "unat cp \<le> 1114111" using assms by (simp_all add: word_le_nat_alt word_less_nat_alt)
  have sub: "unat (cp - 0x10000) = unat cp - 65536" using u(1) by (simp add: unat_sub word_le_nat_alt)
  have "unat (drop_bit 10 (cp - 0x10000) + 0x40) = unat (drop_bit 10 cp)"
  proof -
    have "unat (drop_bit 10 (cp - 0x10000)) = unat cp div 1024 - 64" "unat (drop_bit 10 cp) = unat cp div 1024"
      using u(1) by (simp_all add: drop_bit_eq_div unat_div_distrib sub)
    then show ?thesis using u by (simp add: unat_word_ariths)
  qed
  then have hi: "drop_bit 10 (cp - 0x10000) + 0x40 = drop_bit 10 cp" by (simp only: unsigned_word_eqI)
  have mask: "x AND 0xffff = x" if "unat x < 2 ^ 16" for x :: u32
  proof -
    have "x AND 0xffff = take_bit 16 x" by (simp add: take_bit_eq_mask mask_eq_exp_minus_1)
    also have "\<dots> = x" using high_bit_zero [OF that] by (intro bit_word_eqI) (auto simp: bit_simps)
    finally show ?thesis .
  qed
  have "unat (drop_bit 10 cp) = unat cp div 1024" by (simp add: drop_bit_eq_div unat_div_distrib)
  then have "(0xd800 + drop_bit 10 cp) AND 0xffff = 0xd800 + drop_bit 10 cp"
    using u by (intro mask) (simp add: unat_word_ariths)
  moreover have "unat (cp AND 0x3ff) \<le> 0x3ff" using word_and_le1 [of cp "0x3ff"] by (simp add: word_le_nat_alt)
  then have "(0xdc00 + (cp AND 0x3ff)) AND 0xffff = 0xdc00 + (cp AND 0x3ff)"
    by (intro mask) (simp add: unat_word_ariths)
  moreover have "u2w_loop False junk (utf8_bytes cp @ []) = wide_units False cp @ u2w_loop False cp []"
    using assms by (intro decode_char) (auto simp: char_start_def)
  ultimately show ?thesis
    using assms hi by (simp add: UTF8_to_wchar_def wide_units_def add.assoc)
qed

theorem utf8_surrogate_pair_wrong_witness:
  "UTF8_to_wchar False 0 (utf8_bytes 0x1f600) = [0xd87d, 0xde00] \<and> wchar_to_UTF8 [0xd83d, 0xde00] = utf8_bytes 0x1f600"
  using utf8_surrogate_pair_wrong [of "0x1f600" 0]
  by (simp add: wchar_to_UTF8_def drop_bit_eq_div Let_def push_bit_eq_mult)

end
