(* ===== verification/RH_Http.thy ===== *)
theory RH_Http
  imports RH_Create
begin

section \<open>The HTTPS client\<close>

text \<open>
  tls/basic_https_client.h: URLs, response headers, file names, downloads and uploads, and the
  redirect loop of r.cpp. The network is a parameter: \<open>connect\<close> gives for a host and a port the
  connection that is made (\<open>None\<close>: it failed): the hash of the TLS session (\<open>[]\<close>: the handshake failed),
  the chunks that the successive calls of \<open>read\<close> return, and whether the connection ends regularly
  (\<open>read\<close> returns 0) or is reset. What is written to the server goes to \<open>Rcl\<close>.
\<close>

subsection \<open>Numbers and case, as the C library reads them\<close>

definition c_isspace :: "char \<Rightarrow> bool" where
  "c_isspace c \<longleftrightarrow> c \<in> {CHR '' '', CHR 0x09, CHR 0x0A, CHR 0x0B, CHR 0x0C, CHR 0x0D}"

definition c_isdigit :: "char \<Rightarrow> bool" where
  "c_isdigit c \<longleftrightarrow> 48 \<le> (of_char c :: nat) \<and> (of_char c :: nat) \<le> 57"

definition c_isalnum :: "char \<Rightarrow> bool" where
  "c_isalnum c \<longleftrightarrow> c_isdigit c \<or> 65 \<le> (of_char c :: nat) \<and> (of_char c :: nat) \<le> 90
     \<or> 97 \<le> (of_char c :: nat) \<and> (of_char c :: nat) \<le> 122"

definition digits_val :: "string \<Rightarrow> int" where
  "digits_val ds = foldl (\<lambda>a c. 10 * a + (of_char c - 48)) 0 ds"

text \<open>Blanks, a sign, the longest run of digits: the number, \<open>None\<close> without a digit.\<close>

definition dec_prefix :: "string \<Rightarrow> int option" where
  "dec_prefix s =
     (let s1 = dropWhile c_isspace s;
          neg = (s1 \<noteq> [] \<and> hd s1 = CHR ''-'');
          s2 = (if s1 \<noteq> [] \<and> (hd s1 = CHR ''-'' \<or> hd s1 = CHR ''+'') then tl s1 else s1);
          ds = takeWhile c_isdigit s2 in
      if ds = [] then None else Some (if neg then - digits_val ds else digits_val ds))"

definition clamp64 :: "int \<Rightarrow> int" where
  "clamp64 v = (if v < - (2 ^ 63) then - (2 ^ 63) else if 2 ^ 63 - 1 < v then 2 ^ 63 - 1 else v)"

definition strtol :: "string \<Rightarrow> int" where
  "strtol s = (case dec_prefix s of None \<Rightarrow> 0 | Some v \<Rightarrow> clamp64 v)"

text \<open>\<open>std::stoi\<close>; \<open>None\<close>: it throws.\<close>

definition stoi :: "string \<Rightarrow> int option" where
  "stoi s = (case dec_prefix s of None \<Rightarrow> None
     | Some v \<Rightarrow> if - (2 ^ 31) \<le> v \<and> v < 2 ^ 31 then Some v else None)"

definition findStringIC :: "string \<Rightarrow> string \<Rightarrow> nat option" where
  "findStringIC haystack needle =
     (case find_str (toUpperCase haystack) (toUpperCase needle) of
        None \<Rightarrow> None | Some i \<Rightarrow> if i = length haystack then None else Some i)"

subsection \<open>URLs\<close>

record httpUrlInfo =
  isHttps :: bool
  domainOnly :: string
  port :: int
  queryString :: string

text \<open>\<open>Inl (Some r)\<close>: the code returned; \<open>Inl None\<close>: an exception.\<close>

definition getHttpInfo :: "string \<Rightarrow> bool \<Rightarrow> int option + httpUrlInfo" where
  "getHttpInfo url0 allowPlainHttp =
     (let plain = (find_str url0 ''http://'' = Some 0) in
      if plain \<and> \<not> allowPlainHttp then Inl (Some (- 1))
      else let url = (if plain then drop 7 url0 else if find_str url0 ''https://'' = Some 0 then drop 8 url0 else url0);
               idx = find_str url ''/'';
               domain = (case idx of None \<Rightarrow> url | Some i \<Rightarrow> take i url);
               query = (case idx of None \<Rightarrow> [] | Some i \<Rightarrow> drop i url) in
        case find_str domain '':'' of
          None \<Rightarrow> Inr \<lparr>isHttps = \<not> plain, domainOnly = domain, port = (if plain then 80 else 443), queryString = query\<rparr>
        | Some i \<Rightarrow>
            (case stoi (drop (i + 1) domain) of
               None \<Rightarrow> Inl None
             | Some p \<Rightarrow> Inr \<lparr>isHttps = \<not> plain, domainOnly = take i domain, port = p, queryString = query\<rparr>))"

text \<open>Percent encoding. \<open>char_signed\<close>: whether \<open>char\<close> is a signed type, as on x86.\<close>

definition hex_digit :: "nat \<Rightarrow> char" where
  "hex_digit n = char_of (if n < 10 then 48 + n else 55 + n)"

fun hex_upper :: "nat \<Rightarrow> string" where
  "hex_upper n = (if n < 16 then [hex_digit n] else hex_upper (n div 16) @ [hex_digit (n mod 16)])"

definition urlEncode_char :: "bool \<Rightarrow> char \<Rightarrow> string" where
  "urlEncode_char char_signed c =
     (if c_isalnum c \<or> c \<in> {CHR ''-'', CHR ''_'', CHR ''.'', CHR ''~''} then [c]
      else let n = of_char c :: nat; ic = (if char_signed \<and> 128 \<le> n then int n - 256 else int n) in
        (if ic < 16 then ''%0'' else ''%'') @ hex_upper (nat (ic mod 2 ^ 32)))"

definition urlEncode :: "bool \<Rightarrow> string \<Rightarrow> string" where
  "urlEncode char_signed str = concat (map (urlEncode_char char_signed) (takeWhile (\<lambda>c. c \<noteq> CHR 0x00) str))"

definition hex_value :: "char \<Rightarrow> nat option" where
  "hex_value c = (let n = of_char c :: nat in
     if 48 \<le> n \<and> n \<le> 57 then Some (n - 48) else if 65 \<le> n \<and> n \<le> 70 then Some (n - 55)
     else if 97 \<le> n \<and> n \<le> 102 then Some (n - 87) else None)"

text \<open>\<open>sscanf(s, "%x", &ii)\<close>; \<open>None\<close>: \<open>ii\<close> keeps its value. A prefix \<open>0x\<close> needs more than two characters.\<close>

definition scan_hex :: "string \<Rightarrow> int option" where
  "scan_hex s =
     (let s1 = dropWhile c_isspace s;
          neg = (s1 \<noteq> [] \<and> hd s1 = CHR ''-'');
          s2 = (if s1 \<noteq> [] \<and> (hd s1 = CHR ''-'' \<or> hd s1 = CHR ''+'') then tl s1 else s1);
          ds = takeWhile (\<lambda>c. hex_value c \<noteq> None) s2;
          v = foldl (\<lambda>a c. 16 * a + int (the (hex_value c))) 0 ds in
      if ds = [] \<or> (s2 = ''0x'' \<or> s2 = ''0X'') then None else Some (if neg then - v else v))"

text \<open>The first value of \<open>ii\<close> is not initialised: \<open>junk\<close>.\<close>

function urlDecode :: "int \<Rightarrow> string \<Rightarrow> string" where
  "urlDecode junk [] = []"
| "urlDecode junk (c # s) =
     (if c \<noteq> CHR ''%'' then (if c = CHR ''+'' then CHR '' '' else c) # urlDecode junk s
      else let ii = (case scan_hex (take 2 s) of None \<Rightarrow> junk | Some v \<Rightarrow> v) in
        char_of (nat (ii mod 256)) # urlDecode ii (drop 2 s))"
  by pat_completeness auto
termination by (relation "measure (length \<circ> snd)") (auto simp: less_Suc_eq_le)

subsection \<open>Response headers\<close>

definition CRLF :: string where "CRLF = [CHR 0x0D, CHR 0x0A]"

text \<open>\<open>parseResponseCode\<close>; \<open>None\<close>: an exception.\<close>

definition parseResponseCode :: "string \<Rightarrow> int option" where
  "parseResponseCode hdrs =
     (case find_str hdrs CRLF of None \<Rightarrow> None | Some e \<Rightarrow>
        let firstLine = take e hdrs in
        case find_str firstLine '' '' of None \<Rightarrow> None | Some i \<Rightarrow>
          let rest = drop (i + 1) firstLine in
          case find_str rest '' '' of None \<Rightarrow> None | Some j \<Rightarrow>
            Some (sint (word_of_int (strtol (take j rest)) :: 32 word)))"

definition parseContentLength :: "string \<Rightarrow> u64 option" where
  "parseContentLength hdrs =
     (case findStringIC hdrs ''Content-Length: '' of
        None \<Rightarrow> Some maxuint
      | Some i \<Rightarrow>
          let after = drop (i + length ''Content-Length: '') hdrs in
          case find_str after [CHR 0x0D] of None \<Rightarrow> None
          | Some j \<Rightarrow> Some (word_of_int (strtol (take j after))))"

definition getRedirectLocation :: "string \<Rightarrow> string option" where
  "getRedirectLocation hdrs =
     (case findStringIC hdrs (CHR 0x0A # ''Location: '') of None \<Rightarrow> None
      | Some i \<Rightarrow> let tag = drop (i + length (CHR 0x0A # ''Location: '')) hdrs in
          map_option (\<lambda>j. take j tag) (find_str tag CRLF))"

subsection \<open>Names of downloaded files\<close>

text \<open>
  The regular expression of \<open>parseContentDispLine\<close> at one position: after the literal text, which is
  matched with its case, every part can match the empty string, so that the greedy choice is the
  only one tried.
\<close>

definition is_quote :: "char \<Rightarrow> bool" where
  "is_quote c \<longleftrightarrow> c = CHR 0x27 \<or> c = CHR 0x22"

definition match_disp :: "string \<Rightarrow> string option" where
  "match_disp s =
     (let lit = ''Content-Disposition: attachment; filename'' in
      if \<not> starts_with s lit then None
      else let s1 = drop (length lit) s;
               s2 = (if s1 \<noteq> [] \<and> hd s1 = CHR ''*'' then tl s1 else s1) in
        if s2 = [] \<or> hd s2 \<noteq> CHR ''='' then None
        else let s3 = tl s2;
                 s4 = (if s3 \<noteq> [] \<and> is_quote (hd s3) then tl s3 else s3);
                 s5 = (if starts_with s4 ''UTF-'' \<and> 5 \<le> length s4 \<and> c_isdigit (s4 ! 4)
                       then dropWhile is_quote (drop 5 s4) else s4) in
          Some (takeWhile (\<lambda>c. \<not> (c = CHR '';'' \<or> c = CHR 0x0D \<or> c = CHR 0x0A \<or> is_quote c)) s5))"

fun parseContentDispLine :: "string \<Rightarrow> string" where
  "parseContentDispLine [] = []"
| "parseContentDispLine (c # s) = (case match_disp (c # s) of Some r \<Rightarrow> r | None \<Rightarrow> parseContentDispLine s)"

definition rtrim :: "string \<Rightarrow> string" where
  "rtrim s = rev (dropWhile (\<lambda>c. c = CHR '' '' \<or> c = CHR 0x0D \<or> c = CHR 0x0A \<or> c = CHR 0x09) (rev s))"

definition sanitize :: "string \<Rightarrow> string" where
  "sanitize s = map (\<lambda>c. if c = CHR ''/'' then CHR ''_'' else c) s"

text \<open>\<open>std::getline\<close> until the stream ends.\<close>

lemma line_rest_less: "s \<noteq> [] \<Longrightarrow> length (drop 1 (dropWhile P s)) < length s"
proof -
  assume "s \<noteq> []"
  then have "0 < length s" by simp
  moreover have "length (dropWhile P s) \<le> length s" by (rule length_dropWhile_le)
  ultimately show ?thesis unfolding length_drop by linarith
qed

function getlines :: "string \<Rightarrow> string list" where
  "getlines s = (if s = [] then []
     else takeWhile (\<lambda>c. c \<noteq> CHR 0x0A) s # getlines (drop 1 (dropWhile (\<lambda>c. c \<noteq> CHR 0x0A) s)))"
  by pat_completeness auto
termination by (relation "measure length") (simp_all only: in_measure wf_measure line_rest_less not_False_eq_True)

declare getlines.simps [simp del]

text \<open>The name from the URL, \<open>nocd\<close>: the last segment, decoded, without a query; else from the host.\<close>

definition name_from_url :: "int \<Rightarrow> string \<Rightarrow> string" where
  "name_from_url junk url =
     (let y = (case find_last CHR ''/'' url of
          None \<Rightarrow> []
        | Some i \<Rightarrow> let x = drop (i + 1) url in
            if x = [] then []
            else let y = urlDecode junk x in
              sanitize (case find_str y ''?'' of None \<Rightarrow> y | Some j \<Rightarrow> take j y)) in
      if y \<noteq> [] then y
      else case find_str url ''/'' of
          Some i \<Rightarrow> if i \<noteq> 0 then take i url @ ''.html'' else ''file.bin''
        | None \<Rightarrow> ''file.bin'')"

definition getHttpFilename :: "int \<Rightarrow> string \<Rightarrow> string \<Rightarrow> string" where
  "getHttpFilename junk hdrs url =
     (case find (\<lambda>line. findStringIC line ''Content-Disposition: '' = Some 0) (getlines hdrs) of
        None \<Rightarrow> name_from_url junk url
      | Some line \<Rightarrow>
          let z = parseContentDispLine line in
          if z \<noteq> [] then rtrim (sanitize z)
          else case find_str line ''='' of
            None \<Rightarrow> name_from_url junk url
          | Some i \<Rightarrow> rtrim (sanitize (drop (i + 1) line)))"

lemma slash_sanitize [simp]: "CHR ''/'' \<notin> set (sanitize s)"
  by (auto simp: sanitize_def)

lemma set_rtrim: "set (rtrim s) \<subseteq> set s"
  by (auto simp: rtrim_def dest: set_dropWhileD)

lemma find_str_char: "find_str s [c] = Some i \<Longrightarrow> c \<notin> set (take i s)"
  by (induction s arbitrary: i) (auto simp: starts_with_def split: if_splits)

text \<open>
  Whatever the server answers and whatever the URL is, the name under which a download is
  stored contains no separator: the file is made in the directory that the user chose.
\<close>

theorem http_filename_no_slash: "CHR ''/'' \<notin> set (getHttpFilename junk hdrs url)"
proof -
  have "CHR ''/'' \<notin> set (name_from_url junk url)"
    by (auto simp: name_from_url_def Let_def dest: find_str_char split: option.splits)
  moreover have "CHR ''/'' \<notin> set (rtrim (sanitize s))" for s
    using set_rtrim [of "sanitize s"] by auto
  ultimately show ?thesis
    by (auto simp: getHttpFilename_def Let_def split: option.splits)
qed

lemma hex_value_digit: "n < 16 \<Longrightarrow> hex_value (hex_digit n) = Some n"
  by (auto simp: hex_value_def hex_digit_def Let_def)

lemma hex_digit_plain: "n < 16 \<Longrightarrow> \<not> c_isspace (hex_digit n) \<and> hex_digit n \<notin> {CHR ''-'', CHR ''+'', CHR ''x'', CHR ''X''}"
proof -
  assume "n < 16"
  then have "hex_value (hex_digit n) = Some n" by (rule hex_value_digit)
  moreover have "hex_value c = None" if "c_isspace c \<or> c \<in> {CHR ''-'', CHR ''+'', CHR ''x'', CHR ''X''}" for c
    using that by (auto simp: c_isspace_def hex_value_def)
  ultimately show ?thesis by fastforce
qed

lemma scan_hex_two: "\<lbrakk>a < 16; b < 16\<rbrakk> \<Longrightarrow> scan_hex [hex_digit a, hex_digit b] = Some (16 * int a + int b)"
  using hex_digit_plain [of a] hex_digit_plain [of b]
  by (auto simp: scan_hex_def Let_def hex_value_digit)

lemma char_codes: "char_of (48 :: nat) = CHR ''0''" "char_of (56 :: nat) = CHR ''8''" "char_of (69 :: nat) = CHR ''E''"
  "char_of (70 :: nat) = CHR ''F''"
  by (simp_all add: char_of_def bit_iff_odd)

lemma nat_mod_small: "n < 128 \<Longrightarrow> nat (int n mod 2 ^ 32) = n"
  by simp

lemma nat_mod_byte: "n < 128 \<Longrightarrow> nat (int n mod 256) = n"
  by simp

lemma int_digits: "16 * int (n div 16) + int (n mod 16) = int n"
  by presburger

lemma urlEncode_ascii:
  assumes "(of_char c :: nat) < 128"
  shows "urlEncode_char b c = (if c_isalnum c \<or> c \<in> {CHR ''-'', CHR ''_'', CHR ''.'', CHR ''~''} then [c]
     else [CHR ''%'', hex_digit (of_char c div 16), hex_digit (of_char c mod 16)])"
proof -
  let ?n = "of_char c :: nat"
  have div16: "?n div 16 < 16" using assms by linarith
  have "nat (int ?n mod 2 ^ 32) = ?n" using assms by (rule nat_mod_small)
  moreover have "hex_upper ?n = (if ?n < 16 then [hex_digit ?n] else [hex_digit (?n div 16), hex_digit (?n mod 16)])"
    using assms div16 by (subst hex_upper.simps, subst hex_upper.simps) simp
  ultimately show ?thesis
    using assms by (auto simp: urlEncode_char_def Let_def hex_digit_def char_codes simp del: hex_upper.simps)
qed

lemma urlDecode_encode_char:
  assumes "(of_char c :: nat) < 128"
  shows "\<exists>j. urlDecode junk (urlEncode_char b c @ s) = c # urlDecode j s"
proof (cases "c_isalnum c \<or> c \<in> {CHR ''-'', CHR ''_'', CHR ''.'', CHR ''~''}")
  case True
  then have "c \<noteq> CHR ''%''" "c \<noteq> CHR ''+''" by (auto simp: c_isalnum_def c_isdigit_def)
  with True show ?thesis using assms by (auto simp: urlEncode_ascii)
next
  case False
  let ?n = "of_char c :: nat"
  have "?n div 16 < 16" "?n mod 16 < 16" using assms by (linarith, simp)
  then have "scan_hex [hex_digit (?n div 16), hex_digit (?n mod 16)] = Some (int ?n)"
    using scan_hex_two [of "?n div 16" "?n mod 16"] int_digits [of ?n] by simp
  moreover have "char_of (nat (int ?n mod 256)) = c" using nat_mod_byte [OF assms] by simp
  ultimately show ?thesis using False assms by (auto simp: urlEncode_ascii)
qed

text \<open>
  Percent decoding undoes percent encoding on ASCII text; but where \<open>char\<close> is signed a byte
  above 127 is encoded as \<open>%0FFFFFF..\<close>, with eight digits, and is not decoded to itself.
\<close>

theorem url_encoding_roundtrip:
  "((\<forall>c \<in> set s. c \<noteq> CHR 0x00 \<and> (of_char c :: nat) < 128) \<longrightarrow> urlDecode junk (urlEncode b s) = s)
   \<and> urlEncode True [CHR 0xE8] = ''%0FFFFFFE8''"
proof
  show "(\<forall>c \<in> set s. c \<noteq> CHR 0x00 \<and> (of_char c :: nat) < 128) \<longrightarrow> urlDecode junk (urlEncode b s) = s"
  proof (induction s arbitrary: junk)
    case Nil
    then show ?case by (simp add: urlEncode_def)
  next
    case (Cons c s)
    show ?case
    proof
      assume ascii: "\<forall>c \<in> set (c # s). c \<noteq> CHR 0x00 \<and> (of_char c :: nat) < 128"
      then have "urlEncode b (c # s) = urlEncode_char b c @ urlEncode b s" by (simp add: urlEncode_def)
      moreover obtain j where "urlDecode junk (urlEncode_char b c @ urlEncode b s) = c # urlDecode j (urlEncode b s)"
        using urlDecode_encode_char ascii by fastforce
      ultimately show "urlDecode junk (urlEncode b (c # s)) = c # s" using Cons.IH ascii by simp
    qed
  qed
  show "urlEncode True [CHR 0xE8] = ''%0FFFFFFE8''"
    by (simp add: urlEncode_def urlEncode_char_def c_isalnum_def c_isdigit_def hex_digit_def char_codes)
qed

subsection \<open>Receiving a response\<close>

record http_conn =
  h_hash :: "byte list"
  h_chunks :: "byte list list"
  h_clean :: bool

type_synonym network = "string \<Rightarrow> int \<Rightarrow> http_conn option"

text \<open>
  The loop that reads until the end of the headers: the headers, the part of the body that came with
  them, the chunks not read yet. An empty chunk is the end of the stream.
\<close>

datatype head = Head string "byte list" "byte list list" | HeadEof | HeadTooLarge

fun read_head :: "byte list \<Rightarrow> byte list list \<Rightarrow> head" where
  "read_head bb [] = HeadEof"
| "read_head bb (buffer # chunks) =
     (if buffer = [] then HeadEof
      else let bb' = bb @ buffer in
        if 1048576 < length bb' then HeadTooLarge
        else case find_str (b2s bb') (CRLF @ CRLF) of
          Some i \<Rightarrow> Head (b2s (take (i + 4) bb')) (drop (i + 4) bb') chunks
        | None \<Rightarrow> read_head bb' chunks)"

record dl_state =
  dl_fd :: "fd option"
  dl_current :: u64
  dl_last :: u64

text \<open>The loop over the rest of the body. \<open>local\<close> is the socket of the user interface.\<close>

definition body_chunk :: "handle \<Rightarrow> bool \<Rightarrow> dl_state \<Rightarrow> byte list \<Rightarrow> dl_state io" where
  "body_chunk local downloadToFile s buf =
     (let current = dl_current s + of_nat (length buf) in
      bnd (case dl_fd s of
             Some d \<Rightarrow> bnd (fd_writeAllOrExit d buf) (\<lambda>d'. ret (Some d'))
           | None \<Rightarrow> thn (writeAllOrExit local buf) (ret None)) (\<lambda>fd'.
      if 1000000 < current - dl_last s then
        thn (modify (progress_update (\<lambda>_. current)))
       (thn (if downloadToFile then writeAllOrExit local (le_bytes 8 current) else ret ())
            (ret \<lparr>dl_fd = fd', dl_current = current, dl_last = current\<rparr>))
      else ret \<lparr>dl_fd = fd', dl_current = current, dl_last = dl_last s\<rparr>))"

definition body_loop :: "handle \<Rightarrow> bool \<Rightarrow> dl_state \<Rightarrow> byte list list \<Rightarrow> dl_state io" where
  "body_loop local downloadToFile s chunks = io_fold (body_chunk local downloadToFile) s (takeWhile (\<lambda>c. c \<noteq> []) chunks)"

text \<open>From the creation of the file on. \<open>fd\<close>: the destination, if the body goes to a file.\<close>

definition transfer_body ::
  "handle \<Rightarrow> string \<Rightarrow> bool \<Rightarrow> bool \<Rightarrow> http_conn \<Rightarrow> string \<Rightarrow> byte list \<Rightarrow> byte list list \<Rightarrow> fd option \<Rightarrow> (int \<times> string) io" where
  "transfer_body local httpFilename downloadToFile isDownloadAfterHttpUpload C hdrs tmpbody chunks fd =
     bnd (case fd of
            Some d \<Rightarrow> bnd (fd_writeAllOrExit d tmpbody) (\<lambda>d'. ret (Some d'))
          | None \<Rightarrow> ret None) (\<lambda>fd'.
     case parseContentLength hdrs of
       None \<Rightarrow> raise StdException
     | Some parsedContentLength \<Rightarrow>
       thn getProgressHook
      (thn (writeStringWithLen local httpFilename)
      (thn (writeAllOrExit local (le_bytes 8 (if parsedContentLength = maxuint \<and> isDownloadAfterHttpUpload
                                              then of_nat (length tmpbody) else parsedContentLength)))
      (thn (if downloadToFile then ret () else writeAllOrExit local tmpbody)
      (bnd (body_loop local downloadToFile \<lparr>dl_fd = fd', dl_current = of_nat (length tmpbody), dl_last = 0\<rparr> chunks) (\<lambda>s.
       if (if parsedContentLength \<noteq> maxuint then dl_current s = parsedContentLength else h_clean C)
       then thn (if downloadToFile then writeAllOrExit local (le_bytes 8 maxuint) else ret ()) (ret (200, hdrs))
       else thn (closeDesc Rcl) (thn (closeDesc local) (ret (- 1, hdrs)))))))))"

text \<open>The response code or -1, and the headers (the out parameter \<open>hdrs\<close>).\<close>

definition parseHttpResponseHeadersAndBody ::
  "int \<Rightarrow> handle \<Rightarrow> string \<Rightarrow> string \<Rightarrow> string \<Rightarrow> bool \<Rightarrow> bool \<Rightarrow> http_conn \<Rightarrow> (int \<times> string) io" where
  "parseHttpResponseHeadersAndBody junk local downloadPath targetFilename url downloadToFile isDownloadAfterHttpUpload C =
     (case read_head [] (h_chunks C) of
        HeadEof \<Rightarrow> ret (- 1, [])
      | HeadTooLarge \<Rightarrow> raise StdException
      | Head hdrs tmpbody chunks \<Rightarrow>
     (case parseResponseCode hdrs of
        None \<Rightarrow> raise StdException
      | Some httpRet \<Rightarrow>
      if httpRet \<noteq> 200 then ret (httpRet, hdrs)
      else thn (writeAllOrExit local [0x11])
     (let httpFilename = (if targetFilename = [] then getHttpFilename junk hdrs url else targetFilename);
          destFullPath = (if downloadPath = [] then httpFilename
                          else downloadPath @ getSystemPathSeparator @ httpFilename) in
      bnd (fd_create (if downloadToFile then destFullPath else []) FM_WRITE) (\<lambda>body. case body of
        Inl e \<Rightarrow> if downloadToFile then thn (closeDesc Rcl) (ret (- 1, hdrs))
                 else transfer_body local httpFilename downloadToFile isDownloadAfterHttpUpload C hdrs tmpbody chunks None
      | Inr d \<Rightarrow> transfer_body local httpFilename downloadToFile isDownloadAfterHttpUpload C hdrs tmpbody chunks
                   (if downloadToFile then Some d else None)))))"

subsection \<open>Requests\<close>

text \<open>\<open>catch (threadExitThrowable&)\<close> and \<open>catch (std::exception&)\<close>.\<close>

definition catching :: "'a io \<Rightarrow> 'a io \<Rightarrow> 'a io" where
  "catching m handler = (\<lambda>w. case m w of
     (Raise ThreadExit, w') \<Rightarrow> handler w'
   | (Raise StdException, w') \<Rightarrow> handler w'
   | r \<Rightarrow> r)"

definition http_get :: "httpUrlInfo \<Rightarrow> string" where
  "http_get info =
     (let q = queryString info; getString1 = (if q = [] \<or> hd q \<noteq> CHR ''/'' then CHR ''/'' # q else q) in
      ''GET '' @ getString1 @ '' HTTP/1.0'' @ CRLF @ ''Host: '' @ domainOnly info @ CRLF
      @ ''User-Agent: XFilesHTTPSClient/1.0.0'' @ CRLF @ ''Accept: */*'' @ CRLF @ ''Connection: close'' @ CRLF @ CRLF)"

text \<open>The code returned, and \<open>redirectUrl\<close> after the call.\<close>

definition httpsUrlDownload_internal ::
  "network \<Rightarrow> int \<Rightarrow> handle \<Rightarrow> string \<Rightarrow> string \<Rightarrow> string \<Rightarrow> string \<Rightarrow> bool \<Rightarrow> bool \<Rightarrow> (int \<times> string) io" where
  "httpsUrlDownload_internal connect junk cl targetUrl downloadPath targetFilename redirectUrl downloadToFile httpsOnly =
     (case getHttpInfo targetUrl (\<not> httpsOnly) of
        Inl None \<Rightarrow> raise StdException
      | Inl (Some r) \<Rightarrow> ret (r, redirectUrl)
      | Inr info \<Rightarrow>
     (case connect (domainOnly info) (port info) of
        None \<Rightarrow> thn (sendErrorResponse cl) (ret (- 1, redirectUrl))
      | Some C \<Rightarrow>
      if (domainOnly info = [] \<or> downloadPath = []) \<and> downloadToFile then thn (sendErrorResponse cl) (ret (- 1, redirectUrl))
      else if isHttps info \<and> h_hash C = [] then thn (sendErrorResponse cl) (ret (- 1, redirectUrl))
      else thn (if isHttps info
                then thn (sendOkResponse cl)
                    (bnd (writeRaw cl (h_hash C)) (\<lambda>r. if less_size_t r (length (h_hash C)) then threadExit else ret ()))
                else ret ())
        (catching
          (thn (writeAllOrExit Rcl (s2b (http_get info)))
          (bnd (parseHttpResponseHeadersAndBody junk cl downloadPath targetFilename
                  (domainOnly info @ ''/'' @ queryString info) downloadToFile False C) (\<lambda>(httpRet, hdrs).
           if httpRet = 301 \<or> httpRet = 302 then
             (case getRedirectLocation hdrs of None \<Rightarrow> raise StdException | Some loc \<Rightarrow> ret (httpRet, loc))
           else ret (httpRet, redirectUrl))))
          (thn (closeDesc Rcl) (ret (- 1, redirectUrl))))))"

primrec redirect_loop :: "nat \<Rightarrow> network \<Rightarrow> int \<Rightarrow> handle \<Rightarrow> string \<Rightarrow> string \<Rightarrow> string \<Rightarrow> string \<Rightarrow> bool \<Rightarrow> bool \<Rightarrow> unit io" where
  "redirect_loop 0 connect junk cl target downloadPath targetFilename redirectUrl toFile httpsOnly = ret ()"
| "redirect_loop (Suc n) connect junk cl target downloadPath targetFilename redirectUrl toFile httpsOnly =
     bnd (httpsUrlDownload_internal connect junk cl target downloadPath targetFilename redirectUrl toFile httpsOnly) (\<lambda>(httpRet, redirectUrl').
     if httpRet = 200 then ret ()
     else if httpRet \<noteq> 301 \<and> httpRet \<noteq> 302 then thn (set_errno httpRet) (sendErrorResponse cl)
     else redirect_loop n connect junk cl redirectUrl' downloadPath targetFilename redirectUrl' toFile httpsOnly)"

definition httpsUrlDownload :: "network \<Rightarrow> int \<Rightarrow> handle \<Rightarrow> u8 \<Rightarrow> unit io" where
  "httpsUrlDownload connect junk cl fl =
     bnd (readStringWithLen cl) (\<lambda>target.
     bnd (readStringWithLen cl) (\<lambda>downloadPath.
     bnd (readStringWithLen cl) (\<lambda>targetFilename.
     thn (redirect_loop 5 connect junk cl target downloadPath targetFilename [] (b0 fl) (b1 fl))
         (closeDesc cl))))"

subsection \<open>Uploads to a file host\<close>

text \<open>The body of the request in parts; \<open>rnd\<close> is the random string of 32 hexadecimal digits.\<close>

definition bodyHeader :: "string \<Rightarrow> string \<Rightarrow> string" where
  "bodyHeader name BOUNDARY =
     ''--'' @ BOUNDARY @ CRLF
     @ ''Content-Disposition: form-data; name='' @ [CHR 0x22] @ ''file'' @ [CHR 0x22] @ ''; filename='' @ [CHR 0x22] @ name @ [CHR 0x22] @ CRLF
     @ ''Content-Type: application/octet-stream'' @ CRLF @ CRLF"

definition bodyTrailer :: "string \<Rightarrow> string" where
  "bodyTrailer BOUNDARY = CRLF @ ''--'' @ BOUNDARY @ ''--'' @ CRLF @ CRLF"

fun dec_string :: "nat \<Rightarrow> string" where
  "dec_string n = (if n < 10 then [char_of (48 + n)] else dec_string (n div 10) @ [char_of (48 + n mod 10)])"

declare dec_string.simps [simp del]

lemma dec_string_digits: "\<forall>c \<in> set (dec_string n). c_isdigit c"
  by (induction n rule: dec_string.induct) (subst dec_string.simps, auto simp: c_isdigit_def)

lemma dec_string_not_Nil: "dec_string n \<noteq> []"
  by (subst dec_string.simps) simp

lemma int_of_char_of: "(of_char (char_of (k :: nat) :: char) :: int) = int (k mod 256)"
  by (metis of_char_of of_nat_of_char)

lemma digits_val_dec: "digits_val (dec_string n) = int n"
proof (induction n rule: dec_string.induct)
  case (1 n)
  show ?case
  proof (cases "n < 10")
    case True
    then show ?thesis by (subst dec_string.simps) (simp add: digits_val_def int_of_char_of)
  next
    case False
    have "10 * int (n div 10) + int (n mod 10) = int n" by presburger
    with 1 False show ?thesis by (subst dec_string.simps) (simp add: digits_val_def int_of_char_of)
  qed
qed

definition postHeader :: "string \<Rightarrow> u64 \<Rightarrow> string \<Rightarrow> string" where
  "postHeader domain wrappedBodyLen BOUNDARY =
     ''POST / HTTP/1.1'' @ CRLF @ ''Host: '' @ domain @ CRLF
     @ ''Content-Length: '' @ dec_string (unat wrappedBodyLen) @ CRLF
     @ ''User-Agent: XFilesHTTPClient/1.0.0'' @ CRLF @ ''Accept: */*'' @ CRLF @ ''Connection: close'' @ CRLF
     @ ''Content-Type: multipart/form-data; boundary='' @ BOUNDARY @ CRLF @ CRLF"

definition UPLOAD_CHUNK_SIZE :: nat where "UPLOAD_CHUNK_SIZE = REMOTE_IO_CHUNK_SIZE div 4"

definition post_file :: "handle \<Rightarrow> string \<Rightarrow> string \<Rightarrow> string \<Rightarrow> unit io" where
  "post_file cl domain rnd path =
     (let BOUNDARY = ''--------'' @ rnd; bh = bodyHeader path BOUNDARY; bt = bodyTrailer BOUNDARY in
      bnd (osGetSize path False) (\<lambda>sz.
      let fsize = (word_of_int sz :: u64); wrappedBodyLen = of_nat (length bh) + fsize + of_nat (length bt) in
      thn (writeAllOrExit cl (le_bytes 8 fsize))
     (bnd (fd_create path FM_READ) (\<lambda>r.
      thn (writeAllOrExit Rcl (s2b (postHeader domain wrappedBodyLen BOUNDARY)))
     (thn (writeAllOrExit Rcl (s2b bh))
     (thn getProgressHook
     (thn (case r of
             Inl e \<Rightarrow> if fsize = 0 then ret () else threadExit
           | Inr d \<Rightarrow> thn (io_fold (upload_chunk (Some cl) Rcl) (d, 0) (chunk_sizes (unat fsize) UPLOAD_CHUNK_SIZE)) (ret ()))
     (thn (writeAllOrExit Rcl (s2b bt))
          (writeAllOrExit cl (le_bytes 8 maxuint))))))))))"

text \<open>With \<open>uploadFromCli\<close> false, as the server calls it: the link that the host answers goes to the user interface.\<close>

definition httpsUrlUpload_internal :: "network \<Rightarrow> int \<Rightarrow> string \<Rightarrow> handle \<Rightarrow> string \<Rightarrow> string \<Rightarrow> int io" where
  "httpsUrlUpload_internal connect junk rnd cl domain sourcePathForUpload =
     (case connect domain 443 of
        None \<Rightarrow> thn (sendErrorResponse cl) (ret (- 1))
      | Some C \<Rightarrow>
        if h_hash C = [] then thn (sendErrorResponse cl) (ret (- 1))
        else thn (sendOkResponse cl)
       (bnd (writeRaw cl (h_hash C)) (\<lambda>r.
        if less_size_t r (length (h_hash C)) then threadExit
        else catching
          (thn (post_file cl domain rnd sourcePathForUpload)
          (bnd (parseHttpResponseHeadersAndBody junk cl ''/tmp/'' ''out_x0at.txt'' (domain @ ''/'') False True C) (\<lambda>(httpRet, hdrs).
           thn (closeDesc Rcl) (ret httpRet))))
          (ret (- 1)))))"

definition httpsUpload :: "network \<Rightarrow> int \<Rightarrow> string \<Rightarrow> handle \<Rightarrow> unit io" where
  "httpsUpload connect junk rnd cl =
     bnd (readStringWithLen cl) (\<lambda>domain.
     bnd (readStringWithLen cl) (\<lambda>uploadPath.
     thn (httpsUrlUpload_internal connect junk rnd cl domain uploadPath) (closeDesc cl)))"

subsection \<open>A download end to end\<close>

lemma find_str_iff:
  "find_str s p = Some i \<longleftrightarrow> i \<le> length s \<and> starts_with (drop i s) p \<and> (\<forall>j < i. \<not> starts_with (drop j s) p)"
proof (induction s arbitrary: i)
  case Nil
  then show ?case by (auto simp: starts_with_def)
next
  case (Cons x s)
  show ?case
  proof (cases "starts_with (x # s) p")
    case True
    then show ?thesis by (auto intro: gr0I)
  next
    case False
    show ?thesis
    proof (cases i)
      case 0
      with False show ?thesis by auto
    next
      case (Suc k)
      have "(\<forall>j < Suc k. \<not> starts_with (drop j (x # s)) p) \<longleftrightarrow> (\<forall>j < k. \<not> starts_with (drop j s) p)"
        using False by (auto simp: less_Suc_eq_0_disj)
      with False Suc Cons.IH [of k] show ?thesis by auto
    qed
  qed
qed

lemma starts_with_take: "k + length p \<le> n \<Longrightarrow> starts_with (drop k (take n s)) p = starts_with (drop k s) p"
  by (simp add: starts_with_def drop_take min_def)

lemma starts_with_length: "starts_with s p \<Longrightarrow> length p \<le> length s"
  by (metis starts_with_iff length_append le_add1)

lemma find_str_None: "find_str s p = None \<longleftrightarrow> (\<forall>j \<le> length s. \<not> starts_with (drop j s) p)"
proof -
  have "(\<exists>i. find_str s p = Some i) \<longleftrightarrow> (\<exists>j \<le> length s. starts_with (drop j s) p)"
  proof
    assume "\<exists>i. find_str s p = Some i"
    then show "\<exists>j \<le> length s. starts_with (drop j s) p" by (auto simp: find_str_iff)
  next
    assume "\<exists>j \<le> length s. starts_with (drop j s) p"
    then obtain j where j: "j \<le> length s" "starts_with (drop j s) p" by blast
    let ?i = "LEAST j. starts_with (drop j s) p"
    have 1: "starts_with (drop ?i s) p" using j(2) by (rule LeastI)
    have 2: "?i \<le> j" using j(2) by (rule Least_le)
    have 3: "\<forall>k < ?i. \<not> starts_with (drop k s) p" using not_less_Least by blast
    show "\<exists>i. find_str s p = Some i"
      unfolding find_str_iff by (rule exI [of _ ?i], intro conjI) (use 1 2 3 j(1) in linarith, rule 1, rule 3)
  qed
  then show ?thesis by (cases "find_str s p") auto
qed

text \<open>The first occurrence is found as soon as all of it has been read, and nothing before that.\<close>

lemma find_str_prefix:
  assumes "find_str s p = Some i" and "p \<noteq> []"
  shows "find_str (take n s) p = (if i + length p \<le> n then Some i else None)"
proof (cases "i + length p \<le> n")
  case True
  have "i + length p \<le> length s"
    using assms(1) starts_with_length [of "drop i s" p] unfolding find_str_iff by auto
  with True assms(1) show ?thesis
    unfolding find_str_iff by (auto simp: starts_with_take find_str_iff)
next
  case False
  have "\<not> starts_with (drop j (take n s)) p" for j
  proof
    assume j: "starts_with (drop j (take n s)) p"
    with assms(2) have "j + length p \<le> n" using starts_with_length [OF j] by (cases p) auto
    with j have "starts_with (drop j s) p" by (simp add: starts_with_take)
    moreover have "j < i" using False \<open>j + length p \<le> n\<close> by simp
    ultimately show False using assms(1) unfolding find_str_iff by blast
  qed
  with False show ?thesis by (simp add: find_str_None)
qed

lemma read_head_chunks:
  assumes "whole = acc @ concat chunks" and "find_str (b2s whole) (CRLF @ CRLF) = Some i"
    and "length acc < i + 4" and "\<forall>c \<in> set chunks. c \<noteq> [] \<and> length c \<le> 4096" and "i + 4100 \<le> 1048576"
  shows "\<exists>tmp rest. read_head acc chunks = Head (b2s (take (i + 4) whole)) tmp rest
    \<and> drop (i + 4) whole = tmp @ concat rest \<and> (\<forall>c \<in> set rest. c \<noteq> [])"
  using assms(1,3,4)
proof (induction chunks arbitrary: acc)
  case Nil
  have "i + 4 \<le> length whole"
    using assms(2) starts_with_length [of "drop i (b2s whole)" "CRLF @ CRLF"] unfolding find_str_iff by (auto simp: CRLF_def)
  with Nil show ?case by simp
next
  case (Cons c cs)
  let ?bb = "acc @ c"
  have bb: "b2s ?bb = take (length ?bb) (b2s whole)" using Cons.prems(1) by (simp add: b2s_def flip: append_assoc)
  have small: "\<not> 1048576 < length ?bb" "c \<noteq> []" using Cons.prems(2,3) assms(5) by auto
  have found: "find_str (b2s ?bb) (CRLF @ CRLF) = (if i + 4 \<le> length ?bb then Some i else None)"
    unfolding bb using find_str_prefix [OF assms(2), of "length ?bb"] by (simp add: CRLF_def)
  show ?case
  proof (cases "i + 4 \<le> length ?bb")
    case True
    have "take (i + 4) ?bb = take (i + 4) whole" "drop (i + 4) whole = drop (i + 4) ?bb @ concat cs"
      using Cons.prems(1) True by simp_all
    with True small found Cons.prems(3) show ?thesis by simp
  next
    case False
    with Cons.IH [of ?bb] Cons.prems small found show ?thesis by simp
  qed
qed

lemma fd_write_open:
  assumes "lookup (root (wfs w)) l = Some (Reg a dd)" "l \<noteq> []" "fd_loc d = l" "fd_pos d = length dd" "no_faults (wfs w)"
  shows "\<exists>d'. fd_writeAllOrExit d bs w = (Ret d', w\<lparr>wfs := set_file l a (dd @ bs) (wfs w)\<rparr>)
    \<and> fd_loc d' = l \<and> fd_pos d' = length (dd @ bs)"
proof (cases "bs = []")
  case True
  then show ?thesis using assms by (intro exI [of _ d]) (simp add: fd_writeAllOrExit_def set_file_def put_same sys_write_def no_faults_faulty)
next
  case False
  then show ?thesis using assms
    by (intro exI [of _ "fd_advance (length bs) d"])
      (simp add: fd_writeAllOrExit_def sys_write_def no_faults_faulty overwrite_end set_file_def)
qed

lemma body_chunks:
  assumes "l \<noteq> []"
  shows "\<lbrakk>lookup (root (wfs w)) l = Some (Reg a dd); fd_loc d = l; fd_pos d = length dd; no_faults (wfs w); wr h w\<rbrakk> \<Longrightarrow>
    \<exists>samples q d' ls. io_fold (body_chunk h True) \<lparr>dl_fd = Some d, dl_current = cur, dl_last = last0\<rparr> cs w
      = (Ret \<lparr>dl_fd = Some d', dl_current = cur + of_nat (length (concat cs)), dl_last = ls\<rparr>,
         emit h (u64s_wire samples) (w\<lparr>wfs := set_file l a (dd @ concat cs) (wfs w), progress := q\<rparr>))"
proof (induction cs arbitrary: w dd d cur last0)
  case Nil
  then show ?case
    by (intro exI [of _ "[]"] exI [of _ "progress w"]) (simp add: ret_app set_file_def put_same)
next
  case (Cons c cs)
  let ?cur = "cur + of_nat (length c)" and ?big = "1000000 < cur + of_nat (length c) - last0"
  obtain d1 where d1: "fd_writeAllOrExit d c w = (Ret d1, w\<lparr>wfs := set_file l a (dd @ c) (wfs w)\<rparr>)"
    "fd_loc d1 = l" "fd_pos d1 = length (dd @ c)"
    using fd_write_open [of w l a dd d c] Cons.prems assms by auto
  let ?s0 = "if ?big then [?cur] else []" and ?q0 = "if ?big then ?cur else progress w" and ?l0 = "if ?big then ?cur else last0"
  let ?w1 = "emit h (u64s_wire ?s0) (w\<lparr>wfs := set_file l a (dd @ c) (wfs w), progress := ?q0\<rparr>)"
  have step: "body_chunk h True \<lparr>dl_fd = Some d, dl_current = cur, dl_last = last0\<rparr> c w
      = (Ret \<lparr>dl_fd = Some d1, dl_current = ?cur, dl_last = ?l0\<rparr>, ?w1)"
    using d1(1) Cons.prems(5) by (simp add: body_chunk_def Let_def io_eval)
  have lk: "lookup (root (wfs ?w1)) l = Some (Reg a (dd @ c))" "no_faults (wfs ?w1)"
    using Cons.prems assms by (simp_all add: set_file_def lookup_put_existing)
  obtain samples q d' ls where "io_fold (body_chunk h True) \<lparr>dl_fd = Some d1, dl_current = ?cur, dl_last = ?l0\<rparr> cs ?w1
      = (Ret \<lparr>dl_fd = Some d', dl_current = ?cur + of_nat (length (concat cs)), dl_last = ls\<rparr>,
         emit h (u64s_wire samples) (?w1\<lparr>wfs := set_file l a ((dd @ c) @ concat cs) (wfs ?w1), progress := q\<rparr>))"
    using Cons.IH [of ?w1 "dd @ c" d1 ?cur ?l0] lk d1 Cons.prems(5) by auto
  then show ?case
    unfolding io_fold.simps bnd_app step
    by (intro exI [of _ "?s0 @ samples"] exI [of _ q] exI [of _ d'] exI [of _ ls])
      (simp add: set_file_set_file add.assoc)
qed

lemma find_str_append: "find_str s p = Some i \<Longrightarrow> find_str (s @ t) p = Some i"
proof -
  assume s: "find_str s p = Some i"
  then have "i + length p \<le> length s" using starts_with_length [of "drop i s" p] unfolding find_str_iff by auto
  then have "starts_with (drop j (s @ t)) p = starts_with (drop j s) p" if "j \<le> i" for j
    using starts_with_take [of j p "length s" "s @ t"] that by simp
  with s show ?thesis unfolding find_str_iff by auto
qed

text \<open>The connection delivers these headers and this body, in any chunks of at most 4096 bytes.\<close>

definition serves :: "http_conn \<Rightarrow> string \<Rightarrow> byte list \<Rightarrow> bool" where
  "serves C hdrs body \<longleftrightarrow> (\<forall>c \<in> set (h_chunks C). c \<noteq> [] \<and> length c \<le> 4096) \<and> concat (h_chunks C) = s2b hdrs @ body
     \<and> find_str hdrs (CRLF @ CRLF) = Some (length hdrs - 4) \<and> 4 \<le> length hdrs \<and> length hdrs \<le> 1044476"

lemma serves_head:
  assumes "serves C hdrs body"
  shows "\<exists>tmp rest. read_head [] (h_chunks C) = Head hdrs tmp rest \<and> body = tmp @ concat rest \<and> (\<forall>c \<in> set rest. c \<noteq> [])"
proof -
  note C = assms [unfolded serves_def]
  have "find_str (b2s (s2b hdrs @ body)) (CRLF @ CRLF) = Some (length hdrs - 4)"
    using C find_str_append by simp
  moreover have "s2b hdrs @ body = [] @ concat (h_chunks C)" "length ([] :: byte list) < length hdrs - 4 + 4"
    "\<forall>c \<in> set (h_chunks C). c \<noteq> [] \<and> length c \<le> 4096" "length hdrs - 4 + 4100 \<le> 1048576" using C by auto
  ultimately have "\<exists>tmp rest. read_head [] (h_chunks C) = Head (b2s (take (length hdrs - 4 + 4) (s2b hdrs @ body))) tmp rest
      \<and> drop (length hdrs - 4 + 4) (s2b hdrs @ body) = tmp @ concat rest \<and> (\<forall>c \<in> set rest. c \<noteq> [])"
    by (intro read_head_chunks)
  moreover have "length hdrs - 4 + 4 = length hdrs" using C by simp
  ultimately show ?thesis by (simp only:) simp
qed

lemma transfer_run:
  assumes "lookup (root (wfs w)) l = Some (Reg a [])" "l \<noteq> []" "fd_loc d = l" "fd_pos d = 0" "no_faults (wfs w)" "wr h w"
    and "parseContentLength hdrs = Some (of_nat (length body))" "body = tmp @ concat rest" "\<forall>c \<in> set rest. c \<noteq> []"
    and "length body < 2 ^ 63"
  shows "\<exists>samples q. transfer_body h nm True False C hdrs tmp rest (Some d) w
    = (Ret (200, hdrs), emit h (str_wire nm @ le_bytes 8 (of_nat (length body) :: u64) @ u64s_wire samples @ le_bytes 8 maxuint)
        (w\<lparr>wfs := set_file l a body (wfs w), progress := q\<rparr>))"
proof -
  obtain d1 where d1: "fd_writeAllOrExit d tmp w = (Ret d1, w\<lparr>wfs := set_file l a tmp (wfs w)\<rparr>)"
    "fd_loc d1 = l" "fd_pos d1 = length tmp"
    using fd_write_open [of w l a "[]" d tmp] assms by auto
  let ?out = "str_wire nm @ le_bytes 8 (of_nat (length body) :: u64)"
  let ?w1 = "emit h ?out (w\<lparr>wfs := set_file l a tmp (wfs w), progress := 0\<rparr>)"
  have lk: "lookup (root (wfs ?w1)) l = Some (Reg a tmp)" "no_faults (wfs ?w1)" "wr h ?w1"
    using assms by (simp_all add: set_file_def lookup_put_existing)
  obtain samples q d' ls where 2: "io_fold (body_chunk h True) \<lparr>dl_fd = Some d1, dl_current = of_nat (length tmp), dl_last = 0\<rparr> rest ?w1
      = (Ret \<lparr>dl_fd = Some d', dl_current = of_nat (length tmp) + of_nat (length (concat rest)), dl_last = ls\<rparr>,
         emit h (u64s_wire samples) (?w1\<lparr>wfs := set_file l a (tmp @ concat rest) (wfs ?w1), progress := q\<rparr>))"
    using body_chunks [OF assms(2) lk(1) d1(2,3) lk(2,3)] by blast
  have tw: "takeWhile (\<lambda>c. c \<noteq> []) rest = rest" using assms(9) by (simp add: takeWhile_eq_all_conv)
  have "unat (of_nat (length body) :: u64) = length body" using assms(10) by (intro unat_of_nat_small) simp
  then have nomax: "(of_nat (length body) :: u64) \<noteq> maxuint"
    using assms(10) by (auto simp: maxuint_def unsigned_minus_1_eq_mask mask_eq_exp_minus_1)
  show ?thesis
    using d1(1) 2 assms(6,7) nomax
    by (intro exI [of _ samples] exI [of _ q])
      (simp add: transfer_body_def body_loop_def tw io_eval getProgressHook_def set_file_set_file assms(8))
qed

lemma open_for_write:
  assumes "no_faults (wfs w)" "\<forall>c \<in> set l. good_name c" "l \<noteq> []" "dirs_above (root (wfs w)) l"
    "lookup (root (wfs w)) l = None"
  shows "fd_create (abs_path l) FM_WRITE w = (Ret (Inr \<lparr>fd_path = abs_path l, fd_loc = l, fd_pos = 0\<rparr>),
           w\<lparr>wfs := set_file l (new_attr 420 (wfs w)) [] (wfs w)\<rparr>)"
    and "lookup (root (set_file l (new_attr 420 (wfs w)) [] (wfs w))) l = Some (Reg (new_attr 420 (wfs w)) [])"
proof -
  have "resolve (wfs w) True (abs_path l) = Missing l"
    using assms by (intro resolve_plain_Missing) auto
  then show "fd_create (abs_path l) FM_WRITE w = (Ret (Inr \<lparr>fd_path = abs_path l, fd_loc = l, fd_pos = 0\<rparr>),
           w\<lparr>wfs := set_file l (new_attr 420 (wfs w)) [] (wfs w)\<rparr>)"
    using assms(1) by (simp add: fd_create_def sys_open_write_def no_faults_faulty set_file_def)
  have "\<exists>b es. lookup (root (wfs w)) (butlast l) = Some (Dir b es)"
    using assms(3,4) dirs_above_snoc [of _ "butlast l" "last l"] by simp
  then show "lookup (root (set_file l (new_attr 420 (wfs w)) [] (wfs w))) l = Some (Reg (new_attr 420 (wfs w)) [])"
    using assms(3) by (auto simp: set_file_def lookup_put_same)
qed

text \<open>
  C13: a download by URL stores exactly the body that the server sends, however the network cuts the
  response into chunks, under the chosen name in the chosen directory, when the server answers 200
  with the right length; the user interface receives the OK and the hash of the TLS session, the end
  of the redirects, the name, the size, samples of the progress and the end mark; the server
  receives one request.
\<close>

theorem download_by_url:
  assumes "getHttpInfo target (\<not> httpsOnly) = Inr info" "connect (domainOnly info) (port info) = Some C"
    and "isHttps info" "h_hash C \<noteq> []" "length (h_hash C) < 2 ^ 64" "domainOnly info \<noteq> []"
    and "serves C hdrs body" "parseResponseCode hdrs = Some 200"
    and "parseContentLength hdrs = Some (of_nat (length body))" "length body < 2 ^ 63"
    and "wr Cl w" "wr Rcl w" "no_faults (wfs w)" "cs \<noteq> []" "\<forall>c \<in> set (cs @ [nm]). good_name c"
    and "dirs_above (root (wfs w)) (cs @ [nm])" "lookup (root (wfs w)) (cs @ [nm]) = None"
  shows "\<exists>samples q. httpsUrlDownload_internal connect junk Cl target (abs_path cs) nm redirectUrl True httpsOnly w
    = (Ret (200, redirectUrl),
       emit Cl (ok_wire @ h_hash C @ [0x11] @ str_wire nm @ le_bytes 8 (of_nat (length body) :: u64)
                @ u64s_wire samples @ le_bytes 8 maxuint)
         (emit Rcl (s2b (http_get info))
           (w\<lparr>wfs := set_file (cs @ [nm]) (new_attr 420 (wfs w)) body (wfs w), progress := q\<rparr>)))"
proof -
  let ?l = "cs @ [nm]" and ?a = "new_attr 420 (wfs w)"
  obtain tmp rest where head: "read_head [] (h_chunks C) = Head hdrs tmp rest" "body = tmp @ concat rest" "\<forall>c \<in> set rest. c \<noteq> []"
    using serves_head [OF assms(7)] by blast
  let ?out = "ok_wire @ h_hash C @ [0x11]"
  let ?w0 = "emit Cl ?out (emit Rcl (s2b (http_get info)) w)"
  let ?w1 = "?w0\<lparr>wfs := set_file ?l ?a [] (wfs w)\<rparr>"
  have w0: "wfs ?w0 = wfs w" by simp
  note open1 = open_for_write [of ?w0 ?l, unfolded w0]
  have nm: "nm \<noteq> []" using assms(15) by (auto simp: good_name_def)
  have path: "abs_path cs @ getSystemPathSeparator @ nm = abs_path ?l"
    by (simp add: getSystemPathSeparator_def)
  obtain samples q where body: "transfer_body Cl nm True False C hdrs tmp rest (Some \<lparr>fd_path = abs_path ?l, fd_loc = ?l, fd_pos = 0\<rparr>) ?w1
    = (Ret (200, hdrs), emit Cl (str_wire nm @ le_bytes 8 (of_nat (length body) :: u64) @ u64s_wire samples @ le_bytes 8 maxuint)
        (?w1\<lparr>wfs := set_file ?l ?a body (wfs ?w1), progress := q\<rparr>))"
    using transfer_run [of ?w1 ?l ?a "\<lparr>fd_path = abs_path ?l, fd_loc = ?l, fd_pos = 0\<rparr>" Cl hdrs body tmp rest nm C]
      open1(2) assms head by (auto simp: set_file_def)
  have "parseHttpResponseHeadersAndBody junk Cl (abs_path cs) nm url True False C (emit Cl (ok_wire @ h_hash C) (emit Rcl (s2b (http_get info)) w))
      = (Ret (200, hdrs), emit Cl (str_wire nm @ le_bytes 8 (of_nat (length body) :: u64) @ u64s_wire samples @ le_bytes 8 maxuint)
        (?w1\<lparr>wfs := set_file ?l ?a body (wfs ?w1), progress := q\<rparr>))" for url
    using head(1) assms(8,11,12,14) nm open1(1) body assms(13,15,16,17)
    by (simp add: parseHttpResponseHeadersAndBody_def thn_app bnd_app write_emit path del: abs_path_append)
  then show ?thesis
    using assms(1-6,11,12,14)
    by (intro exI [of _ samples] exI [of _ q])
      (simp add: httpsUrlDownload_internal_def thn_app bnd_app send_ok catching_def write_emit writeRaw_emit set_file_set_file ret_app)
qed

definition hello_headers :: string where
  "hello_headers = ''HTTP/1.1 200 OK'' @ CRLF @ ''Content-Length: 5'' @ CRLF @ CRLF"

definition hello_conn :: http_conn where
  "hello_conn = \<lparr>h_hash = [1, 2, 3], h_chunks = [s2b (take 20 hello_headers), s2b (drop 20 hello_headers @ ''he''), s2b ''llo''],
     h_clean = True\<rparr>"

definition home_world :: world where
  "home_world = world0\<lparr>wfs := fs0\<lparr>root := Dir attr0 [(''home'', Dir attr0 [])]\<rparr>\<rparr>"

lemma hello_served: "serves hello_conn hello_headers (s2b ''hello'')"
proof -
  have "find_str hello_headers (CRLF @ CRLF) = Some 34" by code_simp
  moreover have len: "length hello_headers = 38" by (simp add: hello_headers_def CRLF_def)
  moreover have "concat (h_chunks hello_conn) = s2b (take 20 hello_headers @ drop 20 hello_headers) @ s2b ''hello''"
    by (simp add: hello_conn_def flip: s2b_append)
  then have "concat (h_chunks hello_conn) = s2b hello_headers @ s2b ''hello''" by (simp only: append_take_drop_id)
  moreover have "\<forall>c \<in> set (h_chunks hello_conn). c \<noteq> [] \<and> length c \<le> 4096"
    using len by (auto simp: hello_conn_def s2b_def)
  ultimately show ?thesis by (simp add: serves_def)
qed

lemma hello_code: "parseResponseCode hello_headers = Some 200" "parseContentLength hello_headers = Some 5"
proof -
  have 1: "find_str hello_headers CRLF = Some 15" "take 15 hello_headers = ''HTTP/1.1 200 OK''"
    "find_str ''HTTP/1.1 200 OK'' '' '' = Some 8" "drop 9 ''HTTP/1.1 200 OK'' = ''200 OK''" "find_str ''200 OK'' '' '' = Some 3"
    "dec_prefix ''200'' = Some 200"
    by code_simp+
  then show "parseResponseCode hello_headers = Some 200"
    by (simp add: parseResponseCode_def Let_def strtol_def clamp64_def)
  have 2: "findStringIC hello_headers ''Content-Length: '' = Some 17" "drop 33 hello_headers = CHR ''5'' # CRLF @ CRLF"
    "find_str (CHR ''5'' # CRLF @ CRLF) [CHR 0x0D] = Some 1" "dec_prefix ''5'' = Some 5"
    by code_simp+
  then show "parseContentLength hello_headers = Some 5"
    by (simp add: parseContentLength_def Let_def strtol_def clamp64_def)
qed

theorem download_by_url_witness:
  "\<exists>samples q. httpsUrlDownload_internal (\<lambda>d p. Some hello_conn) 0 Cl ''https://example.org:8443/f'' ''/home'' ''f'' [] True True home_world
    = (Ret (200, []),
       emit Cl (ok_wire @ [1, 2, 3] @ [0x11] @ str_wire ''f'' @ le_bytes 8 (5 :: u64) @ u64s_wire samples @ le_bytes 8 maxuint)
         (emit Rcl (s2b (http_get \<lparr>isHttps = True, domainOnly = ''example.org'', port = 8443, queryString = ''/f''\<rparr>))
           (home_world\<lparr>wfs := set_file [''home'', ''f''] (new_attr 420 (wfs home_world)) (s2b ''hello'') (wfs home_world), progress := q\<rparr>)))"
proof -
  let ?info = "\<lparr>isHttps = True, domainOnly = ''example.org'', port = 8443, queryString = ''/f''\<rparr>"
  have "getHttpInfo ''https://example.org:8443/f'' False = Inr ?info" by code_simp
  moreover have "h_hash hello_conn = [1, 2, 3]" by (simp add: hello_conn_def)
  moreover have "wr Cl home_world" "wr Rcl home_world" "no_faults (wfs home_world)" "good_name ''home''" "good_name ''f''"
    "dirs_above (root (wfs home_world)) [''home'', ''f'']" "lookup (root (wfs home_world)) [''home'', ''f''] = None"
    by (auto simp: home_world_def no_faults_def good_name_def dirs_above_def less_Suc_eq)
  ultimately show ?thesis
    using download_by_url [of "''https://example.org:8443/f''" True ?info "\<lambda>d p. Some hello_conn" hello_conn hello_headers "s2b ''hello''"
        home_world "[''home'']" "''f''" 0 "[]"] hello_served hello_code by simp
qed

theorem url_encoding_roundtrip_witness: "urlDecode 0 (urlEncode True ''a b/c+d'') = ''a b/c+d''"
  using url_encoding_roundtrip [of "''a b/c+d''" 0 True] by simp

end
