(* ===== verification/RH_Dispatch.thy ===== *)
theory RH_Dispatch
  imports RH_Http RH_Keygen RH_Copier RH_Session
begin

section \<open>The local server: dispatcher, sessions, start\<close>

text \<open>
  \<open>serveRequest\<close>, \<open>clientSession\<close>, the start and the end of the server of remote clients, the
  processes for archive operations, the authentication of peers and the modes of \<open>main\<close> (r.cpp). What the
  program obtains from outside is the record \<open>services\<close>: the archive operations of the 7-Zip library,
  the network, the generated keys, the result of \<open>fork\<close> and of the socket calls.
\<close>

record services =
  sv_listArchive :: "handle \<Rightarrow> u8 \<Rightarrow> unit io"
  sv_compress :: "handle \<Rightarrow> u8 \<Rightarrow> unit io"
  sv_extract :: "handle \<Rightarrow> u8 \<Rightarrow> unit io"
  sv_network :: network
  sv_connect :: "string \<Rightarrow> u16 \<Rightarrow> int"
  sv_sharedHash :: "byte list"
  sv_fds :: "fd option list"
  sv_keygen :: keygen
  sv_botan :: botan
  sv_hex :: "byte list \<Rightarrow> string"
  sv_random :: string
  sv_junk :: u32
  sv_fuel :: nat
  sv_searcher :: handle
  sv_socket :: int
  sv_bind :: int
  sv_listen :: int
  sv_fork :: int
  sv_acceptor :: "bool \<Rightarrow> unit io"

subsection \<open>Archives in a process of their own\<close>

definition archive_operation :: "services \<Rightarrow> handle \<Rightarrow> request_type \<Rightarrow> unit io" where
  "archive_operation S cl rq =
     (case control_code (request rq) of
        ACTION_COMPRESS \<Rightarrow> sv_compress S cl (flags rq)
      | ACTION_EXTRACT \<Rightarrow> sv_extract S cl (flags rq)
      | _ \<Rightarrow> ret ())"

definition plainP7ZipSession :: "services \<Rightarrow> handle \<Rightarrow> request_type \<Rightarrow> unit io" where
  "plainP7ZipSession S cl rq = thn (archive_operation S cl rq) threadExit"

text \<open>
  The parent waits for the child: the operation is done, but of what it changes only the files (not the working
  directory) and the traffic on the sockets are seen by the parent, however the child ends.
\<close>

definition forkP7ZipSession :: "services \<Rightarrow> handle \<Rightarrow> request_type \<Rightarrow> unit io" where
  "forkP7ZipSession S cl rq =
     (if sv_fork S < 0 then sendErrorResponse cl
      else (\<lambda>w. let w' = snd (archive_operation S cl rq w) in
             (Ret (), w\<lparr>wfs := (wfs w')\<lparr>cwd := cwd (wfs w)\<rparr>, conns := conns w'\<rparr>)))"

definition listDirOrArchive :: "services \<Rightarrow> handle \<Rightarrow> u8 \<Rightarrow> unit io" where
  "listDirOrArchive S h fl =
     (if fl = 0 then listDir h
      else if fl = 2 then retrieveHomePath h
      else if fl = 7 \<or> fl = 6 then sv_listArchive S h fl
      else threadExit)"

subsection \<open>The server of remote clients\<close>

text \<open>
  \<open>fork\<close> returns 0 in the child, which becomes the acceptor, and the child's number in the parent.
  The announced path is passed to the acceptor through a global that nothing else reads.
\<close>

definition forkServerAcceptor :: "services \<Rightarrow> handle \<Rightarrow> u8 \<Rightarrow> unit io" where
  "forkServerAcceptor S cl rq_flags =
     bnd (readStringWithLen cl) (\<lambda>tmp.
     thn (if tmp \<noteq> [] then modify (xreHomePath_update (\<lambda>_. tmp)) else ret ())
    (bnd (readStringWithLen cl) (\<lambda>announced.
     bnd (readStringWithLen cl) (\<lambda>exposed.
     thn (modify (exposedDirectory_update (\<lambda>_. exposed)))
    (bnd xreAvailable (\<lambda>av.
     if \<not> av then thn (set_errno 772) (sendErrorResponse cl)
     else bnd (getServerSocket (sv_socket S) (sv_bind S) (sv_listen S) (Some cl)) (\<lambda>tmp_rhss.
       if tmp_rhss < 0 then ret ()
       else if sv_fork S < 0 then sendErrorResponse cl
       else if sv_fork S = 0 then
         thn (modify (rhss_update (\<lambda>_. tmp_rhss))) (catch_thread_exit (sv_acceptor S (rq_flags = 5)))
       else thn (modify (\<lambda>w. w\<lparr>exposedDirectory := [], rhss_pid := sv_fork S\<rparr>))
           (thn (closeDesc cl) threadExit))))))))"

definition SIGINT :: u32 where "SIGINT = 2"

definition killServerAcceptor :: "handle \<Rightarrow> unit io" where
  "killServerAcceptor cl =
     bnd (get rhss_pid) (\<lambda>pid.
     if 0 < pid then
       bnd (sys_kill (word_of_int pid) SIGINT) (\<lambda>r.
       if r < 0 then sendErrorResponse cl
       else thn (modify (rhss_pid_update (\<lambda>_. - 1))) (sendOkResponse cl))
     else ret ())"

definition getServerAcceptorStatus :: "handle \<Rightarrow> unit io" where
  "getServerAcceptorStatus cl =
     thn (sendOkResponse cl)
    (bnd (get rhss_pid) (\<lambda>pid. writeAllOrExit cl [if 0 < pid then RESPONSE_OK else RESPONSE_ERROR]))"

definition remoteServerManagement :: "services \<Rightarrow> handle \<Rightarrow> u8 \<Rightarrow> unit io" where
  "remoteServerManagement S cl fl =
     (if fl = 0 then killServerAcceptor cl
      else if fl = 7 \<or> fl = 5 then thn (forkServerAcceptor S cl fl) threadExit
      else if fl = 2 then getServerAcceptorStatus cl
      else thn (set_errno EINVAL) (sendErrorResponse cl))"

subsection \<open>Requests\<close>

text \<open>\<open>catch (...)\<close> with a rethrow: the search is over when its thread leaves it by an exception.\<close>

definition rethrowing :: "'a io \<Rightarrow> unit io \<Rightarrow> 'a io" where
  "rethrowing m cleanup = (\<lambda>w. case m w of
     (Ret a, w') \<Rightarrow> (Ret a, w')
   | (Raise (ProcExit c), w') \<Rightarrow> (Raise (ProcExit c), w')
   | (Raise e, w') \<Rightarrow> (case cleanup w' of (Ret u, w'') \<Rightarrow> (Raise e, w'') | (Raise e', w'') \<Rightarrow> (Raise e', w'')))"

definition cloudServices :: "services \<Rightarrow> handle \<Rightarrow> unit io" where
  "cloudServices S cl =
     bnd (readAllOrExit cl 2) (\<lambda>cs.
     thn (if (le_word cs :: u16) = 0x12 then httpsUpload (sv_network S) (uint (sv_junk S)) (sv_random S) cl else ret ())
         threadExit)"

definition serveRequest :: "services \<Rightarrow> handle \<Rightarrow> request_type \<Rightarrow> unit io" where
  "serveRequest S cl rq =
     (case control_code (request rq) of
        ACTION_COMPRESS \<Rightarrow> forkP7ZipSession S cl rq
      | ACTION_EXTRACT \<Rightarrow> forkP7ZipSession S cl rq
      | ACTION_LS \<Rightarrow> listDirOrArchive S cl (flags rq)
      | ACTION_COPY \<Rightarrow> copyFileOrDirectoryFullNew (sv_fuel S) (ucast (sv_junk S)) cl
      | ACTION_MOVE \<Rightarrow> moveFileOrDirectory cl
      | ACTION_DELETE \<Rightarrow> deleteFile cl
      | ACTION_STATS \<Rightarrow> stats cl (flags rq)
      | ACTION_EXISTS \<Rightarrow> existsIsFileIsDir (sv_junk S) cl (flags rq)
      | ACTION_CREATE \<Rightarrow> createFileOrDirectory (sv_botan S) (sv_hex S) cl (flags rq)
      | ACTION_HASH \<Rightarrow> hashFile (sv_botan S) cl
      | ACTION_FIND \<Rightarrow> rethrowing (findNamesAndContent (sv_searcher S) cl (flags rq))
                         (find_thread_exit_function_unsafe (sv_searcher S))
      | ACTION_KILL \<Rightarrow> killProcess cl
      | ACTION_GETPID \<Rightarrow> getThisPid cl
      | ACTION_FILE_IO \<Rightarrow> readOrWriteFile cl (flags rq)
      | ACTION_SETATTRIBUTES \<Rightarrow> setAttributes cl
      | ACTION_SSH_KEYGEN \<Rightarrow> ssh_keygen (sv_keygen S) cl (flags rq)
      | ACTION_LINK \<Rightarrow> createHardOrSoftLink cl (flags rq)
      | REMOTE_SERVER_MANAGEMENT \<Rightarrow> remoteServerManagement S cl (flags rq)
      | REMOTE_CONNECT \<Rightarrow> tlsClientSession (sv_connect S) (sv_sharedHash S) (sv_fds S) cl
      | ACTION_HTTPS_URL_DOWNLOAD \<Rightarrow>
          thn (httpsUrlDownload (sv_network S) (uint (sv_junk S)) cl (flags rq)) threadExit
      | ACTION_CLOUD_SERVICES \<Rightarrow> cloudServices S cl
      | _ \<Rightarrow> thn (closeDesc cl) threadExit)"

definition session_round :: "services \<Rightarrow> handle \<Rightarrow> unit \<Rightarrow> (unit + unit) io" where
  "session_round S cl u =
     bnd (readAllOrExit cl 1) (\<lambda>b.
     let rq = request_of_byte (le_word b) in
     if control_code (request rq) = ACTION_EXIT then raise (ProcExit 0)
     else thn (serveRequest S cl rq) (ret (Inl ())))"

text \<open>An exception other than \<open>threadExitThrowable\<close> leaves the thread function and ends the process.\<close>

definition terminating :: "'a io \<Rightarrow> 'a io" where
  "terminating m = (\<lambda>w. case m w of (Raise StdException, w') \<Rightarrow> (Raise (ProcExit 134), w') | r \<Rightarrow> r)"

definition clientSession :: "services \<Rightarrow> handle \<Rightarrow> unit io" where
  "clientSession S cl =
     terminating (thn (catch_thread_exit (io_loop cl (session_round S cl) ())) (closeDesc cl))"

subsection \<open>Start\<close>

text \<open>One round of the loop of \<open>rhMain\<close>: \<open>cred\<close> is what \<open>getsockopt\<close> says of the peer.\<close>

definition authenticatePeer :: "int \<Rightarrow> u32 option \<Rightarrow> bool" where
  "authenticatePeer CALLER_EUID cred = (case cred of None \<Rightarrow> False | Some uid \<Rightarrow> uid = word_of_int CALLER_EUID)"

datatype accept_result = AcceptError | PeerRejected | SessionStarted

definition accept_round :: "int \<Rightarrow> int \<Rightarrow> u32 option \<Rightarrow> accept_result" where
  "accept_round CALLER_EUID cl cred =
     (if cl = - 1 then AcceptError
      else if \<not> authenticatePeer CALLER_EUID cred then PeerRejected
      else SessionStarted)"

datatype mode = PrintHelp | XreMode | CliMode string | RhMode int string

definition allowedFromCli :: "string list" where
  "allowedFromCli = [''download'', ''x0at'', ''0x0st'', ''fileio'', ''https1'', ''httpsd'', ''ssh-keygen'',
     ''hashNames'', ''hash'', ''create'', ''touch'']"

definition atoi :: "string \<Rightarrow> int" where
  "atoi s = sint (word_of_int (strtol s) :: 32 word)"

definition rh_default_uid :: int where "rh_default_uid = 0"
definition rh_uds_default_name :: string where "rh_uds_default_name = ''theroothelper''"

definition main_mode :: "string list \<Rightarrow> mode" where
  "main_mode argv =
     (if prog_is_xre (hd argv) then
        (if 2 \<le> length argv \<and> mode_is_help (argv ! 1) then PrintHelp else XreMode)
      else if 2 \<le> length argv then
        (let arg1 = argv ! 1 in
         if arg1 \<in> set allowedFromCli then CliMode arg1
         else if mode_is_xre arg1 then XreMode
         else if mode_is_help arg1 then PrintHelp
         else RhMode (atoi arg1) (if length argv = 3 then argv ! 2 else rh_uds_default_name))
      else RhMode rh_default_uid rh_uds_default_name)"

subsection \<open>Properties\<close>

lemma session_first_round:
  "clientSession S cl (feed cl (b # bs) w) =
     (case (if control_code (request (request_of_byte b)) = ACTION_EXIT then raise (ProcExit 0)
            else serveRequest S cl (request_of_byte b)) (feed cl bs w) of
        (Raise StdException, w') \<Rightarrow> (Raise (ProcExit 134), w')
      | (Raise ThreadExit, w') \<Rightarrow> closeDesc cl w'
      | (Raise e, w') \<Rightarrow> (Raise e, w')
      | (Ret u, w') \<Rightarrow> terminating (thn (catch_thread_exit (io_iter (avail cl (feed cl (b # bs) w)) (session_round S cl) ())) (closeDesc cl)) w')"
  by (auto simp: clientSession_def terminating_def catch_thread_exit_def io_loop_def session_round_def thn_app bnd_app
      ret_app raise_app read_Cons Let_def closeDesc_def modify_app split: prod.splits outcome.splits exn.splits)

text \<open>
  A URL whose port is not a number ends the whole process, with all its other sessions: the
  exception of \<open>std::stoi\<close> is thrown outside every \<open>try\<close> block of the request, and the thread of the
  session catches only \<open>threadExitThrowable\<close>.
\<close>

theorem malformed_port_ends_process:
  assumes "getHttpInfo target True = Inl None"
    and "length target < 65536" "length dir < 65536" "length file < 65536"
  shows "clientSession S cl (feed cl (0x18 # str_wire target @ str_wire dir @ str_wire file) w) = (Raise (ProcExit 134), w)"
proof -
  have "control_code (request (request_of_byte 0x18)) = ACTION_HTTPS_URL_DOWNLOAD" "flags (request_of_byte 0x18) = 0"
    by (simp_all add: request_of_byte_def control_code_def)
  moreover have "redirect_loop 5 net junk cl target dir file [] (b0 0) (b1 0) w = (Raise StdException, w)" for net junk
    using assms(1) by (simp add: eval_nat_numeral httpsUrlDownload_internal_def bnd_app raise_app b1_def)
  ultimately show ?thesis
    unfolding session_first_round using assms(2-4)
    by (simp add: serveRequest_def httpsUrlDownload_def thn_app bnd_app io_eval)
qed

theorem malformed_port_ends_process_witness:
  "\<forall>S. clientSession S Cl (feed Cl (0x18 # str_wire ''https://host:/x'' @ str_wire ''/tmp'' @ str_wire []) world0)
     = (Raise (ProcExit 134), world0)"
proof -
  have "getHttpInfo ''https://host:/x'' True = Inl None" by code_simp
  then show ?thesis by (intro allI malformed_port_ends_process) simp_all
qed

lemma killed_append: "killed_update (\<lambda>k. k @ [x]) w = w\<lparr>killed := killed w @ [x]\<rparr>"
  by (cases w) simp

lemma wr_pid: "wr h (w\<lparr>rhss_pid := p\<rparr>) = wr h w" "(emit h bs w)\<lparr>rhss_pid := p\<rparr> = emit h bs (w\<lparr>rhss_pid := p\<rparr>)"
  by (simp_all add: wr_def emit_def set_conn_def)

text \<open>
  C32: the life cycle of the server as its owner sees it, when the signal can be sent: while it runs
  the status says so; stopping it sends exactly one interrupt, to the process that was started, and
  answers OK; then the status says that it does not run. Stopping it again is answered with nothing
  at all, so that the requester waits for ever, and sends no signal.
\<close>

theorem server_lifecycle:
  assumes "0 < rhss_pid w" and "kill_res w (word_of_int (rhss_pid w)) SIGINT = 0" and "wr h w"
  shows "serveRequest S h (request_of_byte 0x52) w = (Ret (), emit h (ok_wire @ [RESPONSE_OK]) w)
    \<and> serveRequest S h (request_of_byte 0x12) w
        = (Ret (), emit h ok_wire (w\<lparr>killed := killed w @ [(word_of_int (rhss_pid w), SIGINT)], rhss_pid := - 1\<rparr>))
    \<and> (\<forall>w'. rhss_pid w' = - 1 \<and> wr h w' \<longrightarrow>
         serveRequest S h (request_of_byte 0x52) w' = (Ret (), emit h (ok_wire @ [RESPONSE_ERROR]) w')
         \<and> serveRequest S h (request_of_byte 0x12) w' = (Ret (), w'))"
proof -
  have rq: "control_code (request (request_of_byte 0x52)) = REMOTE_SERVER_MANAGEMENT" "flags (request_of_byte 0x52) = 2"
    "control_code (request (request_of_byte 0x12)) = REMOTE_SERVER_MANAGEMENT" "flags (request_of_byte 0x12) = 0"
    by (simp_all add: request_of_byte_def control_code_def)
  show ?thesis
    using assms by (auto simp: serveRequest_def rq remoteServerManagement_def getServerAcceptorStatus_def
        killServerAcceptor_def sys_kill_def io_eval killed_append wr_pid)
qed

theorem server_lifecycle_witness:
  "\<forall>S. serveRequest S Cl (request_of_byte 0x12) (world0\<lparr>rhss_pid := 4711\<rparr>)
     = (Ret (), emit Cl ok_wire (world0\<lparr>killed := [(4711, SIGINT)], rhss_pid := - 1\<rparr>))"
  using server_lifecycle [of "world0\<lparr>rhss_pid := 4711\<rparr>" Cl] by (simp add: wr_pid)

primrec certs_in :: "string list \<Rightarrow> fs \<Rightarrow> string option" where
  "certs_in [] f = None"
| "certs_in (s # ss) f =
     (if efd_of (s @ RH_TLS_CERT_STRING) f = 1 \<and> efd_of (s @ RH_TLS_KEY_STRING) f = 1 then Some s else certs_in ss f)"

lemma quiet_search_certs: "quiet (search_certs ss) (\<lambda>f u. certs_in ss f)"
proof (induction ss)
  case Nil
  show ?case by (simp add: quiet_ret)
next
  case (Cons s ss)
  have key: "quiet (if crt1 = 1 then existsIsFileIsDir0 (s @ RH_TLS_KEY_STRING) else ret 0)
      (\<lambda>f u. if crt1 = 1 then efd_of (s @ RH_TLS_KEY_STRING) f else 0)" for crt1 :: nat
    by (intro quiet_if quiet_existsIsFileIsDir0 quiet_ret)
  have inner: "quiet (bnd (if crt1 = 1 then existsIsFileIsDir0 (s @ RH_TLS_KEY_STRING) else ret 0)
        (\<lambda>key1. if crt1 = 1 \<and> key1 = 1 then ret (Some s) else search_certs ss))
      (\<lambda>f u. if crt1 = 1 \<and> (if crt1 = 1 then efd_of (s @ RH_TLS_KEY_STRING) f else 0) = 1 then Some s else certs_in ss f)"
    for crt1 :: nat
    by (rule quiet_bnd [OF key, where u = "\<lambda>key1 f u. if crt1 = 1 \<and> key1 = 1 then Some s else certs_in ss f"])
      (rule quiet_if [OF quiet_ret Cons.IH])
  show ?case
    unfolding search_certs.simps
    by (rule quiet_cong [OF quiet_bnd [OF quiet_existsIsFileIsDir0 inner]]) simp
qed

lemma quiet_xreAvailable: "quiet xreAvailable (\<lambda>f u. certs_in [''./'', ''/usr/lib/''] f \<noteq> None)"
  unfolding xreAvailable_def by (rule quiet_bnd [OF quiet_search_certs quiet_ret])

text \<open>
  Starting the server splits the process. The parent answers OK, remembers the child, closes its
  end of the connection and ends the session; it does not become a server process, so that the
  requests of its own user stay unrestricted. The child serves remote clients, confined to the
  exposed directory, with the home directory that was chosen.
\<close>

theorem server_start_splits:
  assumes "certs_in [''./'', ''/usr/lib/''] (wfs w) \<noteq> None" and "0 \<le> sock" and "wr h w" and "rhss w = - 1"
    and "length hm < 65536" "length ann < 65536" "length exposed < 65536" "hm \<noteq> []"
  shows "\<exists>e. (0 < pid \<longrightarrow> forkServerAcceptor (S\<lparr>sv_socket := sock, sv_bind := 0, sv_listen := 0, sv_fork := pid\<rparr>) h 7
        (feed h (str_wire hm @ str_wire ann @ str_wire exposed) w)
      = (Raise ThreadExit, snd (closeDesc h (emit h ok_wire
           (w\<lparr>xreHomePath := hm, errno := e, exposedDirectory := [], rhss_pid := pid\<rparr>)))))
    \<and> (forkServerAcceptor (S\<lparr>sv_socket := sock, sv_bind := 0, sv_listen := 0, sv_fork := 0\<rparr>) h 7
        (feed h (str_wire hm @ str_wire ann @ str_wire exposed) w)
      = catch_thread_exit (sv_acceptor S False) (emit h ok_wire
           (w\<lparr>xreHomePath := hm, exposedDirectory := exposed, errno := e, rhss := sock\<rparr>)))"
proof -
  let ?w = "w\<lparr>xreHomePath := hm, exposedDirectory := exposed\<rparr>"
  obtain e where av: "xreAvailable ?w = (Ret True, ?w\<lparr>errno := e\<rparr>)"
    using quietD [OF quiet_xreAvailable, of ?w] assms(1) by auto
  have upd: "xreHomePath_update (\<lambda>_. a) (feed h bs v) = feed h bs (v\<lparr>xreHomePath := a\<rparr>)"
    "exposedDirectory_update (\<lambda>_. a) (feed h bs v) = feed h bs (v\<lparr>exposedDirectory := a\<rparr>)"
    "wr h (v\<lparr>xreHomePath := a\<rparr>) = wr h v" "wr h (v\<lparr>exposedDirectory := a\<rparr>) = wr h v"
    "(emit h bs v)\<lparr>rhss := k\<rparr> = emit h bs (v\<lparr>rhss := k\<rparr>)"
    "(emit h bs v)\<lparr>exposedDirectory := a, rhss_pid := k\<rparr> = emit h bs (v\<lparr>exposedDirectory := a, rhss_pid := k\<rparr>)"
    "conns (emit h bs v) h = (conns v h)\<lparr>outb := outb (conns v h) @ bs\<rparr>" for a k bs v
    by (simp_all add: feed_def emit_def set_conn_def wr_def)
  show ?thesis
    using assms av
    by (intro exI [of _ e]) (auto simp: forkServerAcceptor_def io_eval getServerSocket_def reply_if_def upd closeDesc_def)
qed

definition cert_world :: world where
  "cert_world = world0\<lparr>wfs := fs0\<lparr>root := Dir attr0 [(''dummycrt.pem'', Reg attr0 []), (''dummykey.pem'', Reg attr0 [])]\<rparr>\<rparr>"

lemma cert_world_certs: "certs_in [''./'', ''/usr/lib/''] (wfs cert_world) \<noteq> None"
  by (simp add: cert_world_def RH_TLS_CERT_STRING_def RH_TLS_KEY_STRING_def efd_of_def sys_lstat_def stat_gen_def
      resolve_def split_path_def faulty_def)

theorem server_start_splits_witness:
  "\<exists>e. forkServerAcceptor (S\<lparr>sv_socket := 5, sv_bind := 0, sv_listen := 0, sv_fork := 0\<rparr>) Cl 7
        (feed Cl (str_wire ''/srv'' @ str_wire [] @ str_wire ''/srv'') cert_world)
      = catch_thread_exit (sv_acceptor S False) (emit Cl ok_wire
           (cert_world\<lparr>xreHomePath := ''/srv'', exposedDirectory := ''/srv'', errno := e, rhss := 5\<rparr>))"
proof -
  have "wr Cl cert_world" "rhss cert_world = - 1" by (simp_all add: cert_world_def wr_def world0_def)
  with server_start_splits [of cert_world 5 Cl "''/srv''" "[]" "''/srv''" 0 S] cert_world_certs show ?thesis by auto
qed

end
