(* ===== verification/RH_CopyRun.thy ===== *)
theory RH_CopyRun
  imports RH_Copier RH_Create
begin

section \<open>Runs of the copier\<close>

text \<open>
  What the definitions of \<open>RH_Copier\<close> do together: one file copied through the loop around
  \<open>sendfile\<close> with everything the client is told, and the decisions that are kept: once the client
  has answered a conflict "for all", no conflict of that kind is asked about again.
\<close>

subsection \<open>One file\<close>

lemma fd_writeAll_open:
  assumes "lookup (root (wfs w)) l = Some (Reg a dd)" "fd_loc d = l" "fd_pos d = length dd" "no_faults (wfs w)"
  shows "fd_writeAll d bs w = (Ret (int (length bs), fd_advance (length bs) d), w\<lparr>wfs := set_file l a (dd @ bs) (wfs w)\<rparr>)"
  using assms by (simp add: fd_writeAll_def sys_write_def no_faults_faulty overwrite_end set_file_def)

text \<open>
  \<open>marks_to i n ns\<close>: the values \<open>ns\<close> are above \<open>i\<close>, grow, and the last one is \<open>n\<close>, unless \<open>i\<close> is
  \<open>n\<close> already.
\<close>

definition marks_to :: "nat \<Rightarrow> nat \<Rightarrow> nat list \<Rightarrow> bool" where
  "marks_to i n ns \<longleftrightarrow> sorted_wrt (<) (i # ns) \<and> last (i # ns) = n"

lemma marks_to_Nil [simp]: "marks_to n n []"
  by (simp add: marks_to_def)

lemma marks_to_Cons: "\<lbrakk>i < m; marks_to m n ns\<rbrakk> \<Longrightarrow> marks_to i n (m # ns)"
  by (auto simp: marks_to_def)

lemma sendfile_run:
  assumes "disjoint_loc ld ls" "ld \<noteq> []"
  shows "\<lbrakk>lookup (root (wfs w)) ls = Some (Reg sa data); lookup (root (wfs w)) ld = Some (Reg a (take i data));
      fd_loc fi = ls; fd_pos fi = i; fd_loc fo = ld; fd_pos fo = i; i \<le> length data; length data < i + k;
      no_faults (wfs w); wr h w\<rbrakk> \<Longrightarrow>
    \<exists>ns. sendfile_loop k h fi fo (of_nat i) w
      = (Ret (), emit h (u64s_wire (map of_nat ns)) (w\<lparr>wfs := set_file ld a data (wfs w)\<rparr>))
      \<and> marks_to i (length data) ns"
proof (induction k arbitrary: w i fi fo)
  case 0
  then show ?case by simp
next
  case (Suc k)
  let ?bs = "take COPY_CHUNK_SIZE (drop i data)"
  have rd: "io_query (sys_read fi COPY_CHUNK_SIZE) w = (Ret (Some ?bs), w)"
    using Suc.prems by (simp add: io_query_def sys_read_def no_faults_faulty file_data_def)
  show ?case
  proof (cases "i = length data")
    case True
    with rd Suc.prems show ?thesis
      by (intro exI [of _ "[]"]) (simp add: bnd_app ret_app set_file_def put_same)
  next
    case False
    with Suc.prems(7) have ne: "?bs \<noteq> []" by (simp add: COPY_CHUNK_SIZE_def)
    let ?n = "length ?bs"
    have tk: "take i data @ ?bs = take (i + ?n) data"
    proof -
      have "take (i + ?n) data = take i data @ take ?n (drop i data)" by (rule take_add)
      then show ?thesis by (simp add: min_def)
    qed
    let ?w1 = "emit h (le_bytes 8 (of_nat (i + ?n) :: u64)) (w\<lparr>wfs := set_file ld a (take (i + ?n) data) (wfs w)\<rparr>)"
    have wrt: "fd_writeAll fo ?bs w = (Ret (int ?n, fd_advance ?n fo), w\<lparr>wfs := set_file ld a (take (i + ?n) data) (wfs w)\<rparr>)"
      using fd_writeAll_open [of w ld a "take i data" fo ?bs] Suc.prems tk by (simp add: min_def)
    have np: "0 < ?n" unfolding length_greater_0_conv by (rule ne)
    with Suc.prems(8) have fuel: "length data < i + ?n + k" by linarith
    have "lookup (root (wfs ?w1)) ls = Some (Reg sa data)" "lookup (root (wfs ?w1)) ld = Some (Reg a (take (i + ?n) data))"
      "i + ?n \<le> length data" "no_faults (wfs ?w1)" "wr h ?w1"
      using Suc.prems assms ne
      by (simp_all add: set_file_def lookup_put_disjoint lookup_put_existing)
    then obtain ns where "sendfile_loop k h (fd_advance ?n fi) (fd_advance ?n fo) (of_nat (i + ?n)) ?w1
        = (Ret (), emit h (u64s_wire (map of_nat ns)) (?w1\<lparr>wfs := set_file ld a data (wfs ?w1)\<rparr>))"
      "marks_to (i + ?n) (length data) ns"
      using fuel Suc.IH [of ?w1 "i + ?n" "fd_advance ?n fi" "fd_advance ?n fo"] Suc.prems
      by (auto simp: fd_advance_def simp del: of_nat_add)
    moreover have "\<not> int ?n \<le> 0" using ne by simp
    ultimately show ?thesis
      using rd ne np wrt Suc.prems(10)
      by (intro exI [of _ "(i + ?n) # ns"])
        (simp add: bnd_app thn_app write_emit set_file_set_file marks_to_Cons Let_def flip: of_nat_add del: length_take of_nat_add)
  qed
qed


lemma open_rdwr_new:
  assumes "no_faults (wfs w)" "\<forall>c \<in> set l. good_name c" "l \<noteq> []" "dirs_above (root (wfs w)) l"
    "lookup (root (wfs w)) l = None"
  shows "open_rdwr (abs_path l) w = (Ret (Inr \<lparr>fd_path = abs_path l, fd_loc = l, fd_pos = 0\<rparr>),
           w\<lparr>wfs := set_file l (new_attr 420 (wfs w)) [] (wfs w)\<rparr>)"
    and "lookup (root (set_file l a bs (wfs w))) l = Some (Reg a bs)"
proof -
  have "resolve (wfs w) True (abs_path l) = Missing l"
    using assms by (intro resolve_plain_Missing) auto
  then show "open_rdwr (abs_path l) w = (Ret (Inr \<lparr>fd_path = abs_path l, fd_loc = l, fd_pos = 0\<rparr>),
           w\<lparr>wfs := set_file l (new_attr 420 (wfs w)) [] (wfs w)\<rparr>)"
    using assms(1) by (simp add: open_rdwr_def sys_open_write_def no_faults_faulty set_file_def)
  have "\<exists>b es. lookup (root (wfs w)) (butlast l) = Some (Dir b es)"
    using assms(3,4) dirs_above_snoc [of _ "butlast l" "last l"] by simp
  then show "lookup (root (set_file l a bs (wfs w))) l = Some (Reg a bs)"
    using assms(3) by (auto simp: set_file_def lookup_put_same)
qed

lemma missing_disjoint:
  assumes "dirs_above t ld" "lookup t ld = None" "lookup t ls = Some (Reg a d)"
  shows "disjoint_loc ld ls"
proof (rule ccontr)
  assume "\<not> disjoint_loc ld ls"
  then consider "take (length ls) ld = ls" | "take (length ld) ls = ld" by (auto simp: disjoint_loc_def)
  then show False
  proof cases
    case 1
    then have "length ls \<noteq> length ld" using assms(2,3) by auto
    moreover have "length ls \<le> length ld" using 1 by (metis length_take min.cobounded2 min.commute)
    ultimately have "length ls < length ld" by simp
    then obtain b es where "lookup t (take (length ls) ld) = Some (Dir b es)"
      using assms(1) unfolding dirs_above_def by blast
    with 1 assms(3) show False by simp
  next
    case 2
    then obtain r where "ls = ld @ r" by (metis append_take_drop_id)
    with assms(2,3) show False by (simp add: lookup_append)
  qed
qed

definition copied_attr :: "attr \<Rightarrow> fs \<Rightarrow> attr" where
  "copied_attr sa f = (new_attr 420 f)\<lparr>a_mode := a_mode sa AND 4095\<rparr>"

lemma oscopyfile_run:
  assumes src: "at_path (wfs w) ls (Reg sa data)"
    and dst: "\<forall>c \<in> set ld. good_name c" "ld \<noteq> []" "dirs_above (root (wfs w)) ld" "lookup (root (wfs w)) ld = None"
    and w: "wr h w"
  shows "\<exists>ns. oscopyfile h (abs_path ls) (abs_path ld) w
      = (Ret OK_TYPE, emit h (u64s_wire (of_nat (length data) # map of_nat ns @ [EOF_ind]))
          (w\<lparr>wfs := set_file ld (copied_attr sa (wfs w)) data (wfs w)\<rparr>))
      \<and> marks_to 0 (length data) ns"
proof -
  let ?a = "new_attr 420 (wfs w)" and ?i = "\<lparr>fd_path = abs_path ls, fd_loc = ls, fd_pos = 0\<rparr>"
    and ?o = "\<lparr>fd_path = abs_path ld, fd_loc = ld, fd_pos = 0\<rparr>"
  let ?w1 = "w\<lparr>wfs := set_file ld ?a [] (wfs w)\<rparr>"
  have nf: "no_faults (wfs w)" and ls: "lookup (root (wfs w)) ls = Some (Reg sa data)"
    using src by (simp_all add: at_path_def)
  note dj = missing_disjoint [OF dst(3,4) ls]
  note op = open_rdwr_new [OF nf dst]
  have 1: "fd_create (abs_path ls) FM_READ w = (Ret (Inr ?i), w)"
    using file_open_at_path(1) [OF src] by (simp add: fd_create_def)
  have ls1: "lookup (root (set_file ld b bs (wfs w))) ls = Some (Reg sa data)" for b bs
    using ls dj by (simp add: set_file_def lookup_put_disjoint)
  obtain ns where 2: "sendfile_loop (length data + 2) h ?i ?o 0 (emit h (le_bytes 8 (of_nat (length data) :: u64)) ?w1)
      = (Ret (), emit h (u64s_wire (map of_nat ns)) (emit h (le_bytes 8 (of_nat (length data) :: u64))
          (w\<lparr>wfs := set_file ld ?a data (wfs w)\<rparr>)))" "marks_to 0 (length data) ns"
    using sendfile_run [OF dj dst(2), of "emit h (le_bytes 8 (of_nat (length data) :: u64)) ?w1" sa data ?a 0 ?i ?o
        "length data + 2" h] ls1 op(2) nf w
    by (auto simp: set_file_set_file) (auto simp: set_file_def)
  have 3: "fchmod_loc ?o (a_mode (node_attr (node_of_fd (set_file ld ?a [] (wfs w)) ?i)) AND 4095) (w'\<lparr>wfs := set_file ld ?a data (wfs w)\<rparr>)
      = (Ret (), w'\<lparr>wfs := set_file ld (copied_attr sa (wfs w)) data (wfs w)\<rparr>)" for w'
    using op(2) ls1 by (simp add: fchmod_loc_def modify_def node_of_fd_def copied_attr_def set_file_def put_put)
  show ?thesis
    using 1 2 3 [of "emit h (u64s_wire (of_nat (length data) # map of_nat ns @ [EOF_ind])) w"] op ls1 w
    by (intro exI [of _ ns]) (simp add: oscopyfile_def bnd_app thn_app write_emit get_def node_of_fd_def file_data_def ret_app
        u64s_wire_def del: sendfile_loop.simps)
qed


subsection \<open>One directory\<close>

lemma mkpath_loop_skip:
  assumes "no_faults f" "\<forall>c \<in> set cs. good_name c" "dirs_above (root f) cs"
  shows "\<forall>k \<in> set ks. 0 < k \<and> k < length cs \<Longrightarrow> wfs w = f \<Longrightarrow>
    \<exists>e. mkpath_loop (abs_path cs @ ''/'') mode True (map (\<lambda>k. length (abs_path (take k cs))) ks @ js) w
      = mkpath_loop (abs_path cs @ ''/'') mode True js (w\<lparr>errno := e\<rparr>)"
proof (induction ks arbitrary: w)
  case Nil
  then show ?case by (intro exI [of _ "errno w"]) simp
next
  case (Cons k ks)
  let ?s = "abs_path cs @ ''/''" and ?l = "take k cs"
  have k: "0 < k" "k < length cs" using Cons.prems by simp_all
  have good: "\<forall>c \<in> set ?l. good_name c" using assms(2) by (meson in_set_takeD)
  have above: "dirs_above (root f) ?l"
    using assms(3) k unfolding dirs_above_def by (auto simp: min_def)
  have there: "lookup (root f) ?l \<noteq> None" using assms(3) k(2) by (auto simp: dirs_above_def)
  have ne: "?l \<noteq> []" using k by (cases cs) auto
  have mk: "sys_mkdir (abs_path ?l) mode f = (EEXIST, f)"
    using mkdir_step [OF assms(1) good ne above, of mode] there by simp
  have tk: "take (length (abs_path ?l)) ?s = abs_path ?l" using k by (intro take_abs_path) simp
  obtain c r where "drop k cs = c # r" using k by (cases "drop k cs") auto
  then have "abs_path cs = abs_path ?l @ CHR ''/'' # c @ abs_path r"
    by (metis abs_path.simps(2) abs_path_append append_take_drop_id)
  then have slash: "?s ! length (abs_path ?l) = CHR ''/''" by (simp add: nth_append)
  have "\<exists>e. mkpath_loop ?s mode True (map (\<lambda>k. length (abs_path (take k cs))) ks @ js) (w\<lparr>errno := EEXIST\<rparr>)
      = mkpath_loop ?s mode True js ((w\<lparr>errno := EEXIST\<rparr>)\<lparr>errno := e\<rparr>)"
    using Cons.prems by (intro Cons.IH) simp_all
  moreover have "EEXIST \<noteq> 0" by (simp add: EEXIST_def)
  ultimately show ?case
    using slash tk mk Cons.prems(2) by (simp add: bnd_app io_update_def get_app)
qed

lemma mkpath_new:
  assumes "no_faults (wfs w)" "\<forall>c \<in> set cs. good_name c" "cs \<noteq> []" "dirs_above (root (wfs w)) cs"
    "lookup (root (wfs w)) cs = None"
  shows "\<exists>e. mkpath (abs_path cs) mode True w = (Ret 0, w\<lparr>errno := e, wfs := (wfs w)\<lparr>root :=
    put_at cs (Dir (new_attr mode (wfs w)) []) (root (wfs w))\<rparr>\<rparr>)"
proof -
  let ?f = "\<lambda>k. length (abs_path (take k cs))"
  have idx: "map ?f [1..<Suc (length cs)] = map ?f [1..<length cs] @ [length (abs_path cs)]"
    using assms(3) by (cases cs) simp_all
  obtain e where 1: "mkpath_loop (abs_path cs @ ''/'') mode True (map ?f [1..<length cs] @ [length (abs_path cs)]) w
      = mkpath_loop (abs_path cs @ ''/'') mode True [length (abs_path cs)] (w\<lparr>errno := e\<rparr>)"
    using mkpath_loop_skip [OF assms(1,2,4), of "[1..<length cs]" w mode "[length (abs_path cs)]"] by auto
  moreover have "sys_mkdir (abs_path cs) mode (wfs w)
      = (0, (wfs w)\<lparr>root := put_at cs (Dir (new_attr mode (wfs w)) []) (root (wfs w))\<rparr>)"
    using mkdir_step [OF assms(1-4), of mode] assms(5) by simp
  ultimately show ?thesis
    using idx by (intro exI [of _ e]) (simp add: mkpath_abs [OF assms(2,3)] bnd_app io_update_def ret_app)
qed

lemma listChildrenPairs_run:
  assumes "at_path (wfs w) ls (Dir a es)" "wf_node (Dir a es)" "\<forall>h. wr h w" "\<forall>c \<in> set ld. good_name c" "ld \<noteq> []"
  shows "\<exists>e p. listChildrenPairs (abs_path ls) (abs_path ld) w
    = (Ret (rev (map (\<lambda>e. (abs_path (ls @ [fst e]), abs_path (ld @ [fst e]))) es)), w\<lparr>errno := e, progress := p\<rparr>)"
proof -
  let ?es = "rev (map (\<lambda>e. (abs_path (ls @ [fst e]), fst e)) es)"
  let ?b = "\<lambda>it v. ret (v @ [(pathConcat (abs_path ls) (it_currentName it), pathConcat (abs_path ld) (it_currentName it))])"
  let ?g = "\<lambda>(x :: string \<times> string) v. v @ [(pathConcat (abs_path ls) (snd x), pathConcat (abs_path ld) (snd x))]"
  have pc: "pathConcat (abs_path ls) x = abs_path (ls @ [x])" "pathConcat (abs_path ld) x = abs_path (ld @ [x])" for x
    using assms by (simp_all add: at_path_def pathConcat_abs_path)
  have "fold ?g xs v = v @ map (\<lambda>x. (pathConcat (abs_path ls) (snd x), pathConcat (abs_path ld) (snd x))) xs" for xs v
    by (induction xs arbitrary: v) simp_all
  then have f: "fold ?g ?es [] = rev (map (\<lambda>e. (abs_path (ls @ [fst e]), abs_path (ld @ [fst e]))) es)"
    by (simp add: pc rev_map comp_def)
  have "says (wfs w) (users w) (listChildrenPairs (abs_path ls) (abs_path ld)) (fold ?g ?es []) (\<lambda>h. [])"
    unfolding listChildrenPairs_def
  proof (rule says_plain_iterator [OF entries_at_path [OF assms(1,2)]])
    fix it :: dirIterator
    assume it: "it_error it = 0" "it_listing it = PLAIN" "it_mode it = FULL" "it_names it" "it_stack it = ?es"
    have "says (wfs w) (users w) (it_each ?b it []) (fold ?g ?es []) (fold_out ?g (\<lambda>x s h. []) ?es [])"
      by (rule says_it_each [OF _ it(2-5)]) (simp add: says_ret)
    then show "says (wfs w) (users w) (if it_ok it then it_each ?b it [] else ret []) (fold ?g ?es []) (\<lambda>h. [])"
      using it(1) by (auto simp: it_ok_def fold_out_const intro: says_cong)
  qed
  from saysD [OF this refl refl assms(3)] f show ?thesis by auto
qed


subsection \<open>Views of a tree\<close>

text \<open>
  What a path shows: a file with its attributes and content, a directory, something else, or
  nothing. Adding a node without entries at a free place changes the view of that place only.
\<close>

datatype view = File_view attr "byte list" | Folder_view | Other_view

fun view_of :: "node \<Rightarrow> view" where
  "view_of (Reg a d) = File_view a d"
| "view_of (Dir a es) = Folder_view"
| "view_of _ = Other_view"

definition view_at :: "node \<Rightarrow> string list \<Rightarrow> view option" where
  "view_at t l = map_option view_of (lookup t l)"

lemma view_folder: "view_at t l = Some Folder_view \<longleftrightarrow> (\<exists>a es. lookup t l = Some (Dir a es))"
proof -
  have "view_of n = Folder_view \<longleftrightarrow> (\<exists>a es. n = Dir a es)" for n by (cases n) auto
  then show ?thesis by (auto simp: view_at_def)
qed

lemma dirs_above_view: "dirs_above t l \<longleftrightarrow> (\<forall>k < length l. view_at t (take k l) = Some Folder_view)"
  by (simp add: dirs_above_def view_folder)

lemma view_None: "view_at t l = None \<longleftrightarrow> lookup t l = None"
  by (simp add: view_at_def)

lemma view_put_new:
  assumes "dirs_above t ld" "ld \<noteq> []" "lookup t ld = None" "dir_entries d = []"
  shows "view_at (put_at ld d t) l = (if l = ld then Some (view_of d) else view_at t l)"
proof -
  obtain a es where parent: "lookup t (butlast ld) = Some (Dir a es)"
    using assms(1,2) dirs_above_snoc [of _ "butlast ld" "last ld"] by auto
  show ?thesis
  proof (cases "lookup t l")
    case None
    then show ?thesis
      using put_new_None [OF parent assms(2-4) None] lookup_put_same [OF parent, of d] by (simp add: view_at_def)
  next
    case (Some n)
    with assms(3) have ne: "l \<noteq> ld" by auto
    show ?thesis
    proof (cases "is_dir n")
      case True
      with Some have "\<exists>a es. lookup t l = Some (Dir a es)" by (cases n) auto
      moreover from dir_kept_put [OF parent assms(2,3) this]
      have "\<exists>a es. lookup (put_at ld d t) l = Some (Dir a es)" .
      ultimately have "view_at (put_at ld d t) l = Some Folder_view" "view_at t l = Some Folder_view"
        by (simp_all only: view_folder)
      with ne show ?thesis by simp
    next
      case False
      with Some ne files_kept_put [OF assms(3), of d] show ?thesis by (simp add: files_kept_def view_at_def)
    qed
  qed
qed

subsection \<open>The stack\<close>

text \<open>
  A job: the location of a source, that of its destination, and the tree at the source. \<open>jobs_ok\<close>: every source is
  an ordinary tree, every destination is free below existing directories, no destination lies on the way to another
  one, and none lies on the way to a source or inside it.
\<close>

type_synonym job = "string list \<times> string list \<times> node"

fun job_ok :: "fs \<Rightarrow> job \<Rightarrow> bool" where
  "job_ok f (ls, ld, n) \<longleftrightarrow> at_path f ls n \<and> wf_node n \<and> plain_tree n
     \<and> (\<forall>c \<in> set ld. good_name c) \<and> ld \<noteq> [] \<and> dirs_above (root f) ld \<and> lookup (root f) ld = None"

fun job_apart :: "job \<Rightarrow> job \<Rightarrow> bool" where
  "job_apart (ls, ld, n) (ls', ld', n') \<longleftrightarrow> disjoint_loc ld ld' \<and> disjoint_loc ld ls' \<and> disjoint_loc ld' ls"

definition jobs_ok :: "fs \<Rightarrow> job list \<Rightarrow> bool" where
  "jobs_ok f js \<longleftrightarrow> (\<forall>j \<in> set js. job_ok f j \<and> disjoint_loc (fst (snd j)) (fst j)) \<and> sorted_wrt job_apart js"

fun job_paths :: "job \<Rightarrow> string \<times> string" where
  "job_paths (ls, ld, n) = (abs_path ls, abs_path ld)"

text \<open>The views of a copy, and of the file system when all jobs are done.\<close>

fun copied_view :: "fs \<Rightarrow> node \<Rightarrow> view" where
  "copied_view f (Reg a d) = File_view (copied_attr a f) d"
| "copied_view f n = Folder_view"

fun view_after :: "fs \<Rightarrow> job list \<Rightarrow> node \<Rightarrow> string list \<Rightarrow> view option" where
  "view_after f [] t l = view_at t l"
| "view_after f ((ls, ld, n) # js) t l =
     (if take (length ld) l = ld then map_option (copied_view f) (lookup n (drop (length ld) l)) else view_after f js t l)"

text \<open>The contents of the files of a tree in the order of its directories.\<close>

fun file_contents :: "node \<Rightarrow> byte list list" where
  "file_contents (Dir a es) = concat (map (\<lambda>e. file_contents (snd e)) es)"
| "file_contents (Reg a d) = [d]"
| "file_contents _ = []"

definition copy_report :: "byte list \<Rightarrow> u64 list \<Rightarrow> bool" where
  "copy_report d us \<longleftrightarrow> (\<exists>ns. us = of_nat (length d) # map of_nat ns @ [EOF_ind] \<and> marks_to 0 (length d) ns)"

lemma job_kept:
  assumes "job_ok f (ls, ld, n)" "dirs_above (root f) l" "l \<noteq> []" "lookup (root f) l = None" "dir_entries d = []"
    "disjoint_loc l ls" "disjoint_loc l ld"
  shows "job_ok (f\<lparr>root := put_at l d (root f)\<rparr>) (ls, ld, n)"
proof -
  note v = view_put_new [OF assms(2-5)]
  have "dirs_above (put_at l d (root f)) xs" if "dirs_above (root f) xs" for xs
    using that assms(4) unfolding dirs_above_view v view_None [symmetric] by auto
  then show ?thesis
    using assms by (simp add: at_path_def lookup_put_disjoint)
qed


lemma disjoint_iff: "disjoint_loc xs ys \<longleftrightarrow> (\<forall>r s. xs @ r \<noteq> ys @ s)"
proof
  assume d: "disjoint_loc xs ys"
  show "\<forall>r s. xs @ r \<noteq> ys @ s"
  proof (intro allI notI)
    fix r s
    assume "xs @ r = ys @ s"
    then consider u where "xs = ys @ u" | u where "ys = xs @ u" by (auto simp: append_eq_append_conv2)
    then show False using d by cases (auto simp: disjoint_loc_def)
  qed
next
  assume "\<forall>r s. xs @ r \<noteq> ys @ s"
  then show "disjoint_loc xs ys"
    unfolding disjoint_loc_def by (metis append_take_drop_id append_Nil2)
qed

lemma disjoint_append1: "disjoint_loc xs ys \<Longrightarrow> disjoint_loc (xs @ r) ys"
  by (simp add: disjoint_iff)

lemma disjoint_append2: "disjoint_loc xs ys \<Longrightarrow> disjoint_loc xs (ys @ r)"
  by (simp add: disjoint_iff)

lemma disjoint_sibling: "x \<noteq> y \<Longrightarrow> disjoint_loc (xs @ [x]) (xs @ [y])"
  by (simp add: disjoint_iff)

lemma sorted_distinct: "distinct (map fst es) \<Longrightarrow> sorted_wrt (\<lambda>x y. fst x \<noteq> fst y) es"
  by (induction es) auto

fun child_jobs :: "string list \<Rightarrow> string list \<Rightarrow> node \<Rightarrow> job list" where
  "child_jobs ls ld (Dir a es) = map (\<lambda>e. (ls @ [fst e], ld @ [fst e], snd e)) es"
| "child_jobs ls ld n = []"

lemma source_kept:
  assumes "at_path f ls n" "dirs_above (root f) l" "l \<noteq> []" "lookup (root f) l = None" "dir_entries d = []"
    "disjoint_loc l ls"
  shows "at_path (f\<lparr>root := put_at l d (root f)\<rparr>) ls n"
proof -
  note v = view_put_new [OF assms(2-5)]
  have "dirs_above (put_at l d (root f)) ls"
    using assms(1,4) unfolding at_path_def dirs_above_view v view_None [symmetric] by auto
  then show ?thesis
    using assms by (simp add: at_path_def lookup_put_disjoint)
qed

lemma rest_ok:
  assumes "jobs_ok f ((ls, ld, n) # js)" "dir_entries d = []"
  shows "jobs_ok (f\<lparr>root := put_at ld d (root f)\<rparr>) js"
  using assms job_kept [of f _ _ _ ld d] by (fastforce simp: jobs_ok_def)

lemma children_ok:
  assumes ok: "jobs_ok f ((ls, ld, Dir a es) # js)"
  shows "jobs_ok (f\<lparr>root := put_at ld (Dir b []) (root f)\<rparr>) (child_jobs ls ld (Dir a es) @ js)"
proof -
  let ?f1 = "f\<lparr>root := put_at ld (Dir b []) (root f)\<rparr>"
  have job: "job_ok f (ls, ld, Dir a es)" and dj: "disjoint_loc ld ls" using ok by (simp_all add: jobs_ok_def)
  have new: "dirs_above (root f) ld" "ld \<noteq> []" "lookup (root f) ld = None" "dir_entries (Dir b []) = []"
    using job by simp_all
  have src: "at_path ?f1 ls (Dir a es)"
    using job dj new by (intro source_kept) simp_all
  have dst: "dirs_above (root ?f1) ld \<and> lookup (root ?f1) ld = Some (Dir b [])"
  proof -
    obtain a' es' where "lookup (root f) (butlast ld) = Some (Dir a' es')"
      using new dirs_above_snoc [of _ "butlast ld" "last ld"] by auto
    then have "lookup (root ?f1) ld = Some (Dir b [])" by (simp add: lookup_put_same)
    moreover have "dirs_above (root ?f1) ld"
      using new(1,3) unfolding dirs_above_view view_None [symmetric] by (auto simp: view_put_new [OF new])
    ultimately show ?thesis by simp
  qed
  have child: "job_ok ?f1 (ls @ [x], ld @ [x], c) \<and> disjoint_loc (ld @ [x]) (ls @ [x])" if "(x, c) \<in> set es" for x c
    using at_path_child [OF src _ that] job that dst dj
    by (auto simp: dirs_above_snoc lookup_append disjoint_append1 disjoint_append2)
  have "sorted_wrt job_apart (child_jobs ls ld (Dir a es))"
    unfolding child_jobs.simps sorted_wrt_map
    using sorted_distinct [of es] job dj
    by (intro sorted_wrt_mono_rel [OF _ sorted_distinct]) (auto intro: disjoint_append1 disjoint_append2 disjoint_sibling)
  moreover have "job_apart j j'" if "j \<in> set (child_jobs ls ld (Dir a es))" "j' \<in> set js" for j j'
  proof -
    have "job_apart (ls, ld, Dir a es) j'" using that(2) ok by (simp add: jobs_ok_def)
    then show ?thesis using that(1) by (cases j') (auto intro: disjoint_append1 disjoint_append2)
  qed
  moreover have "jobs_ok ?f1 js" using ok new(4) by (rule rest_ok)
  ultimately show ?thesis
    using child by (auto simp: jobs_ok_def sorted_wrt_append)
qed


subsection \<open>The view of a copy\<close>

lemma view_after_cong: "view_at t l = view_at t' l \<Longrightarrow> view_after f js t l = view_after f js t' l"
  by (induction js) auto

lemma view_after_apart:
  "\<forall>j \<in> set js. disjoint_loc ld (fst (snd j)) \<Longrightarrow> view_after f js t (ld @ r) = view_at t (ld @ r)"
proof (induction js)
  case (Cons j js)
  obtain ls' ld' n' where j: "j = (ls', ld', n')" by (cases j)
  have "ld @ r \<noteq> ld' @ s" for s using Cons.prems j by (simp add: disjoint_iff)
  then have "take (length ld') (ld @ r) \<noteq> ld'" by (metis append_take_drop_id)
  with Cons j show ?case by simp
qed simp

lemma view_after_outside:
  "take (length ld) l \<noteq> ld \<Longrightarrow> view_after f (map (\<lambda>e. (ls @ [fst e], ld @ [fst e], snd e)) es @ js) t l = view_after f js t l"
proof (induction es)
  case (Cons e es)
  have "take (Suc (length ld)) l \<noteq> ld @ [fst e]"
  proof
    assume "take (Suc (length ld)) l = ld @ [fst e]"
    then have "take (length ld) (take (Suc (length ld)) l) = ld" by simp
    with Cons.prems show False by simp
  qed
  with Cons show ?case by simp
qed simp

lemma view_after_inside:
  "view_after f (map (\<lambda>e. (ls @ [fst e], ld @ [fst e], snd e)) es @ js) t (ld @ r)
   = (case r of [] \<Rightarrow> view_after f js t ld
      | x # r' \<Rightarrow> (case map_of es x of Some n \<Rightarrow> map_option (copied_view f) (lookup n r') | None \<Rightarrow> view_after f js t (ld @ r)))"
  by (induction es) (auto split: list.split option.split)

lemma view_children:
  assumes ok: "jobs_ok f ((ls, ld, Dir a es) # js)"
  shows "view_after f (child_jobs ls ld (Dir a es) @ js) (put_at ld (Dir b []) (root f)) l
    = view_after f ((ls, ld, Dir a es) # js) (root f) l"
proof -
  have new: "dirs_above (root f) ld" "ld \<noteq> []" "lookup (root f) ld = None" "dir_entries (Dir b []) = []"
    using ok by (simp_all add: jobs_ok_def)
  have apart: "\<forall>j \<in> set js. disjoint_loc ld (fst (snd j))" using ok by (fastforce simp: jobs_ok_def)
  note v = view_put_new [OF new]
  have none: "lookup (root f) (ld @ r) = None" for r using new(3) by (simp add: lookup_append)
  show ?thesis
  proof (cases "take (length ld) l = ld")
    case True
    then obtain r where l: "l = ld @ r" by (metis append_take_drop_id)
    show ?thesis
      using view_after_apart [OF apart, of f _ r] view_after_apart [OF apart, of f _ "[]"] none [of r]
      by (auto simp: l view_after_inside v view_None split: list.split option.split)
  next
    case False
    then have "l \<noteq> ld" by auto
    with False show ?thesis
      by (simp add: view_after_outside v view_after_cong [of "put_at ld (Dir b []) (root f)" l "root f"])
  qed
qed

lemma view_file:
  assumes ok: "jobs_ok f ((ls, ld, Reg a d) # js)"
  shows "view_after f js (put_at ld (Reg (copied_attr a f) d) (root f)) l = view_after f ((ls, ld, Reg a d) # js) (root f) l"
proof -
  have new: "dirs_above (root f) ld" "ld \<noteq> []" "lookup (root f) ld = None" "dir_entries (Reg (copied_attr a f) d) = []"
    using ok by (simp_all add: jobs_ok_def)
  have apart: "\<forall>j \<in> set js. disjoint_loc ld (fst (snd j))" using ok by (fastforce simp: jobs_ok_def)
  note v = view_put_new [OF new]
  show ?thesis
  proof (cases "take (length ld) l = ld")
    case True
    then obtain r where l: "l = ld @ r" by (metis append_take_drop_id)
    show ?thesis
      using view_after_apart [OF apart, of f _ r] new(3) by (cases r) (auto simp: l v view_None lookup_append)
  next
    case False
    then have "l \<noteq> ld" by auto
    with False show ?thesis by (simp add: v view_after_cong [of "put_at ld (Reg (copied_attr a f) d) (root f)" l "root f"])
  qed
qed


subsection \<open>The rounds of the loop\<close>

lemma efd_free:
  assumes "no_faults f" "\<forall>c \<in> set l. good_name c" "l \<noteq> []" "dirs_above (root f) l" "lookup (root f) l = None"
  shows "efd_of (abs_path l) f = 0"
proof -
  have "way_free (root f) l" using assms(4) by (simp add: way_free_def dirs_above_def)
  with assms stat_gen_missing show ?thesis by (simp add: efd_of_def sys_lstat_def)
qed

lemma job_efd:
  assumes "job_ok (wfs w) (ls, ld, n)"
  shows "\<exists>e. existsIsFileIsDir0 (abs_path ls) w = (Ret (if is_dir n then 2 else 1), w\<lparr>errno := e\<rparr>)"
    and "\<exists>e. existsIsFileIsDir0 (abs_path ld) w = (Ret 0, w\<lparr>errno := e\<rparr>)"
proof -
  show "\<exists>e. existsIsFileIsDir0 (abs_path ls) w = (Ret (if is_dir n then 2 else 1), w\<lparr>errno := e\<rparr>)"
    using efd_run [of "abs_path ls" w] efd_at_path [of "wfs w" ls n] assms by simp
  have "no_faults (wfs w)" using assms by (simp add: at_path_def)
  then have "efd_of (abs_path ld) (wfs w) = 0" using assms by (intro efd_free) simp_all
  then show "\<exists>e. existsIsFileIsDir0 (abs_path ld) w = (Ret 0, w\<lparr>errno := e\<rparr>)"
    using efd_run [of "abs_path ld" w] by simp
qed

lemma step_file:
  assumes ok: "job_ok (wfs w) (ls, ld, Reg a d)" and c: "cS c = (abs_path ls, abs_path ld) # S" and w: "wr h w"
  shows "\<exists>e us. copy_step junk h c w = (Ret (Some (c\<lparr>cS := S, cProgress := cProgress c + 1\<rparr>)),
      emit h (u64s_wire us) (w\<lparr>errno := e, wfs := set_file ld (copied_attr a (wfs w)) d (wfs w)\<rparr>)) \<and> copy_report d us"
proof -
  obtain e1 where 1: "existsIsFileIsDir0 (abs_path ls) w = (Ret 1, w\<lparr>errno := e1\<rparr>)"
    using job_efd(1) [OF ok] by auto
  obtain e2 where 2: "existsIsFileIsDir0 (abs_path ld) (w\<lparr>errno := e1\<rparr>) = (Ret 0, w\<lparr>errno := e2\<rparr>)"
    using job_efd(2) [of "w\<lparr>errno := e1\<rparr>" ls ld "Reg a d"] ok by auto
  obtain ns where 3: "oscopyfile h (abs_path ls) (abs_path ld) (w\<lparr>errno := e2\<rparr>)
      = (Ret OK_TYPE, emit h (u64s_wire (of_nat (length d) # map of_nat ns @ [EOF_ind]))
          (w\<lparr>errno := e2, wfs := set_file ld (copied_attr a (wfs w)) d (wfs w)\<rparr>))" "marks_to 0 (length d) ns"
    using oscopyfile_run [of "w\<lparr>errno := e2\<rparr>" ls a d ld h] ok w by auto
  show ?thesis
    using 1 2 3 c
    by (intro exI [of _ e2] exI [of _ "of_nat (length d) # map of_nat ns @ [EOF_ind]"])
      (auto simp: copy_step_def fileCopy_def bnd_app ret_app type_defs copy_report_def Let_def)
qed

lemma step_dir:
  assumes ok: "job_ok (wfs w) (ls, ld, Dir a es)" and dj: "disjoint_loc ld ls"
    and c: "cS c = (abs_path ls, abs_path ld) # S" and w: "\<forall>h. wr h w"
  shows "\<exists>e p. copy_step junk h c w = (Ret (Some (c\<lparr>cS := map job_paths (child_jobs ls ld (Dir a es)) @ S\<rparr>)),
      w\<lparr>wfs := (wfs w)\<lparr>root := put_at ld (Dir (new_attr 493 (wfs w)) []) (root (wfs w))\<rparr>, errno := e, progress := p\<rparr>)"
proof -
  let ?f1 = "(wfs w)\<lparr>root := put_at ld (Dir (new_attr 493 (wfs w)) []) (root (wfs w))\<rparr>"
  obtain e1 where 1: "existsIsFileIsDir0 (abs_path ls) w = (Ret 2, w\<lparr>errno := e1\<rparr>)"
    using job_efd(1) [OF ok] by auto
  obtain e2 where 2: "existsIsFileIsDir0 (abs_path ld) (w\<lparr>errno := e1\<rparr>) = (Ret 0, w\<lparr>errno := e2\<rparr>)"
    using job_efd(2) [of "w\<lparr>errno := e1\<rparr>" ls ld "Dir a es"] ok by auto
  obtain e3 where 3: "mkpath (abs_path ld) 493 True (w\<lparr>errno := e2\<rparr>) = (Ret 0, w\<lparr>errno := e3, wfs := ?f1\<rparr>)"
    using mkpath_new [of "w\<lparr>errno := e2\<rparr>" ld 493] ok by (auto simp: at_path_def)
  have "at_path ?f1 ls (Dir a es)"
    using ok dj by (intro source_kept) simp_all
  then obtain e4 p where 4: "listChildrenPairs (abs_path ls) (abs_path ld) (w\<lparr>errno := e3, wfs := ?f1\<rparr>)
      = (Ret (rev (map (\<lambda>e. (abs_path (ls @ [fst e]), abs_path (ld @ [fst e]))) es)), w\<lparr>wfs := ?f1, errno := e4, progress := p\<rparr>)"
    using listChildrenPairs_run [of "w\<lparr>errno := e3, wfs := ?f1\<rparr>" ls a es ld] ok w by auto
  show ?thesis
    using 1 2 3 4 c
    by (intro exI [of _ e4] exI [of _ p])
      (simp add: copy_step_def dirCopy_def pushChildrenPairs_def bnd_app ret_app type_defs comp_def Let_def)
qed


lemma copied_view_root [simp]: "copied_view (f\<lparr>root := t\<rparr>) = copied_view f"
proof
  show "copied_view (f\<lparr>root := t\<rparr>) n = copied_view f n" for n by (cases n) (simp_all add: copied_attr_def)
qed

lemma view_after_root [simp]: "view_after (f\<lparr>root := u\<rparr>) js t l = view_after f js t l"
  by (induction js) auto

definition job_nodes :: "job list \<Rightarrow> nat" where
  "job_nodes js = sum_list (map (\<lambda>j. nodes (snd (snd j))) js)"

definition job_contents :: "job list \<Rightarrow> byte list list" where
  "job_contents js = concat (map (\<lambda>j. file_contents (snd (snd j))) js)"

definition copied :: "nat \<Rightarrow> u8 \<Rightarrow> handle \<Rightarrow> copier \<Rightarrow> job list \<Rightarrow> world \<Rightarrow> bool" where
  "copied k junk h c js w \<longleftrightarrow> (\<exists>reports e p t.
     copy_loop k junk h c w = (Ret True, emit h (concat (map u64s_wire reports))
       (w\<lparr>wfs := (wfs w)\<lparr>root := t\<rparr>, errno := e, progress := p\<rparr>))
     \<and> list_all2 copy_report (job_contents js) reports \<and> (\<forall>l. view_at t l = view_after (wfs w) js (root (wfs w)) l))"

lemma copied_step:
  assumes step: "copy_step junk h c w = (Ret (Some c'), emit h (u64s_wire us) (w\<lparr>wfs := (wfs w)\<lparr>root := t1\<rparr>, errno := e, progress := p\<rparr>))"
    and ne: "cS c \<noteq> []"
    and rest: "copied k junk h c' js' (emit h (u64s_wire us) (w\<lparr>wfs := (wfs w)\<lparr>root := t1\<rparr>, errno := e, progress := p\<rparr>))"
    and views: "\<And>l. view_after (wfs w) js' t1 l = view_after (wfs w) js (root (wfs w)) l"
    and contents: "\<And>rs. list_all2 copy_report (job_contents js') rs \<Longrightarrow>
       \<exists>reports. list_all2 copy_report (job_contents js) reports \<and> u64s_wire us @ concat (map u64s_wire rs) = concat (map u64s_wire reports)"
  shows "copied (Suc k) junk h c js w"
proof -
  obtain rs e' p' t where r: "copy_loop k junk h c' (emit h (u64s_wire us) (w\<lparr>wfs := (wfs w)\<lparr>root := t1\<rparr>, errno := e, progress := p\<rparr>))
      = (Ret True, emit h (u64s_wire us @ concat (map u64s_wire rs)) (w\<lparr>wfs := (wfs w)\<lparr>root := t\<rparr>, errno := e', progress := p'\<rparr>))"
    "list_all2 copy_report (job_contents js') rs" "\<forall>l. view_at t l = view_after (wfs w) js' t1 l"
    using rest by (auto simp: copied_def)
  obtain reports where q: "list_all2 copy_report (job_contents js) reports"
    "u64s_wire us @ concat (map u64s_wire rs) = concat (map u64s_wire reports)"
    using contents [OF r(2)] by blast
  have "copy_loop (Suc k) junk h c w = (Ret True, emit h (concat (map u64s_wire reports))
      (w\<lparr>wfs := (wfs w)\<lparr>root := t\<rparr>, errno := e', progress := p'\<rparr>))"
    using step ne r(1) unfolding q(2) by (simp add: bnd_app)
  with q(1) r(3) views show ?thesis unfolding copied_def by metis
qed

lemma copied_Nil: "copied k junk h (c\<lparr>cS := []\<rparr>) [] w"
  unfolding copied_def
  by (intro exI [of _ "[]"] exI [of _ "errno w"] exI [of _ "progress w"] exI [of _ "root (wfs w)"])
    (cases k; simp add: ret_app job_contents_def)

lemma copied_file:
  assumes ok: "jobs_ok (wfs w) ((ls, ld, Reg a d) # js)" and stack: "cS c = (abs_path ls, abs_path ld) # map job_paths js"
    and w: "\<forall>h. wr h w"
    and rest: "\<And>c' w'. \<lbrakk>jobs_ok (wfs w') js; cS c' = map job_paths js; \<forall>h. wr h w'\<rbrakk> \<Longrightarrow> copied k junk h c' js w'"
  shows "copied (Suc k) junk h c ((ls, ld, Reg a d) # js) w"
proof -
  let ?n = "Reg (copied_attr a (wfs w)) d" and ?c = "c\<lparr>cS := map job_paths js, cProgress := cProgress c + 1\<rparr>"
  have "job_ok (wfs w) (ls, ld, Reg a d)" using ok by (simp add: jobs_ok_def)
  then obtain e us where 1: "copy_step junk h c w
      = (Ret (Some ?c), emit h (u64s_wire us) (w\<lparr>errno := e, wfs := set_file ld (copied_attr a (wfs w)) d (wfs w)\<rparr>))"
      "copy_report d us"
    using step_file [of w ls ld a d c "map job_paths js" h junk] stack w by blast
  show ?thesis
  proof (rule copied_step)
    show "copy_step junk h c w = (Ret (Some ?c), emit h (u64s_wire us)
        (w\<lparr>wfs := (wfs w)\<lparr>root := put_at ld ?n (root (wfs w))\<rparr>, errno := e, progress := progress w\<rparr>))"
      using 1(1) by (simp add: set_file_def upd_order)
    show "copied k junk h ?c js (emit h (u64s_wire us)
        (w\<lparr>wfs := (wfs w)\<lparr>root := put_at ld ?n (root (wfs w))\<rparr>, errno := e, progress := progress w\<rparr>))"
      using rest_ok [OF ok, of ?n] w by (intro rest) simp_all
    show "view_after (wfs w) js (put_at ld ?n (root (wfs w))) l
        = view_after (wfs w) ((ls, ld, Reg a d) # js) (root (wfs w)) l" for l
      using ok by (rule view_file)
    show "\<exists>reports. list_all2 copy_report (job_contents ((ls, ld, Reg a d) # js)) reports
        \<and> u64s_wire us @ concat (map u64s_wire rs) = concat (map u64s_wire reports)"
      if "list_all2 copy_report (job_contents js) rs" for rs
      using that 1(2) by (intro exI [of _ "us # rs"]) (simp add: job_contents_def)
  qed (simp add: stack)
qed

lemma copied_dir:
  fixes ls ld a es js
  defines "js' \<equiv> child_jobs ls ld (Dir a es) @ js"
  assumes ok: "jobs_ok (wfs w) ((ls, ld, Dir a es) # js)" and stack: "cS c = (abs_path ls, abs_path ld) # map job_paths js"
    and w: "\<forall>h. wr h w"
    and rest: "\<And>c' w'. \<lbrakk>jobs_ok (wfs w') js'; cS c' = map job_paths js'; \<forall>h. wr h w'\<rbrakk> \<Longrightarrow> copied k junk h c' js' w'"
  shows "copied (Suc k) junk h c ((ls, ld, Dir a es) # js) w"
proof -
  let ?t = "put_at ld (Dir (new_attr 493 (wfs w)) []) (root (wfs w))" and ?c = "c\<lparr>cS := map job_paths js'\<rparr>"
  have "job_ok (wfs w) (ls, ld, Dir a es)" "disjoint_loc ld ls" using ok by (simp_all add: jobs_ok_def)
  then obtain e p where 1: "copy_step junk h c w = (Ret (Some ?c), w\<lparr>wfs := (wfs w)\<lparr>root := ?t\<rparr>, errno := e, progress := p\<rparr>)"
    using step_dir [of w ls ld a es c "map job_paths js" junk h] stack w by (auto simp: js'_def)
  have ct: "job_contents js' = job_contents ((ls, ld, Dir a es) # js)"
    by (simp add: js'_def job_contents_def comp_def)
  show ?thesis
  proof (rule copied_step)
    show "copy_step junk h c w = (Ret (Some ?c), emit h (u64s_wire []) (w\<lparr>wfs := (wfs w)\<lparr>root := ?t\<rparr>, errno := e, progress := p\<rparr>))"
      using 1 by (simp add: u64s_wire_def)
    show "copied k junk h ?c js' (emit h (u64s_wire []) (w\<lparr>wfs := (wfs w)\<lparr>root := ?t\<rparr>, errno := e, progress := p\<rparr>))"
      using children_ok [OF ok] w by (intro rest) (simp_all add: js'_def)
    show "view_after (wfs w) js' ?t l = view_after (wfs w) ((ls, ld, Dir a es) # js) (root (wfs w)) l" for l
      unfolding js'_def using ok by (rule view_children)
    show "\<exists>reports. list_all2 copy_report (job_contents ((ls, ld, Dir a es) # js)) reports
        \<and> u64s_wire [] @ concat (map u64s_wire rs) = concat (map u64s_wire reports)"
      if "list_all2 copy_report (job_contents js') rs" for rs
      using that ct by (intro exI [of _ rs]) (simp add: u64s_wire_def)
  qed (simp add: stack)
qed

lemma job_nodes_Cons: "job_nodes ((ls, ld, n) # js) = nodes n + job_nodes js"
  by (simp add: job_nodes_def)

lemma job_nodes_children: "job_nodes (child_jobs ls ld (Dir a es) @ js) + 1 = job_nodes ((ls, ld, Dir a es) # js)"
  by (simp add: job_nodes_def comp_def)

lemma copy_loop_run:
  "\<lbrakk>jobs_ok (wfs w) js; cS c = map job_paths js; job_nodes js \<le> k; \<forall>h. wr h w\<rbrakk> \<Longrightarrow> copied k junk h c js w"
proof (induction k arbitrary: js c w)
  case 0
  have "js = []"
  proof (cases js)
    case (Cons j js')
    then show ?thesis using 0 nodes_pos [of "snd (snd j)"] by (cases j) (simp add: job_nodes_Cons)
  qed
  with 0 copied_Nil [of 0 junk h c w] show ?case by (cases c) simp
next
  case (Suc k)
  show ?case
  proof (cases js)
    case Nil
    with Suc.prems copied_Nil [of "Suc k" junk h c w] show ?thesis by (cases c) simp
  next
    case (Cons j js1)
    obtain ls ld n where j: "j = (ls, ld, n)" by (cases j)
    note p = Suc.prems [unfolded Cons j job_nodes_Cons]
    show ?thesis
    proof (cases n)
      case (Reg a d)
      with p Suc.IH show ?thesis unfolding Cons j by (auto intro!: copied_file)
    next
      case (Dir a es)
      with p job_nodes_children [of ls ld a es js1] have "job_nodes (child_jobs ls ld (Dir a es) @ js1) \<le> k"
        by (simp add: job_nodes_Cons)
      with p Suc.IH show ?thesis unfolding Cons j Dir by (auto intro!: copied_dir)
    qed (use p in \<open>simp_all add: jobs_ok_def\<close>)
  qed
qed


subsection \<open>A copy request\<close>

lemma disjoint_sym: "disjoint_loc xs ys \<Longrightarrow> disjoint_loc ys xs"
  by (auto simp: disjoint_loc_def)

lemma jobs_ok_rev: "jobs_ok f js \<Longrightarrow> jobs_ok f (rev js)"
  unfolding jobs_ok_def by (auto simp: sorted_wrt_rev elim!: sorted_wrt_mono_rel [rotated] intro: disjoint_sym)

definition under :: "string list \<Rightarrow> string list \<Rightarrow> bool" where
  "under ld l \<longleftrightarrow> take (length ld) l = ld"

lemma view_after_out: "\<forall>(ls, ld, n) \<in> set js. \<not> under ld l \<Longrightarrow> view_after f js t l = view_at t l"
  by (induction js) (auto simp: under_def)

lemma view_after_in:
  "\<lbrakk>jobs_ok f js; (ls, ld, n) \<in> set js\<rbrakk> \<Longrightarrow> view_after f js t (ld @ r) = map_option (copied_view f) (lookup n r)"
proof (induction js)
  case (Cons j js)
  obtain ls' ld' n' where j: "j = (ls', ld', n')" by (cases j)
  show ?case
  proof (cases "j = (ls, ld, n)")
    case False
    with Cons.prems have there: "(ls, ld, n) \<in> set js" by simp
    with Cons.prems(1) j have "disjoint_loc ld' ld" by (fastforce simp: jobs_ok_def)
    then have "ld' @ s \<noteq> ld @ r" for s by (simp add: disjoint_iff)
    then have "take (length ld') (ld @ r) \<noteq> ld'" by (metis append_take_drop_id)
    moreover have "jobs_ok f js" using Cons.prems(1) by (simp add: jobs_ok_def)
    ultimately show ?thesis using Cons.IH there j by simp
  qed simp
qed simp

definition job_sts :: "job list \<Rightarrow> sts_sz" where
  "job_sts js = \<lparr>tFiles = of_nat (sum_list (map (\<lambda>j. tree_files (snd (snd j))) js)),
     tFolders = of_nat (sum_list (map (\<lambda>j. tree_dirs (snd (snd j))) js)),
     tSize = of_nat (sum_list (map (\<lambda>j. tree_bytes (snd (snd j))) js))\<rparr>"

lemma populate_run:
  "\<forall>j \<in> set js. job_ok f j \<Longrightarrow> \<exists>m. says f u (populateStackFromCopyList c (map job_paths js))
     (c\<lparr>descendantCountMap := m, counts := add_sts_sz (counts c) (job_sts js), cS := rev (map job_paths js) @ cS c\<rparr>) (\<lambda>h. [])"
proof (induction js arbitrary: c)
  case Nil
  have "c\<lparr>descendantCountMap := descendantCountMap c, counts := add_sts_sz (counts c) (job_sts []), cS := cS c\<rparr> = c"
    by (cases c) (simp add: add_sts_sz_def job_sts_def)
  with says_ret [of f u c] show ?case
    by (intro exI [of _ "descendantCountMap c"]) (simp add: populateStackFromCopyList_def)
next
  case (Cons j js)
  obtain ls ld n where j: "j = (ls, ld, n)" by (cases j)
  let ?m = "tree_map ls n (descendantCountMap c)"
  let ?c = "c\<lparr>descendantCountMap := ?m, counts := add_sts_sz (counts c) (tree_sts n), cS := (abs_path ls, abs_path ld) # cS c\<rparr>"
  have "says f u (countStats (abs_path ls) (descendantCountMap c)) (tree_sts n, ?m) (\<lambda>h. [])"
    using Cons.prems j by (intro says_countStats) simp_all
  note 1 = says_bnd [OF this, of "\<lambda>r. ret (c\<lparr>descendantCountMap := snd r, counts := add_sts_sz (counts c) (fst r),
    cS := (abs_path ls, abs_path ld) # cS c\<rparr>)", OF says_ret, simplified]
  obtain m where m: "says f u (populateStackFromCopyList ?c (map job_paths js))
     (?c\<lparr>descendantCountMap := m, counts := add_sts_sz (counts ?c) (job_sts js), cS := rev (map job_paths js) @ cS ?c\<rparr>) (\<lambda>h. [])"
    using Cons by fastforce
  have sum: "add_sts_sz (add_sts_sz (counts c) (tree_sts n)) (job_sts js) = add_sts_sz (counts c) (job_sts (j # js))"
    by (simp add: add_sts_sz_def tree_sts_def job_sts_def j)
  show ?case
    unfolding populateStackFromCopyList_def
    by (intro exI [of _ m], simp add: j, rule says_cong, rule says_bnd [OF 1])
      (use m in \<open>simp_all add: populateStackFromCopyList_def sum [unfolded j]\<close>)
qed

definition hang_up :: "handle \<Rightarrow> world \<Rightarrow> world" where
  "hang_up h w = set_conn h (shut (conns w h)) w"

text \<open>
  C3: a copy request whose destinations are free copies every tree: afterwards every destination shows
  the files of its source with their contents and permissions and its directories, everything else is
  as before, and the client has received the totals, for every file its size, growing marks up to the size and the
  end mark, and then the final mark and the OK. One round of the loop per node suffices.
\<close>

theorem copy_request_copies_trees:
  assumes ok: "jobs_ok (wfs w) js" and send: "\<forall>j \<in> set js. sendable_pair (job_paths j)" and fuel: "job_nodes js \<le> fuel"
    and w: "\<forall>h. wr h w"
  shows "\<exists>reports e p t. copyFileOrDirectoryFullNew fuel junk h (feed h (path_list_wire (map job_paths js)) w)
      = (Ret (), hang_up h (emit h (le_bytes 8 (tFiles (job_sts js)) @ le_bytes 8 (tSize (job_sts js))
          @ concat (map u64s_wire reports) @ le_bytes 8 EOFs_ind @ ok_wire)
          (w\<lparr>wfs := (wfs w)\<lparr>root := t\<rparr>, errno := e, progress := p\<rparr>)))
    \<and> list_all2 copy_report (job_contents (rev js)) reports
    \<and> (\<forall>(ls, ld, n) \<in> set js. \<forall>r. view_at t (ld @ r) = map_option (copied_view (wfs w)) (lookup n r))
    \<and> (\<forall>l. (\<forall>(ls, ld, n) \<in> set js. \<not> under ld l) \<longrightarrow> view_at t l = view_at (root (wfs w)) l)"
proof -
  obtain m where "says (wfs w) (users w) (populateStackFromCopyList new_copier (map job_paths js))
     (new_copier\<lparr>descendantCountMap := m, counts := add_sts_sz (counts new_copier) (job_sts js),
        cS := rev (map job_paths js) @ cS new_copier\<rparr>) (\<lambda>h. [])"
    using populate_run ok by (metis jobs_ok_def)
  from saysD [OF this refl refl w] obtain c e1 p1 where 1: "populateStackFromCopyList new_copier (map job_paths js) w
      = (Ret c, w\<lparr>errno := e1, progress := p1\<rparr>)" and c: "counts c = job_sts js" "cS c = map job_paths (rev js)"
    by (fastforce simp: new_copier_def add_sts_sz_def job_sts_def rev_map)
  let ?w1 = "emit h (le_bytes 8 (tFiles (job_sts js)) @ le_bytes 8 (tSize (job_sts js))) (w\<lparr>errno := e1, progress := p1\<rparr>)"
  have "jobs_ok (wfs ?w1) (rev js)" using jobs_ok_rev ok by simp
  moreover have "job_nodes (rev js) \<le> fuel" using fuel by (simp add: job_nodes_def flip: rev_map)
  moreover have "\<forall>h. wr h ?w1" using w by simp
  ultimately have "copied fuel junk h c (rev js) ?w1" using c(2) by (intro copy_loop_run)
  then obtain reports e p t where 2: "copy_loop fuel junk h c ?w1 = (Ret True, emit h (concat (map u64s_wire reports))
       (?w1\<lparr>wfs := (wfs w)\<lparr>root := t\<rparr>, errno := e, progress := p\<rparr>))"
    "list_all2 copy_report (job_contents (rev js)) reports" "\<forall>l. view_at t l = view_after (wfs w) (rev js) (root (wfs w)) l"
    by (auto simp: copied_def)
  have "maincopy fuel junk h c (w\<lparr>errno := e1, progress := p1\<rparr>)
      = (Ret (), hang_up h (emit h (le_bytes 8 (tFiles (job_sts js)) @ le_bytes 8 (tSize (job_sts js))
          @ concat (map u64s_wire reports) @ le_bytes 8 EOFs_ind @ ok_wire)
          (w\<lparr>wfs := (wfs w)\<lparr>root := t\<rparr>, errno := e, progress := p\<rparr>)))"
    using 2(1) w c(1)
    by (simp add: maincopy_def bnd_app thn_app write_emit send_base ret_app hang_up_def closeDesc_def modify_def)
  moreover have "\<forall>(ls, ld, n) \<in> set js. \<forall>r. view_at t (ld @ r) = map_option (copied_view (wfs w)) (lookup n r)"
    using 2(3) view_after_in [OF jobs_ok_rev [OF ok]] by auto
  moreover have "view_at t l = view_at (root (wfs w)) l" if "\<forall>(ls, ld, n) \<in> set js. \<not> under ld l" for l
    using 2(3) view_after_out [of "rev js" l] that by simp
  ultimately show ?thesis
    using 1 2(2) send
    by (intro exI [of _ reports] exI [of _ e] exI [of _ p] exI [of _ t])
      (simp add: copyFileOrDirectoryFullNew_def bnd_app receive_path_list)
qed


definition sample_job :: job where
  "sample_job = ([''d''], [''e''], Dir attr0 [(''x'', Reg attr0 [1, 2, 3]), (''y'', Reg attr0 [4])])"

lemma sample_job_ok: "jobs_ok (wfs sample_world) [sample_job]"
  using sample_at by (simp add: jobs_ok_def sample_job_def)
    (simp add: sample_world_def good_name_def dirs_above_def disjoint_loc_def)

theorem copy_request_copies_trees_witness:
  "\<exists>reports e p t. copyFileOrDirectoryFullNew 3 0 Cl (feed Cl (path_list_wire [(''/d'', ''/e'')]) sample_world)
      = (Ret (), hang_up Cl (emit Cl (le_bytes 8 (2 :: u64) @ le_bytes 8 (4 :: u64)
          @ concat (map u64s_wire reports) @ le_bytes 8 EOFs_ind @ ok_wire)
          (sample_world\<lparr>wfs := (wfs sample_world)\<lparr>root := t\<rparr>, errno := e, progress := p\<rparr>)))
    \<and> list_all2 copy_report [[1, 2, 3], [4]] reports
    \<and> view_at t [''e'', ''x''] = Some (File_view (copied_attr attr0 (wfs sample_world)) [1, 2, 3])
    \<and> view_at t [''e'', ''z''] = None \<and> view_at t [''d''] = Some Folder_view"
proof -
  have "\<forall>j \<in> set [sample_job]. sendable_pair (job_paths j)" "job_nodes [sample_job] \<le> 3" "\<forall>h. wr h sample_world"
    by (simp_all add: sample_job_def sendable_pair_def job_nodes_def sample_world_def)
  from copy_request_copies_trees [OF sample_job_ok this, of 0 Cl]
  obtain reports e p t where r: "copyFileOrDirectoryFullNew 3 0 Cl (feed Cl (path_list_wire [(''/d'', ''/e'')]) sample_world)
      = (Ret (), hang_up Cl (emit Cl (le_bytes 8 (2 :: u64) @ le_bytes 8 (4 :: u64)
          @ concat (map u64s_wire reports) @ le_bytes 8 EOFs_ind @ ok_wire)
          (sample_world\<lparr>wfs := (wfs sample_world)\<lparr>root := t\<rparr>, errno := e, progress := p\<rparr>)))"
    "list_all2 copy_report [[1, 2, 3], [4]] reports"
    "\<And>r. view_at t ([''e''] @ r) = map_option (copied_view (wfs sample_world)) (lookup (snd (snd sample_job)) r)"
    "\<And>l. \<not> under [''e''] l \<Longrightarrow> view_at t l = view_at (root (wfs sample_world)) l"
    by (auto simp: sample_job_def job_sts_def job_contents_def)
  have "view_at t [''d''] = Some Folder_view"
    using r(4) [of "[''d'']"] by (simp add: under_def sample_world_def view_at_def)
  with r(1,2) r(3) [of "[''x'']"] r(3) [of "[''z'']"] show ?thesis
    by (intro exI [of _ reports] exI [of _ e] exI [of _ p] exI [of _ t]) (simp add: sample_job_def)
qed

subsection \<open>Decisions for all\<close>

text \<open>A conflict that is handled only changes the decision of its kind.\<close>

lemma handleConflict_perm:
  "rets (handleConflict junk h c src dest dec t) (\<lambda>c'. permFile c' = permFile (remember c dec t) \<and> permDir c' = permDir (remember c dec t))"
  unfolding handleConflict_def Let_def autoRenameDest_def autoRenameSrc_def pushChildrenPairs_def pushSrcWithDifferentName_def
  by (intro rets_rules) simp_all


definition same_decisions :: "copier \<Rightarrow> copier \<Rightarrow> bool" where
  "same_decisions c c' \<longleftrightarrow> permFile c' = permFile c \<and> permDir c' = permDir c"

lemma same_decisions_set_info [simp]: "same_decisions c (set_info c' s d t e) = same_decisions c c'"
  by (simp add: same_decisions_def set_info_def)

text \<open>The result of copying one item: a conflict is only reported while nothing is decided for all.\<close>

definition asked :: "nat \<Rightarrow> u8 \<Rightarrow> copier \<Rightarrow> nat \<times> copier \<Rightarrow> bool" where
  "asked t p c x \<longleftrightarrow> same_decisions c (snd x) \<and> fst x \<in> {OK_TYPE, UNSOLVABLE_ERROR_TYPE, t} \<and> (fst x = t \<longrightarrow> p = NO_PREV_DEC)"

lemma asked_ok: "\<lbrakk>t \<in> {CONFLICT_TYPE_FILE, CONFLICT_TYPE_DIR}; r \<in> {OK_TYPE, UNSOLVABLE_ERROR_TYPE}; same_decisions c c'\<rbrakk> \<Longrightarrow> asked t p c (r, c')"
  by (auto simp: asked_def type_defs)

lemma asked_conflict: "\<lbrakk>p = NO_PREV_DEC; same_decisions c c'\<rbrakk> \<Longrightarrow> asked t p c (t, c')"
  by (simp add: asked_def)

lemma same_decisions_refl [simp]: "same_decisions c c"
  by (simp add: same_decisions_def)

lemma handle_again:
  assumes "p = (if t = CONFLICT_TYPE_FILE then permFile c else permDir c)" "t \<in> {CONFLICT_TYPE_FILE, CONFLICT_TYPE_DIR}"
  shows "rets (bnd (handleConflict junk h c src dest p t) (\<lambda>c'. ret (OK_TYPE, c'))) (asked t p c)"
proof (rule rets_bnd_post [OF handleConflict_perm])
  fix c' :: copier
  assume "permFile c' = permFile (remember c p t) \<and> permDir c' = permDir (remember c p t)"
  then have "same_decisions c c'"
    using assms by (auto simp: same_decisions_def remember_def split: if_splits)
  with assms(2) show "rets (ret (OK_TYPE, c')) (asked t p c)" by (intro rets_ret asked_ok) simp_all
qed

lemma asked_set_info [simp]: "asked t p c (r, set_info c' s d ty e) = asked t p c (r, c')"
  by (simp add: asked_def)

lemma fileCopy_asked: "rets (fileCopy junk h c src dest) (asked CONFLICT_TYPE_FILE (permFile c) c)"
  unfolding fileCopy_def
proof (rule rets_bnd, rule rets_bnd_post [where Q = "asked CONFLICT_TYPE_FILE (permFile c) c"])
  fix e :: nat
  have 1: "rets (bnd (oscopyfile h src dest) (\<lambda>r. ret (if r = UNSOLVABLE_ERROR_TYPE then UNSOLVABLE_ERROR_TYPE else OK_TYPE, c)))
      (asked CONFLICT_TYPE_FILE (permFile c) c)"
    by (rule rets_bnd, rule rets_ret, rule asked_ok) simp_all
  show "rets (if e = 0 then bnd (oscopyfile h src dest) (\<lambda>r. ret (if r = UNSOLVABLE_ERROR_TYPE then UNSOLVABLE_ERROR_TYPE else OK_TYPE, c))
          else if permFile c = NO_PREV_DEC then ret (CONFLICT_TYPE_FILE, c)
          else if permFile c = CD_SKIP_ALL then thn (sendSkipInfo h c src) (ret (OK_TYPE, c))
          else bnd (handleConflict junk h c src dest (permFile c) CONFLICT_TYPE_FILE) (\<lambda>c'. ret (OK_TYPE, c')))
      (asked CONFLICT_TYPE_FILE (permFile c) c)"
    by (intro rets_if rets_thn 1 handle_again) (auto intro!: rets_ret asked_ok asked_conflict)
next
  show "rets (case x of (r, c') \<Rightarrow> ret (r, if r = CONFLICT_TYPE_FILE \<or> r = UNSOLVABLE_ERROR_TYPE then set_info c' src dest 0 e else c'))
      (asked CONFLICT_TYPE_FILE (permFile c) c)" if "asked CONFLICT_TYPE_FILE (permFile c) c x" for x and e :: nat
    using that by (cases x) (auto intro!: rets_ret)
qed

lemma dirCopy_asked: "rets (dirCopy junk h c src dest) (asked CONFLICT_TYPE_DIR (permDir c) c)"
  unfolding dirCopy_def
proof (rule rets_bnd, rule rets_bnd_post [where Q = "asked CONFLICT_TYPE_DIR (permDir c) c"])
  fix e :: nat
  have push: "rets (pushChildrenPairs c src dest) (same_decisions c)"
    unfolding pushChildrenPairs_def by (rule rets_bnd, rule rets_ret) (simp add: same_decisions_def)
  have 1: "rets (bnd (mkpath dest 493 True) (\<lambda>m. if m < 0 then ret (UNSOLVABLE_ERROR_TYPE, c)
      else bnd (pushChildrenPairs c src dest) (\<lambda>c'. ret (OK_TYPE, c')))) (asked CONFLICT_TYPE_DIR (permDir c) c)"
    by (rule rets_bnd, rule rets_if, rule rets_ret, rule asked_ok, simp_all,
        rule rets_bnd_post [OF push], rule rets_ret, rule asked_ok, simp_all)
  show "rets (if e = 0 then bnd (mkpath dest 493 True) (\<lambda>m. if m < 0 then ret (UNSOLVABLE_ERROR_TYPE, c)
              else bnd (pushChildrenPairs c src dest) (\<lambda>c'. ret (OK_TYPE, c')))
          else if permDir c = NO_PREV_DEC then ret (CONFLICT_TYPE_DIR, c)
          else if permDir c = CD_SKIP_ALL then thn (sendSkipInfo h c src) (ret (OK_TYPE, c))
          else bnd (handleConflict junk h c src dest (permDir c) CONFLICT_TYPE_DIR) (\<lambda>c'. ret (OK_TYPE, c')))
      (asked CONFLICT_TYPE_DIR (permDir c) c)"
    by (intro rets_if rets_thn 1 handle_again) (auto simp: type_defs intro!: rets_ret asked_ok asked_conflict)
next
  show "rets (case x of (r, c') \<Rightarrow> ret (r, if r = CONFLICT_TYPE_DIR \<or> r = UNSOLVABLE_ERROR_TYPE then set_info c' src dest 1 e else c'))
      (asked CONFLICT_TYPE_DIR (permDir c) c)" if "asked CONFLICT_TYPE_DIR (permDir c) c x" for x and e :: nat
    using that by (cases x) (auto intro!: rets_ret)
qed

text \<open>
  The decisions of two states agree where the first has one.
\<close>

definition decided :: "copier \<Rightarrow> copier \<Rightarrow> bool" where
  "decided c c' \<longleftrightarrow> (permFile c \<noteq> NO_PREV_DEC \<longrightarrow> permFile c' = permFile c) \<and> (permDir c \<noteq> NO_PREV_DEC \<longrightarrow> permDir c' = permDir c)"

lemma decided_trans: "\<lbrakk>decided a b; decided b c\<rbrakk> \<Longrightarrow> decided a c"
  by (auto simp: decided_def)

lemma answer_decided:
  assumes "asked t p c x" "p = (if t = CONFLICT_TYPE_FILE then permFile c else permDir c)" "fst x = t"
  shows "rets (bnd (handleConflict junk h (snd x) src dest dec t) (\<lambda>c'. ret (Some c'))) (\<lambda>r. \<forall>c'. r = Some c' \<longrightarrow> decided c c')"
  by (rule rets_bnd_post [OF handleConflict_perm])
    (use assms in \<open>auto simp: asked_def decided_def same_decisions_def remember_def type_defs intro!: rets_ret split: if_splits\<close>)

lemma copy_step_decided: "rets (copy_step junk h c) (\<lambda>r. \<forall>c'. r = Some c' \<longrightarrow> decided c c')"
proof (cases "cS c")
  case Nil
  then show ?thesis by (auto simp: copy_step_def decided_def intro: rets_ret)
next
  case (Cons sd S)
  obtain src dest where sd: "sd = (src, dest)" by (cases sd)
  let ?c = "c\<lparr>cS := S\<rparr>"
  let ?after = "\<lambda>efd :: nat. \<lambda>(r, c'). if r = UNSOLVABLE_ERROR_TYPE then thn (unsolvableError junk h c' src dest) (ret (Some c'))
      else if r = CONFLICT_TYPE_FILE \<or> r = CONFLICT_TYPE_DIR then
        bnd (waitConflictOrErrorDec junk h c' src dest True) (\<lambda>dec.
        bnd (handleConflict junk h c' src dest dec r) (\<lambda>c''. ret (Some c'')))
      else ret (Some (if efd = 1 then c'\<lparr>cProgress := cProgress c' + 1\<rparr> else c'))"
  have after: "rets (?after efd x) (\<lambda>r. \<forall>c'. r = Some c' \<longrightarrow> decided ?c c')"
    if a: "asked t p ?c x" and p: "p = (if t = CONFLICT_TYPE_FILE then permFile ?c else permDir ?c)"
      and t: "t \<in> {CONFLICT_TYPE_FILE, CONFLICT_TYPE_DIR}" for efd x t p
  proof -
    obtain r c' where x: "x = (r, c')" by (cases x)
    have same: "decided ?c (c'\<lparr>cProgress := u\<rparr>)" "decided ?c c'" for u
      using a x by (auto simp: asked_def decided_def same_decisions_def)
    have ans: "rets (bnd (handleConflict junk h c' src dest dec r) (\<lambda>c''. ret (Some c'')))
        (\<lambda>r. \<forall>c'. r = Some c' \<longrightarrow> decided ?c c')" if "r \<in> {CONFLICT_TYPE_FILE, CONFLICT_TYPE_DIR}" for dec
    proof -
      have "r = t" using a that t x by (auto simp: asked_def type_defs)
      with answer_decided [OF a p] x show ?thesis by simp
    qed
    show ?thesis
      unfolding x prod.case
      by (rule rets_if, rule rets_thn, rule rets_ret, simp add: same, rule rets_if, rule rets_bnd, rule ans, simp,
          rule rets_ret, simp add: same)
  qed
  have item: "rets (bnd (if efd = 1 then fileCopy junk h ?c src dest else dirCopy junk h ?c src dest) (?after efd))
      (\<lambda>r. \<forall>c'. r = Some c' \<longrightarrow> decided ?c c')" for efd :: nat
  proof (cases "efd = 1")
    case True
    then show ?thesis using fileCopy_asked [of junk h ?c src dest] by (auto intro!: rets_bnd_post [OF _ after])
  next
    case False
    have p: "permDir ?c = (if CONFLICT_TYPE_DIR = CONFLICT_TYPE_FILE then permFile ?c else permDir ?c)"
      by (simp add: type_defs)
    have "rets (bnd (dirCopy junk h ?c src dest) (?after efd)) (\<lambda>r. \<forall>c'. r = Some c' \<longrightarrow> decided ?c c')"
      by (rule rets_bnd_post [OF dirCopy_asked], rule after [OF _ p]) simp_all
    with False show ?thesis by simp
  qed
  have "decided ?c c' = decided c c'" for c' by (simp add: decided_def)
  note item = item [unfolded this]
  show ?thesis
    unfolding copy_step_def Cons sd list.case prod.case Let_def
    by (rule rets_bnd, rule rets_if, rule rets_ret, simp, rule item)
qed

text \<open>The states of the copier and of the world after any number of rounds, whatever the client answers.\<close>

inductive copying :: "handle \<Rightarrow> copier \<times> world \<Rightarrow> copier \<times> world \<Rightarrow> bool" for h :: handle where
  copying_start: "copying h s s"
| copying_round: "\<lbrakk>copying h s (c, w); copy_step junk h c w = (Ret (Some c'), w')\<rbrakk> \<Longrightarrow> copying h s (c', w')"

lemma copying_decided: "copying h s s' \<Longrightarrow> decided (fst s) (fst s')"
proof (induction rule: copying.induct)
  case copying_start
  show ?case by (simp add: decided_def)
next
  case (copying_round s c w junk c' w')
  then have "decided c c'" using copy_step_decided unfolding rets_def by blast
  with copying_round.IH show ?case by (auto intro: decided_trans)
qed


text \<open>A round in which a file is skipped because the client has skipped all files before.\<close>

definition skip_copier :: copier where
  "skip_copier = new_copier\<lparr>cS := [(''/d/x'', ''/d/y'')], permFile := CD_SKIP_ALL\<rparr>"

lemma skip_round:
  "\<exists>e. copy_step 0 Cl skip_copier sample_world = (Ret (Some (skip_copier\<lparr>cS := [], cProgress := 1\<rparr>)),
     emit Cl (le_bytes 8 SKIP_ind @ le_bytes 8 (0 :: u64) @ le_bytes 8 (0 :: u64)) (sample_world\<lparr>errno := e\<rparr>))"
proof -
  have efd: "efd_of ''/d/x'' (wfs sample_world) = 1" "efd_of ''/d/y'' (wfs sample_world) = 1"
    by (simp_all add: efd_of_def sys_lstat_def stat_gen_def sample_world_def faulty_def resolve_def split_path_def)
  obtain e1 where 1: "existsIsFileIsDir0 ''/d/x'' sample_world = (Ret 1, sample_world\<lparr>errno := e1\<rparr>)"
    using efd_run [of "''/d/x''" sample_world] efd by auto
  obtain e2 where 2: "existsIsFileIsDir0 ''/d/y'' (sample_world\<lparr>errno := e1\<rparr>) = (Ret 1, sample_world\<lparr>errno := e2\<rparr>)"
    using efd_run [of "''/d/y''" "sample_world\<lparr>errno := e1\<rparr>"] efd by auto
  have w: "\<forall>h. wr h sample_world" by (simp add: sample_world_def)
  have "CD_SKIP_ALL \<noteq> NO_PREV_DEC" by (simp add: CD_defs)
  with 1 2 w show ?thesis
    by (intro exI [of _ e2])
      (simp add: copy_step_def fileCopy_def skip_copier_def new_copier_def sendSkipInfo_def bnd_app thn_app ret_app write_emit
        type_defs Let_def)
qed


end
