(* ===== verification/RH_ArchType.thy ===== *)
theory RH_ArchType
  imports RH_Hash RH_Unicode
begin

section \<open>Types of archives\<close>

text \<open>
  archiveTypeDetector.h and the name functions at the head of archiveOps.h: how the program decides which
  codec of the 7-Zip library it asks for. The main result is that the signatures exclude one another, so
  that the order of the tests does not matter.
\<close>

datatype ArchiveType = SevenZ | XZ | RAR | RAR5 | ZIP | CAB | GZ | BZ2 | TAR | UNKNOWN

definition archiveExtsToTypes :: "(string \<times> ArchiveType) list" where
  "archiveExtsToTypes = [(''7z'', SevenZ), (''xz'', XZ), (''rar'', RAR5), (''zip'', ZIP), (''cab'', CAB),
     (''gz'', GZ), (''bz2'', BZ2), (''tar'', TAR)]"

definition rh_archive_headers :: "byte list list" where
  "rh_archive_headers =
     [[0x37, 0x7A, 0xBC, 0xAF, 0x27, 0x1C],
      [0xFD, 0x37, 0x7A, 0x58, 0x5A, 0x00],
      [0x52, 0x61, 0x72, 0x21, 0x1A, 0x07, 0x00],
      [0x52, 0x61, 0x72, 0x21, 0x1A, 0x07, 0x01, 0x00],
      [0x50, 0x4B, 0x03, 0x04],
      [0x4D, 0x53, 0x43, 0x46],
      [0x1F, 0x8B, 0x08],
      [0x42, 0x5A, 0x68]]"

definition headers_lengths :: "nat list" where
  "headers_lengths = [6, 6, 7, 8, 4, 4, 3, 3]"

definition tar_header :: "byte list" where "tar_header = [0x75, 0x73, 0x74, 0x61, 0x72]"
definition tar_header_offset :: nat where "tar_header_offset = 0x101"
definition tar_header_length :: nat where "tar_header_length = 5"

text \<open>The cast of the loop index to the enumeration.\<close>

definition enum_labels :: "ArchiveType list" where
  "enum_labels = [SevenZ, XZ, RAR, RAR5, ZIP, CAB, GZ, BZ2, TAR, UNKNOWN]"

definition archiveTypeFromExtension :: "string \<Rightarrow> ArchiveType" where
  "archiveTypeFromExtension ext = (case map_of archiveExtsToTypes ext of Some t \<Rightarrow> t | None \<Rightarrow> UNKNOWN)"

text \<open>The loop over the signatures at offset 0, on the buffer \<open>h\<close>.\<close>

primrec test_headers :: "byte list \<Rightarrow> nat list \<Rightarrow> ArchiveType option" where
  "test_headers h [] = None"
| "test_headers h (i # is) =
     (if take (headers_lengths ! i) h = take (headers_lengths ! i) (rh_archive_headers ! i) then Some (enum_labels ! i)
      else test_headers h is)"

definition detect_in :: "byte list \<Rightarrow> nat \<Rightarrow> ArchiveType" where
  "detect_in h readBytes =
     (if readBytes < 8 then UNKNOWN
      else case test_headers h [0..<length headers_lengths] of
        Some t \<Rightarrow> t
      | None \<Rightarrow>
          if tar_header_offset + tar_header_length \<le> readBytes
              \<and> take tar_header_length (drop tar_header_offset h) = tar_header then TAR else UNKNOWN)"

definition detectArchiveType :: "string \<Rightarrow> ArchiveType io" where
  "detectArchiveType archivePath =
     bnd (io_query (sys_open_read archivePath)) (\<lambda>f. case f of
       None \<Rightarrow> ret UNKNOWN
     | Some d \<Rightarrow>
         bnd (io_query (sys_read d 512)) (\<lambda>r.
         let bs = (case r of None \<Rightarrow> [] | Some bs \<Rightarrow> bs) in
         ret (detect_in (bs @ replicate (512 - length bs) 0) (length bs))))"

subsection \<open>Names\<close>

definition has_suffix :: "string \<Rightarrow> string \<Rightarrow> bool" where
  "has_suffix str suffix \<longleftrightarrow> length suffix \<le> length str \<and> drop (length str - length suffix) str = suffix"

definition toUppercaseStringCopy :: "string \<Rightarrow> string" where
  "toUppercaseStringCopy s = map (\<lambda>c. let n = (of_char c :: nat) in if 97 \<le> n \<and> n \<le> 122 then char_of (n - 32) else c) s"

definition stream_ext :: "ArchiveType \<Rightarrow> string" where
  "stream_ext t = (case t of XZ \<Rightarrow> ''.XZ'' | GZ \<Rightarrow> ''.GZ'' | BZ2 \<Rightarrow> ''.BZ2'' | _ \<Rightarrow> [])"

definition getVirtualInnerNameForStreamArchive :: "string \<Rightarrow> ArchiveType \<Rightarrow> string" where
  "getVirtualInnerNameForStreamArchive archiveName archiveType =
     (let uppercaseString = toUppercaseStringCopy archiveName; ext = stream_ext archiveType in
      if has_suffix uppercaseString ext then take (length archiveName - length ext) archiveName else archiveName)"

definition is_stream :: "ArchiveType \<Rightarrow> bool" where
  "is_stream t \<longleftrightarrow> t = XZ \<or> t = GZ \<or> t = BZ2"

subsection \<open>Properties\<close>

text \<open>The signature of a type and the place where it stands.\<close>

definition signature :: "ArchiveType \<Rightarrow> (nat \<times> byte list) option" where
  "signature t = (case t of
      SevenZ \<Rightarrow> Some (0, [0x37, 0x7A, 0xBC, 0xAF, 0x27, 0x1C]) | XZ \<Rightarrow> Some (0, [0xFD, 0x37, 0x7A, 0x58, 0x5A, 0x00])
    | RAR \<Rightarrow> Some (0, [0x52, 0x61, 0x72, 0x21, 0x1A, 0x07, 0x00])
    | RAR5 \<Rightarrow> Some (0, [0x52, 0x61, 0x72, 0x21, 0x1A, 0x07, 0x01, 0x00])
    | ZIP \<Rightarrow> Some (0, [0x50, 0x4B, 0x03, 0x04]) | CAB \<Rightarrow> Some (0, [0x4D, 0x53, 0x43, 0x46])
    | GZ \<Rightarrow> Some (0, [0x1F, 0x8B, 0x08]) | BZ2 \<Rightarrow> Some (0, [0x42, 0x5A, 0x68])
    | TAR \<Rightarrow> Some (0x101, [0x75, 0x73, 0x74, 0x61, 0x72]) | UNKNOWN \<Rightarrow> None)"

definition signed :: "byte list \<Rightarrow> ArchiveType \<Rightarrow> bool" where
  "signed c t \<longleftrightarrow> (case signature t of None \<Rightarrow> False | Some (n, s) \<Rightarrow> take (length s) (drop n c) = s)"

definition signed_at_0 :: "ArchiveType set" where
  "signed_at_0 = {SevenZ, XZ, RAR, RAR5, ZIP, CAB, GZ, BZ2}"

lemma signed_simps:
  "signed c SevenZ \<longleftrightarrow> take 6 c = [0x37, 0x7A, 0xBC, 0xAF, 0x27, 0x1C]"
  "signed c XZ \<longleftrightarrow> take 6 c = [0xFD, 0x37, 0x7A, 0x58, 0x5A, 0x00]"
  "signed c RAR \<longleftrightarrow> take 7 c = [0x52, 0x61, 0x72, 0x21, 0x1A, 0x07, 0x00]"
  "signed c RAR5 \<longleftrightarrow> take 8 c = [0x52, 0x61, 0x72, 0x21, 0x1A, 0x07, 0x01, 0x00]"
  "signed c ZIP \<longleftrightarrow> take 4 c = [0x50, 0x4B, 0x03, 0x04]"
  "signed c CAB \<longleftrightarrow> take 4 c = [0x4D, 0x53, 0x43, 0x46]"
  "signed c GZ \<longleftrightarrow> take 3 c = [0x1F, 0x8B, 0x08]"
  "signed c BZ2 \<longleftrightarrow> take 3 c = [0x42, 0x5A, 0x68]"
  "signed c TAR \<longleftrightarrow> take 5 (drop 257 c) = [0x75, 0x73, 0x74, 0x61, 0x72]"
  "signed c UNKNOWN \<longleftrightarrow> False"
  by (simp_all add: signed_def signature_def eval_nat_numeral(2,3))

lemma signed_prefix:
  assumes "signed c t" and "t \<in> signed_at_0"
  shows "\<exists>s r. signature t = Some (0, s) \<and> c = s @ r"
proof -
  obtain s where s: "signature t = Some (0, s)"
    using assms(2) by (auto simp: signed_at_0_def signature_def)
  with assms(1) have "take (length s) c = s" by (simp add: signed_def)
  then have "c = s @ drop (length s) c" using append_take_drop_id [of "length s" c] by simp
  with s show ?thesis by blast
qed

lemma signed_exclusive:
  assumes "signed c t" "signed c t'" "t \<in> signed_at_0" "t' \<in> signed_at_0"
  shows "t = t'"
proof -
  obtain s r where s: "signature t = Some (0, s)" "c = s @ r" using signed_prefix [OF assms(1,3)] by blast
  obtain s' r' where s': "signature t' = Some (0, s')" "c = s' @ r'" using signed_prefix [OF assms(2,4)] by blast
  show ?thesis
    using s s' assms(3,4) unfolding signed_at_0_def by (auto simp: signature_def)
qed

text \<open>The buffer agrees with the content on the signatures, because it is padded with zeros only past its end.\<close>

lemma buffer_take:
  assumes "k \<le> length c" "k \<le> 512"
  shows "take k (take 512 c @ replicate n 0) = take k c"
  using assms by (simp add: min_def)

lemma test_headers_eq:
  "test_headers h [0..<length headers_lengths] =
     (if signed h SevenZ then Some SevenZ else if signed h XZ then Some XZ else if signed h RAR then Some RAR
      else if signed h RAR5 then Some RAR5 else if signed h ZIP then Some ZIP else if signed h CAB then Some CAB
      else if signed h GZ then Some GZ else if signed h BZ2 then Some BZ2 else None)"
  by (simp add: headers_lengths_def rh_archive_headers_def enum_labels_def signed_simps upt_rec)

lemma test_headers_iff:
  "test_headers h [0..<length headers_lengths] = Some t \<longleftrightarrow> t \<in> signed_at_0 \<and> signed h t"
proof
  assume "test_headers h [0..<length headers_lengths] = Some t"
  then show "t \<in> signed_at_0 \<and> signed h t"
    unfolding test_headers_eq by (auto simp: signed_at_0_def split: if_splits)
next
  assume t: "t \<in> signed_at_0 \<and> signed h t"
  then have "test_headers h [0..<length headers_lengths] \<noteq> None"
    unfolding test_headers_eq by (auto simp: signed_at_0_def)
  then obtain t' where t': "test_headers h [0..<length headers_lengths] = Some t'" by blast
  then have "t' \<in> signed_at_0 \<and> signed h t'"
    unfolding test_headers_eq by (auto simp: signed_at_0_def split: if_splits)
  with t t' show "test_headers h [0..<length headers_lengths] = Some t"
    using signed_exclusive by blast
qed

lemma signed_buffer:
  assumes "8 \<le> length c" "t \<in> signed_at_0"
  shows "signed (take 512 c @ replicate n 0) t = signed c t"
  using assms by (auto simp: signed_simps signed_at_0_def)

lemma detect_in_iff:
  assumes "t \<noteq> UNKNOWN"
  shows "detect_in (take 512 c @ replicate (512 - length (take 512 c)) 0) (length (take 512 c)) = t
    \<longleftrightarrow> 8 \<le> length c \<and> signed c t \<and> (t = TAR \<longrightarrow> (\<forall>t' \<in> signed_at_0. \<not> signed c t'))"
proof -
  let ?h = "take 512 c @ replicate (512 - length (take 512 c)) 0"
  have tar: "signed c TAR \<longleftrightarrow> 262 \<le> length c \<and> take 5 (drop 257 c) = tar_header"
    by (auto simp: signed_simps tar_header_def dest: arg_cong [of _ _ length])
  have tarh: "262 \<le> length c \<Longrightarrow> take 5 (drop 257 ?h) = take 5 (drop 257 c)"
    by (simp add: take_drop min_def)
  show ?thesis
  proof (cases "8 \<le> length c")
    case False
    with assms show ?thesis by (auto simp: detect_in_def)
  next
    case True
    have some: "test_headers ?h [0..<length headers_lengths] = Some t' \<longleftrightarrow> t' \<in> signed_at_0 \<and> signed c t'" for t'
      unfolding test_headers_iff using signed_buffer [OF True] by blast
    show ?thesis
    proof (cases "test_headers ?h [0..<length headers_lengths]")
      case None
      then have "\<forall>t' \<in> signed_at_0. \<not> signed c t'" using some by force
      with None True assms tar tarh show ?thesis
        by (cases t) (auto simp: detect_in_def tar_header_offset_def tar_header_length_def signed_at_0_def)
    next
      case (Some t')
      with some have t': "t' \<in> signed_at_0" "signed c t'" by blast+
      with Some True assms show ?thesis
        using signed_exclusive [of c t' t]
        by (cases t) (auto simp: detect_in_def signed_at_0_def)
    qed
  qed
qed

lemma detect_run:
  assumes "at_path (wfs w) cs (Reg a c)"
  shows "detectArchiveType (abs_path cs) w
    = (Ret (detect_in (take 512 c @ replicate (512 - length (take 512 c)) 0) (length (take 512 c))), w)"
proof -
  have "no_faults (wfs w)" using assms by (simp add: at_path_def)
  with file_open_at_path [OF assms] show ?thesis
    by (simp add: detectArchiveType_def bnd_app ret_app io_query_def sys_read_def no_faults_faulty Let_def)
qed

text \<open>
  C26: for a readable file the detector returns the type whose signature the file carries, whatever the
  order of the tests: no two signatures at offset 0 fit the same file, and \<open>TAR\<close>, whose signature
  stands at offset 257, is returned exactly when none of the others fits. A file of fewer than
  8 bytes has no type.
\<close>

theorem detectArchiveType_signature:
  assumes "at_path (wfs w) cs (Reg a c)" and "t \<noteq> UNKNOWN"
  shows "\<exists>r. detectArchiveType (abs_path cs) w = (Ret r, w)
    \<and> (r = t \<longleftrightarrow> 8 \<le> length c \<and> signed c t \<and> (t = TAR \<longrightarrow> (\<forall>t' \<in> signed_at_0. \<not> signed c t')))"
  using detect_run [OF assms(1)] detect_in_iff [OF assms(2), of c] by blast

text \<open>Two archives in a directory, for concrete runs.\<close>

definition gz_bytes :: "byte list" where
  "gz_bytes = [0x1F, 0x8B, 0x08, 0, 0, 0, 0, 0, 0, 3]"

definition zip_bytes :: "byte list" where
  "zip_bytes = [0x50, 0x4B, 0x03, 0x04, 0, 0, 0, 0, 0, 0]"

definition arch_world :: world where
  "arch_world = world0\<lparr>wfs := fs0\<lparr>root := Dir attr0
     [(''d'', Dir attr0 [(''a.gz'', Reg attr0 gz_bytes), (''b.zip'', Reg attr0 zip_bytes)])]\<rparr>\<rparr>"

lemma arch_world_at:
  "at_path (wfs arch_world) [''d'', ''a.gz''] (Reg attr0 gz_bytes)"
  "at_path (wfs arch_world) [''d'', ''b.zip''] (Reg attr0 zip_bytes)"
  and arch_world_wr: "\<forall>h. wr h arch_world"
  by (auto simp: at_path_def arch_world_def no_faults_def good_name_def dirs_above_def less_Suc_eq)

lemma arch_world_types:
  "signed gz_bytes GZ" "8 \<le> length gz_bytes" "signed zip_bytes ZIP" "8 \<le> length zip_bytes"
  by (simp_all add: signed_simps gz_bytes_def zip_bytes_def)

theorem detectArchiveType_signature_witness:
  "detectArchiveType ''/d/a.gz'' arch_world = (Ret GZ, arch_world)"
  using detectArchiveType_signature [OF arch_world_at(1), of GZ] arch_world_types by auto

end
