(* ===== verification/RH_Archive.thy ===== *)
theory RH_Archive
  imports RH_ArchType RH_Http RH_Remote
begin

section \<open>The 7-Zip library and the listing of archives\<close>

text \<open>
  The first half of archiveOps.h. The 7-Zip library is a parameter, the record \<open>sevenzip\<close>: what its entry
  points, its archive objects and its file wrappers answer. An archive object answers queries of item
  properties with any status and any variant. An extraction is a tree of interaction: the
  library calls back, with any callback at any time, sees the answer, and goes on as it likes until
  it returns a status; so nothing is assumed about it.
\<close>

type_synonym wstr = "u32 list"
type_synonym hresult = u32

definition S_OK :: hresult where "S_OK = 0"
definition S_FALSE :: hresult where "S_FALSE = 1"
definition E_ABORT :: hresult where "E_ABORT = 0x80004004"
definition E_FAIL :: hresult where "E_FAIL = 0x80004005"

datatype variant = VT_EMPTY | VT_BSTR wstr | VT_BOOL bool | VT_UI1 u8 | VT_UI2 u16 | VT_UI4 u32 | VT_UI8 u64
  | VT_I2 u16 | VT_I4 u32 | VT_I8 u64 | VT_FILETIME u64 | VT_OTHER u16

datatype propid = kpidPath | kpidIsDir | kpidSize | kpidAttrib | kpidCTime | kpidATime | kpidMTime | kpidIsAnti

text \<open>
  Calls of the library to an extraction callback. \<open>CbWrite\<close> is a write to the stream that the last
  \<open>GetStream\<close> gave. The answer: the status (\<open>None\<close>: a C++ exception), whether a stream was given, the password.
\<close>

datatype ex_cb = CbSetTotal u64 | CbSetCompleted u64 | CbGetStream u32 int | CbPrepareOperation int
  | CbSetOperationResult int | CbCryptoGetTextPassword | CbWrite "byte list"

record ex_ans =
  a_status :: "hresult option"
  a_stream :: bool
  a_password :: wstr

datatype ex_run = ExDone hresult | ExCall ex_cb "ex_ans \<Rightarrow> ex_run"

record in_archive =
  ar_items :: u32
  ar_prop :: "u32 \<Rightarrow> propid \<Rightarrow> hresult \<times> variant"
  ar_extract :: "u32 list option \<Rightarrow> bool \<Rightarrow> ex_run"

record sevenzip =
  sz_loaded :: bool
  sz_proc :: bool
  sz_junk :: u32
  sz_create_in :: "ArchiveType \<Rightarrow> hresult"
  sz_stream :: "wstr \<Rightarrow> fs \<Rightarrow> byte list option"
  sz_open :: "ArchiveType \<Rightarrow> byte list \<Rightarrow> hresult \<times> wstr \<Rightarrow> hresult \<times> in_archive"
  sz_filetime :: "u64 \<Rightarrow> string"
  sz_createDir :: "wstr \<Rightarrow> unit io"
  sz_find :: "wstr \<Rightarrow> bool option io"
  sz_delete :: "wstr \<Rightarrow> bool io"
  sz_openOut :: "wstr \<Rightarrow> fd option io"
  sz_writeOut :: "fd \<Rightarrow> byte list \<Rightarrow> (hresult \<times> fd) io"
  sz_setMTime :: "fd \<Rightarrow> u64 \<Rightarrow> unit io"
  sz_closeOut :: "fd \<Rightarrow> hresult io"
  sz_setAttrib :: "wstr \<Rightarrow> u32 \<Rightarrow> wstr list io"
  sz_symlink :: "wstr \<Rightarrow> bool io"

definition EACCES0 :: int where "EACCES0 = 13"
definition NULL_OR_WRONG_PASSWORD :: int where "NULL_OR_WRONG_PASSWORD = 0x101010"

definition to_wide :: "sevenzip \<Rightarrow> string \<Rightarrow> wstr" where
  "to_wide Z s = UTF8_to_wchar True (sz_junk Z) (s2b s)"

definition to_narrow :: "wstr \<Rightarrow> string" where
  "to_narrow s = b2s (wchar_to_UTF8 s)"

text \<open>\<open>CryptoGetTextPassword\<close> of the open and of the extract callback, with \<open>PasswordIsDefined = !password.empty()\<close>.\<close>

definition CryptoGetTextPassword :: "bool \<Rightarrow> wstr \<Rightarrow> hresult \<times> wstr" where
  "CryptoGetTextPassword passwordIsDefined password =
     (if \<not> passwordIsDefined then (E_ABORT, []) else (S_OK, password))"

subsection \<open>One entry\<close>

definition signed_string :: "int \<Rightarrow> string" where
  "signed_string v = (if v < 0 then CHR ''-'' # dec_string (nat (- v)) else dec_string (nat v))"

definition ConvertPropVariantToShortString :: "sevenzip \<Rightarrow> variant \<Rightarrow> string" where
  "ConvertPropVariantToShortString Z p = (case p of
       VT_EMPTY \<Rightarrow> [] | VT_BSTR s \<Rightarrow> ''?'' | VT_BOOL b \<Rightarrow> if b then ''+'' else ''-''
     | VT_UI1 v \<Rightarrow> dec_string (unat v) | VT_UI2 v \<Rightarrow> dec_string (unat v) | VT_UI4 v \<Rightarrow> dec_string (unat v)
     | VT_UI8 v \<Rightarrow> dec_string (unat v) | VT_I2 v \<Rightarrow> signed_string (sint v) | VT_I4 v \<Rightarrow> signed_string (sint v)
     | VT_I8 v \<Rightarrow> signed_string (sint v) | VT_FILETIME t \<Rightarrow> sz_filetime Z t
     | VT_OTHER vt \<Rightarrow> ''?:'' @ dec_string (unat vt))"

definition entry_size :: "sevenzip \<Rightarrow> in_archive \<Rightarrow> u32 \<Rightarrow> u64" where
  "entry_size Z A i = word_of_int (strtol (ConvertPropVariantToShortString Z (snd (ar_prop A i kpidSize))))"

definition entry_name :: "in_archive \<Rightarrow> u32 \<Rightarrow> string" where
  "entry_name A i = (case snd (ar_prop A i kpidPath) of
       VT_BSTR s \<Rightarrow> if to_narrow s = [] then ''ERROR'' else to_narrow s
     | VT_EMPTY \<Rightarrow> []
     | _ \<Rightarrow> ''ERROR'')"

definition entry_invalid :: "in_archive \<Rightarrow> u32 \<Rightarrow> bool" where
  "entry_invalid A i = (case snd (ar_prop A i kpidPath) of VT_BSTR s \<Rightarrow> to_narrow s = [] | _ \<Rightarrow> False)"

definition entry_date :: "in_archive \<Rightarrow> u32 \<Rightarrow> u32" where
  "entry_date A i = (case snd (ar_prop A i kpidMTime) of
       VT_FILETIME t \<Rightarrow> word_of_int (convertWindowsTimeToUnixTime (sint t)) | _ \<Rightarrow> 0)"

definition entry_permissions :: "in_archive \<Rightarrow> u32 \<Rightarrow> byte list" where
  "entry_permissions A i =
     (if entry_invalid A i then s2b ''!!!!!!!!!!''
      else case snd (ar_prop A i kpidIsDir) of
        VT_BOOL b \<Rightarrow> if b then s2b ''d---------'' else s2b ''----------''
      | _ \<Rightarrow> s2b ''----------'')"

definition archive_entry :: "sevenzip \<Rightarrow> in_archive \<Rightarrow> u32 \<Rightarrow> ls_resp_t" where
  "archive_entry Z A i = \<lparr>filename = entry_name A i, date = entry_date A i, permissions = entry_permissions A i,
     lsize = entry_size Z A i\<rparr>"

definition top_item :: "string \<Rightarrow> string" where
  "top_item nm = (case find_first CHR ''/'' nm of None \<Rightarrow> nm | Some i \<Rightarrow> take i nm)"

subsection \<open>Listing, or looking for a single top-level item\<close>

definition listStreamArchive :: "handle \<Rightarrow> string \<Rightarrow> ArchiveType \<Rightarrow> unit io" where
  "listStreamArchive h archiveName archiveType =
     thn (writeAllOrExit h [RESPONSE_OK])
    (thn (writeLsRespOrExit h \<lparr>filename = getVirtualInnerNameForStreamArchive archiveName archiveType, date = 0,
           permissions = s2b ''----------'', lsize = 0\<rparr>)
         (writeAllOrExit h (le_bytes 2 (0 :: u16))))"

definition opt_error :: "handle option \<Rightarrow> int \<Rightarrow> int \<Rightarrow> int io" where
  "opt_error inOutDesc e r =
     thn (set_errno e) (thn (case inOutDesc of None \<Rightarrow> ret () | Some h \<Rightarrow> sendErrorResponse h) (ret r))"

primrec list_loop :: "sevenzip \<Rightarrow> in_archive \<Rightarrow> handle option \<Rightarrow> string \<Rightarrow> u32 list \<Rightarrow> int io" where
  "list_loop Z A inOutDesc currentTopItem [] =
     thn (case inOutDesc of None \<Rightarrow> ret () | Some h \<Rightarrow> writeAllOrExit h (le_bytes 2 (0 :: u16))) (ret 1)"
| "list_loop Z A inOutDesc currentTopItem (i # is) =
     (let responseEntry = archive_entry Z A i in
      case inOutDesc of
        Some h \<Rightarrow> thn (writeLsRespOrExit h responseEntry) (list_loop Z A inOutDesc currentTopItem is)
      | None \<Rightarrow>
          if currentTopItem = [] then list_loop Z A inOutDesc (top_item (filename responseEntry)) is
          else if top_item (filename responseEntry) \<noteq> currentTopItem then ret 2
          else list_loop Z A inOutDesc currentTopItem is)"

definition item_indices :: "u32 \<Rightarrow> u32 list" where
  "item_indices numItems = map of_nat [0..<unat numItems]"

definition listArchiveInternalOrCheckForSingleItem :: "sevenzip \<Rightarrow> string \<Rightarrow> string \<Rightarrow> handle option \<Rightarrow> int io" where
  "listArchiveInternalOrCheckForSingleItem Z archivepath password inOutDesc =
     (if \<not> sz_loaded Z then opt_error inOutDesc 771 (- 1)
      else if \<not> sz_proc Z then raise (ProcExit (- 1))
      else bnd (detectArchiveType archivepath) (\<lambda>archiveType.
        if archiveType = UNKNOWN then opt_error inOutDesc 23458 (- 2)
        else if is_stream archiveType then
          thn (case inOutDesc of None \<Rightarrow> ret ()
               | Some h \<Rightarrow> listStreamArchive h (getFilenameFromFullPath archivepath) archiveType) (ret 1)
        else if sz_create_in Z archiveType \<noteq> S_OK then opt_error inOutDesc 23459 (- 1)
        else bnd (get (\<lambda>w. sz_stream Z (to_wide Z archivepath) (wfs w))) (\<lambda>file.
          case file of None \<Rightarrow> opt_error inOutDesc EACCES0 (- 1)
          | Some content \<Rightarrow>
              (case sz_open Z archiveType content (CryptoGetTextPassword (password \<noteq> []) (to_wide Z password)) of
                 (r, A) \<Rightarrow>
                   if r \<noteq> S_OK then opt_error inOutDesc NULL_OR_WRONG_PASSWORD (- 1)
                   else thn (case inOutDesc of None \<Rightarrow> ret () | Some h \<Rightarrow> writeAllOrExit h [RESPONSE_OK])
                            (list_loop Z A inOutDesc [] (item_indices (ar_items A)))))))"

definition listArchive :: "sevenzip \<Rightarrow> handle \<Rightarrow> u8 \<Rightarrow> unit io" where
  "listArchive Z h fl =
     bnd (readStringWithLen h) (\<lambda>archivepath.
     bnd (readStringWithByteLen h) (\<lambda>password.
     if fl = 7 then thn (listArchiveInternalOrCheckForSingleItem Z archivepath password (Some h)) (ret ())
     else bnd (listArchiveInternalOrCheckForSingleItem Z archivepath password None) (\<lambda>r.
       if r \<le> 0 then sendErrorResponse h
       else thn (sendOkResponse h) (writeAllOrExit h (le_bytes 8 (word_of_int r :: u64))))))"

subsection \<open>Properties\<close>

lemma write_ls_or_exit [io_eval]:
  "\<lbrakk>wr h w; length (permissions d) = 10\<rbrakk> \<Longrightarrow> writeLsRespOrExit h d w = (Ret (), emit h (ls_wire d) w)"
  by (simp add: writeLsRespOrExit_def bnd_app write_ls ret_app)

lemma entry_permissions_len [simp]: "length (permissions (archive_entry Z A i)) = 10"
  by (simp add: archive_entry_def entry_permissions_def s2b_def split: variant.splits)

definition archive_entries :: "sevenzip \<Rightarrow> in_archive \<Rightarrow> ls_resp_t list" where
  "archive_entries Z A = map (archive_entry Z A) (item_indices (ar_items A))"

lemma list_loop_some:
  "wr h w \<Longrightarrow> list_loop Z A (Some h) cur is w
     = (Ret 1, emit h (concat (map (\<lambda>i. ls_wire (archive_entry Z A i)) is) @ le_bytes 2 (0 :: u16)) w)"
  by (induction "is" arbitrary: w) (simp_all add: Let_def thn_app io_eval)

text \<open>An archive that the library opens: a file of a known type that is no compressed stream.\<close>

definition opens :: "sevenzip \<Rightarrow> world \<Rightarrow> string list \<Rightarrow> string \<Rightarrow> in_archive \<Rightarrow> bool" where
  "opens Z w cs pw A \<longleftrightarrow> sz_loaded Z \<and> sz_proc Z \<and> (\<exists>a c t. at_path (wfs w) cs (Reg a c) \<and> 8 \<le> length c
     \<and> signed c t \<and> t \<in> signed_at_0 \<and> \<not> is_stream t \<and> sz_create_in Z t = S_OK
     \<and> sz_stream Z (to_wide Z (abs_path cs)) (wfs w) = Some c
     \<and> sz_open Z t c (CryptoGetTextPassword (pw \<noteq> []) (to_wide Z pw)) = (S_OK, A))"

lemma detect_signed:
  assumes "at_path (wfs w) cs (Reg a c)" "8 \<le> length c" "signed c t" "t \<in> signed_at_0"
  shows "detectArchiveType (abs_path cs) w = (Ret t, w)"
proof -
  have "t \<noteq> UNKNOWN" "t \<noteq> TAR" using assms(4) by (auto simp: signed_at_0_def)
  then show ?thesis
    using detect_run [OF assms(1)] detect_in_iff [of t c] assms(2,3) by simp
qed

lemma listing_run:
  assumes "opens Z w cs pw A" and "wr h w"
  shows "listArchiveInternalOrCheckForSingleItem Z (abs_path cs) pw (Some h) w
    = (Ret 1, emit h (ok_wire @ concat (map ls_wire (archive_entries Z A)) @ le_bytes 2 (0 :: u16)) w)"
proof -
  obtain a c t where o: "at_path (wfs w) cs (Reg a c)" "8 \<le> length c" "signed c t" "t \<in> signed_at_0"
    "\<not> is_stream t" "sz_create_in Z t = S_OK" "sz_stream Z (to_wide Z (abs_path cs)) (wfs w) = Some c"
    "sz_open Z t c (CryptoGetTextPassword (pw \<noteq> []) (to_wide Z pw)) = (S_OK, A)" "sz_loaded Z" "sz_proc Z"
    using assms(1) by (auto simp: opens_def)
  have "t \<noteq> UNKNOWN" using o(4) by (auto simp: signed_at_0_def)
  with o assms(2) show ?thesis
    by (simp add: listArchiveInternalOrCheckForSingleItem_def bnd_app get_app thn_app detect_signed [OF o(1-4)]
        write_emit list_loop_some archive_entries_def ok_wire_def comp_def)
qed

lemma check_run:
  assumes "opens Z w cs pw A"
  shows "listArchiveInternalOrCheckForSingleItem Z (abs_path cs) pw None w
    = list_loop Z A None [] (item_indices (ar_items A)) w"
proof -
  obtain a c t where o: "at_path (wfs w) cs (Reg a c)" "8 \<le> length c" "signed c t" "t \<in> signed_at_0"
    "\<not> is_stream t" "sz_create_in Z t = S_OK" "sz_stream Z (to_wide Z (abs_path cs)) (wfs w) = Some c"
    "sz_open Z t c (CryptoGetTextPassword (pw \<noteq> []) (to_wide Z pw)) = (S_OK, A)" "sz_loaded Z" "sz_proc Z"
    using assms by (auto simp: opens_def)
  have "t \<noteq> UNKNOWN" using o(4) by (auto simp: signed_at_0_def)
  with o show ?thesis
    by (simp add: listArchiveInternalOrCheckForSingleItem_def bnd_app get_app thn_app ret_app detect_signed [OF o(1-4)])
qed

text \<open>What the reader of a listing takes from it: the entries up to the first without a name.\<close>

lemma ls_round_unnamed:
  assumes "filename d = []" and "wr Cl w"
  shows "ls_entry_round Cl Rcl () (feed Rcl (ls_wire d @ rest) w)
    = (Ret (Inr ()), feed Rcl (drop 2 (ls_wire d) @ rest) (emit Cl (le_bytes 2 (0 :: u16)) w))"
proof -
  have "ls_wire d = le_bytes 2 (0 :: u16) @ drop 2 (ls_wire d)"
    using assms(1) by (simp add: ls_wire_def str_wire_def)
  then show ?thesis
    using ls_round_end [OF assms(2), of "drop 2 (ls_wire d) @ rest"] by (metis append_assoc)
qed

lemma ls_loop_named:
  "\<lbrakk>\<forall>d \<in> set ds. length (filename d) < 65536 \<and> length (permissions d) = 10; wr Cl w\<rbrakk> \<Longrightarrow>
   \<exists>rest. io_loop Rcl (ls_entry_round Cl Rcl) () (feed Rcl (concat (map ls_wire ds) @ le_bytes 2 (0 :: u16)) w)
     = (Ret (), feed Rcl rest
          (emit Cl (concat (map ls_wire (takeWhile (\<lambda>d. filename d \<noteq> []) ds)) @ le_bytes 2 (0 :: u16)) w))
     \<and> (rest = [] \<longleftrightarrow> (\<forall>d \<in> set ds. filename d \<noteq> []))"
proof (induction ds arbitrary: w)
  case Nil
  then show ?case
    using ls_round_end [of w "[]"] by (subst ls_loop_unfold) (simp add: bnd_app ret_app)
next
  case (Cons d ds)
  let ?tl = "concat (map ls_wire ds) @ le_bytes 2 (0 :: u16)"
  show ?case
  proof (cases "filename d = []")
    case True
    then have "drop 2 (ls_wire d) \<noteq> []" by (simp add: ls_wire_def str_wire_def le_bytes_def upt_rec)
    then show ?thesis
      using ls_round_unnamed [OF True Cons.prems(2), of ?tl] True
      by (subst ls_loop_unfold)
        (auto simp: bnd_app ret_app simp del: feed_append simp flip: feed_append
          intro!: exI [of _ "drop 2 (ls_wire d) @ ?tl"])
  next
    case False
    then have "wf_ls d" using Cons.prems(1) by (simp add: wf_ls_def)
    then show ?thesis
      using ls_round_entry [of d w ?tl] Cons.IH [of "emit Cl (ls_wire d) w"] Cons.prems False
      by (subst ls_loop_unfold) (simp add: bnd_app)
  qed
qed

text \<open>
  C23: the listing of an archive answers OK, then one record for every item of the archive, in order, then
  the end mark; a reader of the listing protocol takes from it the records up to the first one without
  a name, and exactly when every item has a name does it take all and leave nothing unread. An item
  without a path property (which the library reports for some formats) ends the listing early
  for the user.
\<close>

theorem archive_listing:
  assumes "opens Z w cs pw A" and "wr h w" and "length (abs_path cs) < 65536" and "length pw < 256"
    and "\<forall>d \<in> set (archive_entries Z A). length (filename d) < 65536"
  shows "\<exists>msg. listArchive Z h 7 (feed h (str_wire (abs_path cs) @ byte_str_wire pw) w) = (Ret (), emit h (ok_wire @ msg) w)
    \<and> msg = concat (map ls_wire (archive_entries Z A)) @ le_bytes 2 (0 :: u16)
    \<and> (\<forall>wc. wr Cl wc \<longrightarrow> (\<exists>rest. io_loop Rcl (ls_entry_round Cl Rcl) () (feed Rcl msg wc)
         = (Ret (), feed Rcl rest (emit Cl (concat (map ls_wire (takeWhile (\<lambda>d. filename d \<noteq> []) (archive_entries Z A)))
              @ le_bytes 2 (0 :: u16)) wc))
         \<and> (rest = [] \<longleftrightarrow> (\<forall>d \<in> set (archive_entries Z A). filename d \<noteq> []))))"
proof (rule exI [of _ "concat (map ls_wire (archive_entries Z A)) @ le_bytes 2 (0 :: u16)"], intro conjI allI impI)
  let ?msg = "concat (map ls_wire (archive_entries Z A)) @ le_bytes 2 (0 :: u16)"
  show "listArchive Z h 7 (feed h (str_wire (abs_path cs) @ byte_str_wire pw) w) = (Ret (), emit h (ok_wire @ ?msg) w)"
    using assms listing_run [OF assms(1,2)]
    by (simp add: listArchive_def bnd_app thn_app ret_app read_string read_byte_string)
  show "?msg = ?msg" ..
  fix wc assume "wr Cl wc"
  then show "\<exists>rest. io_loop Rcl (ls_entry_round Cl Rcl) () (feed Rcl ?msg wc)
         = (Ret (), feed Rcl rest (emit Cl (concat (map ls_wire (takeWhile (\<lambda>d. filename d \<noteq> []) (archive_entries Z A)))
              @ le_bytes 2 (0 :: u16)) wc))
         \<and> (rest = [] \<longleftrightarrow> (\<forall>d \<in> set (archive_entries Z A). filename d \<noteq> []))"
    using assms(5) by (intro ls_loop_named) (auto simp: archive_entries_def)
qed

text \<open>A library with one archive, for concrete runs: a directory, a file in it, an item without a path.\<close>

definition demo_prop :: "u32 \<Rightarrow> propid \<Rightarrow> hresult \<times> variant" where
  "demo_prop i p = (S_OK, case p of
      kpidPath \<Rightarrow> (if i = 0 then VT_BSTR [0x78] else if i = 1 then VT_BSTR [0x78, 0x2F, 0x61] else VT_EMPTY)
    | kpidIsDir \<Rightarrow> VT_BOOL (i = 0) | kpidSize \<Rightarrow> VT_UI8 5 | _ \<Rightarrow> VT_EMPTY)"

definition posix_stream :: "wstr \<Rightarrow> fs \<Rightarrow> byte list option" where
  "posix_stream nm f = (case sys_open_read (to_narrow nm) f of Inl e \<Rightarrow> None | Inr d \<Rightarrow> file_data f (fd_loc d))"

definition no_extract :: "u32 list option \<Rightarrow> bool \<Rightarrow> ex_run" where
  "no_extract is testMode = ExDone S_OK"

definition demo_lib :: "u32 \<Rightarrow> (u32 list option \<Rightarrow> bool \<Rightarrow> ex_run) \<Rightarrow> sevenzip" where
  "demo_lib n ex = \<lparr>sz_loaded = True, sz_proc = True, sz_junk = 0, sz_create_in = (\<lambda>t. S_OK), sz_stream = posix_stream,
     sz_open = (\<lambda>t c pw. (S_OK, \<lparr>ar_items = n, ar_prop = demo_prop, ar_extract = ex\<rparr>)), sz_filetime = (\<lambda>t. []),
     sz_createDir = (\<lambda>p. ret ()), sz_find = (\<lambda>p. ret (Some False)), sz_delete = (\<lambda>p. ret True), sz_openOut = (\<lambda>p. ret None),
     sz_writeOut = (\<lambda>d bs. ret (S_OK, d)), sz_setMTime = (\<lambda>d t. ret ()), sz_closeOut = (\<lambda>d. ret S_OK),
     sz_setAttrib = (\<lambda>p a. ret []), sz_symlink = (\<lambda>p. ret True)\<rparr>"

definition demo_ar :: "u32 \<Rightarrow> (u32 list option \<Rightarrow> bool \<Rightarrow> ex_run) \<Rightarrow> in_archive" where
  "demo_ar n ex = \<lparr>ar_items = n, ar_prop = demo_prop, ar_extract = ex\<rparr>"

lemma demo_narrow: "to_narrow (to_wide (demo_lib n ex) ''/d/b.zip'') = ''/d/b.zip''"
  by code_simp

lemma demo_opens: "opens (demo_lib n ex) arch_world [''d'', ''b.zip''] [] (demo_ar n ex)"
proof -
  have "posix_stream (to_wide (demo_lib n ex) ''/d/b.zip'') (wfs arch_world) = Some zip_bytes"
    using file_open_at_path [OF arch_world_at(2)] demo_narrow [of n ex] by (simp add: posix_stream_def)
  then show ?thesis
    using arch_world_at(2) arch_world_types
    by (auto simp: opens_def demo_lib_def demo_ar_def signed_at_0_def is_stream_def
        intro!: exI [of _ attr0] exI [of _ zip_bytes] exI [of _ ZIP])
qed

lemma demo_chars: "char_of (0x78 :: nat) = CHR ''x''" "char_of (0x2F :: nat) = CHR ''/''" "char_of (0x61 :: nat) = CHR ''a''"
  by code_simp+

lemma demo_names: "entry_name (demo_ar n ex) 0 = ''x''" "entry_name (demo_ar n ex) 1 = ''x/a''"
  "entry_name (demo_ar n ex) 2 = []"
  by (simp_all add: entry_name_def demo_ar_def demo_prop_def to_narrow_def wchar_to_UTF8_def utf8_bytes_def b2s_def demo_chars)

theorem archive_listing_witness:
  "\<exists>msg. listArchive (demo_lib 3 no_extract) Cl 7 (feed Cl (str_wire ''/d/b.zip'' @ byte_str_wire []) arch_world)
      = (Ret (), emit Cl (ok_wire @ msg) arch_world)
    \<and> map filename (archive_entries (demo_lib 3 no_extract) (demo_ar 3 no_extract)) = [''x'', ''x/a'', []]"
proof -
  have n: "map filename (archive_entries (demo_lib 3 no_extract) (demo_ar 3 no_extract)) = [''x'', ''x/a'', []]"
    using demo_names [of 3 no_extract]
    by (simp add: archive_entries_def archive_entry_def item_indices_def demo_ar_def upt_rec)
  moreover have "\<forall>d \<in> set (archive_entries (demo_lib 3 no_extract) (demo_ar 3 no_extract)). length (filename d) < 65536"
  proof -
    have "\<forall>f \<in> set (map filename (archive_entries (demo_lib 3 no_extract) (demo_ar 3 no_extract))). length f < 65536" unfolding n by simp
    then show ?thesis by simp
  qed
  ultimately show ?thesis
    using archive_listing [OF demo_opens [of 3 no_extract], of Cl] arch_world_wr by auto
qed

text \<open>The number that the library prints is the number that \<open>atol\<close> reads back.\<close>

lemma strtol_dec_string:
  assumes "int n < 2 ^ 63"
  shows "strtol (dec_string n) = int n"
proof -
  obtain c cs where c: "dec_string n = c # cs" using dec_string_not_Nil by (cases "dec_string n") auto
  then have "c_isdigit c" using dec_string_digits [of n] by simp
  then have "\<not> c_isspace c" "c \<noteq> CHR ''-''" "c \<noteq> CHR ''+''" by (auto simp: c_isdigit_def c_isspace_def)
  moreover have "takeWhile c_isdigit (c # cs) = c # cs" using dec_string_digits [of n] c by (simp add: takeWhile_eq_all_conv)
  ultimately have "dec_prefix (dec_string n) = Some (int n)"
    using digits_val_dec [of n] c by (simp add: dec_prefix_def Let_def)
  with assms show ?thesis by (simp add: strtol_def clamp64_def)
qed

text \<open>
  An item whose properties have the documented types (path a string, size and time unsigned 64-bit
  values, directory flag a Boolean) is listed with exactly its name, its size, its time in seconds of the Unix epoch and
  the letter of its kind; the size survives the conversion to text and back for every size below
  $2^{63}$.
\<close>

theorem archive_entry_exact:
  assumes "ar_prop A i kpidPath = (r1, VT_BSTR s)" and "to_narrow s \<noteq> []" and "ar_prop A i kpidSize = (r2, VT_UI8 v)"
    and "v < 2 ^ 63" and "ar_prop A i kpidMTime = (r3, VT_FILETIME t)" and "ar_prop A i kpidIsDir = (r4, VT_BOOL b)"
  shows "archive_entry Z A i = \<lparr>filename = to_narrow s, date = word_of_int (sint t sdiv 10000000 - 11644473600),
     permissions = s2b ((if b then CHR ''d'' else CHR ''-'') # ''---------''), lsize = v\<rparr>"
proof -
  have "unat v < 2 ^ 63" using assms(4) by (simp add: word_less_nat_alt)
  then have "int (unat v) < int (2 ^ 63)" by (simp only: of_nat_less_iff)
  then have "int (unat v) < 2 ^ 63" by simp
  from strtol_dec_string [OF this] have "strtol (dec_string (unat v)) = uint v" by simp
  with assms show ?thesis
    by (simp add: archive_entry_def entry_name_def entry_date_def entry_permissions_def entry_invalid_def entry_size_def
        ConvertPropVariantToShortString_def convertWindowsTimeToUnixTime_def TICKS_PER_SECOND_def EPOCH_DIFFERENCE_def)
qed

theorem archive_entry_exact_witness:
  "archive_entry (demo_lib 1 no_extract) \<lparr>ar_items = 1, ar_prop = (\<lambda>i p. (S_OK, case p of kpidPath \<Rightarrow> VT_BSTR [0x78] | kpidSize \<Rightarrow> VT_UI8 5
      | kpidMTime \<Rightarrow> VT_FILETIME 116444736010000000 | _ \<Rightarrow> VT_BOOL True)), ar_extract = no_extract\<rparr> 0
    = \<lparr>filename = ''x'', date = 1, permissions = s2b ''d---------'', lsize = 5\<rparr>"
proof -
  let ?A = "\<lparr>ar_items = 1, ar_prop = (\<lambda>i p. (S_OK, case p of kpidPath \<Rightarrow> VT_BSTR [0x78] | kpidSize \<Rightarrow> VT_UI8 5
      | kpidMTime \<Rightarrow> VT_FILETIME 116444736010000000 | _ \<Rightarrow> VT_BOOL True)), ar_extract = no_extract\<rparr>"
  have n: "to_narrow [0x78] = ''x''" by (simp add: to_narrow_def wchar_to_UTF8_def utf8_bytes_def b2s_def demo_chars)
  have d: "sint (116444736010000000 :: u64) sdiv 10000000 - 11644473600 = 1" by simp
  show ?thesis
    using archive_entry_exact [of ?A 0 S_OK "[0x78]" S_OK 5 S_OK 116444736010000000 S_OK True "demo_lib 1 no_extract"] n d by simp
qed

subsection \<open>A single top-level item\<close>

lemma list_loop_none:
  "\<lbrakk>cur \<noteq> []; \<forall>i \<in> set is. top_item (entry_name A i) \<noteq> []\<rbrakk> \<Longrightarrow>
   list_loop Z A None cur is w = (Ret (if \<forall>i \<in> set is. top_item (entry_name A i) = cur then 1 else 2), w)"
  by (induction "is") (auto simp: Let_def thn_app ret_app archive_entry_def)

lemma list_loop_none_first:
  assumes "\<forall>i \<in> set is. top_item (entry_name A i) \<noteq> []"
  shows "list_loop Z A None [] is w
    = (Ret (if \<exists>t. \<forall>i \<in> set is. top_item (entry_name A i) = t then 1 else 2), w)"
proof (cases "is")
  case Nil
  then show ?thesis by (simp add: thn_app ret_app)
next
  case (Cons i js)
  with assms show ?thesis
    using list_loop_none [of "top_item (entry_name A i)" js A Z w] by (auto simp: Let_def archive_entry_def)
qed

lemma list_loop_absolute:
  "\<forall>i \<in> set is. top_item (entry_name A i) = [] \<Longrightarrow> list_loop Z A None [] is w = (Ret 1, w)"
  by (induction "is") (simp_all add: Let_def archive_entry_def thn_app ret_app)

text \<open>
  Asked whether an archive has one item at its top level, the server answers 1 exactly when all
  items share their first path component, provided every item has one.
\<close>

theorem single_item_check:
  assumes "opens Z w cs pw A" and "wr h w" and "length (abs_path cs) < 65536" and "length pw < 256"
    and "\<forall>i \<in> set (item_indices (ar_items A)). top_item (entry_name A i) \<noteq> []"
  shows "listArchive Z h 6 (feed h (str_wire (abs_path cs) @ byte_str_wire pw) w)
    = (Ret (), emit h (ok_wire @ le_bytes 8
         (if \<exists>t. \<forall>i \<in> set (item_indices (ar_items A)). top_item (entry_name A i) = t then 1 else 2 :: u64)) w)"
proof -
  define P where "P \<longleftrightarrow> (\<exists>t. \<forall>i \<in> set (item_indices (ar_items A)). top_item (entry_name A i) = t)"
  have "listArchiveInternalOrCheckForSingleItem Z (abs_path cs) pw None w = (Ret (if P then 1 else 2), w)"
    unfolding check_run [OF assms(1)] P_def by (rule list_loop_none_first [OF assms(5)])
  with assms(2-4) show ?thesis
    unfolding P_def [symmetric]
    by (simp add: listArchive_def bnd_app thn_app ret_app read_string read_byte_string send_ok write_emit)
qed

theorem single_item_check_witness:
  "listArchive (demo_lib 2 no_extract) Cl 6 (feed Cl (str_wire ''/d/b.zip'' @ byte_str_wire []) arch_world)
    = (Ret (), emit Cl (ok_wire @ le_bytes 8 (1 :: u64)) arch_world)"
proof -
  have i: "item_indices (ar_items (demo_ar 2 no_extract)) = [0, 1]" by (simp add: item_indices_def demo_ar_def upt_rec)
  have t: "top_item ''x'' = ''x''" "top_item ''x/a'' = ''x''" by (simp_all add: top_item_def)
  show ?thesis
    using single_item_check [OF demo_opens [of 2 no_extract], of Cl] arch_world_wr demo_names [of 2 no_extract]
    by (auto simp: i t)
qed

text \<open>
  Items whose names begin with a slash are not compared: their first component is the empty
  string, which the loop takes for "no item yet", so an archive of any number of absolute paths counts as
  having a single item at the top level.
\<close>

theorem single_item_absolute_paths:
  assumes "opens Z w cs pw A"
    and "\<forall>i \<in> set (item_indices (ar_items A)). \<exists>r. entry_name A i = CHR ''/'' # r"
  shows "listArchiveInternalOrCheckForSingleItem Z (abs_path cs) pw None w = (Ret 1, w)"
  unfolding check_run [OF assms(1)]
  using assms(2) by (intro list_loop_absolute) (auto simp: top_item_def)

definition slash_archive :: in_archive where
  "slash_archive = \<lparr>ar_items = 2, ar_prop = (\<lambda>i p. (S_OK, VT_BSTR [0x2F, if i = 0 then 0x61 else 0x78])), ar_extract = (\<lambda>is t. ExDone S_OK)\<rparr>"

theorem single_item_absolute_paths_witness:
  "listArchiveInternalOrCheckForSingleItem ((demo_lib 2 no_extract)\<lparr>sz_open := \<lambda>t c pw. (S_OK, slash_archive)\<rparr>) ''/d/b.zip'' [] None arch_world
      = (Ret 1, arch_world)
    \<and> map (entry_name slash_archive) [0, 1] = [''/a'', ''/x'']"
proof -
  let ?Z = "(demo_lib 2 no_extract)\<lparr>sz_open := \<lambda>t c pw. (S_OK, slash_archive)\<rparr>"
  have o: "opens ?Z arch_world [''d'', ''b.zip''] [] slash_archive"
    using demo_opens [of 2 no_extract] by (auto simp: opens_def demo_lib_def to_wide_def)
  have n: "entry_name slash_archive 0 = ''/a''" "entry_name slash_archive 1 = ''/x''"
    by (simp_all add: entry_name_def slash_archive_def to_narrow_def wchar_to_UTF8_def utf8_bytes_def b2s_def demo_chars)
  have i: "item_indices (ar_items slash_archive) = [0, 1]" by (simp add: item_indices_def slash_archive_def upt_rec)
  show ?thesis
    using single_item_absolute_paths [OF o] n by (simp add: i)
qed

end
