(* ===== verification/RH_Talks.thy ===== *)
theory RH_Talks
  imports RH_Store
begin

section \<open>What an operation says on a connection\<close>

text \<open>
  A logic for handlers whose effect on the files is of no concern, and rules for its combinators.
  \<open>talks h m P\<close>: as long as \<open>h\<close> can be written, \<open>m\<close> returns, reads nothing, writes to \<open>h\<close> only, and what it returns
  and writes satisfies \<open>P\<close>.
\<close>

definition talks :: "handle \<Rightarrow> 'a io \<Rightarrow> ('a \<Rightarrow> byte list \<Rightarrow> bool) \<Rightarrow> bool" where
  "talks h m P \<longleftrightarrow> (\<forall>w. wr h w \<longrightarrow> (\<exists>v w' out. m w = (Ret v, w') \<and> conns w' = conns (emit h out w) \<and> P v out))"

abbreviation silent :: "handle \<Rightarrow> 'a io \<Rightarrow> bool" where
  "silent h m \<equiv> talks h m (\<lambda>v out. out = [])"

lemma talksD: "\<lbrakk>talks h m P; wr h w\<rbrakk> \<Longrightarrow> \<exists>v w' out. m w = (Ret v, w') \<and> conns w' = conns (emit h out w) \<and> P v out"
  by (simp add: talks_def)

lemma emit_conns: "conns w = conns w' \<Longrightarrow> conns (emit h b w) = conns (emit h b w')"
  by (simp add: emit_def set_conn_def)

lemma wr_conns: "conns w = conns w' \<Longrightarrow> wr h w = wr h w'"
  by (simp add: wr_def)

lemma talks_ret: "P a [] \<Longrightarrow> talks h (ret a) P"
  by (force simp: talks_def ret_app)

lemma talks_bnd:
  assumes "talks h m P" and "\<And>v out. P v out \<Longrightarrow> talks h (f v) (\<lambda>v' out'. Q v' (out @ out'))"
  shows "talks h (bnd m f) Q"
  unfolding talks_def
proof (intro allI impI)
  fix w assume "wr h w"
  with talksD [OF assms(1)] obtain v w1 out where 1: "m w = (Ret v, w1)" "conns w1 = conns (emit h out w)" "P v out"
    by blast
  then have "wr h w1" using \<open>wr h w\<close> wr_conns [OF 1(2)] by simp
  with talksD [OF assms(2) [OF 1(3)]] obtain v' w2 out' where
    2: "f v w1 = (Ret v', w2)" "conns w2 = conns (emit h out' w1)" "Q v' (out @ out')" by blast
  moreover have "conns (emit h out' w1) = conns (emit h (out @ out') w)"
    using emit_conns [OF 1(2), of h out'] by simp
  ultimately show "\<exists>v w' out. bnd m f w = (Ret v, w') \<and> conns w' = conns (emit h out w) \<and> Q v out"
    using 1(1) by (auto simp: bnd_app)
qed

lemma talks_thn:
  assumes "talks h m P" and "\<And>v out. P v out \<Longrightarrow> talks h n (\<lambda>v' out'. Q v' (out @ out'))"
  shows "talks h (thn m n) Q"
  unfolding thn_def by (rule talks_bnd [OF assms])

lemma talks_conseq: "\<lbrakk>talks h m P; \<And>v out. P v out \<Longrightarrow> Q v out\<rbrakk> \<Longrightarrow> talks h m Q"
  unfolding talks_def by blast

lemma talks_silent_bnd: "\<lbrakk>silent h m; \<And>v. talks h (f v) Q\<rbrakk> \<Longrightarrow> talks h (bnd m f) Q"
  by (erule talks_bnd) simp

lemma talks_silent_thn: "\<lbrakk>silent h m; talks h n Q\<rbrakk> \<Longrightarrow> talks h (thn m n) Q"
  by (erule talks_thn) simp

lemma talks_write: "talks h (writeAllOrExit h bs) (\<lambda>v out. out = bs)"
  by (auto simp: talks_def write_emit)

lemma talks_write_process: "talks h (writeAllOrExitProcess h bs) (\<lambda>v out. out = bs)"
  by (auto simp: talks_def writeAllOrExitProcess_def write_emit)

lemma talks_get: "silent h (get f)"
  by (auto simp: talks_def get_app)

lemma talks_modify: "(\<And>w. conns (g w) = conns w) \<Longrightarrow> silent h (modify g)"
  by (auto simp: talks_def modify_app)

lemma talks_set_errno: "silent h (set_errno e)"
  by (auto simp: talks_def set_errno_app)

lemma talks_query: "silent h (io_query q)"
  by (auto simp: talks_def io_query_def split: sum.splits)

lemma talks_update: "silent h (io_update q)"
  by (auto simp: talks_def io_update_def split: prod.splits)

lemma talks_error: "talks h (sendErrorResponse h) (\<lambda>v out. \<exists>e. out = error_wire e)"
  by (force simp: talks_def send_error)

lemma talks_ok: "talks h (sendOkResponse h) (\<lambda>v out. out = ok_wire)"
  by (auto simp: talks_def send_ok)

lemma talks_end: "talks h (sendEndProgressAndBaseResponse r h)
    (\<lambda>v out. out = le_bytes 8 maxuint @ ok_wire \<or> (\<exists>e. out = le_bytes 8 maxuint @ error_wire e))"
  by (force simp: talks_def sendEndProgressAndBaseResponse_def thn_app write_emit send_base)

lemma talks_if: "\<lbrakk>b \<Longrightarrow> talks h m P; \<not> b \<Longrightarrow> talks h n P\<rbrakk> \<Longrightarrow> talks h (if b then m else n) P"
  by simp

lemma talks_option: "\<lbrakk>r = None \<Longrightarrow> talks h m P; \<And>x. r = Some x \<Longrightarrow> talks h (g x) P\<rbrakk> \<Longrightarrow>
    talks h (case r of None \<Rightarrow> m | Some x \<Rightarrow> g x) P"
  by (cases r) simp_all

lemma talks_sum: "\<lbrakk>\<And>x. r = Inl x \<Longrightarrow> talks h (m x) P; \<And>x. r = Inr x \<Longrightarrow> talks h (g x) P\<rbrakk> \<Longrightarrow>
    talks h (case r of Inl x \<Rightarrow> m x | Inr x \<Rightarrow> g x) P"
  by (cases r) simp_all

lemma talks_prod: "(\<And>a b. r = (a, b) \<Longrightarrow> talks h (m a b) P) \<Longrightarrow> talks h (case r of (a, b) \<Rightarrow> m a b) P"
  by (cases r) simp

lemma silent_fold: "(\<And>s x. silent h (f s x)) \<Longrightarrow> silent h (io_fold f s xs)"
  by (induction xs arbitrary: s) (auto intro: talks_ret talks_silent_bnd)

lemmas talks_rules = talks_silent_bnd talks_silent_thn talks_ret talks_if talks_option talks_sum talks_prod
lemmas silent_rules = talks_get talks_set_errno talks_query talks_update

lemma quiet_silent: "quiet m v \<Longrightarrow> silent h m"
  unfolding talks_def
proof (intro allI impI)
  fix w assume "quiet m v"
  then obtain e where "m w = (Ret (v (wfs w) (users w)), w\<lparr>errno := e\<rparr>)" using quietD by blast
  then show "\<exists>x w' out. m w = (Ret x, w') \<and> conns w' = conns (emit h out w) \<and> out = []" by simp
qed

lemma silent_mkpath: "silent h (mkpath s mode eo)"
proof -
  have "silent h (mkpath_loop s' mode eo is)" for s' "is"
    by (induction "is") (auto intro!: talks_rules silent_rules)
  then show ?thesis by (auto simp: mkpath_def Let_def intro!: talks_ret)
qed

lemma silent_nearest: "silent h (nearest_from p)"
proof (induction p rule: nearest_from.induct)
  case (1 p)
  then show ?case
    by (subst nearest_from.simps) (auto simp: Let_def intro!: talks_rules silent_rules)
qed

lemma silent_mkcopy: "silent h (mkpathCopyPermissionsFromNearestAncestor p eo)"
  unfolding mkpathCopyPermissionsFromNearestAncestor_def statNearestAncestor_def
  by (rule talks_silent_bnd [OF quiet_silent [OF quiet_existsIsFileIsDir0_st]])
    (auto intro!: talks_rules silent_rules silent_mkpath silent_nearest)

end
