(* ===== verification/RH_Extract.thy ===== *)
theory RH_Extract
  imports RH_Archive RH_Talks
begin

section \<open>Extraction of archives\<close>

text \<open>
  \<open>CArchiveExtractCallback\<close> (archiveUtils.h) and \<open>extractFromArchive\<close> (archiveOps.h). The object of the
  callbacks is the record \<open>xcb\<close>; members that C++ leaves uninitialised come from the argument \<open>junk\<close>.
  \<open>x_latest\<close> is the global \<open>latestExtractResult\<close>.
\<close>

record xcb =
  x_directoryPath :: wstr
  x_filePath :: wstr
  x_diskFilePath :: wstr
  x_extractMode :: bool
  x_MTime :: u64
  x_MTimeDefined :: bool
  x_Attrib :: u32
  x_AttribDefined :: bool
  x_isDir :: bool
  x_outFileStream :: "fd option"
  x_delayedSymLinks :: "wstr list"
  x_lastProgress :: u64
  x_totalSize :: u64
  x_subDirLength :: u32
  x_onlyChild :: wstr
  x_NumErrors :: u64
  x_PasswordIsDefined :: bool
  x_Password :: wstr
  x_latest :: int

definition kExtract :: int where "kExtract = 0"
definition kOK :: int where "kOK = 0"

definition kEmptyFileAlias :: wstr where
  "kEmptyFileAlias = map (\<lambda>c. of_nat (of_char c)) ''[Content]''"

text \<open>A string of wide characters read as a C string.\<close>

definition wcs :: "wstr \<Rightarrow> wstr" where
  "wcs s = takeWhile (\<lambda>c. c \<noteq> 0) s"

definition slash :: u32 where "slash = 0x2F"

definition NormalizeDirPathPrefix :: "wstr \<Rightarrow> wstr" where
  "NormalizeDirPathPrefix dirPath = (if dirPath = [] then [] else if last dirPath \<noteq> slash then dirPath @ [slash] else dirPath)"

definition ReverseFind_PathSepar :: "wstr \<Rightarrow> nat option" where
  "ReverseFind_PathSepar s =
     (if slash \<in> set s then Some (length s - Suc (length (takeWhile (\<lambda>c. c \<noteq> slash) (rev s)))) else None)"

subsection \<open>The callbacks\<close>

definition Init :: "wstr \<Rightarrow> xcb \<Rightarrow> xcb" where
  "Init directoryPath x = x\<lparr>x_NumErrors := 0, x_directoryPath := NormalizeDirPathPrefix directoryPath\<rparr>"

definition SetTotal :: "handle \<Rightarrow> u64 \<Rightarrow> xcb \<Rightarrow> (hresult \<times> xcb) io" where
  "SetTotal h sz x = thn (writeAllOrExitProcess h (le_bytes 8 sz)) (ret (S_OK, x\<lparr>x_totalSize := sz\<rparr>))"

definition SetCompleted :: "handle \<Rightarrow> u64 \<Rightarrow> xcb \<Rightarrow> (hresult \<times> xcb) io" where
  "SetCompleted h completeValue x =
     (if completeValue = x_totalSize x \<or> 1000000 \<le> completeValue - x_lastProgress x then
        thn (writeAllOrExitProcess h (le_bytes 8 completeValue)) (ret (S_OK, x\<lparr>x_lastProgress := completeValue\<rparr>))
      else ret (S_OK, x))"

text \<open>The name of an item: a status to return (\<open>S_OK\<close> for an empty name, which is skipped) or the path.\<close>

definition full_path :: "in_archive \<Rightarrow> xcb \<Rightarrow> u32 \<Rightarrow> hresult + wstr" where
  "full_path A x i = (case ar_prop A i kpidPath of (r, p) \<Rightarrow>
     if r \<noteq> S_OK then Inl r
     else case p of
       VT_EMPTY \<Rightarrow> Inr (if x_onlyChild x = [] then kEmptyFileAlias else x_onlyChild x)
     | VT_BSTR s \<Rightarrow> if wcs s = [] then Inl S_OK else Inr (wcs s)
     | _ \<Rightarrow> Inl E_FAIL)"

definition strip_subdir :: "u32 \<Rightarrow> wstr \<Rightarrow> wstr" where
  "strip_subdir n fullPath =
     (if n = 0 then fullPath else if length fullPath < unat n then fullPath else drop (unat n) fullPath)"

definition IsArchiveItemFolder :: "in_archive \<Rightarrow> u32 \<Rightarrow> hresult + bool" where
  "IsArchiveItemFolder A i = (case ar_prop A i kpidIsDir of (r, p) \<Rightarrow>
     if r \<noteq> S_OK then Inl r
     else case p of VT_BOOL b \<Rightarrow> Inr b | VT_EMPTY \<Rightarrow> Inr False | _ \<Rightarrow> Inl E_FAIL)"

text \<open>Attributes, kind, time and size of an item into the object. \<open>Inl None\<close>: the conversion of the size throws.\<close>

definition item_info :: "in_archive \<Rightarrow> u32 \<Rightarrow> xcb \<Rightarrow> (hresult option \<times> xcb) + xcb" where
  "item_info A i x = (case ar_prop A i kpidAttrib of (r, p) \<Rightarrow>
     if r \<noteq> S_OK then Inl (Some r, x)
     else case (case p of VT_EMPTY \<Rightarrow> Some (x\<lparr>x_Attrib := 0, x_AttribDefined := False\<rparr>)
                        | VT_UI4 v \<Rightarrow> Some (x\<lparr>x_Attrib := v, x_AttribDefined := True\<rparr>) | _ \<Rightarrow> None) of
       None \<Rightarrow> Inl (Some E_FAIL, x)
     | Some x1 \<Rightarrow>
         (case IsArchiveItemFolder A i of
            Inl e \<Rightarrow> Inl (Some e, x1)
          | Inr b \<Rightarrow> let x2 = x1\<lparr>x_isDir := b\<rparr> in
              (case ar_prop A i kpidMTime of (r, p) \<Rightarrow>
                 if r \<noteq> S_OK then Inl (Some r, x2)
                 else let x3 = x2\<lparr>x_MTimeDefined := False\<rparr> in
                   case (case p of VT_EMPTY \<Rightarrow> Some x3
                                 | VT_FILETIME t \<Rightarrow> Some (x3\<lparr>x_MTime := t, x_MTimeDefined := True\<rparr>) | _ \<Rightarrow> None) of
                     None \<Rightarrow> Inl (Some E_FAIL, x3)
                   | Some x4 \<Rightarrow>
                       (case ar_prop A i kpidSize of (r, p) \<Rightarrow>
                          if r \<noteq> S_OK then Inl (Some r, x4)
                          else case p of VT_UI8 v \<Rightarrow> Inr x4 | VT_UI4 v \<Rightarrow> Inr x4 | VT_UI2 v \<Rightarrow> Inr x4
                            | VT_UI1 v \<Rightarrow> Inr x4 | VT_EMPTY \<Rightarrow> Inr x4 | _ \<Rightarrow> Inl (None, x4)))))"

text \<open>The output file; \<open>None\<close>: the search for an older file of the name throws.\<close>

definition open_output :: "sevenzip \<Rightarrow> wstr \<Rightarrow> xcb \<Rightarrow> (hresult option \<times> bool \<times> xcb) io" where
  "open_output Z fullProcessedPath x =
     bnd (sz_find Z fullProcessedPath) (\<lambda>found. case found of
       None \<Rightarrow> ret (None, False, x)
     | Some found \<Rightarrow>
         bnd (if found then sz_delete Z fullProcessedPath else ret True) (\<lambda>ok.
         if \<not> ok then ret (Some E_ABORT, False, x)
         else bnd (sz_openOut Z fullProcessedPath) (\<lambda>d. case d of
           None \<Rightarrow> ret (Some E_ABORT, False, x)
         | Some d \<Rightarrow> ret (Some S_OK, True, x\<lparr>x_outFileStream := Some d\<rparr>))))"

definition GetStream :: "sevenzip \<Rightarrow> in_archive \<Rightarrow> u32 \<Rightarrow> int \<Rightarrow> xcb \<Rightarrow> (hresult option \<times> bool \<times> xcb) io" where
  "GetStream Z A i askExtractMode x0 =
     (let x = x0\<lparr>x_outFileStream := None\<rparr> in
      case full_path A x i of
        Inl r \<Rightarrow> ret (Some r, False, x)
      | Inr fullPath \<Rightarrow>
          let x1 = x\<lparr>x_filePath := strip_subdir (x_subDirLength x) fullPath\<rparr> in
          if askExtractMode \<noteq> kExtract then ret (Some S_OK, False, x1)
          else case item_info A i x1 of
            Inl (r, x2) \<Rightarrow> ret (r, False, x2)
          | Inr x2 \<Rightarrow>
              let full = x_directoryPath x2 @ x_filePath x2; x3 = x2\<lparr>x_diskFilePath := full\<rparr> in
              thn (case ReverseFind_PathSepar (x_filePath x2) of
                     None \<Rightarrow> ret () | Some n \<Rightarrow> sz_createDir Z (x_directoryPath x2 @ take n (x_filePath x2)))
             (if x_isDir x3 then thn (sz_createDir Z full) (ret (Some S_OK, False, x3)) else open_output Z full x3))"

definition PrepareOperation :: "int \<Rightarrow> xcb \<Rightarrow> hresult \<times> xcb" where
  "PrepareOperation askExtractMode x = (S_OK, x\<lparr>x_extractMode := (askExtractMode = kExtract)\<rparr>)"

definition close_output :: "sevenzip \<Rightarrow> xcb \<Rightarrow> hresult io" where
  "close_output Z x = (case x_outFileStream x of
       None \<Rightarrow> ret S_OK
     | Some d \<Rightarrow> thn (if x_MTimeDefined x then sz_setMTime Z d (x_MTime x) else ret ()) (sz_closeOut Z d))"

definition SetOperationResult :: "sevenzip \<Rightarrow> int \<Rightarrow> xcb \<Rightarrow> (hresult \<times> xcb) io" where
  "SetOperationResult Z operationResult x0 =
     (let x1 = (if x_latest x0 = kOK \<and> operationResult \<noteq> kOK then x0\<lparr>x_latest := operationResult\<rparr> else x0);
          x = (if operationResult \<noteq> kOK then x1\<lparr>x_NumErrors := x_NumErrors x1 + 1\<rparr> else x1) in
      bnd (close_output Z x) (\<lambda>r.
      if r \<noteq> S_OK then ret (r, x)
      else let x2 = x\<lparr>x_outFileStream := None\<rparr> in
        if x_extractMode x2 \<and> x_AttribDefined x2 then
          bnd (sz_setAttrib Z (x_diskFilePath x2) (x_Attrib x2)) (\<lambda>ds.
          ret (S_OK, x2\<lparr>x_delayedSymLinks := x_delayedSymLinks x2 @ ds\<rparr>))
        else ret (S_OK, x2)))"

definition SetFinalAttribs :: "sevenzip \<Rightarrow> xcb \<Rightarrow> (hresult \<times> xcb) io" where
  "SetFinalAttribs Z x =
     bnd (io_fold (\<lambda>r d. bnd (sz_symlink Z d) (\<lambda>ok. ret (if ok then r else E_FAIL))) S_OK (x_delayedSymLinks x)) (\<lambda>r.
     ret (r, x\<lparr>x_delayedSymLinks := []\<rparr>))"

text \<open>One call of the library, and a run of the library.\<close>

definition plain_ans :: "hresult \<Rightarrow> ex_ans" where
  "plain_ans r = \<lparr>a_status = Some r, a_stream = False, a_password = []\<rparr>"

definition ex_callback :: "sevenzip \<Rightarrow> in_archive \<Rightarrow> handle \<Rightarrow> ex_cb \<Rightarrow> xcb \<Rightarrow> (ex_ans \<times> xcb) io" where
  "ex_callback Z A h cb x = (case cb of
       CbSetTotal sz \<Rightarrow> bnd (SetTotal h sz x) (\<lambda>(r, x'). ret (plain_ans r, x'))
     | CbSetCompleted v \<Rightarrow> bnd (SetCompleted h v x) (\<lambda>(r, x'). ret (plain_ans r, x'))
     | CbGetStream i m \<Rightarrow> bnd (GetStream Z A i m x) (\<lambda>(r, s, x'). ret (\<lparr>a_status = r, a_stream = s, a_password = []\<rparr>, x'))
     | CbPrepareOperation m \<Rightarrow> (case PrepareOperation m x of (r, x') \<Rightarrow> ret (plain_ans r, x'))
     | CbSetOperationResult v \<Rightarrow> bnd (SetOperationResult Z v x) (\<lambda>(r, x'). ret (plain_ans r, x'))
     | CbCryptoGetTextPassword \<Rightarrow>
         (case CryptoGetTextPassword (x_PasswordIsDefined x) (x_Password x) of (r, pw) \<Rightarrow>
            ret (\<lparr>a_status = Some r, a_stream = False, a_password = pw\<rparr>, x))
     | CbWrite bs \<Rightarrow>
         (case x_outFileStream x of
            None \<Rightarrow> ret (plain_ans E_FAIL, x)
          | Some d \<Rightarrow> bnd (sz_writeOut Z d bs) (\<lambda>(r, d'). ret (plain_ans r, x\<lparr>x_outFileStream := Some d'\<rparr>))))"

primrec run_extract :: "sevenzip \<Rightarrow> in_archive \<Rightarrow> handle \<Rightarrow> ex_run \<Rightarrow> xcb \<Rightarrow> (hresult \<times> xcb) io" where
  "run_extract Z A h (ExDone r) = (\<lambda>x. ret (r, x))"
| "run_extract Z A h (ExCall cb k) = (\<lambda>x. bnd (ex_callback Z A h cb x) (\<lambda>(ans, x'). run_extract Z A h (k ans) x'))"

subsection \<open>The request\<close>

record extract_rq =
  e_archives :: "string list"
  e_destFolder :: string
  e_password :: string
  e_entries :: "u32 list"
  e_subDirLength :: u32
  e_smart :: bool

definition read_archive_round :: "handle \<Rightarrow> string list \<Rightarrow> (string list + string list) io" where
  "read_archive_round h f = bnd (readStringWithLen h) (\<lambda>s. ret (if s = [] then Inr f else Inl (f @ [s])))"

primrec read_indices :: "handle \<Rightarrow> nat \<Rightarrow> u32 list \<Rightarrow> u32 list io" where
  "read_indices h 0 acc = ret acc"
| "read_indices h (Suc n) acc = bnd (readAllOrExit h 4) (\<lambda>b. read_indices h n (acc @ [le_word b]))"

text \<open>The archives and the destination; \<open>None\<close> below: the request is inconsistent and was answered.\<close>

definition read_sources :: "handle \<Rightarrow> bool \<Rightarrow> (string list \<times> string) io" where
  "read_sources h multiArchive =
     (if multiArchive then
        bnd (io_loop h (read_archive_round h) []) (\<lambda>f. bnd (readStringWithLen h) (\<lambda>d. ret (f, d)))
      else bnd (readPairOfStringsWithPairOfLens h) (\<lambda>p. ret ([fst p], snd p)))"

definition read_extract_rq :: "handle \<Rightarrow> u8 \<Rightarrow> extract_rq option io" where
  "read_extract_rq h fl =
     (let multiArchive = (\<not> b2 fl) in
      bnd (read_sources h multiArchive) (\<lambda>(f, destFolder).
      bnd (readStringWithByteLen h) (\<lambda>password.
      bnd (readAllOrExit h 4) (\<lambda>n.
      let nOfEntriesToExtract = (le_word n :: u32) in
      if nOfEntriesToExtract \<noteq> 0 then
        (if multiArchive then thn (set_errno 17217) (thn (sendErrorResponse h) (ret None))
         else bnd (read_indices h (unat nOfEntriesToExtract) []) (\<lambda>es.
              bnd (readAllOrExit h 4) (\<lambda>l.
              ret (Some \<lparr>e_archives = f, e_destFolder = destFolder, e_password = password, e_entries = es,
                e_subDirLength = le_word l, e_smart = False\<rparr>))))
      else ret (Some \<lparr>e_archives = f, e_destFolder = destFolder, e_password = password, e_entries = [],
             e_subDirLength = 0, e_smart = (\<not> b0 fl \<and> destFolder \<noteq> [])\<rparr>)))))"

definition new_xcb :: "sevenzip \<Rightarrow> xcb \<Rightarrow> string \<Rightarrow> ArchiveType \<Rightarrow> u32 \<Rightarrow> int \<Rightarrow> xcb" where
  "new_xcb Z junk srcArchive archiveType subDirLength latest =
     junk\<lparr>x_directoryPath := [], x_filePath := [], x_diskFilePath := [], x_outFileStream := None, x_delayedSymLinks := [],
       x_subDirLength := subDirLength,
       x_onlyChild := (if is_stream archiveType
          then to_wide Z (getVirtualInnerNameForStreamArchive (getFilenameFromFullPath srcArchive) archiveType) else []),
       x_PasswordIsDefined := False, x_Password := [], x_latest := latest\<rparr>"

text \<open>From \<open>sendOkResponse\<close> on: the library runs, then the final response.\<close>

definition extract_run :: "sevenzip \<Rightarrow> xcb \<Rightarrow> handle \<Rightarrow> extract_rq \<Rightarrow> in_archive \<Rightarrow> string \<Rightarrow> ArchiveType \<Rightarrow> string \<Rightarrow> int \<Rightarrow> int io" where
  "extract_run Z junk h rq A srcArchive archiveType destFolder latest =
     (let testMode = (e_destFolder rq = []);
          x = (Init (to_wide Z destFolder) (new_xcb Z junk srcArchive archiveType (e_subDirLength rq) latest))
                \<lparr>x_PasswordIsDefined := e_password rq \<noteq> [], x_Password := to_wide Z (e_password rq)\<rparr> in
      thn (sendOkResponse h)
     (bnd (run_extract Z A h (ar_extract A (if e_entries rq = [] then None else Some (e_entries rq)) testMode) x) (\<lambda>(result, x').
      if x_latest x' \<noteq> kOK then
        thn (set_errno (x_latest x')) (thn (sendEndProgressAndBaseResponse (- 1) h) (ret 0))
      else
        bnd (if result = S_OK \<and> \<not> testMode then bnd (SetFinalAttribs Z x') (\<lambda>(r, x''). ret r) else ret result) (\<lambda>result.
        if result \<noteq> S_OK then
          thn (set_errno NULL_OR_WRONG_PASSWORD) (thn (sendEndProgressAndBaseResponse (- 1) h) (ret (x_latest x')))
        else thn (sendEndProgressAndBaseResponse 0 h) (ret (x_latest x'))))))"

text \<open>
  One archive of the request. The state of the loop: \<open>destFolder\<close>, which an iteration that leaves early does not
  restore, and \<open>latestExtractResult\<close>.
\<close>

definition refuse :: "handle \<Rightarrow> int \<Rightarrow> 'a \<Rightarrow> 'a io" where
  "refuse h e s = thn (set_errno e) (thn (sendErrorResponse h) (ret s))"

definition extract_to :: "sevenzip \<Rightarrow> xcb \<Rightarrow> handle \<Rightarrow> extract_rq \<Rightarrow> in_archive \<Rightarrow> string \<Rightarrow> ArchiveType \<Rightarrow> string \<Rightarrow> int \<Rightarrow> (string \<times> int) io" where
  "extract_to Z junk h rq A srcArchive archiveType destFolder latest =
     bnd (if e_destFolder rq = [] then ret 0 else mkpathCopyPermissionsFromNearestAncestor destFolder True) (\<lambda>r.
     if r < 0 then refuse h EACCES0 (destFolder, latest)
     else bnd (extract_run Z junk h rq A srcArchive archiveType destFolder latest) (\<lambda>latest'.
          ret (if e_smart rq then e_destFolder rq else destFolder, latest')))"

definition smart_folder :: "string \<Rightarrow> string \<Rightarrow> string" where
  "smart_folder destFolder srcArchive = destFolder @ ''/''
     @ (case getFileExtension srcArchive True of Some nm \<Rightarrow> nm | None \<Rightarrow> ''intermediate'')"

definition extract_archive :: "sevenzip \<Rightarrow> xcb \<Rightarrow> handle \<Rightarrow> extract_rq \<Rightarrow> string \<times> int \<Rightarrow> string \<Rightarrow> (string \<times> int) io" where
  "extract_archive Z junk h rq s srcArchive =
     (let (destFolder, latest) = s in
      bnd (detectArchiveType srcArchive) (\<lambda>archiveType.
      if archiveType = UNKNOWN then refuse h 23458 s
      else if sz_create_in Z archiveType \<noteq> S_OK then refuse h 23459 s
      else bnd (get (\<lambda>w. sz_stream Z (to_wide Z srcArchive) (wfs w))) (\<lambda>file.
        case file of
          None \<Rightarrow> refuse h EACCES0 s
        | Some content \<Rightarrow>
            (case sz_open Z archiveType content (CryptoGetTextPassword (e_password rq \<noteq> []) (to_wide Z (e_password rq))) of
               (r, A) \<Rightarrow>
                 if r \<noteq> S_OK then refuse h NULL_OR_WRONG_PASSWORD s
                 else if e_smart rq then
                   bnd (listArchiveInternalOrCheckForSingleItem Z srcArchive (e_password rq) None) (\<lambda>r.
                   if r \<noteq> 1 \<and> r \<noteq> 2 then refuse h EINVAL s
                   else extract_to Z junk h rq A srcArchive archiveType
                          (if r = 2 then smart_folder destFolder srcArchive else destFolder) latest)
                 else extract_to Z junk h rq A srcArchive archiveType destFolder latest))))"

definition extractFromArchive :: "sevenzip \<Rightarrow> xcb \<Rightarrow> int \<Rightarrow> handle \<Rightarrow> u8 \<Rightarrow> unit io" where
  "extractFromArchive Z junk latest h fl =
     (if \<not> sz_loaded Z then refuse h 771 ()
      else if \<not> sz_proc Z then refuse h 12346 ()
      else bnd (read_extract_rq h fl) (\<lambda>rq. case rq of
        None \<Rightarrow> ret ()
      | Some rq \<Rightarrow> thn (io_fold (extract_archive Z junk h rq) (e_destFolder rq, latest) (e_archives rq)) (ret ())))"

subsection \<open>The protocol of an extraction\<close>

text \<open>The file wrappers of the library, which use no connection and return.\<close>

definition silent_lib :: "sevenzip \<Rightarrow> handle \<Rightarrow> bool" where
  "silent_lib Z h \<longleftrightarrow> (\<forall>p. silent h (sz_createDir Z p)) \<and> (\<forall>p. silent h (sz_find Z p)) \<and> (\<forall>p. silent h (sz_delete Z p))
     \<and> (\<forall>p. silent h (sz_openOut Z p)) \<and> (\<forall>d bs. silent h (sz_writeOut Z d bs)) \<and> (\<forall>d t. silent h (sz_setMTime Z d t))
     \<and> (\<forall>d. silent h (sz_closeOut Z d)) \<and> (\<forall>p a. silent h (sz_setAttrib Z p a)) \<and> (\<forall>p. silent h (sz_symlink Z p))"

lemma silent_libD:
  assumes "silent_lib Z h"
  shows "silent h (sz_createDir Z p)" "silent h (sz_find Z p)" "silent h (sz_delete Z p)" "silent h (sz_openOut Z p)"
    "silent h (sz_writeOut Z d bs)" "silent h (sz_setMTime Z d m)" "silent h (sz_closeOut Z d)"
    "silent h (sz_setAttrib Z p a)" "silent h (sz_symlink Z p)"
  using assms by (simp_all add: silent_lib_def)

lemma silent_GetStream: "silent_lib Z h \<Longrightarrow> silent h (GetStream Z A i m x)"
  unfolding GetStream_def open_output_def Let_def by (intro talks_rules silent_libD) simp_all

lemma silent_SetOperationResult: "silent_lib Z h \<Longrightarrow> silent h (SetOperationResult Z v x)"
  unfolding SetOperationResult_def close_output_def Let_def by (intro talks_rules silent_libD) simp_all

lemma silent_SetFinalAttribs: "silent_lib Z h \<Longrightarrow> silent h (SetFinalAttribs Z x)"
  unfolding SetFinalAttribs_def by (intro talks_rules silent_fold silent_libD) simp_all

lemma talks_progress_value:
  "talks h (thn (writeAllOrExitProcess h (le_bytes 8 (v :: u64))) (ret a)) (\<lambda>v out. length out = 8)"
  by (rule talks_thn [OF talks_write_process]) (simp add: talks_ret)

lemma talks_callback: "silent_lib Z h \<Longrightarrow> talks h (ex_callback Z A h cb x) (\<lambda>v out. 8 dvd length out)"
proof (cases cb)
  case (CbSetTotal v)
  then show ?thesis
    by (auto simp: ex_callback_def SetTotal_def intro!: talks_bnd [OF talks_progress_value] talks_ret)
next
  case (CbSetCompleted v)
  have "talks h (SetCompleted h v x) (\<lambda>v out. 8 dvd length out)"
    unfolding SetCompleted_def
    by (intro talks_if talks_conseq [OF talks_progress_value] talks_ret) simp_all
  with CbSetCompleted show ?thesis
    by (auto simp: ex_callback_def intro!: talks_bnd [OF \<open>talks h (SetCompleted h v x) _\<close>] talks_ret)
next
  case (CbGetStream i m)
  then show "silent_lib Z h \<Longrightarrow> ?thesis"
    by (auto simp: ex_callback_def intro!: talks_silent_bnd [OF silent_GetStream] talks_ret)
next
  case (CbSetOperationResult v)
  then show "silent_lib Z h \<Longrightarrow> ?thesis"
    by (auto simp: ex_callback_def intro!: talks_silent_bnd [OF silent_SetOperationResult] talks_ret)
next
  case (CbWrite bs)
  then show "silent_lib Z h \<Longrightarrow> ?thesis"
    by (auto simp: ex_callback_def split: option.splits intro!: talks_ret talks_silent_bnd [OF silent_libD(5)])
qed (auto simp: ex_callback_def PrepareOperation_def CryptoGetTextPassword_def intro!: talks_ret)

lemma talks_run: "silent_lib Z h \<Longrightarrow> talks h (run_extract Z A h r x) (\<lambda>v out. 8 dvd length out)"
proof (induction r arbitrary: x)
  case (ExDone r)
  then show ?case by (simp add: talks_ret)
next
  case (ExCall cb k)
  then show ?case
    by (auto intro!: talks_bnd [OF talks_callback] talks_conseq [OF ExCall.IH] simp: dvd_add)
qed

text \<open>
  One answer: an error, or OK, progress values of 8 bytes each, the end mark and the final response.
\<close>

definition archive_answer :: "byte list \<Rightarrow> bool" where
  "archive_answer out \<longleftrightarrow> (\<exists>e. out = error_wire e)
     \<or> (\<exists>prog fin. out = ok_wire @ prog @ le_bytes 8 maxuint @ fin \<and> 8 dvd length prog
          \<and> (fin = ok_wire \<or> (\<exists>e. fin = error_wire e)))"

lemma archive_answer_run:
  "\<lbrakk>8 dvd length prog; fin = le_bytes 8 maxuint @ ok_wire \<or> (\<exists>e. fin = le_bytes 8 maxuint @ error_wire e)\<rbrakk> \<Longrightarrow>
   archive_answer (ok_wire @ prog @ fin)"
  unfolding archive_answer_def by blast

lemma talks_extract_run:
  assumes "silent_lib Z h"
  shows "talks h (extract_run Z junk h rq A src t dest latest) (\<lambda>v out. archive_answer out)"
proof -
  have fin: "talks h (thn (set_errno e) (thn (sendEndProgressAndBaseResponse r h) (ret a)))
      (\<lambda>v out. out = le_bytes 8 maxuint @ ok_wire \<or> (\<exists>e. out = le_bytes 8 maxuint @ error_wire e))"
    "talks h (thn (sendEndProgressAndBaseResponse r h) (ret a))
      (\<lambda>v out. out = le_bytes 8 maxuint @ ok_wire \<or> (\<exists>e. out = le_bytes 8 maxuint @ error_wire e))"
    for e r and a :: int
    by (rule talks_silent_thn [OF talks_set_errno], rule talks_thn [OF talks_end], rule talks_ret, simp)
       (rule talks_thn [OF talks_end], rule talks_ret, simp)
  show ?thesis
    unfolding extract_run_def Let_def
  proof (rule talks_thn [OF talks_ok], rule talks_bnd [OF talks_run [OF assms]])
    fix u out v out'
    assume o: "out = ok_wire" and p: "8 dvd length (out' :: byte list)"
    have answer: "talks h m (\<lambda>v' fin. archive_answer (out @ out' @ fin))"
      if m: "talks h m (\<lambda>v fin. fin = le_bytes 8 maxuint @ ok_wire \<or> (\<exists>e. fin = le_bytes 8 maxuint @ error_wire e))"
      for m :: "int io"
      by (rule talks_conseq [OF m]) (use archive_answer_run [OF p] o in blast)
    show "talks h (case v of (result, x') \<Rightarrow>
          if x_latest x' \<noteq> kOK then thn (set_errno (x_latest x')) (thn (sendEndProgressAndBaseResponse (- 1) h) (ret 0))
          else bnd (if result = S_OK \<and> e_destFolder rq \<noteq> [] then bnd (SetFinalAttribs Z x') (\<lambda>(r, x''). ret r) else ret result)
            (\<lambda>result. if result \<noteq> S_OK then thn (set_errno NULL_OR_WRONG_PASSWORD)
                         (thn (sendEndProgressAndBaseResponse (- 1) h) (ret (x_latest x')))
                      else thn (sendEndProgressAndBaseResponse 0 h) (ret (x_latest x'))))
        (\<lambda>v' fin. archive_answer (out @ out' @ fin))"
      by (intro answer talks_prod talks_if fin talks_silent_bnd silent_SetFinalAttribs assms talks_ret) simp_all
  qed
qed

lemma talks_refuse: "talks h (refuse h e s) (\<lambda>v out. archive_answer out)"
  unfolding refuse_def
  by (rule talks_silent_thn [OF talks_set_errno], rule talks_thn [OF talks_error]) (auto simp: archive_answer_def intro!: talks_ret)

lemma talks_extract_to:
  "silent_lib Z h \<Longrightarrow> talks h (extract_to Z junk h rq A src t dest latest) (\<lambda>v out. archive_answer out)"
  unfolding extract_to_def
  by (intro talks_silent_bnd talks_if talks_refuse talks_ret silent_mkcopy talks_bnd [OF talks_extract_run]) simp_all

lemma silent_detect: "silent h (detectArchiveType p)"
  unfolding detectArchiveType_def Let_def by (intro talks_rules silent_rules) simp_all

lemma silent_list_loop: "silent h (list_loop Z A None cur is)"
  by (induction "is" arbitrary: cur) (auto simp: Let_def intro!: talks_rules)

lemma silent_check:
  assumes "sz_proc Z"
  shows "silent h (listArchiveInternalOrCheckForSingleItem Z p pw None)"
  using assms unfolding listArchiveInternalOrCheckForSingleItem_def opt_error_def
  by (auto intro!: talks_rules silent_rules silent_detect silent_list_loop split: option.splits)

lemma talks_extract_archive:
  "\<lbrakk>silent_lib Z h; sz_proc Z\<rbrakk> \<Longrightarrow> talks h (extract_archive Z junk h rq s src) (\<lambda>v out. archive_answer out)"
  unfolding extract_archive_def Let_def
  by (intro talks_prod talks_silent_bnd [OF silent_detect] talks_if talks_refuse talks_silent_bnd [OF talks_get] talks_option
      talks_silent_bnd [OF silent_check] talks_extract_to) simp_all

lemma talks_archives:
  assumes "silent_lib Z h" "sz_proc Z"
  shows "talks h (io_fold (extract_archive Z junk h rq) s srcs)
    (\<lambda>v out. \<exists>outs. out = concat outs \<and> length outs = length srcs \<and> (\<forall>x \<in> set outs. archive_answer x))"
proof (induction srcs arbitrary: s)
  case Nil
  then show ?case by (simp add: talks_ret)
next
  case (Cons a srcs)
  show ?case
    unfolding io_fold.simps
  proof (rule talks_bnd [OF talks_extract_archive [OF assms]])
    fix v out
    assume a: "archive_answer out"
    show "talks h (io_fold (extract_archive Z junk h rq) v srcs)
        (\<lambda>v' out'. \<exists>outs. out @ out' = concat outs \<and> length outs = length (a # srcs) \<and> (\<forall>x \<in> set outs. archive_answer x))"
      by (rule talks_conseq [OF Cons.IH]) (use a in \<open>force intro: exI [of _ "out # _"]\<close>)
  qed
qed

subsection \<open>Requests\<close>

text \<open>The bytes of a request, and the requests that can be sent with given flags.\<close>

definition extract_wire :: "bool \<Rightarrow> extract_rq \<Rightarrow> byte list" where
  "extract_wire multiArchive rq =
     (if multiArchive then concat (map str_wire (e_archives rq)) @ str_wire [] @ str_wire (e_destFolder rq)
      else pair_wire (hd (e_archives rq), e_destFolder rq))
     @ byte_str_wire (e_password rq) @ le_bytes 4 (of_nat (length (e_entries rq)) :: u32)
     @ concat (map (le_bytes 4) (e_entries rq)) @ (if e_entries rq = [] then [] else le_bytes 4 (e_subDirLength rq))"

definition extract_rq_ok :: "u8 \<Rightarrow> extract_rq \<Rightarrow> bool" where
  "extract_rq_ok fl rq \<longleftrightarrow> (\<forall>s \<in> set (e_archives rq). s \<noteq> [] \<and> length s < 65536) \<and> length (e_destFolder rq) < 65536
     \<and> length (e_password rq) < 256 \<and> length (e_entries rq) < 2 ^ 32 \<and> (e_entries rq = [] \<longrightarrow> e_subDirLength rq = 0)
     \<and> (b2 fl \<longrightarrow> length (e_archives rq) = 1) \<and> (\<not> b2 fl \<longrightarrow> e_entries rq = [])
     \<and> (e_smart rq \<longleftrightarrow> \<not> b0 fl \<and> e_entries rq = [] \<and> e_destFolder rq \<noteq> [])"

lemma read_archives_unfold:
  "io_loop h (read_archive_round h) s = bnd (read_archive_round h s)
     (\<lambda>r. case r of Inl s' \<Rightarrow> io_loop h (read_archive_round h) s' | Inr a \<Rightarrow> ret a)"
proof (rule io_loop_unfold)
  fix s w s' w'
  have "eats h (2 + 0) (read_archive_round h s)" for s
    unfolding read_archive_round_def by (intro eats_bnd eats_string eats_ret)
  then show "read_archive_round h s w = (Ret (Inl s'), w') \<Longrightarrow> avail h w' < avail h w"
    using io_loop_eats [of h 1 "read_archive_round h"] by (simp add: numeral_2_eq_2)
qed

lemma read_archive_step:
  "length s < 65536 \<Longrightarrow> read_archive_round h f (feed h (str_wire s) w) = (Ret (if s = [] then Inr f else Inl (f @ [s])), w)"
  by (simp add: read_archive_round_def bnd_app read_string ret_app)

lemma read_archives_run:
  "\<forall>s \<in> set ss. s \<noteq> [] \<and> length s < 65536 \<Longrightarrow>
   io_loop h (read_archive_round h) acc (feed h (concat (map str_wire ss) @ str_wire []) w) = (Ret (acc @ ss), w)"
proof (induction ss arbitrary: acc)
  case Nil
  then show ?case
    by (subst read_archives_unfold) (simp add: read_archive_step bnd_app ret_app)
next
  case (Cons s ss)
  then show ?case
    by (subst read_archives_unfold) (simp add: read_archive_step bnd_app ret_app)
qed

lemma read_indices_run:
  "read_indices h (length es) acc (feed h (concat (map (le_bytes 4) es)) w) = (Ret (acc @ es), w)"
  by (induction es arbitrary: acc) (simp_all add: ret_app bnd_app read_feed)

lemma read_request:
  assumes "extract_rq_ok fl rq"
  shows "read_extract_rq h fl (feed h (extract_wire (\<not> b2 fl) rq) w) = (Ret (Some rq), w)"
proof -
  have len: "unat (of_nat (length (e_entries rq)) :: u32) = length (e_entries rq)"
    using assms by (simp add: extract_rq_ok_def unat_of_nat)
  then have z: "(of_nat (length (e_entries rq)) :: u32) = 0 \<longleftrightarrow> e_entries rq = []"
    by (metis length_0_conv unat_eq_0)
  define rest where "rest = byte_str_wire (e_password rq) @ le_bytes 4 (of_nat (length (e_entries rq)) :: u32)
     @ concat (map (le_bytes 4) (e_entries rq)) @ (if e_entries rq = [] then [] else le_bytes 4 (e_subDirLength rq))"
  have src: "read_sources h (\<not> b2 fl) (feed h (extract_wire (\<not> b2 fl) rq) w)
      = (Ret (e_archives rq, e_destFolder rq), feed h rest w)"
  proof (cases "b2 fl")
    case True
    with assms obtain a where "e_archives rq = [a]" by (auto simp: extract_rq_ok_def length_Suc_conv)
    with True assms show ?thesis
      by (simp add: read_sources_def extract_wire_def extract_rq_ok_def bnd_app read_pair ret_app rest_def)
  next
    case False
    then show ?thesis
      using assms read_archives_run [of "e_archives rq" h "[]" "feed h (str_wire (e_destFolder rq)) (feed h rest w)"]
      by (simp add: read_sources_def extract_wire_def extract_rq_ok_def bnd_app read_string ret_app rest_def)
  qed
  show ?thesis
  proof (cases "e_entries rq = []")
    case True
    with assms src z show ?thesis
      by (cases rq) (simp add: read_extract_rq_def Let_def bnd_app rest_def read_byte_string read_feed ret_app extract_rq_ok_def)
  next
    case False
    with assms src z len read_indices_run [of h "e_entries rq" "[]" "feed h (le_bytes 4 (e_subDirLength rq)) w"] show ?thesis
      by (cases rq) (simp add: read_extract_rq_def Let_def bnd_app rest_def read_byte_string read_feed ret_app extract_rq_ok_def)
  qed
qed

text \<open>
  Whatever the 7-Zip library does (any callbacks, in any order, any statuses), a request to extract
  is read completely and gets one answer for every archive it names, in order, each of them an error, or
  OK followed by progress values of eight bytes, the end mark and the final response; the handler
  always returns.
\<close>

theorem extract_answers:
  assumes "silent_lib Z h" and "sz_loaded Z" and "sz_proc Z" and "wr h w" and "extract_rq_ok fl rq"
  shows "\<exists>w' outs. extractFromArchive Z junk latest h fl (feed h (extract_wire (\<not> b2 fl) rq) w) = (Ret (), w')
    \<and> conns w' = conns (emit h (concat outs) w) \<and> length outs = length (e_archives rq)
    \<and> (\<forall>x \<in> set outs. archive_answer x)"
proof -
  obtain v w' outs where "io_fold (extract_archive Z junk h rq) (e_destFolder rq, latest) (e_archives rq) w = (Ret v, w')"
    "conns w' = conns (emit h (concat outs) w)" "length outs = length (e_archives rq)" "\<forall>x \<in> set outs. archive_answer x"
    using talksD [OF talks_archives [OF assms(1,3)] assms(4)] by blast
  with assms(2,3) read_request [OF assms(5)] show ?thesis
    by (auto simp: extractFromArchive_def bnd_app thn_app ret_app)
qed

subsection \<open>The status that is reported\<close>

text \<open>The calls that the library makes in a run.\<close>

primrec ex_trace :: "sevenzip \<Rightarrow> in_archive \<Rightarrow> handle \<Rightarrow> ex_run \<Rightarrow> xcb \<Rightarrow> ex_cb list io" where
  "ex_trace Z A h (ExDone r) = (\<lambda>x. ret [])"
| "ex_trace Z A h (ExCall cb k) = (\<lambda>x. bnd (ex_callback Z A h cb x) (\<lambda>(ans, x').
     bnd (ex_trace Z A h (k ans) x') (\<lambda>cs. ret (cb # cs))))"

fun first_failure :: "ex_cb list \<Rightarrow> int" where
  "first_failure [] = 0"
| "first_failure (CbSetOperationResult v # cs) = (if v \<noteq> 0 then v else first_failure cs)"
| "first_failure (_ # cs) = first_failure cs"

definition latest_after :: "ex_cb list \<Rightarrow> int \<Rightarrow> int" where
  "latest_after cs l = (if l \<noteq> 0 then l else first_failure cs)"

lemma item_info_latest:
  "item_info A i x = Inr x' \<Longrightarrow> x_latest x' = x_latest x"
  "item_info A i x = Inl (r, x') \<Longrightarrow> x_latest x' = x_latest x"
  by (auto simp: item_info_def Let_def split: prod.splits if_splits variant.splits sum.splits option.splits)

lemma rets_option [rets_rules]: "\<lbrakk>r = None \<Longrightarrow> rets m P; \<And>x. r = Some x \<Longrightarrow> rets (g x) P\<rbrakk> \<Longrightarrow>
    rets (case r of None \<Rightarrow> m | Some x \<Rightarrow> g x) P"
  by (cases r) simp_all

lemma rets_sum [rets_rules]: "\<lbrakk>\<And>x. r = Inl x \<Longrightarrow> rets (m x) P; \<And>x. r = Inr x \<Longrightarrow> rets (g x) P\<rbrakk> \<Longrightarrow>
    rets (case r of Inl x \<Rightarrow> m x | Inr x \<Rightarrow> g x) P"
  by (cases r) simp_all

lemma rets_prod [rets_rules]: "(\<And>a b. r = (a, b) \<Longrightarrow> rets (m a b) P) \<Longrightarrow> rets (case r of (a, b) \<Rightarrow> m a b) P"
  by (cases r) simp

lemma GetStream_latest: "rets (GetStream Z A i m x) (\<lambda>(r, s, x'). x_latest x' = x_latest x)"
  unfolding GetStream_def open_output_def Let_def
  by (intro rets_rules) (auto dest: item_info_latest)

lemma SetOperationResult_latest:
  "rets (SetOperationResult Z v x) (\<lambda>(r, x'). x_latest x' = latest_after [CbSetOperationResult v] (x_latest x))"
  unfolding SetOperationResult_def Let_def
  by (intro rets_rules) (auto simp: latest_after_def kOK_def)

lemma callback_latest:
  "rets (ex_callback Z A h cb x) (\<lambda>(ans, x'). x_latest x' = latest_after [cb] (x_latest x))"
proof (cases cb)
  case (CbGetStream i m)
  then show ?thesis
    unfolding ex_callback_def ex_cb.case CbGetStream
    by (intro rets_bnd_post [OF GetStream_latest]) (auto intro!: rets_ret simp: latest_after_def)
next
  case (CbSetOperationResult v)
  then show ?thesis
    unfolding ex_callback_def ex_cb.case CbSetOperationResult
    by (intro rets_bnd_post [OF SetOperationResult_latest]) (auto intro!: rets_ret)
next
  case (CbSetTotal v)
  have r: "rets (SetTotal h v x) (\<lambda>(r, x'). x_latest x' = x_latest x)"
    unfolding SetTotal_def by (intro rets_rules) simp
  show ?thesis
    unfolding ex_callback_def ex_cb.case CbSetTotal
    by (intro rets_bnd_post [OF r]) (auto intro!: rets_ret simp: latest_after_def)
next
  case (CbSetCompleted v)
  have r: "rets (SetCompleted h v x) (\<lambda>(r, x'). x_latest x' = x_latest x)"
    unfolding SetCompleted_def by (intro rets_rules) simp_all
  show ?thesis
    unfolding ex_callback_def ex_cb.case CbSetCompleted
    by (intro rets_bnd_post [OF r]) (auto intro!: rets_ret simp: latest_after_def)
qed (auto simp: ex_callback_def PrepareOperation_def CryptoGetTextPassword_def latest_after_def intro!: rets_rules)

lemma latest_after_Cons: "latest_after (c # cs) l = latest_after cs (latest_after [c] l)"
  by (cases c) (simp_all add: latest_after_def)

lemma run_latest:
  "run_extract Z A h r x w = (Ret (res, x'), w') \<Longrightarrow>
   \<exists>cs. ex_trace Z A h r x w = (Ret cs, w') \<and> x_latest x' = latest_after cs (x_latest x)"
proof (induction r arbitrary: x w)
  case (ExDone r)
  then show ?case by (simp add: ret_app latest_after_def)
next
  case (ExCall cb k)
  then obtain ans x1 w1 where 1: "ex_callback Z A h cb x w = (Ret (ans, x1), w1)"
    "run_extract Z A h (k ans) x1 w1 = (Ret (res, x'), w')"
    by (auto simp: bnd_app split: prod.splits outcome.splits)
  from ExCall.IH [OF _ 1(2)] obtain cs where "ex_trace Z A h (k ans) x1 w1 = (Ret cs, w')" "x_latest x' = latest_after cs (x_latest x1)"
    by blast
  moreover have "x_latest x1 = latest_after [cb] (x_latest x)"
    using callback_latest [of Z A h cb x] 1(1) by (auto simp: rets_def)
  ultimately show ?case using 1(1) latest_after_Cons [of cb cs "x_latest x"] by (simp add: bnd_app ret_app)
qed

text \<open>The final response, from the calls of the run and the status of the library (or of the links created last).\<close>

definition final_response :: "ex_cb list \<Rightarrow> hresult \<Rightarrow> byte list" where
  "final_response cs r =
     (if first_failure cs \<noteq> 0 then error_wire (first_failure cs)
      else if r \<noteq> S_OK then error_wire NULL_OR_WRONG_PASSWORD else ok_wire)"

definition start_xcb :: "sevenzip \<Rightarrow> xcb \<Rightarrow> extract_rq \<Rightarrow> string \<Rightarrow> ArchiveType \<Rightarrow> string \<Rightarrow> int \<Rightarrow> xcb" where
  "start_xcb Z junk rq src t dest latest = (Init (to_wide Z dest) (new_xcb Z junk src t (e_subDirLength rq) latest))
     \<lparr>x_PasswordIsDefined := e_password rq \<noteq> [], x_Password := to_wide Z (e_password rq)\<rparr>"

definition library_run :: "in_archive \<Rightarrow> extract_rq \<Rightarrow> ex_run" where
  "library_run A rq = ar_extract A (if e_entries rq = [] then None else Some (e_entries rq)) (e_destFolder rq = [])"

definition last_status :: "sevenzip \<Rightarrow> extract_rq \<Rightarrow> hresult \<Rightarrow> xcb \<Rightarrow> hresult io" where
  "last_status Z rq r x = (if r = S_OK \<and> e_destFolder rq \<noteq> [] then bnd (SetFinalAttribs Z x) (\<lambda>(r, x'). ret r) else ret r)"

lemma extract_run_alt:
  "extract_run Z junk h rq A src t dest latest =
     thn (sendOkResponse h) (bnd (run_extract Z A h (library_run A rq) (start_xcb Z junk rq src t dest latest)) (\<lambda>(r, x').
      if x_latest x' \<noteq> kOK then
        thn (set_errno (x_latest x')) (thn (sendEndProgressAndBaseResponse (- 1) h) (ret 0))
      else bnd (last_status Z rq r x') (\<lambda>result.
        if result \<noteq> S_OK then
          thn (set_errno NULL_OR_WRONG_PASSWORD) (thn (sendEndProgressAndBaseResponse (- 1) h) (ret (x_latest x')))
        else thn (sendEndProgressAndBaseResponse 0 h) (ret (x_latest x')))))"
  unfolding extract_run_def library_run_def start_xcb_def last_status_def Let_def by (rule refl)

lemma silent_last_status: "silent_lib Z h \<Longrightarrow> silent h (last_status Z rq r x)"
  unfolding last_status_def by (intro talks_rules silent_SetFinalAttribs) simp_all

lemma send_end: "wr h w \<Longrightarrow> sendEndProgressAndBaseResponse r h w
    = (Ret (), emit h (le_bytes 8 maxuint @ (if r = 0 then ok_wire else error_wire (errno w))) w)"
  by (simp add: sendEndProgressAndBaseResponse_def thn_app write_emit send_base)

lemma errno_upd_emit: "conns (emit h b (w\<lparr>errno := e\<rparr>)) = conns (emit h b w)"
  by (simp add: emit_def set_conn_def)

text \<open>
  The final response of an archive tells how its extraction went, and only that one: it carries the first
  operation result other than OK among the calls of the library, or else the generic error when the
  library or the creation of the links failed, or else OK; and in every case the record of the latest error is clear
  again for the next archive.
\<close>

theorem extract_status:
  assumes "silent_lib Z h" and "wr h w"
  shows "\<exists>r x' cs w1 s w2 w3 prog.
      run_extract Z A h (library_run A rq) (start_xcb Z junk rq src t dest 0) (emit h ok_wire w) = (Ret (r, x'), w1)
    \<and> ex_trace Z A h (library_run A rq) (start_xcb Z junk rq src t dest 0) (emit h ok_wire w) = (Ret cs, w1)
    \<and> last_status Z rq r x' w1 = (Ret s, w2)
    \<and> extract_run Z junk h rq A src t dest 0 w = (Ret 0, w3)
    \<and> conns w3 = conns (emit h (ok_wire @ prog @ le_bytes 8 maxuint @ final_response cs s) w)"
proof -
  let ?x = "start_xcb Z junk rq src t dest 0"
  have "wr h (emit h ok_wire w)" using assms(2) by simp
  from talksD [OF talks_run [OF assms(1), of A "library_run A rq" ?x] this] obtain v w1 prog where
    v: "run_extract Z A h (library_run A rq) ?x (emit h ok_wire w) = (Ret v, w1)" "conns w1 = conns (emit h prog (emit h ok_wire w))"
    by blast
  obtain r x' where rx: "v = (r, x')" by fastforce
  from run_latest [OF v(1) [unfolded rx]] obtain cs where cs: "ex_trace Z A h (library_run A rq) ?x (emit h ok_wire w) = (Ret cs, w1)"
    "x_latest x' = first_failure cs"
    by (auto simp: latest_after_def start_xcb_def new_xcb_def Init_def)
  have wr1: "wr h w1" using wr_conns [OF v(2), of h] assms(2) by simp
  from talksD [OF silent_last_status [OF assms(1), of rq r x'] wr1] obtain s w2 where
    s: "last_status Z rq r x' w1 = (Ret s, w2)" "conns w2 = conns w1" by auto
  have wr2: "wr h w2" using wr_conns [OF s(2), of h] wr1 by simp
  define w3 where "w3 = (if first_failure cs \<noteq> 0 then emit h (le_bytes 8 maxuint @ error_wire (first_failure cs)) (w1\<lparr>errno := first_failure cs\<rparr>)
      else if s \<noteq> S_OK then emit h (le_bytes 8 maxuint @ error_wire NULL_OR_WRONG_PASSWORD) (w2\<lparr>errno := NULL_OR_WRONG_PASSWORD\<rparr>)
      else emit h (le_bytes 8 maxuint @ ok_wire) w2)"
  have "extract_run Z junk h rq A src t dest 0 w = (Ret 0, w3)"
    using v(1) rx cs(2) s(1) wr1 wr2 assms(2)
    by (simp add: extract_run_alt thn_app bnd_app send_ok set_errno_app send_end ret_app kOK_def w3_def)
  moreover have "conns w3 = conns (emit h (le_bytes 8 maxuint @ final_response cs s) w1)"
    using emit_conns [OF s(2)] by (simp add: w3_def final_response_def errno_upd_emit)
  moreover have "\<dots> = conns (emit h (ok_wire @ prog @ le_bytes 8 maxuint @ final_response cs s) w)"
    using emit_conns [OF v(2), of h "le_bytes 8 maxuint @ final_response cs s"] by simp
  ultimately show ?thesis using v(1) rx cs(1) s(1) by metis
qed

text \<open>
  With the creation of a folder of its own for an archive of several items, a destination that cannot be created is not
  taken back: after the error the next archive of the request is extracted below the folder meant for the
  archive that failed.
\<close>

theorem smart_folder_leaks:
  assumes "opens Z w cs (e_password rq) A" and "e_smart rq" and "e_destFolder rq \<noteq> []" and "wr h w"
    and "list_loop Z A None [] (item_indices (ar_items A)) w = (Ret 2, w)"
    and "mkpathCopyPermissionsFromNearestAncestor (smart_folder dest (abs_path cs)) True w = (Ret r, w1)" and "r < 0"
  shows "\<exists>w2. io_fold (extract_archive Z junk h rq) (dest, 0) [abs_path cs, src] w
      = extract_archive Z junk h rq (smart_folder dest (abs_path cs), 0) src w2
    \<and> conns w2 = conns (emit h (error_wire EACCES0) w)"
proof -
  obtain a c t where o: "at_path (wfs w) cs (Reg a c)" "8 \<le> length c" "signed c t" "t \<in> signed_at_0"
    "\<not> is_stream t" "sz_create_in Z t = S_OK" "sz_stream Z (to_wide Z (abs_path cs)) (wfs w) = Some c"
    "sz_open Z t c (CryptoGetTextPassword (e_password rq \<noteq> []) (to_wide Z (e_password rq))) = (S_OK, A)" "sz_loaded Z" "sz_proc Z"
    using assms(1) by (auto simp: opens_def)
  have t: "t \<noteq> UNKNOWN" using o(4) by (auto simp: signed_at_0_def)
  obtain w1' where c1: "conns w1 = conns w"
    using talksD [OF silent_mkcopy assms(4), of "smart_folder dest (abs_path cs)" True] assms(6) by auto
  have wr1: "wr h w1" using wr_conns [OF c1, of h] assms(4) by simp
  let ?w2 = "emit h (error_wire EACCES0) (w1\<lparr>errno := EACCES0\<rparr>)"
  have "extract_archive Z junk h rq (dest, 0) (abs_path cs) w = (Ret (smart_folder dest (abs_path cs), 0), ?w2)"
    using o t assms wr1
    by (simp add: extract_archive_def bnd_app detect_signed [OF o(1-4)] get_app check_run [OF assms(1)] extract_to_def
        refuse_def thn_app set_errno_app send_error ret_app)
  then have "io_fold (extract_archive Z junk h rq) (dest, 0) [abs_path cs, src] w
      = extract_archive Z junk h rq (smart_folder dest (abs_path cs), 0) src ?w2"
    by (simp add: bnd_app ret_app split: prod.splits outcome.splits)
  moreover have "conns ?w2 = conns (emit h (error_wire EACCES0) w)"
    using emit_conns [OF c1, of h "error_wire EACCES0"] by (simp add: errno_upd_emit)
  ultimately show ?thesis by blast
qed

text \<open>Concrete runs.\<close>

definition demo_rq :: extract_rq where
  "demo_rq = \<lparr>e_archives = [''/d/b.zip''], e_destFolder = ''/d'', e_password = [], e_entries = [], e_subDirLength = 0, e_smart = True\<rparr>"

definition blank_xcb :: xcb where
  "blank_xcb = \<lparr>x_directoryPath = [], x_filePath = [], x_diskFilePath = [], x_extractMode = False, x_MTime = 0,
     x_MTimeDefined = False, x_Attrib = 0, x_AttribDefined = False, x_isDir = False, x_outFileStream = None,
     x_delayedSymLinks = [], x_lastProgress = 0, x_totalSize = 0, x_subDirLength = 0, x_onlyChild = [], x_NumErrors = 0,
     x_PasswordIsDefined = False, x_Password = [], x_latest = 0\<rparr>"

lemma demo_silent: "silent_lib (demo_lib n ex) h"
  by (simp add: silent_lib_def demo_lib_def talks_ret)

theorem extract_answers_witness:
  "\<exists>w' outs. extractFromArchive (demo_lib 1 no_extract) blank_xcb 0 Cl 6 (feed Cl (extract_wire False demo_rq) arch_world) = (Ret (), w')
    \<and> conns w' = conns (emit Cl (concat outs) arch_world) \<and> length outs = 1 \<and> (\<forall>x \<in> set outs. archive_answer x)"
proof -
  have "b2 6" "\<not> b0 6" by (simp_all add: b2_def b0_def)
  then have "extract_rq_ok 6 demo_rq" by (simp add: extract_rq_ok_def demo_rq_def)
  with extract_answers [OF demo_silent, of 1 no_extract Cl arch_world 6 demo_rq blank_xcb 0] \<open>b2 6\<close> arch_world_wr show ?thesis
    by (simp add: demo_lib_def demo_rq_def)
qed

text \<open>A library that reports a failure of its second item.\<close>

definition failing_run :: "u32 list option \<Rightarrow> bool \<Rightarrow> ex_run" where
  "failing_run is testMode = ExCall (CbSetOperationResult 0) (\<lambda>a. ExCall (CbSetOperationResult 3) (\<lambda>a. ExDone S_OK))"

lemma result_idle:
  "\<lbrakk>x_outFileStream x = None; \<not> x_extractMode x\<rbrakk> \<Longrightarrow> \<exists>x'. SetOperationResult Z v x w = (Ret (S_OK, x'), w)
     \<and> x_outFileStream x' = None \<and> \<not> x_extractMode x'"
  by (simp add: SetOperationResult_def close_output_def bnd_app ret_app Let_def)

theorem extract_status_witness:
  "\<exists>w3 prog. extract_run (demo_lib 1 failing_run) blank_xcb Cl demo_rq (demo_ar 1 failing_run) ''/d/b.zip'' ZIP ''/d'' 0 arch_world = (Ret 0, w3)
    \<and> conns w3 = conns (emit Cl (ok_wire @ prog @ le_bytes 8 maxuint @ error_wire 3) arch_world)"
proof -
  let ?Z = "demo_lib 1 failing_run" and ?A = "demo_ar 1 failing_run" and ?w = "emit Cl ok_wire arch_world"
  let ?x = "start_xcb ?Z blank_xcb demo_rq ''/d/b.zip'' ZIP ''/d'' 0"
  obtain cs w1 s w3 prog where tr: "ex_trace ?Z ?A Cl (library_run ?A demo_rq) ?x ?w = (Ret cs, w1)"
    and w3: "extract_run ?Z blank_xcb Cl demo_rq ?A ''/d/b.zip'' ZIP ''/d'' 0 arch_world = (Ret 0, w3)"
    "conns w3 = conns (emit Cl (ok_wire @ prog @ le_bytes 8 maxuint @ final_response cs s) arch_world)"
    using extract_status [OF demo_silent, of Cl arch_world 1 failing_run ?A demo_rq blank_xcb "''/d/b.zip''" ZIP "''/d''"] arch_world_wr
    by blast
  have lib: "library_run ?A demo_rq = ExCall (CbSetOperationResult 0) (\<lambda>a. ExCall (CbSetOperationResult 3) (\<lambda>a. ExDone S_OK))"
    by (simp add: library_run_def demo_ar_def failing_run_def)
  obtain x1 where 1: "SetOperationResult ?Z 0 ?x ?w = (Ret (S_OK, x1), ?w)" "x_outFileStream x1 = None" "\<not> x_extractMode x1"
    using result_idle [of ?x ?Z 0 ?w] by (auto simp: start_xcb_def Init_def new_xcb_def blank_xcb_def)
  obtain x2 where "SetOperationResult ?Z 3 x1 ?w = (Ret (S_OK, x2), ?w)"
    using result_idle [OF 1(2,3)] by blast
  with tr lib 1(1) have "cs = [CbSetOperationResult 0, CbSetOperationResult 3]"
    by (simp add: bnd_app ret_app ex_callback_def)
  with w3 show ?thesis by (auto simp: final_response_def)
qed

lemma hd_sperms_L:
  assumes "hd (b2s (sperms (stats_record n (permissions_of p (st_mode n) f) us))) = CHR ''L''"
  shows "is_lnk n"
proof -
  have "permissions_of p (st_mode n) f \<noteq> []" by (metis length_permissions_of length_0_conv zero_neq_numeral)
  with assms have "permissions_of p (st_mode n) f ! 0 = CHR ''L''" by (simp add: stats_record_def hd_conv_nth)
  then show ?thesis by (auto simp: permissions_of_def dest: perm_string_L)
qed

lemma mkcopy_file:
  assumes "sys_lstat p (wfs w) = Inr (Reg a c)"
  shows "mkpathCopyPermissionsFromNearestAncestor p True w = (Ret (- 1), w\<lparr>errno := EEXIST\<rparr>)"
proof -
  obtain e where "existsIsFileIsDir0_st p w = (Ret (efd_of p (wfs w), efd_stats p (wfs w) (users w)), w\<lparr>errno := e\<rparr>)"
    using quietD [OF quiet_existsIsFileIsDir0_st, of p w] by auto
  moreover have "hd (b2s (sperms (efd_stats p (wfs w) (users w)))) \<noteq> CHR ''d''"
    using assms by (simp add: efd_stats_def stats_of_def hd_sperms_d)
  moreover have "hd (b2s (sperms (efd_stats p (wfs w) (users w)))) \<noteq> CHR ''L''"
    using assms hd_sperms_L [of "Reg a c"] by (auto simp: efd_stats_def stats_of_def)
  moreover have "efd_of p (wfs w) = 1" using assms by (simp add: efd_of_def)
  ultimately show ?thesis
    by (simp add: mkpathCopyPermissionsFromNearestAncestor_def bnd_app thn_app ret_app set_errno_app)
qed

text \<open>Two archives in a directory where a file has the name of the first one without its extension.\<close>

definition taken_world :: world where
  "taken_world = world0\<lparr>wfs := fs0\<lparr>root := Dir attr0
     [(''d'', Dir attr0 [(''b'', Reg attr0 []), (''b.zip'', Reg attr0 zip_bytes)])]\<rparr>\<rparr>"

definition two_items :: in_archive where
  "two_items = \<lparr>ar_items = 2, ar_prop = (\<lambda>i p. (S_OK, VT_BSTR [if i = 0 then 0x61 else 0x78])), ar_extract = no_extract\<rparr>"

theorem smart_folder_leaks_witness:
  "\<exists>w2. io_fold (extract_archive ((demo_lib 2 no_extract)\<lparr>sz_open := \<lambda>t c pw. (S_OK, two_items)\<rparr>) blank_xcb Cl demo_rq)
        (''/d'', 0) [''/d/b.zip'', ''/d/c.zip''] taken_world
      = extract_archive ((demo_lib 2 no_extract)\<lparr>sz_open := \<lambda>t c pw. (S_OK, two_items)\<rparr>) blank_xcb Cl demo_rq (''/d/b'', 0) ''/d/c.zip'' w2
    \<and> conns w2 = conns (emit Cl (error_wire EACCES0) taken_world)"
proof -
  let ?Z = "(demo_lib 2 no_extract)\<lparr>sz_open := \<lambda>t c pw. (S_OK, two_items)\<rparr>"
  have at: "at_path (wfs taken_world) [''d'', ''b.zip''] (Reg attr0 zip_bytes)"
    and at2: "at_path (wfs taken_world) [''d'', ''b''] (Reg attr0 [])"
    by (auto simp: at_path_def taken_world_def no_faults_def good_name_def dirs_above_def less_Suc_eq)
  have "posix_stream (to_wide (demo_lib 2 no_extract) ''/d/b.zip'') (wfs taken_world) = Some zip_bytes"
    using file_open_at_path [OF at] demo_narrow [of 2 no_extract] by (simp add: posix_stream_def)
  then have o: "opens ?Z taken_world [''d'', ''b.zip''] [] two_items"
    using at arch_world_types
    by (auto simp: opens_def demo_lib_def to_wide_def signed_at_0_def is_stream_def
        intro!: exI [of _ attr0] exI [of _ zip_bytes] exI [of _ ZIP])
  have n: "entry_name two_items 0 = ''a''" "entry_name two_items 1 = ''x''"
    by (simp_all add: entry_name_def two_items_def to_narrow_def wchar_to_UTF8_def utf8_bytes_def b2s_def demo_chars)
  have "item_indices (ar_items two_items) = [0, 1]" by (simp add: item_indices_def two_items_def upt_rec)
  then have l: "list_loop ?Z two_items None [] (item_indices (ar_items two_items)) taken_world = (Ret 2, taken_world)"
    using list_loop_none_first [of "[0, 1]" two_items ?Z taken_world] n by (auto simp: top_item_def)
  have sf: "smart_folder ''/d'' ''/d/b.zip'' = ''/d/b''"
    by (simp add: smart_folder_def getFileExtension_def)
  have "sys_lstat ''/d/b'' (wfs taken_world) = Inr (Reg attr0 [])" using at_path_lstat [OF at2] by simp
  note m = mkcopy_file [OF this]
  show ?thesis
    using smart_folder_leaks [of ?Z taken_world "[''d'', ''b.zip'']" demo_rq two_items Cl "''/d''" "- 1" _ blank_xcb "''/d/c.zip''"]
      o l m sf by (simp add: demo_rq_def taken_world_def)
qed

end
