(* ===== verification/RH_Walk.thy ===== *)
theory RH_Walk
  imports RH_Tree
begin

section \<open>The recursive iterator visits the tree\<close>

text \<open>
  The iterator of diriterator/readdirIterator.h in its default mode, which descends into directories, on a
  tree without symbolic links: it visits every node below its directory exactly once, and the rounds allowed by
  \<open>it_fuel\<close> are enough.
\<close>

fun no_links :: "node \<Rightarrow> bool" where
  "no_links (Dir a es) \<longleftrightarrow> (\<forall>e \<in> set es. no_links (snd e))"
| "no_links (Lnk a t) \<longleftrightarrow> False"
| "no_links _ \<longleftrightarrow> True"

text \<open>The locations below a node, in the order of the visits.\<close>

fun visit :: "string list \<Rightarrow> node \<Rightarrow> string list list" where
  "visit cs (Dir a es) = concat (map (\<lambda>e. (cs @ [fst e]) # visit (cs @ [fst e]) (snd e)) (rev es))"
| "visit cs _ = []"

definition visits :: "(string list \<times> node) list \<Rightarrow> string list list" where
  "visits S = concat (map (\<lambda>s. fst s # visit (fst s) (snd s)) S)"

lemma visits_simps [simp]: "visits [] = []" "visits ((l, n) # S) = l # visit l n @ visits S"
  "visits (S @ T) = visits S @ visits T"
  by (simp_all add: visits_def)

lemma visit_Dir: "visit cs (Dir a es) = visits (map (\<lambda>e. (cs @ [fst e], snd e)) (rev es))"
  by (simp add: visits_def comp_def)

lemma visit_append: "visit (xs @ cs) n = map (\<lambda>l. xs @ l) (visit cs n)"
proof (induction cs n rule: visit.induct)
  case (1 cs a es)
  have "map (\<lambda>e. (xs @ cs @ [fst e]) # visit (xs @ cs @ [fst e]) (snd e)) (rev es)
      = map (\<lambda>e. (xs @ cs @ [fst e]) # map ((@) xs) (visit (cs @ [fst e]) (snd e))) (rev es)"
    by (rule map_cong) (use 1 in auto)
  then show ?case by (simp only: visit.simps map_concat map_map comp_def list.map append_assoc)
qed simp_all

lemma visit_rel: "visit cs n = map (\<lambda>l. cs @ l) (visit [] n)"
  using visit_append [of cs "[]" n] by simp

lemma visit_single: "visit [c] n = map ((#) c) (visit [] n)"
  using visit_append [of "[c]" "[]" n] by simp

text \<open>The visits at one entry of a directory.\<close>

definition entry_visit :: "string \<times> node \<Rightarrow> string list list" where
  "entry_visit e = [fst e] # map ((#) (fst e)) (visit [] (snd e))"

lemma visit_entries: "visit [] (Dir a es) = concat (map entry_visit (rev es))"
  by (simp add: entry_visit_def [abs_def] visit_single)

lemma in_entry_visit:
  "l \<in> set (entry_visit e) \<longleftrightarrow> (\<exists>r. l = fst e # r \<and> (r = [] \<or> r \<in> set (visit [] (snd e))))"
  by (cases l) (auto simp: entry_visit_def)

lemma in_visit_Dir:
  "l \<in> set (visit [] (Dir a es)) \<longleftrightarrow> (\<exists>e \<in> set es. \<exists>r. l = fst e # r \<and> (r = [] \<or> r \<in> set (visit [] (snd e))))"
  by (simp add: visit_entries in_entry_visit del: visit.simps)

lemma visit_set: "wf_node n \<Longrightarrow> l \<in> set (visit [] n) \<longleftrightarrow> l \<noteq> [] \<and> lookup n l \<noteq> None"
proof (induction n arbitrary: l rule: wf_node.induct)
  case (1 a es)
  have sub: "r \<in> set (visit [] (snd e)) \<longleftrightarrow> r \<noteq> [] \<and> lookup (snd e) r \<noteq> None" if "e \<in> set es" for e r
    using 1 that by simp
  have "distinct (map fst es)" using 1 by simp
  then have m: "e \<in> set es \<longleftrightarrow> map_of es (fst e) = Some (snd e)" for e by (simp add: map_of_eq_Some_iff)
  have "l \<in> set (visit [] (Dir a es)) \<longleftrightarrow> (\<exists>e \<in> set es. \<exists>r. l = fst e # r \<and> lookup (snd e) r \<noteq> None)"
    unfolding in_visit_Dir using sub by (metis lookup.simps(1) option.distinct(1))
  also have "\<dots> \<longleftrightarrow> l \<noteq> [] \<and> lookup (Dir a es) l \<noteq> None"
    using m by (cases l) (force split: option.splits)+
  finally show ?case .
qed (simp_all add: neq_Nil_conv, auto)

lemma visit_distinct: "wf_node n \<Longrightarrow> distinct (visit [] n)"
proof (induction n rule: wf_node.induct)
  case (1 a es)
  have sub: "distinct (entry_visit e)" if "e \<in> set es" for e
    using 1 that visit_set [of "snd e" "[]"] by (simp add: entry_visit_def distinct_map inj_on_def image_iff)
  have "distinct (concat (map entry_visit xs))" if "set xs \<subseteq> set es" "distinct (map fst xs)" for xs
    using that
  proof (induction xs)
    case (Cons e xs)
    have "set (entry_visit e) \<inter> set (entry_visit y) = {}" if "y \<in> set xs" for y
      using Cons.prems(2) that by (force simp: in_entry_visit)
    then have "set (entry_visit e) \<inter> set (concat (map entry_visit xs)) = {}" by auto
    with Cons sub show ?case by simp
  qed simp
  moreover have "set (rev es) \<subseteq> set es" "distinct (map fst (rev es))" using 1 by (simp_all add: rev_map [symmetric])
  ultimately show ?case unfolding visit_entries by blast
qed simp_all

subsection \<open>The loop\<close>

lemma efdL_run:
  assumes "at_path (wfs w) l n" "\<not> is_lnk n"
  shows "\<exists>e. efdL (abs_path l) w = (Ret (if is_dir n then CHR ''d'' else CHR 0x01), w\<lparr>errno := e\<rparr>)"
proof -
  have "S_ISDIR (st_mode n) \<longleftrightarrow> is_dir n" "S_ISLNK (st_mode n) \<longleftrightarrow> is_lnk n" by simp_all
  with assms show ?thesis
    by (intro exI [of _ "errno w"]) (simp add: efdL_def bnd_app io_query_def at_path_lstat [OF assms(1)] ret_app)
qed

definition descending :: "dirIterator \<Rightarrow> bool" where
  "descending it \<longleftrightarrow> it_listing it = RECURSIVE_FOLLOW_SYMLINKS \<and> \<not> it_sort it \<and> it_filter it = (\<lambda>_. True)"

definition shown :: "dirIterator \<Rightarrow> string list \<Rightarrow> string" where
  "shown it l = (if it_mode it = FULL then abs_path l else drop (it_rootLen it) (abs_path l))"

definition on_stack :: "fs \<Rightarrow> (string list \<times> node) list \<Rightarrow> dirIterator \<Rightarrow> bool" where
  "on_stack f S it \<longleftrightarrow> it_stack it = map (\<lambda>s. (abs_path (fst s), last (fst s))) S
     \<and> (\<forall>(l, n) \<in> set S. at_path f l n \<and> wf_node n \<and> no_links n)"

lemma pushed:
  assumes "at_path f l (Dir a es)" "wf_node (Dir a es)" "no_links (Dir a es)" "descending it" "on_stack f S it"
  shows "on_stack f (map (\<lambda>e. (l @ [fst e], snd e)) (rev es) @ S) (listOnStack it ([''.'', ''..''] @ map fst es) (abs_path l))"
proof -
  have "filter (\<lambda>n. n \<noteq> ''.'' \<and> n \<noteq> ''..'') (map fst es) = map fst es"
    using assms(2) by (intro filter_True) (auto simp: good_name_def)
  then have "level_entries it ([''.'', ''..''] @ map fst es) (abs_path l) = map (\<lambda>e. (abs_path (l @ [fst e]), fst e)) es"
    using assms(4) by (simp add: level_entries_def descending_def comp_def)
  moreover have "\<forall>e \<in> set es. at_path f (l @ [fst e]) (snd e) \<and> wf_node (snd e) \<and> no_links (snd e)"
    using assms(1-3) at_path_child [OF assms(1,2)] by auto
  ultimately show ?thesis
    using assms(5) by (cases es rule: rev_cases) (auto simp: on_stack_def listOnStack_def comp_def rev_map)
qed

lemma next_descending:
  assumes "descending it" "on_stack (wfs w) ((l, n) # S) it"
  shows "\<exists>e it'. it_next it w = (Ret (True, it'), w\<lparr>errno := e\<rparr>) \<and> descending it' \<and> it_mode it' = it_mode it
    \<and> it_rootLen it' = it_rootLen it \<and> it_current it' = shown it l
    \<and> on_stack (wfs w) (case n of Dir a es \<Rightarrow> map (\<lambda>e. (l @ [fst e], snd e)) (rev es) @ S | _ \<Rightarrow> S) it'"
proof -
  have n: "at_path (wfs w) l n" "wf_node n" "no_links n" "\<not> is_lnk n" and st: "it_stack it = (abs_path l, last l) # map (\<lambda>s. (abs_path (fst s), last (fst s))) S"
    and rest: "\<forall>(l, n) \<in> set S. at_path (wfs w) l n \<and> wf_node n \<and> no_links n"
    using assms(2) by (cases n; auto simp: on_stack_def)+
  obtain e where e: "efdL (abs_path l) w = (Ret (if is_dir n then CHR ''d'' else CHR 0x01), w\<lparr>errno := e\<rparr>)"
    using efdL_run [OF n(1,4)] by blast
  let ?it = "it\<lparr>it_stack := map (\<lambda>s. (abs_path (fst s), last (fst s))) S,
      it_currentName := (if it_names it then last l else it_currentName it), it_currentEfd := (if is_dir n then CHR ''d'' else CHR 0x01)\<rparr>"
  have d: "descends ?it (abs_path l) c = ret (c = CHR ''d'' \<or> c = CHR ''L'')" for c
    using assms(1) by (simp add: descends_def descending_def)
  have it: "descending ?it" "on_stack (wfs w) S ?it" using assms(1) rest by (simp_all add: descending_def on_stack_def)
  show ?thesis
  proof (cases "is_dir n")
    case True
    then obtain a es where Dir: "n = Dir a es" by (cases n) auto
    let ?it' = "(listOnStack ?it ([''.'', ''..''] @ map fst es) (abs_path l))
        \<lparr>it_current := (if it_mode it = FULL then abs_path l else drop (it_rootLen it) (abs_path l))\<rparr>"
    have "it_mode (listOnStack ?it ns p) = it_mode it" "it_rootLen (listOnStack ?it ns p) = it_rootLen it"
      "descending (listOnStack ?it ns p)" for ns p
      using it(1) by (simp_all add: listOnStack_def Let_def descending_def)
    moreover have "it_next it w = (Ret (True, ?it'), w\<lparr>errno := 0\<rparr>)"
      using e d True st n(1) at_path_listdir [of "wfs w" l a es] calculation
      by (simp add: it_next_def Let_def bnd_app thn_app set_errno_app ret_app io_query_def Dir)
    ultimately show ?thesis
      using pushed [OF n(1) [unfolded Dir] n(2) [unfolded Dir] n(3) [unfolded Dir] it]
      by (intro exI [of _ 0] exI [of _ ?it'])
        (simp add: Dir shown_def descending_def on_stack_def)
  next
    case False
    let ?it' = "?it\<lparr>it_current := (if it_mode it = FULL then abs_path l else drop (it_rootLen it) (abs_path l))\<rparr>"
    have "it_next it w = (Ret (True, ?it'), w\<lparr>errno := e\<rparr>)"
      using e d False st by (simp add: it_next_def Let_def bnd_app ret_app)
    then show ?thesis
      using False it by (intro exI [of _ e] exI [of _ ?it']) (cases n; simp add: shown_def descending_def on_stack_def)
  qed
qed

definition stack_nodes :: "(string list \<times> node) list \<Rightarrow> nat" where
  "stack_nodes S = sum_list (map (\<lambda>s. nodes (snd s)) S)"

lemma stack_nodes_simps [simp]: "stack_nodes [] = 0" "stack_nodes (s # S) = nodes (snd s) + stack_nodes S"
  "stack_nodes (S @ T) = stack_nodes S + stack_nodes T"
  by (simp_all add: stack_nodes_def)

lemma stack_nodes_children: "stack_nodes (map (\<lambda>e. (l @ [fst e], snd e)) (rev es)) < nodes (Dir a es)"
  using sum_list_map_rev [of "\<lambda>e. nodes (snd e)" es] by (simp add: stack_nodes_def comp_def)

lemma walk_fold:
  assumes body: "\<And>it s. says f u (body it s) (g (it_current it) s) (ob (it_current it) s)"
  shows "\<lbrakk>descending it; on_stack f S it; stack_nodes S < n\<rbrakk> \<Longrightarrow>
    says f u (it_fold n body it s) (fold g (map (shown it) (visits S)) s) (fold_out g ob (map (shown it) (visits S)) s)"
proof (induction n arbitrary: it S s)
  case 0
  then show ?case by simp
next
  case (Suc n)
  show ?case
    unfolding says_def
  proof (intro allI impI)
    fix w :: world
    assume w: "wfs w = f" "users w = u" "\<forall>h. wr h w"
    show "\<exists>e p. it_fold (Suc n) body it s w = (Ret (fold g (map (shown it) (visits S)) s),
        emit_all (fold_out g ob (map (shown it) (visits S)) s) (w\<lparr>errno := e, progress := p\<rparr>))"
    proof (cases S)
      case Nil
      with Suc.prems have "it_stack it = []" by (simp add: on_stack_def)
      with Nil show ?thesis
        by (intro exI [of _ "errno w"] exI [of _ "progress w"]) (simp add: bnd_app it_next_end ret_app emit_all_def)
    next
      case (Cons x S')
      obtain l nd where x: "x = (l, nd)" by (cases x)
      let ?S = "(case nd of Dir a es \<Rightarrow> map (\<lambda>e. (l @ [fst e], snd e)) (rev es) @ S' | _ \<Rightarrow> S')"
      have vis: "visits S = l # visits ?S"
        using Cons x by (cases nd) (simp_all add: visit_Dir del: visit.simps(1))
      have len: "stack_nodes ?S < n"
      proof (cases nd)
        case (Dir a es)
        then show ?thesis using Suc.prems(3) Cons x stack_nodes_children [of l es a] by simp
      qed (use Suc.prems(3) Cons x nodes_pos [of nd] in simp_all)
      obtain e it' where nx: "it_next it w = (Ret (True, it'), w\<lparr>errno := e\<rparr>)" "descending it'" "it_mode it' = it_mode it"
        "it_rootLen it' = it_rootLen it" "it_current it' = shown it l" "on_stack f ?S it'"
        using next_descending [of it w l nd S'] Suc.prems Cons x w by auto
      have sh: "shown it' = shown it" using nx(3,4) by (simp add: shown_def fun_eq_iff)
      have out: "(\<lambda>h. ob (shown it l) s h @ fold_out g ob (map (shown it) (visits ?S)) (g (shown it l) s) h)
          = fold_out g ob (map (shown it) (visits S)) s"
        unfolding vis by (simp add: fun_eq_iff)
      have "says f u (bnd (body it' s) (it_fold n body it')) (fold g (map (shown it) (visits ?S)) (g (shown it l) s))
          (\<lambda>h. ob (shown it l) s h @ fold_out g ob (map (shown it) (visits ?S)) (g (shown it l) s) h)"
        using body [of it' s] Suc.IH [OF nx(2,6) len, of "g (it_current it') s"] unfolding nx(5) sh by (rule says_bnd)
      from saysD [OF this, of "w\<lparr>errno := e\<rparr>"] w obtain e' p' where
        "bnd (body it' s) (it_fold n body it') (w\<lparr>errno := e\<rparr>) = (Ret (fold g (map (shown it) (visits S)) s),
          emit_all (fold_out g ob (map (shown it) (visits S)) s) (w\<lparr>errno := e', progress := p'\<rparr>))"
        unfolding out unfolding vis by auto
      with nx(1) show ?thesis by (auto simp: bnd_app [of "it_next it"])
    qed
  qed
qed

text \<open>The iterator that the compression, the totals and the search use, on the directory at \<open>cs\<close>.\<close>

lemma walk_each:
  assumes at: "at_path f cs (Dir a es)" "wf_node (Dir a es)" "no_links (Dir a es)"
    and body: "\<And>it s. says f u (body it s) (g (it_current it) s) (ob (it_current it) s)"
    and m: "rl = (case m of FULL \<Rightarrow> 0 | RELATIVE_WITHOUT_BASE \<Rightarrow> length (abs_path cs) + 1
         | RELATIVE_INCL_BASE \<Rightarrow> length (abs_path (butlast cs)) + 1)"
    and ps: "ps = map (\<lambda>l. drop rl (abs_path (cs @ l))) (visit [] (Dir a es))"
  shows "says f u (bnd (createIterator (abs_path cs) m nms RECURSIVE_FOLLOW_SYMLINKS False (\<lambda>_. True)) (\<lambda>it. it_each body it s))
    (fold g ps s) (fold_out g ob ps s)"
  unfolding says_def
proof (intro allI impI)
  fix w :: world
  assume w: "wfs w = f" "users w = u" "\<forall>h. wr h w"
  define it0 where "it0 = \<lparr>it_dir = abs_path cs, it_mode = m, it_names = nms, it_listing = RECURSIVE_FOLLOW_SYMLINKS, it_sort = False,
    it_filter = (\<lambda>_. True), it_rootLen = rl, it_stack = [], it_current = [], it_currentName = [],
                it_currentEfd = CHR 0x00, it_error = 0\<rparr>"
  let ?it = "listOnStack it0 ([''.'', ''..''] @ map fst es) (abs_path cs)"
  let ?S = "map (\<lambda>e. (cs @ [fst e], snd e)) (rev es)"
  have "cs \<noteq> []" using at(1) by (simp add: at_path_def)
  then obtain ds c where cs: "cs = ds @ [c]" by (cases cs rule: rev_cases) auto
  have "good_name c" using at(1) cs by (simp add: at_path_def)
  then have "find_last CHR ''/'' (abs_path cs) = Some (length (abs_path ds))"
    unfolding cs abs_path_snoc good_name_def by (simp add: find_last_append)
  then have rl: "rl = (case m of FULL \<Rightarrow> 0 | RELATIVE_WITHOUT_BASE \<Rightarrow> length (abs_path cs) + 1
      | RELATIVE_INCL_BASE \<Rightarrow> (case find_last CHR ''/'' (abs_path cs) of Some i \<Rightarrow> i | None \<Rightarrow> length (abs_path cs)) + 1)"
    using m cs by (cases m) simp_all
  have create: "createIterator (abs_path cs) m nms RECURSIVE_FOLLOW_SYMLINKS False (\<lambda>_. True) w = (Ret ?it, w\<lparr>errno := 0\<rparr>)"
    using at_path_hd [OF at(1)] at_path_listdir [OF at(1)] w(1)
    by (simp add: createIterator_def rl [symmetric] it0_def thn_app set_errno_app bnd_app io_query_def ret_app Let_def)
  have d0: "descending it0" "on_stack f [] it0" by (simp_all add: descending_def on_stack_def it0_def)
  have st: "on_stack f ?S ?it" using pushed [OF at d0] by simp
  have d: "descending ?it" "it_listing ?it = RECURSIVE_FOLLOW_SYMLINKS" "shown ?it = shown it0"
    by (simp_all add: listOnStack_def Let_def descending_def it0_def shown_def fun_eq_iff)
  have "map (shown it0) (visits ?S) = ps"
  proof -
    have "visits ?S = map (\<lambda>l. cs @ l) (visit [] (Dir a es))" using visit_Dir [of cs a es] visit_rel [of cs "Dir a es"] by (simp only:)
    then show ?thesis using m by (cases m) (simp_all add: ps shown_def it0_def comp_def)
  qed
  moreover have "stack_nodes ?S < it_fuel ?it f"
  proof -
    have "stack_nodes ?S < nodes (Dir a es)" by (rule stack_nodes_children)
    also have "\<dots> \<le> nodes (root f)" using at(1) by (intro nodes_lookup [of _ cs]) (simp add: at_path_def)
    also have "\<dots> \<le> nodes (root f) ^ 42" using nodes_pos [of "root f"] by (simp add: self_le_power)
    finally show ?thesis unfolding it_fuel_def d(2) by simp
  qed
  ultimately have "says f u (it_fold (it_fuel ?it f) body ?it s) (fold g ps s) (fold_out g ob ps s)"
    using walk_fold [where body = body and g = g and ob = ob, OF body d(1) st] d(3) by simp
  from saysD [OF this, of "w\<lparr>errno := 0\<rparr>"] w create
  show "\<exists>e p. bnd (createIterator (abs_path cs) m nms RECURSIVE_FOLLOW_SYMLINKS False (\<lambda>_. True)) (\<lambda>it. it_each body it s) w
      = (Ret (fold g ps s), emit_all (fold_out g ob ps s) (w\<lparr>errno := e, progress := p\<rparr>))"
    by (auto simp: bnd_app it_each_def get_app)
qed

end
