(* ===== verification/RH_Compress.thy ===== *)
theory RH_Compress
  imports RH_Extract
begin

section \<open>Creation of archives\<close>

text \<open>
  \<open>CArchiveUpdateCallback\<close> and \<open>ArchiveUpdateCallbackFromFd\<close> (archiveUtils.h), \<open>common_compress_logic\<close>,
  \<open>compressToArchiveFromFds\<close> and \<open>compressToArchive\<close> (archiveOps.h). The 7-Zip side is the record \<open>encoder\<close>, a
  parameter: its file wrappers, its conversion of names and of times, and a tree of interaction for
  \<open>UpdateItems\<close> that may call back in any way.
\<close>

subsection \<open>The library\<close>

record dir_item =
  di_Size :: u64
  di_CTime :: u64
  di_ATime :: u64
  di_MTime :: u64
  di_Name :: wstr
  di_FullPath :: wstr
  di_Attrib :: u32

text \<open>
  Calls of the library to an update callback, and to the streams that it got: \<open>UpRead\<close> from the last stream given by
  \<open>GetStream\<close>, \<open>UpWrite\<close>, \<open>UpSeek\<close> on the archive file.
\<close>

datatype up_cb = UpSetTotal u64 | UpSetCompleted u64 | UpGetUpdateItemInfo u32 | UpGetProperty u32 propid
  | UpGetStream u32 | UpSetOperationResult int | UpGetVolumeSize u32 | UpGetVolumeStream u32
  | UpCryptoGetTextPassword2 | UpRead u32 | UpWrite "byte list" | UpSeek u64

record up_ans =
  b_status :: hresult
  b_value :: variant
  b_info :: "int \<times> int \<times> u32"
  b_stream :: bool
  b_data :: "byte list"
  b_defined :: bool
  b_password :: wstr

datatype up_run = UpDone hresult | UpCall up_cb "up_ans \<Rightarrow> up_run"

record encoder =
  en_cmdstr :: "string \<Rightarrow> wstr"
  en_find :: "wstr \<Rightarrow> fs \<Rightarrow> dir_item option"
  en_create :: "wstr \<Rightarrow> fd option io"
  en_object :: "ArchiveType \<Rightarrow> hresult"
  en_setprops :: "ArchiveType \<Rightarrow> ((string \<times> variant) list \<Rightarrow> hresult) option"
  en_update :: "ArchiveType \<Rightarrow> (string \<times> variant) list \<Rightarrow> u32 \<Rightarrow> up_run"
  en_openIn :: "wstr \<Rightarrow> fd option io"
  en_recvfd :: "handle \<Rightarrow> fd option io"
  en_readIn :: "fd \<Rightarrow> u32 \<Rightarrow> (hresult \<times> byte list \<times> fd) io"
  en_write :: "fd \<Rightarrow> byte list \<Rightarrow> (hresult \<times> fd) io"
  en_seek :: "fd \<Rightarrow> u64 \<Rightarrow> (hresult \<times> fd) io"
  en_filetime :: "u64 \<Rightarrow> u64"

subsection \<open>The callbacks\<close>

text \<open>An item whose stats the client sent (\<open>PosixCompatDirItem\<close>).\<close>

record fd_item =
  pi_mode :: u32
  pi_size :: u64
  pi_archivetime :: u64
  pi_creationtime :: u64
  pi_modificationtime :: u64
  pi_filename :: string

text \<open>
  The object, with the members that a constructor leaves uninitialised in \<open>junk\<close>: \<open>DirItems\<close> for the base class, \<open>fstatsList\<close> for the derived one, whose methods override those of the
  base. An index out of range is undefined behaviour; it reads as \<open>junk\<close> here.
\<close>

datatype source = DirItems "dir_item list" | FStats "fd_item list"

record ucb =
  u_source :: source
  u_lastProgress :: u64
  u_totalSize :: u64
  u_DirPrefix :: wstr
  u_VolumesSizes :: "u64 list"
  u_VolName :: wstr
  u_VolExt :: wstr
  u_PasswordIsDefined :: bool
  u_Password :: wstr
  u_AskPassword :: bool
  u_NeedBeClosed :: bool
  u_FailedFiles :: "wstr list"
  u_FailedCodes :: "int list"
  u_in :: "fd option"
  u_out :: fd
  u_junkItem :: dir_item
  u_junkStat :: fd_item

definition new_ucb :: "ucb \<Rightarrow> source \<Rightarrow> ucb" where
  "new_ucb junk src = junk\<lparr>u_source := src, u_DirPrefix := [], u_VolumesSizes := [], u_VolName := [], u_VolExt := [],
     u_PasswordIsDefined := False, u_Password := [], u_AskPassword := False, u_FailedFiles := [], u_FailedCodes := [], u_in := None\<rparr>"

definition FILE_ATTRIBUTE_DIRECTORY :: u32 where "FILE_ATTRIBUTE_DIRECTORY = 0x10"

definition isDir :: "dir_item \<Rightarrow> bool" where
  "isDir di \<longleftrightarrow> di_Attrib di AND FILE_ATTRIBUTE_DIRECTORY \<noteq> 0"

definition at_index :: "'a \<Rightarrow> 'a list \<Rightarrow> u32 \<Rightarrow> 'a" where
  "at_index junk xs i = (if unat i < length xs then xs ! unat i else junk)"

definition ans :: "hresult \<Rightarrow> up_ans" where
  "ans r = \<lparr>b_status = r, b_value = VT_EMPTY, b_info = (0, 0, 0), b_stream = False, b_data = [], b_defined = False, b_password = []\<rparr>"

definition Finilize :: "ucb \<Rightarrow> ucb" where
  "Finilize x = (if u_NeedBeClosed x then x\<lparr>u_NeedBeClosed := False\<rparr> else x)"

definition InitUpdate :: "ucb \<Rightarrow> ucb" where
  "InitUpdate x = x\<lparr>u_NeedBeClosed := False, u_FailedFiles := [], u_FailedCodes := []\<rparr>"

definition UpdateSetTotal :: "handle \<Rightarrow> u64 \<Rightarrow> ucb \<Rightarrow> (up_ans \<times> ucb) io" where
  "UpdateSetTotal h sz x = (let x' = x\<lparr>u_totalSize := sz\<rparr> in
     thn (writeAllOrExitProcess h (le_bytes 8 sz)) (ret (ans S_OK, x')))"

definition UpdateSetCompleted :: "handle \<Rightarrow> u64 \<Rightarrow> ucb \<Rightarrow> (up_ans \<times> ucb) io" where
  "UpdateSetCompleted h completeValue x =
     (if completeValue = u_totalSize x \<or> 1000000 \<le> completeValue - u_lastProgress x then
        thn (writeAllOrExitProcess h (le_bytes 8 completeValue)) (ret (ans S_OK, x\<lparr>u_lastProgress := completeValue\<rparr>))
      else ret (ans S_OK, x))"

definition GetUpdateItemInfo :: "up_ans" where
  "GetUpdateItemInfo = (ans S_OK)\<lparr>b_info := (1, 1, - 1)\<rparr>"

definition item_property :: "dir_item \<Rightarrow> propid \<Rightarrow> variant" where
  "item_property dirItem propID = (case propID of
       kpidIsAnti \<Rightarrow> VT_BOOL False | kpidPath \<Rightarrow> VT_BSTR (di_Name dirItem) | kpidIsDir \<Rightarrow> VT_BOOL (isDir dirItem)
     | kpidSize \<Rightarrow> VT_UI8 (di_Size dirItem) | kpidAttrib \<Rightarrow> VT_UI4 (di_Attrib dirItem)
     | kpidCTime \<Rightarrow> VT_FILETIME (di_CTime dirItem) | kpidATime \<Rightarrow> VT_FILETIME (di_ATime dirItem)
     | kpidMTime \<Rightarrow> VT_FILETIME (di_MTime dirItem))"

definition stat_property :: "sevenzip \<Rightarrow> encoder \<Rightarrow> fd_item \<Rightarrow> propid \<Rightarrow> variant" where
  "stat_property Z E item propID = (case propID of
       kpidIsAnti \<Rightarrow> VT_BOOL False | kpidPath \<Rightarrow> VT_BSTR (wcs (to_wide Z (pi_filename item)))
     | kpidIsDir \<Rightarrow> VT_BOOL (S_ISDIR (pi_mode item)) | kpidSize \<Rightarrow> VT_UI8 (pi_size item)
     | kpidAttrib \<Rightarrow> VT_UI4 (pi_mode item) | kpidCTime \<Rightarrow> VT_FILETIME (en_filetime E (pi_creationtime item))
     | kpidATime \<Rightarrow> VT_FILETIME (en_filetime E (pi_archivetime item))
     | kpidMTime \<Rightarrow> VT_FILETIME (en_filetime E (pi_modificationtime item)))"

definition UpdateGetProperty :: "sevenzip \<Rightarrow> encoder \<Rightarrow> u32 \<Rightarrow> propid \<Rightarrow> ucb \<Rightarrow> up_ans" where
  "UpdateGetProperty Z E i propID x = (ans S_OK)\<lparr>b_value := (case u_source x of
       DirItems ds \<Rightarrow> item_property (at_index (u_junkItem x) ds i) propID
     | FStats fs \<Rightarrow> stat_property Z E (at_index (u_junkStat x) fs i) propID)\<rparr>"

definition given_stream :: up_ans where
  "given_stream = (ans S_OK)\<lparr>b_stream := True\<rparr>"

definition item_stream :: "encoder \<Rightarrow> dir_item \<Rightarrow> ucb \<Rightarrow> (up_ans \<times> ucb) io" where
  "item_stream E dirItem x =
     (if isDir dirItem then ret (ans S_OK, x)
      else let path = u_DirPrefix x @ di_FullPath dirItem in
        bnd (en_openIn E path) (\<lambda>f. case f of
          None \<Rightarrow> bnd (get errno) (\<lambda>sysError.
            ret (ans S_FALSE, x\<lparr>u_FailedCodes := u_FailedCodes x @ [sysError], u_FailedFiles := u_FailedFiles x @ [path]\<rparr>))
        | Some d \<Rightarrow> ret (given_stream, x\<lparr>u_in := Some d\<rparr>)))"

definition stat_stream :: "encoder \<Rightarrow> handle \<Rightarrow> u32 \<Rightarrow> fd_item \<Rightarrow> ucb \<Rightarrow> (up_ans \<times> ucb) io" where
  "stat_stream E h i item x =
     thn (writeAllOrExit h (le_bytes 8 maxuint))
    (if S_ISDIR (pi_mode item) then ret (ans S_OK, x)
     else thn (writeAllOrExit h (le_bytes 4 i))
         (bnd (en_recvfd E h) (\<lambda>f. ret (given_stream, x\<lparr>u_in := f\<rparr>))))"

definition UpdateGetStream :: "encoder \<Rightarrow> handle \<Rightarrow> u32 \<Rightarrow> ucb \<Rightarrow> (up_ans \<times> ucb) io" where
  "UpdateGetStream E h i x0 = (let x = Finilize x0 in case u_source x of
       DirItems ds \<Rightarrow> item_stream E (at_index (u_junkItem x) ds i) x
     | FStats fs \<Rightarrow> stat_stream E h i (at_index (u_junkStat x) fs i) x)"

definition UpdateSetOperationResult :: "ucb \<Rightarrow> up_ans \<times> ucb" where
  "UpdateSetOperationResult x = (ans S_OK, x\<lparr>u_NeedBeClosed := True\<rparr>)"

text \<open>The size comes back in \<open>b_value\<close>.\<close>

definition GetVolumeSize :: "u32 \<Rightarrow> ucb \<Rightarrow> up_ans" where
  "GetVolumeSize i x = (case u_source x of
       FStats fs \<Rightarrow> ans S_FALSE
     | DirItems ds \<Rightarrow>
         if u_VolumesSizes x = [] then ans S_FALSE
         else let n = of_nat (length (u_VolumesSizes x)) :: u32; j = (if n \<le> i then n - 1 else i) in
           (ans S_OK)\<lparr>b_value := VT_UI8 (u_VolumesSizes x ! unat j)\<rparr>)"

definition volume_name :: "u32 \<Rightarrow> ucb \<Rightarrow> wstr" where
  "volume_name i x = (let d = map (\<lambda>c. of_nat (of_char c)) (dec_string (unat (i + 1))) in
     u_VolName x @ [0x2E] @ replicate (2 - length d) 0x30 @ d @ u_VolExt x)"

definition GetVolumeStream :: "encoder \<Rightarrow> u32 \<Rightarrow> ucb \<Rightarrow> (up_ans \<times> ucb) io" where
  "GetVolumeStream E i x = (case u_source x of
       FStats fs \<Rightarrow> ret (ans S_FALSE, x)
     | DirItems ds \<Rightarrow> bnd (en_create E (volume_name i x)) (\<lambda>f. case f of
           None \<Rightarrow> bnd (get errno) (\<lambda>e. ret (ans (word_of_int e), x))
         | Some d \<Rightarrow> ret (given_stream, x)))"

definition CryptoGetTextPassword2 :: "ucb \<Rightarrow> up_ans" where
  "CryptoGetTextPassword2 x =
     (if \<not> u_PasswordIsDefined x \<and> u_AskPassword x then ans E_ABORT
      else (ans S_OK)\<lparr>b_defined := u_PasswordIsDefined x, b_password := u_Password x\<rparr>)"

definition read_in :: "encoder \<Rightarrow> u32 \<Rightarrow> ucb \<Rightarrow> (up_ans \<times> ucb) io" where
  "read_in E n x = (case u_in x of
       None \<Rightarrow> ret (ans E_FAIL, x)
     | Some d \<Rightarrow> bnd (en_readIn E d n) (\<lambda>(r, bs, d'). ret ((ans r)\<lparr>b_data := bs\<rparr>, x\<lparr>u_in := Some d'\<rparr>)))"

definition up_callback :: "sevenzip \<Rightarrow> encoder \<Rightarrow> handle \<Rightarrow> up_cb \<Rightarrow> ucb \<Rightarrow> (up_ans \<times> ucb) io" where
  "up_callback Z E h cb x = (case cb of
       UpSetTotal sz \<Rightarrow> UpdateSetTotal h sz x
     | UpSetCompleted v \<Rightarrow> UpdateSetCompleted h v x
     | UpGetUpdateItemInfo i \<Rightarrow> ret (GetUpdateItemInfo, x)
     | UpGetProperty i p \<Rightarrow> ret (UpdateGetProperty Z E i p x, x)
     | UpGetStream i \<Rightarrow> UpdateGetStream E h i x
     | UpSetOperationResult v \<Rightarrow> ret (UpdateSetOperationResult x)
     | UpGetVolumeSize i \<Rightarrow> ret (GetVolumeSize i x, x)
     | UpGetVolumeStream i \<Rightarrow> GetVolumeStream E i x
     | UpCryptoGetTextPassword2 \<Rightarrow> ret (CryptoGetTextPassword2 x, x)
     | UpRead n \<Rightarrow> read_in E n x
     | UpWrite bs \<Rightarrow> bnd (en_write E (u_out x) bs) (\<lambda>(r, d). ret (ans r, x\<lparr>u_out := d\<rparr>))
     | UpSeek p \<Rightarrow> bnd (en_seek E (u_out x) p) (\<lambda>(r, d). ret (ans r, x\<lparr>u_out := d\<rparr>)))"

primrec run_update :: "sevenzip \<Rightarrow> encoder \<Rightarrow> handle \<Rightarrow> up_run \<Rightarrow> ucb \<Rightarrow> (hresult \<times> ucb) io" where
  "run_update Z E h (UpDone r) = (\<lambda>x. ret (r, x))"
| "run_update Z E h (UpCall cb k) = (\<lambda>x. bnd (up_callback Z E h cb x) (\<lambda>(a, x'). run_update Z E h (k a) x'))"

subsection \<open>From the destination to the archive\<close>

text \<open>\<open>compress_rq_options_t compress_options{}\<close>\<close>

definition no_options :: compress_rq_options_t where
  "no_options = \<lparr>compressionLevel = 0, encryptHeader = 0, solid = 0\<rparr>"

text \<open>
  The choice of the encoder. The default case of the \<open>switch\<close> jumps to a label where only the unknown type is refused, so
  that the remaining types (\<open>RAR5\<close>, \<open>CAB\<close>) run on into the code for the allowed ones.
\<close>

definition out_type :: "string \<Rightarrow> nat \<Rightarrow> int + ArchiveType" where
  "out_type destArchive filesNum = (case getFileExtension destArchive False of
       None \<Rightarrow> Inl 23460
     | Some outExt \<Rightarrow>
         let archiveType = archiveTypeFromExtension outExt in
         if is_stream archiveType then (if filesNum \<noteq> 1 then Inl 23457 else Inr archiveType)
         else if archiveType = SevenZ \<or> archiveType = ZIP \<or> archiveType = TAR then Inr archiveType
         else if archiveType = UNKNOWN then Inl 23460
         else Inr archiveType)"

definition archive_options :: "ArchiveType \<Rightarrow> compress_rq_options_t \<Rightarrow> (string \<times> variant) list" where
  "archive_options archiveType opts =
     (let x = (''x'', VT_UI4 (ucast (compressionLevel opts))) in
      if archiveType = SevenZ then [x, (''s'', VT_BOOL (0 < solid opts)), (''he'', VT_BOOL (0 < encryptHeader opts))]
      else if archiveType = ZIP \<or> is_stream archiveType then [x] else [])"

definition set_options :: "ArchiveType \<Rightarrow> compress_rq_options_t \<Rightarrow> ((string \<times> variant) list \<Rightarrow> hresult) \<Rightarrow> hresult" where
  "set_options archiveType opts setProperties =
     (if archiveType = SevenZ \<or> archiveType = ZIP \<or> is_stream archiveType
      then setProperties (archive_options archiveType opts) else 0)"

definition start_ucb :: "sevenzip \<Rightarrow> string \<Rightarrow> fd \<Rightarrow> ucb \<Rightarrow> ucb" where
  "start_ucb Z password d x =
     InitUpdate (x\<lparr>u_PasswordIsDefined := password \<noteq> [], u_Password := wcs (to_wide Z password), u_out := d\<rparr>)"

definition encode :: "sevenzip \<Rightarrow> encoder \<Rightarrow> handle \<Rightarrow> string \<Rightarrow> compress_rq_options_t \<Rightarrow> ucb \<Rightarrow> nat \<Rightarrow> ArchiveType \<Rightarrow> fd \<Rightarrow> (hresult \<times> ucb) io" where
  "encode Z E h password opts x filesNum archiveType d =
     (if en_object E archiveType \<noteq> S_OK then refuse h 12344 (E_ABORT, x)
      else case en_setprops E archiveType of
        None \<Rightarrow> refuse h 12377 (E_ABORT, x)
      | Some setProperties \<Rightarrow>
          if set_options archiveType opts setProperties \<noteq> 0 then refuse h 12378 (E_ABORT, x)
          else thn (sendOkResponse h)
            (bnd (run_update Z E h (en_update E archiveType (archive_options archiveType opts) (of_nat filesNum))
                    (start_ucb Z password d x)) (\<lambda>(result, x').
             ret (result, Finilize x'))))"

definition common_compress_logic :: "sevenzip \<Rightarrow> encoder \<Rightarrow> handle \<Rightarrow> string \<Rightarrow> string \<Rightarrow> compress_rq_options_t \<Rightarrow> ucb \<Rightarrow> nat \<Rightarrow> (hresult \<times> ucb) io" where
  "common_compress_logic Z E h destArchive password opts x filesNum =
     bnd (mkpathCopyPermissionsFromNearestAncestor (getParentDir destArchive) True) (\<lambda>r.
     if r \<noteq> 0 then thn (sendErrorResponse h) (ret (E_ABORT, x))
     else bnd (en_create E (wcs (to_wide Z destArchive))) (\<lambda>f. case f of
       None \<Rightarrow> thn (sendErrorResponse h) (ret (E_ABORT, x))
     | Some d \<Rightarrow>
         (case out_type destArchive filesNum of
            Inl e \<Rightarrow> refuse h e (E_ABORT, x)
          | Inr archiveType \<Rightarrow> encode Z E h password opts x filesNum archiveType d)))"

subsection \<open>Requests\<close>

record compress_rq =
  c_srcFolder :: string
  c_destArchive :: string
  c_options :: compress_rq_options_t
  c_password :: string
  c_entries :: "string list"

primrec read_names :: "handle \<Rightarrow> nat \<Rightarrow> string list \<Rightarrow> string list io" where
  "read_names h 0 acc = ret acc"
| "read_names h (Suc n) acc = bnd (readStringWithLen h) (\<lambda>s. read_names h n (acc @ [s]))"

definition read_compress_rq :: "handle \<Rightarrow> compress_rq io" where
  "read_compress_rq h =
     bnd (readPairOfStringsWithPairOfLens h) (\<lambda>srcDestPaths.
     bnd (readcompress_rq_options h no_options) (\<lambda>opts.
     bnd (readStringWithByteLen h) (\<lambda>password.
     bnd (readAllOrExit h 4) (\<lambda>n.
     bnd (read_names h (unat (le_word n :: u32)) []) (\<lambda>es.
     ret \<lparr>c_srcFolder = fst srcDestPaths, c_destArchive = snd srcDestPaths, c_options = opts, c_password = password, c_entries = es\<rparr>)))))"

definition receiveStats_round :: "handle \<Rightarrow> fd_item list \<Rightarrow> (fd_item list + fd_item list) io" where
  "receiveStats_round h l =
     bnd (readStringWithLen h) (\<lambda>filename.
     if filename = [] then ret (Inr l)
     else bnd (readAllOrExit h 4) (\<lambda>m. bnd (readAllOrExit h 8) (\<lambda>s. bnd (readAllOrExit h 8) (\<lambda>a.
          bnd (readAllOrExit h 8) (\<lambda>c. bnd (readAllOrExit h 8) (\<lambda>t.
          ret (Inl (l @ [\<lparr>pi_mode = le_word m, pi_size = le_word s, pi_archivetime = le_word a, pi_creationtime = le_word c,
            pi_modificationtime = le_word t, pi_filename = filename\<rparr>]))))))))"

definition receiveStats :: "handle \<Rightarrow> fd_item list io" where
  "receiveStats h = io_loop h (receiveStats_round h) []"

subsection \<open>The list of items\<close>

text \<open>An item by its name relative to the working directory; \<open>None\<close> when it cannot be found (the error was sent).\<close>

definition add_item :: "sevenzip \<Rightarrow> encoder \<Rightarrow> handle \<Rightarrow> int \<Rightarrow> string \<Rightarrow> dir_item list option \<Rightarrow> dir_item list option io" where
  "add_item Z E h err curEntString acc = (case acc of
       None \<Rightarrow> ret None
     | Some dirItems \<Rightarrow>
         let u = wcs (to_wide Z curEntString) in
         bnd (get (\<lambda>w. en_find E (en_cmdstr E curEntString) (wfs w))) (\<lambda>fi. case fi of
           None \<Rightarrow> refuse h err None
         | Some di \<Rightarrow> ret (Some (dirItems @ [di\<lparr>di_Name := u, di_FullPath := u\<rparr>]))))"

text \<open>
  \<open>while (dirIt.next())\<close> over a tree, until an item is missing: after that the rounds do nothing here
  where the code has returned.
\<close>

definition add_tree :: "sevenzip \<Rightarrow> encoder \<Rightarrow> handle \<Rightarrow> int \<Rightarrow> string \<Rightarrow> IterationMode \<Rightarrow> dir_item list option \<Rightarrow> dir_item list option io" where
  "add_tree Z E h err dir mode acc =
     bnd (createIterator dir mode False RECURSIVE_FOLLOW_SYMLINKS False (\<lambda>_. True)) (\<lambda>dirIt.
     it_each (\<lambda>it acc. add_item Z E h err (it_current it) acc) dirIt acc)"

definition add_entry :: "sevenzip \<Rightarrow> encoder \<Rightarrow> handle \<Rightarrow> string \<Rightarrow> dir_item list option \<Rightarrow> string \<Rightarrow> dir_item list option io" where
  "add_entry Z E h srcFolder acc e = (case acc of
       None \<Rightarrow> ret None
     | Some dirItems \<Rightarrow>
         bnd (io_query (sys_stat e)) (\<lambda>st.
         bnd (case st of
                Some n \<Rightarrow> if S_ISDIR (st_mode n) then add_tree Z E h 12342 (srcFolder @ ''/'' @ e) RELATIVE_INCL_BASE acc else ret acc
              | None \<Rightarrow> ret acc) (\<lambda>acc'.
         add_item Z E h 12343 e acc')))"

definition collect_items :: "sevenzip \<Rightarrow> encoder \<Rightarrow> handle \<Rightarrow> compress_rq \<Rightarrow> dir_item list option io" where
  "collect_items Z E h rq =
     (if c_entries rq = [] then add_tree Z E h 12341 (c_srcFolder rq) RELATIVE_WITHOUT_BASE (Some [])
      else io_fold (add_entry Z E h (c_srcFolder rq)) (Some []) (c_entries rq))"

subsection \<open>The handlers\<close>

definition sys_chdir :: "string \<Rightarrow> fs \<Rightarrow> int \<times> fs" where
  "sys_chdir p f = (case resolve f True p of
       RErr e \<Rightarrow> (e, f)
     | Missing l \<Rightarrow> (ENOENT, f)
     | Found l \<Rightarrow> (case lookup (root f) l of
         Some (Dir a es) \<Rightarrow> (0, f\<lparr>cwd := l\<rparr>) | Some _ \<Rightarrow> (ENOTDIR, f) | None \<Rightarrow> (ENOENT, f)))"

definition ERANGE :: int where "ERANGE = 34"

text \<open>\<open>getcwd\<close> into a buffer of 1024 bytes.\<close>

definition sys_getcwd :: "fs \<Rightarrow> int + string" where
  "sys_getcwd f = (let p = (if cwd f = [] then ''/'' else abs_path (cwd f)) in
     if 1024 \<le> length p then Inl ERANGE else Inr p)"

definition update_error :: "int io" where
  "update_error = bnd (get errno) (\<lambda>e. if e = 0 then thn (set_errno 12345) (ret 12345) else ret e)"

definition finish_items :: "handle \<Rightarrow> string \<Rightarrow> hresult \<times> ucb \<Rightarrow> unit io" where
  "finish_items h currentDirectory v = (case v of (result, x) \<Rightarrow>
     if result = E_ABORT then ret ()
     else if result \<noteq> S_OK then thn update_error (sendEndProgressAndBaseResponse (- 1) h)
     else thn (sendEndProgressAndBaseResponse 0 h) (bnd (io_update (sys_chdir currentDirectory)) (\<lambda>_. ret ())))"

definition compress_items :: "sevenzip \<Rightarrow> encoder \<Rightarrow> ucb \<Rightarrow> handle \<Rightarrow> compress_rq \<Rightarrow> string \<Rightarrow> unit io" where
  "compress_items Z E junk h rq currentDirectory =
     bnd (collect_items Z E h rq) (\<lambda>its. case its of
       None \<Rightarrow> ret ()
     | Some dirItems \<Rightarrow>
         bnd (common_compress_logic Z E h (c_destArchive rq) (c_password rq) (c_options rq)
                (new_ucb junk (DirItems dirItems)) (length dirItems)) (finish_items h currentDirectory))"

definition compressToArchiveFromFds :: "sevenzip \<Rightarrow> encoder \<Rightarrow> ucb \<Rightarrow> handle \<Rightarrow> unit io" where
  "compressToArchiveFromFds Z E junk h =
     (if \<not> sz_proc Z then raise (ProcExit (- 1))
      else bnd (receiveStats h) (\<lambda>fstatsList.
      bnd (readStringWithLen h) (\<lambda>destArchive.
      bnd (readcompress_rq_options h no_options) (\<lambda>opts.
      bnd (readStringWithByteLen h) (\<lambda>password.
      bnd (common_compress_logic Z E h destArchive password opts (new_ucb junk (FStats fstatsList)) (length fstatsList)) (\<lambda>(result, x).
      thn (writeAllOrExit h (le_bytes 8 maxuint_2))
     (if result = E_ABORT then ret ()
      else if result \<noteq> S_OK then thn update_error (sendErrorResponse h)
      else sendOkResponse h)))))))"

definition compressToArchive :: "sevenzip \<Rightarrow> encoder \<Rightarrow> ucb \<Rightarrow> handle \<Rightarrow> u8 \<Rightarrow> unit io" where
  "compressToArchive Z E junk h fl =
     (if \<not> sz_loaded Z then refuse h 771 ()
      else if fl \<noteq> 0 then compressToArchiveFromFds Z E junk h
      else if \<not> sz_proc Z then raise (ProcExit (- 1))
      else bnd (read_compress_rq h) (\<lambda>rq.
      bnd (io_query sys_getcwd) (\<lambda>currentDirectory. case currentDirectory of
        None \<Rightarrow> sendErrorResponse h
      | Some currentDirectory \<Rightarrow>
          bnd (io_update (sys_chdir (c_srcFolder rq))) (\<lambda>ok.
          if \<not> ok then refuse h 12340 ()
          else compress_items Z E junk h rq currentDirectory))))"

end
