(* ===== verification/RH_CompressRun.thy ===== *)
theory RH_CompressRun
  imports RH_Compress RH_Walk
begin

section \<open>What the creation of an archive takes, answers and leaves\<close>

text \<open>
  Properties of \<open>RH_Compress\<close>: the items that a request names, on the tree of the files; the protocol of both
  variants; what stays behind when the type of the archive is refused.
\<close>

subsection \<open>What is compressed\<close>

text \<open>The paths to be looked up, in order, each with the error to report when it is missing; the outcome of looking them up.\<close>

definition rel_path :: "string list \<Rightarrow> string" where
  "rel_path l = drop 1 (abs_path l)"

definition found :: "sevenzip \<Rightarrow> encoder \<Rightarrow> fs \<Rightarrow> string \<Rightarrow> dir_item option" where
  "found Z E f p = map_option (\<lambda>di. di\<lparr>di_Name := wcs (to_wide Z p), di_FullPath := wcs (to_wide Z p)\<rparr>) (en_find E (en_cmdstr E p) f)"

primrec collect :: "sevenzip \<Rightarrow> encoder \<Rightarrow> fs \<Rightarrow> (string \<times> int) list \<Rightarrow> dir_item list \<Rightarrow> int + dir_item list" where
  "collect Z E f [] acc = Inr acc"
| "collect Z E f (q # qs) acc = (case found Z E f (fst q) of None \<Rightarrow> Inl (snd q) | Some d \<Rightarrow> collect Z E f qs (acc @ [d]))"

definition entry_queue :: "node \<Rightarrow> string \<Rightarrow> (string \<times> int) list" where
  "entry_queue n e = (case map_of (dir_entries n) e of
       Some (Dir a es) \<Rightarrow> map (\<lambda>l. (rel_path (e # l), 12342)) (visit [] (Dir a es)) | _ \<Rightarrow> []) @ [(e, 12343)]"

definition item_queue :: "node \<Rightarrow> string list \<Rightarrow> (string \<times> int) list" where
  "item_queue n entries = (if entries = [] then map (\<lambda>l. (rel_path l, 12341)) (visit [] n)
     else concat (map (entry_queue n) entries))"

definition got :: "int + 'a \<Rightarrow> 'a option" where
  "got r = (case r of Inl e \<Rightarrow> None | Inr a \<Rightarrow> Some a)"

definition told :: "handle \<Rightarrow> int + 'a \<Rightarrow> handle \<Rightarrow> byte list" where
  "told h r = (case r of Inl e \<Rightarrow> only h (error_wire e) | Inr a \<Rightarrow> (\<lambda>_. []))"

lemma got_told_simps [simp]: "got (Inl e) = None" "got (Inr a) = Some a" "told h (Inl e) = only h (error_wire e)" "told h (Inr a) = (\<lambda>_. [])"
  by (simp_all add: got_def told_def)

lemma collect_append: "collect Z E f (qs @ rs) acc = (case collect Z E f qs acc of Inl e \<Rightarrow> Inl e | Inr ds \<Rightarrow> collect Z E f rs ds)"
  by (induction qs arbitrary: acc) (simp_all split: option.splits)

lemma says_error: "says f u (thn (set_errno e) (thn (sendErrorResponse h) (ret a))) a (only h (error_wire e))"
  unfolding says_def
proof (intro allI impI)
  fix w :: world
  assume "wfs w = f" "users w = u" "\<forall>h. wr h w"
  then show "\<exists>e' p. thn (set_errno e) (thn (sendErrorResponse h) (ret a)) w
      = (Ret a, emit_all (only h (error_wire e)) (w\<lparr>errno := e', progress := p\<rparr>))"
    by (intro exI [of _ e] exI [of _ "progress w"]) (simp add: thn_app set_errno_app send_error ret_app emit_only)
qed

lemma says_get: "says f u (g (k f)) v out \<Longrightarrow> says f u (bnd (get (\<lambda>w. k (wfs w))) g) v out"
  by (auto simp: says_def bnd_app get_app)

lemma says_add_item: "says f u (add_item Z E h err p acc)
    (case acc of None \<Rightarrow> None | Some ds \<Rightarrow> got (collect Z E f [(p, err)] ds))
    (case acc of None \<Rightarrow> (\<lambda>_. []) | Some ds \<Rightarrow> told h (collect Z E f [(p, err)] ds))"
proof (cases acc)
  case None
  then show ?thesis by (simp add: add_item_def says_ret)
next
  case (Some ds)
  then show ?thesis
    unfolding add_item_def Let_def Some option.case
    by (intro says_get [where k = "en_find E (en_cmdstr E p)"]) (auto simp: found_def refuse_def says_ret says_error split: option.splits)
qed

lemma fold_items_None:
  "fold (\<lambda>p acc. case acc of None \<Rightarrow> None | Some ds \<Rightarrow> F p ds) ps None = None"
  "fold_out (\<lambda>p acc. case acc of None \<Rightarrow> None | Some ds \<Rightarrow> F p ds) (\<lambda>p acc. case acc of None \<Rightarrow> (\<lambda>_. []) | Some ds \<Rightarrow> Q p ds) ps None h = []"
  by (induction ps) simp_all

lemma fold_items:
  fixes F :: "'a \<Rightarrow> 'b \<Rightarrow> int + 'b"
  assumes "\<And>q qs s. C (q # qs) s = (case F q s of Inl e \<Rightarrow> Inl e | Inr s' \<Rightarrow> C qs s')" "\<And>s. C [] s = Inr s"
  shows "fold (\<lambda>p acc. case acc of None \<Rightarrow> None | Some ds \<Rightarrow> got (F p ds)) ps (Some ds) = got (C ps ds)"
    and "fold_out (\<lambda>p acc. case acc of None \<Rightarrow> None | Some ds \<Rightarrow> got (F p ds))
      (\<lambda>p acc. case acc of None \<Rightarrow> (\<lambda>_. []) | Some ds \<Rightarrow> told h (F p ds)) ps (Some ds) h' = told h (C ps ds) h'"
  by (induction ps arbitrary: ds) (simp_all add: assms fold_items_None split: sum.splits)

lemma collect_step: "collect Z E f (map (\<lambda>p. (p, err)) (q # qs)) s
    = (case collect Z E f [(q, err)] s of Inl e \<Rightarrow> Inl e | Inr s' \<Rightarrow> collect Z E f (map (\<lambda>p. (p, err)) qs) s')"
  by (simp split: option.splits)

lemma says_add_tree:
  assumes "at_path f cs (Dir a es)" "wf_node (Dir a es)" "no_links (Dir a es)"
    and "rl = (case m of FULL \<Rightarrow> 0 | RELATIVE_WITHOUT_BASE \<Rightarrow> length (abs_path cs) + 1
         | RELATIVE_INCL_BASE \<Rightarrow> length (abs_path (butlast cs)) + 1)"
  shows "says f u (add_tree Z E h err (abs_path cs) m (Some ds))
    (got (collect Z E f (map (\<lambda>l. (drop rl (abs_path (cs @ l)), err)) (visit [] (Dir a es))) ds))
    (told h (collect Z E f (map (\<lambda>l. (drop rl (abs_path (cs @ l)), err)) (visit [] (Dir a es))) ds))"
proof -
  let ?ps = "map (\<lambda>l. drop rl (abs_path (cs @ l))) (visit [] (Dir a es))"
  have m: "map (\<lambda>l. (drop rl (abs_path (cs @ l)), err)) (visit [] (Dir a es)) = map (\<lambda>p. (p, err)) ?ps"
    by (simp add: comp_def del: visit.simps)
  note f = fold_items [of "\<lambda>ps. collect Z E f (map (\<lambda>p. (p, err)) ps)" "\<lambda>p. collect Z E f [(p, err)]", OF collect_step]
  have "says f u (add_tree Z E h err (abs_path cs) m (Some ds))
      (fold (\<lambda>p acc. case acc of None \<Rightarrow> None | Some ds \<Rightarrow> got (collect Z E f [(p, err)] ds)) ?ps (Some ds))
      (fold_out (\<lambda>p acc. case acc of None \<Rightarrow> None | Some ds \<Rightarrow> got (collect Z E f [(p, err)] ds))
         (\<lambda>p acc. case acc of None \<Rightarrow> (\<lambda>_. []) | Some ds \<Rightarrow> told h (collect Z E f [(p, err)] ds)) ?ps (Some ds))"
    unfolding add_tree_def by (rule walk_each [OF assms(1-3) says_add_item assms(4) refl])
  then show ?thesis unfolding m by (rule says_cong) (rule f, simp, rule f, simp)
qed

lemma rel_path_drop: "drop (length (abs_path cs) + 1) (abs_path (cs @ l)) = rel_path l"
  by (simp add: rel_path_def)

lemma split_rel: "\<lbrakk>\<forall>c \<in> set l. good_name c; l \<noteq> []\<rbrakk> \<Longrightarrow> split_path (rel_path l) = l \<and> rel_path l \<noteq> [] \<and> hd (rel_path l) \<noteq> CHR ''/''"
proof -
  assume l: "\<forall>c \<in> set l. good_name c" "l \<noteq> []"
  then obtain c r where c: "l = c # r" "good_name c" by (cases l) auto
  then have "rel_path l = c @ abs_path r" by (simp add: rel_path_def)
  moreover have "split_path (rel_path l) = l"
    using split_path_abs [OF l(1)] c by (simp add: split_path_def rel_path_def)
  ultimately show ?thesis using c(2) by (cases c) (auto simp: good_name_def)
qed

text \<open>A path relative to the working directory.\<close>

definition works_in :: "fs \<Rightarrow> string list \<Rightarrow> node \<Rightarrow> bool" where
  "works_in f cs n \<longleftrightarrow> at_path f cs n \<and> cwd f = cs \<and> is_dir n \<and> wf_node n \<and> no_links n"

lemma lookup_good: "\<lbrakk>wf_node n; lookup n l = Some u\<rbrakk> \<Longrightarrow> (\<forall>c \<in> set l. good_name c) \<and> wf_node u \<and> (no_links n \<longrightarrow> no_links u)"
proof (induction l arbitrary: n)
  case (Cons c l)
  then obtain v where v: "map_of (dir_entries n) c = Some v" "lookup v l = Some u" by (auto split: option.splits)
  then obtain a es where n: "n = Dir a es" by (cases n) auto
  have "(c, v) \<in> set es" using v(1) n map_of_SomeD by fastforce
  with Cons n v(2) show ?case by fastforce
qed simp

lemma lstat_rel:
  assumes "works_in f cs n" "lookup n l = Some u" "l \<noteq> []"
  shows "sys_lstat (rel_path l) f = Inr u"
proof -
  have at: "no_faults f" "lookup (root f) cs = Some n" "cwd f = cs" "wf_node n" using assms(1) by (simp_all add: works_in_def at_path_def)
  have good: "\<forall>c \<in> set l. good_name c" using lookup_good [OF at(4) assms(2)] by simp
  have lk: "lookup (root f) (cs @ l) = Some u" using at(2) assms(2) by (simp add: lookup_append)
  have "\<exists>a es. lookup (root f) (cs @ take k l) = Some (Dir a es)" if "k < length l" for k
  proof -
    have "(cs @ take k l) @ drop k l = cs @ l" by simp
    with lk have "lookup (root f) ((cs @ take k l) @ drop k l) = Some u" by simp
    then show ?thesis using that by (intro lookup_prefix_dir [where ys = "drop k l"]) auto
  qed
  then have "walk 40 (root f) False cs l = Found (cs @ l)"
    using good lk by (intro walk_plain_Found) auto
  then have "resolve f False (rel_path l) = Found (cs @ l)"
    using split_rel [OF good assms(3)] at(3) by (simp add: resolve_def)
  then show ?thesis using lk at(1) by (simp add: sys_lstat_def stat_gen_def no_faults_faulty)
qed

lemma rel_path_single: "good_name e \<Longrightarrow> rel_path [e] = e"
  by (simp add: rel_path_def)

lemma stat_entry:
  assumes "works_in f cs n" "good_name e"
  shows "sys_stat e f = (case map_of (dir_entries n) e of None \<Rightarrow> Inl ENOENT | Some u \<Rightarrow> Inr u)"
proof -
  have at: "no_faults f" "lookup (root f) cs = Some n" "cwd f = cs" "no_links n" "is_dir n" using assms(1) by (simp_all add: works_in_def at_path_def)
  have r: "resolve f True e = walk 40 (root f) True cs [e]"
    using split_rel [of "[e]"] assms(2) at(3) by (simp add: resolve_def rel_path_single)
  have lk: "lookup (root f) (cs @ [e]) = map_of (dir_entries n) e"
    using at(2) by (simp add: lookup_append split: option.splits)
  have e: "e \<noteq> ''.''" "e \<noteq> ''..''" using assms(2) by (simp_all add: good_name_def)
  show ?thesis
  proof (cases "map_of (dir_entries n) e")
    case None
    with lk e r at(1) show ?thesis by (simp add: sys_stat_def stat_gen_def no_faults_faulty)
  next
    case (Some u)
    obtain a es where n: "n = Dir a es" using at(5) by (cases n) auto
    have "no_links u" using at(4) Some n map_of_SomeD by fastforce
    with Some lk e r at(1) show ?thesis by (cases u) (simp_all add: sys_stat_def stat_gen_def no_faults_faulty)
  qed
qed

lemma says_add_entry:
  assumes "works_in f cs n" "good_name e"
  shows "says f u (add_entry Z E h (abs_path cs) acc e)
    (case acc of None \<Rightarrow> None | Some ds \<Rightarrow> got (collect Z E f (entry_queue n e) ds))
    (case acc of None \<Rightarrow> (\<lambda>_. []) | Some ds \<Rightarrow> told h (collect Z E f (entry_queue n e) ds))"
proof (cases acc)
  case None
  then show ?thesis by (simp add: add_entry_def says_ret)
next
  case (Some ds)
  let ?tree = "case map_of (dir_entries n) e of Some (Dir a es) \<Rightarrow> map (\<lambda>l. (rel_path (e # l), 12342 :: int)) (visit [] (Dir a es)) | _ \<Rightarrow> []"
  let ?st = "case sys_stat e f of Inl e \<Rightarrow> None | Inr n \<Rightarrow> Some n"
  have st: "?st = map_of (dir_entries n) e" using stat_entry [OF assms] by (simp split: option.splits)
  have tree: "says f u (case ?st of Some m \<Rightarrow> if S_ISDIR (st_mode m) then add_tree Z E h 12342 (abs_path cs @ ''/'' @ e) RELATIVE_INCL_BASE (Some ds) else ret (Some ds)
       | None \<Rightarrow> ret (Some ds)) (got (collect Z E f ?tree ds)) (told h (collect Z E f ?tree ds))"
  proof (cases "\<exists>a es. map_of (dir_entries n) e = Some (Dir a es)")
    case True
    then obtain a es where d: "map_of (dir_entries n) e = Some (Dir a es)" by blast
    then have lk: "lookup n [e] = Some (Dir a es)" by simp
    have n: "at_path f cs n" "wf_node n" "no_links n" "is_dir n" using assms(1) by (simp_all add: works_in_def)
    then obtain b fs where N: "n = Dir b fs" by (cases n) auto
    have "at_path f (cs @ [e]) (Dir a es)"
      using d N n by (intro at_path_child [of f cs b fs]) (auto dest: map_of_SomeD)
    moreover have "wf_node (Dir a es)" "no_links (Dir a es)" using lookup_good [OF n(2) lk] n(3) by auto
    moreover have "(length (abs_path (butlast (cs @ [e]))) + 1)
        = (case RELATIVE_INCL_BASE of FULL \<Rightarrow> 0 | RELATIVE_WITHOUT_BASE \<Rightarrow> length (abs_path (cs @ [e])) + 1
         | RELATIVE_INCL_BASE \<Rightarrow> length (abs_path (butlast (cs @ [e]))) + 1)" by simp
    ultimately have "says f u (add_tree Z E h 12342 (abs_path (cs @ [e])) RELATIVE_INCL_BASE (Some ds))
        (got (collect Z E f (map (\<lambda>l. (drop (length (abs_path (butlast (cs @ [e]))) + 1) (abs_path ((cs @ [e]) @ l)), 12342)) (visit [] (Dir a es))) ds))
        (told h (collect Z E f (map (\<lambda>l. (drop (length (abs_path (butlast (cs @ [e]))) + 1) (abs_path ((cs @ [e]) @ l)), 12342)) (visit [] (Dir a es))) ds))"
      by (rule says_add_tree)
    moreover have "drop (length (abs_path (butlast (cs @ [e]))) + 1) (abs_path ((cs @ [e]) @ l)) = rel_path (e # l)" for l
      using rel_path_drop [of cs "e # l"] by simp
    ultimately show ?thesis unfolding st by (simp add: d del: visit.simps)
  next
    case False
    have "?tree = []" using False by (auto split: option.splits node.splits)
    moreover have "map_of (dir_entries n) e = Some m \<Longrightarrow> \<not> S_ISDIR (st_mode m)" for m using False by (cases m) auto
    ultimately show ?thesis unfolding st by (cases "map_of (dir_entries n) e") (simp_all add: says_ret)
  qed
  have "says f u (bnd (case ?st of Some m \<Rightarrow> if S_ISDIR (st_mode m) then add_tree Z E h 12342 (abs_path cs @ ''/'' @ e) RELATIVE_INCL_BASE (Some ds) else ret (Some ds)
       | None \<Rightarrow> ret (Some ds)) (add_item Z E h 12343 e)) (got (collect Z E f (entry_queue n e) ds)) (told h (collect Z E f (entry_queue n e) ds))"
    by (rule says_cong [OF says_bnd [OF tree says_add_item]])
      (auto simp: entry_queue_def collect_append split: sum.splits)
  then show ?thesis
    unfolding add_entry_def Some option.case by (rule says_quiet_bnd [OF quiet_query])
qed

lemma says_collect:
  assumes "works_in f cs n" "\<forall>e \<in> set (c_entries rq). good_name e" "c_srcFolder rq = abs_path cs"
  shows "says f u (collect_items Z E h rq)
    (got (collect Z E f (item_queue n (c_entries rq)) [])) (told h (collect Z E f (item_queue n (c_entries rq)) []))"
proof (cases "c_entries rq = []")
  case True
  obtain a es where n: "n = Dir a es" using assms(1) by (cases n) (auto simp: works_in_def)
  have "says f u (add_tree Z E h 12341 (abs_path cs) RELATIVE_WITHOUT_BASE (Some []))
    (got (collect Z E f (map (\<lambda>l. (drop (length (abs_path cs) + 1) (abs_path (cs @ l)), 12341)) (visit [] (Dir a es))) []))
    (told h (collect Z E f (map (\<lambda>l. (drop (length (abs_path cs) + 1) (abs_path (cs @ l)), 12341)) (visit [] (Dir a es))) []))"
    by (rule says_add_tree) (use assms(1) n in \<open>auto simp: works_in_def\<close>)
  then show ?thesis
    unfolding rel_path_drop using True assms(3) n by (simp add: collect_items_def item_queue_def del: visit.simps)
next
  case False
  have C: "collect Z E f (concat (map (entry_queue n) (q # qs))) s
      = (case collect Z E f (entry_queue n q) s of Inl e \<Rightarrow> Inl e | Inr s' \<Rightarrow> collect Z E f (concat (map (entry_queue n) qs)) s')" for q qs s
    by (simp add: collect_append)
  note f = fold_items [of "\<lambda>es. collect Z E f (concat (map (entry_queue n) es))" "\<lambda>e. collect Z E f (entry_queue n e)", OF C]
  let ?g = "\<lambda>e acc. case acc of None \<Rightarrow> None | Some ds \<Rightarrow> got (collect Z E f (entry_queue n e) ds)"
    and ?o = "\<lambda>e acc. case acc of None \<Rightarrow> (\<lambda>_. []) | Some ds \<Rightarrow> told h (collect Z E f (entry_queue n e) ds)"
  have "says f u (io_fold (add_entry Z E h (abs_path cs)) acc es) (fold ?g es acc) (fold_out ?g ?o es acc)"
    if "\<forall>e \<in> set es. good_name e" for acc es
    using that
  proof (induction es arbitrary: acc)
    case Nil
    have "fold_out ?g ?o [] acc = (\<lambda>_. [])" by (simp add: fun_eq_iff)
    then show ?case by (simp add: says_ret)
  next
    case (Cons e es)
    have "says f u (bnd (add_entry Z E h (abs_path cs) acc e) (\<lambda>s. io_fold (add_entry Z E h (abs_path cs)) s es))
        (fold ?g es (?g e acc)) (\<lambda>h'. ?o e acc h' @ fold_out ?g ?o es (?g e acc) h')"
      using Cons.prems by (intro says_bnd [OF says_add_entry [OF assms(1)] Cons.IH]) simp_all
    then show ?case unfolding io_fold.simps by (rule says_cong) simp_all
  qed
  from this [OF assms(2), of "Some []"] have "says f u (io_fold (add_entry Z E h (abs_path cs)) (Some []) (c_entries rq))
      (got (collect Z E f (item_queue n (c_entries rq)) [])) (told h (collect Z E f (item_queue n (c_entries rq)) []))"
    by (rule says_cong) (use False in \<open>simp_all add: f item_queue_def\<close>)
  with False assms(3) show ?thesis by (simp add: collect_items_def)
qed

text \<open>The locations that a request names.\<close>

definition item_locs :: "node \<Rightarrow> string list \<Rightarrow> string list list" where
  "item_locs n entries = (if entries = [] then visit [] n
     else concat (map (\<lambda>e. map ((#) e) (visit [] (the (map_of (dir_entries n) e))) @ [[e]]) entries))"

text \<open>\<open>CFileInfo::Find\<close> finds what exists, by its name relative to the working directory.\<close>

definition finds :: "encoder \<Rightarrow> (node \<Rightarrow> dir_item) \<Rightarrow> fs \<Rightarrow> bool" where
  "finds E mk f \<longleftrightarrow> (\<forall>p n. sys_lstat p f = Inr n \<longrightarrow> en_find E (en_cmdstr E p) f = Some (mk n))"

definition named :: "sevenzip \<Rightarrow> string \<Rightarrow> dir_item \<Rightarrow> dir_item" where
  "named Z p di = di\<lparr>di_Name := wcs (to_wide Z p), di_FullPath := wcs (to_wide Z p)\<rparr>"

lemma collect_all:
  assumes "finds E mk f" "works_in f cs n" "\<forall>l \<in> set ls. l \<noteq> [] \<and> lookup n l \<noteq> None" "map fst qs = map rel_path ls"
  shows "collect Z E f qs acc = Inr (acc @ map (\<lambda>l. named Z (rel_path l) (mk (the (lookup n l)))) ls)"
  using assms(3,4)
proof (induction ls arbitrary: qs acc)
  case (Cons l ls)
  then obtain q r where q: "qs = q # r" "fst q = rel_path l" "map fst r = map rel_path ls" by (cases qs) auto
  obtain u where u: "lookup n l = Some u" "l \<noteq> []" using Cons.prems(1) by auto
  then have "en_find E (en_cmdstr E (rel_path l)) f = Some (mk u)"
    using assms(1) lstat_rel [OF assms(2)] by (simp add: finds_def)
  then have "found Z E f (fst q) = Some (named Z (rel_path l) (mk u))" using q(2) by (simp add: found_def named_def)
  with Cons.IH [of r] Cons.prems(1) q u(1) show ?case by simp
qed simp

lemma item_locs_queue:
  assumes "wf_node n" "\<forall>e \<in> set entries. map_of (dir_entries n) e \<noteq> None"
  shows "map fst (item_queue n entries) = map rel_path (item_locs n entries)"
    and "l \<in> set (item_locs n entries) \<longleftrightarrow> l \<noteq> [] \<and> lookup n l \<noteq> None \<and> (entries = [] \<or> hd l \<in> set entries)"
    and "distinct entries \<Longrightarrow> distinct (item_locs n entries)"
proof -
  have u: "\<exists>u. map_of (dir_entries n) e = Some u \<and> wf_node u \<and> good_name e" if e: "e \<in> set entries" for e
  proof -
    from e assms(2) obtain u where "map_of (dir_entries n) e = Some u" by auto
    then have "lookup n [e] = Some u" by simp
    with lookup_good [OF assms(1)] \<open>map_of (dir_entries n) e = Some u\<close> show ?thesis by fastforce
  qed
  let ?L = "\<lambda>e. map ((#) e) (visit [] (the (map_of (dir_entries n) e))) @ [[e]]"
  have "map fst (entry_queue n e) = map rel_path (?L e)" if e: "e \<in> set entries" for e
  proof -
    obtain v where "map_of (dir_entries n) e = Some v" "good_name e" using u [OF e] by blast
    then show ?thesis
      by (cases v) (simp_all add: entry_queue_def rel_path_single comp_def del: visit.simps(1))
  qed
  then have "map (\<lambda>e. map fst (entry_queue n e)) entries = map (\<lambda>e. map rel_path (?L e)) entries" by (intro map_cong) simp_all
  then show "map fst (item_queue n entries) = map rel_path (item_locs n entries)"
    by (simp only: item_queue_def item_locs_def map_concat map_map comp_def fst_conv split: if_split) simp
  have L: "l \<in> set (?L e) \<longleftrightarrow> l \<noteq> [] \<and> hd l = e \<and> lookup n l \<noteq> None" if e: "e \<in> set entries" for e l
  proof -
    obtain v where v: "map_of (dir_entries n) e = Some v" "wf_node v" using u [OF e] by blast
    show ?thesis using visit_set [OF v(2)] v(1) by (cases l) auto
  qed
  show "l \<in> set (item_locs n entries) \<longleftrightarrow> l \<noteq> [] \<and> lookup n l \<noteq> None \<and> (entries = [] \<or> hd l \<in> set entries)"
    using visit_set [OF assms(1)] L by (auto simp: item_locs_def)
  have D: "distinct (?L e)" if e: "e \<in> set entries" for e
  proof -
    obtain v where v: "map_of (dir_entries n) e = Some v" "wf_node v" using u [OF e] by blast
    show ?thesis using visit_distinct [OF v(2)] visit_set [OF v(2), of "[]"] v(1) by (auto simp: distinct_map inj_on_def)
  qed
  have "distinct (concat (map ?L es))" if "distinct es" "set es \<subseteq> set entries" for es
    using that
  proof (induction es)
    case (Cons e es)
    have "set (?L e) \<inter> set (?L y) = {}" if "y \<in> set es" for y
      using L [of e] L [of y] Cons.prems that by auto
    then have "set (?L e) \<inter> set (concat (map ?L es)) = {}" by auto
    moreover have "distinct (?L e)" using D Cons.prems(2) by (metis list.set_intros(1) subset_iff)
    moreover have "distinct (concat (map ?L es))" using Cons by simp
    ultimately show ?case by (simp only: list.map concat.simps distinct_append)
  qed simp
  then show "distinct (item_locs n entries)" if "distinct entries"
    using that visit_distinct [OF assms(1)] by (simp add: item_locs_def)
qed


subsection \<open>The protocol\<close>

text \<open>
  The wrappers of the library use the connection only through the callbacks. (The descriptors that \<open>en_recvfd\<close> receives
  travel with the socket but are not part of its bytes.)
\<close>

definition silent_enc :: "encoder \<Rightarrow> handle \<Rightarrow> bool" where
  "silent_enc E h \<longleftrightarrow> (\<forall>p. silent h (en_create E p)) \<and> (\<forall>p. silent h (en_openIn E p)) \<and> silent h (en_recvfd E h)
     \<and> (\<forall>d n. silent h (en_readIn E d n)) \<and> (\<forall>d bs. silent h (en_write E d bs)) \<and> (\<forall>d n. silent h (en_seek E d n))"

lemma silent_encD:
  assumes "silent_enc E h"
  shows "silent h (en_create E p)" "silent h (en_openIn E p)" "silent h (en_recvfd E h)" "silent h (en_readIn E d n)"
    "silent h (en_write E d bs)" "silent h (en_seek E d m)"
  using assms by (simp_all add: silent_enc_def)

text \<open>Progress values have 8 bytes; the variant with descriptors also sends indices of 4 bytes.\<close>

definition grain :: "source \<Rightarrow> nat" where
  "grain s = (case s of DirItems ds \<Rightarrow> 8 | FStats fs \<Rightarrow> 4)"

abbreviation step_says :: "ucb \<Rightarrow> up_ans \<times> ucb \<Rightarrow> byte list \<Rightarrow> bool" where
  "step_says x v out \<equiv> u_source (snd v) = u_source x \<and> grain (u_source x) dvd length out"

lemma grain_8: "grain s dvd 8" and grain_0 [simp]: "grain s dvd 0"
  by (auto simp: grain_def split: source.splits)

lemma talks_sent: "talks h (thn (writeAllOrExitProcess h (le_bytes 8 (v :: u64))) (ret a)) (\<lambda>r out. r = a \<and> length out = 8)"
  by (rule talks_thn [OF talks_write_process]) (simp add: talks_ret)

lemma talks_item_stream:
  "silent_enc E h \<Longrightarrow> talks h (item_stream E di x) (\<lambda>v out. u_source (snd v) = u_source x \<and> out = [])"
  unfolding item_stream_def Let_def
  by (intro talks_if talks_silent_bnd [OF silent_encD(2)] talks_silent_bnd [OF talks_get] talks_option talks_ret) simp_all

lemma talks_stat_stream:
  assumes "silent_enc E h"
  shows "talks h (stat_stream E h i it x) (\<lambda>v out. u_source (snd v) = u_source x \<and> 4 dvd length out)"
proof -
  have fd: "talks h (bnd (en_recvfd E h) (\<lambda>f. ret (given_stream, x\<lparr>u_in := f\<rparr>))) (\<lambda>v out. u_source (snd v) = u_source x \<and> out = [])"
    by (intro talks_silent_bnd [OF silent_encD(3) [OF assms]] talks_ret) simp
  show ?thesis
    unfolding stat_stream_def
    by (rule talks_thn [OF talks_write], rule talks_if, rule talks_ret, simp,
        rule talks_thn [OF talks_write], rule talks_conseq [OF fd], simp)
qed

lemma talks_up_callback:
  assumes "silent_enc E h"
  shows "talks h (up_callback Z E h cb x) (step_says x)"
proof (cases cb)
  case (UpSetTotal v)
  then show ?thesis
    unfolding up_callback_def up_cb.case UpSetTotal UpdateSetTotal_def Let_def
    by (intro talks_conseq [OF talks_sent]) (auto simp: grain_8)
next
  case (UpSetCompleted v)
  then show ?thesis
    unfolding up_callback_def up_cb.case UpSetCompleted UpdateSetCompleted_def
    by (intro talks_if talks_conseq [OF talks_sent] talks_ret) (auto simp: grain_8)
next
  case (UpGetStream i)
  have s: "u_source (Finilize x) = u_source x" by (simp add: Finilize_def)
  show ?thesis
  proof (cases "u_source x")
    case (DirItems ds)
    then show ?thesis
      unfolding up_callback_def up_cb.case UpGetStream UpdateGetStream_def Let_def s DirItems source.case
      by (intro talks_conseq [OF talks_item_stream [OF assms]]) (simp add: s DirItems)
  next
    case (FStats fs)
    then show ?thesis
      unfolding up_callback_def up_cb.case UpGetStream UpdateGetStream_def Let_def s FStats source.case
      by (intro talks_conseq [OF talks_stat_stream [OF assms]]) (simp add: s FStats grain_def)
  qed
next
  case (UpGetVolumeStream i)
  then show ?thesis
    by (cases "u_source x") (auto simp: up_callback_def GetVolumeStream_def intro!: talks_ret talks_silent_bnd [OF silent_encD(1) [OF assms]]
        talks_silent_bnd [OF talks_get] talks_option)
next
  case (UpRead n)
  then show ?thesis
    by (auto simp: up_callback_def read_in_def intro!: talks_option talks_ret talks_silent_bnd [OF silent_encD(4) [OF assms]])
next
  case (UpWrite bs)
  then show ?thesis
    by (auto simp: up_callback_def intro!: talks_ret talks_silent_bnd [OF silent_encD(5) [OF assms]])
next
  case (UpSeek p)
  then show ?thesis
    by (auto simp: up_callback_def intro!: talks_ret talks_silent_bnd [OF silent_encD(6) [OF assms]])
qed (auto simp: up_callback_def UpdateSetOperationResult_def intro!: talks_ret)

text \<open>Whether the library may return \<open>E_ABORT\<close> of its own accord.\<close>

primrec aborts :: "up_run \<Rightarrow> bool" where
  "aborts (UpDone r) \<longleftrightarrow> r = E_ABORT"
| "aborts (UpCall cb k) \<longleftrightarrow> (\<exists>a. aborts (k a))"

definition may_abort :: "encoder \<Rightarrow> bool" where
  "may_abort E \<longleftrightarrow> (\<exists>t ps n. aborts (en_update E t ps n))"

lemma talks_run_update:
  "silent_enc E h \<Longrightarrow> talks h (run_update Z E h r x) (\<lambda>v out. grain (u_source x) dvd length out \<and> (fst v = E_ABORT \<longrightarrow> aborts r))"
proof (induction r arbitrary: x)
  case (UpDone r)
  then show ?case by (simp add: talks_ret)
next
  case (UpCall cb k)
  show ?case
    unfolding run_update.simps
  proof (rule talks_bnd [OF talks_up_callback [OF UpCall.prems]])
    fix v out
    assume v: "step_says x v out"
    show "talks h (case v of (a, x') \<Rightarrow> run_update Z E h (k a) x')
        (\<lambda>v' out'. grain (u_source x) dvd length (out @ out') \<and> (fst v' = E_ABORT \<longrightarrow> aborts (UpCall cb k)))"
      by (rule talks_prod, rule talks_conseq [OF UpCall.IH [OF rangeI UpCall.prems]]) (use v in \<open>auto simp: dvd_add\<close>)
  qed
qed

text \<open>What \<open>common_compress_logic\<close> says: an error with \<open>E_ABORT\<close>, or OK and progress.\<close>

definition logic_says :: "encoder \<Rightarrow> source \<Rightarrow> hresult \<times> ucb \<Rightarrow> byte list \<Rightarrow> bool" where
  "logic_says E s v out \<longleftrightarrow> (\<exists>e. out = error_wire e) \<and> fst v = E_ABORT
     \<or> (\<exists>prog. out = ok_wire @ prog \<and> grain s dvd length prog \<and> (fst v = E_ABORT \<longrightarrow> may_abort E))"

lemma logic_refuse: "talks h (refuse h e (E_ABORT, x)) (logic_says E s)"
  unfolding refuse_def
  by (rule talks_silent_thn [OF talks_set_errno], rule talks_thn [OF talks_error]) (auto simp: logic_says_def intro!: talks_ret)

lemma logic_error: "talks h (thn (sendErrorResponse h) (ret (E_ABORT, x))) (logic_says E s)"
  by (rule talks_thn [OF talks_error]) (auto simp: logic_says_def intro!: talks_ret)

lemma talks_encode:
  assumes "silent_enc E h"
  shows "talks h (encode Z E h pw opts x n t d) (logic_says E (u_source x))"
proof -
  have src: "u_source (start_ucb Z pw d x) = u_source x" by (simp add: start_ucb_def InitUpdate_def)
  show ?thesis
    unfolding encode_def
  proof (intro talks_if talks_option logic_refuse, rule talks_thn [OF talks_ok],
      rule talks_bnd [OF talks_run_update [OF assms]], unfold src)
    fix u out and v :: "hresult \<times> ucb" and out'
    assume o: "out = ok_wire" and p: "grain (u_source x) dvd length (out' :: byte list)
      \<and> (fst v = E_ABORT \<longrightarrow> aborts (en_update E t (archive_options t opts) (of_nat n)))"
    then show "talks h (case v of (result, x') \<Rightarrow> ret (result, Finilize x'))
        (\<lambda>v' out''. logic_says E (u_source x) v' (out @ out' @ out''))"
      by (cases v) (auto simp: logic_says_def may_abort_def intro!: talks_ret)
  qed
qed

lemma talks_logic:
  assumes "silent_enc E h"
  shows "talks h (common_compress_logic Z E h dest pw opts x n) (logic_says E (u_source x))"
  unfolding common_compress_logic_def
  by (intro talks_silent_bnd [OF silent_mkcopy] talks_if logic_error talks_silent_bnd [OF silent_encD(1) [OF assms]] talks_option
      talks_sum logic_refuse talks_encode assms)

text \<open>
  An answer: an error; or OK, progress values, the end mark and the final response; or, when the library may abort,
  OK and progress values and nothing more.
\<close>

definition compress_answer :: "bool \<Rightarrow> byte list \<Rightarrow> bool" where
  "compress_answer b out \<longleftrightarrow> (\<exists>e. out = error_wire e)
     \<or> (\<exists>prog. 8 dvd length prog \<and> (out = ok_wire @ prog @ le_bytes 8 maxuint @ ok_wire
          \<or> (\<exists>e. out = ok_wire @ prog @ le_bytes 8 maxuint @ error_wire e) \<or> b \<and> out = ok_wire @ prog))"

lemma silent_update_error: "silent h update_error"
  unfolding update_error_def by (intro talks_silent_bnd [OF talks_get] talks_if talks_silent_thn [OF talks_set_errno] talks_ret) simp_all

lemma talks_after_logic:
  assumes "logic_says E (DirItems ds) v out"
  shows "talks h (finish_items h home v)
    (\<lambda>v' out'. compress_answer (may_abort E) (out @ out'))"
proof -
  obtain r x where v: "v = (r, x)" by (cases v)
  show ?thesis
  proof (cases "r = E_ABORT")
    case True
    with assms v show ?thesis
      by (auto simp: finish_items_def logic_says_def compress_answer_def grain_def intro!: talks_ret)
  next
    case False
    then obtain prog where o: "out = ok_wire @ prog" "8 dvd length prog"
      using assms v by (auto simp: logic_says_def grain_def)
    have fin: "talks h (sendEndProgressAndBaseResponse k h) (\<lambda>v' out'. compress_answer (may_abort E) (out @ out'))" for k
      by (rule talks_conseq [OF talks_end]) (use o in \<open>auto simp: compress_answer_def\<close>)
    have quiet: "silent h (bnd (io_update (sys_chdir home)) (\<lambda>_. ret ()))" by (intro talks_silent_bnd [OF talks_update] talks_ret) simp
    have "talks h (thn (sendEndProgressAndBaseResponse 0 h) (bnd (io_update (sys_chdir home)) (\<lambda>_. ret ())))
        (\<lambda>v' out'. compress_answer (may_abort E) (out @ out'))"
      by (rule talks_thn [OF fin], rule talks_conseq [OF quiet]) simp
    with False v show ?thesis
      by (auto simp: finish_items_def intro!: talks_silent_thn [OF silent_update_error] fin)
  qed
qed

lemma talks_compress_items:
  assumes "silent_enc E h" and "works_in (wfs w) cs n" and "\<forall>e \<in> set (c_entries rq). good_name e" and "\<forall>h. wr h w"
    and "c_srcFolder rq = abs_path cs"
  shows "\<exists>w' out. compress_items Z E junk h rq home w = (Ret (), w') \<and> conns w' = conns (emit h out w)
    \<and> compress_answer (may_abort E) out"
proof -
  let ?c = "collect Z E (wfs w) (item_queue n (c_entries rq)) []"
  obtain e p where c: "collect_items Z E h rq w = (Ret (got ?c), emit_all (told h ?c) (w\<lparr>errno := e, progress := p\<rparr>))"
    using saysD [OF says_collect [OF assms(2,3,5), of "users w" Z E h] refl refl assms(4)] by blast
  show ?thesis
  proof (cases ?c)
    case (Inl err)
    then show ?thesis
      using c by (auto simp: compress_items_def bnd_app ret_app emit_only compress_answer_def
          intro!: exI [of _ "error_wire err"] emit_conns)
  next
    case (Inr ds)
    let ?w = "w\<lparr>errno := e, progress := p\<rparr>"
    let ?m = "bnd (common_compress_logic Z E h (c_destArchive rq) (c_password rq) (c_options rq) (new_ucb junk (DirItems ds)) (length ds))
        (finish_items h home)"
    have src: "u_source (new_ucb junk (DirItems ds)) = DirItems ds" by (simp add: new_ucb_def)
    have "talks h ?m (\<lambda>v out. compress_answer (may_abort E) out)"
      by (rule talks_bnd [OF talks_logic [OF assms(1)]], unfold src, rule talks_after_logic)
    then have t: "talks h ?m (\<lambda>v out. compress_answer (may_abort E) out)" .
    have "wr h ?w" using assms(4) by simp
    from talksD [OF t this] obtain w' out where m: "?m ?w = (Ret (), w')" "conns w' = conns (emit h out ?w)"
      "compress_answer (may_abort E) out" by auto
    have run: "compress_items Z E junk h rq home w = ?m ?w"
      using c by (simp add: compress_items_def bnd_app [of "collect_items Z E h rq"] Inr)
    have "conns (emit h out ?w) = conns (emit h out w)" by (rule emit_conns) simp
    with m run show ?thesis by metis
  qed
qed

text \<open>The bytes of a request.\<close>

definition options_wire :: "compress_rq_options_t \<Rightarrow> byte list" where
  "options_wire opts = [compressionLevel opts, encryptHeader opts, solid opts]"

definition compress_wire :: "compress_rq \<Rightarrow> byte list" where
  "compress_wire rq = pair_wire (c_srcFolder rq, c_destArchive rq) @ options_wire (c_options rq) @ byte_str_wire (c_password rq)
     @ le_bytes 4 (of_nat (length (c_entries rq)) :: u32) @ concat (map str_wire (c_entries rq))"

definition compress_rq_ok :: "compress_rq \<Rightarrow> bool" where
  "compress_rq_ok rq \<longleftrightarrow> c_srcFolder rq \<noteq> [] \<and> length (c_srcFolder rq) < 65536 \<and> length (c_destArchive rq) < 65536
     \<and> length (c_password rq) < 256 \<and> length (c_entries rq) < 2 ^ 32
     \<and> (\<forall>e \<in> set (c_entries rq). good_name e \<and> length e < 65536)"

lemma readRaw_Cons: "readRaw h (Suc 0) (feed h (b # bs) w) = (Ret [b], feed h bs w)"
  by (simp add: readRaw_def feed_def set_conn_def)

lemma read_options: "readcompress_rq_options h d (feed h (options_wire opts) w) = (Ret opts, w)"
  by (cases opts) (simp add: readcompress_rq_options_def options_wire_def bnd_app readRaw_Cons ret_app)

lemma read_names_run:
  "\<forall>e \<in> set es. length e < 65536 \<Longrightarrow> read_names h (length es) acc (feed h (concat (map str_wire es)) w) = (Ret (acc @ es), w)"
  by (induction es arbitrary: acc) (simp_all add: ret_app bnd_app read_string)

lemma read_compress_request:
  assumes "compress_rq_ok rq"
  shows "read_compress_rq h (feed h (compress_wire rq) w) = (Ret rq, w)"
proof -
  have "unat (of_nat (length (c_entries rq)) :: u32) = length (c_entries rq)" using assms by (simp add: compress_rq_ok_def unat_of_nat)
  with assms read_names_run [of "c_entries rq" h "[]" w] show ?thesis
    by (cases rq) (simp add: read_compress_rq_def compress_wire_def compress_rq_ok_def bnd_app read_pair read_options
        read_byte_string read_feed ret_app)
qed

lemma chdir_run:
  assumes "at_path f cs n" "is_dir n"
  shows "sys_chdir (abs_path cs) f = (0, f\<lparr>cwd := cs\<rparr>)"
proof -
  have "\<not> is_lnk n" using assms(2) by (cases n) simp_all
  with assms have "resolve f True (abs_path cs) = Found cs" by (intro resolve_plain_Found) (auto simp: at_path_def)
  with assms show ?thesis by (cases n) (auto simp: sys_chdir_def at_path_def)
qed

text \<open>
  Whatever the 7-Zip library does, a request to compress a folder (with sub folders, without symbolic links) is read completely,
  the handler returns, and the client gets one answer: an error, or OK, progress values of eight bytes, the end mark and
  the final response. Only a library that returns \<open>E_ABORT\<close> of its own accord leaves the client without the
  end mark, because that status also means that the error was already sent.
\<close>

theorem compress_answers:
  assumes "silent_enc E h" and "sz_loaded Z" and "sz_proc Z" and "\<forall>h. wr h w" and "compress_rq_ok rq"
    and "at_path (wfs w) cs n" and "is_dir n" and "wf_node n" and "no_links n" and "c_srcFolder rq = abs_path cs"
  shows "\<exists>w' out. compressToArchive Z E junk h 0 (feed h (compress_wire rq) w) = (Ret (), w') \<and> conns w' = conns (emit h out w)
    \<and> compress_answer (may_abort E) out"
proof (cases "sys_getcwd (wfs w)")
  case (Inl e)
  have wr: "wr h (w\<lparr>errno := e\<rparr>)" using assms(4) by simp
  have "compressToArchive Z E junk h 0 (feed h (compress_wire rq) w) = (Ret (), emit h (error_wire e) (w\<lparr>errno := e\<rparr>))"
    using assms(2,3) Inl read_compress_request [OF assms(5)] send_error [OF wr]
    by (simp add: compressToArchive_def bnd_app io_query_def)
  then show ?thesis
    by (auto simp: compress_answer_def errno_upd_emit intro!: exI [of _ "error_wire e"])
next
  case (Inr home)
  let ?w = "w\<lparr>wfs := (wfs w)\<lparr>cwd := cs\<rparr>\<rparr>"
  have run: "compressToArchive Z E junk h 0 (feed h (compress_wire rq) w) = compress_items Z E junk h rq home ?w"
    using assms(2,3,10) Inr read_compress_request [OF assms(5)] chdir_run [OF assms(6,7)]
    by (simp add: compressToArchive_def bnd_app io_query_def io_update_def)
  have "works_in (wfs ?w) cs n"
    using assms(6-9) by (simp add: works_in_def at_path_def no_faults_def)
  moreover have "\<forall>e \<in> set (c_entries rq). good_name e" using assms(5) by (simp add: compress_rq_ok_def)
  moreover have "\<forall>h. wr h ?w" using assms(4) by simp
  ultimately obtain w' out where "compress_items Z E junk h rq home ?w = (Ret (), w')" "conns w' = conns (emit h out ?w)"
    "compress_answer (may_abort E) out"
    using talks_compress_items [OF assms(1) _ _ _ assms(10)] by blast
  moreover have "conns (emit h out ?w) = conns (emit h out w)" by (rule emit_conns) simp
  ultimately show ?thesis using run by metis
qed

subsection \<open>The variant with descriptors\<close>

definition stat_wire :: "fd_item \<Rightarrow> byte list" where
  "stat_wire s = str_wire (pi_filename s) @ le_bytes 4 (pi_mode s) @ le_bytes 8 (pi_size s) @ le_bytes 8 (pi_archivetime s)
     @ le_bytes 8 (pi_creationtime s) @ le_bytes 8 (pi_modificationtime s)"

definition fds_wire :: "fd_item list \<Rightarrow> string \<Rightarrow> compress_rq_options_t \<Rightarrow> string \<Rightarrow> byte list" where
  "fds_wire ss dest opts pw = concat (map stat_wire ss) @ str_wire [] @ str_wire dest @ options_wire opts @ byte_str_wire pw"

lemma receiveStats_unfold:
  "io_loop h (receiveStats_round h) s = bnd (receiveStats_round h s)
     (\<lambda>r. case r of Inl s' \<Rightarrow> io_loop h (receiveStats_round h) s' | Inr a \<Rightarrow> ret a)"
proof (rule io_loop_unfold)
  fix s w s' w'
  have e: "eats h 0 (if b then ret x else m)" if "eats h 0 m" for b :: bool and x and m :: "(fd_item list + fd_item list) io"
    using that by (cases b) (simp_all add: eats_ret)
  have "eats h (2 + 0) (receiveStats_round h s)" for s
    unfolding receiveStats_round_def by (intro eats_bnd eats_string e eats0_bnd eats0_read eats_ret)
  then show "receiveStats_round h s w = (Ret (Inl s'), w') \<Longrightarrow> avail h w' < avail h w"
    using io_loop_eats [of h 1 "receiveStats_round h"] by (simp add: numeral_2_eq_2)
qed

lemma receiveStats_step:
  "\<lbrakk>pi_filename s \<noteq> []; length (pi_filename s) < 65536\<rbrakk> \<Longrightarrow>
   receiveStats_round h l (feed h (stat_wire s) w) = (Ret (Inl (l @ [s])), w)"
  by (cases s) (simp add: receiveStats_round_def stat_wire_def bnd_app read_string read_feed ret_app)

lemma receiveStats_run:
  "\<forall>s \<in> set ss. pi_filename s \<noteq> [] \<and> length (pi_filename s) < 65536 \<Longrightarrow>
   io_loop h (receiveStats_round h) acc (feed h (concat (map stat_wire ss) @ str_wire []) w) = (Ret (acc @ ss), w)"
proof (induction ss arbitrary: acc)
  case Nil
  have "receiveStats_round h acc (feed h (str_wire []) w) = (Ret (Inr acc), w)"
    by (simp add: receiveStats_round_def bnd_app read_string ret_app)
  then show ?case by (subst receiveStats_unfold) (simp add: bnd_app ret_app)
next
  case (Cons s ss)
  then show ?case by (subst receiveStats_unfold) (simp add: receiveStats_step bnd_app ret_app)
qed

text \<open>The answer of this variant: the mark that ends the progress also follows an error.\<close>

definition fds_answer :: "bool \<Rightarrow> byte list \<Rightarrow> bool" where
  "fds_answer b out \<longleftrightarrow> (\<exists>e. out = error_wire e @ le_bytes 8 maxuint_2)
     \<or> (\<exists>prog. 4 dvd length prog \<and> (out = ok_wire @ prog @ le_bytes 8 maxuint_2 @ ok_wire
          \<or> (\<exists>e. out = ok_wire @ prog @ le_bytes 8 maxuint_2 @ error_wire e) \<or> b \<and> out = ok_wire @ prog @ le_bytes 8 maxuint_2))"

lemma talks_after_fds:
  assumes "logic_says E (FStats fs) v out"
  shows "talks h (case v of (result, x) \<Rightarrow> thn (writeAllOrExit h (le_bytes 8 maxuint_2))
     (if result = E_ABORT then ret () else if result \<noteq> S_OK then thn update_error (sendErrorResponse h) else sendOkResponse h))
    (\<lambda>v' out'. fds_answer (may_abort E) (out @ out'))"
proof -
  obtain r x where v: "v = (r, x)" by (cases v)
  let ?Q = "\<lambda>v' out'. fds_answer (may_abort E) (out @ le_bytes 8 maxuint_2 @ out')"
  have "talks h (if r = E_ABORT then ret () else if r \<noteq> S_OK then thn update_error (sendErrorResponse h) else sendOkResponse h) ?Q"
  proof (cases "r = E_ABORT")
    case True
    with assms v show ?thesis by (auto simp: logic_says_def fds_answer_def grain_def intro!: talks_ret)
  next
    case False
    then obtain prog where o: "out = ok_wire @ prog" "4 dvd length prog"
      using assms v by (auto simp: logic_says_def grain_def)
    have "talks h (sendErrorResponse h) ?Q" "talks h (sendOkResponse h) ?Q"
      by (rule talks_conseq [OF talks_error], use o in \<open>auto simp: fds_answer_def\<close>)
        (rule talks_conseq [OF talks_ok], use o in \<open>auto simp: fds_answer_def\<close>)
    with False show ?thesis by (auto intro!: talks_silent_thn [OF silent_update_error])
  qed
  then show ?thesis
    unfolding v prod.case by (intro talks_thn [OF talks_write]) (simp add: append_assoc [symmetric] del: append_assoc)
qed

text \<open>
  A request to compress files whose descriptors the client passes is read completely, the handler returns, and
  whatever the library does the answer is OK, progress, the end mark and the final response, or an error. But the end mark of
  eight bytes also follows an error that was sent before the OK, where a client that expects the response of its next request
  finds it.
\<close>

theorem compress_fds_answers:
  assumes "silent_enc E h" and "sz_loaded Z" and "sz_proc Z" and "wr h w" and "fl \<noteq> 0"
    and "\<forall>s \<in> set ss. pi_filename s \<noteq> [] \<and> length (pi_filename s) < 65536" and "length dest < 65536" and "length pw < 256"
  shows "\<exists>w' out. compressToArchive Z E junk h fl (feed h (fds_wire ss dest opts pw) w) = (Ret (), w')
    \<and> conns w' = conns (emit h out w) \<and> fds_answer (may_abort E) out"
proof -
  let ?x = "new_ucb junk (FStats ss)"
  let ?m = "bnd (common_compress_logic Z E h dest pw opts ?x (length ss)) (\<lambda>(result, x). thn (writeAllOrExit h (le_bytes 8 maxuint_2))
     (if result = E_ABORT then ret () else if result \<noteq> S_OK then thn update_error (sendErrorResponse h) else sendOkResponse h))"
  have src: "u_source ?x = FStats ss" by (simp add: new_ucb_def)
  have t: "talks h ?m (\<lambda>v out. fds_answer (may_abort E) out)"
    by (rule talks_bnd [OF talks_logic [OF assms(1)]], unfold src, rule talks_after_fds)
  obtain w' out where m: "?m w = (Ret (), w')" "conns w' = conns (emit h out w)" "fds_answer (may_abort E) out"
    using talksD [OF t assms(4)] by auto
  have "compressToArchive Z E junk h fl (feed h (fds_wire ss dest opts pw) w) = ?m w"
    using assms(2,3,5,7,8) receiveStats_run [OF assms(6), of h "[]" "feed h (str_wire dest) (feed h (options_wire opts) (feed h (byte_str_wire pw) w))"]
    by (simp add: compressToArchive_def compressToArchiveFromFds_def fds_wire_def receiveStats_def bnd_app [of "receiveStats h"]
        bnd_app [of "io_loop h (receiveStats_round h) []"] bnd_app [of "readStringWithLen h"]
        bnd_app [of "readcompress_rq_options h no_options"] bnd_app [of "readStringWithByteLen h"] read_string read_options read_byte_string)
  with m show ?thesis by metis
qed

subsection \<open>An archive type that is refused\<close>

text \<open>\<open>COutFileStream::Create\<close> with \<open>createAlways\<close> off is \<open>open\<close> with \<open>O_CREAT | O_EXCL\<close> on the name in UTF-8.\<close>

definition posix_create :: "encoder \<Rightarrow> bool" where
  "posix_create E \<longleftrightarrow> (\<forall>p. en_create E p = bnd (fd_create (to_narrow p) FM_XCL) (\<lambda>r. ret (case r of Inl e \<Rightarrow> None | Inr d \<Rightarrow> Some d)))"

text \<open>
  A request whose archive has an extension without codec (or, for a compressed stream, more than one item) is refused
  only after the archive file was created: the empty file stays behind, and the same request sent again fails
  with \<open>EEXIST\<close> instead of the error that tells the cause.
\<close>

theorem refused_type_leaves_file:
  assumes "posix_create E" and "at_path (wfs w) cs (Dir b es)" and "good_name nm" and "lookup (root (wfs w)) (cs @ [nm]) = None"
    and "p = abs_path (cs @ [nm])" and "to_narrow (wcs (to_wide Z p)) = p" and "out_type p n = Inl k" and "wr h w"
  shows "\<exists>w1 w2 a. common_compress_logic Z E h p pw opts x n w = (Ret (E_ABORT, x), w1)
    \<and> conns w1 = conns (emit h (error_wire k) w) \<and> lookup (root (wfs w1)) (cs @ [nm]) = Some (Reg a [])
    \<and> common_compress_logic Z E h p pw opts x n w1 = (Ret (E_ABORT, x), w2) \<and> conns w2 = conns (emit h (error_wire EEXIST) w1)"
proof -
  let ?l = "cs @ [nm]"
  have at: "no_faults (wfs w)" "\<forall>c \<in> set cs. good_name c" "cs \<noteq> []" "dirs_above (root (wfs w)) cs" "lookup (root (wfs w)) cs = Some (Dir b es)"
    using assms(2) by (simp_all add: at_path_def)
  have good: "\<forall>c \<in> set ?l. good_name c" and above: "dirs_above (root (wfs w)) ?l"
    using at assms(3) by (auto simp: dirs_above_snoc)
  have parent: "getParentDir p = abs_path cs" using getParentDir_abs [OF good at(3)] assms(5) by simp
  obtain e1 where mk1: "mkpathCopyPermissionsFromNearestAncestor (abs_path cs) True w = (Ret 0, w\<lparr>errno := e1\<rparr>)"
    using mkcopy_existing [of "abs_path cs" w b es] at_path_lstat [OF assms(2)] by blast
  let ?a = "new_attr 420 (wfs w)"
  let ?t = "put_at ?l (Reg ?a []) (root (wfs w))"
  let ?w1 = "emit h (error_wire k) (w\<lparr>wfs := (wfs w)\<lparr>root := ?t\<rparr>, errno := k\<rparr>)"
  have missing: "resolve (wfs w) False p = Missing ?l" unfolding assms(5) using assms(4) good above by (intro resolve_plain_Missing) auto
  have 1: "common_compress_logic Z E h p pw opts x n w = (Ret (E_ABORT, x), ?w1)"
    using assms(1,6,7,8) mk1 parent missing at(1)
    by (simp add: common_compress_logic_def posix_create_def bnd_app ret_app fd_create_def sys_open_excl_def no_faults_faulty
        refuse_def thn_app set_errno_app send_error)
  have new: "lookup ?t ?l = Some (Reg ?a [])" using at(5) by (auto intro!: lookup_put_same)
  have dirs: "\<exists>a es. lookup ?t ys = Some (Dir a es)" if "\<exists>a es. lookup (root (wfs w)) ys = Some (Dir a es)" for ys
    using at(5) assms(4) that by (intro dir_kept_put) simp_all
  have above1: "dirs_above ?t ?l" using above dirs by (simp add: dirs_above_def)
  obtain b' es' where dir1: "lookup ?t cs = Some (Dir b' es')" using dirs at(5) by blast
  have at1: "at_path (wfs ?w1) cs (Dir b' es')" using at above1 dir1 by (simp add: at_path_def dirs_above_snoc)
  obtain e2 where mk2: "mkpathCopyPermissionsFromNearestAncestor (abs_path cs) True ?w1 = (Ret 0, ?w1\<lparr>errno := e2\<rparr>)"
    using mkcopy_existing [of "abs_path cs" ?w1 b' es'] at_path_lstat [OF at1] by blast
  have "resolve (wfs ?w1) False p = Found ?l" unfolding assms(5) using good above1 new by (intro resolve_plain_Found) auto
  then have 2: "common_compress_logic Z E h p pw opts x n ?w1 = (Ret (E_ABORT, x), emit h (error_wire EEXIST) (?w1\<lparr>errno := EEXIST\<rparr>))"
    using assms(1,6,8) mk2 parent at(1)
    by (simp add: common_compress_logic_def posix_create_def bnd_app ret_app fd_create_def sys_open_excl_def no_faults_faulty
        thn_app send_error)
  have "conns ?w1 = conns (emit h (error_wire k) w)"
    "conns (emit h (error_wire EEXIST) (?w1\<lparr>errno := EEXIST\<rparr>)) = conns (emit h (error_wire EEXIST) ?w1)"
    by (rule emit_conns, simp)+
  with 1 2 new show ?thesis by (intro exI [of _ ?w1] exI [of _ "emit h (error_wire EEXIST) (?w1\<lparr>errno := EEXIST\<rparr>)"] exI [of _ ?a]) simp
qed

subsection \<open>A file that cannot be opened\<close>

text \<open>
  A file that cannot be opened for reading is left out of the archive, and the client is told that all went well: the callback
  answers \<open>S_FALSE\<close>, with which the library skips the item, and the handler does not look at the list of the files that failed.
\<close>

theorem unreadable_item_left_out:
  assumes "en_object E t = S_OK" and "en_setprops E t = Some sp" and "set_options t opts sp = 0" and "wr h w"
    and "u_source x = DirItems ds" and "unat i < length ds" and "\<not> isDir (ds ! unat i)" and "u_DirPrefix x = []"
    and "en_openIn E (di_FullPath (ds ! unat i)) = ret None"
    and "en_update E t (archive_options t opts) (of_nat n) = UpCall (UpGetStream i) (\<lambda>a. if b_status a = S_FALSE then UpDone S_OK else k a)"
  shows "\<exists>x' w'. encode Z E h pw opts x n t d w = (Ret (S_OK, x'), w') \<and> u_FailedFiles x' = [di_FullPath (ds ! unat i)]
    \<and> (\<exists>w''. bnd (encode Z E h pw opts x n t d) (finish_items h home) w = (Ret (), w'')
         \<and> conns w'' = conns (emit h (ok_wire @ le_bytes 8 maxuint @ ok_wire) w))"
proof -
  let ?x = "start_ucb Z pw d x" and ?w = "emit h ok_wire w"
  have x: "u_source ?x = DirItems ds" "u_DirPrefix ?x = []" "u_FailedFiles ?x = []" "Finilize ?x = ?x"
    using assms(5,8) by (simp_all add: start_ucb_def InitUpdate_def Finilize_def)
  obtain x' where cb: "up_callback Z E h (UpGetStream i) ?x ?w = (Ret (ans S_FALSE, x'), ?w)"
    "u_FailedFiles x' = [di_FullPath (ds ! unat i)]"
    using x assms(6,7,9) by (simp add: up_callback_def UpdateGetStream_def Let_def at_index_def item_stream_def bnd_app get_app ret_app)
  have f: "u_FailedFiles (Finilize x') = u_FailedFiles x'" by (simp add: Finilize_def)
  have enc: "encode Z E h pw opts x n t d w = (Ret (S_OK, Finilize x'), ?w)"
    using assms(1-4,10) cb by (simp add: encode_def thn_app bnd_app send_ok ret_app ans_def)
  have "S_OK \<noteq> E_ABORT" by (simp add: S_OK_def E_ABORT_def)
  moreover obtain u w2 where u: "io_update (sys_chdir home) (emit h (le_bytes 8 maxuint @ ok_wire) ?w) = (Ret u, w2)"
    "conns w2 = conns (emit h (le_bytes 8 maxuint @ ok_wire) ?w)"
    using talksD [OF talks_update [of h "sys_chdir home"], of "emit h (le_bytes 8 maxuint @ ok_wire) ?w"] assms(4) by auto
  ultimately have "bnd (encode Z E h pw opts x n t d) (finish_items h home) w = (Ret (), w2)"
    using enc assms(4) by (simp add: bnd_app thn_app finish_items_def send_end ret_app)
  with enc cb(2) f u(2) show ?thesis by simp
qed

subsection \<open>Concrete runs\<close>

definition item_of :: "node \<Rightarrow> dir_item" where
  "item_of n = \<lparr>di_Size = of_nat (node_size n), di_CTime = 0, di_ATime = 0, di_MTime = 0, di_Name = [], di_FullPath = [],
     di_Attrib = (if is_dir n then 0x10 else 0x20)\<rparr>"

definition demo_enc :: "up_run \<Rightarrow> encoder" where
  "demo_enc r = \<lparr>en_cmdstr = (\<lambda>s. map (\<lambda>c. of_nat (of_char c)) s),
     en_find = (\<lambda>nm f. case sys_lstat (map (\<lambda>c. char_of (unat c)) nm) f of Inl e \<Rightarrow> None | Inr n \<Rightarrow> Some (item_of n)),
     en_create = (\<lambda>p. bnd (fd_create (to_narrow p) FM_XCL) (\<lambda>r. ret (case r of Inl e \<Rightarrow> None | Inr d \<Rightarrow> Some d))),
     en_object = (\<lambda>t. S_OK), en_setprops = (\<lambda>t. Some (\<lambda>ps. 0)), en_update = (\<lambda>t ps n. r), en_openIn = (\<lambda>p. ret None),
     en_recvfd = (\<lambda>h. ret None), en_readIn = (\<lambda>d n. ret (S_OK, [], d)), en_write = (\<lambda>d bs. ret (S_OK, d)),
     en_seek = (\<lambda>d p. ret (S_OK, d)), en_filetime = (\<lambda>t. t)\<rparr>"

definition blank_item :: dir_item where
  "blank_item = \<lparr>di_Size = 0, di_CTime = 0, di_ATime = 0, di_MTime = 0, di_Name = [], di_FullPath = [], di_Attrib = 0\<rparr>"

definition blank_ucb :: ucb where
  "blank_ucb = \<lparr>u_source = DirItems [], u_lastProgress = 0, u_totalSize = 0, u_DirPrefix = [], u_VolumesSizes = [], u_VolName = [],
     u_VolExt = [], u_PasswordIsDefined = False, u_Password = [], u_AskPassword = False, u_NeedBeClosed = False,
     u_FailedFiles = [], u_FailedCodes = [], u_in = None, u_out = \<lparr>fd_path = [], fd_loc = [], fd_pos = 0\<rparr>, u_junkItem = blank_item,
     u_junkStat = \<lparr>pi_mode = 0, pi_size = 0, pi_archivetime = 0, pi_creationtime = 0, pi_modificationtime = 0, pi_filename = []\<rparr>\<rparr>"

definition demo_crq :: "string \<Rightarrow> compress_rq" where
  "demo_crq dest = \<lparr>c_srcFolder = ''/d'', c_destArchive = dest, c_options = \<lparr>compressionLevel = 5, encryptHeader = 0, solid = 1\<rparr>,
     c_password = [], c_entries = []\<rparr>"

definition demo_dir :: node where
  "demo_dir = Dir attr0 [(''a.gz'', Reg attr0 gz_bytes), (''b.zip'', Reg attr0 zip_bytes)]"

lemma silent_fd_create: "silent h (fd_create p m)"
  by (auto simp: talks_def fd_create_def split: prod.splits sum.splits)

lemma demo_enc_silent: "silent_enc (demo_enc r) h"
  by (simp add: silent_enc_def demo_enc_def talks_ret talks_silent_bnd [OF silent_fd_create])

lemma demo_finds: "finds (demo_enc r) item_of f"
proof -
  have "char_of (unat (of_nat (of_char c) :: u32)) = c" for c
  proof -
    have "(of_char c :: nat) < 4294967296" by (rule less_trans [OF nat_of_char_less_256]) simp
    then show ?thesis by (simp add: unat_of_nat)
  qed
  then show ?thesis by (simp add: finds_def demo_enc_def comp_def)
qed

lemma demo_dir_at: "at_path (wfs arch_world) [''d''] demo_dir" "is_dir demo_dir" "wf_node demo_dir" "no_links demo_dir"
  by (auto simp: at_path_def arch_world_def demo_dir_def no_faults_def good_name_def dirs_above_def)

lemma demo_works: "works_in ((wfs arch_world)\<lparr>cwd := [''d'']\<rparr>) [''d''] demo_dir"
  using demo_dir_at by (simp add: works_in_def at_path_def no_faults_def)


theorem compress_answers_witness:
  "\<exists>w' out. compressToArchive (demo_lib 1 no_extract) (demo_enc (UpDone S_OK)) blank_ucb Cl 0
        (feed Cl (compress_wire (demo_crq ''/d/x.zip'')) arch_world) = (Ret (), w')
    \<and> conns w' = conns (emit Cl out arch_world) \<and> compress_answer False out"
proof -
  have "\<not> may_abort (demo_enc (UpDone S_OK))" by (simp add: may_abort_def demo_enc_def S_OK_def E_ABORT_def)
  moreover have "compress_rq_ok (demo_crq ''/d/x.zip'')" by (simp add: compress_rq_ok_def demo_crq_def)
  ultimately show ?thesis
    using compress_answers [OF demo_enc_silent _ _ arch_world_wr _ demo_dir_at, of "demo_lib 1 no_extract" "demo_crq ''/d/x.zip''" "UpDone S_OK" blank_ucb Cl]
    by (simp add: demo_lib_def demo_crq_def)
qed

theorem compress_fds_answers_witness:
  "\<exists>w' out. compressToArchive (demo_lib 1 no_extract) (demo_enc (UpDone S_OK)) blank_ucb Cl 1
        (feed Cl (fds_wire [] ''/d/x.foo'' \<lparr>compressionLevel = 5, encryptHeader = 0, solid = 1\<rparr> []) arch_world) = (Ret (), w')
    \<and> conns w' = conns (emit Cl out arch_world) \<and> fds_answer False out"
proof -
  have "\<not> may_abort (demo_enc (UpDone S_OK))" by (simp add: may_abort_def demo_enc_def S_OK_def E_ABORT_def)
  then show ?thesis
    using compress_fds_answers [OF demo_enc_silent, of "demo_lib 1 no_extract" Cl arch_world 1 "[]" "''/d/x.foo''" "[]" "UpDone S_OK" blank_ucb
        "\<lparr>compressionLevel = 5, encryptHeader = 0, solid = 1\<rparr>"] arch_world_wr
    by (simp add: demo_lib_def)
qed

theorem refused_type_leaves_file_witness:
  "\<exists>w1 w2 a. common_compress_logic (demo_lib 1 no_extract) (demo_enc (UpDone S_OK)) Cl ''/d/x.foo'' []
        \<lparr>compressionLevel = 5, encryptHeader = 0, solid = 1\<rparr> blank_ucb 2 arch_world = (Ret (E_ABORT, blank_ucb), w1)
    \<and> conns w1 = conns (emit Cl (error_wire 23460) arch_world) \<and> lookup (root (wfs w1)) [''d'', ''x.foo''] = Some (Reg a [])
    \<and> common_compress_logic (demo_lib 1 no_extract) (demo_enc (UpDone S_OK)) Cl ''/d/x.foo'' []
        \<lparr>compressionLevel = 5, encryptHeader = 0, solid = 1\<rparr> blank_ucb 2 w1 = (Ret (E_ABORT, blank_ucb), w2)
    \<and> conns w2 = conns (emit Cl (error_wire EEXIST) w1)"
proof -
  have n: "to_narrow (wcs (to_wide (demo_lib 1 no_extract) ''/d/x.foo'')) = ''/d/x.foo''" by code_simp
  have t: "out_type ''/d/x.foo'' 2 = Inl 23460" by code_simp
  have "posix_create (demo_enc (UpDone S_OK))" by (simp add: posix_create_def demo_enc_def)
  moreover have "lookup (root (wfs arch_world)) ([''d''] @ [''x.foo'']) = None" by (simp add: arch_world_def)
  moreover have "at_path (wfs arch_world) [''d''] (Dir attr0 [(''a.gz'', Reg attr0 gz_bytes), (''b.zip'', Reg attr0 zip_bytes)])"
    using demo_dir_at(1) by (simp add: demo_dir_def)
  ultimately show ?thesis
    using refused_type_leaves_file [of "demo_enc (UpDone S_OK)" arch_world "[''d'']" attr0 _ "''x.foo''" "''/d/x.foo''"
        "demo_lib 1 no_extract" 2 23460 Cl "[]" "\<lparr>compressionLevel = 5, encryptHeader = 0, solid = 1\<rparr>" blank_ucb] n t arch_world_wr
    by (simp add: good_name_def)
qed

definition demo_item :: dir_item where
  "demo_item = blank_item\<lparr>di_Size := 3, di_Name := [0x78], di_FullPath := [0x78]\<rparr>"

theorem unreadable_item_left_out_witness:
  "\<exists>x' w'. encode (demo_lib 1 no_extract) (demo_enc (UpCall (UpGetStream 0) (\<lambda>a. if b_status a = S_FALSE then UpDone S_OK else UpDone E_FAIL)))
        Cl [] no_options (blank_ucb\<lparr>u_source := DirItems [demo_item]\<rparr>) 1 ZIP (u_out blank_ucb) arch_world = (Ret (S_OK, x'), w')
    \<and> u_FailedFiles x' = [[0x78]]"
proof -
  let ?r = "UpCall (UpGetStream 0) (\<lambda>a. if b_status a = S_FALSE then UpDone S_OK else UpDone E_FAIL)"
  have e: "en_object (demo_enc ?r) ZIP = S_OK" "en_setprops (demo_enc ?r) ZIP = Some (\<lambda>ps. 0)" "set_options ZIP no_options (\<lambda>ps. 0) = 0"
    "en_openIn (demo_enc ?r) p = ret None" "en_update (demo_enc ?r) ZIP (archive_options ZIP no_options) (of_nat 1) = ?r" for p
    by (simp_all add: demo_enc_def set_options_def)
  have x: "u_source (blank_ucb\<lparr>u_source := DirItems [demo_item]\<rparr>) = DirItems [demo_item]"
    "u_DirPrefix (blank_ucb\<lparr>u_source := DirItems [demo_item]\<rparr>) = []" "di_FullPath demo_item = [0x78]" "\<not> isDir demo_item"
    by (simp_all add: blank_ucb_def demo_item_def blank_item_def isDir_def)
  have "wr Cl arch_world" using arch_world_wr by simp
  from unreadable_item_left_out [where i = 0 and k = "\<lambda>a. UpDone E_FAIL", OF e(1-3) this x(1) _ _ x(2) e(4) e(5),
      of "demo_lib 1 no_extract" "[]" "u_out blank_ucb" "[]"] x(3,4)
  show ?thesis by auto
qed

end
