(* ===== verification/RH_Service.thy ===== *)
theory RH_Service
  imports RH_Dispatch RH_CompressRun
begin

section \<open>Archive requests in a session\<close>

text \<open>
  The archive operations of \<open>RH_Archive\<close>, \<open>RH_Extract\<close>, \<open>RH_Compress\<close> as the services of the dispatcher: a request from
  its first byte to the next one, with the process that is forked for it.
\<close>

definition archive_services :: "services \<Rightarrow> sevenzip \<Rightarrow> encoder \<Rightarrow> xcb \<Rightarrow> ucb \<Rightarrow> services" where
  "archive_services S Z E junkX junkU =
     S\<lparr>sv_listArchive := listArchive Z, sv_compress := compressToArchive Z E junkU, sv_extract := extractFromArchive Z junkX 0\<rparr>"

lemma forked_round:
  assumes "control_code (request (request_of_byte b)) = c" and "c = ACTION_COMPRESS \<or> c = ACTION_EXTRACT" and "0 \<le> sv_fork S"
    and "(if c = ACTION_COMPRESS then sv_compress S else sv_extract S) cl (flags (request_of_byte b)) (feed cl bs w) = (r, w')"
  shows "session_round S cl () (feed cl (b # bs) w)
    = (Ret (Inl ()), (feed cl bs w)\<lparr>wfs := (wfs w')\<lparr>cwd := cwd (wfs w)\<rparr>, conns := conns w'\<rparr>)"
  using assms by (auto simp: session_round_def bnd_app read_Cons Let_def thn_app serveRequest_def forkP7ZipSession_def
      archive_operation_def ret_app)

text \<open>The session goes on after the request, in a process of which only the files and the connections have changed.\<close>

definition goes_on :: "world \<Rightarrow> (unit + unit) outcome \<times> world \<Rightarrow> bool" where
  "goes_on w r \<longleftrightarrow> fst r = Ret (Inl ()) \<and> cwd (wfs (snd r)) = cwd (wfs w)
     \<and> (snd r)\<lparr>wfs := wfs w, conns := conns w\<rparr> = w"

text \<open>A request with its first byte (for an extraction the byte carries the flags), and the answers to it.\<close>

datatype archive_request = ExtractRequest u8 extract_rq | CompressRequest compress_rq

definition request_wire :: "archive_request \<Rightarrow> byte list" where
  "request_wire q = (case q of
       ExtractRequest b rq \<Rightarrow> b # extract_wire (\<not> b2 (flags (request_of_byte b))) rq
     | CompressRequest rq \<Rightarrow> code_value ACTION_COMPRESS # compress_wire rq)"

definition request_fits :: "fs \<Rightarrow> archive_request \<Rightarrow> bool" where
  "request_fits f q \<longleftrightarrow> (case q of
       ExtractRequest b rq \<Rightarrow> control_code (request (request_of_byte b)) = ACTION_EXTRACT \<and> extract_rq_ok (flags (request_of_byte b)) rq
     | CompressRequest rq \<Rightarrow> compress_rq_ok rq
         \<and> (\<exists>cs n. at_path f cs n \<and> is_dir n \<and> wf_node n \<and> no_links n \<and> c_srcFolder rq = abs_path cs))"

definition answers :: "encoder \<Rightarrow> archive_request \<Rightarrow> byte list \<Rightarrow> bool" where
  "answers E q out \<longleftrightarrow> (case q of
       ExtractRequest b rq \<Rightarrow> (\<exists>outs. out = concat outs \<and> length outs = length (e_archives rq) \<and> (\<forall>x \<in> set outs. archive_answer x))
     | CompressRequest rq \<Rightarrow> compress_answer (may_abort E) out)"

lemma compress_code: "control_code (request (request_of_byte (code_value ACTION_COMPRESS))) = ACTION_COMPRESS"
    "flags (request_of_byte (code_value ACTION_COMPRESS)) = 0"
  by code_simp+

lemma served_round:
  assumes "control_code (request (request_of_byte b)) = c" and "c = ACTION_COMPRESS \<or> c = ACTION_EXTRACT" and "0 \<le> sv_fork S"
    and "(if c = ACTION_COMPRESS then sv_compress S else sv_extract S) h (flags (request_of_byte b)) (feed h bs w) = (r, w')"
    and "conns w' = conns (emit h out w)"
  shows "goes_on w (session_round S h () (feed h (b # bs) w))
    \<and> conns (snd (session_round S h () (feed h (b # bs) w))) = conns (emit h out w)"
  unfolding forked_round [OF assms(1-4)] goes_on_def using assms(5) by (cases w) (simp add: feed_def set_conn_def)



end
