(* ===== verification/RH_P7zip.thy ===== *)
theory RH_P7zip
  imports RH_Extract
begin

section \<open>The file functions that extraction uses\<close>

text \<open>
  The classes and functions of src/CPP/Windows (FileDir.cpp, FileFind.cpp, FileIO.cpp) and
  src/CPP/Common/StringConvert.cpp that are compiled into the executable and called by
  \<open>CArchiveExtractCallback\<close>, in the desktop build for Unix (src/CMAKE/RootHelper): \<open>ENV_UNIX\<close>, \<open>_UNICODE\<close>, \<open>UNIX_USE_WIN_FILE\<close>,
  \<open>ENV_HAVE_LSTAT\<close> with \<open>global_use_lstat = 1\<close>, and \<open>global_use_utf16_conversion = 0\<close>, which nothing in the program
  sets. (The build for Android defines \<open>LOCALE_IS_UTF8\<close>; there the names that are searched for are in UTF-8.) The creation
  of symbolic links after an extraction, which compares inodes, stays a parameter.
\<close>

unbundle bit_operations_syntax

subsection \<open>Names\<close>

definition nameWindowToUnix2 :: "wstr \<Rightarrow> string" where
  "nameWindowToUnix2 name = to_narrow name"

definition nameWindowToUnix :: "string \<Rightarrow> string" where
  "nameWindowToUnix lpFileName = (if take 2 lpFileName = ''c:'' then drop 2 lpFileName else lpFileName)"

fun pair_surrogates :: "wstr \<Rightarrow> wstr" where
  "pair_surrogates (c # d # cs) =
     (if 0xd800 \<le> c \<and> c \<le> 0xdbff \<and> 0xdc00 \<le> d \<and> d < 0xe000
      then ((push_bit 10 (c - 0xd800) OR (d - 0xdc00)) + 0x10000) # pair_surrogates cs
      else c # pair_surrogates (d # cs))"
| "pair_surrogates cs = cs"

text \<open>One byte for every character: a question mark for those above 255 (\<open>wchar_t\<close> is signed). The result is used as a C string.\<close>

definition one_byte :: "u32 \<Rightarrow> char" where
  "one_byte c = (if 0x100 \<le> c \<and> c \<le> 0x7fffffff then CHR ''?'' else char_of (unat c))"

definition UnicodeStringToMultiByte :: "wstr \<Rightarrow> string" where
  "UnicodeStringToMultiByte src = takeWhile (\<lambda>c. c \<noteq> CHR 0x00) (map one_byte (pair_surrogates (wcs src)))"

subsection \<open>Directories\<close>

definition CreateDir :: "wstr \<Rightarrow> bool io" where
  "CreateDir path =
     (if wcs path = [] then thn (set_errno ENOENT) (ret False)
      else io_update (sys_mkdir (nameWindowToUnix2 path) 448))"

lemma rfind_less: "ReverseFind_PathSepar p = Some n \<Longrightarrow> n < length p"
  by (auto simp: ReverseFind_PathSepar_def split: if_splits) (cases p; simp)

text \<open>
  The first loop of \<open>CreateComplexDir\<close>: towards the root, to a directory that exists or can be created; its
  length, or \<open>None\<close> for a return of \<open>false\<close>.
\<close>

function up_dirs :: "wstr \<Rightarrow> nat \<Rightarrow> nat option io" where
  "up_dirs pathName pos =
     bnd (CreateDir pathName) (\<lambda>ok.
     if ok then ret (Some pos)
     else bnd (get errno) (\<lambda>e.
       if e = EEXIST then ret (Some pos)
       else case ReverseFind_PathSepar pathName of
         None \<Rightarrow> ret None
       | Some n \<Rightarrow> if n = 0 then ret None
                   else if pathName ! (n - 1) = 0x3A then ret None
                   else up_dirs (take n pathName) n))"
  by pat_completeness auto
termination
  by (relation "measure (\<lambda>(p, n). length p)") (auto dest: rfind_less)

declare up_dirs.simps [simp del]

text \<open>The position of the next separator after \<open>pos\<close>, or the end.\<close>

definition next_sep :: "wstr \<Rightarrow> nat \<Rightarrow> nat" where
  "next_sep s pos = (if slash \<in> set (drop (Suc pos) s) then Suc pos + length (takeWhile (\<lambda>c. c \<noteq> slash) (drop (Suc pos) s)) else length s)"

lemma next_sep_gt: "pos < length s \<Longrightarrow> pos < next_sep s pos"
  by (simp add: next_sep_def)

function down_dirs :: "wstr \<Rightarrow> nat \<Rightarrow> bool io" where
  "down_dirs pathName pos =
     (if pos < length pathName then
        (let p = next_sep pathName pos in
         bnd (CreateDir (take p pathName)) (\<lambda>ok. if ok then down_dirs pathName p else ret False))
      else ret True)"
  by pat_completeness auto
termination
  by (relation "measure (\<lambda>(p, n). length p - n)") (auto intro: diff_less_mono2 next_sep_gt)

declare down_dirs.simps [simp del]

definition CreateComplexDir :: "wstr \<Rightarrow> bool io" where
  "CreateComplexDir aPathName =
     (let p = wcs aPathName;
          ends = (0 < length p - 1 \<and> ReverseFind_PathSepar p = Some (length p - 1)) in
      if ends \<and> length p = 3 \<and> p ! 1 = 0x3A then ret True
      else let pathName = (if ends then butlast p else p) in
        bnd (up_dirs pathName (length pathName)) (\<lambda>r. case r of
          None \<Rightarrow> ret False
        | Some pos \<Rightarrow> down_dirs pathName pos))"

definition DeleteFileAlways :: "wstr \<Rightarrow> bool io" where
  "DeleteFileAlways name =
     (if wcs name = [] then thn (set_errno ENOENT) (ret False) else io_update (sys_remove (nameWindowToUnix2 name)))"

subsection \<open>Finding a file\<close>

definition strip_slashes :: "string \<Rightarrow> string" where
  "strip_slashes p = rev (dropWhile (\<lambda>c. c = CHR ''/'') (rev p))"

lemma strip_less:
  assumes "find_last CHR ''/'' p = Some i" "\<not> Suc i < length p"
  shows "length (strip_slashes p) < length p"
proof -
  have i: "i < length p" "p ! i = CHR ''/''" using find_last_Some [OF assms(1)] by simp_all
  with assms(2) have "i = length p - 1" "p \<noteq> []" by auto
  with i have "last p = CHR ''/''" by (simp add: last_conv_nth)
  with \<open>p \<noteq> []\<close> have "p = butlast p @ ''/''" by (metis append_butlast_last_id)
  moreover have "strip_slashes (x @ ''/'') = strip_slashes x" "length (strip_slashes x) \<le> length x" for x
    using length_dropWhile_le [of "\<lambda>c. c = CHR ''/''" "rev x"] by (simp_all add: strip_slashes_def)
  ultimately have "length (strip_slashes p) \<le> length (butlast p)" by metis
  moreover have "length (butlast p) < length p" using \<open>p \<noteq> []\<close> by simp
  ultimately show ?thesis by simp
qed

function my_windows_split_path :: "string \<Rightarrow> string \<times> string" where
  "my_windows_split_path p_path =
     (case find_last CHR ''/'' p_path of
        None \<Rightarrow> (''.'', if p_path = [] then ''.'' else p_path)
      | Some pos \<Rightarrow>
          if Suc pos < length p_path then
            (let d = strip_slashes (take pos p_path) in (if d = [] then ''/'' else d, drop (Suc pos) p_path))
          else if strip_slashes p_path = [] then (''/'', ''/'')
          else my_windows_split_path (strip_slashes p_path))"
  by pat_completeness auto
termination
  by (relation "measure length") (auto dest: strip_less)

declare my_windows_split_path.simps [simp del]

text \<open>Matching with \<open>*\<close> and \<open>?\<close>; the case is respected.\<close>

fun filter_pattern :: "string \<Rightarrow> string \<Rightarrow> bool" where
  "filter_pattern [] pattern = (dropWhile (\<lambda>c. c = CHR ''*'') pattern = [])"
| "filter_pattern (c # string) [] = False"
| "filter_pattern (c # string) (q # pattern) =
     (if q = CHR ''*'' then filter_pattern string (q # pattern) \<or> filter_pattern (c # string) pattern
      else if q = CHR ''?'' then filter_pattern string pattern
      else q = c \<and> filter_pattern string pattern)"

definition ERROR_NO_MORE_FILES :: int where "ERROR_NO_MORE_FILES = 0x100018"
definition MAX_PATHNAME_LEN :: nat where "MAX_PATHNAME_LEN = 1024"

text \<open>\<open>fillin_CFileInfo\<close> for an entry of a directory; \<open>None\<close>: it throws.\<close>

definition entry_name_of :: "string \<Rightarrow> string \<Rightarrow> string" where
  "entry_name_of dir name = (if dir \<noteq> [] \<and> last dir = CHR ''/'' then butlast dir else dir) @ CHR ''/'' # name"

definition fillin_CFileInfo :: "string \<Rightarrow> string \<Rightarrow> bool option io" where
  "fillin_CFileInfo dir name =
     (if MAX_PATHNAME_LEN \<le> length dir + 1 + length name + 1 then ret None
      else bnd (io_query (sys_lstat (entry_name_of dir name))) (\<lambda>r. ret (if r = None then None else Some True)))"

definition FindFirst :: "wstr \<Rightarrow> bool option io" where
  "FindFirst cfWildcard =
     (let wildcard = UnicodeStringToMultiByte cfWildcard in
      if wildcard = [] then thn (set_errno ENOENT) (ret (Some False))
      else case my_windows_split_path (nameWindowToUnix wildcard) of (directory, pattern) \<Rightarrow>
        bnd (io_query (sys_listdir directory)) (\<lambda>r. case r of
          None \<Rightarrow> ret (Some False)
        | Some names \<Rightarrow>
            (case find (\<lambda>n. filter_pattern n pattern) names of
               None \<Rightarrow> thn (set_errno ERROR_NO_MORE_FILES) (ret (Some False))
             | Some n \<Rightarrow> fillin_CFileInfo directory n)))"

subsection \<open>Output files\<close>

text \<open>\<open>open(name, O_CREAT | O_WRONLY, 0666)\<close> less the bits of the umask: an existing file keeps its content.\<close>

definition open_creat :: "string \<Rightarrow> fs \<Rightarrow> (int + fd) \<times> fs" where
  "open_creat p f = (case sys_open_write False p f of
       (Inl e, f') \<Rightarrow> (Inl e, f')
     | (Inr d, f') \<Rightarrow> (Inr d, if lookup (root f) (fd_loc d) = None
         then f\<lparr>root := put_at (fd_loc d) (Reg (new_attr 438 f) []) (root f)\<rparr> else f'))"

definition raw_open :: "string \<Rightarrow> fd option io" where
  "raw_open name = (\<lambda>w. case open_creat name (wfs w) of
       (Inl e, f) \<Rightarrow> (Ret None, w\<lparr>wfs := f, errno := e\<rparr>)
     | (Inr d, f) \<Rightarrow> (Ret (Some d), w\<lparr>wfs := f\<rparr>))"

text \<open>\<open>CFileBase::Create\<close> for writing with \<open>CREATE_ALWAYS\<close>.\<close>

definition Create_out :: "wstr \<Rightarrow> fd option io" where
  "Create_out fileName =
     (let name = nameWindowToUnix (nameWindowToUnix2 fileName) in
      bnd (io_query (sys_readlink name)) (\<lambda>r.
      if r \<noteq> None \<and> r \<noteq> Some [] then
        bnd (io_update (sys_remove name)) (\<lambda>unlinked. if unlinked then ret None else raw_open name)
      else raw_open name))"

definition Write_out :: "fd \<Rightarrow> byte list \<Rightarrow> (hresult \<times> fd) io" where
  "Write_out d bs = (\<lambda>w. case sys_write d bs (wfs w) of (e, f) \<Rightarrow>
     if e = 0 then (Ret (S_OK, fd_advance (length bs) d), w\<lparr>wfs := f\<rparr>)
     else (Ret (E_FAIL, d), w\<lparr>wfs := f, errno := e\<rparr>))"

text \<open>
  The time is kept by \<open>SetMTime\<close> and set by \<open>Close\<close>, which the callback calls next. A time out of
  range leaves \<open>dw\<close> uninitialised (\<open>junk\<close>).
\<close>

definition RtlTimeToSecondsSince1970 :: "u64 \<Rightarrow> u32 option" where
  "RtlTimeToSecondsSince1970 t = (let tmp = t div 10000000 - 11644473600 in if 0xffffffff < tmp then None else Some (ucast tmp))"

definition SetMTime_out :: "u32 \<Rightarrow> fd \<Rightarrow> u64 \<Rightarrow> unit io" where
  "SetMTime_out junk d t =
     (let dw = (case RtlTimeToSecondsSince1970 t of None \<Rightarrow> junk | Some s \<Rightarrow> s) in
      bnd (io_update (sys_setattr SC_utimes (fd_path d) (\<lambda>a. a\<lparr>a_mtime := uint dw\<rparr>))) (\<lambda>_. ret ()))"

subsection \<open>Attributes\<close>

text \<open>Permissions of an item; a symbolic link is remembered, and made at the end.\<close>

definition chmod_masked :: "string \<Rightarrow> u32 \<Rightarrow> wstr list io" where
  "chmod_masked name mode =
     bnd (get (\<lambda>w. 0x1ff AND NOT (umask (wfs w)))) (\<lambda>mask.
     bnd (io_update (sys_setattr SC_chmod name (\<lambda>a. a\<lparr>a_mode := mode AND mask\<rparr>))) (\<lambda>_. ret []))"

definition SetFileAttrib :: "wstr \<Rightarrow> u32 \<Rightarrow> wstr list io" where
  "SetFileAttrib fileName fileAttributes =
     (let name = nameWindowToUnix2 fileName in
      bnd (io_query (sys_lstat name)) (\<lambda>r. case r of
        None \<Rightarrow> ret []
      | Some n \<Rightarrow>
          if fileAttributes AND 0x8000 \<noteq> 0 then
            (let mode = drop_bit 16 fileAttributes in
             if S_ISLNK mode then ret [fileName]
             else if S_ISREG mode then chmod_masked name mode
             else if S_ISDIR mode then chmod_masked name (mode OR 0x1c0)
             else ret [])
          else if is_lnk n then ret []
          else if is_dir n then chmod_masked name (st_mode n)
          else chmod_masked name (if fileAttributes AND 1 \<noteq> 0 then st_mode n AND NOT 0x92 else st_mode n)))"

text \<open>The functions as the library of the model uses them.\<close>

definition with_p7zip_files :: "sevenzip \<Rightarrow> sevenzip" where
  "with_p7zip_files Z = Z\<lparr>sz_createDir := \<lambda>p. bnd (CreateComplexDir p) (\<lambda>_. ret ()), sz_find := FindFirst,
     sz_delete := DeleteFileAlways, sz_openOut := Create_out, sz_writeOut := Write_out,
     sz_setMTime := SetMTime_out (sz_junk Z), sz_closeOut := \<lambda>d. ret S_OK, sz_setAttrib := SetFileAttrib\<rparr>"

end
