(* ===== verification/RH_P7zipRun.thy ===== *)
theory RH_P7zipRun
  imports RH_P7zip RH_Store
begin

section \<open>What the file functions of 7-Zip do\<close>

text \<open>
  On paths of ordinary names with nothing but directories on the way: \<open>CreateComplexDir\<close> creates every missing
  directory and changes nothing else, and \<open>FindFirst\<close> finds a name of ASCII characters without wildcards exactly if
  it is there.
\<close>

subsection \<open>Wide paths\<close>

primrec wide_abs :: "wstr list \<Rightarrow> wstr" where
  "wide_abs [] = []"
| "wide_abs (p # ps) = slash # p @ wide_abs ps"

text \<open>
  A name of Unicode characters, which is an ordinary name in its narrow form. \<open>CreateComplexDir\<close> gives up at
  a name that ends with a colon.
\<close>

definition wide_name :: "wstr \<Rightarrow> bool" where
  "wide_name p \<longleftrightarrow> (\<forall>c \<in> set p. scalar c \<and> c \<noteq> slash) \<and> good_name (to_narrow p) \<and> p \<noteq> [] \<and> last p \<noteq> 0x3A"

lemma wide_abs_append [simp]: "wide_abs (xs @ ys) = wide_abs xs @ wide_abs ys"
  by (induction xs) simp_all

lemma wide_abs_Nil [simp]: "wide_abs ps = [] \<longleftrightarrow> ps = []"
  by (cases ps) simp_all

lemma w2u_append: "\<forall>c \<in> set xs. scalar c \<Longrightarrow> w2u_loop 0 (xs @ ys) = w2u_loop 0 xs @ w2u_loop 0 ys"
  by (induction xs) (simp_all add: scalar_step del: w2u_loop.simps(2))

lemma narrow_append: "\<forall>c \<in> set xs. scalar c \<Longrightarrow> to_narrow (xs @ ys) = to_narrow xs @ to_narrow ys"
  by (simp add: to_narrow_def wchar_to_UTF8_def w2u_append b2s_def)

lemma scalar_slash: "scalar slash"
  by (simp add: scalar_def slash_def word_le_nat_alt)

lemma narrow_slash: "to_narrow [slash] = ''/''"
  by code_simp

lemma narrow_Nil [simp]: "to_narrow [] = []"
  by code_simp

lemma narrow_abs: "\<forall>p \<in> set ps. wide_name p \<Longrightarrow> to_narrow (wide_abs ps) = abs_path (map to_narrow ps)"
proof (induction ps)
  case Nil
  then show ?case by simp
next
  case (Cons p ps)
  then have p: "\<forall>c \<in> set p. scalar c" by (simp add: wide_name_def)
  have "to_narrow (slash # p @ wide_abs ps) = to_narrow [slash] @ to_narrow (p @ wide_abs ps)"
    using narrow_append [of "[slash]" "p @ wide_abs ps"] scalar_slash by simp
  with Cons p show ?case by (simp add: narrow_append narrow_slash)
qed

lemma good_narrow: "\<forall>p \<in> set ps. wide_name p \<Longrightarrow> \<forall>c \<in> set (map to_narrow ps). good_name c"
  by (auto simp: wide_name_def)

lemma wcs_id: "0 \<notin> set s \<Longrightarrow> wcs s = s"
  by (simp add: wcs_def takeWhile_eq_all_conv) (metis)

lemma wide_abs_scalar: "\<forall>p \<in> set ps. wide_name p \<Longrightarrow> \<forall>c \<in> set (wide_abs ps). scalar c"
  by (induction ps) (auto simp: wide_name_def scalar_slash)

lemma scalar_nonzero: "\<forall>c \<in> set s. scalar c \<Longrightarrow> 0 \<notin> set s"
  by (auto simp: scalar_def)

lemma wcs_abs: "\<forall>p \<in> set ps. wide_name p \<Longrightarrow> wcs (wide_abs ps) = wide_abs ps"
  by (intro wcs_id scalar_nonzero wide_abs_scalar)

lemma rfind_last: "slash \<notin> set p \<Longrightarrow> ReverseFind_PathSepar (s @ slash # p) = Some (length s)"
proof -
  assume p: "slash \<notin> set p"
  then have "takeWhile (\<lambda>c. c \<noteq> slash) (rev p @ slash # rev s) = rev p"
    by (simp add: takeWhile_append2 takeWhile_tail) (metis (mono_tags, lifting) set_rev takeWhile_append2 takeWhile.simps(2) append_Nil2)
  then show ?thesis by (simp add: ReverseFind_PathSepar_def)
qed

lemma rfind_none: "slash \<notin> set p \<Longrightarrow> ReverseFind_PathSepar p = None"
  by (simp add: ReverseFind_PathSepar_def)

subsection \<open>Creating the directories of a path\<close>

lemma walk_no_parent:
  assumes "\<forall>c \<in> set cs. good_name c" "lookup t cur \<noteq> None" "cs \<noteq> []" "lookup t (cur @ butlast cs) = None"
    and "\<forall>k < length cs. lookup t (cur @ take k cs) = None \<or> (\<exists>a es. lookup t (cur @ take k cs) = Some (Dir a es))"
  shows "walk fuel t follow cur cs = RErr ENOENT"
  using assms
proof (induction cs arbitrary: cur)
  case Nil
  then show ?case by simp
next
  case (Cons c cs)
  have c: "c \<noteq> ''.''" "c \<noteq> ''..''" using Cons.prems(1) by (simp_all add: good_name_def)
  have ne: "cs \<noteq> []" using Cons.prems(2,4) by auto
  show ?case
  proof (cases "lookup t (cur @ [c])")
    case None
    with c ne show ?thesis by simp
  next
    case (Some n)
    then obtain a es where d: "lookup t (cur @ [c]) = Some (Dir a es)"
      using Cons.prems(5) [rule_format, of 1] ne by (cases cs) auto
    have "walk fuel t follow (cur @ [c]) cs = RErr ENOENT"
    proof (rule Cons.IH)
      show "\<forall>k < length cs. lookup t ((cur @ [c]) @ take k cs) = None \<or> (\<exists>a es. lookup t ((cur @ [c]) @ take k cs) = Some (Dir a es))"
      proof (intro allI impI)
        fix k
        assume "k < length cs"
        then show "lookup t ((cur @ [c]) @ take k cs) = None \<or> (\<exists>a es. lookup t ((cur @ [c]) @ take k cs) = Some (Dir a es))"
          using Cons.prems(5) [rule_format, of "Suc k"] by simp
      qed
    qed (use Cons.prems ne d in auto)
    with c d show ?thesis by simp
  qed
qed

lemma mkdir_no_parent:
  assumes "no_faults f" "\<forall>c \<in> set cs. good_name c" "cs \<noteq> []" "way_free (root f) cs" "lookup (root f) (butlast cs) = None"
  shows "sys_mkdir (abs_path cs) mode f = (ENOENT, f)"
  using assms walk_no_parent [of cs "root f" "[]" 40 False]
  by (simp add: sys_mkdir_def no_faults_faulty resolve_def hd_abs_path split_path_abs way_free_def)

text \<open>\<open>CreateDir\<close> on a path with nothing but directories on the way.\<close>

lemma CreateDir_run:
  assumes "\<forall>p \<in> set ps. wide_name p" "ps \<noteq> []" "no_faults (wfs w)" "way_free (root (wfs w)) (map to_narrow ps)"
  shows "CreateDir (wide_abs ps) w = (let l = map to_narrow ps; t = root (wfs w) in
     if lookup t (butlast l) = None then (Ret False, w\<lparr>errno := ENOENT\<rparr>)
     else if lookup t l = None then (Ret True, w\<lparr>wfs := (wfs w)\<lparr>root := put_at l (Dir (new_attr 448 (wfs w)) []) t\<rparr>\<rparr>)
     else (Ret False, w\<lparr>errno := EEXIST\<rparr>))"
proof -
  have ne: "map to_narrow ps \<noteq> []" using assms(2) by simp
  note g = good_narrow [OF assms(1)]
  have c: "CreateDir (wide_abs ps) = io_update (sys_mkdir (abs_path (map to_narrow ps)) 448)"
    using assms(1,2) by (simp add: CreateDir_def wcs_abs nameWindowToUnix2_def narrow_abs)
  show ?thesis
  proof (cases "lookup (root (wfs w)) (butlast (map to_narrow ps)) = None")
    case True
    with mkdir_no_parent [OF assms(3) g ne assms(4)] show ?thesis
      by (simp add: c io_update_def Let_def ENOENT_def)
  next
    case False
    with mkdir_step [OF assms(3) g ne way_free_dirs_above [OF assms(4)]] show ?thesis
      by (auto simp: c io_update_def Let_def EEXIST_def)
  qed
qed

lemma wide_abs_take_rfind:
  assumes "\<forall>p \<in> set ps. wide_name p" "Suc k \<le> length ps"
  shows "ReverseFind_PathSepar (wide_abs (take (Suc k) ps)) = Some (length (wide_abs (take k ps)))"
    and "take (length (wide_abs (take k ps))) (wide_abs (take (Suc k) ps)) = wide_abs (take k ps)"
proof -
  have t: "take (Suc k) ps = take k ps @ [ps ! k]" using assms(2) by (simp add: take_Suc_conv_app_nth)
  have "ps ! k \<in> set ps" using assms(2) by simp
  then have "slash \<notin> set (ps ! k)" using assms(1) by (auto simp: wide_name_def)
  then show "ReverseFind_PathSepar (wide_abs (take (Suc k) ps)) = Some (length (wide_abs (take k ps)))"
    using rfind_last [of "ps ! k" "wide_abs (take k ps)"] by (simp add: t)
  show "take (length (wide_abs (take k ps))) (wide_abs (take (Suc k) ps)) = wide_abs (take k ps)"
    by (simp add: t)
qed

lemma wide_abs_last:
  assumes "\<forall>p \<in> set ps. wide_name p" "0 < k" "k \<le> length ps"
  shows "wide_abs ps ! (length (wide_abs (take k ps)) - 1) \<noteq> 0x3A"
proof -
  have "wide_abs ps = wide_abs (take k ps) @ wide_abs (drop k ps)" by (metis append_take_drop_id wide_abs_append)
  moreover have "wide_abs (take k ps) \<noteq> []" using assms(2,3) by auto
  ultimately have nth: "wide_abs ps ! (length (wide_abs (take k ps)) - 1) = wide_abs (take k ps) ! (length (wide_abs (take k ps)) - 1)"
    by (simp add: nth_append)
  obtain j where k: "k = Suc j" using assms(2) by (cases k) auto
  then have t: "take k ps = take j ps @ [ps ! j]" using assms(3) by (simp add: take_Suc_conv_app_nth)
  have "ps ! j \<in> set ps" using assms(3) k by simp
  then have "ps ! j \<noteq> []" "last (ps ! j) \<noteq> 0x3A" using assms(1) by (auto simp: wide_name_def)
  moreover from this have "last (wide_abs (take k ps)) = last (ps ! j)" "wide_abs (take k ps) \<noteq> []" by (simp_all add: t)
  ultimately show ?thesis unfolding nth by (metis last_conv_nth)
qed

lemma up_dirs_run:
  assumes names: "\<forall>p \<in> set ps. wide_name p" and nf: "no_faults (wfs w)" and way: "way_free (root (wfs w)) (map to_narrow ps)"
    and top: "lookup (root (wfs w)) (take 1 (map to_narrow ps)) \<noteq> None"
  shows "\<lbrakk>0 < k; k \<le> length ps; k < length ps \<longrightarrow> lookup (root (wfs w)) (take k (map to_narrow ps)) = None\<rbrakk> \<Longrightarrow>
    \<exists>j e t. up_dirs (wide_abs (take k ps)) (length (wide_abs (take k ps))) (w\<lparr>errno := e0\<rparr>)
        = (Ret (Some (length (wide_abs (take j ps)))), w\<lparr>errno := e, wfs := (wfs w)\<lparr>root := t\<rparr>\<rparr>)
      \<and> j \<le> k \<and> (\<forall>i \<le> j. lookup t (take i (map to_narrow ps)) \<noteq> None)
      \<and> (j < length ps \<longrightarrow> lookup t (take (Suc j) (map to_narrow ps)) = None)
      \<and> way_free t (map to_narrow ps) \<and> grown (map to_narrow ps) (root (wfs w)) t"
proof (induction k arbitrary: e0)
  case 0
  then show ?case by simp
next
  case (Suc k)
  let ?l = "map to_narrow ps" and ?t = "root (wfs w)" and ?p = "wide_abs (take (Suc k) ps)" and ?w = "w\<lparr>errno := e0\<rparr>"
  have names': "\<forall>p \<in> set (take (Suc k) ps). wide_name p" using names by (meson in_set_takeD)
  have ne: "take (Suc k) ps \<noteq> []" using Suc.prems by (cases ps) auto
  have tl: "map to_narrow (take (Suc k) ps) = take (Suc k) ?l" by (simp add: take_map)
  have bl: "butlast (take (Suc k) ?l) = take k ?l" using Suc.prems by (simp add: butlast_take)
  have "way_free (root (wfs ?w)) (map to_narrow (take (Suc k) ps))" unfolding tl using way_free_take [OF way] by simp
  note cd = CreateDir_run [OF names' ne _ this, unfolded tl bl Let_def]
  have above: "lookup ?t (take i ?l) \<noteq> None" if "i \<le> m" "lookup ?t (take m ?l) \<noteq> None" for i m
  proof -
    have "take m ?l = take i ?l @ take (m - i) (drop i ?l)" using that(1) by (metis le_add_diff_inverse take_add)
    with that(2) show ?thesis by (metis lookup_append option.case(1))
  qed
  have below: "lookup ?t (take m ?l) = None" if "i \<le> m" "lookup ?t (take i ?l) = None" for i m
    using above that by blast
  show ?case
  proof (cases "lookup ?t (take k ?l)")
    case None
    with top have k: "0 < k" "k \<noteq> 0" by (cases k; simp)+
    have "take k (take (Suc k) ps) = take k ps" by (simp add: min_def)
    then have colon: "?p ! (length (wide_abs (take k ps)) - 1) \<noteq> 0x3A"
      using wide_abs_last [OF names' k(1)] Suc.prems(2) by simp
    have up: "up_dirs ?p (length ?p) ?w = up_dirs (wide_abs (take k ps)) (length (wide_abs (take k ps))) (w\<lparr>errno := ENOENT\<rparr>)"
      using cd nf None k wide_abs_take_rfind [OF names Suc.prems(2)] colon ne
      by (subst up_dirs.simps) (simp add: bnd_app get_app ENOENT_def EEXIST_def)
    show ?thesis
      unfolding up using Suc.IH [of ENOENT] k Suc.prems None by fastforce
  next
    case (Some n)
    have all: "\<forall>i \<le> k. lookup ?t (take i ?l) \<noteq> None" using above [of _ k] Some by simp
    show ?thesis
    proof (cases "lookup ?t (take (Suc k) ?l)")
      case None
      let ?t' = "put_at (take (Suc k) ?l) (Dir (new_attr 448 (wfs w)) []) ?t"
      have step: "(\<forall>j \<le> Suc k. lookup ?t' (take j ?l) \<noteq> None) \<and> way_free ?t' ?l \<and> grown ?l ?t ?t'"
        using Suc.prems by (intro new_dir_step [OF way _ all None]) auto
      have up: "up_dirs ?p (length ?p) ?w = (Ret (Some (length ?p)), w\<lparr>errno := e0, wfs := (wfs w)\<lparr>root := ?t'\<rparr>\<rparr>)"
        using cd nf Some None by (subst up_dirs.simps) (simp add: bnd_app ret_app)
      have "lookup ?t' (take (Suc (Suc k)) ?l) = None" if lt: "Suc k < length ps"
      proof -
        obtain a es where "lookup ?t (butlast (take (Suc k) ?l)) = Some (Dir a es)"
          using way_free_dir [OF way, of k] Some bl lt by auto
        then have "lookup ?t' (take (Suc k) ?l) = Some (Dir (new_attr 448 (wfs w)) [])" by (rule lookup_put_same) simp
        moreover have "take (Suc (Suc k)) ?l = take (Suc k) ?l @ [?l ! Suc k]" using lt by (simp add: take_Suc_conv_app_nth)
        ultimately show ?thesis by (simp add: lookup_append)
      qed
      with up step show ?thesis by (intro exI [of _ "Suc k"] exI [of _ e0] exI [of _ ?t']) simp
    next
      case (Some m)
      then have full: "Suc k = length ps" using Suc.prems by auto
      have up: "up_dirs ?p (length ?p) ?w = (Ret (Some (length ?p)), w\<lparr>errno := EEXIST, wfs := (wfs w)\<lparr>root := ?t\<rparr>\<rparr>)"
        using cd nf all Some by (subst up_dirs.simps) (simp add: bnd_app ret_app get_app)
      with above [of _ "Suc k"] Some way full grown_refl show ?thesis
        by (intro exI [of _ "Suc k"] exI [of _ EEXIST] exI [of _ ?t]) simp
    qed
  qed
qed

lemma next_sep_abs:
  assumes "\<forall>p \<in> set ps. wide_name p" "k < length ps"
  shows "next_sep (wide_abs ps) (length (wide_abs (take k ps))) = length (wide_abs (take (Suc k) ps))"
proof -
  have d: "drop k ps = ps ! k # drop (Suc k) ps" using assms(2) by (simp add: Cons_nth_drop_Suc)
  have "ps ! k \<in> set ps" using assms(2) by simp
  then have ns: "slash \<notin> set (ps ! k)" using assms(1) by (auto simp: wide_name_def)
  have "wide_abs ps = wide_abs (take k ps) @ slash # ps ! k @ wide_abs (drop (Suc k) ps)"
    by (metis append_take_drop_id d wide_abs.simps(2) wide_abs_append)
  then have dr: "drop (Suc (length (wide_abs (take k ps)))) (wide_abs ps) = ps ! k @ wide_abs (drop (Suc k) ps)"
    and len: "length (wide_abs ps) = Suc (length (wide_abs (take k ps)) + length (ps ! k) + length (wide_abs (drop (Suc k) ps)))"
    by simp_all
  have t: "take (Suc k) ps = take k ps @ [ps ! k]" using assms(2) by (simp add: take_Suc_conv_app_nth)
  show ?thesis
  proof (cases "drop (Suc k) ps")
    case Nil
    with ns len show ?thesis by (simp add: next_sep_def dr t)
  next
    case (Cons q qs)
    have "takeWhile (\<lambda>c. c \<noteq> slash) (ps ! k @ slash # q @ wide_abs qs) = ps ! k"
      using ns by (simp add: takeWhile_append2 takeWhile_tail) (metis (mono_tags, lifting) append_Nil2 takeWhile.simps(2) takeWhile_append2)
    with Cons show ?thesis by (simp add: next_sep_def dr t)
  qed
qed

lemma take_wide_abs: "take (length (wide_abs (take k ps))) (wide_abs ps) = wide_abs (take k ps)"
  by (metis append_eq_conv_conj append_take_drop_id wide_abs_append)

lemma down_dirs_run:
  assumes names: "\<forall>p \<in> set ps. wide_name p"
  shows "\<lbrakk>j \<le> length ps; no_faults (wfs w); \<forall>i \<le> j. lookup (root (wfs w)) (take i (map to_narrow ps)) \<noteq> None;
      j < length ps \<longrightarrow> lookup (root (wfs w)) (take (Suc j) (map to_narrow ps)) = None;
      way_free (root (wfs w)) (map to_narrow ps)\<rbrakk> \<Longrightarrow>
    \<exists>e t. down_dirs (wide_abs ps) (length (wide_abs (take j ps))) w = (Ret True, w\<lparr>errno := e, wfs := (wfs w)\<lparr>root := t\<rparr>\<rparr>)
      \<and> lookup t (map to_narrow ps) \<noteq> None \<and> way_free t (map to_narrow ps) \<and> grown (map to_narrow ps) (root (wfs w)) t"
proof (induction "length ps - j" arbitrary: j w)
  case 0
  then have j: "j = length ps" by simp
  then have "down_dirs (wide_abs ps) (length (wide_abs (take j ps))) w
      = (Ret True, w\<lparr>errno := errno w, wfs := (wfs w)\<lparr>root := root (wfs w)\<rparr>\<rparr>)"
    by (subst down_dirs.simps) (simp add: ret_app)
  with 0 j grown_refl show ?case
    by (intro exI [of _ "errno w"] exI [of _ "root (wfs w)"]) (simp, metis length_map order_refl take_all)
next
  case (Suc m)
  let ?l = "map to_narrow ps" and ?t = "root (wfs w)"
  have lt: "j < length ps" using Suc.hyps(2) by simp
  let ?t' = "put_at (take (Suc j) ?l) (Dir (new_attr 448 (wfs w)) []) ?t"
  let ?w' = "w\<lparr>wfs := (wfs w)\<lparr>root := ?t'\<rparr>\<rparr>"
  have none: "lookup ?t (take (Suc j) ?l) = None" using Suc.prems lt by simp
  have names': "\<forall>p \<in> set (take (Suc j) ps). wide_name p" using names by (meson in_set_takeD)
  have ne: "take (Suc j) ps \<noteq> []" using lt by (cases ps) auto
  have tl: "map to_narrow (take (Suc j) ps) = take (Suc j) ?l" by (simp add: take_map)
  have bl: "butlast (take (Suc j) ?l) = take j ?l" using lt by (simp add: butlast_take)
  have "way_free ?t (map to_narrow (take (Suc j) ps))" unfolding tl by (rule way_free_take [OF Suc.prems(5)])
  note cd = CreateDir_run [OF names' ne Suc.prems(2) this, unfolded tl bl Let_def]
  have cd': "CreateDir (wide_abs (take (Suc j) ps)) w = (Ret True, ?w')"
    using cd none Suc.prems(3) by simp
  have step: "(\<forall>i \<le> Suc j. lookup ?t' (take i ?l) \<noteq> None) \<and> way_free ?t' ?l \<and> grown ?l ?t ?t'"
    using lt Suc.prems by (intro new_dir_step [OF Suc.prems(5) _ Suc.prems(3) none]) auto
  have next': "lookup ?t' (take (Suc (Suc j)) ?l) = None" if lt2: "Suc j < length ps"
  proof -
    obtain a es where "lookup ?t (butlast (take (Suc j) ?l)) = Some (Dir a es)"
      using way_free_dir [OF Suc.prems(5), of j] Suc.prems(3) bl lt by auto
    then have "lookup ?t' (take (Suc j) ?l) = Some (Dir (new_attr 448 (wfs w)) [])" by (rule lookup_put_same) simp
    moreover have "take (Suc (Suc j)) ?l = take (Suc j) ?l @ [?l ! Suc j]" using lt2 by (simp add: take_Suc_conv_app_nth)
    ultimately show ?thesis by (simp add: lookup_append)
  qed
  have pos: "length (wide_abs (take j ps)) < length (wide_abs ps)"
  proof -
    have "length (wide_abs ps) = length (wide_abs (take j ps)) + length (wide_abs (drop j ps))"
      by (metis append_take_drop_id length_append wide_abs_append)
    moreover have "wide_abs (drop j ps) \<noteq> []" using lt by simp
    ultimately show ?thesis by simp
  qed
  have d: "down_dirs (wide_abs ps) (length (wide_abs (take j ps))) w = down_dirs (wide_abs ps) (length (wide_abs (take (Suc j) ps))) ?w'"
    using pos cd' by (subst down_dirs.simps) (simp add: next_sep_abs [OF names lt] take_wide_abs bnd_app Let_def)
  have "\<exists>e t. down_dirs (wide_abs ps) (length (wide_abs (take (Suc j) ps))) ?w' = (Ret True, ?w'\<lparr>errno := e, wfs := (wfs ?w')\<lparr>root := t\<rparr>\<rparr>)
      \<and> lookup t ?l \<noteq> None \<and> way_free t ?l \<and> grown ?l (root (wfs ?w')) t"
  proof (rule Suc.hyps(1))
    show "m = length ps - Suc j" using Suc.hyps(2) by simp
    show "Suc j \<le> length ps" using lt by simp
    show "no_faults (wfs ?w')" using Suc.prems(2) by simp
    show "\<forall>i \<le> Suc j. lookup (root (wfs ?w')) (take i ?l) \<noteq> None" using step by simp
    show "Suc j < length ps \<longrightarrow> lookup (root (wfs ?w')) (take (Suc (Suc j)) ?l) = None" using next' by simp
    show "way_free (root (wfs ?w')) ?l" using step by simp
  qed
  then obtain e t where r: "down_dirs (wide_abs ps) (length (wide_abs (take (Suc j) ps))) ?w'
        = (Ret True, ?w'\<lparr>errno := e, wfs := (wfs ?w')\<lparr>root := t\<rparr>\<rparr>)"
      "lookup t ?l \<noteq> None" "way_free t ?l" "grown ?l (root (wfs ?w')) t"
    by blast
  have "grown ?l ?t t" using step r(4) by (auto intro: grown_trans)
  moreover have "?w'\<lparr>errno := e, wfs := (wfs ?w')\<lparr>root := t\<rparr>\<rparr> = w\<lparr>errno := e, wfs := (wfs w)\<lparr>root := t\<rparr>\<rparr>" by simp
  ultimately show ?case using d r(1-3) by (intro exI [of _ e] exI [of _ t]) simp
qed

text \<open>\<open>CreateComplexDir\<close> creates every missing directory of a path.\<close>

lemma CreateComplexDir_run:
  assumes names: "\<forall>p \<in> set ps. wide_name p" and ne: "ps \<noteq> []" and nf: "no_faults (wfs w)"
    and way: "way_free (root (wfs w)) (map to_narrow ps)"
    and top: "lookup (root (wfs w)) (take 1 (map to_narrow ps)) \<noteq> None"
    and here: "lookup (root (wfs w)) (map to_narrow ps) = None \<or> (\<exists>a es. lookup (root (wfs w)) (map to_narrow ps) = Some (Dir a es))"
  shows "\<exists>e t. CreateComplexDir (wide_abs ps) w = (Ret True, w\<lparr>errno := e, wfs := (wfs w)\<lparr>root := t\<rparr>\<rparr>)
    \<and> (\<exists>a es. lookup t (map to_narrow ps) = Some (Dir a es)) \<and> grown (map to_narrow ps) (root (wfs w)) t"
proof -
  let ?l = "map to_narrow ps"
  obtain qs q where ps: "ps = qs @ [q]" using ne by (cases ps rule: rev_cases) auto
  have q: "wide_name q" using names ps by simp
  then have "ReverseFind_PathSepar (wide_abs ps) = Some (length (wide_abs qs))"
    using rfind_last [of q "wide_abs qs"] by (auto simp: ps wide_name_def)
  moreover have "length (wide_abs qs) < length (wide_abs ps) - 1"
    using q by (cases q) (simp_all add: ps wide_name_def)
  ultimately have ends: "ReverseFind_PathSepar (wide_abs ps) \<noteq> Some (length (wide_abs ps) - 1)" by simp
  obtain j e t where up: "up_dirs (wide_abs ps) (length (wide_abs ps)) w
        = (Ret (Some (length (wide_abs (take j ps)))), w\<lparr>errno := e, wfs := (wfs w)\<lparr>root := t\<rparr>\<rparr>)"
    "j \<le> length ps" "\<forall>i \<le> j. lookup t (take i ?l) \<noteq> None" "j < length ps \<longrightarrow> lookup t (take (Suc j) ?l) = None"
    "way_free t ?l" "grown ?l (root (wfs w)) t"
    using up_dirs_run [OF names nf way top, of "length ps" "errno w"] ne by auto
  let ?w1 = "w\<lparr>errno := e, wfs := (wfs w)\<lparr>root := t\<rparr>\<rparr>"
  obtain e' t' where down: "down_dirs (wide_abs ps) (length (wide_abs (take j ps))) ?w1
      = (Ret True, ?w1\<lparr>errno := e', wfs := (wfs ?w1)\<lparr>root := t'\<rparr>\<rparr>)"
    "lookup t' ?l \<noteq> None" "way_free t' ?l" "grown ?l (root (wfs ?w1)) t'"
    using down_dirs_run [OF names up(2), of ?w1] up nf by auto
  have "CreateComplexDir (wide_abs ps) w = (Ret True, w\<lparr>errno := e', wfs := (wfs w)\<lparr>root := t'\<rparr>\<rparr>)"
    using ends up(1) down(1) names
    by (simp add: CreateComplexDir_def wcs_abs Let_def bnd_app)
  moreover have g: "grown ?l (root (wfs w)) t'" using up(6) down(4) by (auto intro: grown_trans)
  moreover have "\<exists>a es. lookup t' ?l = Some (Dir a es)"
    using here
  proof
    assume "lookup (root (wfs w)) ?l = None"
    with conjunct1 [OF g [unfolded grown_def], rule_format, of ?l] down(2) show ?thesis by simp
  next
    assume "\<exists>a es. lookup (root (wfs w)) ?l = Some (Dir a es)"
    then obtain a es where "lookup (root (wfs w)) ?l = Some (Dir a es)" by blast
    with g show ?thesis unfolding grown_def by (metis is_dir.simps(1))
  qed
  ultimately show ?thesis by blast
qed

subsection \<open>Finding a file by an ordinary name\<close>

text \<open>Names in ASCII without wildcards, which \<open>FindFirst\<close> treats like the other functions do.\<close>

definition plain_name :: "wstr \<Rightarrow> bool" where
  "plain_name p \<longleftrightarrow> wide_name p \<and> (\<forall>c \<in> set p. c < 0x80 \<and> c \<noteq> 0x2A \<and> c \<noteq> 0x3F)"

lemma plain_wide: "\<forall>p \<in> set ps. plain_name p \<Longrightarrow> \<forall>p \<in> set ps. wide_name p"
  by (simp add: plain_name_def)

lemma pair_scalar: "\<forall>c \<in> set s. scalar c \<Longrightarrow> pair_surrogates s = s"
  by (induction s rule: pair_surrogates.induct) (auto simp: scalar_def word_less_nat_alt word_le_nat_alt)

lemma one_byte_code:
  assumes "scalar c"
  shows "one_byte c = (if c < 0x100 then char_of (unat c) else CHR ''?'')"
    and "c < 0x100 \<Longrightarrow> (of_char (one_byte c) :: nat) = unat c"
proof -
  have "unat c \<le> 0x10ffff" using assms by (simp add: scalar_def word_le_nat_alt)
  then show "one_byte c = (if c < 0x100 then char_of (unat c) else CHR ''?'')"
    by (simp add: one_byte_def word_le_nat_alt word_less_nat_alt)
  then show "(of_char (one_byte c) :: nat) = unat c" if "c < 0x100"
    using that by (simp add: word_less_nat_alt)
qed

lemma one_byte_other:
  assumes "scalar c" "x \<noteq> CHR ''?''" "one_byte c = x"
  shows "unat c = of_char x"
  using assms one_byte_code [OF assms(1)] by (auto split: if_splits)

lemma multibyte_scalar:
  assumes "\<forall>c \<in> set s. scalar c"
  shows "UnicodeStringToMultiByte s = map one_byte s"
proof -
  have "one_byte c \<noteq> CHR 0x00" if c: "c \<in> set s" for c
  proof
    assume "one_byte c = CHR 0x00"
    with assms c have "unat c = of_char CHR 0x00" by (intro one_byte_other) simp_all
    with assms c show False by (simp add: scalar_def unat_eq_0)
  qed
  then have "takeWhile (\<lambda>c. c \<noteq> CHR 0x00) (map one_byte s) = map one_byte s" by (simp add: takeWhile_eq_all_conv)
  then show ?thesis using assms by (simp add: UnicodeStringToMultiByte_def wcs_id scalar_nonzero pair_scalar)
qed

lemma narrow_ascii: "\<forall>c \<in> set s. c \<noteq> 0 \<and> c < 0x80 \<Longrightarrow> to_narrow s = map (\<lambda>c. char_of (unat c)) s"
proof (induction s)
  case Nil
  then show ?case by simp
next
  case (Cons c s)
  then have c: "c \<noteq> 0" "c < 0x80" by simp_all
  then have "scalar c" by (simp add: scalar_def word_less_nat_alt word_le_nat_alt)
  then have "to_narrow (c # s) = b2s (utf8_bytes c) @ to_narrow s"
    by (simp add: to_narrow_def wchar_to_UTF8_def scalar_step b2s_def del: w2u_loop.simps(2))
  moreover have "utf8_bytes c = [ucast c]" using c(2) by (simp add: utf8_bytes_def word_less_nat_alt word_le_nat_alt)
  moreover have "unat (ucast c :: byte) = unat c" using c(2) by (intro ascii_byte) (simp add: word_less_nat_alt word_le_nat_alt)
  ultimately show ?case using Cons by (simp add: b2s_def)
qed

lemma one_byte_ascii: "\<forall>c \<in> set s. c \<noteq> 0 \<and> c < 0x80 \<Longrightarrow> map one_byte s = to_narrow s"
  by (simp add: narrow_ascii one_byte_def word_less_nat_alt word_le_nat_alt) (auto simp: word_less_nat_alt)

lemma plain_pattern: "\<lbrakk>CHR ''*'' \<notin> set p; CHR ''?'' \<notin> set p\<rbrakk> \<Longrightarrow> filter_pattern s p \<longleftrightarrow> s = p"
proof (induction s p rule: filter_pattern.induct)
  case (1 p)
  then show ?case by (cases p) auto
qed auto

lemma find_equal: "find (\<lambda>n. n = x) ns = (if x \<in> set ns then Some x else None)"
  by (induction ns) simp_all

lemma strip_no_slash: "p = [] \<or> last p \<noteq> CHR ''/'' \<Longrightarrow> strip_slashes p = p"
  by (cases p rule: rev_cases) (simp_all add: strip_slashes_def)

lemma last_abs_path: "\<lbrakk>\<forall>c \<in> set cs. good_name c; cs \<noteq> []\<rbrakk> \<Longrightarrow> last (abs_path cs) \<noteq> CHR ''/''"
proof -
  assume a: "\<forall>c \<in> set cs. good_name c" "cs \<noteq> []"
  then obtain ds d where cs: "cs = ds @ [d]" by (cases cs rule: rev_cases) auto
  with a have "d \<noteq> []" "last d \<in> set d" "CHR ''/'' \<notin> set d" by (simp_all add: good_name_def)
  moreover have "last (abs_path cs) = last d" using cs \<open>d \<noteq> []\<close> by simp
  ultimately show ?thesis by metis
qed

lemma split_abs_path:
  assumes "\<forall>c \<in> set cs. good_name c" "cs \<noteq> []" "CHR ''/'' \<notin> set nm" "nm \<noteq> []"
  shows "my_windows_split_path (abs_path (cs @ [nm])) = (abs_path cs, nm)"
proof -
  have "find_last CHR ''/'' (abs_path (cs @ [nm])) = Some (length (abs_path cs))"
    using find_last_append [OF assms(3), of "abs_path cs"] by simp
  moreover have "strip_slashes (abs_path cs) = abs_path cs"
    using assms last_abs_path [of cs] by (intro strip_no_slash) simp
  ultimately show ?thesis
    using assms(2,4) by (subst my_windows_split_path.simps) (simp add: Let_def)
qed

lemma nameWindowToUnix_abs: "cs \<noteq> [] \<Longrightarrow> nameWindowToUnix (abs_path cs) = abs_path cs"
  by (cases cs) (simp_all add: nameWindowToUnix_def)

lemma plain_narrow: "plain_name p \<Longrightarrow> map one_byte p = to_narrow p"
  by (intro one_byte_ascii) (auto simp: plain_name_def wide_name_def scalar_def)

lemma plain_abs: "\<forall>p \<in> set ps. plain_name p \<Longrightarrow> map one_byte (wide_abs ps) = abs_path (map to_narrow ps)"
proof (induction ps)
  case Nil
  then show ?case by simp
next
  case (Cons p ps)
  moreover have "one_byte slash = CHR ''/''" by code_simp
  ultimately show ?case by (simp add: plain_narrow)
qed

lemma plain_no_wildcard:
  assumes "plain_name p"
  shows "CHR ''*'' \<notin> set (to_narrow p)" "CHR ''?'' \<notin> set (to_narrow p)"
proof -
  have c: "c \<noteq> 0 \<and> c < 0x80 \<and> c \<noteq> 0x2A \<and> c \<noteq> 0x3F" if "c \<in> set p" for c
    using assms that by (auto simp: plain_name_def wide_name_def scalar_def)
  then have n: "to_narrow p = map (\<lambda>c. char_of (unat c)) p" by (intro narrow_ascii) simp
  have nw: "char_of (unat c) \<noteq> CHR ''*'' \<and> char_of (unat c) \<noteq> CHR ''?''" if "c \<in> set p" for c
  proof -
    have u: "unat c < 128" "unat c \<noteq> 42" "unat c \<noteq> 63" using c [OF that]
      by (auto simp: word_less_nat_alt word_unat_eq_iff)
    have k: "(of_char (char_of (unat c) :: char) :: nat) = unat c" using u(1) by simp
    have "(of_char CHR ''*'' :: nat) = 42" "(of_char CHR ''?'' :: nat) = 63" by simp_all
    with k u(2,3) show ?thesis by metis
  qed
  have "x \<noteq> CHR ''*'' \<and> x \<noteq> CHR ''?''" if x: "x \<in> set (to_narrow p)" for x
  proof -
    from x n obtain c where "x = char_of (unat c)" "c \<in> set p" by (metis imageE set_map)
    with nw show ?thesis by metis
  qed
  then show "CHR ''*'' \<notin> set (to_narrow p)" "CHR ''?'' \<notin> set (to_narrow p)" by blast+
qed

text \<open>\<open>FindFirst\<close> in a directory with an ordinary path: the first entry that matches the bytes of the name.\<close>

lemma FindFirst_pattern:
  assumes names: "\<forall>p \<in> set qs. plain_name p" "wide_name q" and ne: "qs \<noteq> []" and nf: "no_faults (wfs w)"
    and above: "dirs_above (root (wfs w)) (map to_narrow qs)"
    and dir: "lookup (root (wfs w)) (map to_narrow qs) = Some (Dir a es)"
  shows "FindFirst (wide_abs (qs @ [q])) w = (case find (\<lambda>n. filter_pattern n (map one_byte q)) ([''.'', ''..''] @ map fst es) of
      None \<Rightarrow> (Ret (Some False), w\<lparr>errno := ERROR_NO_MORE_FILES\<rparr>) | Some n \<Rightarrow> fillin_CFileInfo (abs_path (map to_narrow qs)) n w)"
proof -
  let ?l = "map to_narrow qs" and ?q = "map one_byte q"
  have good: "\<forall>c \<in> set ?l. good_name c" using good_narrow [OF plain_wide [OF names(1)]] .
  have nl: "?l \<noteq> []" using ne by simp
  have wide: "\<forall>p \<in> set (qs @ [q]). wide_name p" using plain_wide [OF names(1)] names(2) by simp
  have "one_byte slash = CHR ''/''" by code_simp
  then have u: "UnicodeStringToMultiByte (wide_abs (qs @ [q])) = abs_path (?l @ [?q])"
    using multibyte_scalar [OF wide_abs_scalar [OF wide]] plain_abs [OF names(1)] by simp
  have sl: "CHR ''/'' \<notin> set ?q"
  proof
    assume "CHR ''/'' \<in> set ?q"
    then obtain c where c: "c \<in> set q" "one_byte c = CHR ''/''" by auto
    then have "unat c = of_char CHR ''/''" using names(2) by (intro one_byte_other) (simp_all add: wide_name_def)
    then have "c = slash" by (simp add: slash_def word_unat_eq_iff)
    with c(1) names(2) show False unfolding wide_name_def by blast
  qed
  have qe: "?q \<noteq> []" using names(2) by (simp add: wide_name_def)
  have nw: "nameWindowToUnix (abs_path (?l @ [?q])) = abs_path (?l @ [?q])"
    using nl by (intro nameWindowToUnix_abs) simp
  have ls: "sys_listdir (abs_path ?l) (wfs w) = Inr ([''.'', ''..''] @ map fst es)"
    using good nf nl above dir by (intro at_path_listdir [of _ _ a]) (simp add: at_path_def)
  show ?thesis
    by (simp add: FindFirst_def u nw Let_def split_abs_path [OF good nl sl qe] bnd_app io_query_def ls thn_app ret_app
        set_errno_app del: abs_path_append wide_abs_append split: option.splits)
qed

text \<open>An ordinary name is found exactly if it exists.\<close>

lemma FindFirst_run:
  assumes names: "\<forall>p \<in> set (qs @ [q]). plain_name p" and ne: "qs \<noteq> []" and nf: "no_faults (wfs w)"
    and above: "dirs_above (root (wfs w)) (map to_narrow qs)"
    and dir: "lookup (root (wfs w)) (map to_narrow qs) = Some (Dir a es)"
  shows "FindFirst (wide_abs (qs @ [q])) w = (let l = map to_narrow (qs @ [q]) in
     if lookup (root (wfs w)) l = None then (Ret (Some False), w\<lparr>errno := ERROR_NO_MORE_FILES\<rparr>)
     else if MAX_PATHNAME_LEN \<le> length (abs_path l) + 1 then (Ret None, w)
     else (Ret (Some True), w))"
proof -
  let ?l = "map to_narrow qs" and ?q = "to_narrow q"
  have good: "\<forall>c \<in> set (?l @ [?q]). good_name c" using good_narrow [OF plain_wide [OF names]] by simp
  have nl: "?l \<noteq> []" using ne by simp
  have "filter_pattern n ?q \<longleftrightarrow> n = ?q" for n
    using plain_no_wildcard [of q] names by (intro plain_pattern) simp_all
  then have fd: "find (\<lambda>n. filter_pattern n ?q) ([''.'', ''..''] @ map fst es) = (if ?q \<in> set ([''.'', ''..''] @ map fst es) then Some ?q else None)"
    by (simp only: find_equal)
  have dots: "?q \<noteq> ''.''" "?q \<noteq> ''..''" using good by (simp_all add: good_name_def)
  have lk: "lookup (root (wfs w)) (?l @ [?q]) = map_of es ?q" using dir by (simp add: lookup_append split: option.splits)
  have mem: "?q \<in> set ([''.'', ''..''] @ map fst es) \<longleftrightarrow> lookup (root (wfs w)) (?l @ [?q]) \<noteq> None"
    using dots unfolding lk map_of_eq_None_iff by auto
  have ent: "entry_name_of (abs_path ?l) ?q = abs_path (?l @ [?q])"
    using last_abs_path [of ?l] good nl by (simp add: entry_name_of_def)
  have st: "sys_lstat (abs_path (?l @ [?q])) (wfs w) = Inr n" if "lookup (root (wfs w)) (?l @ [?q]) = Some n" for n
    using that resolve_plain_Found [OF good _ _ that, of False] above dir nf
    by (simp add: sys_lstat_def stat_gen_def no_faults_faulty dirs_above_snoc del: abs_path_append)
  have pat: "FindFirst (wide_abs (qs @ [q])) w = (case (if ?q \<in> set ([''.'', ''..''] @ map fst es) then Some ?q else None) of
      None \<Rightarrow> (Ret (Some False), w\<lparr>errno := ERROR_NO_MORE_FILES\<rparr>) | Some n \<Rightarrow> fillin_CFileInfo (abs_path ?l) n w)"
  proof -
    have "\<forall>p \<in> set qs. plain_name p" "wide_name q" "map one_byte q = ?q" using names plain_narrow [of q] by (simp_all add: plain_name_def)
    from FindFirst_pattern [OF this(1,2) ne nf above dir, unfolded this(3) fd] show ?thesis .
  qed
  moreover have "length (abs_path (?l @ [?q])) = Suc (length (abs_path ?l) + length ?q)" by simp
  ultimately show ?thesis
    unfolding mem using st
    by (auto simp: ret_app fillin_CFileInfo_def Let_def bnd_app io_query_def ent simp del: abs_path_append)
qed

end
