(* ===== verification/RH_ExtractRun.thy ===== *)
theory RH_ExtractRun
  imports RH_P7zipRun
begin

section \<open>What an extraction stores\<close>

text \<open>
  \<open>extractFromArchive\<close> with the file functions of \<open>RH_P7zip\<close>, for a library that calls back as
  src/CPP/7zip/Archive/IArchive.h documents it: for every item \<open>GetStream\<close>, \<open>PrepareOperation\<close>, the writes
  if it was given a stream, and \<open>SetOperationResult\<close>.
\<close>

subsection \<open>The calls of the library\<close>

datatype part = PWrite "byte list" | PProgress u64

definition content :: "part list \<Rightarrow> byte list" where
  "content ds = concat (map (\<lambda>d. case d of PWrite bs \<Rightarrow> bs | PProgress v \<Rightarrow> []) ds)"

definition progress_only :: "part list \<Rightarrow> part list" where
  "progress_only ds = filter (\<lambda>d. case d of PWrite bs \<Rightarrow> False | PProgress v \<Rightarrow> True) ds"

primrec ex_parts :: "part list \<Rightarrow> ex_run \<Rightarrow> ex_run" where
  "ex_parts [] k = k"
| "ex_parts (d # ds) k =
     ExCall (case d of PWrite bs \<Rightarrow> CbWrite bs | PProgress v \<Rightarrow> CbSetCompleted v)
       (\<lambda>a. if a_status a = Some S_OK then ex_parts ds k else ExDone E_FAIL)"

text \<open>An item: its index, the names of its path and what is written.\<close>

type_synonym entry = "u32 \<times> wstr list \<times> part list"

fun ex_entry :: "entry \<Rightarrow> ex_run \<Rightarrow> ex_run" where
  "ex_entry (i, ps, ds) k =
     ExCall (CbGetStream i kExtract) (\<lambda>a.
       if a_status a \<noteq> Some S_OK then ExDone E_FAIL
       else ExCall (CbPrepareOperation kExtract) (\<lambda>b.
         ex_parts (if a_stream a then ds else progress_only ds)
           (ExCall (CbSetOperationResult kOK) (\<lambda>c. if a_status c = Some S_OK then k else ExDone E_FAIL))))"

definition ex_entries :: "u64 \<Rightarrow> entry list \<Rightarrow> ex_run" where
  "ex_entries tot es = ExCall (CbSetTotal tot) (\<lambda>a. foldr ex_entry es (ExDone S_OK))"

subsection \<open>The items\<close>

text \<open>What the archive tells about an item, other than a symbolic link.\<close>

definition no_link :: "xcb \<Rightarrow> bool" where
  "no_link x \<longleftrightarrow> (x_AttribDefined x \<longrightarrow> x_Attrib x AND 0x8000 \<noteq> 0 \<longrightarrow> \<not> S_ISLNK (drop_bit 16 (x_Attrib x)))"

definition described :: "in_archive \<Rightarrow> u32 \<Rightarrow> bool" where
  "described A i \<longleftrightarrow> (case item_info A i blank_xcb of Inl r \<Rightarrow> False | Inr x \<Rightarrow> no_link x)"

fun entry_named :: "in_archive \<Rightarrow> u32 \<Rightarrow> entry \<Rightarrow> bool" where
  "entry_named A n (i, ps, ds) \<longleftrightarrow> ps \<noteq> [] \<and> (\<forall>p \<in> set ps. wide_name p) \<and> described A i
     \<and> (case ar_prop A i kpidPath of
          (r, VT_BSTR s) \<Rightarrow> r = S_OK \<and> 0 \<notin> set s \<and> unat n \<le> length s \<and> drop (unat n) s = tl (wide_abs ps)
        | _ \<Rightarrow> False)"

definition entry_ok :: "in_archive \<Rightarrow> u32 \<Rightarrow> entry \<Rightarrow> bool" where
  "entry_ok A n e \<longleftrightarrow> entry_named A n e \<and> (\<forall>p \<in> set (fst (snd e)). plain_name p)"

fun entry_item :: "in_archive \<Rightarrow> wstr list \<Rightarrow> entry \<Rightarrow> item" where
  "entry_item A pcs (i, ps, ds) =
     (let p = abs_path (map to_narrow (pcs @ ps)) in
      if IsArchiveItemFolder A i = Inr True then ItemDir p else ItemFile p (content ds))"

lemma item_info_shape:
  assumes "item_info A i x = Inr b"
  obtains p d t z where "ar_prop A i kpidAttrib = (S_OK, p)" "p = VT_EMPTY \<or> (\<exists>v. p = VT_UI4 v)"
    "IsArchiveItemFolder A i = Inr d" "ar_prop A i kpidMTime = (S_OK, t)" "t = VT_EMPTY \<or> (\<exists>v. t = VT_FILETIME v)"
    "ar_prop A i kpidSize = (S_OK, z)" "\<And>y y'. (case z of VT_UI8 v \<Rightarrow> Inr y | VT_UI4 v \<Rightarrow> Inr y | VT_UI2 v \<Rightarrow> Inr y
                            | VT_UI1 v \<Rightarrow> Inr y | VT_EMPTY \<Rightarrow> Inr y | _ \<Rightarrow> Inl (None, y')) = (Inr y :: (hresult option \<times> xcb) + xcb)"
proof -
  obtain r p where a: "ar_prop A i kpidAttrib = (r, p)" by fastforce
  obtain r' t where m: "ar_prop A i kpidMTime = (r', t)" by fastforce
  obtain r'' z where n: "ar_prop A i kpidSize = (r'', z)" by fastforce
  have 1: "r = S_OK" using assms a by (simp add: item_info_def split: if_splits)
  have 2: "p = VT_EMPTY \<or> (\<exists>v. p = VT_UI4 v)" using assms a 1 by (cases p) (simp_all add: item_info_def)
  obtain d where 3: "IsArchiveItemFolder A i = Inr d"
    using assms a 1 2 by (cases "IsArchiveItemFolder A i") (auto simp: item_info_def)
  have 4: "r' = S_OK" using assms a m 1 2 3 by (auto simp: item_info_def Let_def split: if_splits)
  have 5: "t = VT_EMPTY \<or> (\<exists>v. t = VT_FILETIME v)" using assms a m 1 2 3 4 by (cases t) (auto simp: item_info_def Let_def)
  have 6: "r'' = S_OK" using assms a m n 1 2 3 4 5 by (auto simp: item_info_def Let_def split: if_splits)
  have 7: "(case z of VT_UI8 v \<Rightarrow> Inr y | VT_UI4 v \<Rightarrow> Inr y | VT_UI2 v \<Rightarrow> Inr y
            | VT_UI1 v \<Rightarrow> Inr y | VT_EMPTY \<Rightarrow> Inr y | _ \<Rightarrow> Inl (None, y')) = (Inr y :: (hresult option \<times> xcb) + xcb)" for y y'
    using assms a m n 1 2 3 4 5 6 by (cases z) (auto simp: item_info_def Let_def)
  show ?thesis using that a m n 1 2 3 4 5 6 7 by blast
qed

lemma item_info_blank:
  assumes "item_info A i blank_xcb = Inr b"
  shows "item_info A i x = Inr (x\<lparr>x_Attrib := x_Attrib b, x_AttribDefined := x_AttribDefined b, x_isDir := x_isDir b,
           x_MTime := if x_MTimeDefined b then x_MTime b else x_MTime x, x_MTimeDefined := x_MTimeDefined b\<rparr>)"
    and "IsArchiveItemFolder A i = Inr (x_isDir b)"
proof -
  obtain p d t z where s: "ar_prop A i kpidAttrib = (S_OK, p)" "p = VT_EMPTY \<or> (\<exists>v. p = VT_UI4 v)"
    "IsArchiveItemFolder A i = Inr d" "ar_prop A i kpidMTime = (S_OK, t)" "t = VT_EMPTY \<or> (\<exists>v. t = VT_FILETIME v)"
    "ar_prop A i kpidSize = (S_OK, z)" "\<And>y y'. (case z of VT_UI8 v \<Rightarrow> Inr y | VT_UI4 v \<Rightarrow> Inr y | VT_UI2 v \<Rightarrow> Inr y
                            | VT_UI1 v \<Rightarrow> Inr y | VT_EMPTY \<Rightarrow> Inr y | _ \<Rightarrow> Inl (None, y')) = (Inr y :: (hresult option \<times> xcb) + xcb)"
    using item_info_shape [OF assms] by metis
  then have i: "item_info A i y = Inr ((case p of VT_UI4 v \<Rightarrow> y\<lparr>x_Attrib := v, x_AttribDefined := True\<rparr>
                                        | _ \<Rightarrow> y\<lparr>x_Attrib := 0, x_AttribDefined := False\<rparr>)
        \<lparr>x_isDir := d, x_MTimeDefined := t \<noteq> VT_EMPTY, x_MTime := (case t of VT_FILETIME v \<Rightarrow> v | _ \<Rightarrow> x_MTime y)\<rparr>)" for y
    by (auto simp: item_info_def Let_def)
  then have b: "b = (case p of VT_UI4 v \<Rightarrow> blank_xcb\<lparr>x_Attrib := v, x_AttribDefined := True\<rparr>
                                        | _ \<Rightarrow> blank_xcb\<lparr>x_Attrib := 0, x_AttribDefined := False\<rparr>)
        \<lparr>x_isDir := d, x_MTimeDefined := t \<noteq> VT_EMPTY, x_MTime := (case t of VT_FILETIME v \<Rightarrow> v | _ \<Rightarrow> x_MTime blank_xcb)\<rparr>"
    using assms by simp
  show "item_info A i x = Inr (x\<lparr>x_Attrib := x_Attrib b, x_AttribDefined := x_AttribDefined b, x_isDir := x_isDir b,
           x_MTime := if x_MTimeDefined b then x_MTime b else x_MTime x, x_MTimeDefined := x_MTimeDefined b\<rparr>)"
    unfolding i b using s(2,5) by (auto simp: blank_xcb_def)
  show "IsArchiveItemFolder A i = Inr (x_isDir b)"
    unfolding b using s(2,3) by auto
qed

lemma tl_wide_abs: "ps \<noteq> [] \<Longrightarrow> slash # tl (wide_abs ps) = wide_abs ps"
  by (cases ps) simp_all

lemma rfind_tl:
  assumes "\<forall>p \<in> set (ps @ [q]). wide_name p"
  shows "ReverseFind_PathSepar (tl (wide_abs (ps @ [q]))) = (if ps = [] then None else Some (length (tl (wide_abs ps))))"
proof (cases ps)
  case Nil
  then show ?thesis using assms by (auto simp: wide_name_def intro: rfind_none)
next
  case (Cons p ps')
  moreover have "slash \<notin> set q" using assms by (auto simp: wide_name_def)
  ultimately show ?thesis using rfind_last [of q "p @ wide_abs ps'"] by simp
qed

lemma entry_full_path:
  assumes "entry_named A n (i, ps, ds)"
  shows "\<exists>s. full_path A x i = Inr s \<and> strip_subdir n s = tl (wide_abs ps)"
proof -
  obtain s where s: "ar_prop A i kpidPath = (S_OK, VT_BSTR s)" "0 \<notin> set s" "unat n \<le> length s" "drop (unat n) s = tl (wide_abs ps)"
    using assms by (auto split: prod.splits variant.splits)
  have "tl (wide_abs ps) \<noteq> []"
    using assms by (cases ps) (auto simp: wide_name_def)
  with s(4) have "s \<noteq> []" by auto
  with s have "full_path A x i = Inr s" by (simp add: full_path_def wcs_id)
  moreover have "strip_subdir n s = tl (wide_abs ps)"
    using s(3,4) by (auto simp: strip_subdir_def)
  ultimately show ?thesis by blast
qed

text \<open>The callbacks between two items.\<close>

definition between :: "wstr list \<Rightarrow> u32 \<Rightarrow> xcb \<Rightarrow> bool" where
  "between pcs n x \<longleftrightarrow> x_directoryPath x = wide_abs pcs @ [slash] \<and> x_subDirLength x = n \<and> x_latest x = kOK \<and> x_delayedSymLinks x = []"

text \<open>An item being extracted.\<close>

definition during :: "wstr list \<Rightarrow> u32 \<Rightarrow> wstr list \<Rightarrow> bool \<Rightarrow> xcb \<Rightarrow> bool" where
  "during pcs n ps d x \<longleftrightarrow> between pcs n x \<and> x_diskFilePath x = wide_abs (pcs @ ps) \<and> x_isDir x = d \<and> no_link x"

lemma storable_place:
  assumes "storable t it" "item_path it = abs_path l" "\<forall>c \<in> set l. good_name c"
  shows "item_loc it = l" "2 \<le> length l" "way_free t l" "lookup t (take 1 l) \<noteq> None" "is_file_item it \<Longrightarrow> lookup t l = None"
    "lookup t l = None \<or> (\<exists>a es. lookup t l = Some (Dir a es))"
proof -
  show l: "item_loc it = l" using assms(2,3) by (simp add: item_loc_def split_path_abs)
  show "2 \<le> length l" "way_free t l" "is_file_item it \<Longrightarrow> lookup t l = None"
    "lookup t l = None \<or> (\<exists>a es. lookup t l = Some (Dir a es))"
    using assms(1) l by (cases it; auto simp: storable_def Let_def)+
  show "lookup t (take 1 l) \<noteq> None" using assms(1) l by (cases l) (auto simp: storable_def Let_def)
qed

lemma raw_open_new:
  assumes "no_faults (wfs w)" "\<forall>c \<in> set l. good_name c" "l \<noteq> []" "dirs_above (root (wfs w)) l" "lookup (root (wfs w)) l = None"
  shows "raw_open (abs_path l) w = (Ret (Some \<lparr>fd_path = abs_path l, fd_loc = l, fd_pos = 0\<rparr>),
      w\<lparr>wfs := (wfs w)\<lparr>root := put_at l (Reg (new_attr 438 (wfs w)) []) (root (wfs w))\<rparr>\<rparr>)"
  using assms resolve_plain_Missing [OF assms(2-5), of True]
  by (simp add: raw_open_def open_creat_def sys_open_write_def no_faults_faulty)

lemma Create_out_new:
  assumes "no_faults (wfs w)" "\<forall>p \<in> set ps. wide_name p" "ps \<noteq> []" "l = map to_narrow ps"
    "dirs_above (root (wfs w)) l" "lookup (root (wfs w)) l = None"
  shows "Create_out (wide_abs ps) w = (Ret (Some \<lparr>fd_path = abs_path l, fd_loc = l, fd_pos = 0\<rparr>),
      w\<lparr>errno := ENOENT, wfs := (wfs w)\<lparr>root := put_at l (Reg (new_attr 438 (wfs w)) []) (root (wfs w))\<rparr>\<rparr>)"
proof -
  have g: "\<forall>c \<in> set l. good_name c" using good_narrow [OF assms(2)] assms(4) by simp
  have ne: "l \<noteq> []" using assms(3,4) by simp
  have nm: "nameWindowToUnix (nameWindowToUnix2 (wide_abs ps)) = abs_path l"
    using narrow_abs [OF assms(2)] assms(4) ne by (simp add: nameWindowToUnix2_def nameWindowToUnix_abs)
  have "sys_readlink (abs_path l) (wfs w) = Inl ENOENT"
    using resolve_plain_Missing [OF g ne assms(5,6)] assms(1) by (simp add: sys_readlink_def stat_gen_def no_faults_faulty)
  then show ?thesis
    using raw_open_new [of "w\<lparr>errno := ENOENT\<rparr>" l] assms(1,5,6) g ne
    by (simp add: Create_out_def nm Let_def bnd_app io_query_def upd_order)
qed

lemma way_free_grown: "\<lbrakk>way_free t l; grown cs t t'\<rbrakk> \<Longrightarrow> way_free t' l"
  unfolding way_free_def grown_def by (metis is_dir.simps(1))

lemma none_grown:
  assumes "lookup t l = None" "l \<noteq> []" "grown (butlast l) t t'"
  shows "lookup t' l = None"
proof -
  have "take (length l) (butlast l) \<noteq> l"
  proof
    assume "take (length l) (butlast l) = l"
    then have "length l = length (take (length l) (butlast l))" by simp
    with assms(2) show False by (cases l) (simp_all split: if_splits)
  qed
  with conjunct1 [OF assms(3) [unfolded grown_def], rule_format, OF assms(1)] show ?thesis by simp
qed

lemma grown_butlast:
  assumes "grown (butlast l) t t'"
  shows "grown l t t'"
proof -
  have "take (length ys) l = ys" if "take (length ys) (butlast l) = ys" for ys :: "string list"
    using that by (metis append_butlast_last_id append_take_drop_id butlast.simps(1) take_append_len append_assoc)
  with assms show ?thesis unfolding grown_def by metis
qed

lemma p7zip_files [simp]:
  "sz_createDir (with_p7zip_files Z) p = bnd (CreateComplexDir p) (\<lambda>_. ret ())" "sz_find (with_p7zip_files Z) = FindFirst"
  "sz_delete (with_p7zip_files Z) = DeleteFileAlways" "sz_openOut (with_p7zip_files Z) = Create_out"
  "sz_writeOut (with_p7zip_files Z) = Write_out" "sz_setMTime (with_p7zip_files Z) = SetMTime_out (sz_junk Z)"
  "sz_closeOut (with_p7zip_files Z) d = ret S_OK" "sz_setAttrib (with_p7zip_files Z) = SetFileAttrib"
  "sz_junk (with_p7zip_files Z) = sz_junk Z" "to_wide (with_p7zip_files Z) = to_wide Z"
  by (simp_all add: with_p7zip_files_def to_wide_def fun_eq_iff)

text \<open>The directory of an item.\<close>

lemma parent_created:
  assumes names: "\<forall>p \<in> set (pcs @ qs @ [q]). wide_name p" and ne: "pcs \<noteq> []" and nf: "no_faults (wfs w)"
    and way: "way_free (root (wfs w)) (map to_narrow (pcs @ qs @ [q]))"
    and top: "lookup (root (wfs w)) (take 1 (map to_narrow (pcs @ qs @ [q]))) \<noteq> None"
    and dest: "lookup (root (wfs w)) (map to_narrow pcs) = Some (Dir a0 es0)"
  shows "\<exists>e t b bs. (case ReverseFind_PathSepar (tl (wide_abs (qs @ [q]))) of None \<Rightarrow> ret ()
        | Some n \<Rightarrow> sz_createDir (with_p7zip_files Z) ((wide_abs pcs @ [slash]) @ take n (tl (wide_abs (qs @ [q]))))) w
      = (Ret (), w\<lparr>errno := e, wfs := (wfs w)\<lparr>root := t\<rparr>\<rparr>)
    \<and> lookup t (map to_narrow (pcs @ qs)) = Some (Dir b bs) \<and> grown (map to_narrow (pcs @ qs)) (root (wfs w)) t"
proof (cases "qs = []")
  case True
  then show ?thesis
    using rfind_tl [of qs q] names dest grown_refl
    by (intro exI [of _ "errno w"] exI [of _ "root (wfs w)"] exI [of _ a0] exI [of _ es0]) (simp add: ret_app)
next
  case False
  let ?ps = "pcs @ qs" and ?l = "map to_narrow (pcs @ qs @ [q])"
  have tk: "map to_narrow ?ps = take (length ?ps) ?l" by simp
  have way': "way_free (root (wfs w)) (map to_narrow ?ps)" unfolding tk by (rule way_free_take [OF way])
  have top': "lookup (root (wfs w)) (take 1 (map to_narrow ?ps)) \<noteq> None" using top ne by (cases pcs) simp_all
  have here: "lookup (root (wfs w)) (map to_narrow ?ps) = None \<or> (\<exists>a es. lookup (root (wfs w)) (map to_narrow ?ps) = Some (Dir a es))"
    using way [unfolded way_free_def, rule_format, of "length ?ps"] unfolding tk by simp
  have "\<forall>p \<in> set ?ps. wide_name p" "?ps \<noteq> []" using names ne by simp_all
  from CreateComplexDir_run [OF this nf way' top' here] obtain e t where
    c: "CreateComplexDir (wide_abs ?ps) w = (Ret True, w\<lparr>errno := e, wfs := (wfs w)\<lparr>root := t\<rparr>\<rparr>)"
    "\<exists>a es. lookup t (map to_narrow ?ps) = Some (Dir a es)" "grown (map to_narrow ?ps) (root (wfs w)) t" by blast
  have "tl (wide_abs (qs @ [q])) = tl (wide_abs qs) @ slash # q" using False by (cases qs) simp_all
  then have "take (length (tl (wide_abs qs))) (tl (wide_abs (qs @ [q]))) = tl (wide_abs qs)" by simp
  then have "(wide_abs pcs @ [slash]) @ take (length (tl (wide_abs qs))) (tl (wide_abs (qs @ [q]))) = wide_abs ?ps"
    using tl_wide_abs [OF False] by (simp only: append_assoc append_Cons append_Nil wide_abs_append)
  with c rfind_tl [of qs q] names False show ?thesis
    by (auto simp: bnd_app ret_app)
qed

text \<open>\<open>GetStream\<close> up to the creation of the directory or file itself.\<close>

lemma GetStream_prefix:
  assumes ok: "entry_named A n (i, ps, ds)" and x: "between pcs n x"
  shows "\<exists>x3 d. GetStream Z A i kExtract x = thn (case ReverseFind_PathSepar (tl (wide_abs ps)) of None \<Rightarrow> ret ()
        | Some n \<Rightarrow> sz_createDir Z ((wide_abs pcs @ [slash]) @ take n (tl (wide_abs ps))))
      (if d then thn (sz_createDir Z (wide_abs (pcs @ ps))) (ret (Some S_OK, False, x3)) else open_output Z (wide_abs (pcs @ ps)) x3)
    \<and> (\<forall>y. during pcs n ps d (x3\<lparr>x_outFileStream := y\<rparr>)) \<and> during pcs n ps d x3 \<and> x_outFileStream x3 = None
    \<and> IsArchiveItemFolder A i = Inr d"
proof -
  let ?x = "x\<lparr>x_outFileStream := None\<rparr>"
  have ps: "ps \<noteq> []" using ok by simp
  obtain s where s: "full_path A ?x i = Inr s" "strip_subdir n s = tl (wide_abs ps)" using entry_full_path [OF ok] by blast
  obtain b where b: "item_info A i blank_xcb = Inr b" "no_link b"
    using ok by (auto simp: described_def split: sum.splits)
  note info = item_info_blank [OF b(1)]
  let ?x1 = "?x\<lparr>x_filePath := tl (wide_abs ps)\<rparr>"
  define x2 where "x2 = ?x1\<lparr>x_Attrib := x_Attrib b, x_AttribDefined := x_AttribDefined b, x_isDir := x_isDir b,
           x_MTime := if x_MTimeDefined b then x_MTime b else x_MTime ?x1, x_MTimeDefined := x_MTimeDefined b\<rparr>"
  have i2: "item_info A i ?x1 = Inr x2" unfolding x2_def by (rule info(1))
  have x2: "x_directoryPath x2 = wide_abs pcs @ [slash]" "x_filePath x2 = tl (wide_abs ps)" "x_isDir x2 = x_isDir b"
    using x by (simp_all add: x2_def between_def)
  have full: "x_directoryPath x2 @ x_filePath x2 = wide_abs (pcs @ ps)"
    unfolding x2(1,2) using tl_wide_abs [OF ps] by simp
  let ?x3 = "x2\<lparr>x_diskFilePath := wide_abs (pcs @ ps)\<rparr>"
  have "during pcs n ps (x_isDir b) ?x3" "during pcs n ps (x_isDir b) (?x3\<lparr>x_outFileStream := y\<rparr>)" for y
    using x b(2) by (simp_all add: during_def between_def x2_def no_link_def)
  moreover have "GetStream Z A i kExtract x = thn (case ReverseFind_PathSepar (x_filePath x2) of None \<Rightarrow> ret ()
        | Some n \<Rightarrow> sz_createDir Z (x_directoryPath x2 @ take n (x_filePath x2)))
      (if x_isDir b then thn (sz_createDir Z (wide_abs (pcs @ ps))) (ret (Some S_OK, False, ?x3)) else open_output Z (wide_abs (pcs @ ps)) ?x3)"
  proof -
    have "x_subDirLength x = n" using x by (simp add: between_def)
    then show ?thesis using s i2 x2(3) full by (simp add: GetStream_def Let_def del: wide_abs_append)
  qed
  moreover have "x_outFileStream ?x3 = None" by (simp add: x2_def)
  ultimately show ?thesis unfolding x2(1,2) using info(2) by blast
qed

text \<open>\<open>GetStream\<close> creates the directories of an item, and its directory or its empty file.\<close>

lemma GetStream_run:
  assumes ok: "entry_ok A n (i, ps, ds)" and x: "between pcs n x" and pcs: "pcs \<noteq> []" "\<forall>p \<in> set pcs. plain_name p"
    and nf: "no_faults (wfs w)" and st: "storable (root (wfs w)) (entry_item A pcs (i, ps, ds))"
    and dest: "lookup (root (wfs w)) (map to_narrow pcs) = Some (Dir a0 es0)" and l: "l = map to_narrow (pcs @ ps)"
  shows "\<exists>e t x' d. GetStream (with_p7zip_files Z) A i kExtract x w
      = (Ret (Some S_OK, \<not> d, x'), w\<lparr>errno := e, wfs := (wfs w)\<lparr>root := t\<rparr>\<rparr>)
    \<and> during pcs n ps d x' \<and> IsArchiveItemFolder A i = Inr d
    \<and> (if d then x_outFileStream x' = None \<and> (\<exists>b bs. lookup t l = Some (Dir b bs)) \<and> grown l (root (wfs w)) t
       else x_outFileStream x' = Some \<lparr>fd_path = abs_path l, fd_loc = l, fd_pos = 0\<rparr>
         \<and> (\<exists>b bs g t1. t = put_at l (Reg g []) t1 \<and> lookup t1 (butlast l) = Some (Dir b bs)
              \<and> grown (butlast l) (root (wfs w)) t1 \<and> lookup t1 l = None))"
proof -
  let ?Z = "with_p7zip_files Z"
  have named: "entry_named A n (i, ps, ds)" and plain: "\<forall>p \<in> set ps. plain_name p" using ok by (simp_all add: entry_ok_def)
  obtain qs q where ps: "ps = qs @ [q]" using named by (cases ps rule: rev_cases) auto
  have names: "\<forall>p \<in> set (pcs @ qs @ [q]). plain_name p" using plain pcs(2) ps by auto
  note wide = plain_wide [OF names]
  have l': "l = map to_narrow (pcs @ qs) @ [to_narrow q]" "l = map to_narrow (pcs @ qs @ [q])" by (simp_all add: l ps)
  have good: "\<forall>c \<in> set l. good_name c" using good_narrow [OF wide] l' by simp
  obtain x3 d where gs: "GetStream ?Z A i kExtract x = thn (case ReverseFind_PathSepar (tl (wide_abs ps)) of None \<Rightarrow> ret ()
        | Some n \<Rightarrow> sz_createDir ?Z ((wide_abs pcs @ [slash]) @ take n (tl (wide_abs ps))))
      (if d then thn (sz_createDir ?Z (wide_abs (pcs @ ps))) (ret (Some S_OK, False, x3)) else open_output ?Z (wide_abs (pcs @ ps)) x3)"
    and dur: "\<And>y. during pcs n ps d (x3\<lparr>x_outFileStream := y\<rparr>)" "during pcs n ps d x3" "x_outFileStream x3 = None"
    and dir: "IsArchiveItemFolder A i = Inr d"
    using GetStream_prefix [OF named x, of ?Z] by blast
  have path: "item_path (entry_item A pcs (i, ps, ds)) = abs_path l" by (simp add: l Let_def)
  note pl = storable_place [OF st path good]
  obtain e t1 c cs where par: "(case ReverseFind_PathSepar (tl (wide_abs ps)) of None \<Rightarrow> ret ()
        | Some n \<Rightarrow> sz_createDir ?Z ((wide_abs pcs @ [slash]) @ take n (tl (wide_abs ps)))) w
      = (Ret (), w\<lparr>errno := e, wfs := (wfs w)\<lparr>root := t1\<rparr>\<rparr>)"
    "lookup t1 (map to_narrow (pcs @ qs)) = Some (Dir c cs)" "grown (map to_narrow (pcs @ qs)) (root (wfs w)) t1"
    using parent_created [OF wide pcs(1) nf pl(3) [unfolded l'(2)] pl(4) [unfolded l'(2)] dest, of Z] unfolding ps by blast
  let ?w1 = "w\<lparr>errno := e, wfs := (wfs w)\<lparr>root := t1\<rparr>\<rparr>"
  have bl: "butlast l = map to_narrow (pcs @ qs)" unfolding l'(1) by (rule butlast_snoc)
  have ne: "l \<noteq> []" by (simp add: l'(1))
  have way1: "way_free t1 l" by (rule way_free_grown [OF pl(3) par(3)])
  have above: "dirs_above t1 l" using par(2) bl by (intro way_free_dirs_above [OF way1]) simp
  show ?thesis
  proof (cases d)
    case True
    have top: "lookup t1 (take 1 l) \<noteq> None"
      using pl(4) par(3) unfolding grown_def by (metis not_None_eq)
    have here: "lookup t1 l = None \<or> (\<exists>a es. lookup t1 l = Some (Dir a es))"
      using pl(6) none_grown [OF _ ne par(3) [folded bl]] par(3) unfolding grown_def by (metis is_dir.simps(1))
    have "\<exists>e' t. CreateComplexDir (wide_abs (pcs @ ps)) ?w1 = (Ret True, ?w1\<lparr>errno := e', wfs := (wfs ?w1)\<lparr>root := t\<rparr>\<rparr>)
      \<and> (\<exists>a es. lookup t l = Some (Dir a es)) \<and> grown l (root (wfs ?w1)) t"
      unfolding l using wide nf way1 top here
      by (intro CreateComplexDir_run) (simp_all add: l ps)
    then obtain e' t where cd: "CreateComplexDir (wide_abs (pcs @ ps)) ?w1 = (Ret True, ?w1\<lparr>errno := e', wfs := (wfs ?w1)\<lparr>root := t\<rparr>\<rparr>)"
      "\<exists>a es. lookup t l = Some (Dir a es)" "grown l (root (wfs ?w1)) t" by blast
    have "grown l (root (wfs w)) t1"
      using par(3) unfolding bl [symmetric] by (rule grown_butlast)
    then have "grown l (root (wfs w)) t" using cd(3) by (auto intro: grown_trans)
    moreover have "GetStream ?Z A i kExtract x w = (Ret (Some S_OK, False, x3), w\<lparr>errno := e', wfs := (wfs w)\<lparr>root := t\<rparr>\<rparr>)"
      unfolding gs using True par(1) cd(1) by (simp add: thn_app bnd_app ret_app del: wide_abs_append)
    ultimately show ?thesis
      using True cd(2) dur dir by (intro exI [of _ e'] exI [of _ t] exI [of _ x3] exI [of _ True]) simp
  next
    case False
    then have isf: "is_file_item (entry_item A pcs (i, ps, ds))" using dir by (simp add: Let_def)
    have none: "lookup t1 l = None" using none_grown [OF pl(5) [OF isf] ne par(3) [folded bl]] .
    have "dirs_above t1 (map to_narrow (pcs @ qs))" using above unfolding l'(1) dirs_above_snoc by blast
    then have ff: "FindFirst (wide_abs (pcs @ ps)) ?w1 = (Ret (Some False), ?w1\<lparr>errno := ERROR_NO_MORE_FILES\<rparr>)"
      using FindFirst_run [of "pcs @ qs" q ?w1] names pcs(1) nf par(2) none
      by (simp add: ps l' Let_def)
    let ?w2 = "?w1\<lparr>errno := ERROR_NO_MORE_FILES\<rparr>" and ?d = "\<lparr>fd_path = abs_path l, fd_loc = l, fd_pos = 0\<rparr>"
    have "Create_out (wide_abs (pcs @ ps)) ?w2 = (Ret (Some ?d),
        ?w2\<lparr>errno := ENOENT, wfs := (wfs ?w2)\<lparr>root := put_at l (Reg (new_attr 438 (wfs ?w2)) []) (root (wfs ?w2))\<rparr>\<rparr>)"
      using nf wide above none by (intro Create_out_new) (simp_all add: l ps)
    then have "open_output ?Z (wide_abs (pcs @ ps)) x3 ?w1 = (Ret (Some S_OK, True, x3\<lparr>x_outFileStream := Some ?d\<rparr>),
        w\<lparr>errno := ENOENT, wfs := (wfs w)\<lparr>root := put_at l (Reg (new_attr 438 (wfs w)) []) t1\<rparr>\<rparr>)"
      using ff by (simp add: open_output_def bnd_app ret_app)
    then have "GetStream ?Z A i kExtract x w = (Ret (Some S_OK, True, x3\<lparr>x_outFileStream := Some ?d\<rparr>),
        w\<lparr>errno := ENOENT, wfs := (wfs w)\<lparr>root := put_at l (Reg (new_attr 438 (wfs w)) []) t1\<rparr>\<rparr>)"
      unfolding gs using False par(1) by (simp add: thn_app del: p7zip_files(1))
    with False dur(1) dir par(2,3) bl none show ?thesis
      by (intro exI [of _ ENOENT] exI [of _ "put_at l (Reg (new_attr 438 (wfs w)) []) t1"]
          exI [of _ "x3\<lparr>x_outFileStream := Some ?d\<rparr>"] exI [of _ False]) auto
  qed
qed

lemma told_trans: "\<lbrakk>conns w1 = conns (emit h a w); conns w2 = conns (emit h b w1)\<rbrakk> \<Longrightarrow> conns w2 = conns (emit h (a @ b) w)"
  using emit_conns [of w1 "emit h a w" h b] by simp

lemma told_none: "conns w' = conns w \<Longrightarrow> conns w' = conns (emit h [] w)"
  by simp

lemma SetCompleted_run:
  assumes "wr h w"
  shows "\<exists>out u. SetCompleted h v x w = (Ret (S_OK, x\<lparr>x_lastProgress := u\<rparr>), emit h out w)"
proof (cases "v = x_totalSize x \<or> 1000000 \<le> v - x_lastProgress x")
  case True
  with assms show ?thesis
    by (intro exI [of _ "le_bytes 8 v"] exI [of _ v]) (simp add: SetCompleted_def thn_app writeAllOrExitProcess_def write_emit ret_app)
next
  case False
  then show ?thesis
    by (intro exI [of _ "[]"] exI [of _ "x_lastProgress x"]) (simp add: SetCompleted_def ret_app)
qed

lemma progress_run:
  "wr h w \<Longrightarrow> \<exists>u w' out. run_extract Z A h (ex_parts (progress_only ds) k) x w
     = run_extract Z A h k (x\<lparr>x_lastProgress := u\<rparr>) w' \<and> conns w' = conns (emit h out w) \<and> wfs w' = wfs w"
proof (induction ds arbitrary: x w)
  case Nil
  then show ?case
    by (intro exI [of _ "x_lastProgress x"] exI [of _ w] exI [of _ "[]"]) (simp add: progress_only_def)
next
  case (Cons d ds)
  show ?case
  proof (cases d)
    case (PWrite bs)
    with Cons show ?thesis by (simp add: progress_only_def)
  next
    case (PProgress v)
    obtain out u where 1: "SetCompleted h v x w = (Ret (S_OK, x\<lparr>x_lastProgress := u\<rparr>), emit h out w)"
      using SetCompleted_run [OF Cons.prems] by blast
    obtain u' w' out' where 2: "run_extract Z A h (ex_parts (progress_only ds) k) (x\<lparr>x_lastProgress := u\<rparr>) (emit h out w)
       = run_extract Z A h k ((x\<lparr>x_lastProgress := u\<rparr>)\<lparr>x_lastProgress := u'\<rparr>) w'" "conns w' = conns (emit h out' (emit h out w))"
      "wfs w' = wfs (emit h out w)"
      using Cons.IH [of "emit h out w" "x\<lparr>x_lastProgress := u\<rparr>"] Cons.prems by auto
    then show ?thesis
      using 1 PProgress
      by (intro exI [of _ u'] exI [of _ w'] exI [of _ "out @ out'"])
        (simp add: progress_only_def bnd_app ret_app ex_callback_def plain_ans_def)
  qed
qed

lemma stream_same: "x_outFileStream x = Some d \<Longrightarrow> x\<lparr>x_outFileStream := Some d\<rparr> = x"
  by (cases x) simp

lemma overwrite_after: "overwrite (length dd) bs (dd @ old) = dd @ bs @ drop (length bs) old"
  by (simp add: overwrite_def)

lemma parts_run:
  "\<lbrakk>no_faults (wfs w); wr h w; lookup (root (wfs w)) l = Some (Reg g (dd @ old)); l \<noteq> [];
     x_outFileStream x = Some d; fd_loc d = l; fd_pos d = length dd\<rbrakk> \<Longrightarrow>
   \<exists>d' u w' out. run_extract (with_p7zip_files Z) A h (ex_parts ds k) x w
      = run_extract (with_p7zip_files Z) A h k (x\<lparr>x_outFileStream := Some d', x_lastProgress := u\<rparr>) w'
     \<and> fd_path d' = fd_path d \<and> conns w' = conns (emit h out w)
     \<and> wfs w' = (wfs w)\<lparr>root := put_at l (Reg g (dd @ content ds @ drop (length (content ds)) old)) (root (wfs w))\<rparr>"
proof (induction ds arbitrary: x w dd old d)
  case Nil
  then show ?case
    by (intro exI [of _ d] exI [of _ "x_lastProgress x"] exI [of _ w] exI [of _ "[]"]) (simp add: content_def put_same stream_same)
next
  case (Cons p ds)
  show ?case
  proof (cases p)
    case (PWrite bs)
    let ?r = "put_at l (Reg g ((dd @ bs) @ drop (length bs) old)) (root (wfs w))"
    let ?w = "w\<lparr>wfs := (wfs w)\<lparr>root := ?r\<rparr>\<rparr>" and ?d = "fd_advance (length bs) d"
    have wr: "Write_out d bs w = (Ret (S_OK, ?d), ?w)"
      using Cons.prems by (simp add: Write_out_def sys_write_def no_faults_faulty overwrite_after)
    have lk: "lookup (root (wfs ?w)) l = Some (Reg g ((dd @ bs) @ drop (length bs) old))"
      using lookup_put_existing [OF Cons.prems(3,4)] by simp
    obtain d' u w' out where "run_extract (with_p7zip_files Z) A h (ex_parts ds k) (x\<lparr>x_outFileStream := Some ?d\<rparr>) ?w
      = run_extract (with_p7zip_files Z) A h k ((x\<lparr>x_outFileStream := Some ?d\<rparr>)\<lparr>x_outFileStream := Some d', x_lastProgress := u\<rparr>) w'"
      "fd_path d' = fd_path ?d" "conns w' = conns (emit h out ?w)"
      "wfs w' = (wfs ?w)\<lparr>root := put_at l (Reg g ((dd @ bs) @ content ds @ drop (length (content ds)) (drop (length bs) old))) (root (wfs ?w))\<rparr>"
      using Cons.IH [OF _ _ lk, of "x\<lparr>x_outFileStream := Some ?d\<rparr>" ?d] Cons.prems by (auto simp: fd_advance_def wr_def)
    moreover have "conns (emit h out ?w) = conns (emit h out w)" by (rule emit_conns) simp
    ultimately show ?thesis
      using PWrite wr Cons.prems(5)
      by (intro exI [of _ d'] exI [of _ u] exI [of _ w'] exI [of _ out])
        (simp add: bnd_app ret_app ex_callback_def plain_ans_def content_def put_put fd_advance_def add.commute)
  next
    case (PProgress v)
    obtain out u where 1: "SetCompleted h v x w = (Ret (S_OK, x\<lparr>x_lastProgress := u\<rparr>), emit h out w)"
      using SetCompleted_run [OF Cons.prems(2)] by blast
    obtain d' u' w' out' where "run_extract (with_p7zip_files Z) A h (ex_parts ds k) (x\<lparr>x_lastProgress := u\<rparr>) (emit h out w)
      = run_extract (with_p7zip_files Z) A h k ((x\<lparr>x_lastProgress := u\<rparr>)\<lparr>x_outFileStream := Some d', x_lastProgress := u'\<rparr>) w'"
      "fd_path d' = fd_path d" "conns w' = conns (emit h out' (emit h out w))"
      "wfs w' = (wfs (emit h out w))\<lparr>root := put_at l (Reg g (dd @ content ds @ drop (length (content ds)) old)) (root (wfs (emit h out w)))\<rparr>"
      using Cons.IH [of "emit h out w" dd old "x\<lparr>x_lastProgress := u\<rparr>" d] Cons.prems by auto
    then show ?thesis
      using 1 PProgress
      by (intro exI [of _ d'] exI [of _ u'] exI [of _ w'] exI [of _ "out @ out'"])
        (simp add: bnd_app ret_app ex_callback_def plain_ans_def content_def)
  qed
qed

subsection \<open>The end of an item\<close>

lemma setattr_run:
  assumes "at_path f l n" "\<not> is_lnk n"
  shows "sys_setattr c (abs_path l) u f = (0, f\<lparr>root := put_at l (set_attr u n) (root f)\<rparr>)"
  using assms resolve_plain_Found [of l f n True] by (simp add: sys_setattr_def at_path_def no_faults_faulty)

lemma set_attr_kind [simp]: "is_lnk (set_attr u n) = is_lnk n" "is_dir (set_attr u n) = is_dir n"
  by (cases n; simp)+

lemma set_attr_twice: "set_attr v (set_attr u n) = set_attr (\<lambda>a. v (u a)) n"
  by (cases n) simp_all

lemma at_path_put:
  assumes "at_path f l n" "is_dir m = is_dir n"
  shows "at_path (f\<lparr>root := put_at l m (root f)\<rparr>) l m"
proof -
  have a: "no_faults f" "\<forall>c \<in> set l. good_name c" "l \<noteq> []" "dirs_above (root f) l" "lookup (root f) l = Some n"
    using assms(1) by (simp_all add: at_path_def)
  have "\<exists>x es. lookup (put_at l m (root f)) (take k l) = Some (Dir x es)" if k: "k < length l" for k
  proof -
    have "lookup (put_at l m (root f)) l = Some m" using a(3,5) by (rule lookup_put_existing [rotated])
    moreover have "l = take k l @ drop k l" "drop k l \<noteq> []" using k by simp_all
    ultimately show ?thesis by (metis lookup_prefix_dir)
  qed
  with a show ?thesis by (simp add: at_path_def dirs_above_def lookup_put_existing)
qed

text \<open>The attributes of an item that is not a link.\<close>

lemma chmod_masked_run:
  assumes "at_path (wfs w) l n" "\<not> is_lnk n"
  shows "\<exists>u. chmod_masked (abs_path l) m w = (Ret [], w\<lparr>wfs := (wfs w)\<lparr>root := put_at l (set_attr u n) (root (wfs w))\<rparr>\<rparr>)"
  using setattr_run [OF assms] by (auto simp: chmod_masked_def bnd_app get_app io_update_def ret_app)

lemma SetFileAttrib_run:
  assumes at: "at_path (wfs w) (map to_narrow ps) n" "\<not> is_lnk n" and ps: "\<forall>p \<in> set ps. wide_name p"
    and nl: "a AND 0x8000 \<noteq> 0 \<longrightarrow> \<not> S_ISLNK (drop_bit 16 a)"
  shows "\<exists>u. SetFileAttrib (wide_abs ps) a w
    = (Ret [], w\<lparr>wfs := (wfs w)\<lparr>root := put_at (map to_narrow ps) (set_attr u n) (root (wfs w))\<rparr>\<rparr>)"
proof -
  have same: "put_at (map to_narrow ps) (set_attr (\<lambda>y. y) n) (root (wfs w)) = root (wfs w)"
    using at(1) by (cases n) (simp_all add: at_path_def put_same)
  show ?thesis
    using at_path_lstat [OF at(1)] chmod_masked_run [OF at] at(2) nl same
    by (auto simp: SetFileAttrib_def Let_def nameWindowToUnix2_def narrow_abs [OF ps] bnd_app io_query_def ret_app
        intro: exI [of _ "\<lambda>y. y"])
qed

lemma close_output_run:
  assumes "at_path (wfs w) l m" "\<not> is_lnk m" "\<forall>d. x_outFileStream x = Some d \<longrightarrow> fd_path d = abs_path l"
  shows "\<exists>u. close_output (with_p7zip_files Z) x w = (Ret S_OK, w\<lparr>wfs := (wfs w)\<lparr>root := put_at l (set_attr u m) (root (wfs w))\<rparr>\<rparr>)"
proof -
  have "put_at l (set_attr (\<lambda>y. y) m) (root (wfs w)) = root (wfs w)"
    using assms(1) by (cases m) (simp_all add: at_path_def put_same)
  then have same: "\<exists>u. (Ret S_OK, w) = (Ret S_OK, w\<lparr>wfs := (wfs w)\<lparr>root := put_at l (set_attr u m) (root (wfs w))\<rparr>\<rparr>)"
    by (intro exI [of _ "\<lambda>y. y"]) simp
  show ?thesis
  proof (cases "x_outFileStream x")
    case None
    with same show ?thesis by (simp add: close_output_def ret_app)
  next
    case (Some d)
    with assms(3) have "fd_path d = abs_path l" by simp
    with Some same setattr_run [OF assms(1,2)] show ?thesis
      by (auto simp: close_output_def thn_app ret_app SetMTime_out_def Let_def bnd_app io_update_def)
  qed
qed

lemma SetOperationResult_run:
  assumes du: "during pcs n ps d x" and at: "at_path (wfs w) l m" "\<not> is_lnk m" and l: "l = map to_narrow (pcs @ ps)"
    and wide: "\<forall>p \<in> set (pcs @ ps). wide_name p" and path: "\<forall>d. x_outFileStream x = Some d \<longrightarrow> fd_path d = abs_path l"
  shows "\<exists>x' u. SetOperationResult (with_p7zip_files Z) kOK x w
      = (Ret (S_OK, x'), w\<lparr>wfs := (wfs w)\<lparr>root := put_at l (set_attr u m) (root (wfs w))\<rparr>\<rparr>) \<and> between pcs n x'"
proof -
  obtain u where 1: "close_output (with_p7zip_files Z) x w = (Ret S_OK, w\<lparr>wfs := (wfs w)\<lparr>root := put_at l (set_attr u m) (root (wfs w))\<rparr>\<rparr>)"
    using close_output_run [OF at path] by blast
  let ?w = "w\<lparr>wfs := (wfs w)\<lparr>root := put_at l (set_attr u m) (root (wfs w))\<rparr>\<rparr>" and ?m = "set_attr u m"
  have at': "at_path (wfs ?w) (map to_narrow (pcs @ ps)) ?m" using at_path_put [OF at(1), of ?m] l by simp
  have lnk: "\<not> is_lnk ?m" using at(2) by simp
  have disk: "x_diskFilePath x = wide_abs (pcs @ ps)" and bt: "between pcs n x" using du by (simp_all add: during_def)
  have nol: "no_link x" using du by (simp add: during_def)
  show ?thesis
  proof (cases "x_extractMode x \<and> x_AttribDefined x")
    case True
    with nol have "x_Attrib x AND 0x8000 \<noteq> 0 \<longrightarrow> \<not> S_ISLNK (drop_bit 16 (x_Attrib x))" by (simp add: no_link_def)
    from SetFileAttrib_run [OF at' lnk wide this] obtain v where
      "SetFileAttrib (wide_abs (pcs @ ps)) (x_Attrib x) ?w
        = (Ret [], ?w\<lparr>wfs := (wfs ?w)\<lparr>root := put_at l (set_attr v ?m) (root (wfs ?w))\<rparr>\<rparr>)" using l by blast
    with True 1 disk bt have "SetOperationResult (with_p7zip_files Z) kOK x w = (Ret (S_OK, x\<lparr>x_outFileStream := None\<rparr>),
        w\<lparr>wfs := (wfs w)\<lparr>root := put_at l (set_attr (\<lambda>a. v (u a)) m) (root (wfs w))\<rparr>\<rparr>)"
      by (simp add: SetOperationResult_def Let_def bnd_app ret_app between_def put_put set_attr_twice)
    with bt show ?thesis by (intro exI [of _ "x\<lparr>x_outFileStream := None\<rparr>"] exI [of _ "\<lambda>a. v (u a)"]) (simp add: between_def)
  next
    case False
    then have "SetOperationResult (with_p7zip_files Z) kOK x w = (Ret (S_OK, x\<lparr>x_outFileStream := None\<rparr>), ?w)"
      using 1 by (auto simp: SetOperationResult_def Let_def bnd_app ret_app)
    with bt show ?thesis by (intro exI [of _ "x\<lparr>x_outFileStream := None\<rparr>"] exI [of _ u]) (simp add: between_def)
  qed
qed

subsection \<open>One item\<close>

lemma lookup_at_path:
  assumes "no_faults f" "\<forall>c \<in> set l. good_name c" "l \<noteq> []" "lookup (root f) l = Some n"
  shows "at_path f l n"
proof -
  have "\<exists>x es. lookup (root f) (take k l) = Some (Dir x es)" if k: "k < length l" for k
  proof -
    have "l = take k l @ drop k l" "drop k l \<noteq> []" using k by simp_all
    with assms(4) show ?thesis by (metis lookup_prefix_dir)
  qed
  with assms show ?thesis by (simp add: at_path_def dirs_above_def)
qed

lemma lookup_put_attr:
  "lookup t l = Some (Dir b bs) \<Longrightarrow>
   (lookup t ys = None \<longrightarrow> lookup (put_at l (Dir b' bs) t) ys = None)
   \<and> (\<forall>n. lookup t ys = Some n \<longrightarrow> (if is_dir n then \<exists>a es. lookup (put_at l (Dir b' bs) t) ys = Some (Dir a es)
        else lookup (put_at l (Dir b' bs) t) ys = Some n))"
proof (induction l arbitrary: t ys)
  case Nil
  then show ?case by (cases ys) (auto split: option.splits elim: is_dir.elims)
next
  case (Cons c l)
  then obtain a es where t: "t = Dir a es" by (cases t) (auto split: option.splits)
  with Cons.prems obtain u where u: "map_of es c = Some u" "lookup u l = Some (Dir b bs)" by (auto split: option.splits)
  show ?case
  proof (cases ys)
    case Nil
    with t u show ?thesis by simp
  next
    case (Cons d ds)
    show ?thesis
    proof (cases "d = c")
      case True
      with Cons.IH [OF u(2), of ds] t u(1) Cons show ?thesis by simp
    next
      case False
      with t u(1) Cons show ?thesis by (auto split: option.splits elim: is_dir.elims)
    qed
  qed
qed

lemma grown_attr: "lookup t l = Some (Dir b bs) \<Longrightarrow> grown cs t (put_at l (Dir b' bs) t)"
  using lookup_put_attr unfolding grown_def by blast

text \<open>The rest of an item after \<open>GetStream\<close> and \<open>PrepareOperation\<close>: a directory, and a file.\<close>

definition ex_end :: "ex_run \<Rightarrow> ex_run" where
  "ex_end k = ExCall (CbSetOperationResult kOK) (\<lambda>c. if a_status c = Some S_OK then k else ExDone E_FAIL)"

lemma end_run:
  assumes "SetOperationResult Z kOK x w = (Ret (S_OK, x'), w')"
  shows "run_extract Z A h (ex_end k) x w = run_extract Z A h k x' w'"
  using assms by (simp add: ex_end_def bnd_app ret_app ex_callback_def plain_ans_def)

lemma dir_rest:
  assumes du: "during pcs n ps d x" and out: "x_outFileStream x = None" and l: "l = map to_narrow (pcs @ ps)" "l \<noteq> []"
    and names: "\<forall>p \<in> set (pcs @ ps). wide_name p" and nf: "no_faults (wfs w)" and wr: "wr h w"
    and dir: "lookup (root (wfs w)) l = Some (Dir b bs)"
  shows "\<exists>x' w' out b'. run_extract (with_p7zip_files Z) A h (ex_parts (progress_only ds) (ex_end k)) x w
      = run_extract (with_p7zip_files Z) A h k x' w'
    \<and> between pcs n x' \<and> conns w' = conns (emit h out w) \<and> wfs w' = (wfs w)\<lparr>root := put_at l (Dir b' bs) (root (wfs w))\<rparr>"
proof -
  let ?Z = "with_p7zip_files Z"
  obtain u w2 o2 where run: "run_extract ?Z A h (ex_parts (progress_only ds) (ex_end k)) x w = run_extract ?Z A h (ex_end k) (x\<lparr>x_lastProgress := u\<rparr>) w2"
    "conns w2 = conns (emit h o2 w)" "wfs w2 = wfs w"
    using progress_run [OF wr] by blast
  have du': "during pcs n ps d (x\<lparr>x_lastProgress := u\<rparr>)" using du by (simp add: during_def between_def no_link_def)
  have at: "at_path (wfs w2) l (Dir b bs)"
    using run(3) nf good_narrow [OF names] l dir by (intro lookup_at_path) simp_all
  obtain x3 v where r: "SetOperationResult ?Z kOK (x\<lparr>x_lastProgress := u\<rparr>) w2
      = (Ret (S_OK, x3), w2\<lparr>wfs := (wfs w2)\<lparr>root := put_at l (set_attr v (Dir b bs)) (root (wfs w2))\<rparr>\<rparr>)" "between pcs n x3"
    using SetOperationResult_run [OF du' at _ l(1) names, of Z] out by auto
  with run end_run [OF r(1)] show ?thesis
    by (intro exI [of _ x3] exI [of _ "w2\<lparr>wfs := (wfs w2)\<lparr>root := put_at l (set_attr v (Dir b bs)) (root (wfs w2))\<rparr>\<rparr>"]
        exI [of _ o2] exI [of _ "v b"]) simp
qed

lemma file_rest:
  assumes du: "during pcs n ps d x" and out: "x_outFileStream x = Some \<lparr>fd_path = abs_path l, fd_loc = l, fd_pos = 0\<rparr>"
    and l: "l = map to_narrow (pcs @ ps)" "l \<noteq> []" and names: "\<forall>p \<in> set (pcs @ ps). wide_name p" and nf: "no_faults (wfs w)"
    and wr: "wr h w" and open0: "lookup (root (wfs w)) l = Some (Reg a old)"
  shows "\<exists>x' w' out a'. run_extract (with_p7zip_files Z) A h (ex_parts ds (ex_end k)) x w
      = run_extract (with_p7zip_files Z) A h k x' w'
    \<and> between pcs n x' \<and> conns w' = conns (emit h out w)
    \<and> wfs w' = (wfs w)\<lparr>root := put_at l (Reg a' (content ds @ drop (length (content ds)) old)) (root (wfs w))\<rparr>"
proof -
  let ?Z = "with_p7zip_files Z" and ?data = "content ds @ drop (length (content ds)) old"
  obtain d' u w2 o2 where run: "run_extract ?Z A h (ex_parts ds (ex_end k)) x w
      = run_extract ?Z A h (ex_end k) (x\<lparr>x_outFileStream := Some d', x_lastProgress := u\<rparr>) w2"
    "fd_path d' = abs_path l" "conns w2 = conns (emit h o2 w)"
    "wfs w2 = (wfs w)\<lparr>root := put_at l (Reg a ?data) (root (wfs w))\<rparr>"
    using parts_run [OF nf wr _ l(2) out, of a "[]" old Z A ds "ex_end k"] open0 by auto
  let ?x = "x\<lparr>x_outFileStream := Some d', x_lastProgress := u\<rparr>"
  have du': "during pcs n ps d ?x" using du by (simp add: during_def between_def no_link_def)
  have "lookup (root (wfs w2)) l = Some (Reg a ?data)" using run(4) lookup_put_existing [OF open0 l(2)] by simp
  then have at: "at_path (wfs w2) l (Reg a ?data)"
    using run(4) nf good_narrow [OF names] l by (intro lookup_at_path) simp_all
  obtain x3 v where r: "SetOperationResult ?Z kOK ?x w2
      = (Ret (S_OK, x3), w2\<lparr>wfs := (wfs w2)\<lparr>root := put_at l (set_attr v (Reg a ?data)) (root (wfs w2))\<rparr>\<rparr>)" "between pcs n x3"
    using SetOperationResult_run [OF du' at _ l(1) names, of Z] run(2) by auto
  with run end_run [OF r(1)] show ?thesis
    by (intro exI [of _ x3] exI [of _ "w2\<lparr>wfs := (wfs w2)\<lparr>root := put_at l (set_attr v (Reg a ?data)) (root (wfs w2))\<rparr>\<rparr>"]
        exI [of _ o2] exI [of _ "v a"]) (simp add: put_put)
qed

lemma entry_run:
  assumes ok: "entry_ok A n (i, ps, ds)" and x: "between pcs n x" and pcs: "pcs \<noteq> []" "\<forall>p \<in> set pcs. plain_name p"
    and nf: "no_faults (wfs w)" and wr: "wr h w" and st: "storable (root (wfs w)) (entry_item A pcs (i, ps, ds))"
    and dest: "lookup (root (wfs w)) (map to_narrow pcs) = Some (Dir a0 es0)"
  shows "\<exists>x' w' out t. run_extract (with_p7zip_files Z) A h (ex_entry (i, ps, ds) k) x w = run_extract (with_p7zip_files Z) A h k x' w'
    \<and> between pcs n x' \<and> conns w' = conns (emit h out w) \<and> wfs w' = (wfs w)\<lparr>root := t\<rparr>
    \<and> item_effect (entry_item A pcs (i, ps, ds)) (root (wfs w)) t \<and> stored t (entry_item A pcs (i, ps, ds))"
proof -
  let ?Z = "with_p7zip_files Z" and ?it = "entry_item A pcs (i, ps, ds)"
  define l where "l = map to_narrow (pcs @ ps)"
  have names: "\<forall>p \<in> set (pcs @ ps). wide_name p" using ok pcs(2) by (auto simp: entry_ok_def plain_name_def)
  have good: "\<forall>c \<in> set l. good_name c" using good_narrow [OF names] by (simp add: l_def)
  have ne: "l \<noteq> []" using pcs(1) by (simp add: l_def)
  have loc: "item_loc ?it = l" by (rule storable_place [OF st _ good]) (simp add: l_def Let_def)
  obtain e t x1 d where g: "GetStream ?Z A i kExtract x w = (Ret (Some S_OK, \<not> d, x1), w\<lparr>errno := e, wfs := (wfs w)\<lparr>root := t\<rparr>\<rparr>)"
    "during pcs n ps d x1" "IsArchiveItemFolder A i = Inr d"
    "if d then x_outFileStream x1 = None \<and> (\<exists>b bs. lookup t l = Some (Dir b bs)) \<and> grown l (root (wfs w)) t
       else x_outFileStream x1 = Some \<lparr>fd_path = abs_path l, fd_loc = l, fd_pos = 0\<rparr>
         \<and> (\<exists>b bs g t1. t = put_at l (Reg g []) t1 \<and> lookup t1 (butlast l) = Some (Dir b bs)
              \<and> grown (butlast l) (root (wfs w)) t1 \<and> lookup t1 l = None)"
    using GetStream_run [OF ok x pcs nf st dest l_def, of Z] by blast
  let ?w1 = "w\<lparr>errno := e, wfs := (wfs w)\<lparr>root := t\<rparr>\<rparr>" and ?x1 = "x1\<lparr>x_extractMode := True\<rparr>"
  have run: "run_extract ?Z A h (ex_entry (i, ps, ds) k) x w = run_extract ?Z A h (ex_parts (if d then progress_only ds else ds) (ex_end k)) ?x1 ?w1"
    using g(1) by (simp add: bnd_app ret_app ex_callback_def PrepareOperation_def plain_ans_def ex_end_def)
  have w1: "wr h ?w1" "no_faults (wfs ?w1)" using wr nf by (simp_all add: wr_def)
  have told: "conns (emit h out ?w1) = conns (emit h out w)" for out by (rule emit_conns) simp
  have du: "during pcs n ps d ?x1" using g(2) by (simp add: during_def between_def no_link_def)
  show ?thesis
  proof (cases d)
    case True
    with g(4) obtain b bs where dir: "x_outFileStream ?x1 = None" "lookup (root (wfs ?w1)) l = Some (Dir b bs)" "grown l (root (wfs w)) t" by auto
    obtain x' w' out b' where r: "run_extract ?Z A h (ex_parts (progress_only ds) (ex_end k)) ?x1 ?w1 = run_extract ?Z A h k x' w'"
      "between pcs n x'" "conns w' = conns (emit h out ?w1)" "wfs w' = (wfs ?w1)\<lparr>root := put_at l (Dir b' bs) (root (wfs ?w1))\<rparr>"
      using dir_rest [OF du dir(1) l_def ne names w1(2,1) dir(2)] by blast
    have il: "?it = ItemDir (abs_path l)" "item_loc (ItemDir (abs_path l)) = l" using True g(3) loc by (simp_all add: l_def)
    have "grown l (root (wfs w)) (put_at l (Dir b' bs) t)" using dir(3) grown_attr dir(2) by (auto intro: grown_trans)
    then have "item_effect ?it (root (wfs w)) (put_at l (Dir b' bs) t)"
      unfolding il(1) item_effect_def by (simp add: il(2) grown_def)
    moreover have "stored (put_at l (Dir b' bs) t) ?it"
      unfolding il(1) using dir(2) ne by (simp add: stored_def il(2) lookup_put_existing)
    ultimately show ?thesis using run r told True by auto
  next
    case False
    with g(4) obtain b bs a t1 where f: "x_outFileStream ?x1 = Some \<lparr>fd_path = abs_path l, fd_loc = l, fd_pos = 0\<rparr>"
      "t = put_at l (Reg a []) t1" "lookup t1 (butlast l) = Some (Dir b bs)" "grown (butlast l) (root (wfs w)) t1" "lookup t1 l = None"
      by auto
    then have new: "lookup (root (wfs ?w1)) l = Some (Reg a [])" by (simp add: lookup_put_same)
    obtain x' w' out a' where r: "run_extract ?Z A h (ex_parts ds (ex_end k)) ?x1 ?w1 = run_extract ?Z A h k x' w'"
      "between pcs n x'" "conns w' = conns (emit h out ?w1)" "wfs w' = (wfs ?w1)\<lparr>root := put_at l (Reg a' (content ds)) (root (wfs ?w1))\<rparr>"
      using file_rest [OF du f(1) l_def ne names w1(2,1) new, of Z A ds k] by auto
    have il: "?it = ItemFile (abs_path l) (content ds)" "item_loc (ItemFile (abs_path l) (content ds)) = l"
      using False g(3) loc by (simp_all add: l_def)
    have cut: "l = butlast l @ [last l]" using ne by simp
    have "item_effect ?it (root (wfs w)) (put_at l (Reg a' (content ds)) t1)"
      unfolding il(1) using f(3) by (intro file_item_effect [OF f(4) _ f(5) cut il(2)]) simp
    moreover have "stored (put_at l (Reg a' (content ds)) t1) ?it"
      unfolding il(1) using f(3) by (simp add: stored_def il(2) lookup_put_same)
    ultimately show ?thesis using run r told False f(2) by (auto simp: put_put)
  qed
qed

subsection \<open>All items\<close>

lemma entries_run:
  "\<lbrakk>\<forall>e \<in> set es. entry_ok A n e; between pcs n x; pcs \<noteq> []; \<forall>p \<in> set pcs. plain_name p; no_faults (wfs w); wr h w;
     \<forall>e \<in> set es. storable (root (wfs w)) (entry_item A pcs e); separate (map (entry_item A pcs) es);
     lookup (root (wfs w)) (map to_narrow pcs) = Some (Dir a0 es0)\<rbrakk> \<Longrightarrow>
   \<exists>x' w' out t. run_extract (with_p7zip_files Z) A h (foldr ex_entry es (ExDone S_OK)) x w = (Ret (S_OK, x'), w')
     \<and> between pcs n x' \<and> conns w' = conns (emit h out w) \<and> wfs w' = (wfs w)\<lparr>root := t\<rparr>
     \<and> (\<forall>e \<in> set es. stored t (entry_item A pcs e)) \<and> files_kept (root (wfs w)) t
     \<and> (\<forall>y. stored (root (wfs w)) y \<longrightarrow> stored t y)"
proof (induction es arbitrary: x w a0 es0)
  case Nil
  then show ?case
    by (intro exI [of _ x] exI [of _ w] exI [of _ "[]"] exI [of _ "root (wfs w)"]) (simp add: ret_app files_kept_refl)
next
  case (Cons e es)
  obtain i ps ds where e: "e = (i, ps, ds)" by (cases e)
  let ?it = "entry_item A pcs e" and ?k = "foldr ex_entry es (ExDone S_OK)"
  have ok: "entry_ok A n (i, ps, ds)" and st: "storable (root (wfs w)) (entry_item A pcs (i, ps, ds))"
    using Cons.prems(1,7) e by auto
  obtain x1 w1 out t where r: "run_extract (with_p7zip_files Z) A h (ex_entry e ?k) x w = run_extract (with_p7zip_files Z) A h ?k x1 w1"
    "between pcs n x1" "conns w1 = conns (emit h out w)" "wfs w1 = (wfs w)\<lparr>root := t\<rparr>" "item_effect ?it (root (wfs w)) t" "stored t ?it"
    using entry_run [OF ok Cons.prems(2,3,4,5,6) st Cons.prems(9), of Z ?k] unfolding e by metis
  have wr1: "wr h w1" using wr_conns [OF r(3), of h] Cons.prems(6) by simp
  have nf1: "no_faults (wfs w1)" using r(4) Cons.prems(5) by simp
  have st1: "\<forall>e \<in> set es. storable (root (wfs w1)) (entry_item A pcs e)"
    using Cons.prems(7,8) storable_kept [OF r(5)] r(4) by (auto simp: separate_def)
  obtain a1 es1 where dest1: "lookup (root (wfs w1)) (map to_narrow pcs) = Some (Dir a1 es1)"
    using item_effect_Some [OF r(5) Cons.prems(9)] r(4) by auto
  obtain x2 w2 out2 t2 where r2: "run_extract (with_p7zip_files Z) A h ?k x1 w1 = (Ret (S_OK, x2), w2)" "between pcs n x2"
    "conns w2 = conns (emit h out2 w1)" "wfs w2 = (wfs w1)\<lparr>root := t2\<rparr>" "\<forall>e \<in> set es. stored t2 (entry_item A pcs e)"
    "files_kept (root (wfs w1)) t2" "\<forall>y. stored (root (wfs w1)) y \<longrightarrow> stored t2 y"
    using Cons.IH [OF _ r(2) Cons.prems(3,4) nf1 wr1 st1 _ dest1] Cons.prems(1,8) by (auto simp: separate_def)
  have "files_kept (root (wfs w)) t" using item_effect_Some [OF r(5)] by (force simp: files_kept_def)
  then have "files_kept (root (wfs w)) t2" using r2(6) r(4) by (auto intro: files_kept_trans)
  moreover have "\<forall>y. stored (root (wfs w)) y \<longrightarrow> stored t2 y" using stored_kept [OF r(5)] r2(7) r(4) by simp
  moreover have "\<forall>e' \<in> set (e # es). stored t2 (entry_item A pcs e')" using r(4,6) r2(5,7) by simp
  moreover have "conns w2 = conns (emit h (out @ out2) w)" using told_trans [OF r(3) r2(3)] .
  moreover have "wfs w2 = (wfs w)\<lparr>root := t2\<rparr>" using r(4) r2(4) by simp
  ultimately show ?case using r(1) r2(1,2)
    by (intro exI [of _ x2] exI [of _ w2] exI [of _ "out @ out2"] exI [of _ t2]) simp
qed

lemma to_wide_abs:
  assumes "\<forall>p \<in> set ps. wide_name p"
  shows "to_wide Z (abs_path (map to_narrow ps)) = wide_abs ps"
proof -
  have "concat (map (wide_units True) ws) = ws" for ws by (induction ws) (simp_all add: wide_units_def)
  then have "to_wide Z (to_narrow (wide_abs ps)) = wide_abs ps"
    using decode_encode [OF wide_abs_scalar [OF assms], of True "sz_junk Z"]
    by (simp add: to_wide_def to_narrow_def UTF8_to_wchar_def wchar_to_UTF8_def)
  with narrow_abs [OF assms] show ?thesis by simp
qed

lemma dir_prefix:
  assumes "\<forall>p \<in> set ps. wide_name p" "ps \<noteq> []"
  shows "NormalizeDirPathPrefix (wide_abs ps) = wide_abs ps @ [slash]"
proof -
  obtain qs q where ps: "ps = qs @ [q]" using assms(2) by (cases ps rule: rev_cases) auto
  then have "q \<noteq> []" "last q \<in> set q" "slash \<notin> set q" using assms(1) by (auto simp: wide_name_def)
  moreover have "last (wide_abs ps) = last q" using ps \<open>q \<noteq> []\<close> by simp
  ultimately have "last (wide_abs ps) \<noteq> slash" by metis
  with assms(2) show ?thesis by (simp add: NormalizeDirPathPrefix_def)
qed

text \<open>A place for the destination: it is a directory, or can be created below an existing directory.\<close>

definition destination :: "node \<Rightarrow> string list \<Rightarrow> bool" where
  "destination t cs \<longleftrightarrow> cs \<noteq> [] \<and> way_free t cs \<and> lookup t [hd cs] \<noteq> None
     \<and> (lookup t cs = None \<or> (\<exists>a es. lookup t cs = Some (Dir a es)))"

lemma destination_created:
  assumes d: "destination (root (wfs w)) cs" and good: "\<forall>c \<in> set cs. good_name c" and nf: "no_faults (wfs w)"
  shows "\<exists>e t a es. mkpathCopyPermissionsFromNearestAncestor (abs_path cs) True w = (Ret 0, w\<lparr>errno := e, wfs := (wfs w)\<lparr>root := t\<rparr>\<rparr>)
    \<and> lookup t cs = Some (Dir a es) \<and> item_effect (ItemDir (abs_path cs)) (root (wfs w)) t"
proof -
  obtain e t where m: "mkpathCopyPermissionsFromNearestAncestor (abs_path cs) True w = (Ret 0, w\<lparr>errno := e, wfs := (wfs w)\<lparr>root := t\<rparr>\<rparr>)"
    "\<exists>a es. lookup t cs = Some (Dir a es)" "grown cs (root (wfs w)) t"
    using mkcopy_run [OF nf good] d unfolding destination_def by blast
  have "item_loc (ItemDir (abs_path cs)) = cs" using good by (simp add: item_loc_def split_path_abs)
  with m(3) have "item_effect (ItemDir (abs_path cs)) (root (wfs w)) t" by (simp add: item_effect_def grown_def)
  with m(1,2) show ?thesis by blast
qed

lemma below_destination:
  assumes st: "storable t (entry_item A pcs e)" and eff: "item_effect (ItemDir (abs_path (map to_narrow pcs))) t t'"
    and ok: "entry_ok A n e" and pcs: "\<forall>p \<in> set pcs. plain_name p"
  shows "storable t' (entry_item A pcs e)"
proof -
  obtain i ps ds where e: "e = (i, ps, ds)" by (cases e)
  have names: "\<forall>p \<in> set (pcs @ ps). wide_name p" "\<forall>p \<in> set pcs. wide_name p" and ne: "ps \<noteq> []"
    using ok pcs e by (auto simp: entry_ok_def plain_name_def)
  let ?it = "entry_item A pcs e" and ?l = "map to_narrow (pcs @ ps)" and ?d = "ItemDir (abs_path (map to_narrow pcs))"
  have loc: "item_loc ?it = ?l" by (rule storable_place [OF st _ good_narrow [OF names(1)]]) (simp add: e Let_def)
  have dloc: "item_loc ?d = map to_narrow pcs" using good_narrow [OF names(2)] by (simp add: item_loc_def split_path_abs)
  have "take (length ?l) (map to_narrow pcs) \<noteq> ?l" using ne by simp
  then have "apart ?d ?it" "apart ?it ?d" unfolding apart_def loc dloc by simp_all
  then show ?thesis using storable_kept [OF eff st] by blast
qed

text \<open>The answer of a run that ends with the status \<open>r\<close>, and what it does to the files.\<close>

lemma extract_run_result:
  assumes lib: "library_run A rq = ex_entries tot es"
    and dest: "e_destFolder rq = abs_path (map to_narrow pcs)" "pcs \<noteq> []" "\<forall>p \<in> set pcs. plain_name p" and wr: "wr h w"
    and run: "\<And>x u. \<lbrakk>between pcs (e_subDirLength rq) x; wr h u; wfs u = wfs w\<rbrakk> \<Longrightarrow>
      \<exists>x' w' out. run_extract (with_p7zip_files Z) A h (foldr ex_entry es (ExDone S_OK)) x u = (Ret (r, x'), w')
        \<and> between pcs (e_subDirLength rq) x' \<and> conns w' = conns (emit h out u) \<and> Q (wfs w')"
  shows "\<exists>w' prog. extract_run (with_p7zip_files Z) junk h rq A src ty (e_destFolder rq) 0 w = (Ret 0, w')
    \<and> conns w' = conns (emit h (ok_wire @ prog @ le_bytes 8 maxuint
         @ (if r = S_OK then ok_wire else error_wire NULL_OR_WRONG_PASSWORD)) w) \<and> Q (wfs w')"
proof -
  let ?Z = "with_p7zip_files Z" and ?w0 = "emit h ok_wire w"
  define x0 where "x0 = start_xcb ?Z junk rq src ty (e_destFolder rq) 0"
  let ?x0 = "x0\<lparr>x_totalSize := tot\<rparr>" and ?w1 = "emit h (le_bytes 8 tot) ?w0"
    and ?fin = "if r = S_OK then ok_wire else error_wire NULL_OR_WRONG_PASSWORD"
  have wide: "\<forall>p \<in> set pcs. wide_name p" using dest(3) by (rule plain_wide)
  have bt: "between pcs (e_subDirLength rq) ?x0"
    using dest(2) by (simp add: x0_def start_xcb_def Init_def new_xcb_def between_def dest(1) to_wide_abs [OF wide] dir_prefix [OF wide] kOK_def)
  obtain x' w2 out where r: "run_extract ?Z A h (foldr ex_entry es (ExDone S_OK)) ?x0 ?w1 = (Ret (r, x'), w2)"
    "between pcs (e_subDirLength rq) x'" "conns w2 = conns (emit h out ?w1)" "Q (wfs w2)"
    using run [OF bt, of ?w1] wr by auto
  have lr: "run_extract ?Z A h (library_run A rq) x0 ?w0 = (Ret (r, x'), w2)"
    unfolding lib using r(1) wr
    by (simp add: ex_entries_def bnd_app ret_app ex_callback_def SetTotal_def thn_app writeAllOrExitProcess_def write_emit)
  have lat: "x_latest x' = kOK" and last: "last_status ?Z rq r x' w2 = (Ret r, w2)"
    using r(2) by (simp_all add: between_def last_status_def SetFinalAttribs_def bnd_app ret_app)
  have wr2: "wr h w2" using wr_conns [OF r(3), of h] wr by simp
  define w3 where "w3 = emit h (le_bytes 8 maxuint @ ?fin) (if r = S_OK then w2 else w2\<lparr>errno := NULL_OR_WRONG_PASSWORD\<rparr>)"
  have "extract_run ?Z junk h rq A src ty (e_destFolder rq) 0 w = (Ret 0, w3)"
    using lr lat last wr wr2 unfolding x0_def w3_def
    by (simp add: extract_run_alt thn_app bnd_app send_ok send_end set_errno_app ret_app kOK_def)
  moreover have "conns w3 = conns (emit h (le_bytes 8 maxuint @ ?fin) w2)" by (simp add: w3_def errno_upd_emit)
  then have "conns w3 = conns (emit h (ok_wire @ (le_bytes 8 tot @ out) @ le_bytes 8 maxuint @ ?fin) w)"
    using emit_conns [OF r(3), of h "le_bytes 8 maxuint @ ?fin"] by simp
  moreover have "Q (wfs w3)" using r(4) by (simp add: w3_def)
  ultimately show ?thesis by blast
qed

lemma extract_run_stores:
  assumes lib: "library_run A rq = ex_entries tot es" and es: "\<forall>e \<in> set es. entry_ok A (e_subDirLength rq) e"
    and dest: "e_destFolder rq = abs_path (map to_narrow pcs)" "pcs \<noteq> []" "\<forall>p \<in> set pcs. plain_name p"
    and nf: "no_faults (wfs w)" and wr: "wr h w"
    and st: "\<forall>e \<in> set es. storable (root (wfs w)) (entry_item A pcs e)" "separate (map (entry_item A pcs) es)"
    and dir: "lookup (root (wfs w)) (map to_narrow pcs) = Some (Dir a0 es0)"
  shows "\<exists>w' prog t. extract_run (with_p7zip_files Z) junk h rq A src ty (e_destFolder rq) 0 w = (Ret 0, w')
    \<and> conns w' = conns (emit h (ok_wire @ prog @ le_bytes 8 maxuint @ ok_wire) w) \<and> wfs w' = (wfs w)\<lparr>root := t\<rparr>
    \<and> (\<forall>e \<in> set es. stored t (entry_item A pcs e)) \<and> files_kept (root (wfs w)) t"
proof -
  let ?Q = "\<lambda>f. \<exists>t. f = (wfs w)\<lparr>root := t\<rparr> \<and> (\<forall>e \<in> set es. stored t (entry_item A pcs e)) \<and> files_kept (root (wfs w)) t"
  have "\<exists>x' w' out. run_extract (with_p7zip_files Z) A h (foldr ex_entry es (ExDone S_OK)) x u = (Ret (S_OK, x'), w')
        \<and> between pcs (e_subDirLength rq) x' \<and> conns w' = conns (emit h out u) \<and> ?Q (wfs w')"
    if u: "between pcs (e_subDirLength rq) x" "wr h u" "wfs u = wfs w" for x u
  proof -
    have "no_faults (wfs u)" "\<forall>e \<in> set es. storable (root (wfs u)) (entry_item A pcs e)"
      "lookup (root (wfs u)) (map to_narrow pcs) = Some (Dir a0 es0)" using nf st(1) dir unfolding u(3) by blast+
    from entries_run [OF es u(1) dest(2,3) this(1) u(2) this(2) st(2) this(3), of Z]
    obtain x' w' out t where r: "run_extract (with_p7zip_files Z) A h (foldr ex_entry es (ExDone S_OK)) x u = (Ret (S_OK, x'), w')"
      "between pcs (e_subDirLength rq) x'" "conns w' = conns (emit h out u)" "wfs w' = (wfs u)\<lparr>root := t\<rparr>"
      "\<forall>e \<in> set es. stored t (entry_item A pcs e)" "files_kept (root (wfs u)) t" by blast
    from r(4-6) have "?Q (wfs w')" unfolding u(3) by blast
    with r(1-3) show ?thesis by blast
  qed
  from extract_run_result [where Q = ?Q, OF lib dest wr this, of junk src ty]
  obtain w' prog where r: "extract_run (with_p7zip_files Z) junk h rq A src ty (e_destFolder rq) 0 w = (Ret 0, w')"
    "conns w' = conns (emit h (ok_wire @ prog @ le_bytes 8 maxuint @ ok_wire) w)" "?Q (wfs w')" unfolding if_P [OF refl] by blast
  then show ?thesis by blast
qed

lemma below_destination_all:
  "\<lbrakk>\<forall>e \<in> set es. storable t (entry_item A pcs e); item_effect (ItemDir (abs_path (map to_narrow pcs))) t t';
    \<forall>e \<in> set es. entry_ok A n e; \<forall>p \<in> set pcs. plain_name p\<rbrakk> \<Longrightarrow> \<forall>e \<in> set es. storable t' (entry_item A pcs e)"
  using below_destination by blast

text \<open>A request for one archive that opens, from the run of its extraction.\<close>

lemma extract_opened:
  assumes "opens Z w acs (e_password rq) A" "extract_rq_ok fl rq" "e_archives rq = [abs_path acs]" "\<not> e_smart rq" "e_destFolder rq \<noteq> []"
    and mk: "mkpathCopyPermissionsFromNearestAncestor (e_destFolder rq) True w = (Ret 0, w1)"
    and run: "\<And>ty. \<exists>w'. extract_run Z junk h rq A (abs_path acs) ty (e_destFolder rq) 0 w1 = (Ret 0, w') \<and> P w'"
  shows "\<exists>w'. extractFromArchive Z junk 0 h fl (feed h (extract_wire (\<not> b2 fl) rq) w) = (Ret (), w') \<and> P w'"
proof -
  obtain a c ty where o: "at_path (wfs w) acs (Reg a c)" "8 \<le> length c" "signed c ty" "ty \<in> signed_at_0"
    "\<not> is_stream ty" "sz_create_in Z ty = S_OK" "sz_stream Z (to_wide Z (abs_path acs)) (wfs w) = Some c"
    "sz_open Z ty c (CryptoGetTextPassword (e_password rq \<noteq> []) (to_wide Z (e_password rq))) = (S_OK, A)"
    "sz_loaded Z" "sz_proc Z" using assms(1) by (auto simp: opens_def)
  have ty: "ty \<noteq> UNKNOWN" using o(4) by (auto simp: signed_at_0_def)
  obtain w' where r: "extract_run Z junk h rq A (abs_path acs) ty (e_destFolder rq) 0 w1 = (Ret 0, w')" "P w'" using run by blast
  have to: "extract_to Z junk h rq A (abs_path acs) ty (e_destFolder rq) 0 w = (Ret (e_destFolder rq, 0), w')"
    using mk r(1) assms(4,5) by (simp add: extract_to_def bnd_app ret_app)
  have "extract_archive Z junk h rq (e_destFolder rq, 0) (abs_path acs) w = (Ret (e_destFolder rq, 0), w')"
    using o(5-8) ty assms(4) to by (simp add: extract_archive_def bnd_app detect_signed [OF o(1-4)] get_app)
  then have "extractFromArchive Z junk 0 h fl (feed h (extract_wire (\<not> b2 fl) rq) w) = (Ret (), w')"
    using o(9,10) read_request [OF assms(2)] assms(3)
    by (simp add: extractFromArchive_def bnd_app thn_app ret_app)
  with r(2) show ?thesis by blast
qed

text \<open>
  C5: an extraction stores the archive. Given an archive that opens, a library that calls back as documented for items of the
  archive (files and directories with ordinary ASCII names, whatever their attributes and times, data in any number of
  writes) and a destination that exists or can be created, the request is answered OK, every file of the archive exists
  below the destination with exactly the data of its item, and every directory; no file that was there before is changed
  or lost. With a list of entries and a prefix to strip (\<open>e_subDirLength\<close>) the same holds for the names without the prefix.
\<close>

theorem extraction_stores_entries:
  assumes "opens (with_p7zip_files Z) w acs (e_password rq) A" and "library_run A rq = ex_entries tot es"
    and "\<forall>e \<in> set es. entry_ok A (e_subDirLength rq) e"
    and "extract_rq_ok fl rq" and "e_archives rq = [abs_path acs]" and "\<not> e_smart rq"
    and "e_destFolder rq = abs_path (map to_narrow pcs)" and "\<forall>p \<in> set pcs. plain_name p"
    and "destination (root (wfs w)) (map to_narrow pcs)" and "no_faults (wfs w)" and "wr h w"
    and "\<forall>e \<in> set es. storable (root (wfs w)) (entry_item A pcs e)" and "separate (map (entry_item A pcs) es)"
  shows "\<exists>w' prog t. extractFromArchive (with_p7zip_files Z) junk 0 h fl (feed h (extract_wire (\<not> b2 fl) rq) w) = (Ret (), w')
    \<and> conns w' = conns (emit h (ok_wire @ prog @ le_bytes 8 maxuint @ ok_wire) w) \<and> wfs w' = (wfs w)\<lparr>root := t\<rparr>
    \<and> (\<forall>e \<in> set es. stored t (entry_item A pcs e)) \<and> files_kept (root (wfs w)) t"
proof -
  let ?cs = "map to_narrow pcs"
  have pcs: "pcs \<noteq> []" using assms(9) by (auto simp: destination_def)
  have good: "\<forall>c \<in> set ?cs. good_name c" using good_narrow plain_wide assms(8) by blast
  obtain e t1 a0 es0 where mk: "mkpathCopyPermissionsFromNearestAncestor (abs_path ?cs) True w = (Ret 0, w\<lparr>errno := e, wfs := (wfs w)\<lparr>root := t1\<rparr>\<rparr>)"
    "lookup t1 ?cs = Some (Dir a0 es0)" "item_effect (ItemDir (abs_path ?cs)) (root (wfs w)) t1"
    using destination_created [OF assms(9) good assms(10)] by blast
  let ?w1 = "w\<lparr>errno := e, wfs := (wfs w)\<lparr>root := t1\<rparr>\<rparr>"
  let ?P = "\<lambda>w'. \<exists>prog t. conns w' = conns (emit h (ok_wire @ prog @ le_bytes 8 maxuint @ ok_wire) w) \<and> wfs w' = (wfs w)\<lparr>root := t\<rparr>
    \<and> (\<forall>e \<in> set es. stored t (entry_item A pcs e)) \<and> files_kept (root (wfs w)) t"
  have st1: "\<forall>e \<in> set es. storable (root (wfs ?w1)) (entry_item A pcs e)"
    using below_destination_all [OF assms(12) mk(3) assms(3,8)] by (simp del: entry_item.simps)
  have w1: "no_faults (wfs ?w1)" "wr h ?w1" "lookup (root (wfs ?w1)) ?cs = Some (Dir a0 es0)" using assms(10,11) mk(2) by (simp_all add: wr_def)
  have "\<exists>w'. extract_run (with_p7zip_files Z) junk h rq A (abs_path acs) ty (e_destFolder rq) 0 ?w1 = (Ret 0, w') \<and> ?P w'" for ty
  proof -
    obtain w' prog t where r: "extract_run (with_p7zip_files Z) junk h rq A (abs_path acs) ty (e_destFolder rq) 0 ?w1 = (Ret 0, w')"
      "conns w' = conns (emit h (ok_wire @ prog @ le_bytes 8 maxuint @ ok_wire) ?w1)" "wfs w' = (wfs ?w1)\<lparr>root := t\<rparr>"
      "\<forall>e \<in> set es. stored t (entry_item A pcs e)" "files_kept (root (wfs ?w1)) t"
      using extract_run_stores [OF assms(2,3,7) pcs assms(8) w1(1,2) st1 assms(13) w1(3), of Z junk "abs_path acs" ty] by blast
    moreover have "conns w' = conns (emit h (ok_wire @ prog @ le_bytes 8 maxuint @ ok_wire) w)"
      using r(2) emit_conns [of ?w1 w h] by simp
    moreover have "files_kept (root (wfs w)) t" using item_effect_Some [OF mk(3)] r(5) by (force simp: files_kept_def)
    ultimately show ?thesis by (intro exI [of _ w'] conjI exI [of _ prog] exI [of _ t]) simp_all
  qed
  from extract_opened [where P = ?P, OF assms(1,4-6) _ mk(1) [folded assms(7)] this] assms(7) pcs show ?thesis by auto
qed

text \<open>An archive with a file in a directory and an empty directory.\<close>

definition tree_prop :: "u32 \<Rightarrow> propid \<Rightarrow> hresult \<times> variant" where
  "tree_prop i p = (S_OK,
     if p = kpidPath then VT_BSTR (if i = 0 then [0x61, 0x2F, 0x78] else [0x65])
     else if p = kpidIsDir then VT_BOOL (i \<noteq> 0) else if p = kpidAttrib then VT_UI4 0x81A48000 else VT_EMPTY)"

definition tree_entries :: "entry list" where
  "tree_entries = [(0, [[0x61], [0x78]], [PWrite [1, 2], PProgress 2, PWrite [3]]), (1, [[0x65]], [])]"

definition tree_archive :: in_archive where
  "tree_archive = \<lparr>ar_items = 2, ar_prop = tree_prop, ar_extract = (\<lambda>is t. ex_entries 3 tree_entries)\<rparr>"

definition tree_lib :: sevenzip where
  "tree_lib = (demo_lib 2 no_extract)\<lparr>sz_open := \<lambda>t c pw. (S_OK, tree_archive)\<rparr>"

definition tree_rq :: extract_rq where
  "tree_rq = \<lparr>e_archives = [''/d/b.zip''], e_destFolder = ''/d/o'', e_password = [], e_entries = [], e_subDirLength = 0, e_smart = False\<rparr>"

lemma tree_chars: "to_narrow [0x61] = ''a''" "to_narrow [0x78] = ''x''" "to_narrow [0x65] = ''e''" "to_narrow [0x64] = ''d''" "to_narrow [0x6F] = ''o''"
  by code_simp+

lemma tree_names: "plain_name [0x61]" "plain_name [0x78]" "plain_name [0x65]" "plain_name [0x64]" "plain_name [0x6F]"
  by (simp_all add: plain_name_def wide_name_def tree_chars good_name_def scalar_def slash_def)

lemma tree_described: "described tree_archive i"
  by (simp add: described_def item_info_def IsArchiveItemFolder_def tree_archive_def tree_prop_def Let_def no_link_def S_ISLNK_def S_IF_defs)

lemma tree_dirs: "IsArchiveItemFolder tree_archive i = Inr (i \<noteq> 0)"
  by (simp add: IsArchiveItemFolder_def tree_archive_def tree_prop_def)

lemma tree_items:
  "map (entry_item tree_archive [[0x64], [0x6F]]) tree_entries = [ItemFile ''/d/o/a/x'' [1, 2, 3], ItemDir ''/d/o/e'']"
  by (simp add: tree_entries_def tree_dirs tree_chars content_def)

lemma tree_opens: "opens (with_p7zip_files tree_lib) arch_world [''d'', ''b.zip''] [] tree_archive"
proof -
  have "posix_stream (to_wide (demo_lib 2 no_extract) ''/d/b.zip'') (wfs arch_world) = Some zip_bytes"
    using file_open_at_path [OF arch_world_at(2)] demo_narrow [of 2 no_extract] by (simp add: posix_stream_def)
  then show ?thesis
    using arch_world_at(2) arch_world_types
    by (auto simp: opens_def demo_lib_def tree_lib_def with_p7zip_files_def to_wide_def signed_at_0_def is_stream_def
        intro!: exI [of _ attr0] exI [of _ zip_bytes] exI [of _ ZIP])
qed

theorem extraction_stores_entries_witness:
  "\<exists>w' prog t a b bs. extractFromArchive (with_p7zip_files tree_lib) blank_xcb 0 Cl 7 (feed Cl (extract_wire False tree_rq) arch_world) = (Ret (), w')
    \<and> conns w' = conns (emit Cl (ok_wire @ prog @ le_bytes 8 maxuint @ ok_wire) arch_world) \<and> root (wfs w') = t
    \<and> lookup t [''d'', ''o'', ''a'', ''x''] = Some (Reg a [1, 2, 3]) \<and> lookup t [''d'', ''o'', ''e''] = Some (Dir b bs)"
proof -
  let ?pcs = "[[0x64], [0x6F]] :: wstr list"
  have b: "b2 7" "b0 7" by (simp_all add: b2_def b0_def)
  then have rq: "extract_rq_ok 7 tree_rq" by (simp add: extract_rq_ok_def tree_rq_def)
  have lib: "library_run tree_archive tree_rq = ex_entries 3 tree_entries" by (simp add: library_run_def tree_archive_def)
  have es: "\<forall>e \<in> set tree_entries. entry_ok tree_archive (e_subDirLength tree_rq) e"
    using tree_names
    by (simp add: entry_ok_def tree_entries_def tree_described tree_rq_def plain_name_def) (simp add: tree_archive_def tree_prop_def slash_def)
  have dest: "destination (root (wfs arch_world)) (map to_narrow ?pcs)"
    by (auto simp: destination_def tree_chars arch_world_def way_free_def less_Suc_eq)
  have st: "\<forall>it \<in> set (map (entry_item tree_archive ?pcs) tree_entries). storable (root (wfs arch_world)) it"
    unfolding tree_items
    by (auto simp: storable_def item_loc_def split_path_def arch_world_def good_name_def way_free_def less_Suc_eq)
  have sep: "separate (map (entry_item tree_archive ?pcs) tree_entries)"
    unfolding tree_items by (auto simp: separate_def apart_def item_loc_def split_path_def)
  have items: "entry_item tree_archive ?pcs ` set tree_entries = {ItemFile ''/d/o/a/x'' [1, 2, 3], ItemDir ''/d/o/e''}"
    using arg_cong [OF tree_items, of set] by simp
  have st': "\<forall>e \<in> set tree_entries. storable (root (wfs arch_world)) (entry_item tree_archive ?pcs e)"
    using st by (simp del: entry_item.simps)
  have op: "opens (with_p7zip_files tree_lib) arch_world [''d'', ''b.zip''] (e_password tree_rq) tree_archive"
    and ar: "e_archives tree_rq = [abs_path [''d'', ''b.zip'']]" and de: "e_destFolder tree_rq = abs_path (map to_narrow ?pcs)"
    and nm: "\<forall>p \<in> set ?pcs. plain_name p" and nf: "no_faults (wfs arch_world)"
    and sm: "\<not> e_smart tree_rq"
    using tree_opens tree_names arch_world_at(2) by (simp_all add: tree_rq_def tree_chars at_path_def)
  obtain w' prog t where r: "extractFromArchive (with_p7zip_files tree_lib) blank_xcb 0 Cl 7 (feed Cl (extract_wire (\<not> b2 7) tree_rq) arch_world) = (Ret (), w')"
    "conns w' = conns (emit Cl (ok_wire @ prog @ le_bytes 8 maxuint @ ok_wire) arch_world)" "wfs w' = (wfs arch_world)\<lparr>root := t\<rparr>"
    "\<forall>e \<in> set tree_entries. stored t (entry_item tree_archive ?pcs e)"
    using extraction_stores_entries [OF op lib es rq ar sm de nm dest nf spec [OF arch_world_wr, of Cl] st' sep, of blank_xcb] by blast
  have "\<forall>it \<in> entry_item tree_archive ?pcs ` set tree_entries. stored t it"
    using r(4) by (simp del: entry_item.simps)
  then have "stored t (ItemFile ''/d/o/a/x'' [1, 2, 3])" "stored t (ItemDir ''/d/o/e'')"
    unfolding items by simp_all
  then obtain a b bs where l: "lookup t [''d'', ''o'', ''a'', ''x''] = Some (Reg a [1, 2, 3])" "lookup t [''d'', ''o'', ''e''] = Some (Dir b bs)"
    by (auto simp: stored_def item_loc_def split_path_def)
  have fl: "(\<not> b2 7) = False" and t: "root (wfs w') = t" using b r(3) by simp_all
  show ?thesis
    by (intro exI [of _ w'] exI [of _ prog] exI [of _ t] exI [of _ a] exI [of _ b] exI [of _ bs] conjI)
      (rule r(1) [unfolded fl] r(2) t l)+
qed

end
