(* ===== verification/RH_Overwrite.thy ===== *)
theory RH_Overwrite
  imports RH_ExtractRun
begin

section \<open>Extraction over existing files, and names that look like others\<close>

text \<open>
  \<open>GetStream\<close> searches an older file with the name of an item before it creates the file, to delete it. The search
  (\<open>FindFirst\<close>) takes the name as a pattern of bytes, with a question mark for every character above 255. For ordinary
  names it finds exactly the older file; for other names it misses it, or finds another one.
\<close>

text \<open>A request on an archive whose only item is a file directly below the existing destination, with the entries \<open>bs\<close>.\<close>

definition one_file :: "in_archive \<Rightarrow> extract_rq \<Rightarrow> wstr list \<Rightarrow> entry \<Rightarrow> wstr \<Rightarrow> handle \<Rightarrow> world \<Rightarrow> (string \<times> node) list \<Rightarrow> bool" where
  "one_file A rq pcs e q h w bs \<longleftrightarrow>
     (\<exists>tot. library_run A rq = ex_entries tot [e]) \<and> entry_named A (e_subDirLength rq) e
   \<and> fst (snd e) = [q] \<and> IsArchiveItemFolder A (fst e) = Inr False
   \<and> e_destFolder rq = abs_path (map to_narrow pcs) \<and> pcs \<noteq> [] \<and> (\<forall>p \<in> set pcs. plain_name p)
   \<and> no_faults (wfs w) \<and> wr h w \<and> (\<exists>a. lookup (root (wfs w)) (map to_narrow pcs) = Some (Dir a bs))"

lemma one_fileD:
  assumes "one_file A rq pcs (i, ps, ds) q h w bs"
  obtains tot a0 where "ps = [q]" "library_run A rq = ex_entries tot [(i, [q], ds)]"
    "entry_named A (e_subDirLength rq) (i, [q], ds)" "IsArchiveItemFolder A i = Inr False"
    "e_destFolder rq = abs_path (map to_narrow pcs)" "pcs \<noteq> []" "\<forall>p \<in> set pcs. plain_name p" "no_faults (wfs w)" "wr h w"
    "lookup (root (wfs w)) (map to_narrow pcs) = Some (Dir a0 bs)"
    "\<forall>p \<in> set (pcs @ [q]). wide_name p" "\<forall>c \<in> set (map to_narrow (pcs @ [q])). good_name c"
    "dirs_above (root (wfs w)) (map to_narrow (pcs @ [q]))"
proof -
  obtain tot a0 where o: "ps = [q]" "library_run A rq = ex_entries tot [(i, [q], ds)]"
    "entry_named A (e_subDirLength rq) (i, [q], ds)" "IsArchiveItemFolder A i = Inr False"
    "e_destFolder rq = abs_path (map to_narrow pcs)" "pcs \<noteq> []" "\<forall>p \<in> set pcs. plain_name p" "no_faults (wfs w)" "wr h w"
    "lookup (root (wfs w)) (map to_narrow pcs) = Some (Dir a0 bs)"
    using assms by (simp add: one_file_def del: entry_named.simps) blast
  have names: "\<forall>p \<in> set (pcs @ [q]). wide_name p" using plain_wide [OF o(7)] o(3) by simp
  note good = good_narrow [OF names]
  have "at_path (wfs w) (map to_narrow pcs) (Dir a0 bs)"
    using good o(6) by (intro lookup_at_path [OF o(8) _ _ o(10)]) simp_all
  then have "dirs_above (root (wfs w)) (map to_narrow (pcs @ [q]))" using o(10) by (simp add: at_path_def dirs_above_snoc)
  with that o names good show ?thesis by blast
qed

lemma thn_ret: "thn (ret u) m = m"
  by (rule ext) (simp add: thn_app ret_app)

lemma one_file_stream:
  assumes named: "entry_named A n (i, [q], ds)" and is_file: "IsArchiveItemFolder A i = Inr False"
    and names: "\<forall>p \<in> set (pcs @ [q]). wide_name p" and x: "between pcs n x"
  shows "\<exists>x3. GetStream Z A i kExtract x = open_output Z (wide_abs (pcs @ [q])) x3
    \<and> (\<forall>y. during pcs n [q] False (x3\<lparr>x_outFileStream := y\<rparr>)) \<and> during pcs n [q] False x3"
proof -
  have "ReverseFind_PathSepar (tl (wide_abs [q])) = None" using rfind_tl [of "[]" q] names by simp
  with GetStream_prefix [OF named x, of Z] is_file show ?thesis by (auto simp: thn_ret)
qed

text \<open>An item whose file cannot be opened: nothing changes, and the answer is an error.\<close>

lemma one_file_refused:
  assumes one: "one_file A rq pcs (i, ps, ds) q h w bs" and op: "\<And>x u. wfs u = wfs w \<Longrightarrow> \<exists>r u'. open_output (with_p7zip_files Z) (wide_abs (pcs @ [q])) x u = (Ret (r, False, x), u')
      \<and> r \<noteq> Some S_OK \<and> wfs u' = wfs u \<and> conns u' = conns u"
  shows "\<exists>w' prog. extract_run (with_p7zip_files Z) junk h rq A src ty (e_destFolder rq) 0 w = (Ret 0, w')
    \<and> conns w' = conns (emit h (ok_wire @ prog @ le_bytes 8 maxuint @ error_wire NULL_OR_WRONG_PASSWORD) w) \<and> wfs w' = wfs w"
  using one
proof (rule one_fileD)
  fix tot a0
  assume lib: "library_run A rq = ex_entries tot [(i, [q], ds)]"
    and named: "entry_named A (e_subDirLength rq) (i, [q], ds)" and is_file: "IsArchiveItemFolder A i = Inr False"
    and dest: "e_destFolder rq = abs_path (map to_narrow pcs)" "pcs \<noteq> []" "\<forall>p \<in> set pcs. plain_name p"
    and wr: "wr h w" and names: "\<forall>p \<in> set (pcs @ [q]). wide_name p"
  note stream = one_file_stream [OF named is_file names]
  have "\<exists>x' w' out. run_extract (with_p7zip_files Z) A h (foldr ex_entry [(i, [q], ds)] (ExDone S_OK)) x u = (Ret (E_FAIL, x'), w')
      \<and> between pcs (e_subDirLength rq) x' \<and> conns w' = conns (emit h out u) \<and> wfs w' = wfs w"
    if b: "between pcs (e_subDirLength rq) x" and u: "wfs u = wfs w" for x u
  proof -
    obtain x3 where g: "GetStream (with_p7zip_files Z) A i kExtract x = open_output (with_p7zip_files Z) (wide_abs (pcs @ [q])) x3"
      "during pcs (e_subDirLength rq) [q] False x3" using stream [OF b, of "with_p7zip_files Z"] by blast
    obtain r u' where o: "open_output (with_p7zip_files Z) (wide_abs (pcs @ [q])) x3 u = (Ret (r, False, x3), u')"
      "r \<noteq> Some S_OK" "wfs u' = wfs u" "conns u' = conns u" using op [OF u] by blast
    have "run_extract (with_p7zip_files Z) A h (foldr ex_entry [(i, [q], ds)] (ExDone S_OK)) x u = (Ret (E_FAIL, x3), u')"
      using g(1) o(1,2) by (simp add: bnd_app ret_app ex_callback_def)
    moreover have "conns u' = conns (emit h [] u)" using told_none [OF o(4)] .
    ultimately show ?thesis using g(2) o(3) u unfolding during_def by metis
  qed
  from extract_run_result [where Q = "\<lambda>f. f = wfs w", OF lib dest wr this, of junk src ty] show ?thesis
    by (auto simp: S_OK_def E_FAIL_def)
qed

text \<open>An item whose file is opened at its start, with the content \<open>old\<close>.\<close>

lemma one_file_written:
  assumes one: "one_file A rq pcs (i, ps, ds) q h w bs" and op: "\<And>x u. wfs u = wfs w \<Longrightarrow> \<exists>e. open_output (with_p7zip_files Z) (wide_abs (pcs @ [q])) x u
      = (Ret (Some S_OK, True, x\<lparr>x_outFileStream := Some \<lparr>fd_path = abs_path l, fd_loc = l, fd_pos = 0\<rparr>\<rparr>),
         u\<lparr>errno := e, wfs := (wfs u)\<lparr>root := t\<rparr>\<rparr>)"
    and l: "l = map to_narrow (pcs @ [q])" and old: "lookup t l = Some (Reg g old)"
  shows "\<exists>w' prog g'. extract_run (with_p7zip_files Z) junk h rq A src ty (e_destFolder rq) 0 w = (Ret 0, w')
    \<and> conns w' = conns (emit h (ok_wire @ prog @ le_bytes 8 maxuint @ ok_wire) w)
    \<and> wfs w' = (wfs w)\<lparr>root := put_at l (Reg g' (content ds @ drop (length (content ds)) old)) t\<rparr>"
  using one
proof (rule one_fileD)
  fix tot a0
  assume lib: "library_run A rq = ex_entries tot [(i, [q], ds)]"
    and named: "entry_named A (e_subDirLength rq) (i, [q], ds)" and is_file: "IsArchiveItemFolder A i = Inr False"
    and dest: "e_destFolder rq = abs_path (map to_narrow pcs)" "pcs \<noteq> []" "\<forall>p \<in> set pcs. plain_name p"
    and nf: "no_faults (wfs w)" and wr: "wr h w" and names: "\<forall>p \<in> set (pcs @ [q]). wide_name p"
  note stream = one_file_stream [OF named is_file names]
  let ?Z = "with_p7zip_files Z" and ?d = "\<lparr>fd_path = abs_path l, fd_loc = l, fd_pos = 0\<rparr>"
  let ?Q = "\<lambda>f. \<exists>g'. f = (wfs w)\<lparr>root := put_at l (Reg g' (content ds @ drop (length (content ds)) old)) t\<rparr>"
  have "\<exists>x' w' out. run_extract ?Z A h (foldr ex_entry [(i, [q], ds)] (ExDone S_OK)) x u = (Ret (S_OK, x'), w')
      \<and> between pcs (e_subDirLength rq) x' \<and> conns w' = conns (emit h out u) \<and> ?Q (wfs w')"
    if b: "between pcs (e_subDirLength rq) x" and wu: "wr h u" and u: "wfs u = wfs w" for x u
  proof -
    obtain x3 where gs: "GetStream ?Z A i kExtract x = open_output ?Z (wide_abs (pcs @ [q])) x3"
      "\<And>y. during pcs (e_subDirLength rq) [q] False (x3\<lparr>x_outFileStream := y\<rparr>)" using stream [OF b, of "with_p7zip_files Z"] by blast
    obtain e where o: "open_output ?Z (wide_abs (pcs @ [q])) x3 u
      = (Ret (Some S_OK, True, x3\<lparr>x_outFileStream := Some ?d\<rparr>), u\<lparr>errno := e, wfs := (wfs u)\<lparr>root := t\<rparr>\<rparr>)" using op [OF u] by blast
    let ?u = "u\<lparr>errno := e, wfs := (wfs u)\<lparr>root := t\<rparr>\<rparr>" and ?x = "x3\<lparr>x_outFileStream := Some ?d, x_extractMode := True\<rparr>"
    have run: "run_extract ?Z A h (foldr ex_entry [(i, [q], ds)] (ExDone S_OK)) x u
        = run_extract ?Z A h (ex_parts ds (ex_end (ExDone S_OK))) ?x ?u"
      using gs(1) o by (simp add: bnd_app ret_app ex_callback_def PrepareOperation_def plain_ans_def ex_end_def)
    have du: "during pcs (e_subDirLength rq) [q] False ?x" using gs(2) [of "Some ?d"] by (simp add: during_def between_def no_link_def)
    have f: "no_faults (wfs ?u)" "wr h ?u" "lookup (root (wfs ?u)) l = Some (Reg g old)" "l \<noteq> []"
      using nf u wu old l by (simp_all add: wr_def)
    obtain x' w' out g' where r: "run_extract ?Z A h (ex_parts ds (ex_end (ExDone S_OK))) ?x ?u = run_extract ?Z A h (ExDone S_OK) x' w'"
      "between pcs (e_subDirLength rq) x'" "conns w' = conns (emit h out ?u)"
      "wfs w' = (wfs ?u)\<lparr>root := put_at l (Reg g' (content ds @ drop (length (content ds)) old)) (root (wfs ?u))\<rparr>"
      using file_rest [OF du _ l f(4) names f(1,2,3), of Z A ds "ExDone S_OK"] by auto
    have "conns w' = conns (emit h out u)" using r(3) emit_conns [of ?u u h out] by simp
    moreover have "?Q (wfs w')" using r(4) u by auto
    moreover have "run_extract ?Z A h (foldr ex_entry [(i, [q], ds)] (ExDone S_OK)) x u = (Ret (S_OK, x'), w')"
      unfolding run r(1) by (simp add: ret_app)
    ultimately show ?thesis using r(2) by blast
  qed
  from extract_run_result [where Q = ?Q, OF lib dest wr this, of junk src ty]
  obtain w' prog where r: "extract_run ?Z junk h rq A src ty (e_destFolder rq) 0 w = (Ret 0, w')"
    "conns w' = conns (emit h (ok_wire @ prog @ le_bytes 8 maxuint @ ok_wire) w)" "?Q (wfs w')" unfolding if_P [OF refl] by blast
  then show ?thesis by blast
qed

subsection \<open>The search, the deletion and the creation\<close>

lemma narrow_file:
  assumes "\<forall>p \<in> set (pcs @ [q]). wide_name p"
  shows "nameWindowToUnix2 (wide_abs (pcs @ [q])) = abs_path (map to_narrow (pcs @ [q]))"
    and "wcs (wide_abs (pcs @ [q])) \<noteq> []"
proof -
  show "nameWindowToUnix2 (wide_abs (pcs @ [q])) = abs_path (map to_narrow (pcs @ [q]))"
    using narrow_abs [OF assms] by (simp add: nameWindowToUnix2_def del: wide_abs_append abs_path_append)
  have "wcs (wide_abs (pcs @ [q])) = wide_abs (pcs @ [q])" using wide_abs_scalar [OF assms] by (intro wcs_id scalar_nonzero)
  then show "wcs (wide_abs (pcs @ [q])) \<noteq> []" by simp
qed

lemma fillin_result: "\<exists>r w'. fillin_CFileInfo d n w = (Ret r, w') \<and> wfs w' = wfs w \<and> conns w' = conns w \<and> r \<noteq> Some False"
  by (cases "sys_lstat (entry_name_of d n) (wfs w)")
    (simp_all add: fillin_CFileInfo_def bnd_app ret_app io_query_def)

lemma open_lookalike:
  assumes one: "one_file A rq pcs e q h w bs" and missing: "lookup (root (wfs w)) (map to_narrow (pcs @ [q])) = None"
    and match: "find (\<lambda>n. filter_pattern n (map one_byte q)) ([''.'', ''..''] @ map fst bs) = Some nm" and u: "wfs u = wfs w"
  shows "\<exists>r u'. open_output (with_p7zip_files Z) (wide_abs (pcs @ [q])) x u = (Ret (r, False, x), u')
      \<and> r \<noteq> Some S_OK \<and> wfs u' = wfs u \<and> conns u' = conns u"
proof -
  obtain i ps ds where e: "e = (i, ps, ds)" by (cases e)
  from one [unfolded e] show ?thesis
  proof (rule one_fileD)
    fix tot a0
    assume o: "\<forall>p \<in> set pcs. plain_name p" "pcs \<noteq> []" "no_faults (wfs w)" "lookup (root (wfs w)) (map to_narrow pcs) = Some (Dir a0 bs)"
      "\<forall>p \<in> set (pcs @ [q]). wide_name p" "\<forall>c \<in> set (map to_narrow (pcs @ [q])). good_name c"
      "dirs_above (root (wfs w)) (map to_narrow (pcs @ [q]))"
    have above: "dirs_above (root (wfs w)) (map to_narrow pcs)" using o(7) by (simp add: dirs_above_snoc)
    obtain r u1 where f: "FindFirst (wide_abs (pcs @ [q])) u = (Ret r, u1)" "wfs u1 = wfs w" "conns u1 = conns u" "r \<noteq> Some False"
      using FindFirst_pattern [of pcs q u a0 bs] o(1-5) above u match fillin_result [of "abs_path (map to_narrow pcs)" nm u] by auto
    have "resolve (wfs u1) False (abs_path (map to_narrow (pcs @ [q]))) = Missing (map to_narrow (pcs @ [q]))"
      using resolve_plain_Missing [OF o(6) _ o(7) missing] f(2) by simp
    then have del: "DeleteFileAlways (wide_abs (pcs @ [q])) u1 = (Ret False, u1\<lparr>errno := ENOENT\<rparr>)"
      using narrow_file [OF o(5)] o(3) f(2)
      by (simp add: DeleteFileAlways_def io_update_def sys_remove_def no_faults_faulty ENOENT_def del: wide_abs_append abs_path_append)
    show ?thesis
    proof (cases r)
      case None
      with f u show ?thesis
        by (intro exI [of _ None] exI [of _ u1]) (simp add: open_output_def bnd_app ret_app)
    next
      case (Some b)
      then have "r = Some True" using f(4) by (cases b) simp_all
      with f u del show ?thesis
        by (intro exI [of _ "Some E_ABORT"] exI [of _ "u1\<lparr>errno := ENOENT\<rparr>"])
          (simp add: open_output_def bnd_app ret_app S_OK_def E_ABORT_def del: wide_abs_append)
    qed
  qed
qed

lemma Create_out_existing:
  assumes at: "at_path (wfs u) l (Reg g old)" and nm: "nameWindowToUnix2 p = abs_path l"
  shows "\<exists>e. Create_out p u = (Ret (Some \<lparr>fd_path = abs_path l, fd_loc = l, fd_pos = 0\<rparr>), u\<lparr>errno := e\<rparr>)"
proof -
  have a: "no_faults (wfs u)" "\<forall>c \<in> set l. good_name c" "l \<noteq> []" "dirs_above (root (wfs u)) l" "lookup (root (wfs u)) l = Some (Reg g old)"
    using at by (simp_all add: at_path_def)
  have r: "resolve (wfs u) b (abs_path l) = Found l" for b using resolve_plain_Found [OF a(2-5)] by simp
  have rl: "sys_readlink (abs_path l) (wfs u) = Inl EINVAL"
    using r a(1,5) by (simp add: sys_readlink_def stat_gen_def no_faults_faulty)
  have "raw_open (abs_path l) (u\<lparr>errno := EINVAL\<rparr>) = (Ret (Some \<lparr>fd_path = abs_path l, fd_loc = l, fd_pos = 0\<rparr>), u\<lparr>errno := EINVAL\<rparr>)"
    using r a(1,5) by (simp add: raw_open_def open_creat_def sys_open_write_def no_faults_faulty)
  then show ?thesis
    using rl nameWindowToUnix_abs [OF a(3)] by (intro exI [of _ EINVAL]) (simp add: Create_out_def nm Let_def bnd_app io_query_def)
qed

lemma open_missed:
  assumes one: "one_file A rq pcs e q h w bs" and old: "lookup (root (wfs w)) l = Some (Reg g old)" and l: "l = map to_narrow (pcs @ [q])"
    and miss: "\<forall>n \<in> set ([''.'', ''..''] @ map fst bs). \<not> filter_pattern n (map one_byte q)" and u: "wfs u = wfs w"
  shows "\<exists>c. open_output (with_p7zip_files Z) (wide_abs (pcs @ [q])) x u
      = (Ret (Some S_OK, True, x\<lparr>x_outFileStream := Some \<lparr>fd_path = abs_path l, fd_loc = l, fd_pos = 0\<rparr>\<rparr>),
         u\<lparr>errno := c, wfs := (wfs u)\<lparr>root := root (wfs w)\<rparr>\<rparr>)"
proof -
  obtain i ps ds where e: "e = (i, ps, ds)" by (cases e)
  from one [unfolded e] show ?thesis
  proof (rule one_fileD)
    fix tot a0
    assume o: "\<forall>p \<in> set pcs. plain_name p" "pcs \<noteq> []" "no_faults (wfs w)" "lookup (root (wfs w)) (map to_narrow pcs) = Some (Dir a0 bs)"
      "\<forall>p \<in> set (pcs @ [q]). wide_name p" "\<forall>c \<in> set (map to_narrow (pcs @ [q])). good_name c"
      "dirs_above (root (wfs w)) (map to_narrow (pcs @ [q]))"
    have above: "dirs_above (root (wfs w)) (map to_narrow pcs)" using o(7) by (simp add: dirs_above_snoc)
    have "find (\<lambda>n. filter_pattern n (map one_byte q)) ([''.'', ''..''] @ map fst bs) = None" using miss unfolding find_None_iff by blast
    then have f: "FindFirst (wide_abs (pcs @ [q])) u = (Ret (Some False), u\<lparr>errno := ERROR_NO_MORE_FILES\<rparr>)"
      using FindFirst_pattern [of pcs q u a0 bs] o(1-5) above u by simp
    have "at_path (wfs (u\<lparr>errno := ERROR_NO_MORE_FILES\<rparr>)) l (Reg g old)"
      using old l o(3,6) u by (intro lookup_at_path) simp_all
    from Create_out_existing [OF this, of "wide_abs (pcs @ [q])"] obtain c where
      "Create_out (wide_abs (pcs @ [q])) (u\<lparr>errno := ERROR_NO_MORE_FILES\<rparr>)
        = (Ret (Some \<lparr>fd_path = abs_path l, fd_loc = l, fd_pos = 0\<rparr>), u\<lparr>errno := ERROR_NO_MORE_FILES, errno := c\<rparr>)"
      using narrow_file(1) [OF o(5)] l by blast
    with f u show ?thesis
      by (intro exI [of _ c]) (simp add: open_output_def bnd_app ret_app del: wide_abs_append)
  qed
qed

lemma lookup_put_new: "\<lbrakk>dirs_above t l; l \<noteq> []\<rbrakk> \<Longrightarrow> lookup (put_at l n t) l = Some n"
  using lookup_put_same [of t l _ n] by (metis butlast_conv_take diff_less dirs_above_def is_dir.simps(1) length_greater_0_conv zero_less_one)

lemma open_replaced:
  assumes one: "one_file A rq pcs e q h w bs" and old: "lookup (root (wfs w)) l = Some (Reg g old)" and l: "l = map to_narrow (pcs @ [q])"
    and plain: "plain_name q" "length (abs_path l) + 1 < MAX_PATHNAME_LEN" and u: "wfs u = wfs w"
  shows "\<exists>c. open_output (with_p7zip_files Z) (wide_abs (pcs @ [q])) x u
      = (Ret (Some S_OK, True, x\<lparr>x_outFileStream := Some \<lparr>fd_path = abs_path l, fd_loc = l, fd_pos = 0\<rparr>\<rparr>),
         u\<lparr>errno := c, wfs := (wfs u)\<lparr>root := put_at l (Reg (new_attr 438 (wfs w)) []) (del_at l (root (wfs w)))\<rparr>\<rparr>)"
proof -
  obtain i ps ds where e: "e = (i, ps, ds)" by (cases e)
  from one [unfolded e] show ?thesis
  proof (rule one_fileD)
    fix tot a0
    assume o: "\<forall>p \<in> set pcs. plain_name p" "pcs \<noteq> []" "no_faults (wfs w)" "lookup (root (wfs w)) (map to_narrow pcs) = Some (Dir a0 bs)"
      "\<forall>p \<in> set (pcs @ [q]). wide_name p" "\<forall>c \<in> set (map to_narrow (pcs @ [q])). good_name c"
      "dirs_above (root (wfs w)) (map to_narrow (pcs @ [q]))"
    have above: "dirs_above (root (wfs w)) (map to_narrow pcs)" using o(7) by (simp add: dirs_above_snoc)
    have ne: "l \<noteq> []" and good: "\<forall>c \<in> set l. good_name c" and ab: "dirs_above (root (wfs w)) l" using o(6,7) l by simp_all
    have f: "FindFirst (wide_abs (pcs @ [q])) u = (Ret (Some True), u)"
      using FindFirst_run [of pcs q u a0 bs] o(1-4) above u old plain l by (simp add: Let_def del: wide_abs_append abs_path_append)
    let ?u = "u\<lparr>wfs := (wfs u)\<lparr>root := del_at l (root (wfs u))\<rparr>\<rparr>"
    have "resolve (wfs u) False (abs_path l) = Found l" using resolve_plain_Found [OF good ne _ _, of "wfs u"] ab old u by simp
    then have del: "DeleteFileAlways (wide_abs (pcs @ [q])) u = (Ret True, ?u)"
      using narrow_file [OF o(5)] o(3) u ne old l
      by (simp add: DeleteFileAlways_def io_update_def sys_remove_def no_faults_faulty del: wide_abs_append abs_path_append)
    have gone: "lookup (del_at l (root (wfs w))) l = None" using lookup_del_same [OF ne] .
    note ab2 = dirs_above_del [OF ab]
    have "Create_out (wide_abs (pcs @ [q])) ?u = (Ret (Some \<lparr>fd_path = abs_path l, fd_loc = l, fd_pos = 0\<rparr>),
        ?u\<lparr>errno := ENOENT, wfs := (wfs ?u)\<lparr>root := put_at l (Reg (new_attr 438 (wfs ?u)) []) (root (wfs ?u))\<rparr>\<rparr>)"
      using o(3) u ab2 gone l by (intro Create_out_new [OF _ o(5)]) simp_all
    with f del u show ?thesis
      by (intro exI [of _ ENOENT]) (simp add: open_output_def bnd_app ret_app new_attr_def del: wide_abs_append)
  qed
qed

subsection \<open>The properties\<close>

text \<open>
  C38: extraction of a file whose name looks like another one is refused. If there is no file with the name of the item, but
  the bytes of the name, with a question mark for every character above 255, match some entry of the destination (the
  entries ``.'' and ``..'' among them), then nothing is extracted: the answer is the error of a wrong password, and no file
  changes. Every name of one or two characters above 255, such as a Chinese one, is refused so in every directory.
\<close>

theorem lookalike_refuses_extraction:
  assumes "one_file A rq pcs e q h w bs" and "lookup (root (wfs w)) (map to_narrow (pcs @ [q])) = None"
    and "n \<in> set ([''.'', ''..''] @ map fst bs)" and "filter_pattern n (map one_byte q)"
  shows "\<exists>w' prog. extract_run (with_p7zip_files Z) junk h rq A src ty (e_destFolder rq) 0 w = (Ret 0, w')
    \<and> conns w' = conns (emit h (ok_wire @ prog @ le_bytes 8 maxuint @ error_wire NULL_OR_WRONG_PASSWORD) w) \<and> wfs w' = wfs w"
proof -
  obtain i ps ds where e: "e = (i, ps, ds)" by (cases e)
  have "find (\<lambda>n. filter_pattern n (map one_byte q)) ([''.'', ''..''] @ map fst bs) \<noteq> None"
    using assms(3,4) unfolding find_None_iff by blast
  then obtain nm where "find (\<lambda>n. filter_pattern n (map one_byte q)) ([''.'', ''..''] @ map fst bs) = Some nm" by blast
  from one_file_refused [OF assms(1) [unfolded e] open_lookalike [OF assms(1,2) this]] show ?thesis .
qed

text \<open>
  C39: extraction over a file with a name that is not ASCII keeps its tail. If the older file is not found by its bytes, it is
  neither deleted nor truncated: after a successful extraction the file holds the data of the item followed by what the old
  content has beyond their length.
\<close>

theorem extraction_keeps_tail:
  assumes "one_file A rq pcs (i, ps, ds) q h w bs" and "l = map to_narrow (pcs @ [q])" and "lookup (root (wfs w)) l = Some (Reg g old)"
    and "\<forall>n \<in> set ([''.'', ''..''] @ map fst bs). \<not> filter_pattern n (map one_byte q)"
  shows "\<exists>w' prog g'. extract_run (with_p7zip_files Z) junk h rq A src ty (e_destFolder rq) 0 w = (Ret 0, w')
    \<and> conns w' = conns (emit h (ok_wire @ prog @ le_bytes 8 maxuint @ ok_wire) w)
    \<and> wfs w' = (wfs w)\<lparr>root := put_at l (Reg g' (content ds @ drop (length (content ds)) old)) (root (wfs w))\<rparr>"
  using one_file_written [OF assms(1) open_missed [OF assms(1,3,2,4)] assms(2,3)] .

text \<open>
  C18: extraction over a file with an ordinary name replaces it: the older file is deleted, a new one is made, and it holds
  exactly the data of the item; nothing else changes.
\<close>

theorem extraction_replaces_file:
  assumes "one_file A rq pcs (i, ps, ds) q h w bs" and "l = map to_narrow (pcs @ [q])" and "lookup (root (wfs w)) l = Some (Reg g old)"
    and "plain_name q" and "length (abs_path l) + 1 < MAX_PATHNAME_LEN"
  shows "\<exists>w' prog g'. extract_run (with_p7zip_files Z) junk h rq A src ty (e_destFolder rq) 0 w = (Ret 0, w')
    \<and> conns w' = conns (emit h (ok_wire @ prog @ le_bytes 8 maxuint @ ok_wire) w)
    \<and> wfs w' = (wfs w)\<lparr>root := put_at l (Reg g' (content ds)) (del_at l (root (wfs w)))\<rparr>"
proof -
  have "dirs_above (root (wfs w)) l" "l \<noteq> []" using one_fileD [OF assms(1)] assms(2) by (metis, simp)
  then have "lookup (put_at l (Reg (new_attr 438 (wfs w)) []) (del_at l (root (wfs w)))) l = Some (Reg (new_attr 438 (wfs w)) [])"
    by (intro lookup_put_new dirs_above_del)
  from one_file_written [OF assms(1) open_replaced [OF assms(1,3,2,4,5)] assms(2) this, of Z junk src ty]
  show ?thesis by (simp add: put_put)
qed

subsection \<open>Witnesses\<close>

text \<open>A directory with two files, and archives of one file each: an ideograph, a name with an accent, an ordinary name.\<close>

definition cup_world :: world where
  "cup_world = world0\<lparr>wfs := fs0\<lparr>root := Dir attr0 [(''d'', Dir attr0
     [(to_narrow [0xE9], Reg attr0 [9, 8, 7, 6]), (''e'', Reg attr0 [9, 8, 7, 6])])]\<rparr>\<rparr>"

definition cup_archive :: "wstr \<Rightarrow> in_archive" where
  "cup_archive q = \<lparr>ar_items = 1, ar_prop = (\<lambda>i p. (S_OK,
     if p = kpidPath then VT_BSTR q else if p = kpidIsDir then VT_BOOL False else VT_EMPTY)),
     ar_extract = (\<lambda>is t. ex_entries 2 [(0, [q], [PWrite [1, 2]])])\<rparr>"

definition cup_rq :: extract_rq where
  "cup_rq = \<lparr>e_archives = [''/d/b.zip''], e_destFolder = ''/d'', e_password = [], e_entries = [], e_subDirLength = 0, e_smart = False\<rparr>"

lemma cup_chars: "to_narrow [0xE9] = [CHR 0xC3, CHR 0xA9]" "to_narrow [0x65E5] = [CHR 0xE6, CHR 0x97, CHR 0xA5]"
  "map one_byte [0xE9] = [CHR 0xE9]" "map one_byte [0x65E5] = ''?''"
  by code_simp+

lemma cup_dest: "e_destFolder cup_rq = ''/d''"
  by (simp add: cup_rq_def)

lemma cup_match: "filter_pattern ''.'' (map one_byte [0x65E5])"
  "\<forall>n \<in> set ([''.'', ''..''] @ map fst [(to_narrow [0xE9], Reg attr0 [9, 8, 7, 6]), (''e'', Reg attr0 [9, 8, 7, 6])]).
     \<not> filter_pattern n (map one_byte [0xE9])"
  unfolding cup_chars by simp_all

lemma cup_names: "wide_name [0xE9]" "wide_name [0x65E5]"
  by (simp_all add: wide_name_def cup_chars good_name_def scalar_def slash_def)

lemma cup_one:
  assumes "wide_name q"
  shows "one_file (cup_archive q) cup_rq [[0x64]] (0, [q], [PWrite [1, 2]]) q Cl cup_world
    [(to_narrow [0xE9], Reg attr0 [9, 8, 7, 6]), (''e'', Reg attr0 [9, 8, 7, 6])]"
proof -
  have "0 \<notin> set q" using assms by (intro scalar_nonzero) (simp add: wide_name_def)
  moreover have "described (cup_archive q) 0"
    by (simp add: described_def item_info_def IsArchiveItemFolder_def cup_archive_def Let_def no_link_def)
  moreover have "no_faults (wfs cup_world)" "wr Cl cup_world" by (auto simp: cup_world_def no_faults_def)
  ultimately show ?thesis
    using assms tree_names(4)
    by (simp add: one_file_def cup_rq_def tree_chars library_run_def IsArchiveItemFolder_def cup_world_def)
      (auto simp: cup_archive_def)
qed

theorem lookalike_refuses_extraction_witness:
  "\<exists>w' prog. extract_run (with_p7zip_files tree_lib) blank_xcb Cl cup_rq (cup_archive [0x65E5]) [] ZIP ''/d'' 0 cup_world = (Ret 0, w')
    \<and> conns w' = conns (emit Cl (ok_wire @ prog @ le_bytes 8 maxuint @ error_wire NULL_OR_WRONG_PASSWORD) cup_world)
    \<and> wfs w' = wfs cup_world"
proof -
  have "lookup (root (wfs cup_world)) (map to_narrow ([[0x64]] @ [[0x65E5]])) = None" by (simp add: cup_world_def tree_chars cup_chars)
  from lookalike_refuses_extraction [OF cup_one [OF cup_names(2)] this _ cup_match(1), of tree_lib blank_xcb "[]" ZIP]
  show ?thesis unfolding cup_dest by simp
qed

theorem extraction_keeps_tail_witness:
  "\<exists>w' prog g. extract_run (with_p7zip_files tree_lib) blank_xcb Cl cup_rq (cup_archive [0xE9]) [] ZIP ''/d'' 0 cup_world = (Ret 0, w')
    \<and> conns w' = conns (emit Cl (ok_wire @ prog @ le_bytes 8 maxuint @ ok_wire) cup_world)
    \<and> lookup (root (wfs w')) [''d'', [CHR 0xC3, CHR 0xA9]] = Some (Reg g [1, 2, 7, 6])"
proof -
  have old: "lookup (root (wfs cup_world)) [''d'', [CHR 0xC3, CHR 0xA9]] = Some (Reg attr0 [9, 8, 7, 6])" by (simp add: cup_world_def cup_chars)
  have l: "[''d'', [CHR 0xC3, CHR 0xA9]] = map to_narrow ([[0x64]] @ [[0xE9]])" by (simp add: tree_chars cup_chars)
  obtain w' prog g' where r: "extract_run (with_p7zip_files tree_lib) blank_xcb Cl cup_rq (cup_archive [0xE9]) [] ZIP (e_destFolder cup_rq) 0 cup_world = (Ret 0, w')"
    "conns w' = conns (emit Cl (ok_wire @ prog @ le_bytes 8 maxuint @ ok_wire) cup_world)"
    "wfs w' = (wfs cup_world)\<lparr>root := put_at [''d'', [CHR 0xC3, CHR 0xA9]]
       (Reg g' (content [PWrite [1, 2]] @ drop (length (content [PWrite [1, 2]])) [9, 8, 7, 6])) (root (wfs cup_world))\<rparr>"
    using extraction_keeps_tail [OF cup_one [OF cup_names(1)] l old cup_match(2), of tree_lib blank_xcb "[]" ZIP] by blast
  have "lookup (root (wfs w')) [''d'', [CHR 0xC3, CHR 0xA9]] = Some (Reg g' [1, 2, 7, 6])"
    unfolding r(3) using lookup_put_existing [OF old] by (simp add: content_def)
  with r(1,2) show ?thesis unfolding cup_dest by blast
qed

theorem extraction_replaces_file_witness:
  "\<exists>w' prog g. extract_run (with_p7zip_files tree_lib) blank_xcb Cl cup_rq (cup_archive [0x65]) [] ZIP ''/d'' 0 cup_world = (Ret 0, w')
    \<and> conns w' = conns (emit Cl (ok_wire @ prog @ le_bytes 8 maxuint @ ok_wire) cup_world)
    \<and> root (wfs w') = put_at [''d'', ''e''] (Reg g [1, 2]) (del_at [''d'', ''e''] (root (wfs cup_world)))"
proof -
  have old: "lookup (root (wfs cup_world)) [''d'', ''e''] = Some (Reg attr0 [9, 8, 7, 6])" by (simp add: cup_world_def cup_chars)
  have l: "[''d'', ''e''] = map to_narrow ([[0x64]] @ [[0x65]])" by (simp add: tree_chars)
  have wide: "wide_name [0x65]" and len: "length (abs_path [''d'', ''e'']) + 1 < MAX_PATHNAME_LEN"
    using tree_names(3) by (simp_all add: plain_name_def MAX_PATHNAME_LEN_def)
  from extraction_replaces_file [OF cup_one [OF wide] l old tree_names(3) len, of tree_lib blank_xcb "[]" ZIP]
  show ?thesis unfolding cup_dest by (auto simp: content_def)
qed

end
