(* ===== verification/RH_Spmc.thy ===== *)
theory RH_Spmc
  imports RH_Prelude
begin

section \<open>The queue of blocks between a producer and its consumers\<close>

text \<open>
  Spmc_queue_lockfree.hpp: a linked list of blocks without locks. One thread produces, the consumers (the task that
  hashes, the task that writes the file) follow the list; the last one to process a block deletes its node. Every access to
  shared memory is a step of its own, in any interleaving. An access to a node that is deleted is undefined in C++; here the
  state is \<open>crashed\<close>. Memory is sequentially consistent, and addresses are not used again.
\<close>

subsection \<open>State\<close>

datatype next_ptr = SPMC_QUEUE_WAIT | Nullptr | Ptr nat

record spmc_node =
  nd_data :: "byte list"
  nd_next :: next_ptr
  nd_done :: u8

definition new_node :: "byte list \<Rightarrow> spmc_node" where
  "new_node v = \<lparr>nd_data = v, nd_next = SPMC_QUEUE_WAIT, nd_done = 0\<rparr>"

definition SPMC_MAX_QUEUE_SIZE :: int where "SPMC_MAX_QUEUE_SIZE = 20"

text \<open>
  Where the producer is: before the next block; with a new node that is not linked yet; before \<open>Spmc_Queue_Size++\<close>;
  at the end.
\<close>

datatype producer = P_Block | P_Link nat | P_Count | P_Done

text \<open>
  Where a consumer is, with the address of \<open>curNode\<close> and \<open>reread\<close>: before \<open>processItem\<close>; before \<open>++n\<close>; before reading
  \<open>nextNode\<close>; before reading it again to advance; before \<open>delete\<close>; before \<open>Spmc_Queue_Size--\<close>; returned. The
  option is the node to go on with.
\<close>

datatype consumer = C_Item nat | C_Count nat | C_Poll nat u8 | C_Move nat u8 | C_Free nat "nat option" | C_Sub "nat option" | C_Done

record spmc =
  heap :: "nat \<Rightarrow> spmc_node option"
  fresh :: nat
  q_size :: "16 word"
  prd :: producer
  todo :: "byte list list"
  cur_next :: nat
  cons :: "nat \<Rightarrow> consumer"
  items :: "nat \<Rightarrow> byte list list"
  crashed :: bool

text \<open>The consumers start when the first node exists. \<open>items\<close>: what \<open>processItem\<close> was called with.\<close>

definition spmc_start :: "byte list \<Rightarrow> byte list list \<Rightarrow> spmc" where
  "spmc_start b bs = \<lparr>heap = [0 \<mapsto> new_node b], fresh = 1, q_size = 1, prd = P_Block, todo = bs, cur_next = 0,
     cons = (\<lambda>_. C_Item 0), items = (\<lambda>_. []), crashed = False\<rparr>"

subsection \<open>Steps\<close>

definition crash :: "spmc \<Rightarrow> spmc" where
  "crash s = s\<lparr>crashed := True\<rparr>"

definition at_cons :: "nat \<Rightarrow> consumer \<Rightarrow> spmc \<Rightarrow> spmc" where
  "at_cons c pc s = s\<lparr>cons := (cons s)(c := pc)\<rparr>"

text \<open>Access to the node at an address.\<close>

definition with_node :: "spmc \<Rightarrow> nat \<Rightarrow> (spmc_node \<Rightarrow> spmc option) \<Rightarrow> spmc option" where
  "with_node s a f = (case heap s a of None \<Rightarrow> Some (crash s) | Some nd \<Rightarrow> f nd)"

definition set_next :: "next_ptr \<Rightarrow> spmc \<Rightarrow> spmc option" where
  "set_next p s = with_node s (cur_next s) (\<lambda>nd. Some (s\<lparr>heap := (heap s)(cur_next s \<mapsto> nd\<lparr>nd_next := p\<rparr>)\<rparr>))"

text \<open>\<open>None\<close>: the thread has ended or sleeps, without a change.\<close>

definition prod_step :: "spmc \<Rightarrow> spmc option" where
  "prod_step s = (case prd s of
       P_Block \<Rightarrow>
         (case todo s of
            [] \<Rightarrow> map_option (prd_update (\<lambda>_. P_Done)) (set_next Nullptr s)
          | v # vs \<Rightarrow>
              if SPMC_MAX_QUEUE_SIZE \<le> sint (q_size s) then None
              else Some (s\<lparr>heap := (heap s)(fresh s \<mapsto> new_node v), fresh := Suc (fresh s), todo := vs, prd := P_Link (fresh s)\<rparr>))
     | P_Link a \<Rightarrow> map_option (\<lambda>s. s\<lparr>cur_next := a, prd := P_Count\<rparr>) (set_next (Ptr a) s)
     | P_Count \<Rightarrow> Some (s\<lparr>q_size := q_size s + 1, prd := P_Block\<rparr>)
     | P_Done \<Rightarrow> None)"

definition cons_step :: "nat \<Rightarrow> nat \<Rightarrow> spmc \<Rightarrow> spmc option" where
  "cons_step totalConsumers c s = (case cons s c of
       C_Item a \<Rightarrow> with_node s a (\<lambda>nd. Some (at_cons c (C_Count a) (s\<lparr>items := (items s)(c := items s c @ [nd_data nd])\<rparr>)))
     | C_Count a \<Rightarrow> with_node s a (\<lambda>nd.
         Some (at_cons c (C_Poll a (nd_done nd + 1)) (s\<lparr>heap := (heap s)(a \<mapsto> nd\<lparr>nd_done := nd_done nd + 1\<rparr>)\<rparr>)))
     | C_Poll a reread \<Rightarrow> with_node s a (\<lambda>nd. case nd_next nd of
           SPMC_QUEUE_WAIT \<Rightarrow> None
         | Nullptr \<Rightarrow> Some (at_cons c (if reread = of_nat totalConsumers then C_Free a None else C_Done) s)
         | Ptr j \<Rightarrow> Some (at_cons c (C_Move a reread) s))
     | C_Move a reread \<Rightarrow> with_node s a (\<lambda>nd. case nd_next nd of
           Ptr j \<Rightarrow> Some (at_cons c (if reread = of_nat totalConsumers then C_Free a (Some j) else C_Item j) s)
         | _ \<Rightarrow> Some (crash s))
     | C_Free a nx \<Rightarrow> with_node s a (\<lambda>nd. Some (at_cons c (C_Sub nx) (s\<lparr>heap := (heap s)(a := None)\<rparr>)))
     | C_Sub nx \<Rightarrow> Some (at_cons c (case nx of None \<Rightarrow> C_Done | Some j \<Rightarrow> C_Item j) (s\<lparr>q_size := q_size s - 1\<rparr>))
     | C_Done \<Rightarrow> None)"

inductive spmc_step :: "nat \<Rightarrow> spmc \<Rightarrow> spmc \<Rightarrow> bool" for n where
  producer: "\<lbrakk>\<not> crashed s; prod_step s = Some s'\<rbrakk> \<Longrightarrow> spmc_step n s s'"
| consumer: "\<lbrakk>\<not> crashed s; c < n; cons_step n c s = Some s'\<rbrakk> \<Longrightarrow> spmc_step n s s'"

definition spmc_reaches :: "nat \<Rightarrow> spmc \<Rightarrow> spmc \<Rightarrow> bool" where
  "spmc_reaches n = (spmc_step n)\<^sup>*\<^sup>*"

subsection \<open>The order of the blocks\<close>

text \<open>The list of nodes, for the blocks \<open>B\<close>.\<close>

definition nodes_ok :: "byte list list \<Rightarrow> spmc \<Rightarrow> bool" where
  "nodes_ok B s \<longleftrightarrow> fresh s \<le> length B \<and> todo s = drop (fresh s) B
   \<and> (case prd s of P_Link a \<Rightarrow> a = Suc (cur_next s) \<and> fresh s = Suc a \<and> heap s a = Some (new_node (B ! a)) | _ \<Rightarrow> fresh s = Suc (cur_next s))
   \<and> (prd s = P_Done \<longrightarrow> fresh s = length B)
   \<and> (\<forall>k nd. heap s k = Some nd \<longrightarrow> k < fresh s \<and> nd_data nd = B ! k
        \<and> nd_next nd = (if k < cur_next s then Ptr (Suc k) else if k = cur_next s \<and> prd s = P_Done then Nullptr else SPMC_QUEUE_WAIT))"

text \<open>A consumer: the blocks before its place, and the present one once it is processed.\<close>

fun place_ok :: "byte list list \<Rightarrow> spmc \<Rightarrow> byte list list \<Rightarrow> consumer \<Rightarrow> bool" where
  "place_ok B s done (C_Item a) \<longleftrightarrow> a \<le> cur_next s \<and> done = take a B"
| "place_ok B s done (C_Count a) \<longleftrightarrow> a \<le> cur_next s \<and> done = take (Suc a) B"
| "place_ok B s done (C_Poll a r) \<longleftrightarrow> a \<le> cur_next s \<and> done = take (Suc a) B"
| "place_ok B s done (C_Move a r) \<longleftrightarrow> a < cur_next s \<and> done = take (Suc a) B"
| "place_ok B s done (C_Free a (Some j)) \<longleftrightarrow> j = Suc a \<and> a < cur_next s \<and> done = take j B"
| "place_ok B s done (C_Free a None) \<longleftrightarrow> a = cur_next s \<and> prd s = P_Done \<and> done = B"
| "place_ok B s done (C_Sub (Some j)) \<longleftrightarrow> j \<le> cur_next s \<and> done = take j B"
| "place_ok B s done (C_Sub None) \<longleftrightarrow> prd s = P_Done \<and> done = B"
| "place_ok B s done C_Done \<longleftrightarrow> prd s = P_Done \<and> done = B"

definition order_ok :: "byte list list \<Rightarrow> nat \<Rightarrow> spmc \<Rightarrow> bool" where
  "order_ok B n s \<longleftrightarrow> nodes_ok B s \<and> (\<forall>c < n. place_ok B s (items s c) (cons s c))"

lemma place_ok_later:
  "\<lbrakk>place_ok B s d pc; cur_next s \<le> cur_next s'; prd s = P_Done \<longrightarrow> prd s' = P_Done \<and> cur_next s' = cur_next s\<rbrakk> \<Longrightarrow> place_ok B s' d pc"
  by (induction B s d pc rule: place_ok.induct) auto

lemma drop_Cons_D: "drop n xs = v # vs \<Longrightarrow> n < length xs \<and> xs ! n = v \<and> vs = drop (Suc n) xs"
  by (metis Cons_nth_drop_Suc drop_all leI list.distinct(1) list.inject)

lemma prod_step_cases:
  assumes "prod_step s = Some s'" "\<not> crashed s'"
  obtains (finish) nd where "prd s = P_Block" "todo s = []" "heap s (cur_next s) = Some nd"
      "s' = s\<lparr>heap := (heap s)(cur_next s \<mapsto> nd\<lparr>nd_next := Nullptr\<rparr>), prd := P_Done\<rparr>"
  | (block) v vs where "prd s = P_Block" "todo s = v # vs" "sint (q_size s) < SPMC_MAX_QUEUE_SIZE"
      "s' = s\<lparr>heap := (heap s)(fresh s \<mapsto> new_node v), fresh := Suc (fresh s), todo := vs, prd := P_Link (fresh s)\<rparr>"
  | (link) a nd where "prd s = P_Link a" "heap s (cur_next s) = Some nd"
      "s' = s\<lparr>heap := (heap s)(cur_next s \<mapsto> nd\<lparr>nd_next := Ptr a\<rparr>), cur_next := a, prd := P_Count\<rparr>"
  | (count) "prd s = P_Count" "s' = s\<lparr>q_size := q_size s + 1, prd := P_Block\<rparr>"
proof (cases "prd s")
  case P_Block
  then show ?thesis
    using assms that(1,2)
    by (cases "todo s"; cases "heap s (cur_next s)") (auto simp: prod_step_def set_next_def with_node_def crash_def split: if_splits)
next
  case (P_Link a)
  then show ?thesis
    using assms that(3) by (cases "heap s (cur_next s)") (auto simp: prod_step_def set_next_def with_node_def crash_def)
next
  case P_Count
  then show ?thesis using assms that(4) by (simp add: prod_step_def)
next
  case P_Done
  then show ?thesis using assms by (simp add: prod_step_def)
qed

lemma nodes_okD:
  assumes "nodes_ok B s" "heap s k = Some nd"
  shows "k < fresh s" "nd_data nd = B ! k" "k < length B"
    "nd_next nd = (if k < cur_next s then Ptr (Suc k) else if k = cur_next s \<and> prd s = P_Done then Nullptr else SPMC_QUEUE_WAIT)"
  using assms by (fastforce simp: nodes_ok_def)+

lemma prod_step_order:
  assumes ok: "order_ok B n s" and st: "prod_step s = Some s'" "\<not> crashed s'"
  shows "order_ok B n s'"
  using st
proof (cases rule: prod_step_cases)
  case (finish nd)
  have "heap s k = None" if "\<not> k < cur_next s" "k \<noteq> cur_next s" for k
    using ok finish(1) that by (cases "heap s k") (fastforce simp: order_ok_def nodes_ok_def)+
  then have "nodes_ok B s'" using ok finish by (auto simp: order_ok_def nodes_ok_def)
  moreover have "place_ok B s' d pc" if "place_ok B s d pc" for d pc
    using place_ok_later [OF that, of s'] finish by simp
  ultimately show ?thesis using ok finish by (simp add: order_ok_def)
next
  case (block v vs)
  note d = drop_Cons_D [of "fresh s" B v vs]
  have "k < Suc (fresh s)" if "heap s k = Some nd" for k nd using nodes_okD(1) [of B s k nd] ok that by (simp add: order_ok_def)
  with ok block d have "nodes_ok B s'" by (auto simp: order_ok_def nodes_ok_def new_node_def)
  moreover have "place_ok B s' d pc" if "place_ok B s d pc" for d pc
    using place_ok_later [OF that, of s'] block by simp
  ultimately show ?thesis using ok block by (simp add: order_ok_def)
next
  case (link a nd)
  then have "nodes_ok B s'" using ok by (auto simp: order_ok_def nodes_ok_def new_node_def)
  moreover have "place_ok B s' d pc" if "place_ok B s d pc" for d pc
    using place_ok_later [OF that, of s'] link ok by (simp add: order_ok_def nodes_ok_def)
  ultimately show ?thesis using ok link by (simp add: order_ok_def)
next
  case count
  then have "nodes_ok B s'" using ok by (auto simp: order_ok_def nodes_ok_def)
  moreover have "place_ok B s' d pc" if "place_ok B s d pc" for d pc
    using place_ok_later [OF that, of s'] count by simp
  ultimately show ?thesis using ok count by (simp add: order_ok_def)
qed

lemma cons_step_cases:
  assumes "cons_step n c s = Some s'" "\<not> crashed s'"
  obtains (item) a nd where "cons s c = C_Item a" "heap s a = Some nd" "s' = at_cons c (C_Count a) (s\<lparr>items := (items s)(c := items s c @ [nd_data nd])\<rparr>)"
  | (count) a nd where "cons s c = C_Count a" "heap s a = Some nd"
      "s' = at_cons c (C_Poll a (nd_done nd + 1)) (s\<lparr>heap := (heap s)(a \<mapsto> nd\<lparr>nd_done := nd_done nd + 1\<rparr>)\<rparr>)"
  | (last) a r nd where "cons s c = C_Poll a r" "heap s a = Some nd" "nd_next nd = Nullptr"
      "s' = at_cons c (if r = of_nat n then C_Free a None else C_Done) s"
  | (seen) a r nd j where "cons s c = C_Poll a r" "heap s a = Some nd" "nd_next nd = Ptr j" "s' = at_cons c (C_Move a r) s"
  | (advance) a r nd j where "cons s c = C_Move a r" "heap s a = Some nd" "nd_next nd = Ptr j"
      "s' = at_cons c (if r = of_nat n then C_Free a (Some j) else C_Item j) s"
  | (delete) a nx nd where "cons s c = C_Free a nx" "heap s a = Some nd" "s' = at_cons c (C_Sub nx) (s\<lparr>heap := (heap s)(a := None)\<rparr>)"
  | (sub) nx where "cons s c = C_Sub nx" "s' = at_cons c (case nx of None \<Rightarrow> C_Done | Some j \<Rightarrow> C_Item j) (s\<lparr>q_size := q_size s - 1\<rparr>)"
proof (cases "cons s c")
  case (C_Item a)
  then show ?thesis using assms that(1) by (cases "heap s a") (auto simp: cons_step_def with_node_def crash_def)
next
  case (C_Count a)
  then show ?thesis using assms that(2) by (cases "heap s a") (auto simp: cons_step_def with_node_def crash_def)
next
  case (C_Poll a r)
  show ?thesis
  proof (cases "heap s a")
    case None
    then show ?thesis using assms C_Poll by (auto simp: cons_step_def with_node_def crash_def)
  next
    case (Some nd)
    then show ?thesis using assms C_Poll that(3,4) by (cases "nd_next nd") (auto simp: cons_step_def with_node_def)
  qed
next
  case (C_Move a r)
  show ?thesis
  proof (cases "heap s a")
    case None
    then show ?thesis using assms C_Move by (auto simp: cons_step_def with_node_def crash_def)
  next
    case (Some nd)
    then show ?thesis using assms C_Move that(5) by (cases "nd_next nd") (auto simp: cons_step_def with_node_def crash_def)
  qed
next
  case (C_Free a nx)
  then show ?thesis using assms that(6) by (cases "heap s a") (auto simp: cons_step_def with_node_def crash_def)
next
  case (C_Sub nx)
  then show ?thesis using assms that(7) by (auto simp: cons_step_def)
next
  case C_Done
  then show ?thesis using assms by (simp add: cons_step_def)
qed

lemma nodes_ok_done: "\<lbrakk>nodes_ok B s; prd s = P_Done\<rbrakk> \<Longrightarrow> length B = Suc (cur_next s)"
  by (simp add: nodes_ok_def)

lemma place_ok_same: "\<lbrakk>cur_next s' = cur_next s; prd s' = prd s\<rbrakk> \<Longrightarrow> place_ok B s' d pc = place_ok B s d pc"
  by (induction B s d pc rule: place_ok.induct) auto

text \<open>A consumer changes neither the producer nor the other consumers.\<close>

lemma order_ok_at_cons:
  assumes "order_ok B n s" "nodes_ok B t" "cur_next t = cur_next s" "prd t = prd s" "cons t = cons s"
    "\<And>d. d \<noteq> c \<Longrightarrow> items t d = items s d" "c < n \<Longrightarrow> place_ok B s (items t c) pc"
  shows "order_ok B n (at_cons c pc t)"
proof -
  have n: "nodes_ok B (at_cons c pc t)" using assms(2) by (simp add: nodes_ok_def at_cons_def split: producer.splits)
  have "place_ok B (at_cons c pc t) (items t d) (cons (at_cons c pc t) d)" if d: "d < n" for d
  proof -
    have "place_ok B s (items t d) (cons (at_cons c pc t) d)"
      using assms(1,5,6) assms(7) d by (cases "d = c") (simp_all add: order_ok_def at_cons_def)
    then show ?thesis using place_ok_same [of "at_cons c pc t" s] assms(3,4) by (simp add: at_cons_def)
  qed
  with n show ?thesis by (simp add: order_ok_def at_cons_def)
qed

lemma cons_step_order:
  assumes ok: "order_ok B n s" and c: "c < n" and st: "cons_step n c s = Some s'" "\<not> crashed s'"
  shows "order_ok B n s'"
proof -
  have nodes: "nodes_ok B s" and pl: "place_ok B s (items s c) (cons s c)" using ok c by (simp_all add: order_ok_def)
  from st show ?thesis
  proof (cases rule: cons_step_cases)
    case (item a nd)
    have "nodes_ok B (s\<lparr>items := (items s)(c := items s c @ [nd_data nd])\<rparr>)" using nodes by (simp add: nodes_ok_def split: producer.splits)
    with item pl nodes_okD [OF nodes item(2)] show ?thesis
      unfolding item(3) by (intro order_ok_at_cons [OF ok]) (simp_all add: take_Suc_conv_app_nth)
  next
    case (count a nd)
    have "nodes_ok B (s\<lparr>heap := (heap s)(a \<mapsto> nd\<lparr>nd_done := nd_done nd + 1\<rparr>)\<rparr>)"
      using nodes count(1) pl nodes_okD [OF nodes count(2)] by (auto simp: nodes_ok_def split: producer.splits)
    with count pl show ?thesis unfolding count(3) by (intro order_ok_at_cons [OF ok]) simp_all
  next
    case (last a r nd)
    have "a = cur_next s" "prd s = P_Done" using nodes_okD(4) [OF nodes last(2)] last(3) by (auto split: if_splits)
    with last(1) pl nodes_ok_done [OF nodes] nodes show ?thesis unfolding last(4) by (intro order_ok_at_cons [OF ok]) simp_all
  next
    case (seen a r nd j)
    have "a < cur_next s" using nodes_okD(4) [OF nodes seen(2)] seen(3) by (auto split: if_splits)
    with seen(1) pl nodes show ?thesis unfolding seen(4) by (intro order_ok_at_cons [OF ok]) simp_all
  next
    case (advance a r nd j)
    have "j = Suc a" using nodes_okD(4) [OF nodes advance(2)] advance(3) by (auto split: if_splits)
    with advance(1) pl nodes show ?thesis unfolding advance(4) by (intro order_ok_at_cons [OF ok]) simp_all
  next
    case (delete a nx nd)
    have "a \<noteq> Suc (cur_next s)" if "prd s = P_Link (Suc (cur_next s))" using delete(1) pl that by (cases nx) auto
    then have "nodes_ok B (s\<lparr>heap := (heap s)(a := None)\<rparr>)" using nodes by (auto simp: nodes_ok_def split: producer.splits)
    with delete(1) pl show ?thesis unfolding delete(3) by (cases nx; intro order_ok_at_cons [OF ok]) simp_all
  next
    case (sub nx)
    have "nodes_ok B (s\<lparr>q_size := q_size s - 1\<rparr>)" using nodes by (simp add: nodes_ok_def split: producer.splits)
    with sub(1) pl show ?thesis unfolding sub(2) by (cases nx; intro order_ok_at_cons [OF ok]) simp_all
  qed
qed

lemma spmc_start_order: "order_ok (b # bs) n (spmc_start b bs)"
  by (simp add: order_ok_def nodes_ok_def spmc_start_def new_node_def)

lemma spmc_order:
  assumes "spmc_reaches n (spmc_start b bs) s"
  shows "crashed s \<or> order_ok (b # bs) n s"
  using assms unfolding spmc_reaches_def
proof (induction rule: rtranclp_induct)
  case base
  show ?case by (simp add: spmc_start_order)
next
  case (step s s')
  from step(2) have "\<not> crashed s" by (auto elim: spmc_step.cases)
  with step(3) have ok: "order_ok (b # bs) n s" by simp
  show ?case
    using step(2)
  proof cases
    case producer
    then show ?thesis using prod_step_order [OF ok] by blast
  next
    case (consumer c)
    then show ?thesis using cons_step_order [OF ok] by blast
  qed
qed

subsection \<open>One consumer\<close>

text \<open>The first node that is not deleted, whether its counter is raised, and what \<open>Spmc_Queue_Size\<close> counts.\<close>

fun front :: "spmc \<Rightarrow> consumer \<Rightarrow> nat" where
  "front s (C_Item a) = a" | "front s (C_Count a) = a" | "front s (C_Poll a r) = a" | "front s (C_Move a r) = a"
| "front s (C_Free a nx) = a" | "front s (C_Sub (Some j)) = j" | "front s (C_Sub None) = fresh s" | "front s C_Done = fresh s"

fun counted :: "consumer \<Rightarrow> bool" where
  "counted (C_Poll a r) = True" | "counted (C_Move a r) = True" | "counted (C_Free a nx) = True" | "counted _ = False"

fun reread_one :: "consumer \<Rightarrow> bool" where
  "reread_one (C_Poll a r) = (r = 1)" | "reread_one (C_Move a r) = (r = 1)" | "reread_one _ = True"

definition load :: "spmc \<Rightarrow> consumer \<Rightarrow> nat" where
  "load s pc = Suc (cur_next s) - front s pc + (case pc of C_Sub nx \<Rightarrow> 1 | _ \<Rightarrow> 0)"

definition alone_ok :: "spmc \<Rightarrow> consumer \<Rightarrow> bool" where
  "alone_ok s pc \<longleftrightarrow> (\<forall>k. heap s k \<noteq> None \<longleftrightarrow> front s pc \<le> k \<and> k < fresh s)
   \<and> (\<forall>k nd. heap s k = Some nd \<longrightarrow> nd_done nd = (if k = front s pc \<and> counted pc then 1 else 0)) \<and> reread_one pc
   \<and> q_size s = of_nat (load s pc) - (if prd s = P_Count then 1 else 0)
   \<and> load s pc \<le> (case prd s of P_Link a \<Rightarrow> 19 | _ \<Rightarrow> 20)"

definition one_ok :: "byte list list \<Rightarrow> spmc \<Rightarrow> bool" where
  "one_ok B s \<longleftrightarrow> order_ok B 1 s \<and> \<not> crashed s \<and> alone_ok s (cons s 0)"

lemma size_small: "n \<le> 20 \<Longrightarrow> sint (of_nat n :: 16 word) = int n"
  by (simp add: signed_of_nat signed_take_bit_int_eq_self)

lemma place_front: "\<lbrakk>place_ok B s d pc; prd s \<noteq> P_Done\<rbrakk> \<Longrightarrow> front s pc \<le> cur_next s"
  by (induction B s d pc rule: place_ok.induct) auto

lemma front_same: "\<lbrakk>place_ok B s d pc; prd s \<noteq> P_Done\<rbrakk> \<Longrightarrow> front s' pc = front s pc"
  by (induction B s d pc rule: place_ok.induct) auto

lemma place_prefix: "place_ok B s d pc \<Longrightarrow> \<exists>k. d = take k B"
  by (induction B s d pc rule: place_ok.induct) (auto intro: take_all [OF order_refl, symmetric])

lemma count_pos: "\<lbrakk>place_ok B s d pc; prd s = P_Count\<rbrakk> \<Longrightarrow> 0 < load s pc"
  using place_front [of B s d pc] by (simp add: load_def)

lemma one_prod:
  assumes ok: "one_ok B s" and st: "prod_step s = Some s'"
  shows "one_ok B s'"
proof -
  let ?pc = "cons s 0"
  have ord: "order_ok B 1 s" and nc: "\<not> crashed s" and al: "alone_ok s ?pc" using ok by (simp_all add: one_ok_def)
  have pl: "place_ok B s (items s 0) ?pc" and nodes: "nodes_ok B s" using ord by (simp_all add: order_ok_def)
  have nd: "prd s \<noteq> P_Done" using st by (auto simp: prod_step_def)
  note fr = place_front [OF pl nd] and same = front_same [OF pl nd, of s']
  have "cur_next s < fresh s" using nodes by (auto simp: nodes_ok_def split: producer.splits)
  then have "heap s (cur_next s) \<noteq> None" using al fr by (simp add: alone_ok_def)
  then have nc': "\<not> crashed s'" using st nc
    by (auto simp: prod_step_def set_next_def with_node_def split: producer.splits list.splits if_splits)
  have "alone_ok s' (cons s' 0)"
    using st nc'
  proof (cases rule: prod_step_cases)
    case (finish nd)
    with al same fr show ?thesis by (auto simp: alone_ok_def load_def)
  next
    case (block v vs)
    have "sint (q_size s) = int (load s ?pc)" using al block(1) size_small [of "load s ?pc"] by (simp add: alone_ok_def)
    then have "load s ?pc \<le> 19" using block(3) by (simp add: SPMC_MAX_QUEUE_SIZE_def)
    moreover have "front s ?pc \<noteq> fresh s" using fr \<open>cur_next s < fresh s\<close> by simp
    ultimately show ?thesis using al same fr block \<open>cur_next s < fresh s\<close> by (auto simp: alone_ok_def load_def new_node_def)
  next
    case (link a nd)
    have "a = Suc (cur_next s)" using nodes link(1) by (simp add: nodes_ok_def)
    then have "load s' ?pc = Suc (load s ?pc)" using link same fr by (simp add: load_def)
    with al link same fr show ?thesis by (auto simp: alone_ok_def)
  next
    case count
    with al same fr show ?thesis by (auto simp: alone_ok_def load_def)
  qed
  with prod_step_order [OF ord st nc'] nc' show ?thesis by (simp add: one_ok_def)
qed

lemma one_cons:
  assumes ok: "one_ok B s" and st: "cons_step 1 0 s = Some s'"
  shows "one_ok B s'"
proof -
  let ?pc = "cons s 0"
  have ord: "order_ok B 1 s" and nc: "\<not> crashed s" and al: "alone_ok s ?pc" using ok by (simp_all add: one_ok_def)
  have pl: "place_ok B s (items s 0) ?pc" and nodes: "nodes_ok B s" using ord by (simp_all add: order_ok_def)
  have fresh: "cur_next s < fresh s" using nodes by (auto simp: nodes_ok_def split: producer.splits)
  have live: "heap s (front s ?pc) \<noteq> None" if "front s ?pc \<le> cur_next s" using al that fresh by (simp add: alone_ok_def)
  have next_node: "nd_next nd = Ptr (Suc a)" if "heap s a = Some nd" "a < cur_next s" for a nd
    using nodes_okD(4) [OF nodes that(1)] that(2) by simp
  have free: "a \<le> cur_next s" if "?pc = C_Free a nx" for a nx using pl that by (cases nx) simp_all
  have nc': "\<not> crashed s'"
    using st nc pl live
    by (cases ?pc) (auto simp: cons_step_def with_node_def at_cons_def crash_def dest: next_node free split: next_ptr.splits option.splits)
  have "alone_ok s' (cons s' 0)"
    using st nc'
  proof (cases rule: cons_step_cases)
    case (item a nd)
    with al show ?thesis by (auto simp: alone_ok_def load_def at_cons_def)
  next
    case (count a nd)
    with al show ?thesis by (auto simp: alone_ok_def load_def at_cons_def)
  next
    case (last a r nd)
    with al show ?thesis by (auto simp: alone_ok_def load_def at_cons_def)
  next
    case (seen a r nd j)
    with al show ?thesis by (auto simp: alone_ok_def load_def at_cons_def)
  next
    case (advance a r nd j)
    with al show ?thesis by (auto simp: alone_ok_def load_def at_cons_def)
  next
    case (delete a nx nd)
    have "fresh s = Suc (cur_next s)" if "prd s = P_Done" using nodes that by (simp add: nodes_ok_def)
    with delete al pl show ?thesis by (cases nx) (auto simp: alone_ok_def load_def at_cons_def)
  next
    case (sub nx)
    with al pl show ?thesis by (cases nx) (auto simp: alone_ok_def load_def at_cons_def)
  qed
  with cons_step_order [OF ord _ st nc'] nc' show ?thesis by (simp add: one_ok_def)
qed

lemma spmc_start_one: "one_ok (b # bs) (spmc_start b bs)"
proof -
  have "order_ok (b # bs) 1 (spmc_start b bs)" by (rule spmc_start_order)
  then show ?thesis by (auto simp: one_ok_def alone_ok_def load_def spmc_start_def new_node_def)
qed

lemma spmc_one:
  assumes "spmc_reaches 1 (spmc_start b bs) s"
  shows "one_ok (b # bs) s"
  using assms unfolding spmc_reaches_def
proof (induction rule: rtranclp_induct)
  case base
  show ?case by (rule spmc_start_one)
next
  case (step s s')
  from step(2) show ?case
  proof cases
    case producer
    then show ?thesis using one_prod [OF step(3)] by blast
  next
    case (consumer c)
    then show ?thesis using one_cons [OF step(3)] by (simp add: less_Suc_eq)
  qed
qed

text \<open>
  C7: the queue with one consumer is safe. With the queue of a hash computation, in every interleaving of the
  producer and its consumer: no node is used after its deletion, the consumer is given the blocks in order, never more than
  20 blocks are counted, and when both have ended it was given every block, every node is deleted and the counter is zero.
\<close>

theorem spmc_one_consumer_safe:
  assumes "spmc_reaches 1 (spmc_start b bs) s"
  shows "\<not> crashed s \<and> (\<exists>k. items s 0 = take k (b # bs)) \<and> 0 \<le> sint (q_size s) \<and> sint (q_size s) \<le> SPMC_MAX_QUEUE_SIZE
    \<and> (prd s = P_Done \<and> cons s 0 = C_Done \<longrightarrow> items s 0 = b # bs \<and> heap s = (\<lambda>_. None) \<and> q_size s = 0)"
proof -
  let ?B = "b # bs" and ?pc = "cons s 0"
  have one: "one_ok ?B s" by (rule spmc_one [OF assms])
  then have ord: "order_ok ?B 1 s" and nc: "\<not> crashed s" and al: "alone_ok s ?pc" by (simp_all add: one_ok_def)
  have pl: "place_ok ?B s (items s 0) ?pc" and nodes: "nodes_ok ?B s" using ord by (simp_all add: order_ok_def)
  have order: "\<exists>k. items s 0 = take k ?B" using place_prefix [OF pl] .
  have size: "q_size s = of_nat (load s ?pc - (if prd s = P_Count then 1 else 0))" "load s ?pc - (if prd s = P_Count then 1 else 0) \<le> 20"
    using al count_pos [OF pl] by (auto simp: alone_ok_def of_nat_diff split: producer.splits)
  have "items s 0 = ?B \<and> heap s = (\<lambda>_. None) \<and> q_size s = 0" if "prd s = P_Done" "?pc = C_Done"
  proof -
    have f: "fresh s = Suc (cur_next s)" using nodes that(1) by (simp add: nodes_ok_def)
    then have "heap s k = None" for k using al that(2) by (auto simp: alone_ok_def)
    with f that al pl show ?thesis by (auto simp: alone_ok_def load_def)
  qed
  with nc order size size_small show ?thesis by (simp add: SPMC_MAX_QUEUE_SIZE_def)
qed

subsection \<open>The end of a run\<close>

text \<open>The steps that are left, other than waiting.\<close>

definition prod_left :: "spmc \<Rightarrow> nat" where
  "prod_left s = 3 * length (todo s) + (case prd s of P_Block \<Rightarrow> 1 | P_Link a \<Rightarrow> 3 | P_Count \<Rightarrow> 2 | P_Done \<Rightarrow> 0)"

fun cons_left :: "nat \<Rightarrow> consumer \<Rightarrow> nat" where
  "cons_left m (C_Item a) = 6 * (m - a)"
| "cons_left m (C_Count a) = 6 * (m - a) - 1"
| "cons_left m (C_Poll a r) = 6 * (m - a) - 2"
| "cons_left m (C_Move a r) = 6 * (m - a) - 3"
| "cons_left m (C_Free a nx) = 6 * (m - a) - 4"
| "cons_left m (C_Sub None) = 1"
| "cons_left m (C_Sub (Some j)) = 6 * (m - j) + 1"
| "cons_left m C_Done = 0"

definition steps_left :: "nat \<Rightarrow> spmc \<Rightarrow> nat" where
  "steps_left m s = prod_left s + cons_left m (cons s 0)"

lemma step_left:
  assumes one: "one_ok B s" and st: "spmc_step 1 s s'"
  shows "steps_left (length B) s' < steps_left (length B) s"
  using st
proof cases
  case producer
  have "\<not> crashed s'" using one_prod [OF one producer(2)] by (simp add: one_ok_def)
  with producer(2) show ?thesis
    by (cases rule: prod_step_cases) (simp_all add: steps_left_def prod_left_def)
next
  case (consumer c)
  then have st': "cons_step 1 0 s = Some s'" and c: "c = 0" by (simp_all add: less_Suc_eq)
  have "\<not> crashed s'" using one_cons [OF one st'] by (simp add: one_ok_def)
  have pl: "place_ok B s (items s 0) (cons s 0)" and nodes: "nodes_ok B s" using one by (simp_all add: one_ok_def order_ok_def)
  have le: "cur_next s < length B" using nodes by (auto simp: nodes_ok_def split: producer.splits)
  have next_node: "j = Suc a" "a < cur_next s" if "heap s a = Some nd" "nd_next nd = Ptr j" for a nd j
    using nodes_okD(4) [OF nodes that(1)] that(2) by (auto split: if_splits)
  from st' \<open>\<not> crashed s'\<close> show ?thesis
  proof (cases rule: cons_step_cases)
    case (advance a r nd j)
    then show ?thesis using next_node [OF advance(2,3)] le by (auto simp: steps_left_def prod_left_def at_cons_def)
  next
    case (delete a nx nd)
    then show ?thesis using pl le by (cases nx) (auto simp: steps_left_def prod_left_def at_cons_def)
  next
    case (sub nx)
    then show ?thesis using pl le by (cases nx) (auto simp: steps_left_def prod_left_def at_cons_def)
  qed (use pl le in \<open>auto simp: steps_left_def prod_left_def at_cons_def\<close>)
qed

lemma steps_bounded:
  assumes "(spmc_step 1 ^^ k) s s'" "one_ok B s"
  shows "k + steps_left (length B) s' \<le> steps_left (length B) s \<and> one_ok B s'"
  using assms
proof (induction k arbitrary: s')
  case 0
  then show ?case by simp
next
  case (Suc k)
  then obtain t where t: "(spmc_step 1 ^^ k) s t" "spmc_step 1 t s'" by auto
  from Suc.IH [OF t(1) Suc.prems(2)] have ih: "k + steps_left (length B) t \<le> steps_left (length B) s" "one_ok B t" by simp_all
  have "one_ok B s'" using t(2) one_prod [OF ih(2)] one_cons [OF ih(2)] by (auto elim!: spmc_step.cases simp: less_Suc_eq)
  with ih step_left [OF ih(2) t(2)] show ?case by simp
qed

text \<open>Unless both have ended, one of the two can go on.\<close>

lemma one_progress:
  assumes one: "one_ok B s" and stuck: "\<nexists>s'. spmc_step 1 s s'"
  shows "prd s = P_Done \<and> cons s 0 = C_Done"
proof -
  let ?pc = "cons s 0"
  have nc: "\<not> crashed s" and al: "alone_ok s ?pc" and pl: "place_ok B s (items s 0) ?pc" and nodes: "nodes_ok B s"
    using one by (simp_all add: one_ok_def order_ok_def)
  have np: "prod_step s = None" using stuck nc spmc_step.producer [of s _ 1] by (metis option.exhaust)
  have ncs: "cons_step 1 0 s = None" using stuck nc spmc_step.consumer [of s 0 1] by (metis option.exhaust zero_less_one)
  have heap_some: "heap s (cur_next s) \<noteq> None" if "prd s \<noteq> P_Done"
    using al place_front [OF pl that] nodes by (auto simp: alone_ok_def nodes_ok_def split: producer.splits)
  show ?thesis
  proof (cases "?pc")
    case (C_Poll a r)
    have "a \<le> cur_next s" using pl C_Poll by simp
    moreover have "cur_next s < fresh s" using nodes by (auto simp: nodes_ok_def split: producer.splits)
    ultimately obtain nd where nd: "heap s a = Some nd" using al C_Poll by (fastforce simp: alone_ok_def)
    have w: "nd_next nd = SPMC_QUEUE_WAIT" using ncs C_Poll nd by (auto simp: cons_step_def with_node_def split: next_ptr.splits)
    then have a: "a = cur_next s" "prd s \<noteq> P_Done" using nodes_okD(4) [OF nodes nd] \<open>a \<le> cur_next s\<close> by (auto split: if_splits)
    then have "load s ?pc = 1" using C_Poll by (simp add: load_def)
    then have "sint (q_size s) < SPMC_MAX_QUEUE_SIZE" if "prd s = P_Block" using al that by (simp add: alone_ok_def SPMC_MAX_QUEUE_SIZE_def)
    with np a(2) heap_some show ?thesis
      by (auto simp: prod_step_def set_next_def with_node_def split: producer.splits list.splits if_splits option.splits)
  next
    case C_Done
    then show ?thesis using pl by simp
  qed (use ncs in \<open>auto simp: cons_step_def with_node_def split: option.splits next_ptr.splits\<close>)
qed

text \<open>
  C28: the queue with one consumer ends. Waiting aside, every run has at most nine steps for every block after the first
  and seven more, and a run that cannot go on has ended: neither thread waits for ever.
\<close>

theorem spmc_one_consumer_ends:
  assumes "(spmc_step 1 ^^ k) (spmc_start b bs) s"
  shows "k \<le> 9 * length bs + 7 \<and> ((\<nexists>s'. spmc_step 1 s s') \<longrightarrow> prd s = P_Done \<and> cons s 0 = C_Done)"
  using steps_bounded [OF assms spmc_start_one] one_progress [of "b # bs" s]
  by (simp add: steps_left_def prod_left_def spmc_start_def)

subsection \<open>Two consumers\<close>

text \<open>A schedule: the producer (\<open>None\<close>) or a consumer.\<close>

fun play :: "nat \<Rightarrow> nat option list \<Rightarrow> spmc \<Rightarrow> spmc option" where
  "play n [] s = Some s"
| "play n (t # ts) s =
     (if crashed s then None
      else case (case t of None \<Rightarrow> prod_step s | Some c \<Rightarrow> if c < n then cons_step n c s else None) of
        None \<Rightarrow> None | Some s' \<Rightarrow> play n ts s')"

lemma play_reaches: "play n ts s = Some s' \<Longrightarrow> spmc_reaches n s s'"
proof (induction n ts s rule: play.induct)
  case (1 n s)
  then show ?case by (simp add: spmc_reaches_def)
next
  case (2 n t ts s)
  from 2(2) obtain u where u: "\<not> crashed s" "(case t of None \<Rightarrow> prod_step s | Some c \<Rightarrow> if c < n then cons_step n c s else None) = Some u" "play n ts u = Some s'"
    by (auto split: if_splits option.splits)
  then have "spmc_step n s u" by (cases t) (auto intro: spmc_step.intros split: if_splits)
  moreover have "spmc_reaches n u s'" using 2(1) u by simp
  ultimately show ?case unfolding spmc_reaches_def by (rule converse_rtranclp_into_rtranclp)
qed

text \<open>
  C36: the queue with two consumers uses memory after its deletion. The consumer that is the second to raise the counter of a
  node deletes it as soon as the next pointer is set, while the other one may still be polling the next pointer of this
  node: such an interleaving exists for every content.
\<close>

theorem spmc_two_consumers_crash: "\<exists>s. spmc_reaches 2 (spmc_start b bs) s \<and> crashed s"
proof -
  let ?both = "[Some 0, Some 0, Some 1, Some 1]"
  have "\<exists>s. play 2 (?both @ (if bs = [] then [None, Some 1, Some 1, Some 0] else [None, None, Some 1, Some 1, Some 1, Some 0])) (spmc_start b bs) = Some s \<and> crashed s"
    by (cases bs) (simp_all add: prod_step_def cons_step_def with_node_def at_cons_def set_next_def crash_def spmc_start_def new_node_def SPMC_MAX_QUEUE_SIZE_def)
  then show ?thesis using play_reaches by blast
qed

text \<open>Until then the order is right for any number of consumers.\<close>

theorem spmc_order_kept:
  assumes "spmc_reaches n (spmc_start b bs) s" and "\<not> crashed s" and "c < n"
  shows "(\<exists>k. items s c = take k (b # bs)) \<and> (cons s c = C_Done \<longrightarrow> items s c = b # bs)"
proof -
  have "place_ok (b # bs) s (items s c) (cons s c)" using spmc_order [OF assms(1)] assms(2,3) by (simp add: order_ok_def)
  then show ?thesis using place_prefix by (auto simp del: take_Suc_Cons)
qed

subsection \<open>Witnesses\<close>

theorem spmc_one_consumer_safe_witness:
  "\<exists>s. play 1 [None, Some 0, None, Some 0, None, Some 0, Some 0, Some 0, Some 0, Some 0, None, Some 0, Some 0, Some 0, Some 0]
      (spmc_start [1] [[2]]) = Some s \<and> prd s = P_Done \<and> cons s 0 = C_Done \<and> items s 0 = [[1], [2]] \<and> q_size s = 0"
proof -
  obtain s where s: "play 1 [None, Some 0, None, Some 0, None, Some 0, Some 0, Some 0, Some 0, Some 0, None, Some 0, Some 0, Some 0, Some 0]
      (spmc_start [1] [[2]]) = Some s" "prd s = P_Done" "cons s 0 = C_Done"
    by (simp add: prod_step_def cons_step_def with_node_def at_cons_def set_next_def crash_def spmc_start_def new_node_def SPMC_MAX_QUEUE_SIZE_def)
  from spmc_one_consumer_safe [OF play_reaches [OF s(1)]] s show ?thesis by simp
qed

theorem spmc_one_consumer_ends_witness:
  "\<exists>s. (spmc_step 1 ^^ 2) (spmc_start [1] []) s \<and> (2 :: nat) \<le> 9 * length ([] :: byte list list) + 7
     \<and> ((\<nexists>s'. spmc_step 1 s s') \<longrightarrow> prd s = P_Done \<and> cons s 0 = C_Done)"
proof -
  let ?s0 = "spmc_start [1] []"
  obtain s1 where s1: "prod_step ?s0 = Some s1" "\<not> crashed s1" "cons s1 0 = C_Item 0" "heap s1 0 \<noteq> None"
    by (simp add: prod_step_def set_next_def with_node_def spmc_start_def)
  then obtain s2 where s2: "cons_step 1 0 s1 = Some s2" by (auto simp: cons_step_def with_node_def)
  have "spmc_step 1 ?s0 s1" "spmc_step 1 s1 s2"
    using s1 s2 spmc_step.producer [of ?s0 s1 1] spmc_step.consumer [of s1 0 1 s2] by (simp_all add: spmc_start_def)
  then have "(spmc_step 1 ^^ 2) ?s0 s2" by (auto simp: numeral_2_eq_2)
  from this spmc_one_consumer_ends [OF this] show ?thesis by blast
qed

end
