(* ===== verification/RH_SpmcFiles.thy ===== *)
theory RH_SpmcFiles
  imports RH_Spmc RH_Create
begin

section \<open>Hashing and creating files through the queue\<close>

text \<open>
  \<open>producer_hasher\<close> and \<open>producer_createAndHash\<close> (Spmc_queue_lockfree.hpp). The producer's blocks reach the hasher and the writer
  through the queue of \<open>RH_Spmc\<close>, which hands a consumer all blocks in their order (\<open>spmc_one_consumer_safe\<close>,
  \<open>spmc_order_kept\<close>); so a consumer is a fold over the blocks here. What two consumers do to the memory is in \<open>RH_Spmc\<close>.
\<close>

definition SPMC_QUEUE_BSIZE :: nat where "SPMC_QUEUE_BSIZE = 32000000"

subsection \<open>The digest of a file\<close>

text \<open>The blocks that are read; \<open>None\<close>: the first read fails. A later failure is taken for the end of the file.\<close>

primrec read_blocks :: "nat \<Rightarrow> fd \<Rightarrow> byte list list \<Rightarrow> byte list list option io" where
  "read_blocks 0 d acc = raise OutOfFuel"
| "read_blocks (Suc k) d acc =
     bnd (io_query (sys_read d SPMC_QUEUE_BSIZE)) (\<lambda>r. case r of
       None \<Rightarrow> ret (if acc = [] then None else Some acc)
     | Some bs \<Rightarrow> if bs = [] then ret (Some acc) else read_blocks k (fd_advance (length bs) d) (acc @ [bs]))"

definition producer_hasher :: "botan \<Rightarrow> string \<Rightarrow> nat \<Rightarrow> byte list io" where
  "producer_hasher B inputFilePath algo =
     bnd (fd_create inputFilePath FM_READ) (\<lambda>r. case r of
       Inl e \<Rightarrow> ret rh_errorHash
     | Inr d \<Rightarrow>
         bnd (get wfs) (\<lambda>f.
         bnd (read_blocks (length (case file_data f (fd_loc d) of None \<Rightarrow> [] | Some c \<Rightarrow> c) + 2) d []) (\<lambda>bs. case bs of
           None \<Rightarrow> ret rh_errorHash
         | Some blocks \<Rightarrow>
             thn (io_for blocks (\<lambda>v. publishDelta (length v)))
                 (ret (b_hash B (rh_hashLabels ! algo) (concat blocks))))))"

subsection \<open>The blocks of a created file\<close>

definition resize :: "nat \<Rightarrow> byte list \<Rightarrow> byte list" where
  "resize n v = take n v @ replicate (n - length v) 0"

text \<open>Both halves of a block, as in \<open>createRandomFile\<close>, in place.\<close>

definition fill_block :: "botan \<Rightarrow> string \<Rightarrow> nat \<Rightarrow> byte list \<Rightarrow> byte list" where
  "fill_block B usedCipher keySize v =
     (let half = SPMC_QUEUE_BSIZE div 2; ps = rand_round B usedCipher keySize (take half v, drop half v) in fst ps @ snd ps)"

definition first_block :: "botan \<Rightarrow> nat \<Rightarrow> string \<Rightarrow> byte list" where
  "first_block B keySize seed =
     overwrite 0 (if seed = [] then b_rng B keySize else b_hash B ''SHA-256'' (s2b seed)) (replicate SPMC_QUEUE_BSIZE 0)"

text \<open>\<open>v\<close> is copied into the node, not moved: the next block starts from the content of the last one.\<close>

primrec more_blocks :: "botan \<Rightarrow> string \<Rightarrow> nat \<Rightarrow> byte list \<Rightarrow> nat \<Rightarrow> byte list list" where
  "more_blocks B usedCipher keySize v 0 = []"
| "more_blocks B usedCipher keySize v (Suc n) =
     (let v' = fill_block B usedCipher keySize (resize SPMC_QUEUE_BSIZE v) in v' # more_blocks B usedCipher keySize v' n)"

definition created_blocks :: "botan \<Rightarrow> string \<Rightarrow> string \<Rightarrow> nat \<Rightarrow> byte list list" where
  "created_blocks B backendCipher seed sz =
     (let keySize = (if backendCipher = ''AES-128/CTR'' then 16 else 32);
          usedCipher = (if backendCipher \<noteq> [] then backendCipher else if b_hw_aes B then ''AES-256/CTR'' else ''ChaCha'');
          remainder = sz mod SPMC_QUEUE_BSIZE;
          v = resize remainder (fill_block B usedCipher keySize (first_block B keySize seed)) in
      v # more_blocks B usedCipher keySize v (sz div SPMC_QUEUE_BSIZE))"

text \<open>The result of \<open>writeAll\<close> is not looked at.\<close>

definition FileWriterConsumer_processItem :: "fd \<Rightarrow> byte list \<Rightarrow> fd io" where
  "FileWriterConsumer_processItem d v =
     bnd (\<lambda>w. case sys_write d v (wfs w) of (e, f) \<Rightarrow>
            if v = [] then (Ret d, w) else if e \<noteq> 0 then (Ret d, w\<lparr>errno := e\<rparr>) else (Ret (fd_advance (length v) d), w\<lparr>wfs := f\<rparr>)) (\<lambda>d'.
     thn (publishDelta (length v)) (ret d'))"

text \<open>The code returned and \<open>output_hash\<close> afterwards, which holds the label of the algorithm before.\<close>

definition producer_createAndHash :: "botan \<Rightarrow> (byte list \<Rightarrow> string) \<Rightarrow> string \<Rightarrow> nat option \<Rightarrow> string \<Rightarrow> u64 \<Rightarrow> string \<Rightarrow> string
    \<Rightarrow> (int \<times> string) io" where
  "producer_createAndHash B hex_encode outputFilePath algo output_hash sz seed backendCipher =
     bnd (fd_create outputFilePath FM_XCL) (\<lambda>r. case r of
       Inl e \<Rightarrow> ret (- 1, output_hash)
     | Inr d \<Rightarrow>
         (let blocks = created_blocks B backendCipher seed (unat sz) in
          thn (io_fold FileWriterConsumer_processItem d blocks)
              (ret (0, case algo of None \<Rightarrow> [] | Some a \<Rightarrow> hex_encode (b_hash B (rh_hashLabels ! a) (concat blocks))))))"

subsection \<open>The digest\<close>

lemma read_blocks_run:
  "\<lbrakk>no_faults (wfs w); file_data (wfs w) (fd_loc d) = Some c; length c < fd_pos d + k; 0 < k\<rbrakk> \<Longrightarrow>
   \<exists>bs. read_blocks k d acc w = (Ret (Some bs), w) \<and> concat bs = concat acc @ drop (fd_pos d) c"
proof (induction k arbitrary: d acc)
  case 0
  then show ?case by simp
next
  case (Suc k)
  let ?bs = "take SPMC_QUEUE_BSIZE (drop (fd_pos d) c)"
  have q: "io_query (sys_read d SPMC_QUEUE_BSIZE) w = (Ret (Some ?bs), w)"
    using Suc.prems by (simp add: io_query_def sys_read_def no_faults_faulty)
  show ?case
  proof (cases "?bs = []")
    case True
    then have "drop (fd_pos d) c = []" by (auto simp: SPMC_QUEUE_BSIZE_def)
    then show ?thesis unfolding read_blocks.simps bnd_app q by (intro exI [of _ acc]) (simp add: ret_app)
  next
    case False
    then have lt: "fd_pos d < length c" by (simp add: SPMC_QUEUE_BSIZE_def)
    have pos: "0 < length ?bs" using False unfolding length_greater_0_conv .
    have k: "length c < fd_pos (fd_advance (length ?bs) d) + k" unfolding fd_advance_sel using Suc.prems(3) pos by linarith
    have k0: "0 < k" using Suc.prems(3) lt by linarith
    obtain bs where r: "read_blocks k (fd_advance (length ?bs) d) (acc @ [?bs]) w = (Ret (Some bs), w)"
      "concat bs = concat (acc @ [?bs]) @ drop (fd_pos (fd_advance (length ?bs) d)) c"
      using Suc.IH [OF Suc.prems(1) _ k k0, of "acc @ [?bs]"] Suc.prems(2) unfolding fd_advance_sel by blast
    have whole: "?bs @ drop (fd_pos d + length ?bs) c = drop (fd_pos d) c"
      using take_drop_len [of SPMC_QUEUE_BSIZE "drop (fd_pos d) c"] by (simp only: drop_drop add.commute)
    have "concat bs = concat acc @ drop (fd_pos d) c"
      unfolding r(2) fd_advance_sel concat_append by (simp only: concat.simps append_Nil2 append_assoc whole)
    then show ?thesis unfolding read_blocks.simps bnd_app q
      by (intro exI [of _ bs]) (simp only: prod.case outcome.case option.case if_not_P [OF False] r(1) simp_thms)
  qed
qed

lemma lookup_put_above: "\<lbrakk>dirs_above t l; l \<noteq> []\<rbrakk> \<Longrightarrow> lookup (put_at l n t) l = Some n"
  using lookup_put_same [of t l _ n] by (metis butlast_conv_take diff_less dirs_above_def is_dir.simps(1) length_greater_0_conv zero_less_one)

lemma computeHash_run:
  assumes "at_path (wfs w) cs (Reg a c)" and "\<forall>h. wr h w"
  shows "\<exists>e p. rh_computeHash B (abs_path cs) algo [] True w
     = (Ret (Some (b_hash B (rh_hashLabels ! algo) c), []), w\<lparr>errno := e, progress := p\<rparr>)"
  using saysD [OF says_computeHash [OF assms(1), of "users w" B algo "[]" True] refl refl assms(2)] by simp

lemma publish_all: "\<exists>p. io_for vs (\<lambda>v. publishDelta (length v)) w = (Ret (), w\<lparr>progress := p\<rparr>)"
proof (induction vs arbitrary: w)
  case Nil
  then show ?case by (intro exI [of _ "progress w"]) (simp add: ret_app)
next
  case (Cons v vs)
  have p: "publishDelta (length v) w = (Ret (), w\<lparr>progress := progress w + of_nat (length v)\<rparr>)" by (simp add: publishDelta_def modify_app)
  obtain p where "io_for vs (\<lambda>v. publishDelta (length v)) (w\<lparr>progress := progress w + of_nat (length v)\<rparr>)
      = (Ret (), w\<lparr>progress := progress w + of_nat (length v), progress := p\<rparr>)" using Cons by blast
  then show ?case by (intro exI [of _ p]) (simp add: thn_app p)
qed

text \<open>
  C20: the tool for digests and the servers agree. For a regular file the digest of \<open>producer_hasher\<close>, which reads blocks of 32 MB
  and hashes them in another thread, is the one of \<open>rh_computeHash\<close>, which reads blocks of 1 MB: that of the whole content.
\<close>

theorem producer_hasher_agrees:
  assumes "at_path (wfs w) cs (Reg a c)" and "\<forall>h. wr h w"
  shows "\<exists>h p e q. producer_hasher B (abs_path cs) algo w = (Ret h, w\<lparr>progress := p\<rparr>)
    \<and> rh_computeHash B (abs_path cs) algo [] True w = (Ret (Some h, []), w\<lparr>errno := e, progress := q\<rparr>) \<and> h = b_hash B (rh_hashLabels ! algo) c"
proof -
  let ?d = "\<lparr>fd_path = abs_path cs, fd_loc = cs, fd_pos = 0\<rparr>"
  have at: "no_faults (wfs w)" "\<forall>c \<in> set cs. good_name c" "cs \<noteq> []" "dirs_above (root (wfs w)) cs" "lookup (root (wfs w)) cs = Some (Reg a c)"
    using assms(1) by (simp_all add: at_path_def)
  have op: "fd_create (abs_path cs) FM_READ w = (Ret (Inr ?d), w)"
    using resolve_plain_Found [OF at(2-5), of True] at(1) by (simp add: fd_create_def sys_open_read_def no_faults_faulty)
  have data: "file_data (wfs w) cs = Some c" using at(5) by (simp add: file_data_def)
  obtain bs where r: "read_blocks (length c + 2) ?d [] w = (Ret (Some bs), w)" "concat bs = c"
    using read_blocks_run [OF at(1), of ?d c "length c + 2" "[]"] data by auto
  obtain p where "io_for bs (\<lambda>v. publishDelta (length v)) w = (Ret (), w\<lparr>progress := p\<rparr>)" using publish_all by blast
  then have "producer_hasher B (abs_path cs) algo w = (Ret (b_hash B (rh_hashLabels ! algo) c), w\<lparr>progress := p\<rparr>)"
    using r op data by (simp add: producer_hasher_def bnd_app thn_app ret_app get_app del: read_blocks.simps)
  with computeHash_run [OF assms, of B algo] show ?thesis by blast
qed

subsection \<open>The content of a created file\<close>

lemma length_resize [simp]: "length (resize n v) = n"
  by (simp add: resize_def)

lemma length_fill: "\<lbrakk>stream_cipher B; length v = SPMC_QUEUE_BSIZE\<rbrakk> \<Longrightarrow> length (fill_block B c k v) = SPMC_QUEUE_BSIZE"
  by (simp add: fill_block_def rand_round_def Let_def stream_cipher_def SPMC_QUEUE_BSIZE_def)

lemma length_more: "stream_cipher B \<Longrightarrow> length (concat (more_blocks B c k v n)) = n * SPMC_QUEUE_BSIZE"
  by (induction n arbitrary: v) (simp_all add: Let_def length_fill)

lemma length_created: "stream_cipher B \<Longrightarrow> length (concat (created_blocks B c seed sz)) = sz"
  by (simp add: created_blocks_def Let_def length_more)

lemma write_blocks:
  assumes "l \<noteq> []"
  shows "\<lbrakk>lookup (root (wfs w)) l = Some (Reg a dd); fd_loc d = l; fd_pos d = length dd; no_faults (wfs w)\<rbrakk> \<Longrightarrow>
    \<exists>p d'. io_fold FileWriterConsumer_processItem d vs w = (Ret d', w\<lparr>wfs := set_file l a (dd @ concat vs) (wfs w), progress := p\<rparr>)"
proof (induction vs arbitrary: w dd d)
  case Nil
  then show ?case by (intro exI [of _ "progress w"] exI [of _ d]) (simp add: ret_app set_file_def put_same)
next
  case (Cons v vs)
  let ?w = "w\<lparr>wfs := set_file l a (dd @ v) (wfs w), progress := progress w + of_nat (length v)\<rparr>"
  let ?d = "if v = [] then d else fd_advance (length v) d"
  have st: "FileWriterConsumer_processItem d v w = (Ret ?d, ?w)"
    using Cons.prems
    by (simp add: FileWriterConsumer_processItem_def bnd_app thn_app ret_app publishDelta_def modify_app sys_write_def no_faults_faulty
        overwrite_end set_file_def put_same)
  have lk: "lookup (root (wfs ?w)) l = Some (Reg a (dd @ v))" and nf: "no_faults (wfs ?w)"
    using Cons.prems assms by (simp_all add: set_file_def lookup_put_existing)
  have d: "fd_loc ?d = l" "fd_pos ?d = length (dd @ v)" using Cons.prems(2,3) by simp_all
  obtain p d' where "io_fold FileWriterConsumer_processItem ?d vs ?w = (Ret d', ?w\<lparr>wfs := set_file l a ((dd @ v) @ concat vs) (wfs ?w), progress := p\<rparr>)"
    using Cons.IH [OF lk d nf] by blast
  then show ?case by (intro exI [of _ p] exI [of _ d']) (simp add: bnd_app st set_file_set_file)
qed

text \<open>A created file has the size that was asked for; its content is a function of the seed, the size and the cipher.\<close>

lemma createAndHash_run:
  assumes "no_faults (wfs w)" "\<forall>c \<in> set l. good_name c" "l \<noteq> []" "dirs_above (root (wfs w)) l"
    "lookup (root (wfs w)) l = None" and "stream_cipher B"
  shows "\<exists>content p. producer_createAndHash B hex (abs_path l) algo oh sz seed cipher w
      = (Ret (0, case algo of None \<Rightarrow> [] | Some a \<Rightarrow> hex (b_hash B (rh_hashLabels ! a) content)),
         w\<lparr>wfs := set_file l (new_attr 420 (wfs w)) content (wfs w), progress := p\<rparr>)
    \<and> length content = unat sz \<and> content = concat (created_blocks B cipher seed (unat sz))"
proof -
  let ?content = "concat (created_blocks B cipher seed (unat sz))" and ?a = "new_attr 420 (wfs w)"
  let ?d = "\<lparr>fd_path = abs_path l, fd_loc = l, fd_pos = 0\<rparr>" and ?w1 = "w\<lparr>wfs := set_file l (new_attr 420 (wfs w)) [] (wfs w)\<rparr>"
  have op: "fd_create (abs_path l) FM_XCL w = (Ret (Inr ?d), ?w1)"
    using resolve_plain_Missing [OF assms(2-5), of False] assms(1) by (simp add: fd_create_def sys_open_excl_def no_faults_faulty set_file_def)
  have "lookup (root (wfs ?w1)) l = Some (Reg ?a [])" using lookup_put_above [OF assms(4,3)] by (simp add: set_file_def)
  moreover have "no_faults (wfs ?w1)" using assms(1) by (simp add: set_file_def)
  ultimately obtain p d' where "io_fold FileWriterConsumer_processItem ?d (created_blocks B cipher seed (unat sz)) ?w1
      = (Ret d', ?w1\<lparr>wfs := set_file l ?a ([] @ ?content) (wfs ?w1), progress := p\<rparr>)"
    using write_blocks [OF assms(3), of ?w1 ?a "[]" ?d "created_blocks B cipher seed (unat sz)"] by auto
  with op length_created [OF assms(6)] show ?thesis
    by (intro exI [of _ ?content] exI [of _ p]) (simp add: producer_createAndHash_def bnd_app thn_app ret_app set_file_set_file Let_def)
qed

text \<open>
  C37: the seed is lost when the size is a multiple of the block size. Then the first block, which carries the seed or the random
  key, is cut to length zero, and the next ones are made from zeros: for every such size (32 MB, 4 GB) the file is the
  same for all seeds, and for no seed.
\<close>

theorem create_ignores_seed:
  assumes "SPMC_QUEUE_BSIZE dvd unat sz"
  shows "producer_createAndHash B hex path algo oh sz seed cipher = producer_createAndHash B hex path algo oh sz seed' cipher"
proof -
  have "unat sz mod SPMC_QUEUE_BSIZE = 0" using assms by simp
  then have "created_blocks B cipher seed (unat sz) = created_blocks B cipher seed' (unat sz)"
    by (simp only: created_blocks_def resize_def Let_def take_0 minus_nat.diff_0 diff_0_eq_0 replicate_0)
  then show ?thesis by (simp only: producer_createAndHash_def)
qed

subsection \<open>Witnesses\<close>

theorem producer_hasher_agrees_witness:
  "\<exists>h p e q. producer_hasher toy_botan ''/f'' 1 link_world = (Ret h, link_world\<lparr>progress := p\<rparr>)
    \<and> rh_computeHash toy_botan ''/f'' 1 [] True link_world = (Ret (Some h, []), link_world\<lparr>errno := e, progress := q\<rparr>) \<and> h = [5]"
proof -
  have "at_path (wfs link_world) [''f''] (Reg attr0 [1, 2, 3, 4, 5])"
    by (simp add: at_path_def link_world_def no_faults_def good_name_def dirs_above_def)
  moreover have "\<forall>h. wr h link_world" by (simp add: link_world_def)
  ultimately show ?thesis
    using producer_hasher_agrees [of link_world "[''f'']" attr0 "[1, 2, 3, 4, 5]" toy_botan 1]
    by (simp add: toy_botan_def)
qed

theorem create_ignores_seed_witness:
  "producer_createAndHash xor_botan (\<lambda>_. []) ''/rnd'' None [] 32000000 ''one seed'' [] = producer_createAndHash xor_botan (\<lambda>_. []) ''/rnd'' None [] 32000000 ''another'' []"
  by (rule create_ignores_seed) (simp add: SPMC_QUEUE_BSIZE_def)

end
