(* ===== verification/RH_HttpsClient.thy ===== *)
theory RH_HttpsClient
  imports RH_Http
begin

section \<open>The client of the command line\<close>

text \<open>
  The class \<open>HTTPSClient\<close> of tls/https_requests.h: requests with any method, headers and body, redirects, the response in
  memory or in a file. The network is a parameter as in \<open>RH_Http\<close>, with one more argument, whether certificates are
  verified. \<open>std::unordered_map\<close> has an order of its own, which is the parameter \<open>hash_order\<close>. What is printed is not modelled;
  after an exception, which \<open>request\<close> turns into a code, the fields of the client are those before the response.
\<close>

record https_client =
  responseHeaders :: string
  responseBody :: "byte list"
  currentUrl :: string
  detectedFilename :: string
  httpResponseCode :: int

definition new_client :: "https_client" where
  "new_client = \<lparr>responseHeaders = [], responseBody = [], currentUrl = [], detectedFilename = [], httpResponseCode = 0\<rparr>"

definition defaultHeaders :: "(string \<times> string) list" where
  "defaultHeaders = [(''User-Agent'', ''XFilesHTTPSClient/1.0.0''), (''Accept'', ''*/*'')]"

definition headerMapToStr :: "((string \<times> string) list \<Rightarrow> (string \<times> string) list) \<Rightarrow> (string \<times> string) list \<Rightarrow> string" where
  "headerMapToStr hash_order headerMap = concat (map (\<lambda>p. fst p @ '': '' @ snd p @ CRLF) (hash_order headerMap))"

text \<open>\<open>insert\<close> of a range: a key that exists is not overwritten.\<close>

definition totalHeaders :: "(string \<times> string) list \<Rightarrow> (string \<times> string) list" where
  "totalHeaders headers = headers @ filter (\<lambda>p. fst p \<notin> fst ` set headers) defaultHeaders"

definition request_text :: "((string \<times> string) list \<Rightarrow> (string \<times> string) list) \<Rightarrow> string \<Rightarrow> httpUrlInfo
    \<Rightarrow> (string \<times> string) list \<Rightarrow> string \<Rightarrow> string" where
  "request_text hash_order httpMethod info headers requestBody =
     (let q = queryString info; qs1 = (if q = [] \<or> hd q \<noteq> CHR ''/'' then CHR ''/'' # q else q) in
      httpMethod @ '' '' @ qs1 @ '' HTTP/1.0'' @ CRLF @ ''Host: '' @ domainOnly info @ CRLF
      @ headerMapToStr hash_order (totalHeaders headers)
      @ (if requestBody \<noteq> [] then ''Content-Length: '' @ dec_string (length requestBody) @ CRLF else []) @ CRLF)"

subsection \<open>The response\<close>

text \<open>Where the body goes; a file that cannot be created is noticed at the first write to it.\<close>

datatype body_sink = To_Memory "byte list" | To_File fd | To_Nothing

definition body_write :: "body_sink \<Rightarrow> byte list \<Rightarrow> body_sink io" where
  "body_write b bs = (case b of
       To_Memory m \<Rightarrow> ret (To_Memory (m @ bs))
     | To_File d \<Rightarrow> bnd (fd_writeAllOrExit d bs) (\<lambda>d'. ret (To_File d'))
     | To_Nothing \<Rightarrow> if bs = [] then ret To_Nothing else threadExit)"

definition body_file :: "string \<Rightarrow> string \<Rightarrow> string io" where
  "body_file targetPath df1 =
     (if targetPath = [] then ret (''.'' @ getSystemPathSeparator @ df1)
      else bnd (existsIsFileIsDir0 targetPath) (\<lambda>efd.
        ret (if efd = 2 then targetPath @ getSystemPathSeparator @ df1 else targetPath)))"

definition response_chunk :: "body_sink \<times> u64 \<Rightarrow> byte list \<Rightarrow> (body_sink \<times> u64) io" where
  "response_chunk s buf =
     (let currentProgress = snd s + of_nat (length buf) in
      bnd (body_write (fst s) buf) (\<lambda>b.
      thn (modify (progress_update (\<lambda>_. currentProgress))) (ret (b, currentProgress))))"

definition parseResponseHeadersAndDownloadBody ::
  "int \<Rightarrow> bool \<Rightarrow> string \<Rightarrow> http_conn \<Rightarrow> https_client \<Rightarrow> (int \<times> https_client) io" where
  "parseResponseHeadersAndDownloadBody junk downloadToFile targetPath C c =
     (case read_head [] (h_chunks C) of
        HeadEof \<Rightarrow> ret (- 1, c)
      | HeadTooLarge \<Rightarrow> raise StdException
      | Head hdrs tmpBody chunks \<Rightarrow>
     (let c1 = c\<lparr>responseHeaders := hdrs, responseBody := responseBody c @ tmpBody\<rparr> in
      case parseResponseCode hdrs of
        None \<Rightarrow> raise StdException
      | Some httpRet \<Rightarrow>
      if httpRet = 301 \<or> httpRet = 302 then ret (httpRet, c1)
      else let c2 = c1\<lparr>detectedFilename := getHttpFilename junk hdrs (currentUrl c1)\<rparr> in
        bnd (if downloadToFile then
               bnd (body_file targetPath (detectedFilename c2)) (\<lambda>downloadPath.
               bnd (fd_create downloadPath FM_XCL) (\<lambda>r. body_write (case r of Inl e \<Rightarrow> To_Nothing | Inr d \<Rightarrow> To_File d) (responseBody c2)))
             else ret (To_Memory (responseBody c2))) (\<lambda>b.
        case parseContentLength hdrs of
          None \<Rightarrow> raise StdException
        | Some parsedContentLength \<Rightarrow>
          thn getProgressHook
         (bnd (io_fold response_chunk (b, of_nat (length tmpBody)) (takeWhile (\<lambda>c. c \<noteq> []) chunks)) (\<lambda>(b', currentProgress).
          let c3 = (case b' of To_Memory m \<Rightarrow> c2\<lparr>responseBody := m\<rparr> | _ \<Rightarrow> c2) in
          ret (if (if parsedContentLength \<noteq> maxuint then currentProgress = parsedContentLength else h_clean C) then httpRet else - 1, c3))))))"

subsection \<open>A request\<close>

text \<open>One round of the loop: \<open>Inl\<close> the client that goes on with the redirect, \<open>Inr\<close> the code that is returned.\<close>

record http_call =
  hr_method :: string
  hr_headers :: "(string \<times> string) list"
  hr_body :: string
  hr_toFile :: bool
  hr_target :: string
  hr_verify :: bool
  hr_httpsOnly :: bool

definition exchange :: "((string \<times> string) list \<Rightarrow> (string \<times> string) list) \<Rightarrow> int \<Rightarrow> http_call \<Rightarrow> httpUrlInfo \<Rightarrow> http_conn \<Rightarrow> https_client
    \<Rightarrow> (https_client + int \<times> https_client) io" where
  "exchange hash_order junk R info C c =
     thn (writeAllOrExit Rcl (s2b (request_text hash_order (hr_method R) info (hr_headers R) (hr_body R))))
    (thn (if hr_body R = [] then ret () else writeAllOrExit Rcl (s2b (hr_body R @ CRLF @ CRLF)))
    (bnd (parseResponseHeadersAndDownloadBody junk (hr_toFile R) (hr_target R) C c) (\<lambda>(httpRet, c').
     let c1 = c'\<lparr>httpResponseCode := httpRet\<rparr> in
     if httpRet = 301 \<or> httpRet = 302 then
       (case getRedirectLocation (responseHeaders c1) of
          None \<Rightarrow> raise StdException
        | Some loc \<Rightarrow> ret (Inl (c1\<lparr>currentUrl := loc\<rparr>)))
     else ret (Inr (if httpRet \<noteq> 200 then - 3 else 0, c1)))))"

definition catch_codes :: "https_client \<Rightarrow> (https_client + int \<times> https_client) io \<Rightarrow> (https_client + int \<times> https_client) io" where
  "catch_codes c m = (\<lambda>w. case m w of
       (Raise ThreadExit, w') \<Rightarrow> (Ret (Inr (- 4, c)), w')
     | (Raise StdException, w') \<Rightarrow> (Ret (Inr (- 5, c)), w')
     | r \<Rightarrow> r)"

definition request_round :: "((string \<times> string) list \<Rightarrow> (string \<times> string) list) \<Rightarrow> (bool \<Rightarrow> network) \<Rightarrow> int \<Rightarrow> http_call \<Rightarrow> https_client
    \<Rightarrow> (https_client + int \<times> https_client) io" where
  "request_round hash_order connect junk R c0 =
     (let c = c0\<lparr>responseHeaders := [], responseBody := []\<rparr> in
      case getHttpInfo (currentUrl c) (\<not> hr_httpsOnly R) of
        Inl None \<Rightarrow> raise StdException
      | Inl (Some r) \<Rightarrow> ret (Inr (r, c))
      | Inr info \<Rightarrow>
     (case connect (hr_verify R) (domainOnly info) (port info) of
        None \<Rightarrow> ret (Inr (- 1, c))
      | Some C \<Rightarrow>
        if isHttps info \<and> h_hash C = [] then ret (Inr (- 2, c))
        else catch_codes c (exchange hash_order junk R info C c)))"

text \<open>The blank lines that are appended to the body stay in \<open>requestBody\<close> for the next round.\<close>

definition next_call :: "http_call \<Rightarrow> http_call" where
  "next_call R = (if hr_body R = [] then R else R\<lparr>hr_body := hr_body R @ CRLF @ CRLF\<rparr>)"

primrec request_loop :: "((string \<times> string) list \<Rightarrow> (string \<times> string) list) \<Rightarrow> (bool \<Rightarrow> network) \<Rightarrow> int \<Rightarrow> nat \<Rightarrow> http_call \<Rightarrow> https_client
    \<Rightarrow> (int \<times> https_client) io" where
  "request_loop hash_order connect junk 0 R c = ret (- 6, c)"
| "request_loop hash_order connect junk (Suc n) R c =
     bnd (request_round hash_order connect junk R c) (\<lambda>r. case r of
       Inl c' \<Rightarrow> request_loop hash_order connect junk n (next_call R) c' | Inr x \<Rightarrow> ret x)"

text \<open>
  \<open>for(int i=0;i<=maxRedirects;i++)\<close> with an unsigned limit. For the limit -1, which stands for the largest value, the
  comparison is always true, and after 2147483648 redirects \<open>i\<close> overflows, which C++ leaves undefined.
\<close>

definition http_request :: "((string \<times> string) list \<Rightarrow> (string \<times> string) list) \<Rightarrow> (bool \<Rightarrow> network) \<Rightarrow> int \<Rightarrow> http_call \<Rightarrow> string \<Rightarrow> u32
    \<Rightarrow> https_client \<Rightarrow> (int \<times> https_client) io" where
  "http_request hash_order connect junk R url maxRedirects c =
     request_loop hash_order connect junk (Suc (unat maxRedirects)) R (c\<lparr>currentUrl := url\<rparr>)"

subsection \<open>Redirects\<close>

lemma memory_chunks:
  "\<exists>q. io_fold response_chunk (To_Memory m, cur) cs w
     = (Ret (To_Memory (m @ concat cs), cur + of_nat (length (concat cs))), w\<lparr>progress := q\<rparr>)"
proof (induction cs arbitrary: m cur w)
  case Nil
  then show ?case by (intro exI [of _ "progress w"]) (simp add: ret_app)
next
  case (Cons x cs)
  let ?w = "w\<lparr>progress := cur + of_nat (length x)\<rparr>"
  have "response_chunk (To_Memory m, cur) x w = (Ret (To_Memory (m @ x), cur + of_nat (length x)), ?w)"
    by (simp add: response_chunk_def body_write_def Let_def io_eval)
  moreover obtain q where "io_fold response_chunk (To_Memory (m @ x), cur + of_nat (length x)) cs ?w
     = (Ret (To_Memory ((m @ x) @ concat cs), cur + of_nat (length x) + of_nat (length (concat cs))), ?w\<lparr>progress := q\<rparr>)"
    using Cons.IH by blast
  ultimately show ?case by (intro exI [of _ q]) (simp add: bnd_app add.assoc)
qed

definition answered :: "(bool \<Rightarrow> network) \<Rightarrow> http_call \<Rightarrow> string \<Rightarrow> httpUrlInfo \<Rightarrow> http_conn \<Rightarrow> bool" where
  "answered connect R url info C \<longleftrightarrow> getHttpInfo url (\<not> hr_httpsOnly R) = Inr info
     \<and> connect (hr_verify R) (domainOnly info) (port info) = Some C \<and> (isHttps info \<longrightarrow> h_hash C \<noteq> [])"

text \<open>The servers on the way from \<open>url\<close> to \<open>url'\<close>, and the bytes that they are sent.\<close>

inductive redirects :: "(bool \<Rightarrow> network) \<Rightarrow> http_call \<Rightarrow> httpUrlInfo list \<Rightarrow> string \<Rightarrow> string \<Rightarrow> bool" for connect R where
  here: "redirects connect R [] url url"
| there: "\<lbrakk>answered connect R url info C; serves C hdrs body; parseResponseCode hdrs = Some code; code = 301 \<or> code = 302;
    getRedirectLocation hdrs = Some loc; redirects connect R infos loc url'\<rbrakk> \<Longrightarrow> redirects connect R (info # infos) url url'"

definition request_bytes :: "((string \<times> string) list \<Rightarrow> (string \<times> string) list) \<Rightarrow> http_call \<Rightarrow> httpUrlInfo \<Rightarrow> byte list" where
  "request_bytes hash_order R info = s2b (request_text hash_order (hr_method R) info (hr_headers R) (hr_body R))
     @ (if hr_body R = [] then [] else s2b (hr_body R @ CRLF @ CRLF))"

primrec requests_sent :: "((string \<times> string) list \<Rightarrow> (string \<times> string) list) \<Rightarrow> http_call \<Rightarrow> httpUrlInfo list \<Rightarrow> byte list" where
  "requests_sent hash_order R [] = []"
| "requests_sent hash_order R (info # infos) = request_bytes hash_order R info @ requests_sent hash_order (next_call R) infos"

lemma next_call_fields [simp]: "hr_verify (next_call R) = hr_verify R" "hr_httpsOnly (next_call R) = hr_httpsOnly R"
  "hr_toFile (next_call R) = hr_toFile R"
  by (simp_all add: next_call_def)

lemma answered_next [simp]: "answered connect (next_call R) url info C = answered connect R url info C"
  by (simp add: answered_def)

lemma exchange_sent:
  assumes "wr Rcl w"
  shows "exchange hash_order junk R info C c w = bnd (parseResponseHeadersAndDownloadBody junk (hr_toFile R) (hr_target R) C c) (\<lambda>(httpRet, c').
     let c1 = c'\<lparr>httpResponseCode := httpRet\<rparr> in
     if httpRet = 301 \<or> httpRet = 302 then
       (case getRedirectLocation (responseHeaders c1) of
          None \<Rightarrow> raise StdException
        | Some loc \<Rightarrow> ret (Inl (c1\<lparr>currentUrl := loc\<rparr>)))
     else ret (Inr (if httpRet \<noteq> 200 then - 3 else 0, c1))) (emit Rcl (request_bytes hash_order R info) w)"
  using assms by (cases "hr_body R = []") (auto simp: exchange_def thn_app ret_app write_emit request_bytes_def)

lemma round_of_exchange:
  assumes "answered connect R (currentUrl c) info C"
    "exchange hash_order junk R info C (c\<lparr>responseHeaders := [], responseBody := []\<rparr>) w = (Ret x, w')"
  shows "request_round hash_order connect junk R c w = (Ret x, w')"
  using assms by (auto simp: request_round_def answered_def catch_codes_def Let_def)

lemma round_redirect:
  assumes "answered connect R (currentUrl c) info C" "serves C hdrs body" "parseResponseCode hdrs = Some code" "code = 301 \<or> code = 302"
    "getRedirectLocation hdrs = Some loc" "wr Rcl w"
  shows "\<exists>c'. request_round hash_order connect junk R c w = (Ret (Inl c'), emit Rcl (request_bytes hash_order R info) w) \<and> currentUrl c' = loc"
proof -
  obtain tmp rest where head: "read_head [] (h_chunks C) = Head hdrs tmp rest" using serves_head [OF assms(2)] by blast
  let ?c = "c\<lparr>responseHeaders := [], responseBody := []\<rparr>"
  have e: "exchange hash_order junk R info C ?c w = (Ret (Inl (?c\<lparr>responseHeaders := hdrs, responseBody := tmp, httpResponseCode := code,
      currentUrl := loc\<rparr>)), emit Rcl (request_bytes hash_order R info) w)"
    using exchange_sent [OF assms(6), of hash_order junk R info C ?c] assms(3-5) head
    by (auto simp: parseResponseHeadersAndDownloadBody_def bnd_app ret_app)
  from round_of_exchange [OF assms(1) this] show ?thesis by auto
qed

lemma round_final:
  assumes "answered connect R (currentUrl c) info C" "serves C hdrs body" "parseResponseCode hdrs = Some 200"
    "parseContentLength hdrs = Some (of_nat (length body))" "length body < 2 ^ 63" "\<not> hr_toFile R" "wr Rcl w"
  shows "\<exists>c' q. request_round hash_order connect junk R c w = (Ret (Inr (0, c')), (emit Rcl (request_bytes hash_order R info) w)\<lparr>progress := q\<rparr>)
    \<and> responseHeaders c' = hdrs \<and> responseBody c' = body \<and> currentUrl c' = currentUrl c"
proof -
  obtain tmp rest where head: "read_head [] (h_chunks C) = Head hdrs tmp rest" "body = tmp @ concat rest" "\<forall>c \<in> set rest. c \<noteq> []"
    using serves_head [OF assms(2)] by blast
  let ?c = "c\<lparr>responseHeaders := [], responseBody := []\<rparr>" and ?out = "request_bytes hash_order R info"
  have tw: "takeWhile (\<lambda>c. c \<noteq> []) rest = rest" using head(3) by (simp add: takeWhile_eq_all_conv)
  have len: "of_nat (length tmp) + of_nat (length (concat rest)) = (of_nat (length body) :: u64)" by (simp add: head(2))
  have "unat (of_nat (length body) :: u64) = length body" using assms(5) by (intro unat_of_nat_small) simp
  then have nomax: "(of_nat (length body) :: u64) \<noteq> maxuint"
    using assms(5) by (auto simp: maxuint_def unsigned_minus_1_eq_mask mask_eq_exp_minus_1)
  let ?w1 = "(emit Rcl ?out w)\<lparr>progress := 0\<rparr>"
  obtain q where loop: "io_fold response_chunk (To_Memory tmp, of_nat (length tmp)) rest ?w1
     = (Ret (To_Memory body, of_nat (length body)), ?w1\<lparr>progress := q\<rparr>)"
    using memory_chunks [of tmp "of_nat (length tmp)" rest ?w1] unfolding len head(2) [symmetric] by blast
  have "parseResponseHeadersAndDownloadBody junk False (hr_target R) C ?c (emit Rcl ?out w)
      = (Ret (200, ?c\<lparr>responseHeaders := hdrs, detectedFilename := getHttpFilename junk hdrs (currentUrl c), responseBody := body\<rparr>), ?w1\<lparr>progress := q\<rparr>)"
    using loop nomax assms(3,4)
    by (simp add: parseResponseHeadersAndDownloadBody_def head(1) tw Let_def bnd_app thn_app ret_app getProgressHook_def modify_app)
  then have "exchange hash_order junk R info C ?c w = (Ret (Inr (0, ?c\<lparr>responseHeaders := hdrs, detectedFilename := getHttpFilename junk hdrs (currentUrl c),
      responseBody := body, httpResponseCode := 200\<rparr>)), ?w1\<lparr>progress := q\<rparr>)"
    using exchange_sent [OF assms(7), of hash_order junk R info C ?c] assms(6) by (simp add: bnd_app ret_app Let_def)
  from round_of_exchange [OF assms(1) this] show ?thesis by auto
qed


text \<open>A server that redirects to another one.\<close>

definition moved_headers :: string where
  "moved_headers = ''HTTP/1.1 301 Moved'' @ CRLF @ ''Location: b/x'' @ CRLF @ CRLF"

definition moved_conn :: http_conn where
  "moved_conn = \<lparr>h_hash = [1], h_chunks = [s2b moved_headers], h_clean = True\<rparr>"

definition two_hosts :: "bool \<Rightarrow> network" where
  "two_hosts v d p = Some (if d = ''a'' then moved_conn else hello_conn)"

definition get_call :: http_call where
  "get_call = \<lparr>hr_method = ''GET'', hr_headers = [], hr_body = [], hr_toFile = False, hr_target = [], hr_verify = True, hr_httpsOnly = True\<rparr>"

lemma moved_served: "serves moved_conn moved_headers []"
proof -
  have "find_str moved_headers (CRLF @ CRLF) = Some 33" by code_simp
  moreover have "length moved_headers = 37" by (simp add: moved_headers_def CRLF_def)
  ultimately show ?thesis by (auto simp: serves_def moved_conn_def s2b_def)
qed

lemma moved_code: "parseResponseCode moved_headers = Some 301" "getRedirectLocation moved_headers = Some ''b/x''"
proof -
  have "find_str moved_headers CRLF = Some 18" "take 18 moved_headers = ''HTTP/1.1 301 Moved''"
    "find_str ''HTTP/1.1 301 Moved'' '' '' = Some 8" "drop 9 ''HTTP/1.1 301 Moved'' = ''301 Moved''" "find_str ''301 Moved'' '' '' = Some 3"
    "dec_prefix ''301'' = Some 301"
    by code_simp+
  then show "parseResponseCode moved_headers = Some 301"
    by (simp add: parseResponseCode_def Let_def strtol_def clamp64_def)
  show "getRedirectLocation moved_headers = Some ''b/x''" by code_simp
qed

lemma two_hosts_answer:
  "answered two_hosts get_call ''a/'' \<lparr>isHttps = True, domainOnly = ''a'', port = 443, queryString = ''/''\<rparr> moved_conn"
  "answered two_hosts get_call ''b/x'' \<lparr>isHttps = True, domainOnly = ''b'', port = 443, queryString = ''/x''\<rparr> hello_conn"
proof -
  have "getHttpInfo ''a/'' False = Inr \<lparr>isHttps = True, domainOnly = ''a'', port = 443, queryString = ''/''\<rparr>"
    "getHttpInfo ''b/x'' False = Inr \<lparr>isHttps = True, domainOnly = ''b'', port = 443, queryString = ''/x''\<rparr>"
    by code_simp+
  then show
    "answered two_hosts get_call ''a/'' \<lparr>isHttps = True, domainOnly = ''a'', port = 443, queryString = ''/''\<rparr> moved_conn"
    "answered two_hosts get_call ''b/x'' \<lparr>isHttps = True, domainOnly = ''b'', port = 443, queryString = ''/x''\<rparr> hello_conn"
    by (simp_all add: answered_def get_call_def two_hosts_def moved_conn_def hello_conn_def)
qed


end
