(* ===== verification/RH_Cli.thy ===== *)
theory RH_Cli
  imports RH_Dispatch RH_HttpsClient RH_SpmcFiles
begin

section \<open>The tools of the command line\<close>

text \<open>
  cli.h, for Unix. A tool takes the arguments of the process, \<open>argv ! 0\<close> is its name, and returns the exit code;
  printed are only the results (digests), as a list of lines. \<open>_Exit(0)\<close> after a usage message is \<open>ProcExit 0\<close>. What is
  written to the \<open>SinkDescriptor\<close>, which stands in for the socket of the user interface, is discarded.
\<close>

subsection \<open>Sizes\<close>

text \<open>\<open>std::stoull\<close>; a sign is accepted; \<open>None\<close>: it throws.\<close>

definition stoull :: "string \<Rightarrow> u64 option" where
  "stoull s = (case dec_prefix s of None \<Rightarrow> None | Some v \<Rightarrow> if \<bar>v\<bar> < 2 ^ 64 then Some (word_of_int v) else None)"

text \<open>\<open>junk\<close>: what is read in front of a string that is too short.\<close>

definition parseSizeString :: "char \<Rightarrow> string \<Rightarrow> u64 option" where
  "parseSizeString junk s =
     (let lastChar = (if s = [] then junk else last s); lastChar2 = (if length s < 2 then junk else s ! (length s - 2)) in
      if c_isdigit lastChar then stoull s
      else case (if lastChar = CHR ''b'' then Some 1000 else if lastChar = CHR ''B'' then Some 1024 else None) of
        None \<Rightarrow> None
      | Some candidate \<Rightarrow>
          (case (if lastChar2 = CHR ''k'' then Some (candidate, 2)
                 else if lastChar2 = CHR ''M'' then Some (candidate * candidate, 2)
                 else if lastChar2 = CHR ''G'' then Some (candidate * candidate * candidate, 2)
                 else if c_isdigit lastChar2 then Some (1, 1) else None) of
             None \<Rightarrow> None
           | Some (multiplier, k) \<Rightarrow> map_option (\<lambda>v. v * multiplier) (stoull (take (length s - k) s))))"

subsection \<open>Downloads and uploads\<close>

definition sinking :: "'a io \<Rightarrow> 'a io" where
  "sinking m = (\<lambda>w. case m (set_conn Cl \<lparr>inb = [], outb = [], closed = False, wroom = None\<rparr> w) of
     (r, w') \<Rightarrow> (r, set_conn Cl (conns w Cl) w'))"

primrec cli_redirects :: "nat \<Rightarrow> network \<Rightarrow> int \<Rightarrow> string \<Rightarrow> string \<Rightarrow> string \<Rightarrow> string \<Rightarrow> int \<Rightarrow> int io" where
  "cli_redirects 0 connect junk targetUrl destDir destFilename redirectUrl httpRet = ret httpRet"
| "cli_redirects (Suc n) connect junk targetUrl destDir destFilename redirectUrl httpRet =
     bnd (httpsUrlDownload_internal connect junk Cl targetUrl destDir destFilename redirectUrl True True) (\<lambda>(httpRet', redirectUrl').
     if httpRet' = 200 then ret 0
     else if httpRet' \<noteq> 301 \<and> httpRet' \<noteq> 302 then thn (set_errno httpRet') (thn (sendErrorResponse Cl) (ret httpRet'))
     else cli_redirects n connect junk redirectUrl' destDir destFilename redirectUrl' httpRet')"

definition downloadFromArgs :: "network \<Rightarrow> int \<Rightarrow> string list \<Rightarrow> int io" where
  "downloadFromArgs connect junk argv =
     (if length argv < 3 then raise (ProcExit 0)
      else let url0 = argv ! 2; targetUrl = (if find_str url0 ''https://'' = Some 0 then drop 8 url0 else url0);
               destDir = (if 4 \<le> length argv then argv ! 3 else ''.''); destFilename = (if 5 \<le> length argv then argv ! 4 else []) in
        sinking (cli_redirects 5 connect junk targetUrl destDir destFilename [] (- 1)))"

definition upload_x0at_0x0st :: "network \<Rightarrow> int \<Rightarrow> string \<Rightarrow> string list \<Rightarrow> int io" where
  "upload_x0at_0x0st connect junk rnd argv =
     (if length argv < 3 then raise (ProcExit 0)
      else let domainOnly = (if argv ! 1 = ''x0at'' then ''x0.at'' else if argv ! 1 = ''0x0st'' then ''0x0.st'' else ''file.io'') in
        bnd (sinking (httpsUrlUpload_internal connect junk rnd Cl domainOnly (argv ! 2))) (\<lambda>httpRet.
        ret (if httpRet = 200 then 0 else httpRet)))"

subsection \<open>Keys\<close>

definition open_trunc :: "u32 \<Rightarrow> string \<Rightarrow> fs \<Rightarrow> (int + fd) \<times> fs" where
  "open_trunc mode p f = (case sys_open_write True p f of
       (Inl e, f') \<Rightarrow> (Inl e, f')
     | (Inr d, f') \<Rightarrow> (Inr d, if lookup (root f) (fd_loc d) = None
         then f\<lparr>root := put_at (fd_loc d) (Reg (new_attr mode f) []) (root f)\<rparr> else f'))"

text \<open>\<open>None\<close>: it cannot be opened; otherwise whether all was written.\<close>

definition write_whole :: "u32 \<Rightarrow> string \<Rightarrow> string \<Rightarrow> bool option io" where
  "write_whole mode p content = (\<lambda>w. case open_trunc mode p (wfs w) of
       (Inl e, f) \<Rightarrow> (Ret None, w\<lparr>wfs := f, errno := e\<rparr>)
     | (Inr d, f) \<Rightarrow> (case sys_write d (s2b content) f of (e, f') \<Rightarrow>
          if e \<noteq> 0 then (Ret (Some False), w\<lparr>wfs := f, errno := e\<rparr>) else (Ret (Some True), w\<lparr>wfs := f'\<rparr>)))"

definition write_to_file :: "string \<Rightarrow> u32 \<Rightarrow> string \<Rightarrow> unit io" where
  "write_to_file prvkName mode p = bnd (write_whole mode prvkName p) (\<lambda>r. if r = Some True then ret () else raise StdException)"

text \<open>\<open>catch (const std::runtime_error&)\<close>.\<close>

definition or_error :: "int io \<Rightarrow> int io" where
  "or_error m = (\<lambda>w. case m w of (Raise StdException, w') \<Rightarrow> (Ret (- 1), w') | r \<Rightarrow> r)"

definition sshKeygenFromArgs :: "keygen \<Rightarrow> string list \<Rightarrow> int io" where
  "sshKeygenFromArgs K argv =
     (if length argv < 3 then ret 0
      else if argv ! 2 = ''rsa'' then
        (let keySize = (if 4 \<le> length argv then word_of_int (atoi (argv ! 3)) else 4096);
             destDir = (if 5 \<le> length argv then argv ! 4 else ''.'');
             prvKeyName = (if 6 \<le> length argv then argv ! 5 else ''id_rsa'');
             keyPair = kg_rsa K keySize in
         bnd (write_whole 438 (destDir @ ''/'' @ prvKeyName) (fst keyPair)) (\<lambda>_.
         bnd (write_whole 438 (destDir @ ''/'' @ prvKeyName @ ''.pub'') (snd keyPair)) (\<lambda>_. ret 0)))
      else if argv ! 2 = ''ed25519'' then
        (let destDir = (if 4 \<le> length argv then argv ! 3 else ''.'');
             prvKeyName = (if 5 \<le> length argv then argv ! 4 else ''id_ed25519'');
             filepath = destDir @ ''/'' @ prvKeyName in
         or_error (bnd (generate_ed25519_keypair K (prvKeyName @ ''@xfiles'')) (\<lambda>(prv, pub).
           thn (write_to_file filepath 384 prv) (thn (write_to_file (filepath @ ''.pub'') 420 pub) (ret 0)))))
      else ret 0)"

subsection \<open>Digests\<close>

definition cli_dirHashOpts :: "string \<Rightarrow> u8" where
  "cli_dirHashOpts cmd = (if cmd = ''hashNames'' then 1 else 0) OR 2 OR 4"

text \<open>\<open>tmpAlgoMap\<close>: the position of the label.\<close>

definition cli_algo :: "string \<Rightarrow> nat option" where
  "cli_algo label = (let i = vecIndexOf cli_hashLabels (toUpperCase label) in if i < 0 then None else Some (nat i))"

definition cli_hash :: "botan \<Rightarrow> nat \<Rightarrow> u8 \<Rightarrow> string \<Rightarrow> byte list io" where
  "cli_hash B algo dirHashOpts path =
     bnd (efdL path) (\<lambda>efd.
     bnd (osGetSize path True) (\<lambda>totalSize.
     thn getProgressHook
    (if efd = CHR ''d'' \<or> efd = CHR ''L'' then rh_computeHash_dir B path algo dirHashOpts else producer_hasher B path algo)))"

definition hashFromArgs :: "botan \<Rightarrow> (byte list \<Rightarrow> string) \<Rightarrow> string list \<Rightarrow> (int \<times> string list) io" where
  "hashFromArgs B hex_encode argv =
     (if length argv < 4 then raise (ProcExit 0)
      else case cli_algo (argv ! 2) of
        None \<Rightarrow> raise (ProcExit 0)
      | Some algo \<Rightarrow>
          bnd (io_fold (\<lambda>out path. bnd (cli_hash B algo (cli_dirHashOpts (argv ! 1)) path) (\<lambda>h.
                 ret (out @ [hex_encode h @ '': '' @ path]))) [] (drop 3 argv)) (\<lambda>out. ret (0, out)))"

subsection \<open>Creation of files\<close>

definition streamCiphers :: "string list" where
  "streamCiphers = [''ChaCha'', ''AES-128/CTR'', ''AES-256/CTR'', ''SHACAL2/CTR'']"

text \<open>The options after the size: seed, label of the digest, cipher; \<open>None\<close>: the usage message.\<close>

fun create_options :: "string list \<Rightarrow> string \<times> string \<times> string \<Rightarrow> (string \<times> string \<times> string) option" where
  "create_options [] opts = Some opts"
| "create_options (arg # args) (seed, outputHashType, backendCipher) =
     (if find_str arg ''--seed='' = Some 0 then create_options args (drop 7 arg, outputHashType, backendCipher)
      else if find_str arg ''--output-hash='' = Some 0 then
        (let h = toUpperCase (drop 14 arg) in
         if h \<in> set cli_hashLabels then create_options args (seed, h, backendCipher) else None)
      else if find_str arg ''--backend='' = Some 0 then
        (if drop 10 arg \<in> set streamCiphers then create_options args (seed, outputHashType, drop 10 arg) else None)
      else None)"

text \<open>\<open>createEmptyFile\<close> for size 0 and without a socket.\<close>

definition touch_file :: "string \<Rightarrow> int io" where
  "touch_file path = bnd (fd_create path FM_XCL) (\<lambda>r. ret (case r of Inl e \<Rightarrow> e | Inr d \<Rightarrow> 0))"

definition create_line :: "nat \<Rightarrow> string \<Rightarrow> string list" where
  "create_line algo1 outputHashType =
     (if outputHashType = [] then [] else [cli_hashLabels ! algo1 @ '' for the generated file is: '' @ outputHashType])"

definition createFileFromArgs :: "botan \<Rightarrow> (byte list \<Rightarrow> string) \<Rightarrow> char \<Rightarrow> string list \<Rightarrow> (int \<times> string list) io" where
  "createFileFromArgs B hex_encode junk argv =
     (if length argv < 3 then raise (ProcExit 0)
      else case (if 4 \<le> length argv then parseSizeString junk (argv ! 3) else Some 0) of
        None \<Rightarrow> ret (- 1, [])
      | Some fileSize \<Rightarrow>
     (case (if 5 \<le> length argv then create_options (drop 4 argv) ([], [], []) else Some ([], [], [])) of
        None \<Rightarrow> raise (ProcExit 0)
      | Some (seed, outputHashType, backendCipher) \<Rightarrow>
          if fileSize = 0 then bnd (touch_file (argv ! 2)) (\<lambda>retval. ret (retval, create_line 0 outputHashType))
          else let algo1 = (if outputHashType = [] then 0 else nat (vecIndexOf cli_hashLabels outputHashType)) in
            thn getProgressHook
           (bnd (producer_createAndHash B hex_encode (argv ! 2) (if outputHashType = [] then None else Some algo1)
                   outputHashType fileSize seed backendCipher) (\<lambda>(retval, outputHashType').
            ret (retval, create_line algo1 outputHashType')))))"

subsection \<open>Requests\<close>

record cli_opts =
  o_method :: string
  o_headers :: "(string \<times> string) list"
  o_body :: string
  o_maxRedirs :: u32
  o_verify :: bool
  o_httpsOnly :: bool
  o_url :: string
  o_path :: string

record cli_seen =
  seen_method :: bool
  seen_body :: bool
  seen_maxRedirs :: bool
  seen_verify :: bool
  seen_httpsOnly :: bool

definition default_opts :: cli_opts where
  "default_opts = \<lparr>o_method = ''GET'', o_headers = [], o_body = [], o_maxRedirs = 10, o_verify = True, o_httpsOnly = True,
     o_url = [], o_path = []\<rparr>"

definition none_seen :: cli_seen where
  "none_seen = \<lparr>seen_method = False, seen_body = False, seen_maxRedirs = False, seen_verify = False, seen_httpsOnly = False\<rparr>"

text \<open>The loop over the arguments; \<open>None\<close>: an exception.\<close>

fun http_options :: "string list \<Rightarrow> cli_seen \<Rightarrow> cli_opts \<Rightarrow> cli_opts option" where
  "http_options [] seen opts = Some opts"
| "http_options (opt # args) seen opts =
     (if opt = ''-k'' \<or> opt = ''--insecure'' then
        (if seen_verify seen then None else http_options args (seen\<lparr>seen_verify := True\<rparr>) (opts\<lparr>o_verify := False\<rparr>))
      else if opt \<in> {''-H'', ''-d'', ''-X'', ''--max-redirs'', ''--httpsOnly''} then
        (if opt = ''-d'' \<and> seen_body seen \<or> opt = ''-X'' \<and> seen_method seen \<or> opt = ''--max-redirs'' \<and> seen_maxRedirs seen
            \<or> opt = ''--httpsOnly'' \<and> seen_httpsOnly seen then None
         else case args of [] \<Rightarrow> None
         | value # rest \<Rightarrow>
             if opt = ''-H'' then
               (case find_str value '': '' of None \<Rightarrow> None
                | Some idx \<Rightarrow> http_options rest seen (opts\<lparr>o_headers := AList.update (take idx value) (drop (idx + 2) value) (o_headers opts)\<rparr>))
             else if opt = ''-d'' then http_options rest (seen\<lparr>seen_body := True\<rparr>) (opts\<lparr>o_body := value\<rparr>)
             else if opt = ''-X'' then http_options rest (seen\<lparr>seen_method := True\<rparr>) (opts\<lparr>o_method := value\<rparr>)
             else if opt = ''--max-redirs'' then
               (case stoi value of None \<Rightarrow> None
                | Some m \<Rightarrow> http_options rest (seen\<lparr>seen_maxRedirs := True\<rparr>) (opts\<lparr>o_maxRedirs := word_of_int m\<rparr>))
             else (case stoi value of None \<Rightarrow> None
                | Some h \<Rightarrow> http_options rest (seen\<lparr>seen_httpsOnly := True\<rparr>) (opts\<lparr>o_httpsOnly := (h \<noteq> 0)\<rparr>)))
      else Some (opts\<lparr>o_url := opt, o_path := (case args of [] \<Rightarrow> [] | p # _ \<Rightarrow> p)\<rparr>))"

definition parseHttpCliArgs :: "string list \<Rightarrow> cli_opts option" where
  "parseHttpCliArgs argv = (case http_options (drop 2 argv) none_seen default_opts of
       None \<Rightarrow> None | Some opts \<Rightarrow> if o_url opts = [] then None else Some opts)"

definition cli_call :: "bool \<Rightarrow> cli_opts \<Rightarrow> http_call" where
  "cli_call toFile opts = \<lparr>hr_method = o_method opts, hr_headers = o_headers opts, hr_body = o_body opts, hr_toFile = toFile,
     hr_target = o_path opts, hr_verify = o_verify opts, hr_httpsOnly = o_httpsOnly opts\<rparr>"

text \<open>Any exception but the end of the process becomes -1.\<close>

definition https1_FromArgs :: "((string \<times> string) list \<Rightarrow> (string \<times> string) list) \<Rightarrow> (bool \<Rightarrow> network) \<Rightarrow> int \<Rightarrow> string list \<Rightarrow> int io" where
  "https1_FromArgs hash_order connect junk argv =
     (if length argv < 3 then raise (ProcExit 0)
      else case parseHttpCliArgs argv of
        None \<Rightarrow> ret (- 1)
      | Some opts \<Rightarrow>
          catching (bnd (http_request hash_order connect junk (cli_call (argv ! 1 \<noteq> ''https1'') opts) (o_url opts) (o_maxRedirs opts) new_client)
                      (\<lambda>(r, client). ret r))
                   (ret (- 1)))"

subsection \<open>The table of the tools\<close>

record tools =
  t_botan :: botan
  t_hex :: "byte list \<Rightarrow> string"
  t_keygen :: keygen
  t_connect :: "bool \<Rightarrow> network"
  t_hash_order :: "(string \<times> string) list \<Rightarrow> (string \<times> string) list"
  t_random :: string
  t_junk :: int
  t_char :: char

text \<open>The certificates are verified in the two first tools too.\<close>

definition cli_main :: "tools \<Rightarrow> string list \<Rightarrow> (int \<times> string list) io" where
  "cli_main T argv =
     (let cmd = argv ! 1; code = (\<lambda>m. bnd m (\<lambda>r. ret (r, []))) in
      if cmd = ''download'' then code (downloadFromArgs (t_connect T True) (t_junk T) argv)
      else if cmd \<in> {''x0at'', ''0x0st'', ''fileio''} then code (upload_x0at_0x0st (t_connect T True) (t_junk T) (t_random T) argv)
      else if cmd \<in> {''https1'', ''httpsd''} then code (https1_FromArgs (t_hash_order T) (t_connect T) (t_junk T) argv)
      else if cmd = ''ssh-keygen'' then code (sshKeygenFromArgs (t_keygen T) argv)
      else if cmd \<in> {''hashNames'', ''hash''} then hashFromArgs (t_botan T) (t_hex T) argv
      else createFileFromArgs (t_botan T) (t_hex T) (t_char T) argv)"

subsection \<open>Numbers\<close>

lemma digit_start: "c_isdigit c \<Longrightarrow> \<not> c_isspace c \<and> c \<noteq> CHR ''-'' \<and> c \<noteq> CHR ''+''"
  by (auto simp: c_isdigit_def c_isspace_def)

lemma dec_prefix_dec:
  assumes "s = [] \<or> \<not> c_isdigit (hd s)"
  shows "dec_prefix (dec_string n @ s) = Some (int n)"
proof -
  obtain c cs where d: "dec_string n = c # cs" using dec_string_not_Nil by (cases "dec_string n") auto
  have "c_isdigit c" using dec_string_digits [of n] d by simp
  note c = digit_start [OF this]
  have "takeWhile c_isdigit (dec_string n @ s) = dec_string n"
    using dec_string_digits [of n] assms by (cases s) (simp_all add: takeWhile_append takeWhile_eq_all_conv)
  then have "takeWhile c_isdigit (c # cs @ s) = c # cs" using d by simp
  moreover have "dropWhile c_isspace (c # cs @ s) = c # cs @ s" using c by simp
  ultimately show ?thesis using c digits_val_dec [of n] d by (simp add: dec_prefix_def Let_def)
qed

lemma stoull_dec: "stoull (dec_string n) = (if n < 2 ^ 64 then Some (of_nat n) else None)"
proof -
  have "\<bar>int n\<bar> < 2 ^ 64 \<longleftrightarrow> n < 2 ^ 64" by (simp flip: of_nat_less_iff)
  then show ?thesis using dec_prefix_dec [of "[]" n] by (simp add: stoull_def)
qed

text \<open>The suffixes and what they multiply with.\<close>

definition size_units :: "(string \<times> nat) list" where
  "size_units = [([], 1), (''b'', 1), (''B'', 1), (''kb'', 1000), (''kB'', 1024), (''Mb'', 1000000), (''MB'', 1048576),
     (''Gb'', 1000000000), (''GB'', 1073741824)]"

lemma parseSize_run:
  assumes "(u, m) \<in> set size_units"
  shows "parseSizeString junk (dec_string n @ u) = (if n < 2 ^ 64 then Some (of_nat (n * m)) else None)"
proof -
  obtain ds c where d: "dec_string n = ds @ [c]" using dec_string_not_Nil by (cases "dec_string n" rule: rev_cases) auto
  have c: "c_isdigit c" using dec_string_digits [of n] d by simp
  have ndig: "\<not> c_isdigit CHR ''b''" "\<not> c_isdigit CHR ''B''" by (simp_all add: c_isdigit_def)
  have letters: "c \<noteq> CHR ''k''" "c \<noteq> CHR ''M''" "c \<noteq> CHR ''G''" using c by (auto simp: c_isdigit_def)
  have st: "stoull (ds @ [c]) = (if n < 2 ^ 64 then Some (of_nat n) else None)" using stoull_dec [of n] d by simp
  show ?thesis
    using assms unfolding size_units_def list.set insert_iff empty_iff prod.inject simp_thms
    by (elim disjE conjE) (simp_all add: parseSizeString_def Let_def d c ndig letters st nth_append)
qed

text \<open>
  C30: sizes of the command line. A number with one of the units is read as the number times the unit, in 64 bits: a product
  of 2^64 and more wraps around. A number that does not fit in 64 bits is an error.
\<close>

theorem parseSizeString_units:
  assumes "(u, m) \<in> set size_units"
  shows "parseSizeString junk (dec_string n @ u) = (if n < 2 ^ 64 then Some (of_nat (n * m)) else None)"
  by (rule parseSize_run [OF assms])

subsection \<open>The tool that creates files\<close>

lemma labels_nonempty: "[] \<notin> set cli_hashLabels"
  by code_simp

lemma find_str_start: "find_str s p = Some 0 \<longleftrightarrow> starts_with s p"
  by (cases s) (auto simp: starts_with_def)

lemma starts_with_self: "starts_with (p @ s) p"
  by (simp add: starts_with_def)

lemma label_index:
  assumes "k < length cli_hashLabels"
  shows "vecIndexOf cli_hashLabels (cli_hashLabels ! k) = int k"
proof -
  have "distinct cli_hashLabels" by code_simp
  moreover have "vecIndexOf xs (xs ! k) = int k" if "distinct xs" "k < length xs" for xs :: "string list" and k
    using that
  proof (induction xs arbitrary: k)
    case (Cons x xs)
    then show ?case by (cases k) (auto simp: Let_def)
  qed simp
  ultimately show ?thesis using assms by blast
qed

lemma starts_with_simps [simp]: "starts_with s []" "\<not> starts_with [] (p # ps)" "starts_with (x # xs) (p # ps) \<longleftrightarrow> x = p \<and> starts_with xs ps"
  by (auto simp: starts_with_def)


text \<open>
  The digest of an empty file is not computed. For size zero the tool prints, as the CRC32 of the file, the label
  that was asked for.
\<close>

theorem empty_file_label_printed:
  assumes "(u, m) \<in> set size_units" and "toUpperCase label \<in> set cli_hashLabels"
  shows "\<exists>r w'. createFileFromArgs B hex junk [exe, ''create'', path, dec_string 0 @ u, ''--output-hash='' @ label] w
    = (Ret (r, [''CRC32 for the generated file is: '' @ toUpperCase label]), w')"
proof -
  have parse: "parseSizeString junk (dec_string 0 @ u) = Some 0" using parseSize_run [OF assms(1), of junk 0] by simp
  have opts: "create_options [''--output-hash='' @ label] ([], [], []) = Some ([], toUpperCase label, [])"
    using assms(2) by (simp add: find_str_start Let_def)
  have lab: "toUpperCase label \<noteq> []" using assms(2) labels_nonempty by metis
  obtain r w' where t: "touch_file path w = (Ret r, w')"
    by (cases "fd_create path FM_XCL w") (auto simp: touch_file_def bnd_app ret_app fd_create_def Let_def split: prod.splits sum.splits)
  show ?thesis
    using parse opts lab t
    by (intro exI [of _ r] exI [of _ w']) (simp add: createFileFromArgs_def Let_def bnd_app ret_app create_line_def cli_hashLabels_def)
qed

subsection \<open>Options of a request\<close>

text \<open>The options as they are meant, as they are written, and their effect.\<close>

datatype cli_option = Insecure | Header string string | Body string | Method string | Max_redirs nat | Https_only bool

primrec option_name :: "cli_option \<Rightarrow> string" where
  "option_name Insecure = ''-k''"
| "option_name (Header k v) = ''-H''"
| "option_name (Body b) = ''-d''"
| "option_name (Method m) = ''-X''"
| "option_name (Max_redirs n) = ''--max-redirs''"
| "option_name (Https_only b) = ''--httpsOnly''"

primrec option_value :: "cli_option \<Rightarrow> string list" where
  "option_value Insecure = []"
| "option_value (Header k v) = [k @ '': '' @ v]"
| "option_value (Body b) = [b]"
| "option_value (Method m) = [m]"
| "option_value (Max_redirs n) = [dec_string n]"
| "option_value (Https_only b) = [if b then ''1'' else ''0'']"

primrec apply_option :: "cli_option \<Rightarrow> cli_opts \<Rightarrow> cli_opts" where
  "apply_option Insecure opts = opts\<lparr>o_verify := False\<rparr>"
| "apply_option (Header k v) opts = opts\<lparr>o_headers := AList.update k v (o_headers opts)\<rparr>"
| "apply_option (Body b) opts = opts\<lparr>o_body := b\<rparr>"
| "apply_option (Method m) opts = opts\<lparr>o_method := m\<rparr>"
| "apply_option (Max_redirs n) opts = opts\<lparr>o_maxRedirs := of_nat n\<rparr>"
| "apply_option (Https_only b) opts = opts\<lparr>o_httpsOnly := b\<rparr>"

definition option_line :: "cli_option list \<Rightarrow> string list" where
  "option_line os = concat (map (\<lambda>x. option_name x # option_value x) os)"

definition option_ok :: "cli_option \<Rightarrow> bool" where
  "option_ok x \<longleftrightarrow> (case x of Header k v \<Rightarrow> CHR '':'' \<notin> set k | Max_redirs n \<Rightarrow> n < 2 ^ 31 | _ \<Rightarrow> True)"

text \<open>Only headers are repeated.\<close>

definition options_ok :: "cli_option list \<Rightarrow> bool" where
  "options_ok os \<longleftrightarrow> distinct (filter (\<lambda>s. s \<noteq> ''-H'') (map option_name os)) \<and> list_all option_ok os"

definition option_names :: "string set" where
  "option_names = {''-k'', ''--insecure'', ''-H'', ''-d'', ''-X'', ''--max-redirs'', ''--httpsOnly''}"

lemma header_split: "CHR '':'' \<notin> set k \<Longrightarrow> find_str (k @ CHR '':'' # CHR '' '' # v) '': '' = Some (length k)"
  by (induction k) (auto simp: starts_with_def neq_commute)

lemma stoi_dec: "n < 2 ^ 31 \<Longrightarrow> stoi (dec_string n) = Some (int n)"
  using dec_prefix_dec [of "[]" n] by (simp add: stoi_def)

lemma stoi_flag: "stoi ''1'' = Some 1" "stoi ''0'' = Some 0"
  by code_simp+

lemma options_parsed:
  assumes "options_ok os" "url \<notin> option_names"
    and "seen_verify seen \<longrightarrow> ''-k'' \<notin> option_name ` set os" "seen_body seen \<longrightarrow> ''-d'' \<notin> option_name ` set os"
    "seen_method seen \<longrightarrow> ''-X'' \<notin> option_name ` set os" "seen_maxRedirs seen \<longrightarrow> ''--max-redirs'' \<notin> option_name ` set os"
    "seen_httpsOnly seen \<longrightarrow> ''--httpsOnly'' \<notin> option_name ` set os"
  shows "http_options (option_line os @ url # rest) seen opts
    = Some ((fold apply_option os opts)\<lparr>o_url := url, o_path := (case rest of [] \<Rightarrow> [] | p # _ \<Rightarrow> p)\<rparr>)"
  using assms
proof (induction os arbitrary: seen opts)
  case Nil
  then show ?case by (auto simp: option_names_def option_line_def)
next
  case (Cons x os)
  have ok: "options_ok os" "option_ok x" using Cons.prems(1) by (simp_all add: options_ok_def split: if_splits)
  have once: "option_name x \<noteq> ''-H'' \<longrightarrow> option_name x \<notin> option_name ` set os" using Cons.prems(1) by (auto simp: options_ok_def)
  have line: "option_line (x # os) @ url # rest = option_name x # option_value x @ (option_line os @ url # rest)"
    by (simp add: option_line_def)
  show ?case
    using Cons.prems once ok(2) unfolding line
    by (cases x) (simp_all add: Cons.IH ok(1) Cons.prems(2) header_split stoi_dec stoi_flag option_ok_def)
qed

text \<open>
  C27: the options of a request are read back as they are written, in any order: method, headers, body, limit, certificates and
  protocol. What is not given has its default, and of two headers with one name the last one counts.
\<close>

theorem parseHttpCliArgs_roundtrip:
  assumes "options_ok os" and "url \<notin> option_names" and "url \<noteq> []"
  shows "parseHttpCliArgs (exe # tool # option_line os @ url # rest)
    = Some ((fold apply_option os default_opts)\<lparr>o_url := url, o_path := (case rest of [] \<Rightarrow> [] | p # _ \<Rightarrow> p)\<rparr>)"
  using options_parsed [OF assms(1,2), of none_seen rest default_opts] assms(3)
  by (simp add: parseHttpCliArgs_def none_seen_def)

subsection \<open>Witnesses\<close>

lemma label_md5: "1 < length cli_hashLabels" "toUpperCase ''md5'' = cli_hashLabels ! 1"
  by (simp_all add: cli_hashLabels_def toUpperCase_def char_of_def bit_iff_odd)

theorem parseSizeString_units_witness: "parseSizeString CHR ''0'' (dec_string 5 @ ''kB'') = Some 5120"
  using parseSizeString_units [of "''kB''" 1024 "CHR ''0''" 5] by (simp add: size_units_def)


theorem empty_file_label_printed_witness:
  "\<exists>r w'. createFileFromArgs xor_botan (\<lambda>_. ''digest'') CHR ''0'' [''xfr'', ''create'', ''/rnd'', dec_string 0 @ ''b'', ''--output-hash='' @ ''md5''] world0
    = (Ret (r, [''CRC32 for the generated file is: '' @ toUpperCase ''md5'']), w')"
  by (rule empty_file_label_printed [of _ 1]) (use label_md5 nth_mem in \<open>simp_all add: size_units_def del: append_Cons\<close>)

theorem parseHttpCliArgs_roundtrip_witness:
  "parseHttpCliArgs (''xfr'' # ''https1'' # option_line [Insecure, Header ''A'' ''1'', Method ''PUT'', Header ''A'' ''2'', Max_redirs 3] @ ''b/x'' # [])
    = Some (default_opts\<lparr>o_verify := False, o_headers := [(''A'', ''2'')], o_method := ''PUT'', o_maxRedirs := 3, o_url := ''b/x'', o_path := []\<rparr>)"
proof -
  have "options_ok [Insecure, Header ''A'' ''1'', Method ''PUT'', Header ''A'' ''2'', Max_redirs 3]" "''b/x'' \<notin> option_names"
    by (simp_all add: options_ok_def option_ok_def option_names_def)
  from parseHttpCliArgs_roundtrip [OF this, of "''xfr''" "''https1''" "[]"] show ?thesis
    by (simp add: default_opts_def del: append_Cons)
qed

end
