(* ===== verification/RH_Harmless.thy ===== *)
theory RH_Harmless
  imports RH_Session
begin

section \<open>What a remote client can do to the files of a server\<close>

text \<open>
  The requests that \<open>serve_remote\<close> (xre.h, \<open>tlsServerSessionEventLoop\<close>) accepts, for every input, every error of a system
  call and every way to leave a handler: which of them change the file system, and what a whole session leaves of the
  files that were there. A property of the file system that the system calls of the handlers keep is kept by every
  session (locale \<open>fs_invariant\<close>).
\<close>

subsection \<open>Properties that are kept\<close>

text \<open>\<open>Q\<close> is about the value, if the computation returns.\<close>

definition holds :: "(fs \<Rightarrow> bool) \<Rightarrow> 'a io \<Rightarrow> ('a \<Rightarrow> bool) \<Rightarrow> bool" where
  "holds I m Q \<longleftrightarrow> (\<forall>w. I (wfs w) \<longrightarrow> I (wfs (snd (m w))) \<and> (\<forall>a. fst (m w) = Ret a \<longrightarrow> Q a))"

abbreviation keeps :: "(fs \<Rightarrow> bool) \<Rightarrow> 'a io \<Rightarrow> bool" where
  "keeps I m \<equiv> holds I m (\<lambda>_. True)"

named_theorems keeps_rules

lemma holds_bnd: "\<lbrakk>holds I m Q; \<And>a. Q a \<Longrightarrow> holds I (f a) R\<rbrakk> \<Longrightarrow> holds I (bnd m f) R"
  unfolding holds_def bnd_app by (simp split: prod.split outcome.split) (metis fst_conv snd_conv)

lemma keeps_bnd [keeps_rules]: "\<lbrakk>keeps I m; \<And>a. holds I (f a) Q\<rbrakk> \<Longrightarrow> holds I (bnd m f) Q"
  by (rule holds_bnd)

lemma keeps_thn [keeps_rules]: "\<lbrakk>keeps I m; holds I n Q\<rbrakk> \<Longrightarrow> holds I (thn m n) Q"
  unfolding thn_def by (rule keeps_bnd)

lemma holds_ret: "Q a \<Longrightarrow> holds I (ret a) Q"
  by (simp add: holds_def ret_app)

lemma keeps_same: "(\<And>w. wfs (snd (m w)) = wfs w) \<Longrightarrow> keeps I m"
  by (simp add: holds_def)

lemma keeps_basic [keeps_rules]:
  "keeps I (ret a)" "holds I (raise e) Q" "holds I threadExit Q" "keeps I (get g)" "keeps I (set_errno k)" "keeps I (io_query q)"
  "keeps I (readAllOrExit h n)" "keeps I (writeAllOrExit h bs)" "keeps I (writeRaw h bs)" "keeps I (closeDesc h)"
  "keeps I (fd_create p FM_READ)" "keeps I (fd_readAllOrExit d n)" "keeps I getProgressHook" "keeps I (publishDelta n)"
  by (auto simp: holds_def ret_app raise_app threadExit_app get_app set_errno_app io_query_def readAllOrExit_def writeAllOrExit_def
      writeRaw_def closeDesc_def fd_create_def fd_readAllOrExit_def getProgressHook_def publishDelta_def modify_app set_conn_def Let_def
      split: sum.splits option.splits)

lemma keeps_if [keeps_rules]: "\<lbrakk>b \<Longrightarrow> holds I m Q; \<not> b \<Longrightarrow> holds I n Q\<rbrakk> \<Longrightarrow> holds I (if b then m else n) Q"
  by simp

lemma keeps_option [keeps_rules]: "\<lbrakk>holds I m Q; \<And>a. holds I (f a) Q\<rbrakk> \<Longrightarrow> holds I (case x of None \<Rightarrow> m | Some a \<Rightarrow> f a) Q"
  by (cases x) simp_all

lemma keeps_sum [keeps_rules]: "\<lbrakk>\<And>a. holds I (f a) Q; \<And>b. holds I (g b) Q\<rbrakk> \<Longrightarrow> holds I (case x of Inl a \<Rightarrow> f a | Inr b \<Rightarrow> g b) Q"
  by (cases x) simp_all

lemma keeps_prod [keeps_rules]: "(\<And>x y. holds I (g x y) Q) \<Longrightarrow> holds I (case p of (x, y) \<Rightarrow> g x y) Q"
  by (cases p) simp

lemma keeps_quiet: "quiet m v \<Longrightarrow> keeps I m"
proof (rule keeps_same)
  fix w
  assume "quiet m v"
  from quietD [OF this, of w] show "wfs (snd (m w)) = wfs w" by auto
qed

lemma keeps_io_for [keeps_rules]: "(\<And>x. keeps I (b x)) \<Longrightarrow> keeps I (io_for xs b)"
  by (induction xs) (auto intro: keeps_rules)

lemma holds_io_fold: "\<lbrakk>\<And>s x. J s \<Longrightarrow> holds I (f s x) J; J s\<rbrakk> \<Longrightarrow> holds I (io_fold f s xs) J"
  by (induction xs arbitrary: s) (auto intro: holds_ret holds_bnd)

lemma keeps_fold: "\<lbrakk>\<And>s x. J s \<Longrightarrow> holds I (f s x) J; J s\<rbrakk> \<Longrightarrow> keeps I (io_fold f s xs)"
  using holds_io_fold [of J I f s xs] by (simp add: holds_def)

lemma keeps_io_fold [keeps_rules]: "(\<And>s x. keeps I (f s x)) \<Longrightarrow> keeps I (io_fold f s xs)"
  by (rule holds_io_fold) simp_all

lemma keeps_loop [keeps_rules]: "(\<And>s. keeps I (body s)) \<Longrightarrow> keeps I (io_loop h body s)"
proof -
  assume body: "\<And>s. keeps I (body s)"
  have "keeps I (io_iter n body s)" for n s
    by (induction n arbitrary: s) (auto intro!: keeps_rules body)
  then show ?thesis by (simp add: holds_def io_loop_def del: io_iter.simps)
qed

subsection \<open>Handlers that only look\<close>

lemma keeps_texts [keeps_rules]:
  "keeps I (sendBaseResponse r h)" "keeps I (sendOkResponse h)" "keeps I (sendErrorResponse h)" "keeps I (deny h)"
  "keeps I (writeStringWithLen h s)" "keeps I (writels_resp h x)" "keeps I (writesingleStats_resp h y)"
  "keeps I (writefolderStats_resp h z)" "keeps I (readStringWithLen h)" "keeps I (readPairOfStringsWithPairOfLens h)"
  unfolding sendOkResponse_def sendErrorResponse_def deny_def sendBaseResponse_def writeStringWithLen_def writels_resp_def
    writesingleStats_resp_def writefolderStats_resp_def readStringWithLen_def readPairOfStringsWithPairOfLens_def Let_def
  by (intro keeps_rules)+

lemma keeps_queries [keeps_rules]:
  "keeps I (osStat p)" "keeps I (existsIsFileIsDir0 p)" "keeps I (existsIsFileIsDir0_st p)" "keeps I (assemble_ls_resp_from_filepath p n b)"
  using keeps_quiet quiet_osStat quiet_existsIsFileIsDir0 quiet_existsIsFileIsDir0_st quiet_assemble by blast+

lemma keeps_efdL [keeps_rules]: "keeps I (efdL p)"
  using quiet_efdL keeps_quiet by blast

lemma keeps_it_each [keeps_rules]: "(\<And>it s. keeps I (body it s)) \<Longrightarrow> keeps I (it_each body it s)"
proof -
  assume body: "\<And>it s. keeps I (body it s)"
  have next1: "keeps I (it_next it)" for it
    unfolding it_next_def descends_def smartVisitSymlink_def Let_def
    by (auto intro!: keeps_rules split: list.splits ListingMode.splits)
  have "keeps I (it_fold n body it s)" for n it s
    by (induction n arbitrary: it s) (auto intro!: keeps_rules body next1)
  then show ?thesis unfolding it_each_def by (intro keeps_rules)
qed

lemma keeps_iterators [keeps_rules]: "keeps I (createIterator d m n l srt flt)" "keeps I (plain_iterator d)"
  unfolding plain_iterator_def createIterator_def Let_def by (intro keeps_rules)+

lemma keeps_ls [keeps_rules]: "keeps I (listDir h)" "keeps I (retrieveHomePath h)"
  unfolding listDir_def send_entry_def retrieveHomePath_def Let_def by (intro keeps_rules)+

lemma keeps_hash_loop [keeps_rules]: "keeps I (hash_loop n d acc)"
  by (induction n arbitrary: d acc) (auto intro!: keeps_rules)

lemma keeps_computeHash [keeps_rules]: "keeps I (rh_computeHash B p a acc fin)"
  unfolding rh_computeHash_def by (intro keeps_rules)

lemma keeps_totals [keeps_rules]:
  "keeps I (accumulateChildrenFilesAndFoldersCount p r)" "keeps I (accumulateTotalFilesAndFoldersCount p r)" "keeps I (osGetSize p b)"
  unfolding accumulateChildrenFilesAndFoldersCount_def accumulateTotalFilesAndFoldersCount_def osGetSize_def by (intro keeps_rules)+

lemma keeps_hash_dir [keeps_rules]: "keeps I (rh_computeHash_dir B p a opts)"
  unfolding rh_computeHash_dir_def Let_def by (intro keeps_rules)

lemma keeps_hashFile [keeps_rules]: "keeps I (hashFile B h)"
  unfolding hashFile_def rh_computeHash_wrapper_def Let_def by (intro keeps_rules)

lemma keeps_accumulate_dir [keeps_rules]: "keeps I (accumulate_dir p s)"
  unfolding accumulate_dir_def by (intro keeps_rules)

lemma keeps_stats [keeps_rules]: "keeps I (stats h fl)"
  unfolding stats_def stats_file_def stats_dir_def stats_multiple_def stats_multiple_round_def by (intro keeps_rules)

lemma keeps_count [keeps_rules]: "keeps I (countTotalStatsIntoMap n p m)"
  by (induction n arbitrary: p m) (auto simp: Let_def intro!: keeps_rules keeps_quiet [OF quiet_osGetSize_file])

lemma keeps_opt_write [keeps_rules]: "keeps I (opt_write out bs)"
  unfolding opt_write_def by (intro keeps_rules)

lemma keeps_upload [keeps_rules]: "keeps I (genericUploadBasicRecursiveImplWithProgress n s d net out)"
  by (induction n arbitrary: s d)
    (auto simp: OSUploadRegularFileWithProgress_def upload_chunk_def Let_def intro!: keeps_rules)

lemma keeps_server_download [keeps_rules]: "keeps I (server_download h)"
  unfolding server_download_def receivePathPairsList_def receive_pair_step_def count_items_def countStats_def upload_item_def
  by (intro keeps_rules)

lemma keeps_controlCursor [keeps_rules]: "keeps I (controlCursor h)"
  unfolding controlCursor_def by (intro keeps_rules)

text \<open>
  C8: the requests that only look. Listings, the exposed directory, statistics, digests, downloads and the control of the
  cursor leave the file system of the server as it is: for every input, after every error, and when the session breaks off.
\<close>

theorem queries_read_only:
  assumes "control_code (request rq) \<in> {ACTION_LS, ACTION_STATS, ACTION_HASH, ACTION_DOWNLOAD, ACTION_OTHER}"
  shows "wfs (snd (serve_remote B hex h rq w)) = wfs w"
proof -
  have "keeps I (serve_remote B hex h rq)" for I
    using assms unfolding serve_remote_def by (auto intro!: keeps_rules)
  from this [of "\<lambda>f. f = wfs w"] show ?thesis by (simp add: holds_def)
qed

subsection \<open>Handlers that create\<close>

locale fs_invariant =
  fixes I :: "fs \<Rightarrow> bool" and own :: "fd \<Rightarrow> bool"
  assumes mkdir: "I f \<Longrightarrow> I (snd (sys_mkdir p m f))"
    and link: "I f \<Longrightarrow> I (snd (sys_link old p f))"
    and symlink: "I f \<Longrightarrow> I (snd (sys_symlink target p f))"
    and excl: "\<lbrakk>I f; sys_open_excl p f = (Inr d, f')\<rbrakk> \<Longrightarrow> I f' \<and> own d"
    and written: "\<lbrakk>I f; own d\<rbrakk> \<Longrightarrow> I (snd (sys_write d bs f))"
    and advance: "own d \<Longrightarrow> own (fd_advance n d)"
begin

lemma holds_create: "holds I (fd_create p FM_XCL) (\<lambda>r. case r of Inl e \<Rightarrow> True | Inr d \<Rightarrow> own d)"
  using excl by (fastforce simp: holds_def fd_create_def Let_def split: prod.splits sum.splits)

lemma keeps_create: "keeps I (fd_create p FM_XCL)"
  using holds_create by (simp add: holds_def)

lemma keeps_create_bnd:
  "\<lbrakk>\<And>e. holds I (f (Inl e)) Q; \<And>d. own d \<Longrightarrow> holds I (f (Inr d)) Q\<rbrakk> \<Longrightarrow> holds I (bnd (fd_create p FM_XCL) f) Q"
  by (rule holds_bnd [OF holds_create]) (auto split: sum.splits)

lemma holds_write: "own d \<Longrightarrow> holds I (fd_writeAllOrExit d bs) own"
  unfolding holds_def fd_writeAllOrExit_def
  by (auto split: prod.splits intro: advance) (metis written snd_conv)

lemma keeps_update: "(\<And>f. I f \<Longrightarrow> I (snd (u f))) \<Longrightarrow> keeps I (io_update u)"
  unfolding holds_def io_update_def by (auto split: prod.splits) (metis snd_conv)+

lemma keeps_mkpath: "keeps I (mkpath p m eo)"
proof -
  have "keeps I (mkpath_loop s m eo js)" for s js
    by (induction js) (auto intro!: keeps_rules keeps_update mkdir)
  then show ?thesis unfolding mkpath_def Let_def by (intro keeps_rules)
qed

lemma keeps_mkcopy: "keeps I (mkpathCopyPermissionsFromNearestAncestor p eo)"
proof -
  have "keeps I (nearest_from s)" for s
    by (induction s rule: nearest_from.induct) (subst nearest_from.simps, auto simp: Let_def intro!: keeps_rules)
  then show ?thesis
    unfolding mkpathCopyPermissionsFromNearestAncestor_def statNearestAncestor_def Let_def by (intro keeps_rules keeps_mkpath)
qed

lemma keeps_hook: "keeps I (ls_publishDelta h n)"
proof -
  have "keeps I (hook_sample h)"
    by (rule keeps_same) (auto simp: hook_sample_def writeAllOrExit_def set_conn_def Let_def split: prod.splits outcome.splits exn.splits)
  then have "keeps I (io_for xs (\<lambda>_. hook_sample h))" for xs :: "nat list" by (rule keeps_io_for)
  then have "keeps I (hook_wakeups h)" by (simp add: holds_def hook_wakeups_def)
  then show ?thesis unfolding ls_publishDelta_def by (intro keeps_rules)
qed

lemma keeps_link: "keeps I (createHardOrSoftLink h fl)"
  unfolding createHardOrSoftLink_def Let_def by (auto intro!: keeps_rules keeps_update link symlink)

lemma keeps_createEmptyFile: "keeps I (createEmptyFile p sz h)"
proof -
  have "keeps I (io_fold (zero_chunk h) d js)" if "own d" for d js
  proof -
    have "holds I (zero_chunk h d n) own" if "own d" for d n
      unfolding zero_chunk_def by (rule holds_bnd [OF holds_write [OF that]]) (intro keeps_thn keeps_hook holds_ret)
    with that show ?thesis by (intro keeps_fold [of own])
  qed
  then show ?thesis
    unfolding createEmptyFile_def
    by (intro keeps_create_bnd; simp only: sum.case) (auto intro!: keeps_thn keeps_if keeps_basic keeps_texts)
qed

lemma keeps_createRandomFile: "keeps I (createRandomFile B hex p sz seed oh cipher h)"
proof -
  have fold: "keeps I (io_fold (rand_chunk B h c k) s js)" if "own (fst s)" for c k s js
  proof -
    have "holds I (rand_chunk B h c k s n) (own \<circ> fst)" if "(own \<circ> fst) s" for s n
      using that unfolding rand_chunk_def Let_def
      by (cases s) (auto intro!: holds_bnd [OF holds_write] keeps_thn keeps_hook holds_ret)
    with that show ?thesis by (intro keeps_fold [of "own \<circ> fst"]) simp_all
  qed
  show ?thesis unfolding createRandomFile_def Let_def
    by (intro keeps_if keeps_create_bnd) (auto intro!: keeps_rules fold)
qed

lemma keeps_createFileOrDirectory: "keeps I (createFileOrDirectory B hex h fl)"
  unfolding createFileOrDirectory_def create_advanced_def read_if_def Let_def
  by (intro keeps_rules keeps_mkpath keeps_create keeps_createEmptyFile keeps_createRandomFile)

lemma keeps_download_file: "keeps I (download_file rcl cl item)"
proof -
  have "keeps I (io_fold (download_chunk rcl cl) (d, 0) js)" if "own d" for d js
  proof -
    have "holds I (download_chunk rcl cl s n) (own \<circ> fst)" if "(own \<circ> fst) s" for s n
      using that unfolding download_chunk_def Let_def
      by (auto intro!: keeps_bnd keeps_thn keeps_basic keeps_opt_write holds_bnd [OF holds_write] holds_ret)
    with that show ?thesis by (intro keeps_fold [of "own \<circ> fst"]) simp_all
  qed
  then show ?thesis unfolding download_file_def Let_def
    by (intro keeps_bnd [OF keeps_mkcopy] keeps_if keeps_create_bnd; simp only: sum.case)
      (auto intro!: keeps_thn keeps_basic keeps_opt_write)
qed

lemma keeps_upload_request: "keeps I (downloadRemoteItems rcl cl)"
  unfolding downloadRemoteItems_def download_item_def read_fileitem_sock_t_def Let_def
  by (intro keeps_rules keeps_download_file keeps_mkcopy)

lemma keeps_serve_remote: "keeps I (serve_remote B hex h rq)"
  unfolding serve_remote_def
  by (auto intro!: keeps_rules keeps_createFileOrDirectory keeps_link keeps_upload_request split: ControlCodes.split)

lemma keeps_session: "keeps I (tlsServerSessionEventLoop B hex h)"
proof -
  have "keeps I (io_loop h (remote_round B hex h) ())"
    unfolding remote_round_def by (intro keeps_rules keeps_serve_remote)
  then show ?thesis
    unfolding tlsServerSessionEventLoop_def by (auto simp: holds_def catch_all_def split: prod.splits outcome.splits exn.splits)
qed

end

subsection \<open>What is kept\<close>

text \<open>Files, links and special files as they are; directories with other entries or attributes.\<close>

definition nothing_lost :: "node \<Rightarrow> node \<Rightarrow> bool" where
  "nothing_lost t t' \<longleftrightarrow> (\<forall>l n. lookup t l = Some n \<longrightarrow>
     (\<exists>m. lookup t' l = Some m \<and> (if is_dir n then is_dir m else m = n)))"

lemma nothing_lostD: "\<lbrakk>nothing_lost t t'; lookup t l = Some n\<rbrakk> \<Longrightarrow> \<exists>m. lookup t' l = Some m \<and> (if is_dir n then is_dir m else m = n)"
  by (simp add: nothing_lost_def)

lemma nothing_lost_refl: "nothing_lost t t"
  by (simp add: nothing_lost_def)

lemma nothing_lost_trans: "\<lbrakk>nothing_lost t u; nothing_lost u v\<rbrakk> \<Longrightarrow> nothing_lost t v"
  unfolding nothing_lost_def by (metis (full_types))

lemma put_elsewhere:
  assumes "\<forall>m. lookup t l = Some m \<longrightarrow> \<not> is_dir m" "lookup t k = Some n" "k \<noteq> l"
  shows "\<exists>m. lookup (put_at l x t) k = Some m \<and> (if is_dir n then is_dir m else m = n)"
  using assms
proof (induction l arbitrary: t k)
  case Nil
  then show ?case by (cases t; cases k) auto
next
  case (Cons c cs)
  show ?case
  proof (cases t)
    case (Dir a es)
    show ?thesis
    proof (cases k)
      case Nil
      then show ?thesis using Cons.prems Dir by (auto split: option.splits)
    next
      case k: (Cons y ys)
      show ?thesis
        using Cons.prems Cons.IH [of _ ys] Dir k by (cases "map_of es c") (auto split: option.splits)
    qed
  qed (use Cons.prems in auto)
qed

lemma nothing_lost_put:
  assumes "nothing_lost t0 t" "lookup t0 l = None" "\<forall>m. lookup t l = Some m \<longrightarrow> \<not> is_dir m"
  shows "nothing_lost t0 (put_at l x t)"
  unfolding nothing_lost_def
proof (intro allI impI)
  fix k n
  assume k: "lookup t0 k = Some n"
  obtain m where m: "lookup t k = Some m" "if is_dir n then is_dir m else m = n" using nothing_lostD [OF assms(1) k] by blast
  have "k \<noteq> l" using k assms(2) by auto
  from put_elsewhere [OF assms(3) m(1) this, of x] m(2)
  show "\<exists>m. lookup (put_at l x t) k = Some m \<and> (if is_dir n then is_dir m else m = n)" by (auto split: if_splits)
qed

lemma lost_missing: "\<lbrakk>nothing_lost t0 t; lookup t l = None\<rbrakk> \<Longrightarrow> lookup t0 l = None"
  using nothing_lostD by (cases "lookup t0 l") fastforce+

text \<open>A path that is \<open>Missing\<close> has an ordinary last component that is not there.\<close>

lemma split_path_acc_parts: "CHR ''/'' \<notin> set acc \<Longrightarrow> set (split_path_acc acc s) \<subseteq> {c. c \<noteq> [] \<and> CHR ''/'' \<notin> set c}"
proof (induction s arbitrary: acc)
  case (Cons c s)
  show ?case using Cons.IH [of "[]"] Cons.IH [of "c # acc"] Cons.prems by simp
qed simp

lemma split_path_parts: "\<forall>c \<in> set (split_path s). c \<noteq> [] \<and> CHR ''/'' \<notin> set c"
  using split_path_acc_parts [of "[]" s] unfolding split_path_def by auto

lemma walk_Missing:
  "\<lbrakk>walk fuel t follow cur cs = Missing l; \<forall>c \<in> set cs. c \<noteq> [] \<and> CHR ''/'' \<notin> set c\<rbrakk>
   \<Longrightarrow> lookup t l = None \<and> l \<noteq> [] \<and> good_name (last l)"
proof (induction fuel t follow cur cs rule: walk.induct)
  case (2 fuel t follow cur c cs)
  have parts: "\<forall>c \<in> set (split_path s @ cs). c \<noteq> [] \<and> CHR ''/'' \<notin> set c" for s
    using "2.prems"(2) split_path_parts by auto
  show ?case
  proof (cases "c = ''.'' \<or> c = ''..''")
    case True
    then show ?thesis using 2 by auto
  next
    case False
    then show ?thesis
      using "2.IH"(3-5) "2.prems" parts
      by (auto simp: good_name_def split: if_splits option.splits node.splits nat.splits)
  qed
qed simp

lemma resolve_Missing: "resolve f follow p = Missing l \<Longrightarrow> lookup (root f) l = None \<and> l \<noteq> [] \<and> good_name (last l)"
  using walk_Missing [OF _ split_path_parts] by (auto simp: resolve_def split: if_splits)

lemma excl_missing:
  assumes "sys_open_excl p f = (Inr d, f')"
  shows "lookup (root f) (fd_loc d) = None \<and> fd_loc d \<noteq> [] \<and> good_name (last (fd_loc d))
    \<and> f' = f\<lparr>root := put_at (fd_loc d) (Reg (new_attr 420 f) []) (root f)\<rparr>"
  using assms resolve_Missing [of f False p] by (auto simp: sys_open_excl_def split: if_splits resolved.splits)

lemma create_missing:
  obtains (same) "snd (sys_create c p n f) = f"
  | (new) l where "lookup (root f) l = None" "l \<noteq> []" "good_name (last l)" "snd (sys_create c p n f) = f\<lparr>root := put_at l n (root f)\<rparr>"
  using resolve_Missing [of f False p] by (fastforce simp: sys_create_def split: if_splits resolved.splits)

lemma mkdir_create: "snd (sys_mkdir p m f) = snd (sys_create SC_mkdir p (Dir (new_attr m f) []) f)"
  by (auto simp: sys_mkdir_def sys_create_def split: resolved.splits)

lemma link_create: "(\<exists>n. snd (sys_link old p f) = snd (sys_create SC_link p n f) \<and> (\<exists>l. lookup (root f) l = Some n)) \<or> snd (sys_link old p f) = f"
  unfolding sys_link_def stat_gen_def by (fastforce split: sum.splits if_splits resolved.splits option.splits)

lemma symlink_create: "snd (sys_symlink target p f) \<in> {f, snd (sys_create SC_symlink p (Lnk (new_attr 511 f) target) f)}"
  by (simp add: sys_symlink_def)

lemma write_put:
  obtains (same) "snd (sys_write d bs f) = f"
  | (new) a u v where "lookup (root f) (fd_loc d) = Some (Reg a u)" "snd (sys_write d bs f) = f\<lparr>root := put_at (fd_loc d) (Reg a v) (root f)\<rparr>"
proof -
  have "snd (sys_write d bs f) = f \<or> (\<exists>a u v. lookup (root f) (fd_loc d) = Some (Reg a u)
      \<and> snd (sys_write d bs f) = f\<lparr>root := put_at (fd_loc d) (Reg a v) (root f)\<rparr>)"
    by (auto simp: sys_write_def split: option.splits node.splits)
  then show ?thesis using that by blast
qed

lemma create_loses_nothing: "nothing_lost t0 (root f) \<Longrightarrow> nothing_lost t0 (root (snd (sys_create c p n f)))"
  using lost_missing by (cases rule: create_missing [of c p n f]) (auto intro!: nothing_lost_put)

interpretation lost: fs_invariant "\<lambda>f. nothing_lost t0 (root f)" "\<lambda>d. lookup t0 (fd_loc d) = None" for t0
proof
  show "nothing_lost t0 (root (snd (sys_mkdir p m f)))" if "nothing_lost t0 (root f)" for f p m
    unfolding mkdir_create by (rule create_loses_nothing [OF that])
  show "nothing_lost t0 (root (snd (sys_link old p f)))" if "nothing_lost t0 (root f)" for f old p
    using link_create [of old p f] create_loses_nothing [OF that] that by auto
  show "nothing_lost t0 (root (snd (sys_symlink target p f)))" if "nothing_lost t0 (root f)" for f target p
    using symlink_create [of target p f] create_loses_nothing [OF that] that by auto
  show "nothing_lost t0 (root f') \<and> lookup t0 (fd_loc d) = None" if "nothing_lost t0 (root f)" "sys_open_excl p f = (Inr d, f')" for f p d f'
    using excl_missing [OF that(2)] lost_missing [OF that(1)] that(1) by (auto intro!: nothing_lost_put)
  show "nothing_lost t0 (root (snd (sys_write d bs f)))" if "nothing_lost t0 (root f)" "lookup t0 (fd_loc d) = None" for f d bs
    using that by (cases rule: write_put [of d bs f]) (auto intro!: nothing_lost_put)
qed (simp add: fd_advance_def)

text \<open>
  C4: a remote client destroys nothing. Whatever bytes it sends, whichever system calls fail and however the session
  ends, every file, link and special file of the server is still there with its content and attributes, and every
  directory is still a directory: a session only adds.
\<close>

theorem session_destroys_nothing:
  "nothing_lost (root (wfs w)) (root (wfs (snd (tlsServerSessionEventLoop B hex h w))))"
  using lost.keeps_session [of "root (wfs w)" B hex h] nothing_lost_refl by (simp add: holds_def)

subsection \<open>Well-formed trees\<close>

lemma wf_update:
  assumes "distinct (map fst es)" "\<forall>e \<in> set es. good_name (fst e) \<and> wf_node (snd e)" "good_name c" "wf_node n"
  shows "wf_node (Dir a (AList.update c n es))"
proof -
  have "set (AList.update c n es) \<subseteq> insert (c, n) (set es)" by (induction es) auto
  then show ?thesis using assms by (auto simp: distinct_update)
qed

lemma wf_put: "\<lbrakk>wf_node t; wf_node n; l \<noteq> []; good_name (last l)\<rbrakk> \<Longrightarrow> wf_node (put_at l n t)"
proof (induction l arbitrary: t)
  case (Cons c cs)
  show ?case
  proof (cases t)
    case (Dir a es)
    note es = Cons.prems(1) [unfolded Dir wf_node.simps]
    show ?thesis
    proof (cases "map_of es c")
      case None
      then show ?thesis
        using Dir es Cons.prems wf_update [of es c n a] by (cases "cs = []") (simp_all del: wf_node.simps add: wf_node.simps(1) [of a es])
    next
      case (Some u)
      then have u: "wf_node u" "good_name c" using es map_of_SomeD by fastforce+
      have "wf_node (put_at cs n u)" using Cons.IH [OF u(1)] Cons.prems by (cases "cs = []") simp_all
      then show ?thesis using Dir Some es u(2) wf_update [of es c "put_at cs n u" a] by (simp del: wf_node.simps)
    qed
  qed (use Cons.prems in auto)
qed simp

lemma wf_lookup: "\<lbrakk>wf_node t; lookup t l = Some n\<rbrakk> \<Longrightarrow> wf_node n"
proof (induction l arbitrary: t)
  case (Cons c cs)
  then show ?case by (cases t) (fastforce split: option.splits dest: map_of_SomeD)+
qed simp

lemma lookup_last_good: "\<lbrakk>wf_node t; lookup t l = Some n; l \<noteq> []\<rbrakk> \<Longrightarrow> good_name (last l)"
proof (induction l arbitrary: t)
  case (Cons c cs)
  then show ?case by (cases t; cases "cs = []") (fastforce split: option.splits dest: map_of_SomeD)+
qed simp

lemma create_wf: "\<lbrakk>wf_node (root f); wf_node n\<rbrakk> \<Longrightarrow> wf_node (root (snd (sys_create c p n f)))"
  by (cases rule: create_missing [of c p n f]) (auto intro!: wf_put)

interpretation wft: fs_invariant "\<lambda>f. wf_node (root f)" "\<lambda>d. True"
proof
  show "wf_node (root (snd (sys_mkdir p m f)))" if "wf_node (root f)" for f p m
    unfolding mkdir_create using that by (intro create_wf) simp_all
  show "wf_node (root (snd (sys_link old p f)))" if "wf_node (root f)" for f old p
    using link_create [of old p f] create_wf [OF that] wf_lookup [OF that] that by auto
  show "wf_node (root (snd (sys_symlink target p f)))" if "wf_node (root f)" for f target p
    using symlink_create [of target p f] create_wf [OF that] that by auto
  show "wf_node (root f') \<and> True" if "wf_node (root f)" "sys_open_excl p f = (Inr d, f')" for f p d f'
    using excl_missing [OF that(2)] that(1) by (auto intro!: wf_put)
  show "wf_node (root (snd (sys_write d bs f)))" if "wf_node (root f)" for f d bs
  proof (cases rule: write_put [of d bs f])
    case (new a u v)
    then show ?thesis using that lookup_last_good [OF that new(1)] by (cases "fd_loc d = []") (auto intro!: wf_put)
  qed (use that in simp)
qed simp


subsection \<open>Witnesses\<close>

theorem queries_read_only_witness:
  "wfs (snd (serve_remote crc_botan (\<lambda>_. []) Rcl (request_of_byte 0x01) (feed Rcl (str_wire ''/'') world0))) = wfs (feed Rcl (str_wire ''/'') world0)"
  by (rule queries_read_only) (simp add: request_of_byte_def control_code_def)


end
