(* ===== verification/Spec2Isabelle.thy ===== *)
theory Spec2Isabelle
  imports RH_Prelude RH_Channel RH_FileSystem RH_World RH_Wire RH_Resps RH_Descriptor RH_Path RH_Files RH_Mkpath RH_Iter RH_Tree RH_Delete RH_Transfer RH_Upload RH_Store RH_Hash RH_Server RH_Client RH_Local RH_Copier RH_Remote RH_Session RH_Create RH_Unicode RH_Keygen RH_Http RH_Dispatch RH_CopyRun RH_ArchType RH_Archive RH_Talks RH_Extract RH_Walk RH_Compress RH_CompressRun RH_Service RH_P7zip RH_P7zipRun RH_ExtractRun RH_Overwrite RH_Spmc RH_SpmcFiles RH_HttpsClient RH_Cli RH_Harmless
begin
text \<open>
  XFilesRootHelper is the native file server behind the XFiles file manager. One process serves a
  local user interface over a Unix domain socket (every session is a thread: \<open>clientSession\<close>,
  r.cpp); on request it forks a server for remote clients (xre.h), which serves a subset of the
  same requests over TLS; and it can be the client of such a server, in which case it forwards the
  requests of its own user interface. Besides, it downloads by URL, uploads to file hosts, makes
  SSH keys and runs archive operations of the 7-Zip library. This library models the program as it is
  built for Linux, with the vendored libraries as parameters, and proves what its components do.

  The parts of the program, in the order of their dependencies, and the theories that model them.

  Foundations. \<open>RH_Prelude\<close>: bytes, the fixed-width integers in native byte order, strings as bytes.
  \<open>RH_FileSystem\<close>: the POSIX file system that the sources call, a tree of nodes with path resolution,
  permissions, links, errors as \<open>errno\<close> values and a table of injected faults. \<open>RH_World\<close>: the state
  of the process (file system, connections with what is still to be read and what was written, \<open>errno\<close>,
  globals) and the state monad with exceptions in which every handler is written: \<open>threadExit()\<close>,
  \<open>_Exit(n)\<close> and C++ exceptions are values of \<open>exn\<close>.

  Transport. \<open>RH_RingBuffer\<close> and \<open>RH_Channel\<close>: ReliableRingBuffer.h, the buffer between the TLS thread and
  the reader, its operations on the indices, and the two threads with mutex, condition variable and
  \<open>close\<close> as the step relation \<open>rb_step\<close>; the locale \<open>byte_channel\<close> is its interface. \<open>RH_Descriptor\<close>: the read and
  write loops of desc/IDescriptor.h over any source and any sink of bytes (locales \<open>byte_source\<close>, \<open>byte_sink\<close>,
  interpreted on the connections and on a socket that transfers as it likes), and the buffering
  descriptors. \<open>RH_Wire\<close>, \<open>RH_Resps\<close>: iowrappers_common.h, resps/, reqs/: strings, lists of pairs and
  records with their readers and writers. \<open>RH_Path\<close>, \<open>RH_Unicode\<close>: path_utils.h, homePaths.h, common_uds.h,
  args_switch.h: path functions, the request byte, the access check, conversions of names.

  The file operations of Utils.h. \<open>RH_Files\<close>: queries. \<open>RH_Mkpath\<close>: creation of directories, renaming.
  \<open>RH_Iter\<close>, \<open>RH_Tree\<close>: directory iterators (diriterator/) and the totals of a tree. \<open>RH_Delete\<close>: recursive
  deletion. \<open>RH_Transfer\<close>, \<open>RH_Upload\<close>, \<open>RH_Store\<close>: the item protocol of uploads and downloads, sender and
  receiver. \<open>RH_Hash\<close>: rh_hasher_botan.h over a parameter for the digests. \<open>RH_Copier\<close>, \<open>RH_CopyRun\<close>:
  FileCopier.h, the stack machine that copies with a dialogue about conflicts. \<open>RH_Create\<close>: files of
  zeros and of pseudo-random bytes.

  The servers. \<open>RH_Server\<close>: the handlers shared by the local and the remote server and the session loop of the
  remote server (Utils.h, xre.h). \<open>RH_Client\<close>: the \<open>client_\<close> functions of r.cpp. \<open>RH_Local\<close>: the handlers of the local
  server only. \<open>RH_Remote\<close>, \<open>RH_Session\<close>: client and server together, and whole sessions. \<open>RH_Harmless\<close>: what a
  session can do to the files of the server, for every input (locale \<open>fs_invariant\<close>: a property that the system calls of the
  handlers keep is kept by a session). \<open>RH_Keygen\<close>: tls/ssh_keygen_ed25519.h. \<open>RH_Http\<close>: tls/basic_https_client.h. \<open>RH_Dispatch\<close>: \<open>serveRequest\<close>,
  \<open>clientSession\<close>, start and stop of the remote server, \<open>main\<close>.

  Archives. \<open>RH_ArchType\<close>: archiveTypeDetector.h. \<open>RH_Archive\<close>: the 7-Zip library as a parameter (record
  \<open>sevenzip\<close>; a run of the library is a tree of calls of the callbacks and answers, about which nothing is
  assumed), listing of archives. \<open>RH_Extract\<close>: the callbacks of an extraction and \<open>extractFromArchive\<close> (archiveUtils.h,
  archiveOps.h). \<open>RH_Compress\<close>: the callbacks of a creation and \<open>compressToArchive\<close> with its variant for passed descriptors
  (same files; the encoders of the library are the record \<open>encoder\<close>). \<open>RH_CompressRun\<close>: which items are compressed, what is answered.
  \<open>RH_Service\<close>: these operations as the services of the dispatcher. \<open>RH_Talks\<close>: the predicate \<open>talks\<close> for what an
  operation writes to a connection. \<open>RH_Walk\<close>: the recursive iterator visits every node of a tree without links once.
  \<open>RH_P7zip\<close>: the functions of src/CPP/Windows and src/CPP/Common that an extraction calls to create, find, delete and write
  files; \<open>RH_P7zipRun\<close>: what they do to the tree. \<open>RH_ExtractRun\<close>: the callbacks together with these functions, an extraction
  from the first item to the last; \<open>RH_Overwrite\<close>: extraction over files that exist.

  The command line. \<open>RH_Spmc\<close>: the queue of blocks of Spmc_queue_lockfree.hpp, its producer and consumers as the step relation
  \<open>spmc_step\<close>. \<open>RH_SpmcFiles\<close>: digests and creation of files through this queue (same file). \<open>RH_HttpsClient\<close>: the class
  \<open>HTTPSClient\<close> (tls/https_requests.h). \<open>RH_Cli\<close>: cli.h, the arguments and the tools.

  Correspondence. A definition has the name of the C++ function it translates, with \<open>0\<close> for a
  trailing underscore; a loop body is a definition of its own (\<open>delete_round\<close>, \<open>download_item\<close>,
  \<open>upload_chunk\<close>, \<open>copy_step\<close>, \<open>remote_round\<close>). A handler takes the handle of its connection and runs
  in the monad: early returns, error answers and exceptions are branches. Structs are records (\<open>ls_resp_t\<close>,
  \<open>copier\<close>, \<open>httpUrlInfo\<close>), the request codes the datatype \<open>ControlCodes\<close>. Integers have their width; C strings and
  names are \<open>string\<close>, wire data \<open>byte list\<close>. A value that C++ leaves uninitialised is an argument \<open>junk\<close>.

  What the groups of lemmas show. Invariants: the indices of the ring buffer and the nodes of the queue under every
  interleaving, the decisions of the copier, the files of a server under every session. Refinement: an upload, a download, a copy and a deletion
  as a whole against a view of the tree before and after; the loops of \<open>IDescriptor\<close> against one-step reads
  and writes. Round trips and equivalences: request byte, UTF-8, key files, options of the command line, remote
  listing and statistics against the local ones, the threaded digest against the sequential one. Symbolic execution is organised by predicates: \<open>says\<close> (leaves the
  files alone and writes this), \<open>quiet\<close> (changes only \<open>errno\<close>), \<open>eats\<close> (consumes that much input, the basis of
  termination of the sessions), \<open>rets\<close> (what a returned value satisfies), \<open>talks\<close> (returns, and writes something of a
  given form), \<open>holds\<close> (keeps a property of the file system). Error behaviour: answers to refused
  and failing requests, and the places where the program misbehaves, each as a theorem.

  Fuel. Loops that read requests run on the number of unread bytes (\<open>io_loop\<close>; \<open>io_loop_unfold\<close> and \<open>eats\<close> show
  that it is enough). Traversals have the number of nodes of the tree (\<open>count_fuel\<close>, \<open>it_fuel\<close>,
  \<open>nodes_lookup\<close>). The copier takes a bound from its caller, because copying a directory into itself does not end;
  one round per node suffices (\<open>copy_request_copies_trees\<close>). \<open>OutOfFuel\<close> is an exception of its own that no theorem
  about returning admits.

  Not modelled. TLS itself (the Botan library; the network is a parameter that gives the decrypted chunks), the
  digests, ciphers and archive formats (parameters), sockets, the UDP announcement, logging and console output, the
  Windows, Android, macOS and graphical variants, the unused ReliableRingBuffer.lockfree.h and GenericFileCopier.h, and the
  vendored sources src/CPP (but for the functions named above), src/C, src/botanAm: there is no further code of the
  program's own that does more than call the operating system. Threads run one at a time except at the ring buffer and
  the queue; other processes change files only between two runs of a handler.
\<close>

end
